(* ===== verification/Prelude.thy ===== *)
theory Prelude
  imports Main "HOL-Library.Word" "HOL-Library.Monad_Syntax"
begin

text \<open>
  Shared vocabulary of the development: the C integer types of
  \<^verbatim>\<open>common/source/common.h\<close> as machine words, byte memory as a total function from
  32-bit addresses, the option monad in which a computation that never returns (a polling
  loop the hardware never satisfies) or that has no defined result (a NULL dereference)
  is \<open>None\<close>, the verification condition \<open>ok\<close> that joins partial correctness with
  termination under a liveness assumption, and the generic lemmas on lists and words.
\<close>

unbundle bit_operations_syntax

type_synonym u8 = "8 word"
type_synonym u16 = "16 word"
type_synonym u32 = "32 word"
type_synonym u64 = "64 word"
type_synonym bytes = "u8 list"
type_synonym memory = "u32 \<Rightarrow> u8"

named_theorems frame_simps \<open>which parts of the state an operation leaves alone\<close>
named_theorems ok_intros \<open>specifications of operations in the ok form\<close>

subsection \<open>Byte memory\<close>

primrec mem_read :: "memory \<Rightarrow> u32 \<Rightarrow> nat \<Rightarrow> bytes" where
  "mem_read m a 0 = []"
| "mem_read m a (Suc n) = m a # mem_read m (a + 1) n"

primrec mem_write :: "memory \<Rightarrow> u32 \<Rightarrow> bytes \<Rightarrow> memory" where
  "mem_write m a [] = m"
| "mem_write m a (b # bs) = mem_write (m(a := b)) (a + 1) bs"

lemma length_mem_read [simp]: "length (mem_read m a n) = n"
  by (induction n arbitrary: a) simp_all

lemma nth_mem_read: "i < n \<Longrightarrow> mem_read m a n ! i = m (a + of_nat i)"
proof (induction n arbitrary: a i)
  case (Suc n)
  then show ?case
    by (cases i) (simp_all add: ac_simps)
qed simp

lemma mem_read_add: "mem_read m a (j + k) = mem_read m a j @ mem_read m (a + of_nat j) k"
  by (induction j arbitrary: a) (simp_all add: ac_simps)

lemma of_nat_u32_neq:
  "i < 2 ^ 32 \<Longrightarrow> j < 2 ^ 32 \<Longrightarrow> i \<noteq> j \<Longrightarrow> (of_nat i :: u32) \<noteq> of_nat j"
  by (simp add: word_unat_eq_iff unat_of_nat)

lemma mem_write_other:
  "(\<And>i. i < length bs \<Longrightarrow> x \<noteq> a + of_nat i) \<Longrightarrow> mem_write m a bs x = m x"
proof (induction bs arbitrary: a m)
  case (Cons b bs)
  have "x \<noteq> a" using Cons.prems [of 0] by simp
  moreover have "x \<noteq> a + 1 + of_nat i" if "i < length bs" for i
    using Cons.prems [of "Suc i"] that by (simp add: add.assoc)
  ultimately show ?case using Cons.IH by simp
qed simp

lemma mem_write_nth:
  "i < length bs \<Longrightarrow> length bs \<le> 2 ^ 32 \<Longrightarrow> mem_write m a bs (a + of_nat i) = bs ! i"
proof (induction bs arbitrary: a m i)
  case (Cons b bs)
  show ?case
  proof (cases i)
    case 0
    have "a \<noteq> a + 1 + of_nat j" if "j < length bs" for j
      using that Cons.prems of_nat_u32_neq [of "Suc j" 0] by (auto simp: add.assoc)
    then show ?thesis using 0 by (simp add: mem_write_other)
  next
    case (Suc k)
    with Cons.prems have "mem_write (m(a := b)) (a + 1) bs (a + 1 + of_nat k) = bs ! k"
      by (intro Cons.IH) simp_all
    with Suc show ?thesis by (simp add: add.assoc)
  qed
qed simp

lemma mem_read_write_same:
  "length bs \<le> 2 ^ 32 \<Longrightarrow> mem_read (mem_write m a bs) a (length bs) = bs"
  by (rule nth_equalityI) (simp_all add: nth_mem_read mem_write_nth)

lemma mem_write_append:
  "mem_write m a (xs @ ys) = mem_write (mem_write m a xs) (a + of_nat (length xs)) ys"
  by (induction xs arbitrary: m a) (simp_all add: ac_simps)

lemma mem_write_cases:
  assumes "length bs \<le> 2 ^ 32"
  shows "mem_write m a bs x = (if unat (x - a) < length bs then bs ! unat (x - a) else m x)"
proof (cases "unat (x - a) < length bs")
  case True
  with mem_write_nth [OF True assms, of m a] show ?thesis by simp
next
  case False
  have "x \<noteq> a + of_nat i" if "i < length bs" for i
  proof
    assume "x = a + of_nat i"
    then have "unat (x - a) = i" using that assms by (simp add: unat_of_nat)
    with that False show False by simp
  qed
  with False show ?thesis by (simp add: mem_write_other)
qed

lemma mem_write_overwrite:
  assumes "length xs \<le> length ys" "length ys \<le> 2 ^ 32"
  shows "mem_write (mem_write m a xs) a ys = mem_write m a ys"
  using assms by (auto simp: fun_eq_iff mem_write_cases)

lemma mem_read_padded:
  assumes "length bs \<le> n" "n \<le> 2 ^ 32"
  shows "mem_read (mem_write m a bs) a n = bs @ mem_read m (a + of_nat (length bs)) (n - length bs)"
proof (rule nth_equalityI)
  fix i assume "i < length (mem_read (mem_write m a bs) a n)"
  then have i: "i < n" "unat (of_nat i :: u32) = i" using assms by (simp_all add: unat_of_nat)
  have "a + of_nat i = a + of_nat (length bs) + of_nat (i - length bs)" if "length bs \<le> i"
    using that by (simp add: of_nat_diff)
  with i assms show "mem_read (mem_write m a bs) a n ! i
      = (bs @ mem_read m (a + of_nat (length bs)) (n - length bs)) ! i"
    by (auto simp: nth_mem_read mem_write_cases nth_append)
qed (use assms in simp)

lemma mem_read_prefix:
  assumes "length bs \<le> n" "n \<le> 2 ^ 32"
  shows "\<exists>pad. mem_read (mem_write m a bs) a n = bs @ pad \<and> length pad = n - length bs"
proof -
  have "mem_read (mem_write m a bs) a n = bs @ mem_read (mem_write m a bs) (a + of_nat (length bs)) (n - length bs)"
    using assms mem_read_add [of "mem_write m a bs" a "length bs" "n - length bs"]
    by (simp add: mem_read_write_same)
  then show ?thesis by (metis length_mem_read)
qed

subsection \<open>Executable option state passing\<close>

text \<open>
  \<open>ok L m Q\<close>: when \<open>m\<close> returns, its result satisfies \<open>Q\<close>, and under the liveness
  assumption \<open>L\<close> it does return.
\<close>

definition ok :: "bool \<Rightarrow> 'a option \<Rightarrow> ('a \<Rightarrow> bool) \<Rightarrow> bool" where
  "ok L m Q \<longleftrightarrow> (case m of None \<Rightarrow> \<not> L | Some r \<Rightarrow> Q r)"

lemma ok_Some [simp]: "ok L (Some r) Q \<longleftrightarrow> Q r"
  by (simp add: ok_def)

lemma ok_mono: "ok L m P \<Longrightarrow> (\<And>r. P r \<Longrightarrow> Q r) \<Longrightarrow> ok L m Q"
  by (auto simp: ok_def split: option.splits)

lemma ok_mono_eq: "ok L m P \<Longrightarrow> (\<And>r. m = Some r \<Longrightarrow> P r \<Longrightarrow> Q r) \<Longrightarrow> ok L m Q"
  by (auto simp: ok_def split: option.splits)

lemma ok_bind: "ok L m (\<lambda>r. ok L (f r) Q) \<Longrightarrow> ok L (Option.bind m f) Q"
  by (auto simp: ok_def split: option.splits)

lemma ok_bind_rule: "ok L m P \<Longrightarrow> (\<And>r. P r \<Longrightarrow> ok L (f r) Q) \<Longrightarrow> ok L (Option.bind m f) Q"
  by (rule ok_bind, rule ok_mono)

lemma ok_conj: "ok L m P \<Longrightarrow> ok L m Q \<Longrightarrow> ok L m (\<lambda>r. P r \<and> Q r)"
  by (auto simp: ok_def split: option.splits)

lemma ok_partial: "ok L m Q \<Longrightarrow> m = Some r \<Longrightarrow> Q r"
  by (simp add: ok_def)

lemma ok_total: "ok L m Q \<Longrightarrow> L \<Longrightarrow> \<exists>r. m = Some r \<and> Q r"
  by (auto simp: ok_def split: option.splits)

lemma ok_if: "(c \<Longrightarrow> ok L m Q) \<Longrightarrow> (\<not> c \<Longrightarrow> ok L n Q) \<Longrightarrow> ok L (if c then m else n) Q"
  by simp

subsection \<open>Words\<close>

text \<open>\<^verbatim>\<open>round_up\<close> of \<^verbatim>\<open>common/source/utils.h\<close> on the int-promoted operand.\<close>

definition round_up :: "u32 \<Rightarrow> u32 \<Rightarrow> u32" where
  "round_up x n = (x + n - 1) AND NOT (n - 1)"

definition bnth :: "bytes \<Rightarrow> nat \<Rightarrow> u8" where
  "bnth bs i = (if i < length bs then bs ! i else 0)"

lemma bnth_in [simp]: "i < length bs \<Longrightarrow> bnth bs i = bs ! i"
  by (simp add: bnth_def)

lemma unat_lt2p_aux: "unat (n :: 'l::len word) < 2 ^ LENGTH('l)"
  by (rule unsigned_less)

lemma unat_u16_u32 [simp]: "unat (ucast (n :: u16) :: u32) = unat n"
  using unat_lt2p_aux [of n]
  by (simp add: unsigned_ucast_eq take_bit_nat_eq_self)

lemma unat_u8_u32 [simp]: "unat (ucast (n :: u8) :: u32) = unat n"
  using unat_lt2p_aux [of n]
  by (simp add: unsigned_ucast_eq take_bit_nat_eq_self)

lemma unat_u8_u16 [simp]: "unat (ucast (n :: u8) :: u16) = unat n"
  using unat_lt2p_aux [of n]
  by (simp add: unsigned_ucast_eq take_bit_nat_eq_self)

lemma unat_u32_u16: "unat n < 2 ^ 16 \<Longrightarrow> unat (ucast (n :: u32) :: u16) = unat n"
  by (simp add: unsigned_ucast_eq take_bit_nat_eq_self)

lemma round_up_blocks:
  fixes x :: u32
  assumes "unat x + 127 < 2 ^ 32"
  shows "unat (round_up x 0x80) = (unat x + 127) div 128 * 128"
proof -
  have m: "(0x80 - 1 :: u32) = mask 7" by (simp add: mask_eq_exp_minus_1)
  have "round_up x 0x80 = push_bit 7 (drop_bit 7 (x + 127))"
    unfolding round_up_def m
    by (rule bit_word_eqI) (auto simp: bit_and_iff bit_not_iff bit_mask_iff bit_push_bit_iff bit_drop_bit_eq add.commute)
  moreover have "unat (x + 127) = unat x + 127" using assms by (simp add: unat_word_ariths)
  moreover have "(unat x + 127) div 128 * 128 < 2 ^ 32" using assms by (rule le_less_trans [rotated]) simp
  ultimately show ?thesis
    by (simp add: push_bit_eq_mult drop_bit_eq_div unat_word_ariths unat_div_distrib)
qed

lemma round_up_0x80: "x \<le> 0x600 \<Longrightarrow> unat (round_up x 0x80) = (unat x + 127) div 128 * 128"
  by (rule round_up_blocks) (simp add: word_le_nat_alt)

subsection \<open>Transition systems\<close>

text \<open>What holds at the start and is kept by every step holds in every state that can be reached.\<close>

locale invariant_system =
  fixes step :: "'s \<Rightarrow> 's \<Rightarrow> bool" and initial :: "'s \<Rightarrow> bool" and inv :: "'s \<Rightarrow> bool"
  assumes initial_inv: "initial s \<Longrightarrow> inv s"
    and step_inv: "step s t \<Longrightarrow> inv s \<Longrightarrow> inv t"
begin

lemma steps_inv: "step\<^sup>*\<^sup>* s t \<Longrightarrow> inv s \<Longrightarrow> inv t"
  by (induction rule: rtranclp_induct) (blast intro: step_inv)+

lemma reachable_inv: "initial s \<Longrightarrow> step\<^sup>*\<^sup>* s t \<Longrightarrow> inv t"
  using steps_inv initial_inv by blast

end

subsection \<open>Rings of buffers\<close>

text \<open>
  A ring hands out its slots one after the other: \<open>slot\<close> is the index of the next one, \<open>advance\<close>
  what taking it does to the state.
\<close>

locale buffer_ring =
  fixes slot :: "'s \<Rightarrow> nat" and advance :: "'s \<Rightarrow> 's" and good :: "'s \<Rightarrow> bool" and slots :: nat
  assumes slot_less: "good s \<Longrightarrow> slot s < slots"
    and advance_good: "good s \<Longrightarrow> good (advance s)"
    and advance_slot: "good s \<Longrightarrow> slot (advance s) = (slot s + 1) mod slots"
begin

lemma taken: "good s \<Longrightarrow> good ((advance ^^ n) s) \<and> slot ((advance ^^ n) s) = (slot s + n) mod slots"
proof (induction n)
  case (Suc n)
  then show ?case by (simp add: advance_good advance_slot mod_Suc_eq)
qed (simp add: slot_less)

lemma distinct_slots:
  assumes "good s" "n \<le> slots"
  shows "distinct (map (\<lambda>i. slot ((advance ^^ i) s)) [0..<n])"
proof -
  have "i = j" if "i < n" "j < n" "(slot s + i) mod slots = (slot s + j) mod slots" for i j
    using that assms(2) mod_eq_dvd_iff_nat [of "slot s + i" "slot s + j" slots]
      mod_eq_dvd_iff_nat [of "slot s + j" "slot s + i" slots]
    by (cases i j rule: linorder_cases) (auto dest: dvd_imp_le)
  then show ?thesis using taken [OF assms(1)] by (auto simp: distinct_map inj_on_def)
qed

lemma reused: "good s \<Longrightarrow> slot ((advance ^^ slots) s) = slot s"
  using taken [of s slots] slot_less [of s] by simp

end

subsection \<open>Streaming\<close>

text \<open>
  A consumer that is fed in pieces: \<open>absorbed c m\<close> says that context \<open>c\<close> has been given the
  message \<open>m\<close>. Feeding pieces gives the context of their concatenation.
\<close>

locale streaming =
  fixes feed :: "'c \<Rightarrow> 'b list \<Rightarrow> 'c" and absorbed :: "'c \<Rightarrow> 'b list \<Rightarrow> bool" and fits :: "'b list \<Rightarrow> bool"
  assumes feed_absorbed: "absorbed c m \<Longrightarrow> fits x \<Longrightarrow> absorbed (feed c x) (m @ x)"
begin

lemma feed_all: "absorbed c m \<Longrightarrow> list_all fits xs \<Longrightarrow> absorbed (foldl feed c xs) (m @ concat xs)"
proof (induction xs arbitrary: c m)
  case (Cons x xs)
  then show ?case using Cons.IH [OF feed_absorbed [OF Cons.prems(1), of x]] by simp
qed simp

end

end
