(* ===== verification/Utils.thy ===== *)
theory Utils
  imports Prelude
begin

text \<open>
  The byte-order helpers of \<^verbatim>\<open>common/source/utils.h\<close>. A pointer argument is the view of
  memory it gives: the function from an offset to the byte found there. A \<^verbatim>\<open>put\<close> helper
  yields the bytes it stores, in address order. The lemmas are the round trips between
  the two families; every packet format of the driver rests on them.
\<close>

type_synonym view = "nat \<Rightarrow> u8"

definition view :: "memory \<Rightarrow> u32 \<Rightarrow> view" where
  "view m p i = m (p + of_nat i)"

definition getle32 :: "view \<Rightarrow> u32" where
  "getle32 p = ucast (p 0) + push_bit 8 (ucast (p 1)) + push_bit 16 (ucast (p 2))
     + push_bit 24 (ucast (p 3))"

definition getle64 :: "view \<Rightarrow> u64" where
  "getle64 p = ucast (p 0) OR push_bit 8 (ucast (p 1)) OR push_bit 16 (ucast (p 2))
     OR push_bit 24 (ucast (p 3)) OR push_bit 32 (ucast (p 4)) OR push_bit 40 (ucast (p 5))
     OR push_bit 48 (ucast (p 6)) OR push_bit 56 (ucast (p 7))"

definition getbe64 :: "view \<Rightarrow> u64" where
  "getbe64 p = 0 OR push_bit 56 (ucast (p 0)) OR push_bit 48 (ucast (p 1))
     OR push_bit 40 (ucast (p 2)) OR push_bit 32 (ucast (p 3)) OR push_bit 24 (ucast (p 4))
     OR push_bit 16 (ucast (p 5)) OR push_bit 8 (ucast (p 6)) OR push_bit 0 (ucast (p 7))"

definition getbe32 :: "view \<Rightarrow> u32" where
  "getbe32 p = push_bit 24 (ucast (p 0)) OR push_bit 16 (ucast (p 1))
     OR push_bit 8 (ucast (p 2)) OR push_bit 0 (ucast (p 3))"

definition getle16 :: "view \<Rightarrow> u32" where
  "getle16 p = push_bit 0 (ucast (p 0)) OR push_bit 8 (ucast (p 1))"

definition getbe16 :: "view \<Rightarrow> u32" where
  "getbe16 p = push_bit 8 (ucast (p 0)) OR push_bit 0 (ucast (p 1))"

definition putle16 :: "u16 \<Rightarrow> bytes" where
  "putle16 n = [ucast n, ucast (drop_bit 8 n)]"

definition putbe16 :: "u16 \<Rightarrow> bytes" where
  "putbe16 n = [ucast (drop_bit 8 n), ucast n]"

definition putle32 :: "u32 \<Rightarrow> bytes" where
  "putle32 n = [ucast n, ucast (drop_bit 8 n), ucast (drop_bit 16 n), ucast (drop_bit 24 n)]"

definition putbe64 :: "u64 \<Rightarrow> bytes" where
  "putbe64 n = [ucast (drop_bit 56 n), ucast (drop_bit 48 n), ucast (drop_bit 40 n),
     ucast (drop_bit 32 n), ucast (drop_bit 24 n), ucast (drop_bit 16 n),
     ucast (drop_bit 8 n), ucast (drop_bit 0 n)]"

lemma length_put [simp]:
  "length (putle16 n) = 2" "length (putbe16 n) = 2" "length (putle32 w) = 4"
  "length (putbe64 d) = 8"
  by (simp_all add: putle16_def putbe16_def putle32_def putbe64_def)

lemma view_mem_read: "i < n \<Longrightarrow> view m p i = mem_read m p n ! i"
  by (simp add: view_def nth_mem_read)

lemma view_view: "view m (p + of_nat j) i = view m p (j + i)"
  by (simp add: view_def add.assoc)

subsection \<open>Splitting a word into bytes and joining it again\<close>

lemma bit_u8_less: "bit b i \<Longrightarrow> i < 8" for b :: u8
  using bit_imp_le_length [of b i] by simp

lemma bit_u16_less: "bit b i \<Longrightarrow> i < 16" for b :: u16
  using bit_imp_le_length [of b i] by simp

lemma bit_byte32:
  "bit (push_bit k (ucast (b :: u8)) :: u32) j \<longleftrightarrow> j < 32 \<and> k \<le> j \<and> j < k + 8 \<and> bit b (j - k)"
  using bit_u8_less [of b "j - k"] by (auto simp: bit_simps)

lemma bit_byte64:
  "bit (push_bit k (ucast (b :: u8)) :: u64) j \<longleftrightarrow> j < 64 \<and> k \<le> j \<and> j < k + 8 \<and> bit b (j - k)"
  using bit_u8_less [of b "j - k"] by (auto simp: bit_simps)

lemma bit_byte32_0:
  "bit (ucast (b :: u8) :: u32) j \<longleftrightarrow> j < 32 \<and> j < 8 \<and> bit b j"
  using bit_u8_less [of b j] by (auto simp: bit_simps)

lemma bit_byte64_0:
  "bit (ucast (b :: u8) :: u64) j \<longleftrightarrow> j < 64 \<and> j < 8 \<and> bit b j"
  using bit_u8_less [of b j] by (auto simp: bit_simps)

lemmas bit_bytes = bit_byte32 bit_byte64 bit_byte32_0 bit_byte64_0

lemma join16: "(ucast (ucast n :: u8) :: u32) OR push_bit 8 (ucast (ucast (drop_bit 8 n) :: u8))
    = ucast n" for n :: u16
proof (rule bit_word_eqI)
  fix j assume "j < LENGTH(32)"
  consider "j < 8" | "8 \<le> j" "j < 16" | "16 \<le> j" by linarith
  then show "bit ((ucast (ucast n :: u8) :: u32) OR push_bit 8 (ucast (ucast (drop_bit 8 n) :: u8))) j
      = bit (ucast n :: u32) j"
    using \<open>j < LENGTH(32)\<close> bit_u16_less [of n j]
    by cases (auto simp: bit_or_iff bit_bytes bit_simps)
qed

lemma join32: "(ucast (ucast n :: u8) :: u32) OR push_bit 8 (ucast (ucast (drop_bit 8 n) :: u8))
    OR push_bit 16 (ucast (ucast (drop_bit 16 n) :: u8))
    OR push_bit 24 (ucast (ucast (drop_bit 24 n) :: u8)) = n" (is "?l = n") for n :: u32
proof (rule bit_word_eqI)
  fix j assume j: "j < LENGTH(32)"
  then consider "j < 8" | "8 \<le> j" "j < 16" | "16 \<le> j" "j < 24" | "24 \<le> j" "j < 32"
    by (simp, linarith)
  then show "bit ?l j = bit n j"
    by cases (simp_all add: bit_or_iff bit_bytes, auto simp: bit_simps)
qed

lemma join64: "(ucast (ucast n :: u8) :: u64) OR push_bit 8 (ucast (ucast (drop_bit 8 n) :: u8))
    OR push_bit 16 (ucast (ucast (drop_bit 16 n) :: u8))
    OR push_bit 24 (ucast (ucast (drop_bit 24 n) :: u8))
    OR push_bit 32 (ucast (ucast (drop_bit 32 n) :: u8))
    OR push_bit 40 (ucast (ucast (drop_bit 40 n) :: u8))
    OR push_bit 48 (ucast (ucast (drop_bit 48 n) :: u8))
    OR push_bit 56 (ucast (ucast (drop_bit 56 n) :: u8)) = n" (is "?l = n") for n :: u64
proof (rule bit_word_eqI)
  fix j assume j: "j < LENGTH(64)"
  then consider "j < 8" | "8 \<le> j" "j < 16" | "16 \<le> j" "j < 24" | "24 \<le> j" "j < 32"
    | "32 \<le> j" "j < 40" | "40 \<le> j" "j < 48" | "48 \<le> j" "j < 56" | "56 \<le> j" "j < 64"
    by (simp, linarith)
  then show "bit ?l j = bit n j"
    by cases (simp_all add: bit_or_iff bit_bytes, auto simp: bit_simps)
qed

text \<open>The sum of disjoint bytes that \<^verbatim>\<open>getle32\<close> builds is the disjunction.\<close>

lemma plus_eq_or: "a AND b = 0 \<Longrightarrow> a + b = a OR b" for a b :: u32
  by (simp add: disjunctive_add_eq_or)

lemma getle32_or: "getle32 p = ucast (p 0) OR push_bit 8 (ucast (p 1))
    OR push_bit 16 (ucast (p 2)) OR push_bit 24 (ucast (p 3))"
proof -
  have 1: "(ucast (p 0) :: u32) AND push_bit 8 (ucast (p 1)) = 0"
    by (rule bit_word_eqI) (auto simp: bit_and_iff bit_or_iff bit_bytes)
  have 2: "((ucast (p 0) :: u32) OR push_bit 8 (ucast (p 1))) AND push_bit 16 (ucast (p 2)) = 0"
    by (rule bit_word_eqI) (auto simp: bit_and_iff bit_or_iff bit_bytes)
  have 3: "(((ucast (p 0) :: u32) OR push_bit 8 (ucast (p 1))) OR push_bit 16 (ucast (p 2)))
      AND push_bit 24 (ucast (p 3)) = 0"
    by (rule bit_word_eqI) (auto simp: bit_and_iff bit_or_iff bit_bytes)
  show ?thesis
    unfolding getle32_def plus_eq_or [OF 1] plus_eq_or [OF 2] plus_eq_or [OF 3] by (simp add: or.assoc)
qed

subsection \<open>Round trips\<close>

lemma getle32_putle32: "(\<And>i. i < 4 \<Longrightarrow> p i = putle32 n ! i) \<Longrightarrow> getle32 p = n"
  by (simp add: getle32_or putle32_def join32)

lemma getle16_putle16: "(\<And>i. i < 2 \<Longrightarrow> p i = putle16 n ! i) \<Longrightarrow> getle16 p = ucast n"
  by (simp add: getle16_def putle16_def join16)

lemma getbe16_putbe16: "(\<And>i. i < 2 \<Longrightarrow> p i = putbe16 n ! i) \<Longrightarrow> getbe16 p = ucast n"
  using join16 [of n] by (simp add: getbe16_def putbe16_def or.commute)

lemma getbe64_putbe64: "(\<And>i. i < 8 \<Longrightarrow> p i = putbe64 n ! i) \<Longrightarrow> getbe64 p = n"
  using join64 [of n] by (simp add: getbe64_def putbe64_def ac_simps)

end
