(* ===== verification/Sha1.thy ===== *)
theory Sha1
  imports Utils
begin

text \<open>
  SHA-1 and HMAC-SHA-1 as \<^verbatim>\<open>arm_iop/source/crypto/sha1.twl.c\<close> computes them: the five
  working registers stay in place while their roles rotate from round to round, the message
  schedule lives in a ring of sixteen words, and input arrives in pieces. The reference
  definitions are those of FIPS 180-4 (shifting registers, schedule of eighty words, the
  padded message cut into blocks) and RFC 2104.
\<close>

subsection \<open>The code\<close>

record mbedtls_sha1_context =
  total0 :: u32
  total1 :: u32
  state :: "u32 list"
  buffer :: bytes
  ipad :: bytes
  opad :: bytes

definition mbedtls_sha1_init :: mbedtls_sha1_context where
  "mbedtls_sha1_init = \<lparr>total0 = 0, total1 = 0, state = replicate 5 0, buffer = replicate 64 0,
     ipad = replicate 64 0, opad = replicate 64 0\<rparr>"

definition mbedtls_sha1_clone :: "mbedtls_sha1_context \<Rightarrow> mbedtls_sha1_context" where
  "mbedtls_sha1_clone src = src"

definition mbedtls_sha1_starts :: "mbedtls_sha1_context \<Rightarrow> mbedtls_sha1_context" where
  "mbedtls_sha1_starts ctx = ctx\<lparr>total0 := 0, total1 := 0,
     state := [0x67452301, 0xEFCDAB89, 0x98BADCFE, 0x10325476, 0xC3D2E1F0]\<rparr>"

text \<open>The macros \<^verbatim>\<open>S\<close>, \<^verbatim>\<open>F\<close>, \<^verbatim>\<open>K\<close>, \<^verbatim>\<open>R\<close> and \<^verbatim>\<open>P\<close>.\<close>

definition sha1_S :: "u32 \<Rightarrow> nat \<Rightarrow> u32" where
  "sha1_S x n = push_bit n x OR drop_bit (32 - n) (x AND 0xFFFFFFFF)"

definition sha1_F :: "nat \<Rightarrow> u32 \<Rightarrow> u32 \<Rightarrow> u32 \<Rightarrow> u32" where
  "sha1_F t x y z =
     (if t < 20 then z XOR (x AND (y XOR z))
      else if t < 40 then x XOR y XOR z
      else if t < 60 then (x AND y) OR (z AND (x OR y))
      else x XOR y XOR z)"

definition sha1_K :: "nat \<Rightarrow> u32" where
  "sha1_K t = (if t < 20 then 0x5A827999 else if t < 40 then 0x6ED9EBA1
     else if t < 60 then 0x8F1BBCDC else 0xCA62C1D6)"

definition sha1_R :: "nat \<Rightarrow> u32 list \<Rightarrow> u32 \<times> u32 list" where
  "sha1_R t w =
     (let temp = w ! ((t - 3) mod 16) XOR w ! ((t - 8) mod 16) XOR w ! ((t - 14) mod 16)
                 XOR w ! (t mod 16);
          v = sha1_S temp 1
      in (v, w[t mod 16 := v]))"

text \<open>
  \<open>sha1_P t regs x\<close>: the registers A to E are the entries of \<open>regs\<close>; in round \<open>t\<close> the code
  passes them to \<^verbatim>\<open>P\<close> rotated by \<open>t\<close> places, so that role \<open>k\<close> is played by entry
  \<open>(k + 4 t) mod 5\<close>.
\<close>

definition sha1_reg :: "nat \<Rightarrow> nat \<Rightarrow> nat" where
  "sha1_reg t k = (k + 4 * t) mod 5"

definition sha1_P :: "nat \<Rightarrow> u32 list \<Rightarrow> u32 \<Rightarrow> u32 list" where
  "sha1_P t regs x =
     (let a = sha1_reg t 0; b = sha1_reg t 1; c = sha1_reg t 2; d = sha1_reg t 3; e = sha1_reg t 4;
          regs = regs[e := regs ! e + (sha1_S (regs ! a) 5
                      + sha1_F t (regs ! b) (regs ! c) (regs ! d) + sha1_K t + x)]
      in regs[b := sha1_S (regs ! b) 30])"

definition sha1_round :: "nat \<Rightarrow> u32 list \<times> u32 list \<Rightarrow> u32 list \<times> u32 list" where
  "sha1_round t rw =
     (let (regs, w) = rw;
          (x, w) = (if t < 16 then (w ! t, w) else sha1_R t w)
      in (sha1_P t regs x, w))"

definition load_block :: "bytes \<Rightarrow> u32 list" where
  "load_block data = map (\<lambda>i. getbe32 (\<lambda>j. bnth data (4 * i + j))) [0..<16]"

definition mbedtls_internal_sha1_process ::
  "mbedtls_sha1_context \<Rightarrow> bytes \<Rightarrow> mbedtls_sha1_context" where
  "mbedtls_internal_sha1_process ctx data =
     ctx\<lparr>state := map2 (+) (state ctx) (fst (fold sha1_round [0..<80] (state ctx, load_block data)))\<rparr>"

definition overwrite :: "nat \<Rightarrow> bytes \<Rightarrow> bytes \<Rightarrow> bytes" where
  "overwrite i src dst = take i dst @ src @ drop (i + length src) dst"

fun sha1_blocks :: "mbedtls_sha1_context \<Rightarrow> bytes \<Rightarrow> mbedtls_sha1_context \<times> bytes" where
  "sha1_blocks ctx input =
     (if length input \<ge> 64
      then sha1_blocks (mbedtls_internal_sha1_process ctx (take 64 input)) (drop 64 input)
      else (ctx, input))"

declare sha1_blocks.simps [simp del]

definition mbedtls_sha1_update :: "mbedtls_sha1_context \<Rightarrow> bytes \<Rightarrow> mbedtls_sha1_context" where
  "mbedtls_sha1_update ctx input =
     (let ilen = of_nat (length input) :: u32 in
      if ilen = 0 then ctx else
      let left = unat (total0 ctx AND 0x3F);
          fill = 64 - left;
          ctx = ctx\<lparr>total0 := total0 ctx + ilen\<rparr>;
          ctx = (if total0 ctx < ilen then ctx\<lparr>total1 := total1 ctx + 1\<rparr> else ctx);
          (ctx, input, left) =
            (if left \<noteq> 0 \<and> length input \<ge> fill
             then let ctx = ctx\<lparr>buffer := overwrite left (take fill input) (buffer ctx)\<rparr>
                  in (mbedtls_internal_sha1_process ctx (buffer ctx), drop fill input, 0)
             else (ctx, input, left));
          (ctx, input) = sha1_blocks ctx input
      in if length input > 0
         then ctx\<lparr>buffer := overwrite left input (buffer ctx)\<rparr>
         else ctx)"

definition put_uint32_be :: "u32 \<Rightarrow> bytes" where
  "put_uint32_be n = [ucast (drop_bit 24 n), ucast (drop_bit 16 n), ucast (drop_bit 8 n), ucast n]"

definition mbedtls_sha1_finish :: "mbedtls_sha1_context \<Rightarrow> bytes \<times> mbedtls_sha1_context" where
  "mbedtls_sha1_finish ctx =
     (let used = unat (total0 ctx AND 0x3F);
          ctx = ctx\<lparr>buffer := (buffer ctx)[used := 0x80]\<rparr>;
          used = used + 1;
          ctx = (if used \<le> 56
                 then ctx\<lparr>buffer := overwrite used (replicate (56 - used) 0) (buffer ctx)\<rparr>
                 else let ctx = ctx\<lparr>buffer := overwrite used (replicate (64 - used) 0) (buffer ctx)\<rparr>;
                          ctx = mbedtls_internal_sha1_process ctx (buffer ctx)
                      in ctx\<lparr>buffer := overwrite 0 (replicate 56 0) (buffer ctx)\<rparr>);
          high = drop_bit 29 (total0 ctx) OR push_bit 3 (total1 ctx);
          low = push_bit 3 (total0 ctx);
          ctx = ctx\<lparr>buffer := overwrite 56 (put_uint32_be high) (buffer ctx)\<rparr>;
          ctx = ctx\<lparr>buffer := overwrite 60 (put_uint32_be low) (buffer ctx)\<rparr>;
          ctx = mbedtls_internal_sha1_process ctx (buffer ctx)
      in (concat (map put_uint32_be (state ctx)), ctx))"

definition mbedtls_sha1 :: "bytes \<Rightarrow> bytes" where
  "mbedtls_sha1 input =
     fst (mbedtls_sha1_finish (mbedtls_sha1_update (mbedtls_sha1_starts mbedtls_sha1_init) input))"

text \<open>\<^verbatim>\<open>for( i = 0; i < keylen; i++ ) pad[i] ^= key[i]\<close>\<close>

definition xor_key :: "bytes \<Rightarrow> bytes \<Rightarrow> bytes" where
  "xor_key key pad = map2 (XOR) (take (length key) pad) key @ drop (length key) pad"

definition sha1_hmac_starts :: "mbedtls_sha1_context \<Rightarrow> bytes \<Rightarrow> mbedtls_sha1_context" where
  "sha1_hmac_starts ctx key =
     (let key = (if length key > 64 then mbedtls_sha1 key else key);
          ctx = ctx\<lparr>ipad := xor_key key (replicate 64 0x36), opad := xor_key key (replicate 64 0x5C)\<rparr>;
          ctx = mbedtls_sha1_starts ctx
      in mbedtls_sha1_update ctx (ipad ctx))"

definition sha1_hmac_update :: "mbedtls_sha1_context \<Rightarrow> bytes \<Rightarrow> mbedtls_sha1_context" where
  "sha1_hmac_update ctx input = mbedtls_sha1_update ctx input"

definition sha1_hmac_finish :: "mbedtls_sha1_context \<Rightarrow> bytes \<times> mbedtls_sha1_context" where
  "sha1_hmac_finish ctx =
     (let (tmpbuf, ctx) = mbedtls_sha1_finish ctx;
          ctx = mbedtls_sha1_starts ctx;
          ctx = mbedtls_sha1_update ctx (opad ctx);
          ctx = mbedtls_sha1_update ctx tmpbuf
      in mbedtls_sha1_finish ctx)"

definition sha1_hmac_reset :: "mbedtls_sha1_context \<Rightarrow> mbedtls_sha1_context" where
  "sha1_hmac_reset ctx = (let ctx = mbedtls_sha1_starts ctx in mbedtls_sha1_update ctx (ipad ctx))"

text \<open>The context is a local variable of the caller: \<open>ctx\<close> is whatever the stack holds.\<close>

definition sha1_hmac :: "mbedtls_sha1_context \<Rightarrow> bytes \<Rightarrow> bytes \<Rightarrow> bytes" where
  "sha1_hmac ctx key input =
     fst (sha1_hmac_finish (sha1_hmac_update (sha1_hmac_starts ctx key) input))"

subsection \<open>FIPS 180-4\<close>

definition fips_f :: "nat \<Rightarrow> u32 \<Rightarrow> u32 \<Rightarrow> u32 \<Rightarrow> u32" where
  "fips_f t x y z =
     (if t < 20 then (x AND y) XOR (NOT x AND z)
      else if 40 \<le> t \<and> t < 60 then (x AND y) XOR (x AND z) XOR (y AND z)
      else x XOR y XOR z)"

fun fips_W :: "u32 list \<Rightarrow> nat \<Rightarrow> u32" where
  "fips_W m t =
     (if t < 16 then m ! t
      else word_rotl 1 (fips_W m (t - 3) XOR fips_W m (t - 8) XOR fips_W m (t - 14) XOR fips_W m (t - 16)))"

declare fips_W.simps [simp del]

type_synonym regs5 = "u32 \<times> u32 \<times> u32 \<times> u32 \<times> u32"

definition fips_step :: "u32 list \<Rightarrow> nat \<Rightarrow> regs5 \<Rightarrow> regs5" where
  "fips_step m t r = (case r of (a, b, c, d, e) \<Rightarrow>
     (word_rotl 5 a + fips_f t b c d + e + sha1_K t + fips_W m t, a, word_rotl 30 b, c, d))"

definition fips_compress :: "u32 list \<Rightarrow> bytes \<Rightarrow> u32 list" where
  "fips_compress h block =
     (case fold (fips_step (load_block block)) [0..<80] (h ! 0, h ! 1, h ! 2, h ! 3, h ! 4) of
        (a, b, c, d, e) \<Rightarrow> [h ! 0 + a, h ! 1 + b, h ! 2 + c, h ! 3 + d, h ! 4 + e])"

subsection \<open>The compression function\<close>

lemma sha1_S_rotl:
  assumes n: "0 < n" "n < 32"
  shows "sha1_S x n = word_rotl n x"
proof -
  have m: "x AND 0xFFFFFFFF = x"
    by (subgoal_tac "0xFFFFFFFF = (- 1 :: u32)") (simp_all only: and.right_neutral, simp)
  have i: "(i + 32 - n) mod 32 = (if n \<le> i then i - n else 32 + i - n)" if "i < 32" for i
  proof (cases "n \<le> i")
    case True
    then have e: "i + 32 - n = i - n + 32" by simp
    show ?thesis unfolding e mod_add_self2 using True that by simp
  qed (use that in simp)
  show ?thesis
    unfolding sha1_S_def m
    by (rule bit_word_eqI)
      (use n in \<open>auto simp: bit_or_iff bit_push_bit_iff bit_drop_bit_eq bit_word_rotl_iff i
          dest: bit_imp_le_length\<close>)
qed

lemma sha1_F_fips: "sha1_F t x y z = fips_f t x y z"
  unfolding sha1_F_def fips_f_def
  by (rule bit_word_eqI) (auto simp: bit_simps)

definition roles :: "nat \<Rightarrow> u32 list \<Rightarrow> regs5" where
  "roles t regs = (regs ! sha1_reg t 0, regs ! sha1_reg t 1, regs ! sha1_reg t 2,
     regs ! sha1_reg t 3, regs ! sha1_reg t 4)"

lemma sha1_reg_mod: "sha1_reg t k = (k + 4 * (t mod 5)) mod 5"
  unfolding sha1_reg_def by (metis mod_add_right_eq mod_mult_right_eq)

lemma sha1_reg_Suc: "sha1_reg (Suc t) k = sha1_reg t (k + 4)"
  by (simp add: sha1_reg_def ac_simps)

lemma sha1_P_roles:
  assumes "length regs = 5"
  shows "roles (Suc t) (sha1_P t regs x)
     = (case roles t regs of (a, b, c, d, e) \<Rightarrow>
         (sha1_S a 5 + sha1_F t b c d + e + sha1_K t + x, a, sha1_S b 30, c, d))"
proof -
  obtain A B C D E where r: "regs = [A, B, C, D, E]"
    using assms by (auto simp: length_Suc_conv numeral_eq_Suc)
  have "t mod 5 = 0 \<or> t mod 5 = 1 \<or> t mod 5 = 2 \<or> t mod 5 = 3 \<or> t mod 5 = 4"
    using mod_less_divisor [of 5 t] by linarith
  then show ?thesis
    unfolding roles_def sha1_P_def Let_def sha1_reg_Suc r
    by (elim disjE) (simp_all add: sha1_reg_mod ac_simps)
qed

lemma length_sha1_P [simp]: "length (sha1_P t regs x) = length regs"
  by (simp add: sha1_P_def Let_def)

text \<open>The ring holds the sixteen schedule words last computed.\<close>

definition ring_ok :: "u32 list \<Rightarrow> nat \<Rightarrow> u32 list \<Rightarrow> bool" where
  "ring_ok m t w \<longleftrightarrow> length w = 16
     \<and> (\<forall>i. i < max t 16 \<longrightarrow> max t 16 \<le> i + 16 \<longrightarrow> w ! (i mod 16) = fips_W m i)"

lemma ring_R:
  assumes w: "ring_ok m t w" and t: "16 \<le> t"
  shows "fst (sha1_R t w) = fips_W m t" "ring_ok m (Suc t) (snd (sha1_R t w))"
proof -
  have l: "length w = 16" using w by (simp add: ring_ok_def)
  have r: "w ! (i mod 16) = fips_W m i" if "i < t" "t \<le> i + 16" for i
    using w t that by (simp add: ring_ok_def max_def)
  have "(t - 16) mod 16 = t mod 16" using t by (metis le_add_diff_inverse2 mod_add_self2)
  with r [of "t - 16"] t have r16: "w ! (t mod 16) = fips_W m (t - 16)" by simp
  show f: "fst (sha1_R t w) = fips_W m t"
    using t r [of "t - 3"] r [of "t - 8"] r [of "t - 14"] r16
    by (subst fips_W.simps) (simp add: sha1_R_def Let_def sha1_S_rotl)
  show "ring_ok m (Suc t) (snd (sha1_R t w))"
    unfolding ring_ok_def
  proof (intro conjI allI impI)
    fix i assume i: "i < max (Suc t) 16" "max (Suc t) 16 \<le> i + 16"
    show "snd (sha1_R t w) ! (i mod 16) = fips_W m i"
    proof (cases "i = t")
      case True
      with f l show ?thesis by (simp add: sha1_R_def Let_def)
    next
      case False
      with i t have i': "i < t" "t \<le> i + 16" "t - i < 16" by auto
      then have "i mod 16 \<noteq> t mod 16"
        using mod_eq_dvd_iff_nat [of i t 16] nat_dvd_not_less by auto
      with r [OF i'(1,2)] show ?thesis by (simp add: sha1_R_def Let_def)
    qed
  qed (simp add: sha1_R_def Let_def l)
qed

lemma ring_start: "length m = 16 \<Longrightarrow> ring_ok m 0 m"
  by (auto simp: ring_ok_def fips_W.simps)

lemma ring_low: "ring_ok m t w \<Longrightarrow> t < 16 \<Longrightarrow> w ! t = fips_W m t \<and> ring_ok m (Suc t) w"
  by (auto simp: ring_ok_def dest: spec [of _ t])

lemma sha1_P_fips:
  "length regs = 5 \<Longrightarrow> roles (Suc t) (sha1_P t regs (fips_W m t)) = fips_step m t (roles t regs)"
  by (simp add: sha1_P_roles fips_step_def sha1_S_rotl sha1_F_fips split: prod.splits)

lemma sha1_round_fips:
  assumes "length regs = 5" "ring_ok m t w" "sha1_round t (regs, w) = (regs', w')"
  shows "roles (Suc t) regs' = fips_step m t (roles t regs) \<and> length regs' = 5 \<and> ring_ok m (Suc t) w'"
proof (cases "t < 16")
  case True
  with assms ring_low [OF assms(2)] show ?thesis by (auto simp: sha1_round_def sha1_P_fips)
next
  case False
  with assms ring_R [OF assms(2)] show ?thesis
    by (auto simp: sha1_round_def split_beta sha1_P_fips)
qed

lemma sha1_rounds_fips:
  assumes "length regs = 5" "length m = 16"
  shows "case fold sha1_round [0..<t] (regs, m) of (regs', w') \<Rightarrow>
     roles t regs' = fold (fips_step m) [0..<t] (roles 0 regs) \<and> length regs' = 5 \<and> ring_ok m t w'"
proof (induction t)
  case 0
  then show ?case using assms ring_start by simp
next
  case (Suc t)
  then show ?case
    using sha1_round_fips by (auto split: prod.splits)
qed

lemma roles_80: "length regs = 5 \<Longrightarrow> roles 80 regs = (regs ! 0, regs ! 1, regs ! 2, regs ! 3, regs ! 4)"
  by (simp add: roles_def sha1_reg_def)

lemma sha1_process_fips:
  assumes "length (state ctx) = 5"
  shows "mbedtls_internal_sha1_process ctx block = ctx\<lparr>state := fips_compress (state ctx) block\<rparr>"
proof -
  let ?m = "load_block block"
  obtain regs w where f: "fold sha1_round [0..<80] (state ctx, ?m) = (regs, w)" by fastforce
  have "length ?m = 16" by (simp add: load_block_def)
  with sha1_rounds_fips [OF assms this, of 80] f
  have "roles 80 regs = fold (fips_step ?m) [0..<80] (roles 0 (state ctx))" and l: "length regs = 5"
    by auto
  then have r: "fold (fips_step ?m) [0..<80] (state ctx ! 0, state ctx ! 1, state ctx ! 2, state ctx ! 3, state ctx ! 4)
      = (regs ! 0, regs ! 1, regs ! 2, regs ! 3, regs ! 4)"
    by (simp add: roles_80 roles_def sha1_reg_def)
  obtain A B C D E where regs: "regs = [A, B, C, D, E]"
    using l by (auto simp: length_Suc_conv numeral_eq_Suc)
  obtain a b c d e where st: "state ctx = [a, b, c, d, e]"
    using assms by (auto simp: length_Suc_conv numeral_eq_Suc)
  show ?thesis
    unfolding mbedtls_internal_sha1_process_def fips_compress_def f r
    by (simp add: regs st)
qed

subsection \<open>Streaming\<close>

fun chunks64 :: "bytes \<Rightarrow> bytes list" where
  "chunks64 m = (if length m \<ge> 64 then take 64 m # chunks64 (drop 64 m) else [])"

declare chunks64.simps [simp del]

definition rest64 :: "bytes \<Rightarrow> bytes" where
  "rest64 m = drop (64 * (length m div 64)) m"

definition fips_H0 :: "u32 list" where
  "fips_H0 = [0x67452301, 0xEFCDAB89, 0x98BADCFE, 0x10325476, 0xC3D2E1F0]"

definition fips_pad :: "bytes \<Rightarrow> bytes" where
  "fips_pad m = m @ [0x80] @ replicate ((119 - length m mod 64) mod 64) 0
     @ putbe64 (of_nat (8 * length m))"

definition fips_sha1 :: "bytes \<Rightarrow> bytes" where
  "fips_sha1 m = concat (map put_uint32_be (foldl fips_compress fips_H0 (chunks64 (fips_pad m))))"

lemma length_rest64 [simp]: "length (rest64 m) = length m mod 64"
  by (simp add: rest64_def minus_mult_div_eq_mod)

lemma rest64_short: "length m < 64 \<Longrightarrow> rest64 m = m"
  by (simp add: rest64_def)

lemma chunks64_short: "length m < 64 \<Longrightarrow> chunks64 m = []"
  by (simp add: chunks64.simps)

lemma chunks64_append:
  "64 dvd length a \<Longrightarrow> chunks64 (a @ b) = chunks64 a @ chunks64 b"
proof (induction a rule: chunks64.induct)
  case (1 m)
  show ?case
  proof (cases "length m \<ge> 64")
    case True
    then have "64 dvd length (drop 64 m)" using "1.prems" by (simp add: dvd_diff_nat)
    with 1 True show ?thesis
      by (simp add: chunks64.simps [of "m @ b"] chunks64.simps [of m])
  next
    case False
    with "1.prems" have "m = []" by (auto dest: dvd_imp_le)
    then show ?thesis by (simp add: chunks64_short)
  qed
qed

lemma rest64_append: "64 dvd length a \<Longrightarrow> rest64 (a @ b) = rest64 b"
  by (auto simp: rest64_def div_plus_div_distrib_dvd_left elim!: dvdE)

lemma chunks64_one: "length a = 64 \<Longrightarrow> chunks64 a = [a]"
  by (simp add: chunks64.simps [of a] chunks64_short)

lemma split64: obtains a where "m = a @ rest64 m" "64 dvd length a" "chunks64 a = chunks64 m"
proof
  let ?a = "take (64 * (length m div 64)) m"
  show m: "m = ?a @ rest64 m" by (simp add: rest64_def)
  show d: "64 dvd length ?a" by (simp add: min_absorb2)
  show "chunks64 ?a = chunks64 m"
    using chunks64_append [OF d, of "rest64 m"] m by (simp add: chunks64_short)
qed

lemma length_fips_compress [simp]: "length (fips_compress h b) = 5"
  by (simp add: fips_compress_def split: prod.splits)

lemma sha1_blocks_fips:
  "length (state ctx) = 5 \<Longrightarrow>
   sha1_blocks ctx input = (ctx\<lparr>state := foldl fips_compress (state ctx) (chunks64 input)\<rparr>, rest64 input)"
proof (induction ctx input rule: sha1_blocks.induct)
  case (1 ctx input)
  show ?case
  proof (cases "length input \<ge> 64")
    case True
    have "rest64 (drop 64 input) = rest64 input"
      using rest64_append [of "take 64 input" "drop 64 input"] True by (simp add: min_absorb2)
    with 1 True show ?thesis
      by (simp add: sha1_blocks.simps [of ctx] sha1_process_fips chunks64.simps [of input])
  qed (simp add: sha1_blocks.simps [of ctx] chunks64_short rest64_short)
qed

definition absorbed :: "mbedtls_sha1_context \<Rightarrow> bytes \<Rightarrow> bool" where
  "absorbed ctx m \<longleftrightarrow> state ctx = foldl fips_compress fips_H0 (chunks64 m)
     \<and> length (buffer ctx) = 64 \<and> take (length m mod 64) (buffer ctx) = rest64 m
     \<and> total0 ctx = of_nat (length m) \<and> total1 ctx = of_nat (length m div 2 ^ 32)"

lemma length_state_absorbed: "absorbed ctx m \<Longrightarrow> length (state ctx) = 5"
proof -
  have "length (foldl fips_compress h bs) = 5" if "length h = 5" for h bs
    using that by (induction bs arbitrary: h) simp_all
  then show "absorbed ctx m \<Longrightarrow> length (state ctx) = 5" by (simp add: absorbed_def fips_H0_def)
qed

lemma absorbed_starts: "length (buffer ctx) = 64 \<Longrightarrow> absorbed (mbedtls_sha1_starts ctx) []"
  by (simp add: absorbed_def mbedtls_sha1_starts_def fips_H0_def chunks64_short rest64_def)

lemma total_left: "unat ((of_nat n :: u32) AND 0x3F) = n mod 64"
proof -
  have "(0x3F :: u32) = mask 6" by (simp add: mask_eq_exp_minus_1)
  then have "unat ((of_nat n :: u32) AND 0x3F) = unat (take_bit 6 (of_nat n :: u32))"
    by (simp add: take_bit_eq_mask)
  also have "\<dots> = n mod 2 ^ 32 mod 2 ^ 6"
    by (simp add: unsigned_take_bit_eq unat_of_nat take_bit_nat_def)
  also have "\<dots> = n mod 64" by (simp add: mod_mod_cancel)
  finally show ?thesis .
qed

lemma total_carry:
  assumes "k < 2 ^ 32"
  shows "(of_nat ((n + k) div 2 ^ 32) :: u32)
     = (if (of_nat (n + k) :: u32) < of_nat k then of_nat (n div 2 ^ 32) + 1 else of_nat (n div 2 ^ 32))"
proof -
  define M :: nat where "M = 2 ^ 32"
  define q a where "q = n div M" and "a = n mod M"
  have n: "n = q * M + a" "a < M" "0 < M" by (simp_all add: q_def a_def M_def)
  have lt: "(of_nat (n + k) :: u32) < of_nat k \<longleftrightarrow> (n + k) mod M < k"
    using assms by (simp add: word_less_nat_alt unat_of_nat M_def del: of_nat_add)
  have k: "k < M" using assms by (simp add: M_def)
  have dm: "(n + k) div M = q + (a + k) div M" "(n + k) mod M = (a + k) mod M"
    using n by (simp_all add: add.assoc)
  have "(of_nat ((n + k) div M) :: u32)
     = (if (of_nat (n + k) :: u32) < of_nat k then of_nat (n div M) + 1 else of_nat (n div M))"
  proof (cases "a + k < M")
    case True
    with lt dm q_def show ?thesis by simp
  next
    case False
    with n k have "(a + k) div M = 1" "(a + k) mod M = a + k - M"
      by (simp_all add: div_nat_eqI le_mod_geq)
    with lt dm q_def n(2,3) k False show ?thesis by simp
  qed
  then show ?thesis unfolding M_def .
qed

lemma overwrite_Nil [simp]: "overwrite i [] dst = dst"
  by (simp add: overwrite_def)

lemma length_overwrite: "i + length src \<le> length dst \<Longrightarrow> length (overwrite i src dst) = length dst"
  by (simp add: overwrite_def)

lemma take_overwrite: "i \<le> length dst \<Longrightarrow> take (i + length src) (overwrite i src dst) = take i dst @ src"
  by (simp add: overwrite_def)

text \<open>The counters after \<^verbatim>\<open>ctx->total\<close> has been advanced.\<close>

lemma absorbed_update:
  assumes abs: "absorbed ctx m" and n: "length xs < 2 ^ 32"
  shows "absorbed (mbedtls_sha1_update ctx xs) (m @ xs)"
proof (cases "xs = []")
  case True
  with abs show ?thesis by (simp add: mbedtls_sha1_update_def)
next
  case False
  let ?ilen = "of_nat (length xs) :: u32" and ?l = "length m mod 64"
  from False n have nz: "?ilen \<noteq> 0" by (simp add: of_nat_eq_0_iff unat_of_nat word_unat_eq_iff)
  let ?c = "ctx\<lparr>total0 := of_nat (length (m @ xs)), total1 := of_nat (length (m @ xs) div 2 ^ 32)\<rparr>"
  have tot: "(if total0 (ctx\<lparr>total0 := total0 ctx + ?ilen\<rparr>) < ?ilen
        then ctx\<lparr>total0 := total0 ctx + ?ilen\<rparr>\<lparr>total1 := total1 (ctx\<lparr>total0 := total0 ctx + ?ilen\<rparr>) + 1\<rparr>
        else ctx\<lparr>total0 := total0 ctx + ?ilen\<rparr>) = ?c"
    using total_carry [OF n, of "length m"] abs by (simp add: absorbed_def)
  have l: "unat (total0 ctx AND 0x3F) = ?l" using abs by (simp add: absorbed_def total_left)
  obtain a where a: "m = a @ rest64 m" "64 dvd length a" "chunks64 a = chunks64 m" by (rule split64)
  have st: "state ctx = foldl fips_compress fips_H0 (chunks64 m)" "length (buffer ctx) = 64"
    "take ?l (buffer ctx) = rest64 m" using abs by (auto simp: absorbed_def)
  have st5: "length (state ctx) = 5" using abs by (rule length_state_absorbed)
  have goal: "absorbed (c\<lparr>state := foldl fips_compress fips_H0 (chunks64 (m @ xs)), buffer := b\<rparr>) (m @ xs)"
    if "c = ?c" "length b = 64" "take ((length m + length xs) mod 64) b = rest64 (m @ xs)" for b c
    using that by (simp add: absorbed_def)
  show ?thesis
  proof (cases "?l \<noteq> 0 \<and> 64 - ?l \<le> length xs")
    case True
    let ?f = "64 - ?l"
    let ?x = "take ?f xs" and ?y = "drop ?f xs"
    have lx: "length ?x = ?f" using True by simp
    have b1: "overwrite ?l ?x (buffer ctx) = rest64 m @ ?x"
      using st lx by (simp add: overwrite_def)
    have d: "64 dvd length (a @ rest64 m @ ?x)" using a(2) lx by simp
    have mx: "m @ xs = (a @ rest64 m @ ?x) @ ?y" using a(1) by (metis append.assoc append_take_drop_id)
    have ch: "chunks64 (m @ xs) = chunks64 m @ [rest64 m @ ?x] @ chunks64 ?y"
      unfolding mx chunks64_append [OF d] chunks64_append [OF a(2)] a(3)
      using lx by (simp add: chunks64_one)
    have rs: "rest64 (m @ xs) = rest64 ?y" unfolding mx by (rule rest64_append [OF d])
    have rl: "(length m + length xs) mod 64 = length ?y mod 64"
      using arg_cong [OF rs, of length] by simp
    let ?d = "?c\<lparr>buffer := rest64 m @ ?x\<rparr>\<lparr>state := fips_compress (state ctx) (rest64 m @ ?x)\<rparr>"
    have "sha1_blocks ?d ?y = (?d\<lparr>state := foldl fips_compress fips_H0 (chunks64 (m @ xs))\<rparr>, rest64 ?y)"
      using ch st(1) by (simp add: sha1_blocks_fips)
    then have u: "mbedtls_sha1_update ctx xs
        = ?c\<lparr>state := foldl fips_compress fips_H0 (chunks64 (m @ xs)),
             buffer := overwrite 0 (rest64 ?y) (rest64 m @ ?x)\<rparr>"
      using nz True st5 b1
      unfolding mbedtls_sha1_update_def Let_def tot l
      by (simp add: sha1_process_fips)
    have "length (overwrite 0 (rest64 ?y) (rest64 m @ ?x)) = length (rest64 m @ ?x)"
      by (rule length_overwrite) (use lx True in simp)
    also have "\<dots> = 64" using lx by simp
    finally have b64: "length (overwrite 0 (rest64 ?y) (rest64 m @ ?x)) = 64" .
    have "take ((length m + length xs) mod 64) (overwrite 0 (rest64 ?y) (rest64 m @ ?x)) = rest64 (m @ xs)"
      unfolding rl rs using take_overwrite [of 0 "rest64 m @ ?x" "rest64 ?y"] by simp
    with b64 show ?thesis unfolding u by (intro goal refl)
  next
    case False
    let ?b = "overwrite ?l (rest64 xs) (buffer ctx)"
    have ch: "chunks64 (m @ xs) = chunks64 m @ chunks64 xs" and rs: "rest64 (m @ xs) = rest64 m @ rest64 xs"
      and fit: "?l + length (rest64 xs) < 64"
    proof -
      have "chunks64 (m @ xs) = chunks64 m @ chunks64 xs \<and> rest64 (m @ xs) = rest64 m @ rest64 xs
          \<and> ?l + length (rest64 xs) < 64"
      proof (cases "?l = 0")
        case True
        then have "64 dvd length m" "rest64 m = []" by (simp_all add: rest64_def dvd_eq_mod_eq_0)
        with True show ?thesis by (simp add: chunks64_append rest64_append)
      next
        case nz: False
        with False have "length (rest64 m @ xs) < 64" by simp
        moreover have mx: "m @ xs = a @ rest64 m @ xs" using a(1) by (metis append.assoc)
        ultimately show ?thesis
          unfolding mx using a(3) chunks64_append [OF a(2), of "rest64 m @ xs"] rest64_append [OF a(2), of "rest64 m @ xs"]
          by (simp add: chunks64_short rest64_short)
      qed
      then show "chunks64 (m @ xs) = chunks64 m @ chunks64 xs" "rest64 (m @ xs) = rest64 m @ rest64 xs"
        "?l + length (rest64 xs) < 64" by auto
    qed
    have "sha1_blocks ?c xs = (?c\<lparr>state := foldl fips_compress fips_H0 (chunks64 (m @ xs))\<rparr>, rest64 xs)"
      using ch st(1) st5 by (simp add: sha1_blocks_fips)
    then have "mbedtls_sha1_update ctx xs
        = ?c\<lparr>state := foldl fips_compress fips_H0 (chunks64 (m @ xs)), buffer := ?b\<rparr>"
      using nz False unfolding mbedtls_sha1_update_def Let_def tot l by auto
    moreover have "(length m + length xs) mod 64 = ?l + length (rest64 xs)"
      using arg_cong [OF rs, of length] fit by simp
    moreover have "length ?b = 64" using st fit by (subst length_overwrite) auto
    moreover have "take (?l + length (rest64 xs)) ?b = take ?l (buffer ctx) @ rest64 xs"
      by (rule take_overwrite) (use st in simp)
    then have "take (?l + length (rest64 xs)) ?b = rest64 (m @ xs)" unfolding rs st(3) .
    ultimately show ?thesis using goal [of ?c ?b] by simp
  qed
qed

interpretation sha1_stream: streaming mbedtls_sha1_update absorbed "\<lambda>x. length x < 2 ^ 32"
  by unfold_locales (rule absorbed_update)

lemma length_put_uint32_be [simp]: "length (put_uint32_be n) = 4"
  by (simp add: put_uint32_be_def)

lemma length_field:
  "put_uint32_be (drop_bit 29 (of_nat n) OR push_bit 3 (of_nat (n div 2 ^ 32)))
   @ put_uint32_be (push_bit 3 (of_nat n)) = putbe64 (of_nat (8 * n))"
proof -
  define T :: u64 where "T = of_nat n"
  have t0: "(of_nat n :: u32) = ucast T"
    unfolding T_def by (rule bit_word_eqI) (simp add: bit_ucast_iff bit_of_nat_iff possible_bit_word)
  have t1: "(of_nat (n div 2 ^ 32) :: u32) = ucast (drop_bit 32 T)"
    unfolding T_def drop_bit_nat_def [symmetric]
    by (rule bit_word_eqI) (simp add: bit_ucast_iff bit_drop_bit_eq bit_of_nat_iff possible_bit_word)
  have t8: "(of_nat (8 * n) :: u64) = push_bit 3 T" by (simp add: T_def push_bit_eq_mult)
  show ?thesis
    unfolding t0 t1 t8 put_uint32_be_def putbe64_def
    by (simp, intro conjI; rule bit_word_eqI; simp add: bit_simps; auto)
qed

lemma overwrite_tail:
  "length b = 64 \<Longrightarrow> length hi = 4 \<Longrightarrow> length lo = 4 \<Longrightarrow>
   overwrite 60 lo (overwrite 56 hi b) = take 56 b @ hi @ lo"
  by (simp add: overwrite_def)

lemma take_mark: "u < length b \<Longrightarrow> take (Suc u) (b[u := v]) = take u b @ [v]"
  by (simp add: take_Suc_conv_app_nth)

lemma chunks64_pad:
  assumes "fips_pad m = a @ p" "64 dvd length a" "chunks64 a = chunks64 m"
  shows "foldl fips_compress fips_H0 (chunks64 (fips_pad m))
     = foldl fips_compress (foldl fips_compress fips_H0 (chunks64 m)) (chunks64 p)"
  using assms by (simp add: chunks64_append)

lemma sha1_finish_fips:
  assumes abs: "absorbed ctx m"
  shows "fst (mbedtls_sha1_finish ctx) = fips_sha1 m"
    "length (buffer (snd (mbedtls_sha1_finish ctx))) = 64"
    "opad (snd (mbedtls_sha1_finish ctx)) = opad ctx"
proof -
  let ?u = "length m mod 64" and ?n = "putbe64 (of_nat (8 * length m))"
  let ?b = "(buffer ctx)[?u := 0x80]"
  have st: "state ctx = foldl fips_compress fips_H0 (chunks64 m)" "length (buffer ctx) = 64"
    "take ?u (buffer ctx) = rest64 m" "total0 ctx = of_nat (length m)"
    "total1 ctx = of_nat (length m div 2 ^ 32)" using abs by (auto simp: absorbed_def)
  have st5: "length (state ctx) = 5" using abs by (rule length_state_absorbed)
  have u: "unat (total0 ctx AND 0x3F) = ?u" "?u < 64" by (simp_all add: st total_left)
  have b: "length ?b = 64" "take (Suc ?u) ?b = rest64 m @ [0x80]"
    using st u(2) by (simp_all add: take_mark)
  obtain a where a: "m = a @ rest64 m" "64 dvd length a" "chunks64 a = chunks64 m" by (rule split64)
  let ?z = "replicate ((119 - ?u) mod 64) 0 :: bytes"
  have pad: "fips_pad m = a @ (rest64 m @ [0x80] @ ?z @ ?n)"
    unfolding fips_pad_def using a(1) by (metis append.assoc)
  note fold_pad = chunks64_pad [OF pad a(2,3)]
  have tail: "overwrite 60 (put_uint32_be (push_bit 3 (total0 ctx)))
       (overwrite 56 (put_uint32_be (drop_bit 29 (total0 ctx) OR push_bit 3 (total1 ctx))) x) = take 56 x @ ?n"
    if "length x = 64" for x
    unfolding st using that length_field [of "length m"] by (simp add: overwrite_tail)
  have "\<exists>c. mbedtls_sha1_finish ctx = (fips_sha1 m, c) \<and> length (buffer c) = 64 \<and> opad c = opad ctx"
  proof (cases "?u + 1 \<le> 56")
    case True
    let ?x = "overwrite (Suc ?u) (replicate (55 - ?u) 0) ?b"
    have x: "length ?x = 64" "take 56 ?x = rest64 m @ [0x80] @ replicate (55 - ?u) 0"
      using length_overwrite [of "Suc ?u" "replicate (55 - ?u) 0" ?b]
        take_overwrite [of "Suc ?u" ?b "replicate (55 - ?u) 0"] True b by simp_all
    have z: "(119 - ?u) mod 64 = 55 - ?u" using True by (simp add: le_mod_geq)
    have "chunks64 (rest64 m @ [0x80] @ ?z @ ?n) = [take 56 ?x @ ?n]"
      unfolding z x using True by (subst chunks64_one) (simp_all add: putbe64_def)
    then have "fips_sha1 m = concat (map put_uint32_be (fips_compress (state ctx) (take 56 ?x @ ?n)))"
      unfolding fips_sha1_def fold_pad st(1) by simp
    then show ?thesis
      unfolding mbedtls_sha1_finish_def Let_def u(1)
      using True tail [OF x(1)] st5 x(1) by (simp add: sha1_process_fips putbe64_def)
  next
    case False
    let ?x = "overwrite (Suc ?u) (replicate (63 - ?u) 0) ?b"
    let ?y = "overwrite 0 (replicate 56 0) ?x"
    have x: "?x = rest64 m @ [0x80] @ replicate (63 - ?u) 0"
      using u(2) b by (simp add: overwrite_def)
    have y: "length ?y = 64" "take 56 ?y = replicate 56 0"
      using b(1) u(2) by (simp_all add: overwrite_def)
    have z: "(119 - ?u) mod 64 = (63 - ?u) + 56" using False u(2) by simp
    have lx: "length ?x = 64" using u(2) b(1) by (simp add: length_overwrite)
    have e: "rest64 m @ [0x80] @ ?z @ ?n = ?x @ (replicate 56 0 @ ?n)"
      unfolding z x by (simp only: replicate_add append.assoc)
    have "chunks64 (rest64 m @ [0x80] @ ?z @ ?n) = [?x, replicate 56 0 @ ?n]"
      unfolding e using lx by (subst chunks64_append) (simp_all add: chunks64_one putbe64_def)
    then have "fips_sha1 m = concat (map put_uint32_be
        (fips_compress (fips_compress (state ctx) ?x) (take 56 ?y @ ?n)))"
      unfolding fips_sha1_def fold_pad st(1) y(2) by simp
    then show ?thesis
      unfolding mbedtls_sha1_finish_def Let_def u(1)
      using False tail [OF y(1)] st5 y(1) by (simp add: sha1_process_fips putbe64_def)
  qed
  then show "fst (mbedtls_sha1_finish ctx) = fips_sha1 m"
    "length (buffer (snd (mbedtls_sha1_finish ctx))) = 64"
    "opad (snd (mbedtls_sha1_finish ctx)) = opad ctx" by auto
qed

lemma length_fips_sha1 [simp]: "length (fips_sha1 m) = 20"
proof -
  have "length (foldl fips_compress h bs) = 5" if "length h = 5" for h bs
    using that by (induction bs arbitrary: h) simp_all
  then show ?thesis
    by (simp add: fips_sha1_def length_concat comp_def sum_list_triv fips_H0_def)
qed

lemma sha1_fips: "length m < 2 ^ 32 \<Longrightarrow> mbedtls_sha1 m = fips_sha1 m"
  using absorbed_update [of "mbedtls_sha1_starts mbedtls_sha1_init" "[]" m]
  by (simp add: mbedtls_sha1_def sha1_finish_fips absorbed_starts mbedtls_sha1_init_def)

subsection \<open>HMAC\<close>

text \<open>RFC 2104 over SHA-1 with its block of 64 bytes.\<close>

definition hmac_key :: "bytes \<Rightarrow> bytes" where
  "hmac_key key = (let k = (if length key > 64 then fips_sha1 key else key)
     in k @ replicate (64 - length k) 0)"

definition hmac_sha1 :: "bytes \<Rightarrow> bytes \<Rightarrow> bytes" where
  "hmac_sha1 key m =
     fips_sha1 (map (\<lambda>b. b XOR 0x5C) (hmac_key key)
       @ fips_sha1 (map (\<lambda>b. b XOR 0x36) (hmac_key key) @ m))"

lemma xor_key_pad:
  "length k \<le> 64 \<Longrightarrow>
   xor_key k (replicate 64 c) = map (\<lambda>b. b XOR c) (k @ replicate (64 - length k) 0)"
  by (rule nth_equalityI)
    (auto simp: xor_key_def nth_append min_def ac_simps)

lemma length_hmac_key [simp]: "length (hmac_key key) = 64"
  by (simp add: hmac_key_def Let_def)

lemma sha1_starts_pads [simp]: "opad (mbedtls_sha1_starts ctx) = opad ctx"
  "ipad (mbedtls_sha1_starts ctx) = ipad ctx" "buffer (mbedtls_sha1_starts ctx) = buffer ctx"
  by (simp_all add: mbedtls_sha1_starts_def)

lemma sha1_blocks_pads: "opad (fst (sha1_blocks ctx xs)) = opad ctx"
  by (induction ctx xs rule: sha1_blocks.induct)
    (subst sha1_blocks.simps, simp add: mbedtls_internal_sha1_process_def)

lemma sha1_update_pads [simp]: "opad (mbedtls_sha1_update ctx xs) = opad ctx"
  by (auto simp: mbedtls_sha1_update_def Let_def split_beta sha1_blocks_pads
      mbedtls_internal_sha1_process_def)

lemma sha1_hmac_rfc2104:
  assumes "length (buffer ctx) = 64" "length key < 2 ^ 32" "length m < 2 ^ 32"
  shows "sha1_hmac ctx key m = hmac_sha1 key m"
proof -
  let ?k = "if length key > 64 then mbedtls_sha1 key else key"
  let ?i = "map (\<lambda>b. b XOR 0x36) (hmac_key key)" and ?o = "map (\<lambda>b. b XOR 0x5C) (hmac_key key)"
  have k: "xor_key ?k (replicate 64 c) = map (\<lambda>b. b XOR c) (hmac_key key)" for c
    using assms(2) by (simp add: hmac_key_def Let_def sha1_fips xor_key_pad)
  let ?c0 = "mbedtls_sha1_starts (ctx\<lparr>ipad := ?i, opad := ?o\<rparr>)"
  let ?c1 = "sha1_hmac_starts ctx key"
  have c1: "?c1 = mbedtls_sha1_update ?c0 ?i"
    unfolding sha1_hmac_starts_def Let_def k by simp
  have "absorbed ?c0 []" using assms(1) by (intro absorbed_starts) simp
  then have "absorbed ?c1 ?i" unfolding c1 using absorbed_update [of ?c0 "[]" ?i] by simp
  then have a2: "absorbed (sha1_hmac_update ?c1 m) (?i @ m)"
    unfolding sha1_hmac_update_def using assms(3) by (rule absorbed_update)
  let ?c2 = "sha1_hmac_update ?c1 m"
  let ?d = "mbedtls_sha1_starts (snd (mbedtls_sha1_finish ?c2))"
  have op: "opad ?c2 = ?o" by (simp add: sha1_hmac_update_def c1)
  have "absorbed ?d []" using sha1_finish_fips(2) [OF a2] by (rule absorbed_starts)
  then have "absorbed (mbedtls_sha1_update ?d ?o) ?o" using absorbed_update [of ?d "[]" ?o] by simp
  then have "absorbed (mbedtls_sha1_update (mbedtls_sha1_update ?d ?o) (fips_sha1 (?i @ m)))
      (?o @ fips_sha1 (?i @ m))" by (rule absorbed_update) simp
  from sha1_finish_fips(1) [OF this] show ?thesis
    unfolding sha1_hmac_def sha1_hmac_finish_def split_beta Let_def hmac_sha1_def
    using sha1_finish_fips(1,3) [OF a2] op by simp
qed

lemma length_hmac_sha1 [simp]: "length (hmac_sha1 k m) = 20"
  by (simp add: hmac_sha1_def)

end
