(* ===== verification/NistKw.thy ===== *)
theory NistKw
  imports Sha1
begin

text \<open>
  Key wrapping as in \<^verbatim>\<open>arm_iop/source/crypto/nist_kw.twl.c\<close> (RFC 3394, NIST SP 800-38F).
  The argument \<open>cu\<close> stands for the context: the action of \<^verbatim>\<open>mbedtls_cipher_update\<close> on one
  16-byte block under its key (\<open>Cipher\<close>): \<open>Inr\<close> the block, \<open>Inl\<close> a nonzero error code. The
  pointers \<^verbatim>\<open>R2\<close> and \<^verbatim>\<open>R\<close> are offsets into the output buffer. Memory that the code clears
  before leaving a function is not part of the result.
\<close>

abbreviation (input) MBEDTLS_ERR_CIPHER_FEATURE_UNAVAILABLE :: u32 where
  "MBEDTLS_ERR_CIPHER_FEATURE_UNAVAILABLE \<equiv> - 0x6080"
abbreviation (input) MBEDTLS_ERR_CIPHER_BAD_INPUT_DATA :: u32 where
  "MBEDTLS_ERR_CIPHER_BAD_INPUT_DATA \<equiv> - 0x6100"
abbreviation (input) MBEDTLS_ERR_CIPHER_AUTH_FAILED :: u32 where
  "MBEDTLS_ERR_CIPHER_AUTH_FAILED \<equiv> - 0x6300"

type_synonym cipher_update = "bytes \<Rightarrow> u32 + bytes"

datatype nist_kw_mode = MBEDTLS_KW_MODE_KW | MBEDTLS_KW_MODE_KWP

definition mbedtls_nist_kw_safer_memcmp :: "bytes \<Rightarrow> bytes \<Rightarrow> nat \<Rightarrow> u8" where
  "mbedtls_nist_kw_safer_memcmp a b n = fold (\<lambda>i diff. diff OR (bnth a i XOR bnth b i)) [0..<n] 0"

definition NIST_KW_ICV1 :: bytes where "NIST_KW_ICV1 = replicate 8 0xA6"

definition NIST_KW_ICV2 :: bytes where "NIST_KW_ICV2 = [0xA6, 0x59, 0x59, 0xA6]"

definition calc_a_xor_t :: "bytes \<Rightarrow> u64 \<Rightarrow> bytes" where
  "calc_a_xor_t a t = map (\<lambda>i. a ! i XOR ucast (drop_bit ((7 - i) * 8) t AND 0xFF)) [0..<8]"

text \<open>
  One turn of the wrapping loop: the buffer, whose first semiblock is A, and the offset of R2
  in it. \<open>n\<close> is \<^verbatim>\<open>semiblocks\<close>.
\<close>

definition wrap_turn :: "cipher_update \<Rightarrow> nat \<Rightarrow> nat \<Rightarrow> bytes \<times> nat \<Rightarrow> u32 + bytes \<times> nat" where
  "wrap_turn cu n t st = (case st of (out, r2) \<Rightarrow>
     (case cu (take 8 out @ take 8 (drop r2 out)) of
        Inl e \<Rightarrow> Inl e
      | Inr outbuff \<Rightarrow>
          let out = overwrite 0 (calc_a_xor_t (take 8 outbuff) (of_nat t)) out;
              out = overwrite r2 (take 8 (drop 8 outbuff)) out;
              r2 = r2 + 8
          in Inr (out, if r2 \<ge> n * 8 then 8 else r2)))"

primrec wrap_loop :: "cipher_update \<Rightarrow> nat \<Rightarrow> nat \<Rightarrow> bytes \<Rightarrow> u32 + bytes \<times> nat" where
  "wrap_loop cu n 0 out = Inr (out, 8)"
| "wrap_loop cu n (Suc t) out =
     (case wrap_loop cu n t out of Inl e \<Rightarrow> Inl e | Inr st \<Rightarrow> wrap_turn cu n (Suc t) st)"

text \<open>
  Result of a call: return code, \<^verbatim>\<open>*out_len\<close>, and what the call has stored at the start of
  \<^verbatim>\<open>output\<close>.
\<close>

definition mbedtls_nist_kw_wrap ::
  "cipher_update \<Rightarrow> nist_kw_mode \<Rightarrow> bytes \<Rightarrow> nat \<Rightarrow> u32 \<times> nat \<times> bytes" where
  "mbedtls_nist_kw_wrap cu mode input out_size =
     (let in_len = length input;
          padlen = (if mode = MBEDTLS_KW_MODE_KW then 0
                    else if in_len mod 8 \<noteq> 0 then 8 - in_len mod 8 else 0);
          semiblocks = (in_len + padlen) div 8 + 1;
          s = 6 * (semiblocks - 1)
      in if out_size < in_len + 8 + padlen then (MBEDTLS_ERR_CIPHER_BAD_INPUT_DATA, 0, [])
         else if mode = MBEDTLS_KW_MODE_KW \<and> (in_len < 16 \<or> in_len mod 8 \<noteq> 0)
         then (MBEDTLS_ERR_CIPHER_BAD_INPUT_DATA, 0, [])
         else if mode = MBEDTLS_KW_MODE_KWP \<and> in_len < 1
         then (MBEDTLS_ERR_CIPHER_BAD_INPUT_DATA, 0, [])
         else
         let output = (if mode = MBEDTLS_KW_MODE_KW then NIST_KW_ICV1 @ input
                       else NIST_KW_ICV2 @ put_uint32_be (of_nat in_len) @ input @ replicate padlen 0)
         in if mode = MBEDTLS_KW_MODE_KWP \<and> in_len \<le> 8
            then (case cu (take 16 output) of
                    Inl e \<Rightarrow> (e, 0, replicate (semiblocks * 8) 0)
                  | Inr b \<Rightarrow> (0, semiblocks * 8, overwrite 0 b output))
            else if semiblocks < 3
            then (MBEDTLS_ERR_CIPHER_BAD_INPUT_DATA, 0, replicate (semiblocks * 8) 0)
            else (case wrap_loop cu semiblocks s output of
                    Inl e \<Rightarrow> (e, 0, replicate (semiblocks * 8) 0)
                  | Inr (out, r2) \<Rightarrow> (0, semiblocks * 8, out)))"

text \<open>One turn of the unwrapping loop: A, the output buffer and the offset of R in it.\<close>

definition unwrap_turn ::
  "cipher_update \<Rightarrow> nat \<Rightarrow> nat \<Rightarrow> bytes \<times> bytes \<times> nat \<Rightarrow> u32 + bytes \<times> bytes \<times> nat" where
  "unwrap_turn cu n t st = (case st of (a, out, r) \<Rightarrow>
     (let a = calc_a_xor_t a (of_nat t) in
      case cu (a @ take 8 (drop r out)) of
        Inl e \<Rightarrow> Inl e
      | Inr outbuff \<Rightarrow>
          Inr (take 8 outbuff, overwrite r (take 8 (drop 8 outbuff)) out,
               if r = 0 then (n - 2) * 8 else r - 8)))"

primrec unwrap_loop ::
  "cipher_update \<Rightarrow> nat \<Rightarrow> nat \<Rightarrow> bytes \<times> bytes \<times> nat \<Rightarrow> u32 + bytes \<times> bytes \<times> nat" where
  "unwrap_loop cu n 0 st = Inr st"
| "unwrap_loop cu n (Suc t) st =
     (case unwrap_turn cu n (Suc t) st of Inl e \<Rightarrow> Inl e | Inr st \<Rightarrow> unwrap_loop cu n t st)"

text \<open>Return code, \<^verbatim>\<open>*out_len\<close>, A and what is stored at \<^verbatim>\<open>output\<close>.\<close>

definition unwrap :: "cipher_update \<Rightarrow> bytes \<Rightarrow> nat \<Rightarrow> u32 \<times> nat \<times> bytes \<times> bytes" where
  "unwrap cu input semiblocks =
     (if semiblocks < 3 then (MBEDTLS_ERR_CIPHER_BAD_INPUT_DATA, 0, [], [])
      else case unwrap_loop cu semiblocks (6 * (semiblocks - 1))
                  (take 8 input, take ((semiblocks - 1) * 8) (drop 8 input), (semiblocks - 2) * 8) of
             Inl e \<Rightarrow> (e, 0, [], replicate ((semiblocks - 1) * 8) 0)
           | Inr (a, out, r) \<Rightarrow> (0, (semiblocks - 1) * 8, a, out))"

text \<open>The \<^verbatim>\<open>cleanup\<close> label.\<close>

definition kw_cleanup :: "u32 \<Rightarrow> nat \<Rightarrow> bytes \<Rightarrow> u32 \<times> nat \<times> bytes" where
  "kw_cleanup ret out_len output =
     (if ret \<noteq> 0 then (ret, 0, overwrite 0 (replicate out_len 0) output) else (ret, out_len, output))"

text \<open>
  The tail of the KWP branch, from the comparison with ICV2 on. \<^verbatim>\<open>padlen\<close> is computed in
  \<^verbatim>\<open>size_t\<close> and wraps around when \<^verbatim>\<open>Plen\<close> is too large.
\<close>

definition kwp_check :: "nat \<Rightarrow> nat \<Rightarrow> bytes \<Rightarrow> bytes \<Rightarrow> u32 \<times> nat \<times> bytes" where
  "kwp_check in_len out_len a output =
     (let ret = (if mbedtls_nist_kw_safer_memcmp NIST_KW_ICV2 a 4 \<noteq> 0
                 then MBEDTLS_ERR_CIPHER_AUTH_FAILED else 0);
          plen = getbe32 (\<lambda>i. bnth a (4 + i));
          padlen = of_nat in_len - 8 - plen :: u32;
          ret = (if padlen > 7 then MBEDTLS_ERR_CIPHER_AUTH_FAILED else ret);
          padlen = unat (padlen AND 7);
          diff = fold (\<lambda>i diff. if i \<ge> 8 - padlen then diff OR bnth output (out_len - 8 + i) else diff)
                   [0..<8] (0 :: u8);
          ret = (if diff \<noteq> 0 then MBEDTLS_ERR_CIPHER_AUTH_FAILED else ret)
      in if ret \<noteq> 0 then kw_cleanup ret out_len output
         else kw_cleanup 0 (unat plen) (overwrite (unat plen) (replicate padlen 0) output))"

text \<open>\<open>in_len\<close> is a \<^verbatim>\<open>size_t\<close>: the guard on \<^verbatim>\<open>out_size\<close> wraps around for inputs shorter than 8.\<close>

definition mbedtls_nist_kw_unwrap ::
  "cipher_update \<Rightarrow> nist_kw_mode \<Rightarrow> bytes \<Rightarrow> u32 \<Rightarrow> u32 \<times> nat \<times> bytes" where
  "mbedtls_nist_kw_unwrap cu mode input out_size =
     (let in_len = length input in
      if out_size < of_nat in_len - 8 then (MBEDTLS_ERR_CIPHER_BAD_INPUT_DATA, 0, [])
      else case mode of
        MBEDTLS_KW_MODE_KW \<Rightarrow>
          if in_len < 24 \<or> in_len mod 8 \<noteq> 0 then (MBEDTLS_ERR_CIPHER_BAD_INPUT_DATA, 0, [])
          else (case unwrap cu input (in_len div 8) of (ret, out_len, a, output) \<Rightarrow>
            if ret \<noteq> 0 then kw_cleanup ret out_len output
            else if mbedtls_nist_kw_safer_memcmp NIST_KW_ICV1 a 8 \<noteq> 0
            then kw_cleanup MBEDTLS_ERR_CIPHER_AUTH_FAILED out_len output
            else kw_cleanup 0 out_len output)
      | MBEDTLS_KW_MODE_KWP \<Rightarrow>
          if in_len < 16 \<or> in_len mod 8 \<noteq> 0 then (MBEDTLS_ERR_CIPHER_BAD_INPUT_DATA, 0, [])
          else if in_len = 16
          then (case cu (take 16 input) of
                  Inl e \<Rightarrow> kw_cleanup e 0 []
                | Inr b \<Rightarrow> kwp_check in_len 8 (take 8 b) (take 8 (drop 8 b)))
          else (case unwrap cu input (in_len div 8) of (ret, out_len, a, output) \<Rightarrow>
            if ret \<noteq> 0 then kw_cleanup ret out_len output
            else kwp_check in_len out_len a output))"

subsection \<open>Unwrapping undoes wrapping\<close>

lemma length_calc_a_xor_t [simp]: "length (calc_a_xor_t a t) = 8"
  by (simp add: calc_a_xor_t_def)

lemma calc_a_xor_t_twice: "length a = 8 \<Longrightarrow> calc_a_xor_t (calc_a_xor_t a t) t = a"
  by (rule nth_equalityI) (auto simp: calc_a_xor_t_def xor.assoc)

definition inverse_ciphers :: "cipher_update \<Rightarrow> cipher_update \<Rightarrow> bool" where
  "inverse_ciphers e d \<longleftrightarrow>
     (\<forall>b. length b = 16 \<longrightarrow> (\<exists>c. e b = Inr c \<and> length c = 16 \<and> d c = Inr b))"

lemma take_drop_overwrite:
  "length x = k \<Longrightarrow> i \<le> length out \<Longrightarrow> take k (drop i (overwrite i x out)) = x"
  by (simp add: overwrite_def)

lemma overwrite_twice:
  "length x = length y \<Longrightarrow> i \<le> length out \<Longrightarrow> overwrite i y (overwrite i x out) = overwrite i y out"
  by (simp add: overwrite_def)

lemma overwrite_same: "i + k \<le> length out \<Longrightarrow> overwrite i (take k (drop i out)) out = out"
  by (simp add: overwrite_def) (metis append_take_drop_id drop_drop add.commute)

lemma overwrite_shift:
  assumes "8 \<le> i" "8 \<le> length out"
  shows "drop 8 (overwrite i x out) = overwrite (i - 8) x (drop 8 out)"
    "take 8 (overwrite i x out) = take 8 out"
  using assms by (simp_all add: overwrite_def drop_take)

lemma wrap_turn_inverse:
  assumes inv: "inverse_ciphers e d" and out: "length out = 8 * n" "8 \<le> r" "r + 8 \<le> length out"
  shows "\<exists>out'. wrap_turn e n t (out, r) = Inr (out', if r + 8 \<ge> n * 8 then 8 else r + 8)
     \<and> length out' = 8 * n
     \<and> unwrap_turn d n t (take 8 out', drop 8 out', r - 8)
         = Inr (take 8 out, drop 8 out, if r - 8 = 0 then (n - 2) * 8 else r - 8 - 8)"
proof -
  let ?b = "take 8 out @ take 8 (drop r out)"
  have "length ?b = 16" using out by simp
  then obtain c where c: "e ?b = Inr c" "length c = 16" "d c = Inr ?b"
    using inv unfolding inverse_ciphers_def by blast
  let ?a = "calc_a_xor_t (take 8 c) (of_nat t)" and ?l = "take 8 (drop 8 c)"
  let ?o = "overwrite r ?l (overwrite 0 ?a out)"
  have l: "length (overwrite 0 ?a out) = 8 * n" "length ?l = 8" "length ?o = 8 * n"
    using out c(2) by (simp_all add: length_overwrite)
  have a: "take 8 ?o = ?a" "drop 8 ?o = overwrite (r - 8) ?l (drop 8 out)"
    using out l by (simp_all add: overwrite_shift overwrite_def)
  have "calc_a_xor_t ?a (of_nat t) = take 8 c" using c(2) by (intro calc_a_xor_t_twice) simp
  moreover have "take 8 (drop (r - 8) (overwrite (r - 8) ?l (drop 8 out))) = ?l"
    using out l by (intro take_drop_overwrite) auto
  moreover have "take 8 c @ ?l = c" using c(2) by (metis append_take_drop_id drop_eq_Nil take_all length_drop add_diff_cancel_right' numeral_Bit0 order_refl)
  ultimately have u: "unwrap_turn d n t (take 8 ?o, drop 8 ?o, r - 8)
      = Inr (take 8 out, overwrite (r - 8) (take 8 (drop r out)) (drop 8 out),
          if r - 8 = 0 then (n - 2) * 8 else r - 8 - 8)"
    unfolding unwrap_turn_def a using c(3) out l
    by (simp add: overwrite_twice)
  have "drop r out = drop (r - 8) (drop 8 out)" using out by simp
  then have "overwrite (r - 8) (take 8 (drop r out)) (drop 8 out) = drop 8 out"
    using overwrite_same [of "r - 8" 8 "drop 8 out"] out by simp
  with u l show ?thesis
    by (intro exI [of _ ?o]) (simp add: wrap_turn_def c(1))
qed

text \<open>The offset of R when the unwrapping loop is at \<open>k\<close>.\<close>

definition kw_ptr :: "nat \<Rightarrow> nat \<Rightarrow> nat" where
  "kw_ptr n k = (if k mod (n - 1) = 0 then (n - 2) * 8 else 8 * (k mod (n - 1)) - 8)"

lemma kw_ptr_Suc: "3 \<le> n \<Longrightarrow> kw_ptr n (Suc k) = 8 * (k mod (n - 1))"
  by (auto simp: kw_ptr_def mod_Suc)

lemma wrap_ptr_Suc:
  assumes "3 \<le> n"
  shows "(if 8 * (1 + k mod (n - 1)) + 8 \<ge> n * 8 then 8 else 8 * (1 + k mod (n - 1)) + 8)
     = 8 * (1 + Suc k mod (n - 1))"
proof -
  define j where "j = k mod (n - 1)"
  have "j < n - 1" using assms by (simp add: j_def)
  moreover have "Suc k mod (n - 1) = (if Suc j = n - 1 then 0 else Suc j)"
    by (simp add: mod_Suc j_def)
  ultimately show ?thesis unfolding j_def [symmetric] by auto
qed

lemma wrap_loop_inverse:
  assumes inv: "inverse_ciphers e d" and n: "3 \<le> n" and out: "length out = 8 * n"
  shows "\<exists>out' r. wrap_loop e n k out = Inr (out', 8 * (1 + k mod (n - 1))) \<and> length out' = 8 * n
     \<and> unwrap_loop d n k (take 8 out', drop 8 out', kw_ptr n k) = Inr (take 8 out, drop 8 out, r)"
proof (induction k)
  case 0
  then show ?case using out by simp
next
  case (Suc k)
  then obtain out' r where w: "wrap_loop e n k out = Inr (out', 8 * (1 + k mod (n - 1)))"
    and l: "length out' = 8 * n"
    and u: "unwrap_loop d n k (take 8 out', drop 8 out', kw_ptr n k) = Inr (take 8 out, drop 8 out, r)"
    by blast
  have km: "k mod (n - 1) < n - 1" using n by simp
  have "8 * (1 + j) + 8 \<le> 8 * n" if "j < n - 1" for j using that by simp
  from this [OF km] have "8 * (1 + k mod (n - 1)) + 8 \<le> length out'" unfolding l .
  from wrap_turn_inverse [OF inv l _ this, of "Suc k"] obtain out2 where
    w2: "wrap_turn e n (Suc k) (out', 8 * (1 + k mod (n - 1))) = Inr (out2, 8 * (1 + Suc k mod (n - 1)))"
    and l2: "length out2 = 8 * n"
    and u2: "unwrap_turn d n (Suc k) (take 8 out2, drop 8 out2, kw_ptr n (Suc k))
        = Inr (take 8 out', drop 8 out', kw_ptr n k)"
    unfolding wrap_ptr_Suc [OF n] kw_ptr_Suc [OF n] by (auto simp: kw_ptr_def)
  show ?case using w w2 l2 u u2 by (simp del: One_nat_def)
qed

lemma or_fold_zero:
  "fold (\<lambda>i diff. diff OR f i) is (0 :: u8) = 0 \<longleftrightarrow> (\<forall>i \<in> set is. f i = 0)"
proof -
  have "fold (\<lambda>i diff. diff OR f i) is x = 0 \<longleftrightarrow> x = 0 \<and> (\<forall>i \<in> set is. f i = 0)" for x :: u8
    by (induction "is" arbitrary: x) (auto simp: or_eq_0_iff)
  then show ?thesis by simp
qed

lemma xor_zero_iff: "x XOR y = 0 \<longleftrightarrow> x = (y :: u8)"
  by (metis xor.assoc xor.left_neutral xor.right_neutral xor_self_eq)

lemma safer_memcmp_zero:
  "length a = n \<Longrightarrow> length b = n \<Longrightarrow> mbedtls_nist_kw_safer_memcmp a b n = 0 \<longleftrightarrow> a = b"
  unfolding mbedtls_nist_kw_safer_memcmp_def or_fold_zero
  by (simp add: list_eq_iff_nth_eq xor_zero_iff Ball_def)

text \<open>The loops, for any first semiblock.\<close>

lemma unwrap_of_wrap:
  assumes inv: "inverse_ciphers e d" and n: "3 \<le> n" and l: "length a = 8" "length x = (n - 1) * 8"
  obtains c r where "wrap_loop e n (6 * (n - 1)) (a @ x) = Inr (c, r)" "length c = 8 * n" "unwrap d c n = (0, length x, a, x)"
proof -
  have lo: "length (a @ x) = 8 * n" using n l by simp
  obtain c r where w: "wrap_loop e n (6 * (n - 1)) (a @ x) = Inr (c, 8 * (1 + 6 * (n - 1) mod (n - 1)))"
    and lc: "length c = 8 * n"
    and u: "unwrap_loop d n (6 * (n - 1)) (take 8 c, drop 8 c, kw_ptr n (6 * (n - 1)))
        = Inr (take 8 (a @ x), drop 8 (a @ x), r)"
    using wrap_loop_inverse [OF inv n lo, of "6 * (n - 1)"] by blast
  have ptr: "kw_ptr n (6 * (n - 1)) = (n - 2) * 8" by (simp add: kw_ptr_def)
  have tk: "take ((n - 1) * 8) (drop 8 c) = drop 8 c" using lc n by simp
  have "unwrap d c n = (0, length x, a, x)"
    unfolding unwrap_def tk ptr [symmetric] u using n l by simp
  with w lc show thesis using that by blast
qed

lemma kw_unwrap_wrap:
  assumes inv: "inverse_ciphers e d" and i: "16 \<le> length input" "8 dvd length input"
    and fit: "length input + 8 \<le> out_size" "length input < 2 ^ 31" "length input \<le> unat dec_size"
  shows "\<exists>c. mbedtls_nist_kw_wrap e MBEDTLS_KW_MODE_KW input out_size = (0, length input + 8, c)
     \<and> length c = length input + 8
     \<and> mbedtls_nist_kw_unwrap d MBEDTLS_KW_MODE_KW c dec_size = (0, length input, input)"
proof -
  let ?n = "length input div 8 + 1"
  have n: "3 \<le> ?n" "8 * ?n = length input + 8" "length input = (?n - 1) * 8" using i by auto
  have icv: "length NIST_KW_ICV1 = 8" by (simp add: NIST_KW_ICV1_def)
  obtain c r where c: "wrap_loop e ?n (6 * (?n - 1)) (NIST_KW_ICV1 @ input) = Inr (c, r)" "length c = 8 * ?n"
    "unwrap d c ?n = (0, length input, NIST_KW_ICV1, input)"
    using unwrap_of_wrap [OF inv n(1) icv n(3)] by blast
  have c8: "length c div 8 = ?n" "length c mod 8 = 0" "24 \<le> length c" using c(2) n i by auto
  have "(of_nat (length c) :: u32) - 8 = of_nat (length input)" using c(2) n(2) by simp
  then have sz: "\<not> dec_size < of_nat (length c) - 8" using fit by (simp add: word_less_nat_alt unat_of_nat)
  have "mbedtls_nist_kw_unwrap d MBEDTLS_KW_MODE_KW c dec_size = (0, length input, input)"
    using sz c(3) c8 safer_memcmp_zero [of NIST_KW_ICV1 8 NIST_KW_ICV1] icv
    by (simp add: mbedtls_nist_kw_unwrap_def kw_cleanup_def)
  moreover have "mbedtls_nist_kw_wrap e MBEDTLS_KW_MODE_KW input out_size = (0, length input + 8, c)"
    using c(1) i fit n by (simp add: mbedtls_nist_kw_wrap_def Let_def dvd_eq_mod_eq_0)
  ultimately show ?thesis using c(2) n(2) by auto
qed

text \<open>With padding: any input of at least one byte.\<close>

lemma getbe32_put:
  assumes "f 0 = ucast (drop_bit 24 n)" "f 1 = ucast (drop_bit 16 n)" "f 2 = ucast (drop_bit 8 n)" "f 3 = ucast n"
  shows "getbe32 f = n"
  unfolding getbe32_def assms using join32 [of n] by (simp add: ac_simps)

lemma fold_diff_zero: "(\<And>i. i \<in> set is \<Longrightarrow> P i \<Longrightarrow> f i = 0) \<Longrightarrow> fold (\<lambda>i diff. if P i then diff OR f i else diff) is d = (d :: u8)"
  by (induction "is" arbitrary: d) simp_all

text \<open>The check accepts what the padding of a message of \<open>n\<close> bytes leaves.\<close>

lemma kwp_check_padded:
  assumes n: "length input < 2 ^ 31" "1 \<le> length input" and p: "p \<le> 7" "8 dvd length input + p"
  shows "kwp_check (length input + p + 8) (length input + p) (NIST_KW_ICV2 @ put_uint32_be (of_nat (length input)))
      (input @ replicate p 0) = (0, length input, input @ replicate p 0)"
proof -
  let ?a = "NIST_KW_ICV2 @ put_uint32_be (of_nat (length input))" and ?x = "input @ replicate p 0"
  have pl: "getbe32 (\<lambda>i. bnth ?a (4 + i)) = of_nat (length input)"
    by (rule getbe32_put) (simp_all add: bnth_def NIST_KW_ICV2_def put_uint32_be_def)
  have m: "mbedtls_nist_kw_safer_memcmp NIST_KW_ICV2 ?a 4 = 0"
    unfolding mbedtls_nist_kw_safer_memcmp_def or_fold_zero by (simp add: NIST_KW_ICV2_def upt_rec)
  have pd: "of_nat (length input + p + 8) - 8 - of_nat (length input) = (of_nat p :: u32)" by simp
  have "p = 0 \<or> p = 1 \<or> p = 2 \<or> p = 3 \<or> p = 4 \<or> p = 5 \<or> p = 6 \<or> p = 7" using p(1) by auto
  then have p7: "\<not> (of_nat p :: u32) > 7" "unat ((of_nat p :: u32) AND 7) = p" by auto
  have l8: "8 \<le> length input + p" using p(2) n(2) by (auto dest: dvd_imp_le)
  have d: "fold (\<lambda>i diff. if i \<ge> 8 - p then diff OR bnth ?x (length input + p - 8 + i) else diff) [0..<8] (0 :: u8) = 0"
    by (rule fold_diff_zero) (use l8 p in \<open>auto simp: bnth_def nth_append\<close>)
  have u: "unat (of_nat (length input) :: u32) = length input" using n(1) by (simp add: unat_of_nat)
  show ?thesis
    unfolding kwp_check_def Let_def pl m pd p7(2) d u using p7(1) by (simp add: kw_cleanup_def overwrite_def)
qed

lemma kwp_unwrap_wrap:
  assumes inv: "inverse_ciphers e d" and i: "1 \<le> length input" "length input < 2 ^ 31"
    and p: "p = (8 - length input mod 8) mod 8"
    and fit: "length input + p + 8 \<le> out_size" "length input + p \<le> unat dec_size"
  shows "\<exists>c. mbedtls_nist_kw_wrap e MBEDTLS_KW_MODE_KWP input out_size = (0, length input + p + 8, c)
     \<and> length c = length input + p + 8
     \<and> mbedtls_nist_kw_unwrap d MBEDTLS_KW_MODE_KWP c dec_size = (0, length input, input @ replicate p 0)"
proof -
  let ?a = "NIST_KW_ICV2 @ put_uint32_be (of_nat (length input))" and ?x = "input @ replicate p 0"
  let ?n = "(length input + p) div 8 + 1"
  have pp: "(if length input mod 8 \<noteq> 0 then 8 - length input mod 8 else 0) = p" unfolding p by simp
  define q r where "q = length input div 8" and "r = length input mod 8"
  have l: "length input = 8 * q + r" "r < 8" by (simp_all add: q_def r_def)
  have "p = (if r = 0 then 0 else 8 - r)" unfolding pp [symmetric] by (simp add: r_def)
  with l have "length input + p = 8 * (q + (if r = 0 then 0 else 1))" by simp
  then have p7: "p \<le> 7" "8 dvd length input + p" unfolding p by auto
  have n8: "8 * ?n = length input + p + 8" "length ?x = (?n - 1) * 8" using p7(2) by auto
  have a8: "length ?a = 8" by (simp add: NIST_KW_ICV2_def)
  have "(of_nat (length input + p + 8) :: u32) - 8 = of_nat (length input + p)" by simp
  then have sz: "\<not> dec_size < of_nat (length input + p + 8) - 8"
    using fit(2) i(2) p7(1) by (simp add: word_less_nat_alt unat_of_nat del: of_nat_add)
  show ?thesis
  proof (cases "length input \<le> 8")
    case True
    then have x8: "length input + p = 8" using p7 i(1) by auto
    have "length (?a @ ?x) = 16" using a8 x8 by simp
    then obtain c where c: "e (?a @ ?x) = Inr c" "length c = 16" "d c = Inr (?a @ ?x)"
      using inv unfolding inverse_ciphers_def by blast
    have x16: "take 16 (?a @ ?x) = ?a @ ?x" "take 16 c = c" "overwrite 0 c (?a @ ?x) = c" "take 8 (?a @ ?x) = ?a" "drop 8 (?a @ ?x) = ?x" "take 8 ?x = ?x"
      using a8 x8 c(2) by (simp_all add: overwrite_def)
    have "mbedtls_nist_kw_wrap e MBEDTLS_KW_MODE_KWP input out_size = (0, length input + p + 8, c)"
      using True i fit x8 c(1) x16(1,3) unfolding mbedtls_nist_kw_wrap_def Let_def nist_kw_mode.simps if_False pp
      by (auto simp: ac_simps)
    moreover have "mbedtls_nist_kw_unwrap d MBEDTLS_KW_MODE_KWP c dec_size = kwp_check 16 8 (take 8 (?a @ ?x)) (take 8 (drop 8 (?a @ ?x)))"
      using sz c(2,3) x16(2) x8 unfolding mbedtls_nist_kw_unwrap_def Let_def by (simp del: take_append drop_append append_assoc)
    then have "mbedtls_nist_kw_unwrap d MBEDTLS_KW_MODE_KWP c dec_size = (0, length input, ?x)"
      unfolding x16(4-6) using kwp_check_padded [OF i(2,1) p7] x8 by simp
    ultimately show ?thesis using c(2) x8 by auto
  next
    case False
    then have n3: "3 \<le> ?n" using p7(2) by auto
    obtain c r where c: "wrap_loop e ?n (6 * (?n - 1)) (?a @ ?x) = Inr (c, r)" "length c = 8 * ?n" "unwrap d c ?n = (0, length ?x, ?a, ?x)"
      using unwrap_of_wrap [OF inv n3 a8 n8(2)] by blast
    have lc: "length c = length input + p + 8" using c(2) n8(1) by simp
    have "mbedtls_nist_kw_wrap e MBEDTLS_KW_MODE_KWP input out_size = (0, length input + p + 8, c)"
      using False i fit c(1) n3 n8(1) unfolding mbedtls_nist_kw_wrap_def Let_def nist_kw_mode.simps if_False pp
      by (auto simp: ac_simps)
    moreover have "length c div 8 = ?n" "length c mod 8 = 0" "16 < length c" using c(2) n3 by simp_all
    then have "mbedtls_nist_kw_unwrap d MBEDTLS_KW_MODE_KWP c dec_size = (0, length input, ?x)"
      using sz c(3) lc kwp_check_padded [OF i(2,1) p7] unfolding mbedtls_nist_kw_unwrap_def Let_def by simp
    ultimately show ?thesis using lc by auto
  qed
qed

subsection \<open>Integrity check\<close>

definition block_sized :: "cipher_update \<Rightarrow> bool" where
  "block_sized d \<longleftrightarrow> (\<forall>b. d b \<noteq> Inl 0) \<and> (\<forall>b c. d b = Inr c \<longrightarrow> length c = 16)"

lemma unwrap_loop_sizes:
  assumes d: "block_sized d" and n: "3 \<le> n"
  shows "unwrap_loop d n k (a, out, r) = Inr (a', out', r') \<Longrightarrow> length a = 8 \<Longrightarrow>
    length out = (n - 1) * 8 \<Longrightarrow> r + 8 \<le> length out \<Longrightarrow>
    length a' = 8 \<and> length out' = (n - 1) * 8"
proof (induction k arbitrary: a out r)
  case (Suc k)
  let ?b = "calc_a_xor_t a (of_nat (Suc k)) @ take 8 (drop r out)"
  from Suc.prems(1) obtain c where c: "d ?b = Inr c"
    and rest: "unwrap_loop d n k (take 8 c, overwrite r (take 8 (drop 8 c)) out,
         if r = 0 then (n - 2) * 8 else r - 8) = Inr (a', out', r')"
    by (auto simp: unwrap_turn_def Let_def split: sum.splits)
  have c16: "length c = 16" using d c by (auto simp: block_sized_def)
  have "(if r = 0 then (n - 2) * 8 else r - 8) + 8 \<le> (n - 1) * 8" using Suc.prems n by auto
  then show ?case
    using Suc.prems c16 by (intro Suc.IH [OF rest]) (simp_all add: length_overwrite)
qed simp

lemma unwrap_loop_no_zero_error:
  assumes "block_sized d"
  shows "unwrap_loop d n k st \<noteq> Inl 0"
  using assms
  by (induction k arbitrary: st) (auto simp: unwrap_turn_def block_sized_def Let_def split: sum.splits prod.splits)

lemma unwrap_sizes:
  assumes d: "block_sized d" and c: "24 \<le> length c" "unwrap d c (length c div 8) = (0, n, a, out)"
  shows "length a = 8 \<and> n = (length c div 8 - 1) * 8 \<and> length out = n"
proof -
  have l: "3 \<le> length c div 8" using c(1) by auto
  let ?n = "length c div 8"
  have sz: "length (take 8 c) = 8" "length (take ((?n - 1) * 8) (drop 8 c)) = (?n - 1) * 8"
    "(?n - 2) * 8 + 8 \<le> length (take ((?n - 1) * 8) (drop 8 c))" using l c(1) by auto
  from c(2) l obtain r' where "unwrap_loop d ?n (6 * (?n - 1)) (take 8 c, take ((?n - 1) * 8) (drop 8 c), (?n - 2) * 8)
      = Inr (a, out, r')" and n: "n = (?n - 1) * 8"
    using unwrap_loop_no_zero_error [OF d] by (auto simp: unwrap_def split: sum.splits if_splits)
  from unwrap_loop_sizes [OF d l this(1) sz] n show ?thesis by simp
qed


text \<open>
  In KW mode success means that the recovered A is the integrity check value, and failure
  leaves no length and no plaintext behind.
\<close>

lemma kw_unwrap_success:
  assumes d: "block_sized d" and u: "mbedtls_nist_kw_unwrap d MBEDTLS_KW_MODE_KW c sz = (0, n, out)"
  shows "unwrap d c (length c div 8) = (0, n, NIST_KW_ICV1, out) \<and> length out = n"
proof -
  obtain ret m a o' where w: "unwrap d c (length c div 8) = (ret, m, a, o')" by (metis prod_cases4)
  from u w have len: "24 \<le> length c" and r: "ret = 0" "m = n" "o' = out"
    and icv: "mbedtls_nist_kw_safer_memcmp NIST_KW_ICV1 a 8 = 0"
    by (auto simp: mbedtls_nist_kw_unwrap_def kw_cleanup_def Let_def split: if_splits)
  from unwrap_sizes [OF d len] w r have "length a = 8" "length out = n" by auto
  with icv have "a = NIST_KW_ICV1"
    using safer_memcmp_zero [of NIST_KW_ICV1 8 a] by (simp add: NIST_KW_ICV1_def)
  with w r \<open>length out = n\<close> show ?thesis by simp
qed

lemma kw_unwrap_failure:
  assumes d: "block_sized d" and u: "mbedtls_nist_kw_unwrap d MBEDTLS_KW_MODE_KW c sz = (ret, n, out)"
    and e: "ret \<noteq> 0"
  shows "n = 0 \<and> set out \<subseteq> {0}"
proof -
  obtain ret' m a o' where w: "unwrap d c (length c div 8) = (ret', m, a, o')" by (metis prod_cases4)
  show ?thesis
  proof (cases "sz < of_nat (length c) - 8 \<or> length c < 24 \<or> length c mod 8 \<noteq> 0")
    case True
    with u show ?thesis by (auto simp: mbedtls_nist_kw_unwrap_def Let_def split: if_splits)
  next
    case False
    then have len: "24 \<le> length c" by simp
    show ?thesis
    proof (cases "ret' = 0")
      case True
      with u w e False have "n = 0" "out = overwrite 0 (replicate m 0) o'"
        by (auto simp: mbedtls_nist_kw_unwrap_def kw_cleanup_def Let_def split: if_splits)
      moreover have "length o' = m" using unwrap_sizes [OF d len] w True by auto
      ultimately show ?thesis by (auto simp: overwrite_def)
    next
      case nz: False
      with w have "m = 0" "set o' \<subseteq> {0}"
        by (auto simp: unwrap_def split: if_splits sum.splits)
      with u w nz False show ?thesis
        by (auto simp: mbedtls_nist_kw_unwrap_def kw_cleanup_def Let_def split: if_splits)
    qed
  qed
qed

end
