(* ===== verification/AesTables.thy ===== *)
theory AesTables
  imports Utils
begin

text \<open>
  The tables of the block cipher, \<^verbatim>\<open>crypto/aes.twl.c\<close>. This configuration computes them when the
  first key is set: \<^verbatim>\<open>aes_gen_tables\<close> fills the static arrays, always with the same values, so they are
  constants here. The lemmas show what the entries are in the field GF(256).
\<close>

record aes_tables =
  FSb :: "u8 list"
  FT0 :: "u32 list"
  FT1 :: "u32 list"
  FT2 :: "u32 list"
  FT3 :: "u32 list"
  RSb :: "u8 list"
  RT0 :: "u32 list"
  RT1 :: "u32 list"
  RT2 :: "u32 list"
  RT3 :: "u32 list"
  RCON :: "u32 list"

definition XTIME :: "u32 \<Rightarrow> u32" where
  "XTIME x = push_bit 1 x XOR (if x AND 0x80 \<noteq> 0 then 0x1B else 0)"

definition ROTL8 :: "u32 \<Rightarrow> u32" where
  "ROTL8 x = push_bit 8 x AND 0xFFFFFFFF OR drop_bit 24 x"

text \<open>
  The tables of powers and logarithms to the base 3. The arrays are local and uninitialised;
  every entry that is read later, all but \<^verbatim>\<open>log[0]\<close>, is written.
\<close>

definition pow_log_step :: "nat \<Rightarrow> u32 list \<times> nat list \<times> u32 \<Rightarrow> u32 list \<times> nat list \<times> u32" where
  "pow_log_step i st = (case st of (pow, log, x) \<Rightarrow>
     (pow[i := x], log[unat x := i], (x XOR XTIME x) AND 0xFF))"

definition gen_pow_log :: "u32 list \<times> nat list \<times> u32" where
  "gen_pow_log = fold pow_log_step [0..<256] (replicate 256 0, replicate 256 0, 1)"

definition MUL :: "u32 list \<Rightarrow> nat list \<Rightarrow> u32 \<Rightarrow> u32 \<Rightarrow> u32" where
  "MUL pow log x y = (if x \<noteq> 0 \<and> y \<noteq> 0 then pow ! ((log ! unat x + log ! unat y) mod 255) else 0)"

definition gen_rcon :: "u32 list \<times> u32" where
  "gen_rcon = fold (\<lambda>i (rcon, x). (rcon[i := x], XTIME x AND 0xFF)) [0..<10] (replicate 10 0, 1)"

text \<open>The affine map: \<open>y\<close> is rotated left by one bit four times and added.\<close>

definition rot1 :: "u32 \<Rightarrow> u32" where
  "rot1 y = (push_bit 1 y OR drop_bit 7 y) AND 0xFF"

definition sbox_of :: "u32 \<Rightarrow> u32" where
  "sbox_of x =
     (let y = rot1 x; x = x XOR y; y = rot1 y; x = x XOR y; y = rot1 y; x = x XOR y; y = rot1 y
      in x XOR (y XOR 0x63))"

definition sbox_step :: "u32 list \<Rightarrow> nat list \<Rightarrow> nat \<Rightarrow> u8 list \<times> u8 list \<Rightarrow> u8 list \<times> u8 list" where
  "sbox_step pow log i st = (case st of (fsb, rsb) \<Rightarrow>
     let x = sbox_of (pow ! (255 - log ! i)) in (fsb[i := ucast x], rsb[unat x := of_nat i]))"

definition gen_sboxes :: "u32 list \<Rightarrow> nat list \<Rightarrow> u8 list \<times> u8 list" where
  "gen_sboxes pow log = fold (sbox_step pow log) [1..<256]
     ((replicate 256 0)[0 := 0x63], (replicate 256 0)[0x63 := 0])"

definition gen_forward :: "u8 \<Rightarrow> u32" where
  "gen_forward v = (let x = ucast v; y = XTIME x AND 0xFF; z = (y XOR x) AND 0xFF
     in y XOR push_bit 8 x XOR push_bit 16 x XOR push_bit 24 z)"

definition gen_reverse :: "u32 list \<Rightarrow> nat list \<Rightarrow> u8 \<Rightarrow> u32" where
  "gen_reverse pow log v = (let x = ucast v
     in MUL pow log 0x0E x XOR push_bit 8 (MUL pow log 0x09 x)
        XOR push_bit 16 (MUL pow log 0x0D x) XOR push_bit 24 (MUL pow log 0x0B x))"

definition aes_gen_tables :: aes_tables where
  "aes_gen_tables =
     (let (pow, log, x) = gen_pow_log; (rcon, x) = gen_rcon; (fsb, rsb) = gen_sboxes pow log;
          ft0 = map gen_forward fsb; ft1 = map ROTL8 ft0; ft2 = map ROTL8 ft1; ft3 = map ROTL8 ft2;
          rt0 = map (gen_reverse pow log) rsb; rt1 = map ROTL8 rt0; rt2 = map ROTL8 rt1; rt3 = map ROTL8 rt2
      in \<lparr>FSb = fsb, FT0 = ft0, FT1 = ft1, FT2 = ft2, FT3 = ft3,
          RSb = rsb, RT0 = rt0, RT1 = rt1, RT2 = rt2, RT3 = rt3, RCON = rcon\<rparr>)"

subsection \<open>The field GF(256)\<close>

text \<open>
  Bytes as polynomials over GF(2) modulo \<open>x\<^sup>8 + x\<^sup>4 + x\<^sup>3 + x + 1\<close>: addition is XOR, and \<open>xt\<close>
  multiplies with \<open>x\<close>. The product of FIPS 197 adds the multiples \<open>x\<^sup>k b\<close> for the bits \<open>k\<close> of \<open>a\<close>.
\<close>

definition xt :: "u8 \<Rightarrow> u8" where
  "xt b = push_bit 1 b XOR (if bit b 7 then 0x1B else 0)"

primrec gmul_bits :: "nat \<Rightarrow> u8 \<Rightarrow> u8 \<Rightarrow> u8" where
  "gmul_bits 0 a b = 0"
| "gmul_bits (Suc k) a b = gmul_bits k a b XOR (if bit a k then (xt ^^ k) b else 0)"

definition gmul :: "u8 \<Rightarrow> u8 \<Rightarrow> u8" where
  "gmul a b = gmul_bits 8 a b"

lemma less_8_cases: "(j::nat) < 8 \<Longrightarrow> j = 0 \<or> j = 1 \<or> j = 2 \<or> j = 3 \<or> j = 4 \<or> j = 5 \<or> j = 6 \<or> j = 7"
  by linarith

lemma xt_xor: "xt (a XOR b) = xt a XOR xt b"
  by (rule bit_word_eqI) (auto simp: xt_def bit_simps)

lemma xt_0 [simp]: "xt 0 = 0"
  by (simp add: xt_def)

lemma ucast_ucast_u8 [simp]: "ucast (ucast b :: u32) = (b :: u8)"
  by (rule bit_word_eqI) (auto simp: bit_simps)

lemma ff_mask: "(0xFF :: u32) = mask 8"
  by (simp add: mask_eq_exp_minus_1)

lemma byte_and: "(ucast (b :: u8) :: u32) AND 0xFF = ucast b"
  unfolding ff_mask by (rule bit_word_eqI) (use bit_u8_less [of b] in \<open>auto simp: bit_simps\<close>)

lemma ucast_u8_eq_0 [simp]: "(ucast (b :: u8) :: u32) = 0 \<longleftrightarrow> b = 0"
  by (simp add: word_unat_eq_iff)

lemma XTIME_xt: "XTIME (ucast b) AND 0xFF = ucast (xt b)"
proof -
  have c: "(ucast b AND 0x80 \<noteq> (0 :: u32)) \<longleftrightarrow> bit b 7"
  proof -
    have "ucast b AND 2 ^ 7 = (0 :: u32) \<longleftrightarrow> \<not> bit (ucast b :: u32) 7"
      by (rule and_exp_eq_0_iff_not_bit)
    then show ?thesis by (simp add: bit_simps)
  qed
  have "push_bit 1 (ucast b :: u32) AND mask 8 = ucast (push_bit 1 b)"
    by (rule bit_word_eqI) (use bit_u8_less [of b] in \<open>auto simp: bit_simps simp del: push_bit_Suc\<close>)
  moreover have "(0x1B :: u32) AND mask 8 = ucast (0x1B :: u8)" by (simp add: mask_eq_exp_minus_1)
  ultimately show ?thesis
    unfolding XTIME_def xt_def ff_mask c by (simp add: and.commute [of _ "mask 8"] bit.conj_xor_distrib unsigned_xor_eq split: if_split)
qed


lemma xt_funpow_xor: "(xt ^^ k) (a XOR b) = (xt ^^ k) a XOR (xt ^^ k) b"
  by (induction k) (simp_all add: xt_xor)

lemma xt_funpow_0 [simp]: "(xt ^^ k) 0 = 0"
  by (induction k) simp_all

text \<open>Multiplication with 3, the generator of the table of powers.\<close>

definition by3 :: "u8 \<Rightarrow> u8" where
  "by3 b = b XOR xt b"

lemma by3_xor: "by3 (a XOR b) = by3 a XOR by3 b"
  by (simp add: by3_def xt_xor ac_simps)

lemma by3_funpow_xor: "(by3 ^^ k) (a XOR b) = (by3 ^^ k) a XOR (by3 ^^ k) b"
  by (induction k) (simp_all add: by3_xor)

lemma by3_xt: "(by3 ^^ k) (xt b) = xt ((by3 ^^ k) b)"
  by (induction k) (simp_all add: by3_def xt_xor)

lemma by3_0 [simp]: "by3 0 = 0" "(by3 ^^ k) 0 = 0"
  by (simp_all add: by3_def, induction k, simp_all add: by3_def)

lemma by3_numeral: "(by3 ^^ numeral k) b = (by3 ^^ pred_numeral k) (by3 b)"
  by (simp add: numeral_eq_Suc funpow_swap1)

lemma by3_lit: "by3 (numeral b) = numeral b XOR xt (numeral b)" "by3 1 = 3"
  by (simp_all add: by3_def xt_def)

lemma xt_lit: "xt (numeral b) = push_bit 1 (numeral b) XOR (if bit (numeral b :: u8) 7 then 0x1B else 0)"
  by (simp add: xt_def)

lemma by3_15: "(by3 ^^ 15) 1 = 53" and by3_51: "(by3 ^^ 51) 1 = 12"
  and by3_85: "(by3 ^^ 85) 1 = 189" and by3_255: "(by3 ^^ 255) 1 = 1"
  by (simp_all add: by3_numeral by3_lit xt_lit)

text \<open>An additive function that commutes with \<open>xt\<close> is multiplication with its value at 1.\<close>

lemma xt_funpow_1: "k < 8 \<Longrightarrow> (xt ^^ k) 1 = 2 ^ k"
proof (induction k)
  case (Suc k)
  then have "\<not> bit (2 ^ k :: u8) 7" by (simp add: bit_simps)
  with Suc show ?case by (simp add: xt_def)
qed simp

lemma gmul_bits_1: "k \<le> 8 \<Longrightarrow> gmul_bits k a 1 = take_bit k a"
proof (induction k)
  case (Suc k)
  then have "gmul_bits (Suc k) a 1 = take_bit k a XOR (if bit a k then 2 ^ k else 0)"
    by (simp add: xt_funpow_1)
  also have "\<dots> = take_bit (Suc k) a"
    by (rule bit_word_eqI) (use Suc.prems in \<open>auto simp: bit_simps less_Suc_eq\<close>)
  finally show ?case .
qed simp

lemma gmul_1 [simp]: "gmul a 1 = a"
  by (simp add: gmul_def gmul_bits_1 take_bit_word_eq_self)

lemma gmul_1_left [simp]: "gmul 1 b = b"
proof -
  have "gmul_bits (Suc k) 1 b = b" for k by (induction k) (simp_all add: bit_1_iff)
  from this [of 7] show ?thesis by (simp add: gmul_def)
qed

lemma gmul_0 [simp]: "gmul 0 b = 0" "gmul a 0 = 0"
proof -
  have "gmul_bits k 0 b = 0" "gmul_bits k a 0 = 0" for k by (induction k) simp_all
  then show "gmul 0 b = 0" "gmul a 0 = 0" by (simp_all add: gmul_def)
qed

lemma linear_gmul:
  assumes "\<And>a b. f (a XOR b) = f a XOR f b" "\<And>b. f (xt b) = xt (f b)"
  shows "f b = gmul b (f 1)"
proof -
  have z: "f 0 = 0" using assms(1) [of 0 0] by simp
  have c: "f ((xt ^^ k) x) = (xt ^^ k) (f x)" for k x by (induction k) (simp_all add: assms(2))
  have "f (gmul_bits k b 1) = gmul_bits k b (f 1)" for k
    by (induction k) (simp_all add: z assms(1) c)
  from this [of 8] show ?thesis by (simp add: gmul_def [symmetric])
qed

lemma by3_gmul: "(by3 ^^ k) b = gmul b ((by3 ^^ k) 1)"
  by (rule linear_gmul) (simp_all add: by3_funpow_xor by3_xt)

lemma by3_cycle: "(by3 ^^ 255) b = b"
  using by3_gmul [of 255 b] by (simp add: by3_255)

lemma by3_mod: "(by3 ^^ (k mod 255)) b = (by3 ^^ k) b"
proof -
  have "((by3 ^^ 255) ^^ n) x = x" for n x by (induction n) (simp_all add: by3_cycle)
  then have "(by3 ^^ (255 * (k div 255))) x = x" for x unfolding funpow_mult by (metis mult.commute)
  moreover have "by3 ^^ k = by3 ^^ (k mod 255) \<circ> by3 ^^ (255 * (k div 255))"
    unfolding funpow_add [symmetric] by simp
  ultimately show ?thesis by simp
qed

lemma by3_inj: "(by3 ^^ k) a = (by3 ^^ k) b \<Longrightarrow> a = b"
proof (induction k)
  case (Suc k)
  have "(by3 ^^ 254) (by3 x) = x" for x
    using by3_cycle [of x] by (simp add: eval_nat_numeral funpow_swap1)
  then have "by3 x = by3 y \<Longrightarrow> x = y" for x y by metis
  with Suc show ?case by simp
qed simp


text \<open>The powers of 3 are the 255 bytes other than zero.\<close>

definition gpow :: "nat \<Rightarrow> u8" where
  "gpow k = (by3 ^^ k) 1"

lemma gpow_simps [simp]: "gpow 0 = 1" "gpow 255 = 1" "gpow (Suc k) = by3 (gpow k)"
  by (simp_all add: gpow_def by3_255)

lemma gpow_mod: "gpow (k mod 255) = gpow k"
  by (simp add: gpow_def by3_mod)

lemma gpow_add: "gpow (i + j) = gmul (gpow i) (gpow j)"
  using by3_gmul [of j "gpow i"] by (simp add: gpow_def funpow_add add.commute [of i])

lemma gpow_nonzero [simp]: "gpow k \<noteq> 0"
  using by3_inj [of k 1 0] by (auto simp: gpow_def)

lemma gpow_mult_1: "gpow k = 1 \<Longrightarrow> gpow (k * n) = 1"
  by (induction n) (simp_all add: gpow_add)

lemma dvd_255: "d dvd 255 \<Longrightarrow> d \<noteq> 255 \<Longrightarrow> d dvd 85 \<or> d dvd 51 \<or> d dvd (15 :: nat)"
proof -
  have "\<forall>d \<in> {1..<255::nat}. d dvd 255 \<longrightarrow> d dvd 85 \<or> d dvd 51 \<or> d dvd 15" by code_simp
  moreover assume "d dvd 255" "d \<noteq> 255"
  then have "d \<in> {1..<255}" using dvd_imp_le [of d 255] dvd_0_left_iff [of 255] by (cases "d = 0") auto
  ultimately show ?thesis using \<open>d dvd 255\<close> by blast
qed

lemma gpow_order: "gpow k = 1 \<Longrightarrow> 255 dvd k"
proof (cases "k = 0")
  case False
  assume k: "gpow k = 1"
  obtain x y where xy: "k * x = 255 * y + gcd k 255" using bezout_nat [OF False, of 255] by blast
  have g: "gpow (gcd k 255) = 1"
    using gpow_mult_1 [OF k, of x] gpow_mult_1 [of 255 y] by (simp add: xy gpow_add)
  have no: "\<not> gcd k 255 dvd d" if "gpow d \<noteq> 1" for d using gpow_mult_1 [OF g] that by (auto elim!: dvdE)
  have "gpow 85 \<noteq> 1" "gpow 51 \<noteq> 1" "gpow 15 \<noteq> 1" by (simp_all add: gpow_def by3_15 by3_51 by3_85)
  then have "gcd k 255 = 255" using dvd_255 [of "gcd k 255"] no by auto
  then show ?thesis by (metis gcd_dvd1)
qed simp

lemma gpow_inj:
  assumes "gpow i = gpow j" "0 < i" "i \<le> 255" "0 < j" "j \<le> 255"
  shows "i = j"
proof -
  have *: "i' = j'" if "gpow i' = gpow j'" "0 < i'" "i' \<le> j'" "j' \<le> 255" for i' j'
  proof -
    have "(by3 ^^ i') (gpow (j' - i')) = (by3 ^^ i') 1"
      using that by (simp add: gpow_def funpow_add [symmetric, THEN fun_cong, unfolded comp_def])
    from gpow_order [OF by3_inj [OF this]] that show ?thesis by (auto dest: dvd_imp_le)
  qed
  show ?thesis using * [of i j] * [of j i] assms by (cases i j rule: linorder_cases) auto
qed

lemma gpow_surj:
  assumes "b \<noteq> 0"
  obtains k where "0 < k" "k \<le> 255" "b = gpow k"
proof -
  have "card (gpow ` {1..255}) = 255"
    by (subst card_image) (auto intro!: inj_onI dest: gpow_inj)
  moreover have "card (UNIV - {0} :: u8 set) = 255" by (simp add: card_Diff_singleton card_word)
  ultimately have "gpow ` {1..255} = UNIV - {0}" by (intro card_subset_eq) auto
  with assms have "b \<in> gpow ` {1..255}" by simp
  with that show thesis by (auto simp: Suc_le_eq)
qed


subsection \<open>The tables of powers and logarithms\<close>

lemma pow_log_step_pw:
  "pow_log_step i (pow, log, ucast (gpow i)) = (pow[i := ucast (gpow i)], log[unat (gpow i) := i], ucast (gpow (Suc i)))"
proof -
  have "(ucast b XOR XTIME (ucast b)) AND 0xFF = (ucast (by3 b) :: u32)" for b :: u8
  proof -
    show ?thesis
      using XTIME_xt [of b] byte_and [of b]
      by (simp add: by3_def unsigned_xor_eq and.commute [of _ "0xFF"] bit.conj_xor_distrib)
  qed
  then show ?thesis by (simp add: pow_log_step_def)
qed

definition powers_ok :: "nat \<Rightarrow> u32 list \<times> nat list \<times> u32 \<Rightarrow> bool" where
  "powers_ok n st \<longleftrightarrow> (case st of (pow, log, x) \<Rightarrow> length pow = 256 \<and> length log = 256 \<and> x = ucast (gpow n)
     \<and> (\<forall>i<n. pow ! i = ucast (gpow i)) \<and> (\<forall>i. 0 < i \<and> i < n \<longrightarrow> log ! unat (gpow i) = i))"

lemma unat_u8_256 [simp]: "unat (b :: u8) < 256"
  using unat_lt2p_aux [of b] by simp

lemma powers_ok_fold:
  "n \<le> 256 \<Longrightarrow> powers_ok n (fold pow_log_step [0..<n] (replicate 256 0, replicate 256 0, 1))"
proof (induction n)
  case (Suc n)
  obtain pow log x where f: "fold pow_log_step [0..<n] (replicate 256 0, replicate 256 0, 1) = (pow, log, x)"
    by (metis prod_cases3)
  have ok: "length pow = 256" "length log = 256" "x = ucast (gpow n)" "\<forall>i<n. pow ! i = ucast (gpow i)"
    "\<forall>i. 0 < i \<and> i < n \<longrightarrow> log ! unat (gpow i) = i"
    using Suc f by (auto simp: powers_ok_def)
  have "log[unat (gpow n) := n] ! unat (gpow i) = i" if "0 < i" "i < Suc n" for i
    using that ok(2,5) gpow_inj [of i n] Suc.prems
    by (cases "i = n") (auto simp: nth_list_update word_unat_eq_iff [symmetric])
  then show ?case
    using ok Suc.prems
    by (auto simp: f pow_log_step_pw powers_ok_def nth_list_update less_Suc_eq)
qed (simp add: powers_ok_def)

definition pow_tab :: "u32 list" where "pow_tab = fst gen_pow_log"
definition log_tab :: "nat list" where "log_tab = fst (snd gen_pow_log)"

lemma gen_pow_log_tabs:
  "length pow_tab = 256" "length log_tab = 256" "i < 256 \<Longrightarrow> pow_tab ! i = ucast (gpow i)"
  "0 < i \<Longrightarrow> i \<le> 255 \<Longrightarrow> log_tab ! unat (gpow i) = i"
  using powers_ok_fold [of 256] unfolding pow_tab_def log_tab_def gen_pow_log_def powers_ok_def
  by (auto simp del: upt_rec_numeral)

lemma MUL_gmul: "MUL pow_tab log_tab (ucast a) (ucast b) = ucast (gmul a b)"
proof (cases "a = 0 \<or> b = 0")
  case False
  then obtain i j where ij: "0 < i" "i \<le> 255" "a = gpow i" "0 < j" "j \<le> 255" "b = gpow j"
    using gpow_surj [of a] gpow_surj [of b] by metis
  have "MUL pow_tab log_tab (ucast a) (ucast b) = ucast (gpow ((i + j) mod 255))"
    using ij by (auto simp: MUL_def gen_pow_log_tabs)
  then show ?thesis by (simp add: gpow_mod gpow_add ij)
qed (auto simp: MUL_def)


subsection \<open>The S-box\<close>

text \<open>The inverse in GF(256), with 0 for 0, and the affine map of FIPS 197.\<close>

definition ginv :: "u8 \<Rightarrow> u8" where
  "ginv b = (if b = 0 then 0 else gpow (255 - log_tab ! unat b))"

definition rot :: "u8 \<Rightarrow> u8" where
  "rot b = word_rotl 1 b"

definition affine :: "u8 \<Rightarrow> u8" where
  "affine b = b XOR rot b XOR rot (rot b) XOR rot (rot (rot b)) XOR rot (rot (rot (rot b))) XOR 0x63"

lemma rot_eq: "rot b = push_bit 1 b OR drop_bit 7 b"
  by (rule bit_word_eqI) (auto simp: rot_def bit_simps bit_word_rotl_iff simp del: push_bit_Suc dest!: less_8_cases dest: bit_u8_less)

lemma rot_xor: "rot (a XOR b) = rot a XOR rot b"
  by (simp add: rot_def word_rot_logs)

lemma rot_8: "rot (rot (rot (rot (rot (rot (rot (rot b))))))) = b"
  unfolding rot_def word_rotl_eq_word_rotr word_rotr_word_rotr_eq
  by (rule bit_word_eqI) (auto simp: bit_word_rotr_iff dest!: less_8_cases)

lemma rot1_rot: "rot1 (ucast b) = ucast (rot b)"
  unfolding rot1_def rot_eq ff_mask
  by (rule bit_word_eqI) (auto simp: bit_simps simp del: push_bit_Suc dest: bit_u8_less)

lemma sbox_of_affine: "sbox_of (ucast b) = ucast (affine b)"
proof -
  have "(0x63 :: u32) = ucast (0x63 :: u8)" by simp
  then show ?thesis
    unfolding sbox_of_def affine_def Let_def by (simp only: rot1_rot unsigned_xor_eq [symmetric] xor.assoc)
qed

definition affine_inv :: "u8 \<Rightarrow> u8" where
  "affine_inv c = (let b = c XOR 0x63; b1 = rot b; b3 = rot (rot b1); b6 = rot (rot (rot b3)) in b1 XOR b3 XOR b6)"

lemma affine_inj: "affine a = affine b \<Longrightarrow> a = b"
proof -
  have x: "x XOR (x XOR y) = y" for x y :: u8 by (simp add: xor.assoc [symmetric])
  have "affine_inv (affine b) = b" for b
    unfolding affine_inv_def affine_def Let_def
    by (simp add: rot_xor rot_8 x xor.assoc xor.left_commute xor.commute)
  then show "affine a = affine b \<Longrightarrow> a = b" by metis
qed

lemma gmul_ginv: "b \<noteq> 0 \<Longrightarrow> gmul b (ginv b) = 1"
proof -
  assume "b \<noteq> 0"
  then obtain k where "0 < k" "k \<le> 255" "b = gpow k" by (rule gpow_surj)
  with gpow_add [of k "255 - k"] show ?thesis by (simp add: ginv_def gen_pow_log_tabs)
qed

lemma ginv_inj: "ginv a = ginv b \<Longrightarrow> a = b"
proof -
  have z: "ginv x = 0 \<longleftrightarrow> x = 0" for x by (simp add: ginv_def)
  have c: "gmul x y = gmul y x" if "x \<noteq> 0" "y \<noteq> 0" for x y
    using that by (metis gpow_surj gpow_add add.commute)
  have a: "gmul (gmul x y) z = gmul x (gmul y z)" if "x \<noteq> 0" "y \<noteq> 0" "z \<noteq> 0" for x y z
    using that by (metis gpow_surj gpow_add add.assoc)
  assume e: "ginv a = ginv b"
  show "a = b"
  proof (cases "a = 0 \<or> b = 0")
    case False
    then have n: "a \<noteq> 0" "b \<noteq> 0" "ginv a \<noteq> 0" "ginv b \<noteq> 0" using z by auto
    have "a = gmul a (gmul (ginv b) b)" using n gmul_ginv [of b] c [of "ginv b" b] by simp
    also have "\<dots> = b" using n a [of a "ginv a" b] gmul_ginv [of a] e by simp
    finally show ?thesis .
  qed (use e z in metis)
qed

definition fsb :: "u8 \<Rightarrow> u8" where
  "fsb b = affine (ginv b)"

lemma fsb_inj: "fsb a = fsb b \<Longrightarrow> a = b"
  unfolding fsb_def by (blast dest: affine_inj ginv_inj)


lemma fsb_0: "fsb 0 = 0x63"
  by (simp add: fsb_def ginv_def affine_def rot_eq)

lemma sbox_step_fsb:
  assumes "0 < i" "i < 256"
  shows "sbox_step pow_tab log_tab i (f, r) = (f[i := fsb (of_nat i)], r[unat (fsb (of_nat i)) := of_nat i])"
proof -
  let ?b = "of_nat i :: u8"
  have i: "unat ?b = i" "?b \<noteq> 0" using assms by (auto simp: unat_of_nat word_unat_eq_iff)
  then obtain k where k: "0 < k" "k \<le> 255" "?b = gpow k" using gpow_surj by blast
  have "log_tab ! unat ?b = k" unfolding k(3) using k by (simp add: gen_pow_log_tabs)
  then have "pow_tab ! (255 - log_tab ! i) = ucast (ginv ?b)" using i k(1) by (simp add: ginv_def gen_pow_log_tabs)
  then show ?thesis by (simp add: sbox_step_def sbox_of_affine fsb_def)
qed

definition boxes_ok :: "nat \<Rightarrow> u8 list \<times> u8 list \<Rightarrow> bool" where
  "boxes_ok n st \<longleftrightarrow> (case st of (f, r) \<Rightarrow> length f = 256 \<and> length r = 256
     \<and> (\<forall>i<n. f ! i = fsb (of_nat i) \<and> r ! unat (fsb (of_nat i)) = of_nat i))"

lemma boxes_ok_fold:
  "0 < n \<Longrightarrow> n \<le> 256 \<Longrightarrow> boxes_ok n (fold (sbox_step pow_tab log_tab) [1..<n]
     ((replicate 256 0)[0 := 0x63], (replicate 256 0)[0x63 := 0]))"
proof (induction n rule: nat_induct_non_zero)
  case (Suc n)
  obtain f r where fr: "fold (sbox_step pow_tab log_tab) [1..<n]
     ((replicate 256 0)[0 := 0x63], (replicate 256 0)[0x63 := 0]) = (f, r)" by fastforce
  have ok: "length f = 256" "length r = 256" "\<forall>i<n. f ! i = fsb (of_nat i) \<and> r ! unat (fsb (of_nat i)) = of_nat i"
    using Suc fr by (auto simp: boxes_ok_def)
  have "r[unat (fsb (of_nat n)) := of_nat n] ! unat (fsb (of_nat i)) = of_nat i" if "i < Suc n" for i
    using that ok Suc.prems fsb_inj [of "of_nat i" "of_nat n"]
    by (cases "i = n") (auto simp: nth_list_update word_unat_eq_iff)
  then show ?case
    using ok Suc.prems Suc.hyps fr by (auto simp: sbox_step_fsb boxes_ok_def nth_list_update less_Suc_eq)
qed (simp add: boxes_ok_def fsb_0)

abbreviation (input) aes_T :: aes_tables where "aes_T \<equiv> aes_gen_tables"

lemma aes_boxes:
  "length (FSb aes_T) = 256" "length (RSb aes_T) = 256" "FSb aes_T ! unat b = fsb b" "RSb aes_T ! unat (fsb b) = b"
proof -
  have t: "(FSb aes_T, RSb aes_T) = gen_sboxes pow_tab log_tab"
    by (simp add: aes_gen_tables_def pow_tab_def log_tab_def split_beta)
  have ok: "boxes_ok 256 (FSb aes_T, RSb aes_T)" unfolding t gen_sboxes_def by (rule boxes_ok_fold) simp_all
  show "length (FSb aes_T) = 256" "length (RSb aes_T) = 256" using ok by (simp_all add: boxes_ok_def)
  show "FSb aes_T ! unat b = fsb b" "RSb aes_T ! unat (fsb b) = b"
    using ok unat_u8_256 [of b] by (auto simp: boxes_ok_def dest!: spec [of _ "unat b"])
qed


subsection \<open>The round tables\<close>

text \<open>A column of the state as a word: its bytes, the first in the low bits.\<close>

definition le32 :: "u8 \<Rightarrow> u8 \<Rightarrow> u8 \<Rightarrow> u8 \<Rightarrow> u32" where
  "le32 a b c d = ucast a XOR push_bit 8 (ucast b) XOR push_bit 16 (ucast c) XOR push_bit 24 (ucast d)"

lemma less_32_cases: "(j::nat) < 32 \<Longrightarrow> j < 8 \<or> 8 \<le> j \<and> j < 16 \<or> 16 \<le> j \<and> j < 24 \<or> 24 \<le> j \<and> j < 32"
  by linarith

lemma le32_xor: "le32 a b c d XOR le32 a' b' c' d' = le32 (a XOR a') (b XOR b') (c XOR c') (d XOR d')"
  by (simp add: le32_def unsigned_xor_eq push_bit_xor ac_simps)

lemma bit_le32:
  "bit (le32 a b c d) j = (if j < 8 then bit a j else if j < 16 then bit b (j - 8)
     else if j < 24 then bit c (j - 16) else j < 32 \<and> bit d (j - 24))"
  unfolding le32_def bit_xor_iff bit_bytes by auto

lemma ROTL8_le32: "ROTL8 (le32 a b c d) = le32 d a b c"
proof (rule bit_word_eqI)
  fix j assume "j < LENGTH(32)"
  then consider "j < 8" | "8 \<le> j" "j < 16" | "16 \<le> j" "j < 24" | "24 \<le> j" "j < 32" by (simp, linarith)
  moreover have "(0xFFFFFFFF :: u32) = - 1" by simp
  then have "ROTL8 x = push_bit 8 x OR drop_bit 24 x" for x unfolding ROTL8_def by (simp only: and.right_neutral)
  ultimately show "bit (ROTL8 (le32 a b c d)) j = bit (le32 d a b c) j"
    by cases (simp_all add: bit_or_iff bit_push_bit_iff bit_drop_bit_eq bit_le32 less_diff_conv2)
qed

lemma le32_bytes:
  "ucast (le32 a b c d) = a" "ucast (drop_bit 8 (le32 a b c d)) = b"
  "ucast (drop_bit 16 (le32 a b c d)) = c" "ucast (drop_bit 24 (le32 a b c d)) = d"
  by (rule bit_word_eqI, simp add: bit_ucast_iff bit_drop_bit_eq bit_le32)+

lemma le32_of_bytes: "le32 (ucast w) (ucast (drop_bit 8 w)) (ucast (drop_bit 16 w)) (ucast (drop_bit 24 w)) = w"
  by (rule bit_word_eqI) (auto simp: bit_ucast_iff bit_drop_bit_eq bit_le32 less_diff_conv2)

lemma gen_forward_le32: "gen_forward b = le32 (xt b) b b (xt b XOR b)"
  unfolding gen_forward_def Let_def XTIME_xt le32_def
  by (simp add: unsigned_xor_eq [symmetric] byte_and)

lemma gen_reverse_le32: "gen_reverse pow_tab log_tab b = le32 (gmul 0x0E b) (gmul 0x09 b) (gmul 0x0D b) (gmul 0x0B b)"
proof -
  have c: "(0x0E :: u32) = ucast (0x0E :: u8)" "(0x09 :: u32) = ucast (0x09 :: u8)"
    "(0x0D :: u32) = ucast (0x0D :: u8)" "(0x0B :: u32) = ucast (0x0B :: u8)" by simp_all
  show ?thesis unfolding gen_reverse_def Let_def le32_def c MUL_gmul ..
qed

lemma gmul_consts:
  "gmul 0x0E b = xt (xt (xt b)) XOR xt (xt b) XOR xt b" "gmul 0x09 b = xt (xt (xt b)) XOR b"
  "gmul 0x0D b = xt (xt (xt b)) XOR xt (xt b) XOR b" "gmul 0x0B b = xt (xt (xt b)) XOR xt b XOR b"
  by (simp_all add: gmul_def eval_nat_numeral ac_simps)


lemma FT_entries:
  "FT0 aes_gen_tables ! unat b = le32 (xt (fsb b)) (fsb b) (fsb b) (xt (fsb b) XOR fsb b)"
  "FT1 aes_gen_tables ! unat b = le32 (xt (fsb b) XOR fsb b) (xt (fsb b)) (fsb b) (fsb b)"
  "FT2 aes_gen_tables ! unat b = le32 (fsb b) (xt (fsb b) XOR fsb b) (xt (fsb b)) (fsb b)"
  "FT3 aes_gen_tables ! unat b = le32 (fsb b) (fsb b) (xt (fsb b) XOR fsb b) (xt (fsb b))"
proof -
  have t: "FT0 aes_T = map gen_forward (FSb aes_T)" "FT1 aes_T = map ROTL8 (FT0 aes_T)"
    "FT2 aes_T = map ROTL8 (FT1 aes_T)" "FT3 aes_T = map ROTL8 (FT2 aes_T)"
    by (simp_all add: aes_gen_tables_def split_beta)
  show "FT0 aes_gen_tables ! unat b = le32 (xt (fsb b)) (fsb b) (fsb b) (xt (fsb b) XOR fsb b)"
    "FT1 aes_gen_tables ! unat b = le32 (xt (fsb b) XOR fsb b) (xt (fsb b)) (fsb b) (fsb b)"
    "FT2 aes_gen_tables ! unat b = le32 (fsb b) (xt (fsb b) XOR fsb b) (xt (fsb b)) (fsb b)"
    "FT3 aes_gen_tables ! unat b = le32 (fsb b) (fsb b) (xt (fsb b) XOR fsb b) (xt (fsb b))"
    by (simp_all add: t aes_boxes gen_forward_le32 ROTL8_le32)
qed

text \<open>The inverse S-box.\<close>

definition rsb :: "u8 \<Rightarrow> u8" where
  "rsb c = RSb aes_gen_tables ! unat c"

lemma rsb_fsb [simp]: "rsb (fsb b) = b"
  by (simp add: rsb_def aes_boxes)

lemma RT_entries:
  "RT0 aes_gen_tables ! unat c = le32 (gmul 0x0E (rsb c)) (gmul 0x09 (rsb c)) (gmul 0x0D (rsb c)) (gmul 0x0B (rsb c))"
  "RT1 aes_gen_tables ! unat c = le32 (gmul 0x0B (rsb c)) (gmul 0x0E (rsb c)) (gmul 0x09 (rsb c)) (gmul 0x0D (rsb c))"
  "RT2 aes_gen_tables ! unat c = le32 (gmul 0x0D (rsb c)) (gmul 0x0B (rsb c)) (gmul 0x0E (rsb c)) (gmul 0x09 (rsb c))"
  "RT3 aes_gen_tables ! unat c = le32 (gmul 0x09 (rsb c)) (gmul 0x0D (rsb c)) (gmul 0x0B (rsb c)) (gmul 0x0E (rsb c))"
proof -
  have t: "RT0 aes_T = map (gen_reverse pow_tab log_tab) (RSb aes_T)" "RT1 aes_T = map ROTL8 (RT0 aes_T)"
    "RT2 aes_T = map ROTL8 (RT1 aes_T)" "RT3 aes_T = map ROTL8 (RT2 aes_T)"
    by (simp_all add: aes_gen_tables_def pow_tab_def log_tab_def split_beta)
  show "RT0 aes_gen_tables ! unat c = le32 (gmul 0x0E (rsb c)) (gmul 0x09 (rsb c)) (gmul 0x0D (rsb c)) (gmul 0x0B (rsb c))"
    "RT1 aes_gen_tables ! unat c = le32 (gmul 0x0B (rsb c)) (gmul 0x0E (rsb c)) (gmul 0x09 (rsb c)) (gmul 0x0D (rsb c))"
    "RT2 aes_gen_tables ! unat c = le32 (gmul 0x0D (rsb c)) (gmul 0x0B (rsb c)) (gmul 0x0E (rsb c)) (gmul 0x09 (rsb c))"
    "RT3 aes_gen_tables ! unat c = le32 (gmul 0x09 (rsb c)) (gmul 0x0D (rsb c)) (gmul 0x0B (rsb c)) (gmul 0x0E (rsb c))"
    by (simp_all add: t aes_boxes gen_reverse_le32 ROTL8_le32 rsb_def)
qed

lemma RCON_entries: "i < 10 \<Longrightarrow> RCON aes_gen_tables ! i = ucast ((xt ^^ i) 1)"
proof -
  have f: "fold (\<lambda>i (rcon, x). (rcon[i := x], XTIME x AND 0xFF)) [0..<n] (replicate 10 0, 1)
      = (map (\<lambda>i. ucast ((xt ^^ i) 1)) [0..<n] @ replicate (10 - n) 0, ucast ((xt ^^ n) 1))" if "n \<le> 10" for n
    using that
  proof (induction n)
    case (Suc n)
    then have "replicate (10 - n) (0 :: u32) = 0 # replicate (10 - Suc n) 0" by (simp add: Suc_diff_Suc flip: replicate_Suc)
    with Suc show ?case by (simp add: XTIME_xt list_update_append)
  qed simp
  assume "i < 10"
  with f [of 10] show ?thesis by (simp add: aes_gen_tables_def gen_rcon_def split_beta del: upt_rec_numeral)
qed

end
