(* ===== verification/Aes.thy ===== *)
theory Aes
  imports AesTables
begin

text \<open>
  The block cipher of \<^verbatim>\<open>crypto/aes.twl.c\<close>: key schedules and block operations on 32-bit words through the
  tables of \<open>AesTables\<close>. The pointer \<^verbatim>\<open>RK\<close> into the round keys is the list of the words from there on (while
  keys are used) or an index (while they are written). The key buffer \<^verbatim>\<open>buf\<close> is what \<^verbatim>\<open>rk\<close> always points to.
\<close>

record mbedtls_aes_context =
  aes_nr :: nat
  aes_buf :: "u32 list"

abbreviation (input) MBEDTLS_ERR_AES_INVALID_KEY_LENGTH :: u32 where
  "MBEDTLS_ERR_AES_INVALID_KEY_LENGTH \<equiv> - 0x20"

datatype mbedtls_operation_t = MBEDTLS_OPERATION_NONE | MBEDTLS_DECRYPT | MBEDTLS_ENCRYPT

definition get_uint32_le :: "bytes \<Rightarrow> nat \<Rightarrow> u32" where
  "get_uint32_le b i = ucast (b ! i) OR push_bit 8 (ucast (b ! (i + 1)))
     OR push_bit 16 (ucast (b ! (i + 2))) OR push_bit 24 (ucast (b ! (i + 3)))"

definition put_uint32_le :: "u32 \<Rightarrow> bytes" where
  "put_uint32_le n = [ucast (n AND 0xFF), ucast (drop_bit 8 n AND 0xFF),
     ucast (drop_bit 16 n AND 0xFF), ucast (drop_bit 24 n AND 0xFF)]"

text \<open>The index \<^verbatim>\<open>( w >> 8 k ) & 0xFF\<close>.\<close>

definition at_byte :: "nat \<Rightarrow> u32 \<Rightarrow> nat" where
  "at_byte k w = unat (drop_bit (8 * k) w AND 0xFF)"

definition mbedtls_aes_init :: mbedtls_aes_context where
  "mbedtls_aes_init = \<lparr>aes_nr = 0, aes_buf = replicate 68 0\<rparr>"

subsection \<open>Key schedule\<close>

text \<open>The four substituted bytes of a word, at positions rotated by \<open>r\<close>.\<close>

definition sub_word :: "nat \<Rightarrow> u32 \<Rightarrow> u32" where
  "sub_word r w =
     ucast (FSb aes_gen_tables ! at_byte (r mod 4) w)
     XOR push_bit 8 (ucast (FSb aes_gen_tables ! at_byte ((r + 1) mod 4) w))
     XOR push_bit 16 (ucast (FSb aes_gen_tables ! at_byte ((r + 2) mod 4) w))
     XOR push_bit 24 (ucast (FSb aes_gen_tables ! at_byte ((r + 3) mod 4) w))"

definition expand_128 :: "nat \<Rightarrow> u32 list \<Rightarrow> u32 list" where
  "expand_128 i rk =
     (let k = 4 * i;
          rk = rk[k + 4 := rk ! k XOR RCON aes_gen_tables ! i XOR sub_word 1 (rk ! (k + 3))];
          rk = rk[k + 5 := rk ! (k + 1) XOR rk ! (k + 4)];
          rk = rk[k + 6 := rk ! (k + 2) XOR rk ! (k + 5)]
      in rk[k + 7 := rk ! (k + 3) XOR rk ! (k + 6)])"

definition expand_192 :: "nat \<Rightarrow> u32 list \<Rightarrow> u32 list" where
  "expand_192 i rk =
     (let k = 6 * i;
          rk = rk[k + 6 := rk ! k XOR RCON aes_gen_tables ! i XOR sub_word 1 (rk ! (k + 5))];
          rk = rk[k + 7 := rk ! (k + 1) XOR rk ! (k + 6)];
          rk = rk[k + 8 := rk ! (k + 2) XOR rk ! (k + 7)];
          rk = rk[k + 9 := rk ! (k + 3) XOR rk ! (k + 8)];
          rk = rk[k + 10 := rk ! (k + 4) XOR rk ! (k + 9)]
      in rk[k + 11 := rk ! (k + 5) XOR rk ! (k + 10)])"

definition expand_256 :: "nat \<Rightarrow> u32 list \<Rightarrow> u32 list" where
  "expand_256 i rk =
     (let k = 8 * i;
          rk = rk[k + 8 := rk ! k XOR RCON aes_gen_tables ! i XOR sub_word 1 (rk ! (k + 7))];
          rk = rk[k + 9 := rk ! (k + 1) XOR rk ! (k + 8)];
          rk = rk[k + 10 := rk ! (k + 2) XOR rk ! (k + 9)];
          rk = rk[k + 11 := rk ! (k + 3) XOR rk ! (k + 10)];
          rk = rk[k + 12 := rk ! (k + 4) XOR sub_word 0 (rk ! (k + 11))];
          rk = rk[k + 13 := rk ! (k + 5) XOR rk ! (k + 12)];
          rk = rk[k + 14 := rk ! (k + 6) XOR rk ! (k + 13)]
      in rk[k + 15 := rk ! (k + 7) XOR rk ! (k + 14)])"

text \<open>The result code and the context.\<close>

definition mbedtls_aes_setkey_enc ::
  "mbedtls_aes_context \<Rightarrow> bytes \<Rightarrow> nat \<Rightarrow> u32 \<times> mbedtls_aes_context" where
  "mbedtls_aes_setkey_enc ctx key keybits =
     (if keybits \<notin> {128, 192, 256} then (MBEDTLS_ERR_AES_INVALID_KEY_LENGTH, ctx)
      else
      let nr = (if keybits = 128 then 10 else if keybits = 192 then 12 else 14);
          rk = fold (\<lambda>i rk. rk[i := get_uint32_le key (4 * i)]) [0..<keybits div 32] (aes_buf ctx);
          rk = (if nr = 10 then fold expand_128 [0..<10] rk
                else if nr = 12 then fold expand_192 [0..<8] rk
                else fold expand_256 [0..<7] rk)
      in (0, ctx\<lparr>aes_nr := nr, aes_buf := rk\<rparr>))"

text \<open>One word of the decryption schedule, and the loop: \<open>SK\<close> goes back four words per round.\<close>

definition inv_mix_word :: "u32 \<Rightarrow> u32" where
  "inv_mix_word w =
     RT0 aes_gen_tables ! unat (FSb aes_gen_tables ! at_byte 0 w)
     XOR RT1 aes_gen_tables ! unat (FSb aes_gen_tables ! at_byte 1 w)
     XOR RT2 aes_gen_tables ! unat (FSb aes_gen_tables ! at_byte 2 w)
     XOR RT3 aes_gen_tables ! unat (FSb aes_gen_tables ! at_byte 3 w)"

primrec inv_schedule :: "nat \<Rightarrow> u32 list \<Rightarrow> u32 list" where
  "inv_schedule 0 sk = []"
| "inv_schedule (Suc i) sk = map inv_mix_word (take 4 (drop (4 * Suc i) sk)) @ inv_schedule i sk"

definition mbedtls_aes_setkey_dec ::
  "mbedtls_aes_context \<Rightarrow> bytes \<Rightarrow> nat \<Rightarrow> u32 \<times> mbedtls_aes_context" where
  "mbedtls_aes_setkey_dec ctx key keybits =
     (case mbedtls_aes_setkey_enc mbedtls_aes_init key keybits of (ret, cty) \<Rightarrow>
      if ret \<noteq> 0 then (ret, ctx)
      else let nr = aes_nr cty; sk = aes_buf cty;
               written = take 4 (drop (4 * nr) sk) @ inv_schedule (nr - 1) sk @ take 4 sk
           in (0, ctx\<lparr>aes_nr := nr, aes_buf := written @ drop (length written) (aes_buf ctx)\<rparr>))"

subsection \<open>Rounds\<close>

text \<open>\<open>RK\<close> starts with the four words the macro consumes; \<open>y\<close> holds \<^verbatim>\<open>Y0\<close> to \<^verbatim>\<open>Y3\<close>.\<close>

definition AES_FROUND :: "u32 list \<Rightarrow> u32 list \<Rightarrow> u32 list" where
  "AES_FROUND RK y = map (\<lambda>j. RK ! j
     XOR FT0 aes_gen_tables ! at_byte 0 (y ! j)
     XOR FT1 aes_gen_tables ! at_byte 1 (y ! ((j + 1) mod 4))
     XOR FT2 aes_gen_tables ! at_byte 2 (y ! ((j + 2) mod 4))
     XOR FT3 aes_gen_tables ! at_byte 3 (y ! ((j + 3) mod 4))) [0..<4]"

definition AES_RROUND :: "u32 list \<Rightarrow> u32 list \<Rightarrow> u32 list" where
  "AES_RROUND RK y = map (\<lambda>j. RK ! j
     XOR RT0 aes_gen_tables ! at_byte 0 (y ! j)
     XOR RT1 aes_gen_tables ! at_byte 1 (y ! ((j + 3) mod 4))
     XOR RT2 aes_gen_tables ! at_byte 2 (y ! ((j + 2) mod 4))
     XOR RT3 aes_gen_tables ! at_byte 3 (y ! ((j + 1) mod 4))) [0..<4]"

text \<open>The last rounds, without the column mixing.\<close>

definition last_fround :: "u32 list \<Rightarrow> u32 list \<Rightarrow> u32 list" where
  "last_fround RK y = map (\<lambda>j. RK ! j
     XOR ucast (FSb aes_gen_tables ! at_byte 0 (y ! j))
     XOR push_bit 8 (ucast (FSb aes_gen_tables ! at_byte 1 (y ! ((j + 1) mod 4))))
     XOR push_bit 16 (ucast (FSb aes_gen_tables ! at_byte 2 (y ! ((j + 2) mod 4))))
     XOR push_bit 24 (ucast (FSb aes_gen_tables ! at_byte 3 (y ! ((j + 3) mod 4))))) [0..<4]"

definition last_rround :: "u32 list \<Rightarrow> u32 list \<Rightarrow> u32 list" where
  "last_rround RK y = map (\<lambda>j. RK ! j
     XOR ucast (RSb aes_gen_tables ! at_byte 0 (y ! j))
     XOR push_bit 8 (ucast (RSb aes_gen_tables ! at_byte 1 (y ! ((j + 3) mod 4))))
     XOR push_bit 16 (ucast (RSb aes_gen_tables ! at_byte 2 (y ! ((j + 2) mod 4))))
     XOR push_bit 24 (ucast (RSb aes_gen_tables ! at_byte 3 (y ! ((j + 1) mod 4))))) [0..<4]"

text \<open>The loop, two rounds per turn.\<close>

primrec two_rounds :: "(u32 list \<Rightarrow> u32 list \<Rightarrow> u32 list) \<Rightarrow> nat \<Rightarrow> u32 list \<times> u32 list \<Rightarrow> u32 list \<times> u32 list" where
  "two_rounds f 0 st = st"
| "two_rounds f (Suc i) st = (case st of (RK, x) \<Rightarrow>
     let y = f RK x; RK = drop 4 RK; x = f RK y; RK = drop 4 RK in two_rounds f i (RK, x))"

definition mbedtls_internal_aes_encrypt :: "mbedtls_aes_context \<Rightarrow> bytes \<Rightarrow> u32 \<times> bytes" where
  "mbedtls_internal_aes_encrypt ctx input =
     (let RK = aes_buf ctx;
          x = map (\<lambda>j. get_uint32_le input (4 * j) XOR RK ! j) [0..<4]; RK = drop 4 RK;
          (RK, x) = two_rounds AES_FROUND (aes_nr ctx div 2 - 1) (RK, x);
          y = AES_FROUND RK x; RK = drop 4 RK;
          x = last_fround RK y
      in (0, concat (map put_uint32_le x)))"

definition mbedtls_internal_aes_decrypt :: "mbedtls_aes_context \<Rightarrow> bytes \<Rightarrow> u32 \<times> bytes" where
  "mbedtls_internal_aes_decrypt ctx input =
     (let RK = aes_buf ctx;
          x = map (\<lambda>j. get_uint32_le input (4 * j) XOR RK ! j) [0..<4]; RK = drop 4 RK;
          (RK, x) = two_rounds AES_RROUND (aes_nr ctx div 2 - 1) (RK, x);
          y = AES_RROUND RK x; RK = drop 4 RK;
          x = last_rround RK y
      in (0, concat (map put_uint32_le x)))"

definition mbedtls_aes_crypt_ecb :: "mbedtls_aes_context \<Rightarrow> mbedtls_operation_t \<Rightarrow> bytes \<Rightarrow> u32 \<times> bytes" where
  "mbedtls_aes_crypt_ecb ctx mode input =
     (if mode = MBEDTLS_ENCRYPT then mbedtls_internal_aes_encrypt ctx input
      else mbedtls_internal_aes_decrypt ctx input)"

end
