(* ===== verification/Fips197.thy ===== *)
theory Fips197
  imports Aes
begin

text \<open>
  The standard the block cipher implements, FIPS 197, on states of sixteen bytes in column order, and
  the proof that the table-driven cipher computes it: encryption is the cipher of the standard
  for every key of 128, 192 and 256 bits, and decryption inverts it.
\<close>

definition fips_inverse :: "u8 \<Rightarrow> u8" where
  "fips_inverse b = (case find (\<lambda>c. gmul b c = 1) (map of_nat [0..<256]) of Some c \<Rightarrow> c | None \<Rightarrow> 0)"

definition fips_sbox :: "u8 \<Rightarrow> u8" where
  "fips_sbox b = (let i = fips_inverse b in
     i XOR word_rotl 1 i XOR word_rotl 2 i XOR word_rotl 3 i XOR word_rotl 4 i XOR 0x63)"

definition fips_sub_bytes :: "bytes \<Rightarrow> bytes" where
  "fips_sub_bytes s = map fips_sbox s"

definition fips_shift_rows :: "bytes \<Rightarrow> bytes" where
  "fips_shift_rows s = map (\<lambda>i. s ! ((i + 4 * (i mod 4)) mod 16)) [0..<16]"

fun mix_column :: "u8 \<Rightarrow> u8 \<Rightarrow> u8 \<Rightarrow> u8 \<Rightarrow> bytes" where
  "mix_column a b c d =
     [gmul 2 a XOR gmul 3 b XOR c XOR d, a XOR gmul 2 b XOR gmul 3 c XOR d,
      a XOR b XOR gmul 2 c XOR gmul 3 d, gmul 3 a XOR b XOR c XOR gmul 2 d]"

definition fips_mix_columns :: "bytes \<Rightarrow> bytes" where
  "fips_mix_columns s = concat (map (\<lambda>j. mix_column (s ! (4 * j)) (s ! (4 * j + 1)) (s ! (4 * j + 2)) (s ! (4 * j + 3))) [0..<4])"

definition add_bytes :: "bytes \<Rightarrow> bytes \<Rightarrow> bytes" where
  "add_bytes k s = map2 (XOR) s k"

definition fips_round :: "bytes \<Rightarrow> bytes \<Rightarrow> bytes" where
  "fips_round k s = add_bytes k (fips_mix_columns (fips_shift_rows (fips_sub_bytes s)))"

text \<open>The expanded key as words of four bytes, for a key of \<open>nk\<close> words.\<close>

definition fips_rcon :: "nat \<Rightarrow> bytes" where
  "fips_rcon i = [(xt ^^ (i - 1)) 1, 0, 0, 0]"

fun fips_w :: "bytes \<Rightarrow> nat \<Rightarrow> nat \<Rightarrow> bytes" where
  "fips_w key nk i =
     (if nk = 0 \<or> i < nk then take 4 (drop (4 * i) key)
      else let temp = fips_w key nk (i - 1);
               temp = (if i mod nk = 0 then add_bytes (fips_rcon (i div nk)) (fips_sub_bytes (rotate1 temp))
                       else if nk > 6 \<and> i mod nk = 4 then fips_sub_bytes temp else temp)
           in add_bytes temp (fips_w key nk (i - nk)))"

declare fips_w.simps [simp del]

definition fips_round_key :: "bytes \<Rightarrow> nat \<Rightarrow> nat \<Rightarrow> bytes" where
  "fips_round_key key nk r = concat (map (fips_w key nk) [4 * r..<4 * r + 4])"

definition fips_cipher :: "bytes \<Rightarrow> bytes \<Rightarrow> bytes" where
  "fips_cipher key input =
     (let nk = length key div 4; nr = nk + 6;
          s = add_bytes (fips_round_key key nk 0) input;
          s = fold (\<lambda>r. fips_round (fips_round_key key nk r)) [1..<nr] s
      in add_bytes (fips_round_key key nk nr) (fips_shift_rows (fips_sub_bytes s)))"

subsection \<open>The S-box\<close>

lemma gmul_nonzero: "a \<noteq> 0 \<Longrightarrow> b \<noteq> 0 \<Longrightarrow> gmul a b \<noteq> 0"
  by (metis gpow_surj gpow_add gpow_nonzero)

lemma gmul_assoc: "gmul (gmul a b) c = gmul a (gmul b c)"
proof (cases "a = 0 \<or> b = 0 \<or> c = 0")
  case False
  then obtain i j k where "a = gpow i" "b = gpow j" "c = gpow k" by (metis gpow_surj)
  then show ?thesis by (simp add: gpow_add [symmetric] add.assoc)
qed auto

lemma gmul_commute: "gmul a b = gmul b a"
proof (cases "a = 0 \<or> b = 0")
  case False
  then obtain i j where "a = gpow i" "b = gpow j" by (metis gpow_surj)
  then show ?thesis by (simp add: gpow_add [symmetric] add.commute)
qed auto

lemma fips_inverse_ginv: "fips_inverse b = ginv b"
proof (cases "b = 0")
  case True
  have "find (\<lambda>c. gmul 0 c = 1) (map of_nat [0..<256]) = None" by (simp add: find_None_iff)
  with True show ?thesis by (simp add: fips_inverse_def ginv_def)
next
  case False
  have u: "gmul b c = 1 \<longleftrightarrow> c = ginv b" for c
    using gmul_ginv [OF False] gmul_assoc [of "ginv b" b c] gmul_commute [of b "ginv b"] by auto
  have "ginv b \<in> of_nat ` {0..<256}" by (rule image_eqI [of _ _ "unat (ginv b)"]) simp_all
  then have "ginv b \<in> set (map of_nat [0..<256])" by (simp only: set_map set_upt)
  then obtain c where c: "find (\<lambda>c. gmul b c = 1) (map of_nat [0..<256]) = Some c"
    using find_None_iff [of "\<lambda>c. gmul b c = 1" "map of_nat [0..<256]"] u by fastforce
  with u have "c = ginv b" by (auto simp: find_Some_iff)
  with c show ?thesis by (simp add: fips_inverse_def)
qed

lemma rot_rotl: "rot (rot b) = word_rotl 2 b"
  "rot (word_rotl 2 b) = word_rotl 3 b" "rot (word_rotl 3 b) = word_rotl 4 b"
  unfolding rot_def word_rotl_eq_word_rotr word_rotr_word_rotr_eq
  by (rule bit_word_eqI, auto simp: bit_word_rotr_iff dest!: less_8_cases)+

lemma fips_sbox_fsb [simp]: "fips_sbox b = fsb b"
  unfolding fips_sbox_def Let_def fips_inverse_ginv fsb_def affine_def rot_rotl by (simp add: rot_def)

subsection \<open>States as columns of words\<close>

definition cols :: "bytes \<Rightarrow> u32 list" where
  "cols s = map (\<lambda>j. le32 (s ! (4 * j)) (s ! (4 * j + 1)) (s ! (4 * j + 2)) (s ! (4 * j + 3))) [0..<4]"

lemma state16:
  assumes "length s = 16"
  obtains a0 a1 a2 a3 b0 b1 b2 b3 c0 c1 c2 c3 d0 d1 d2 d3
    where "s = [a0, a1, a2, a3, b0, b1, b2, b3, c0, c1, c2, c3, d0, d1, d2, d3]"
  using assms by (auto simp: eval_nat_numeral length_Suc_conv)

lemma upt_4: "[0..<4] = [0, 1, 2, 3 :: nat]" and upt_16: "[0..<16] = [0, 1, 2, 3, 4, 5, 6, 7, 8, 9, 10, 11, 12, 13, 14, 15 :: nat]"
  by (simp_all add: upt_rec)

lemma cols_list: "cols [a0, a1, a2, a3, b0, b1, b2, b3, c0, c1, c2, c3, d0, d1, d2, d3] =
    [le32 a0 a1 a2 a3, le32 b0 b1 b2 b3, le32 c0 c1 c2 c3, le32 d0 d1 d2 d3]"
  by (simp add: cols_def upt_4)

lemma at_byte_le32 [simp]:
  "at_byte 0 (le32 a b c d) = unat a" "at_byte (Suc 0) (le32 a b c d) = unat b"
  "at_byte 2 (le32 a b c d) = unat c" "at_byte 3 (le32 a b c d) = unat d"
proof -
  have "at_byte k w = unat (ucast (drop_bit (8 * k) w) :: u8)" for k w
  proof -
    have "drop_bit (8 * k) w AND 0xFF = ucast (ucast (drop_bit (8 * k) w) :: u8)"
      unfolding ff_mask by (rule bit_word_eqI) (auto simp: bit_simps)
    then show ?thesis by (simp add: at_byte_def)
  qed
  then show "at_byte 0 (le32 a b c d) = unat a" "at_byte (Suc 0) (le32 a b c d) = unat b"
    "at_byte 2 (le32 a b c d) = unat c" "at_byte 3 (le32 a b c d) = unat d"
    by (simp_all add: le32_bytes)
qed

lemma gmul_23: "gmul 2 b = xt b" "gmul 3 b = xt b XOR b"
  by (simp_all add: gmul_def eval_nat_numeral ac_simps)

lemma fround_fips:
  assumes "length k = 16" "length s = 16"
  shows "AES_FROUND (cols k @ RK) (cols s) = cols (fips_round k s)"
  using assms
  by (elim state16) (simp add: cols_list AES_FROUND_def upt_4 upt_16 FT_entries le32_xor fips_round_def add_bytes_def fips_mix_columns_def
        fips_shift_rows_def fips_sub_bytes_def gmul_23 ac_simps)


subsection \<open>Inverse rounds\<close>

definition inv_sub :: "bytes \<Rightarrow> bytes" where
  "inv_sub s = map rsb s"

definition inv_shift_rows :: "bytes \<Rightarrow> bytes" where
  "inv_shift_rows s = map (\<lambda>i. s ! ((i + 12 * (i mod 4)) mod 16)) [0..<16]"

fun inv_mix_column :: "u8 \<Rightarrow> u8 \<Rightarrow> u8 \<Rightarrow> u8 \<Rightarrow> bytes" where
  "inv_mix_column a b c d =
     [gmul 0x0E a XOR gmul 0x0B b XOR gmul 0x0D c XOR gmul 0x09 d,
      gmul 0x09 a XOR gmul 0x0E b XOR gmul 0x0B c XOR gmul 0x0D d,
      gmul 0x0D a XOR gmul 0x09 b XOR gmul 0x0E c XOR gmul 0x0B d,
      gmul 0x0B a XOR gmul 0x0D b XOR gmul 0x09 c XOR gmul 0x0E d]"

definition inv_mix_columns :: "bytes \<Rightarrow> bytes" where
  "inv_mix_columns s = concat (map (\<lambda>j. inv_mix_column (s ! (4 * j)) (s ! (4 * j + 1)) (s ! (4 * j + 2)) (s ! (4 * j + 3))) [0..<4])"

lemma rround_fips:
  assumes "length k = 16" "length s = 16"
  shows "AES_RROUND (cols k @ RK) (cols s) = cols (add_bytes k (inv_mix_columns (inv_sub (inv_shift_rows s))))"
  using assms
  by (elim state16) (simp add: cols_list AES_RROUND_def upt_4 upt_16 RT_entries le32_xor add_bytes_def inv_mix_columns_def
        inv_shift_rows_def inv_sub_def ac_simps)

lemma rsb_nth: "RSb aes_gen_tables ! unat c = rsb c"
  by (simp add: rsb_def)

lemma le32_fold: "ucast a XOR (push_bit 8 (ucast b) XOR (push_bit 16 (ucast c) XOR push_bit 24 (ucast d))) = le32 a b c d"
  by (simp add: le32_def xor.assoc)

lemma last_rounds_fips:
  assumes "length k = 16" "length s = 16"
  shows "last_fround (cols k @ RK) (cols s) = cols (add_bytes k (fips_shift_rows (fips_sub_bytes s)))"
    and "last_rround (cols k @ RK) (cols s) = cols (add_bytes k (inv_sub (inv_shift_rows s)))"
  using assms
  by (elim state16, simp add: last_fround_def last_rround_def upt_4 upt_16 le32_fold le32_xor add_bytes_def fips_shift_rows_def
      fips_sub_bytes_def inv_shift_rows_def inv_sub_def cols_list aes_boxes(3) rsb_nth xor.assoc, simp add: xor.commute)+

lemma inv_mix_word_le32:
  "inv_mix_word (le32 a b c d) =
     le32 (inv_mix_column a b c d ! 0) (inv_mix_column a b c d ! 1) (inv_mix_column a b c d ! 2) (inv_mix_column a b c d ! 3)"
  by (simp add: inv_mix_word_def aes_boxes(3) RT_entries le32_xor ac_simps)

lemma inv_mix_words: "length k = 16 \<Longrightarrow> map inv_mix_word (cols k) = cols (inv_mix_columns k)"
  by (elim state16) (simp add: cols_list inv_mix_columns_def upt_4 inv_mix_word_le32)

lemma round_lengths [simp]:
  "length (fips_sub_bytes s) = length s" "length (fips_shift_rows s) = 16" "length (fips_mix_columns s) = 16"
  "length (inv_sub s) = length s" "length (inv_shift_rows s) = 16" "length (inv_mix_columns s) = 16"
  "length (add_bytes k s) = min (length s) (length k)"
  by (simp_all add: fips_sub_bytes_def fips_shift_rows_def fips_mix_columns_def inv_sub_def inv_shift_rows_def
      inv_mix_columns_def add_bytes_def upt_4)

lemma inv_rounds:
  assumes "length s = 16"
  shows "inv_sub (fips_sub_bytes s) = s" "inv_shift_rows (fips_shift_rows s) = s"
    "fips_sub_bytes (inv_shift_rows s) = inv_shift_rows (fips_sub_bytes s)"
  using assms
  by (elim state16, simp add: inv_sub_def fips_sub_bytes_def inv_shift_rows_def fips_shift_rows_def upt_16)+

lemma xor_cancel: "a XOR (a XOR b) = (b :: u8)"
  by (simp add: xor.assoc [symmetric])

lemma inv_mix_column_mix:
  "mix_column a b c d = [w, x, y, z] \<Longrightarrow> inv_mix_column w x y z = [a, b, c, d]"
  by (auto simp: gmul_23 gmul_consts xt_xor ac_simps xor_cancel)

lemma inv_mix_columns_mix: "length s = 16 \<Longrightarrow> inv_mix_columns (fips_mix_columns s) = s"
  by (elim state16) (simp add: inv_mix_columns_def fips_mix_columns_def upt_4 inv_mix_column_mix del: inv_mix_column.simps)

lemma inv_mix_columns_add:
  "length k = 16 \<Longrightarrow> length s = 16 \<Longrightarrow> inv_mix_columns (add_bytes k s) = add_bytes (inv_mix_columns k) (inv_mix_columns s)"
  by (elim state16) (simp add: inv_mix_columns_def add_bytes_def upt_4 gmul_consts xt_xor ac_simps)

lemma add_bytes_twice: "length k = length s \<Longrightarrow> add_bytes k (add_bytes k s) = s"
  by (induction k s rule: list_induct2) (simp_all add: add_bytes_def xor.assoc)


subsection \<open>Blocks\<close>

lemma get_uint32_le_le32: "get_uint32_le b i = le32 (b ! i) (b ! (i + 1)) (b ! (i + 2)) (b ! (i + 3))"
  unfolding get_uint32_le_def by (rule bit_word_eqI) (auto simp: bit_or_iff bit_bytes bit_le32)

lemma put_uint32_le_le32: "put_uint32_le (le32 a b c d) = [a, b, c, d]"
proof -
  have "(ucast (w AND 0xFF) :: u8) = ucast w" for w :: u32
    unfolding ff_mask by (rule bit_word_eqI) (auto simp: bit_simps)
  then show ?thesis by (simp add: put_uint32_le_def le32_bytes)
qed

lemma put_cols: "length s = 16 \<Longrightarrow> concat (map put_uint32_le (cols s)) = s"
  by (elim state16) (simp add: cols_list put_uint32_le_le32)

lemma get_cols:
  "length k = 16 \<Longrightarrow> length s = 16 \<Longrightarrow> map (\<lambda>j. get_uint32_le s (4 * j) XOR (cols k @ RK) ! j) [0..<4] = cols (add_bytes k s)"
  by (elim state16) (simp add: upt_4 get_uint32_le_le32 le32_xor cols_list add_bytes_def)

lemma length_cols [simp]: "length (cols s) = 4"
  by (simp add: cols_def)

definition keys16 :: "bytes list \<Rightarrow> bool" where
  "keys16 ks \<longleftrightarrow> (\<forall>k \<in> set ks. length k = 16)"

lemma keys16_simps [simp]:
  "keys16 []" "keys16 (k # ks) \<longleftrightarrow> length k = 16 \<and> keys16 ks" "keys16 (ks @ js) \<longleftrightarrow> keys16 ks \<and> keys16 js"
  by (auto simp: keys16_def)

text \<open>
  A round computed from tables on the columns: \<open>f\<close> is the macro, \<open>g\<close> what it does to the state; \<open>l\<close> and \<open>m\<close> are
  the last round and its meaning. The block operation built from them runs the rounds of \<open>g\<close> over the keys.
\<close>

locale table_cipher =
  fixes f l :: "u32 list \<Rightarrow> u32 list \<Rightarrow> u32 list" and g m :: "bytes \<Rightarrow> bytes \<Rightarrow> bytes"
  assumes round_cols: "length k = 16 \<Longrightarrow> length s = 16 \<Longrightarrow> f (cols k @ RK) (cols s) = cols (g k s)"
    and last_cols: "length k = 16 \<Longrightarrow> length s = 16 \<Longrightarrow> l (cols k @ RK) (cols s) = cols (m k s)"
    and round_length: "length k = 16 \<Longrightarrow> length s = 16 \<Longrightarrow> length (g k s) = 16"
    and last_length: "length k = 16 \<Longrightarrow> length s = 16 \<Longrightarrow> length (m k s) = 16"
begin

lemma rounds_length: "keys16 ks \<Longrightarrow> length s = 16 \<Longrightarrow> length (fold g ks s) = 16"
  by (induction ks arbitrary: s) (simp_all add: round_length)

lemma two_rounds_cols:
  "keys16 ks \<Longrightarrow> length ks = 2 * n \<Longrightarrow> length s = 16 \<Longrightarrow>
     two_rounds f n (concat (map cols ks) @ RK, cols s) = (RK, cols (fold g ks s))"
proof (induction n arbitrary: ks s)
  case (Suc n)
  then obtain k k' ks' where "ks = k # k' # ks'" by (auto simp: length_Suc_conv numeral_2_eq_2)
  with Suc show ?case by (simp add: round_cols round_length)
qed simp

lemma block_rounds:
  assumes "keys16 ks" "length ks = Suc (2 * n)" "length k0 = 16" "length k1 = 16" "length input = 16"
    and "RK = cols k0 @ concat (map cols ks) @ cols k1 @ rest"
  shows "(let x = map (\<lambda>j. get_uint32_le input (4 * j) XOR RK ! j) [0..<4]; RK = drop 4 RK;
            (RK, x) = two_rounds f n (RK, x); y = f RK x; RK = drop 4 RK; x = l RK y
          in (0 :: u32, concat (map put_uint32_le x)))
        = (0, m k1 (fold g ks (add_bytes k0 input)))"
proof -
  obtain js k where ks: "ks = js @ [k]" using assms(2) by (cases ks rule: rev_cases) auto
  let ?s = "fold g js (add_bytes k0 input)"
  have s: "length ?s = 16" using assms by (simp add: rounds_length ks)
  show ?thesis
    unfolding assms(6) ks Let_def
    using two_rounds_cols [of js n "add_bytes k0 input" "cols k @ cols k1 @ rest"] assms s
    by (simp add: ks get_cols round_cols last_cols round_length last_length put_cols)
qed

end

interpretation fwd: table_cipher AES_FROUND last_fround fips_round "\<lambda>k s. add_bytes k (fips_shift_rows (fips_sub_bytes s))"
  by unfold_locales (simp_all add: fround_fips last_rounds_fips fips_round_def)

definition inv_round :: "bytes \<Rightarrow> bytes \<Rightarrow> bytes" where
  "inv_round k s = add_bytes k (inv_mix_columns (inv_sub (inv_shift_rows s)))"

interpretation bwd: table_cipher AES_RROUND last_rround inv_round "\<lambda>k s. add_bytes k (inv_sub (inv_shift_rows s))"
  by unfold_locales (simp_all add: rround_fips last_rounds_fips inv_round_def)

text \<open>The whole cipher over a list of round keys \<open>k0\<close>, \<open>ks\<close>, \<open>k1\<close>, and its inverse.\<close>

definition encrypt_keys :: "bytes \<Rightarrow> bytes list \<Rightarrow> bytes \<Rightarrow> bytes \<Rightarrow> bytes" where
  "encrypt_keys k0 ks k1 s = add_bytes k1 (fips_shift_rows (fips_sub_bytes (fold fips_round ks (add_bytes k0 s))))"

definition decrypt_keys :: "bytes \<Rightarrow> bytes list \<Rightarrow> bytes \<Rightarrow> bytes \<Rightarrow> bytes" where
  "decrypt_keys k0 ks k1 s = add_bytes k1 (inv_sub (inv_shift_rows (fold inv_round ks (add_bytes k0 s))))"

lemma shift_sub_inv: "length s = 16 \<Longrightarrow> inv_sub (inv_shift_rows (fips_shift_rows (fips_sub_bytes s))) = s"
  by (simp add: inv_rounds)

lemma inv_round_undo:
  assumes "length k = 16" "length s = 16"
  shows "inv_round (inv_mix_columns k) (fips_shift_rows (fips_sub_bytes (fips_round k s)))
     = fips_shift_rows (fips_sub_bytes s)"
  using assms
  by (simp add: inv_round_def fips_round_def shift_sub_inv inv_mix_columns_add inv_mix_columns_mix add_bytes_twice)

lemma inv_rounds_undo:
  "keys16 ks \<Longrightarrow> length s = 16 \<Longrightarrow>
     fold inv_round (rev (map inv_mix_columns ks)) (fips_shift_rows (fips_sub_bytes (fold fips_round ks s)))
     = fips_shift_rows (fips_sub_bytes s)"
proof (induction ks arbitrary: s)
  case (Cons k ks)
  then show ?case by (simp add: fwd.round_length inv_round_undo)
qed simp

lemma decrypt_encrypt_keys:
  assumes "keys16 ks" "length k0 = 16" "length k1 = 16" "length s = 16"
  shows "decrypt_keys k1 (rev (map inv_mix_columns ks)) k0 (encrypt_keys k0 ks k1 s) = s"
  using assms
  by (simp add: decrypt_keys_def encrypt_keys_def add_bytes_twice fwd.rounds_length inv_rounds_undo shift_sub_inv)


subsection \<open>The key schedule\<close>

definition word_of :: "bytes \<Rightarrow> u32" where
  "word_of b = le32 (b ! 0) (b ! 1) (b ! 2) (b ! 3)"

abbreviation (input) W :: "bytes \<Rightarrow> nat \<Rightarrow> u32" where
  "W key i \<equiv> word_of (fips_w key (length key div 4) i)"

definition key_ok :: "bytes \<Rightarrow> bool" where
  "key_ok key \<longleftrightarrow> length key \<in> {16, 24, 32}"

lemma fips_w_base: "i < nk \<Longrightarrow> fips_w key nk i = take 4 (drop (4 * i) key)"
  by (subst fips_w.simps) simp

lemma fips_w_rec:
  "0 < nk \<Longrightarrow> nk \<le> i \<Longrightarrow> fips_w key nk i =
     (let temp = fips_w key nk (i - 1);
          temp = (if i mod nk = 0 then add_bytes (fips_rcon (i div nk)) (fips_sub_bytes (rotate1 temp))
                  else if nk > 6 \<and> i mod nk = 4 then fips_sub_bytes temp else temp)
      in add_bytes temp (fips_w key nk (i - nk)))"
  by (subst fips_w.simps) simp

lemma length_fips_rcon [simp]: "length (fips_rcon i) = 4"
  by (simp add: fips_rcon_def)

lemma length_fips_w: "length key = 4 * nk \<Longrightarrow> 0 < nk \<Longrightarrow> length (fips_w key nk i) = 4"
proof (induction i rule: less_induct)
  case (less i)
  show ?case
  proof (cases "i < nk")
    case True
    then show ?thesis using less.prems by (simp add: fips_w_base)
  next
    case False
    then have "length (fips_w key nk (i - nk)) = 4" "length (fips_w key nk (i - 1)) = 4"
      using less by simp_all
    then show ?thesis using False less.prems by (simp add: fips_w_rec Let_def)
  qed
qed

lemma word_of_add:
  "length a = 4 \<Longrightarrow> length b = 4 \<Longrightarrow> word_of (add_bytes a b) = word_of b XOR word_of a"
  by (auto simp: word_of_def add_bytes_def le32_xor numeral_eq_Suc length_Suc_conv)

lemma word_of_sub:
  assumes "length a = 4"
  shows "word_of (fips_sub_bytes (rotate1 a)) = sub_word 1 (word_of a)" "word_of (fips_sub_bytes a) = sub_word 0 (word_of a)"
proof -
  obtain w x y z where "a = [w, x, y, z]" using assms by (auto simp: eval_nat_numeral length_Suc_conv)
  then show "word_of (fips_sub_bytes (rotate1 a)) = sub_word 1 (word_of a)" "word_of (fips_sub_bytes a) = sub_word 0 (word_of a)"
    by (simp_all add: word_of_def fips_sub_bytes_def sub_word_def aes_boxes(3) le32_fold xor.assoc
        at_byte_le32(3) [unfolded numeral_2_eq_2])
qed

lemma W_step:
  assumes "key_ok key" "nk = length key div 4" "nk \<le> i" "i div nk \<le> 10"
  shows "W key i = W key (i - nk) XOR
     (if i mod nk = 0 then RCON aes_gen_tables ! (i div nk - 1) XOR sub_word 1 (W key (i - 1))
      else if nk > 6 \<and> i mod nk = 4 then sub_word 0 (W key (i - 1)) else W key (i - 1))"
proof -
  have nk: "length key = 4 * nk" "0 < nk" using assms by (auto simp: key_ok_def)
  note l = length_fips_w [OF nk]
  have r: "word_of (fips_rcon (i div nk)) = RCON aes_gen_tables ! (i div nk - 1)"
    using assms nk by (simp add: fips_rcon_def word_of_def RCON_entries le32_def div_le_dividend)
  show ?thesis
    unfolding assms(2) [symmetric]
    unfolding fips_w_rec [OF nk(2) assms(3)] Let_def
    using l r
    by (cases "i mod nk = 0") (simp_all add: word_of_add word_of_sub(1), simp_all add: word_of_sub(2) ac_simps)
qed

definition words :: "bytes \<Rightarrow> nat \<Rightarrow> u32 list \<Rightarrow> bool" where
  "words key n rk \<longleftrightarrow> length rk = 68 \<and> (\<forall>j<n. rk ! j = W key j)"

lemma words_nth: "words key n rk \<Longrightarrow> j < n \<Longrightarrow> rk ! j = W key j"
  by (simp add: words_def)

lemma words_write: "words key n rk \<Longrightarrow> n < 68 \<Longrightarrow> v = W key n \<Longrightarrow> words key (Suc n) (rk[n := v])"
  by (auto simp: words_def nth_list_update less_Suc_eq)

lemma words_load:
  assumes "length buf = 68" "key_ok key"
  shows "words key (length key div 4)
     (fold (\<lambda>i rk. rk[i := get_uint32_le key (4 * i)]) [0..<length key div 4] buf)"
proof -
  have "words key n (fold (\<lambda>i rk. rk[i := get_uint32_le key (4 * i)]) [0..<n] buf)" if "n \<le> length key div 4" for n
    using that
  proof (induction n)
    case (Suc n)
    have "get_uint32_le key (4 * n) = W key n"
      using Suc.prems assms(2) by (auto simp: fips_w_base word_of_def get_uint32_le_le32 key_ok_def)
    with Suc assms(2) show ?case by (auto simp: key_ok_def intro!: words_write)
  qed (simp add: words_def assms)
  then show ?thesis by simp
qed


text \<open>The loops of the key expansion write one word after the other, each from those before it.\<close>

definition next_word :: "nat \<Rightarrow> u32 list \<Rightarrow> nat \<Rightarrow> u32" where
  "next_word nk rk i = rk ! (i - nk) XOR
     (if i mod nk = 0 then RCON aes_gen_tables ! (i div nk - 1) XOR sub_word 1 (rk ! (i - 1))
      else if nk > 6 \<and> i mod nk = 4 then sub_word 0 (rk ! (i - 1)) else rk ! (i - 1))"

abbreviation (input) write_words :: "nat \<Rightarrow> nat list \<Rightarrow> u32 list \<Rightarrow> u32 list" where
  "write_words nk is rk \<equiv> fold (\<lambda>i rk. rk[i := next_word nk rk i]) is rk"

lemma words_next:
  assumes "key_ok key" "nk = length key div 4"
  shows "words key n rk \<Longrightarrow> nk \<le> n \<Longrightarrow> n + m \<le> 68 \<Longrightarrow> n + m \<le> 11 * nk \<Longrightarrow>
     words key (n + m) (write_words nk [n..<n + m] rk)"
proof (induction m)
  case (Suc m)
  define r where "r = write_words nk [n..<n + m] rk"
  have w: "words key (n + m) r" using Suc by (simp add: r_def)
  have "(n + m) div nk < 11" using Suc.prems(4) by (intro less_mult_imp_div_less) simp
  then have "next_word nk r (n + m) = W key (n + m)"
    using W_step [OF assms, of "n + m"] Suc.prems assms
    by (auto simp: next_word_def words_nth [OF w] key_ok_def)
  with words_write [OF w] Suc.prems show ?case by (simp add: r_def [symmetric])
qed simp

lemma next_128:
  "next_word 4 rk (4 * i + 4) = rk ! (4 * i) XOR RCON aes_gen_tables ! i XOR sub_word 1 (rk ! (4 * i + 3))"
  "next_word 4 rk (4 * i + 5) = rk ! (4 * i + 1) XOR rk ! (4 * i + 4)"
  "next_word 4 rk (4 * i + 6) = rk ! (4 * i + 2) XOR rk ! (4 * i + 5)"
  "next_word 4 rk (4 * i + 7) = rk ! (4 * i + 3) XOR rk ! (4 * i + 6)"
  by (simp_all add: next_word_def xor.assoc add.commute)

lemma expand_128_next: "expand_128 i rk = write_words 4 [4 * i + 4..<4 * i + 4 + 4] rk"
proof -
  have "expand_128 i rk = (let rk = rk[4 * i + 4 := next_word 4 rk (4 * i + 4)];
          rk = rk[4 * i + 5 := next_word 4 rk (4 * i + 5)];
          rk = rk[4 * i + 6 := next_word 4 rk (4 * i + 6)] in rk[4 * i + 7 := next_word 4 rk (4 * i + 7)])"
    unfolding expand_128_def next_128 Let_def ..
  moreover have "[4 * i + 4..<4 * i + 4 + 4] = [4 * i + 4, 4 * i + 5, 4 * i + 6, 4 * i + 7]" by (simp add: upt_rec)
  ultimately show ?thesis by (simp only: Let_def fold_simps)
qed

lemma next_192:
  "next_word 6 rk (6 * i + 6) = rk ! (6 * i) XOR RCON aes_gen_tables ! i XOR sub_word 1 (rk ! (6 * i + 5))"
  "next_word 6 rk (6 * i + 7) = rk ! (6 * i + 1) XOR rk ! (6 * i + 6)"
  "next_word 6 rk (6 * i + 8) = rk ! (6 * i + 2) XOR rk ! (6 * i + 7)"
  "next_word 6 rk (6 * i + 9) = rk ! (6 * i + 3) XOR rk ! (6 * i + 8)"
  "next_word 6 rk (6 * i + 10) = rk ! (6 * i + 4) XOR rk ! (6 * i + 9)"
  "next_word 6 rk (6 * i + 11) = rk ! (6 * i + 5) XOR rk ! (6 * i + 10)"
  by (simp_all add: next_word_def xor.assoc add.commute)

lemma expand_192_next: "expand_192 i rk = write_words 6 [6 * i + 6..<6 * i + 6 + 6] rk"
proof -
  have "expand_192 i rk = (let rk = rk[6 * i + 6 := next_word 6 rk (6 * i + 6)];
          rk = rk[6 * i + 7 := next_word 6 rk (6 * i + 7)];
          rk = rk[6 * i + 8 := next_word 6 rk (6 * i + 8)];
          rk = rk[6 * i + 9 := next_word 6 rk (6 * i + 9)];
          rk = rk[6 * i + 10 := next_word 6 rk (6 * i + 10)] in rk[6 * i + 11 := next_word 6 rk (6 * i + 11)])"
    unfolding expand_192_def next_192 Let_def ..
  moreover have "[6 * i + 6..<6 * i + 6 + 6] = [6 * i + 6, 6 * i + 7, 6 * i + 8, 6 * i + 9, 6 * i + 10, 6 * i + 11]" by (simp add: upt_rec)
  ultimately show ?thesis by (simp only: Let_def fold_simps)
qed

lemma next_256:
  "next_word 8 rk (8 * i + 8) = rk ! (8 * i) XOR RCON aes_gen_tables ! i XOR sub_word 1 (rk ! (8 * i + 7))"
  "next_word 8 rk (8 * i + 9) = rk ! (8 * i + 1) XOR rk ! (8 * i + 8)"
  "next_word 8 rk (8 * i + 10) = rk ! (8 * i + 2) XOR rk ! (8 * i + 9)"
  "next_word 8 rk (8 * i + 11) = rk ! (8 * i + 3) XOR rk ! (8 * i + 10)"
  "next_word 8 rk (8 * i + 12) = rk ! (8 * i + 4) XOR sub_word 0 (rk ! (8 * i + 11))"
  "next_word 8 rk (8 * i + 13) = rk ! (8 * i + 5) XOR rk ! (8 * i + 12)"
  "next_word 8 rk (8 * i + 14) = rk ! (8 * i + 6) XOR rk ! (8 * i + 13)"
  "next_word 8 rk (8 * i + 15) = rk ! (8 * i + 7) XOR rk ! (8 * i + 14)"
  by (simp_all add: next_word_def xor.assoc add.commute)

lemma expand_256_next: "expand_256 i rk = write_words 8 [8 * i + 8..<8 * i + 8 + 8] rk"
proof -
  have "expand_256 i rk = (let rk = rk[8 * i + 8 := next_word 8 rk (8 * i + 8)];
          rk = rk[8 * i + 9 := next_word 8 rk (8 * i + 9)];
          rk = rk[8 * i + 10 := next_word 8 rk (8 * i + 10)];
          rk = rk[8 * i + 11 := next_word 8 rk (8 * i + 11)];
          rk = rk[8 * i + 12 := next_word 8 rk (8 * i + 12)];
          rk = rk[8 * i + 13 := next_word 8 rk (8 * i + 13)];
          rk = rk[8 * i + 14 := next_word 8 rk (8 * i + 14)] in rk[8 * i + 15 := next_word 8 rk (8 * i + 15)])"
    unfolding expand_256_def next_256 Let_def ..
  moreover have "[8 * i + 8..<8 * i + 8 + 8] = [8 * i + 8, 8 * i + 9, 8 * i + 10, 8 * i + 11, 8 * i + 12, 8 * i + 13, 8 * i + 14, 8 * i + 15]" by (simp add: upt_rec)
  ultimately show ?thesis by (simp only: Let_def fold_simps)
qed


lemma words_expand:
  assumes "key_ok key" "nk = length key div 4" "\<And>i rk. e i rk = write_words nk [nk * i + nk..<nk * i + nk + nk] rk"
    and "words key nk rk"
  shows "n \<le> 10 \<Longrightarrow> nk * n + nk \<le> 68 \<Longrightarrow> words key (nk * n + nk) (fold e [0..<n] rk)"
proof (induction n)
  case (Suc n)
  have "n \<le> 9" using Suc.prems by simp
  then have "nk * n \<le> nk * 9" by (rule mult_le_mono2)
  with Suc words_next [OF assms(1,2), of "nk * n + nk" "fold e [0..<n] rk" nk] show ?case
    by (simp add: assms(3) [of n "fold e [0..<n] rk"] add.assoc add.left_commute)
qed (use assms(2,4) in simp)

abbreviation (input) rkey :: "bytes \<Rightarrow> nat \<Rightarrow> bytes" where
  "rkey key r \<equiv> fips_round_key key (length key div 4) r"

definition rounds_of :: "bytes \<Rightarrow> nat" where
  "rounds_of key = length key div 4 + 6"

lemma setkey_enc_words:
  assumes "key_ok key" "length (aes_buf ctx) = 68"
  shows "\<exists>rk. mbedtls_aes_setkey_enc ctx key (8 * length key) = (0, ctx\<lparr>aes_nr := rounds_of key, aes_buf := rk\<rparr>)
     \<and> words key (4 * (rounds_of key + 1)) rk"
proof -
  let ?rk = "fold (\<lambda>i rk. rk[i := get_uint32_le key (4 * i)]) [0..<length key div 4] (aes_buf ctx)"
  note w = words_expand [OF assms(1) refl _ words_load [OF assms(2,1)]]
  have m: "words key n rk \<Longrightarrow> m \<le> n \<Longrightarrow> words key m rk" for n m rk by (simp add: words_def)
  consider "length key = 16" | "length key = 24" | "length key = 32" using assms(1) by (auto simp: key_ok_def)
  then show ?thesis
  proof cases
    case 1
    with w [of expand_128 10] show ?thesis
      by (intro exI [of _ "fold expand_128 [0..<10] ?rk"]) (simp add: mbedtls_aes_setkey_enc_def rounds_of_def expand_128_next del: upt_rec_numeral)
  next
    case 2
    with w [of expand_192 8] m [of 54 _ 52] show ?thesis
      by (intro exI [of _ "fold expand_192 [0..<8] ?rk"]) (simp add: mbedtls_aes_setkey_enc_def rounds_of_def expand_192_next del: upt_rec_numeral)
  next
    case 3
    with w [of expand_256 7] m [of 64 _ 60] show ?thesis
      by (intro exI [of _ "fold expand_256 [0..<7] ?rk"]) (simp add: mbedtls_aes_setkey_enc_def rounds_of_def expand_256_next del: upt_rec_numeral)
  qed
qed

lemma round_key_cols:
  assumes "key_ok key"
  shows "length (rkey key r) = 16" "cols (rkey key r) = map (W key) [4 * r..<4 * r + 4]"
proof -
  have l: "length (fips_w key (length key div 4) i) = 4" for i
    using assms by (intro length_fips_w) (auto simp: key_ok_def)
  have u: "[4 * r..<4 * r + 4] = [4 * r, 4 * r + 1, 4 * r + 2, 4 * r + 3]" by (simp add: upt_rec)
  show "length (rkey key r) = 16" by (simp add: fips_round_key_def u l)
  have c: "length a = 4 \<Longrightarrow> length b = 4 \<Longrightarrow> length c = 4 \<Longrightarrow> length d = 4 \<Longrightarrow>
      cols (a @ b @ c @ d) = [word_of a, word_of b, word_of c, word_of d]" for a b c d
    by (simp add: cols_def upt_4 word_of_def nth_append numeral_2_eq_2)
  show "cols (rkey key r) = map (W key) [4 * r..<4 * r + 4]"
    unfolding fips_round_key_def u by (simp add: c l)
qed

lemma words_cols:
  assumes "key_ok key" "words key (4 * n) rk" "4 * n \<le> 68"
  shows "take (4 * n) rk = concat (map (\<lambda>r. cols (rkey key r)) [0..<n])"
proof -
  have "concat (map (\<lambda>r. cols (rkey key r)) [0..<n]) = map (W key) [0..<4 * n]"
    by (induction n) (simp_all add: round_key_cols(2) [OF assms(1)] upt_add_eq_append [of 0, simplified] add.commute [of 4])
  also have "\<dots> = take (4 * n) rk"
    using assms(2,3) by (intro nth_equalityI) (auto simp: words_def)
  finally show ?thesis ..
qed


subsection \<open>The library's cipher is the standard's\<close>

lemma upt_front: "0 < n \<Longrightarrow> [0..<Suc n] = 0 # [1..<n] @ [n]"
  by (simp add: upt_conv_Cons)

lemma enc_buffer:
  assumes "key_ok key" "words key (4 * (rounds_of key + 1)) rk"
  shows "\<exists>rest. rk = cols (rkey key 0) @ concat (map cols (map (rkey key) [1..<rounds_of key])) @ cols (rkey key (rounds_of key)) @ rest"
proof -
  let ?n = "rounds_of key"
  have "take (4 * (?n + 1)) rk = concat (map (\<lambda>r. cols (rkey key r)) [0..<Suc ?n])"
    using words_cols [OF assms(1), of "?n + 1" rk] assms by (auto simp: rounds_of_def key_ok_def)
  also have "[0..<Suc ?n] = 0 # [1..<?n] @ [?n]" by (rule upt_front) (simp add: rounds_of_def)
  finally have "rk = (cols (rkey key 0) @ concat (map (\<lambda>r. cols (rkey key r)) [1..<?n]) @ cols (rkey key ?n)) @ drop (4 * (?n + 1)) rk"
    using append_take_drop_id [of "4 * (?n + 1)" rk] by simp
  then show ?thesis by (auto simp: comp_def)
qed

lemma fips_cipher_keys:
  "fips_cipher key input = encrypt_keys (rkey key 0) (map (rkey key) [1..<rounds_of key]) (rkey key (rounds_of key)) input"
  by (simp add: fips_cipher_def encrypt_keys_def Let_def rounds_of_def fold_map comp_def)

lemma keys16_rkeys: "key_ok key \<Longrightarrow> keys16 (map (rkey key) is)"
  by (simp add: keys16_def round_key_cols)

lemma rounds_even:
  assumes "key_ok key"
  shows "length [1..<rounds_of key] = Suc (2 * (rounds_of key div 2 - 1))"
  using assms by (auto simp: rounds_of_def key_ok_def)

lemma aes_encrypt_fips:
  assumes "key_ok key" "length (aes_buf ctx) = 68" "length input = 16"
  shows "\<exists>ctx'. mbedtls_aes_setkey_enc ctx key (8 * length key) = (0, ctx')
     \<and> mbedtls_aes_crypt_ecb ctx' MBEDTLS_ENCRYPT input = (0, fips_cipher key input)"
proof -
  obtain rk where rk: "mbedtls_aes_setkey_enc ctx key (8 * length key) = (0, ctx\<lparr>aes_nr := rounds_of key, aes_buf := rk\<rparr>)"
    "words key (4 * (rounds_of key + 1)) rk" using setkey_enc_words [OF assms(1,2)] by blast
  obtain rest where buf: "rk = cols (rkey key 0) @ concat (map cols (map (rkey key) [1..<rounds_of key])) @ cols (rkey key (rounds_of key)) @ rest"
    using enc_buffer [OF assms(1) rk(2)] by blast
  have "mbedtls_internal_aes_encrypt (ctx\<lparr>aes_nr := rounds_of key, aes_buf := rk\<rparr>) input = (0, fips_cipher key input)"
    using fwd.block_rounds [OF keys16_rkeys [OF assms(1)] _ _ _ assms(3) buf] rounds_even [OF assms(1)] round_key_cols(1) [OF assms(1)]
    by (simp add: mbedtls_internal_aes_encrypt_def fips_cipher_keys encrypt_keys_def)
  with rk(1) show ?thesis by (simp add: mbedtls_aes_crypt_ecb_def)
qed

lemma inv_schedule_cols:
  assumes "\<And>r. 0 < r \<Longrightarrow> r \<le> n \<Longrightarrow> take 4 (drop (4 * r) sk) = cols (k r) \<and> length (k r) = 16"
  shows "inv_schedule n sk = concat (map cols (rev (map inv_mix_columns (map k [1..<Suc n]))))"
  using assms
proof (induction n)
  case (Suc n)
  from Suc.prems [of "Suc n"] Suc.IH Suc.prems show ?case by (simp add: inv_mix_words)
qed simp

lemma drop_cols:
  assumes "key_ok key" "words key (4 * (rounds_of key + 1)) rk" "r \<le> rounds_of key"
  shows "take 4 (drop (4 * r) rk) = cols (rkey key r)"
  using assms by (intro nth_equalityI) (auto simp: words_def round_key_cols(2) rounds_of_def key_ok_def)

lemma dec_buffer:
  assumes "key_ok key" "length (aes_buf ctx) = 68"
  shows "\<exists>rest. mbedtls_aes_setkey_dec ctx key (8 * length key) = (0, ctx\<lparr>aes_nr := rounds_of key, aes_buf :=
     cols (rkey key (rounds_of key)) @ concat (map cols (rev (map inv_mix_columns (map (rkey key) [1..<rounds_of key]))))
     @ cols (rkey key 0) @ rest\<rparr>)"
proof -
  let ?n = "rounds_of key"
  have "length (aes_buf mbedtls_aes_init) = 68" by (simp add: mbedtls_aes_init_def)
  then obtain rk where rk: "mbedtls_aes_setkey_enc mbedtls_aes_init key (8 * length key) = (0, mbedtls_aes_init\<lparr>aes_nr := ?n, aes_buf := rk\<rparr>)"
    "words key (4 * (?n + 1)) rk" using setkey_enc_words [OF assms(1)] by blast
  have n: "Suc (?n - 1) = ?n" by (simp add: rounds_of_def)
  have i: "inv_schedule (?n - 1) rk = concat (map cols (rev (map inv_mix_columns (map (rkey key) [1..<?n]))))"
    using inv_schedule_cols [of "?n - 1" rk "rkey key"] drop_cols [OF assms(1) rk(2)] round_key_cols(1) [OF assms(1)]
    unfolding n by simp
  show ?thesis
    using drop_cols [OF assms(1) rk(2), of 0] drop_cols [OF assms(1) rk(2), of ?n]
    unfolding i [symmetric]
    by (intro exI [of _ "drop (8 + length (inv_schedule (?n - 1) rk)) (aes_buf ctx)"])
      (use rk(2) assms(1) in \<open>auto simp: mbedtls_aes_setkey_dec_def rk(1) Let_def words_def key_ok_def rounds_of_def\<close>)
qed

lemma aes_decrypt_keys:
  assumes "key_ok key" "length (aes_buf ctx) = 68" "length input = 16"
  shows "\<exists>ctx'. mbedtls_aes_setkey_dec ctx key (8 * length key) = (0, ctx')
     \<and> mbedtls_aes_crypt_ecb ctx' MBEDTLS_DECRYPT input = (0, decrypt_keys (rkey key (rounds_of key))
          (rev (map inv_mix_columns (map (rkey key) [1..<rounds_of key]))) (rkey key 0) input)"
proof -
  let ?ks = "rev (map inv_mix_columns (map (rkey key) [1..<rounds_of key]))"
  obtain rest where d: "mbedtls_aes_setkey_dec ctx key (8 * length key) = (0, ctx\<lparr>aes_nr := rounds_of key, aes_buf :=
     cols (rkey key (rounds_of key)) @ concat (map cols ?ks) @ cols (rkey key 0) @ rest\<rparr>)" (is "_ = (0, ?ctx)")
    using dec_buffer [OF assms(1,2)] by blast
  have k: "keys16 ?ks" by (auto simp: keys16_def)
  have "mbedtls_internal_aes_decrypt ?ctx input = (0, decrypt_keys (rkey key (rounds_of key)) ?ks (rkey key 0) input)"
    using bwd.block_rounds [OF k _ _ _ assms(3) refl, of _ "rkey key (rounds_of key)" "rkey key 0" rest]
      rounds_even [OF assms(1)] round_key_cols(1) [OF assms(1)]
    by (simp add: mbedtls_internal_aes_decrypt_def decrypt_keys_def)
  with d show ?thesis by (simp add: mbedtls_aes_crypt_ecb_def)
qed

lemma length_fips_cipher: "key_ok key \<Longrightarrow> length input = 16 \<Longrightarrow> length (fips_cipher key input) = 16"
  using round_key_cols(1) [of key] by (simp add: fips_cipher_keys encrypt_keys_def)

lemma aes_decrypt_fips:
  assumes "key_ok key" "length (aes_buf ctx) = 68" "length input = 16"
  shows "\<exists>ctx'. mbedtls_aes_setkey_dec ctx key (8 * length key) = (0, ctx')
     \<and> mbedtls_aes_crypt_ecb ctx' MBEDTLS_DECRYPT (fips_cipher key input) = (0, input)"
proof -
  from aes_decrypt_keys [OF assms(1,2) length_fips_cipher [OF assms(1,3)]] decrypt_encrypt_keys [OF keys16_rkeys [OF assms(1)] _ _ assms(3)]
    round_key_cols(1) [OF assms(1)]
  show ?thesis by (simp add: fips_cipher_keys)
qed

end
