(* ===== verification/Cipher.thy ===== *)
theory Cipher
  imports NistKw Fips197
begin

text \<open>
  The cipher layer between key wrapping and the block cipher (\<^verbatim>\<open>crypto/cipher.twl.c\<close>, \<^verbatim>\<open>crypto/cipher_wrap.twl.c\<close>), and the
  contexts of \<^verbatim>\<open>crypto/nist_kw.twl.c\<close>. Key wrapping asks for ciphers in ECB mode only, so the rows of
  \<^verbatim>\<open>mbedtls_cipher_definitions\<close> that this configuration has in that mode are here. The members of a
  context that ECB does not use (buffer of unprocessed data, IV) are left out. \<open>heap\<close> says whether
  \<^verbatim>\<open>calloc\<close> finds memory.
\<close>

abbreviation (input) MBEDTLS_ERR_CIPHER_ALLOC_FAILED :: u32 where
  "MBEDTLS_ERR_CIPHER_ALLOC_FAILED \<equiv> - 0x6180"
abbreviation (input) MBEDTLS_ERR_CIPHER_FULL_BLOCK_EXPECTED :: u32 where
  "MBEDTLS_ERR_CIPHER_FULL_BLOCK_EXPECTED \<equiv> - 0x6280"
abbreviation (input) MBEDTLS_ERR_CIPHER_INVALID_CONTEXT :: u32 where
  "MBEDTLS_ERR_CIPHER_INVALID_CONTEXT \<equiv> - 0x6380"
abbreviation (input) MBEDTLS_CIPHER_VARIABLE_KEY_LEN :: u32 where
  "MBEDTLS_CIPHER_VARIABLE_KEY_LEN \<equiv> 0x02"

datatype mbedtls_cipher_id_t = MBEDTLS_CIPHER_ID_NONE | MBEDTLS_CIPHER_ID_NULL | MBEDTLS_CIPHER_ID_AES
  | MBEDTLS_CIPHER_ID_DES | MBEDTLS_CIPHER_ID_3DES | MBEDTLS_CIPHER_ID_CAMELLIA | MBEDTLS_CIPHER_ID_ARIA
  | MBEDTLS_CIPHER_ID_CHACHA20

record mbedtls_cipher_info_t =
  info_key_bitlen :: nat
  info_flags :: u32
  info_block_size :: nat
  info_base :: mbedtls_cipher_id_t

record mbedtls_cipher_context_t =
  cipher_info :: "mbedtls_cipher_info_t option"
  cipher_key_bitlen :: nat
  cipher_operation :: mbedtls_operation_t
  cipher_ctx :: "mbedtls_aes_context option"

definition ecb_definitions :: "mbedtls_cipher_info_t list" where
  "ecb_definitions =
     map (\<lambda>n. \<lparr>info_key_bitlen = n, info_flags = 0, info_block_size = 16, info_base = MBEDTLS_CIPHER_ID_AES\<rparr>) [128, 192, 256]"

definition mbedtls_cipher_info_from_values :: "mbedtls_cipher_id_t \<Rightarrow> nat \<Rightarrow> mbedtls_cipher_info_t option" where
  "mbedtls_cipher_info_from_values cipher_id key_bitlen =
     find (\<lambda>info. info_base info = cipher_id \<and> info_key_bitlen info = key_bitlen) ecb_definitions"

definition mbedtls_cipher_init :: mbedtls_cipher_context_t where
  "mbedtls_cipher_init = \<lparr>cipher_info = None, cipher_key_bitlen = 0, cipher_operation = MBEDTLS_DECRYPT, cipher_ctx = None\<rparr>"

definition aes_ctx_alloc :: "bool \<Rightarrow> mbedtls_aes_context option" where
  "aes_ctx_alloc heap = (if heap then Some mbedtls_aes_init else None)"

definition mbedtls_cipher_setup ::
  "bool \<Rightarrow> mbedtls_cipher_context_t \<Rightarrow> mbedtls_cipher_info_t option \<Rightarrow> u32 \<times> mbedtls_cipher_context_t" where
  "mbedtls_cipher_setup heap ctx info =
     (case info of None \<Rightarrow> (MBEDTLS_ERR_CIPHER_BAD_INPUT_DATA, ctx)
      | Some i \<Rightarrow>
          let ctx = mbedtls_cipher_init\<lparr>cipher_ctx := aes_ctx_alloc heap\<rparr>
          in if cipher_ctx ctx = None then (MBEDTLS_ERR_CIPHER_ALLOC_FAILED, ctx)
             else (0, ctx\<lparr>cipher_info := Some i\<rparr>))"

text \<open>A context with \<open>cipher_info\<close> also has its \<open>cipher_ctx\<close>: \<open>mbedtls_cipher_setup\<close> sets them together.\<close>

definition mbedtls_cipher_setkey ::
  "mbedtls_cipher_context_t \<Rightarrow> bytes \<Rightarrow> nat \<Rightarrow> mbedtls_operation_t \<Rightarrow> u32 \<times> mbedtls_cipher_context_t" where
  "mbedtls_cipher_setkey ctx key key_bitlen op =
     (case (cipher_info ctx, cipher_ctx ctx) of
        (Some info, Some aes) \<Rightarrow>
          if info_flags info AND MBEDTLS_CIPHER_VARIABLE_KEY_LEN = 0 \<and> info_key_bitlen info \<noteq> key_bitlen
          then (MBEDTLS_ERR_CIPHER_BAD_INPUT_DATA, ctx)
          else
            let ctx = ctx\<lparr>cipher_key_bitlen := key_bitlen, cipher_operation := op\<rparr>;
                (ret, aes) = (if op = MBEDTLS_ENCRYPT then mbedtls_aes_setkey_enc aes key (cipher_key_bitlen ctx)
                              else if op = MBEDTLS_DECRYPT then mbedtls_aes_setkey_dec aes key (cipher_key_bitlen ctx)
                              else (MBEDTLS_ERR_CIPHER_BAD_INPUT_DATA, aes))
            in (ret, ctx\<lparr>cipher_ctx := Some aes\<rparr>)
      | _ \<Rightarrow> (MBEDTLS_ERR_CIPHER_BAD_INPUT_DATA, ctx))"

definition mbedtls_cipher_get_block_size :: "mbedtls_cipher_context_t \<Rightarrow> nat" where
  "mbedtls_cipher_get_block_size ctx = (case cipher_info ctx of None \<Rightarrow> 0 | Some info \<Rightarrow> info_block_size info)"

text \<open>\<open>Inl\<close> the error code, or \<open>Inr\<close> the output, as long as the input.\<close>

definition mbedtls_cipher_update :: "mbedtls_cipher_context_t \<Rightarrow> cipher_update" where
  "mbedtls_cipher_update ctx input =
     (case (cipher_info ctx, cipher_ctx ctx) of
        (Some info, Some aes) \<Rightarrow>
          let block_size = mbedtls_cipher_get_block_size ctx in
          if block_size = 0 then Inl MBEDTLS_ERR_CIPHER_INVALID_CONTEXT
          else if length input \<noteq> block_size then Inl MBEDTLS_ERR_CIPHER_FULL_BLOCK_EXPECTED
          else (case mbedtls_aes_crypt_ecb aes (cipher_operation ctx) input of (ret, output) \<Rightarrow>
                  if ret \<noteq> 0 then Inl ret else Inr output)
      | _ \<Rightarrow> Inl MBEDTLS_ERR_CIPHER_BAD_INPUT_DATA)"

text \<open>The context of key wrapping is its \<^verbatim>\<open>cipher_ctx\<close>.\<close>

definition mbedtls_nist_kw_init :: mbedtls_cipher_context_t where
  "mbedtls_nist_kw_init = mbedtls_cipher_init"

definition mbedtls_nist_kw_setkey ::
  "bool \<Rightarrow> mbedtls_cipher_context_t \<Rightarrow> mbedtls_cipher_id_t \<Rightarrow> bytes \<Rightarrow> nat \<Rightarrow> bool \<Rightarrow> u32 \<times> mbedtls_cipher_context_t" where
  "mbedtls_nist_kw_setkey heap ctx cipher key keybits is_wrap =
     (case mbedtls_cipher_info_from_values cipher keybits of
        None \<Rightarrow> (MBEDTLS_ERR_CIPHER_BAD_INPUT_DATA, ctx)
      | Some info \<Rightarrow>
          if info_block_size info \<noteq> 16 then (MBEDTLS_ERR_CIPHER_BAD_INPUT_DATA, ctx)
          else if cipher \<noteq> MBEDTLS_CIPHER_ID_AES then (MBEDTLS_ERR_CIPHER_FEATURE_UNAVAILABLE, ctx)
          else (case mbedtls_cipher_setup heap ctx (Some info) of (ret, ctx) \<Rightarrow>
                  if ret \<noteq> 0 then (ret, ctx)
                  else mbedtls_cipher_setkey ctx key keybits (if is_wrap then MBEDTLS_ENCRYPT else MBEDTLS_DECRYPT)))"

subsection \<open>Key wrapping contexts\<close>

text \<open>What a successful \<^verbatim>\<open>mbedtls_nist_kw_setkey\<close> leaves in a context.\<close>

abbreviation (input) kw_context :: "bool \<Rightarrow> bytes \<Rightarrow> mbedtls_cipher_context_t" where
  "kw_context w key \<equiv> snd (mbedtls_nist_kw_setkey True mbedtls_nist_kw_init MBEDTLS_CIPHER_ID_AES key (8 * length key) w)"

lemma kw_setkey_ok:
  assumes "key_ok key"
  shows "fst (mbedtls_nist_kw_setkey True ctx MBEDTLS_CIPHER_ID_AES key (8 * length key) w) = 0"
    and "length b = 16 \<Longrightarrow> mbedtls_cipher_update (kw_context True key) b = Inr (fips_cipher key b)"
    and "length b = 16 \<Longrightarrow> mbedtls_cipher_update (kw_context False key) (fips_cipher key b) = Inr b"
proof -
  let ?i = "\<lparr>info_key_bitlen = 8 * length key, info_flags = 0, info_block_size = 16, info_base = MBEDTLS_CIPHER_ID_AES\<rparr>"
  have i: "mbedtls_cipher_info_from_values MBEDTLS_CIPHER_ID_AES (8 * length key) = Some ?i"
    using assms by (auto simp: mbedtls_cipher_info_from_values_def ecb_definitions_def key_ok_def)
  have a: "length (aes_buf mbedtls_aes_init) = 68" by (simp add: mbedtls_aes_init_def)
  note defs = mbedtls_nist_kw_setkey_def i mbedtls_cipher_setup_def aes_ctx_alloc_def mbedtls_cipher_setkey_def
    mbedtls_cipher_update_def mbedtls_cipher_get_block_size_def Let_def split_beta
  show "fst (mbedtls_nist_kw_setkey True ctx MBEDTLS_CIPHER_ID_AES key (8 * length key) w) = 0"
    using aes_encrypt_fips [OF assms a, of "replicate 16 0"] aes_decrypt_fips [OF assms a, of "replicate 16 0"]
    by (auto simp: defs)
  show "length b = 16 \<Longrightarrow> mbedtls_cipher_update (kw_context True key) b = Inr (fips_cipher key b)"
    using aes_encrypt_fips [OF assms a, of b] by (auto simp: defs)
  show "length b = 16 \<Longrightarrow> mbedtls_cipher_update (kw_context False key) (fips_cipher key b) = Inr b"
    using aes_decrypt_fips [OF assms a, of b] length_fips_cipher [OF assms, of b] by (auto simp: defs)
qed

lemma kw_inverse_ciphers:
  "key_ok key \<Longrightarrow> inverse_ciphers (mbedtls_cipher_update (kw_context True key)) (mbedtls_cipher_update (kw_context False key))"
  unfolding inverse_ciphers_def using kw_setkey_ok length_fips_cipher by metis

lemma kw_block_sized: "block_sized (mbedtls_cipher_update ctx)"
proof -
  have "length (snd (mbedtls_aes_crypt_ecb aes op b)) = 16" for aes op b
    by (auto simp: mbedtls_aes_crypt_ecb_def mbedtls_internal_aes_encrypt_def mbedtls_internal_aes_decrypt_def
        last_fround_def last_rround_def put_uint32_le_def Let_def split_beta upt_4)
  then show ?thesis
    by (auto simp: block_sized_def mbedtls_cipher_update_def Let_def split_beta split: option.splits if_splits)
qed

end
