(* ===== verification/Wpa.thy ===== *)
theory Wpa
  imports Cipher "HOL-Library.List_Lexorder"
begin

text \<open>
  The WPA2 key derivations of \<^verbatim>\<open>arm_iop/source/ieee/wpa.twl.c\<close>. The caller's uninitialised
  SHA-1 context is passed as the zeroed one: \<open>sha1_hmac_rfc2104\<close> shows that the result does
  not depend on it. \<open>heap\<close> says whether the context of the block cipher can be allocated; \<open>stk\<close> is what the uninitialised part of the local
  buffer \<^verbatim>\<open>gtk_dec\<close> and the memory behind it hold.
\<close>

record gtk_keyinfo =
  keytype :: bytes
  keyidx :: u8
  gtk_unk :: u8
  gtk_key :: bytes

record ptk_keyinfo =
  kck :: bytes
  kek :: bytes
  tk :: bytes
  mic_tx :: bytes
  mic_rx :: bytes

text \<open>The loop of \<^verbatim>\<open>get_arr_min\<close> and \<^verbatim>\<open>get_arr_max\<close>: whether the first difference is in favour of \<open>a\<close>.\<close>

fun a_is_max :: "bytes \<Rightarrow> bytes \<Rightarrow> bool" where
  "a_is_max (a # as) (b # bs) = (if a = b then a_is_max as bs else a > b)"
| "a_is_max _ _ = False"

definition get_arr_min :: "bytes \<Rightarrow> bytes \<Rightarrow> bytes" where
  "get_arr_min a b = (if a_is_max a b then b else a)"

definition get_arr_max :: "bytes \<Rightarrow> bytes \<Rightarrow> bytes" where
  "get_arr_max a b = (if a_is_max a b then a else b)"

definition ptk_of_bytes :: "bytes \<Rightarrow> ptk_keyinfo" where
  "ptk_of_bytes bs = \<lparr>kck = take 16 bs, kek = take 16 (drop 16 bs), tk = take 16 (drop 32 bs),
     mic_tx = take 8 (drop 48 bs), mic_rx = take 8 (drop 56 bs)\<rparr>"

text \<open>\<^verbatim>\<open>"Pairwise key expansion"\<close> with its terminating zero.\<close>

definition ptk_label :: bytes where
  "ptk_label = map of_char ''Pairwise key expansion'' @ [0]"

definition wpa_calc_ptk :: "bytes \<Rightarrow> bytes \<Rightarrow> bytes \<Rightarrow> bytes \<Rightarrow> bytes \<Rightarrow> ptk_keyinfo" where
  "wpa_calc_ptk dev_mac ap_mac dev_nonce ap_nonce pmk =
     (let mac_min = get_arr_min dev_mac ap_mac;
          mac_max = get_arr_max dev_mac ap_mac;
          nonce_min = get_arr_min ap_nonce dev_nonce;
          nonce_max = get_arr_max ap_nonce dev_nonce;
          ptk_data = ptk_label @ mac_min @ mac_max @ nonce_min @ nonce_max @ [0];
          out0 = sha1_hmac mbedtls_sha1_init pmk ptk_data;
          ptk_data = ptk_data[length ptk_data - 1 := 1];
          out1 = sha1_hmac mbedtls_sha1_init pmk ptk_data;
          ptk_data = ptk_data[length ptk_data - 1 := 2];
          out2 = sha1_hmac mbedtls_sha1_init pmk ptk_data;
          ptk_data = ptk_data[length ptk_data - 1 := 3];
          out3 = sha1_hmac mbedtls_sha1_init pmk ptk_data
      in ptk_of_bytes (take 64 (out0 @ out1 @ out2 @ out3)))"

definition wpa_calc_mic :: "bytes \<Rightarrow> bytes \<Rightarrow> bytes" where
  "wpa_calc_mic key pkt_data = take 16 (sha1_hmac mbedtls_sha1_init key pkt_data)"

definition gtk_of_bytes :: "bytes \<Rightarrow> gtk_keyinfo" where
  "gtk_of_bytes bs = \<lparr>keytype = take 4 bs, keyidx = bs ! 4, gtk_unk = bs ! 5,
     gtk_key = take 32 (drop 6 bs)\<rparr>"

text \<open>The walk over the key data: \<open>gtk_dec\<close> is the local buffer, \<open>out\<close> the 38 bytes of the result.\<close>

function gtk_walk :: "(nat \<Rightarrow> u8) \<Rightarrow> nat \<Rightarrow> nat \<Rightarrow> bytes \<Rightarrow> bytes" where
  "gtk_walk gtk_dec decrypted_length i out =
     (if i < decrypted_length
      then let ent_type = gtk_dec i;
               ent_size = gtk_dec (i + 1);
               i = i + 2;
               out = (if ent_type = 0xDD \<and> map (\<lambda>j. gtk_dec (i + j)) [0..<4] = [0x00, 0x0F, 0xAC, 0x01]
                         \<and> (ent_size = 0x16 \<or> ent_size = 0x26)
                      then overwrite 0 (map (\<lambda>j. gtk_dec (i + j)) [0..<unat ent_size]) out
                      else out)
           in gtk_walk gtk_dec decrypted_length (i + unat ent_size) out
      else out)"
  by pat_completeness auto
termination
  by (relation "measure (\<lambda>(g, n, i, out). n - i)") auto

declare gtk_walk.simps [simp del]

definition wpa_decrypt_gtk :: "bool \<Rightarrow> (nat \<Rightarrow> u8) \<Rightarrow> bytes \<Rightarrow> bytes \<Rightarrow> gtk_keyinfo" where
  "wpa_decrypt_gtk heap stk key data =
     (let kw_ctx = mbedtls_nist_kw_init;
          (ret, kw_ctx) = mbedtls_nist_kw_setkey heap kw_ctx MBEDTLS_CIPHER_ID_AES key 128 False
      in case mbedtls_nist_kw_unwrap (mbedtls_cipher_update kw_ctx) MBEDTLS_KW_MODE_KW data 0x200 of
        (ret, decrypted_length, output) \<Rightarrow>
          gtk_of_bytes (gtk_walk (\<lambda>i. if i < length output then output ! i else stk i)
                          decrypted_length 0 (replicate 38 0)))"

subsection \<open>The pairwise key is the PRF of 802.11i, the same on both sides\<close>

text \<open>The order of the standard is the lexicographic one.\<close>

lemma a_is_max_less: "length a = length b \<Longrightarrow> a_is_max a b \<longleftrightarrow> b < a"
  by (induction a b rule: a_is_max.induct) auto

lemma get_arr_min_max:
  assumes "length a = length b"
  shows "get_arr_min a b = min a b" "get_arr_max a b = max a b"
  using assms by (auto simp: get_arr_min_def get_arr_max_def a_is_max_less min_def max_def)

text \<open>PRF-512 of IEEE 802.11i: \<open>HMAC(K, A 0 B i)\<close> for \<open>i\<close> from 0, cut to 512 bits.\<close>

definition prf_512 :: "bytes \<Rightarrow> bytes \<Rightarrow> bytes \<Rightarrow> bytes" where
  "prf_512 k a b = take 64 (concat (map (\<lambda>i. hmac_sha1 k (a @ [0] @ b @ [of_nat i])) [0..<4]))"

lemma hmac_init: "length key < 2 ^ 32 \<Longrightarrow> length m < 2 ^ 32 \<Longrightarrow>
    sha1_hmac mbedtls_sha1_init key m = hmac_sha1 key m"
  by (rule sha1_hmac_rfc2104) (simp_all add: mbedtls_sha1_init_def)

lemma wpa_calc_ptk_prf:
  assumes len: "length dm = 6" "length am = 6" "length dn = 32" "length an = 32" "length pmk = 32"
  shows "wpa_calc_ptk dm am dn an pmk =
     ptk_of_bytes (prf_512 pmk (map of_char ''Pairwise key expansion'')
       (min dm am @ max dm am @ min dn an @ max dn an))"
proof -
  let ?d = "\<lambda>i. ptk_label @ min dm am @ max dm am @ min dn an @ max dn an @ [i]"
  have upd: "(?d i)[length (?d i) - 1 := j] = ?d j" for i j
    using list_update_length [of "ptk_label @ min dm am @ max dm am @ min dn an @ max dn an" i "[]" j]
    by simp
  have l: "length (?d i) < 2 ^ 32" for i
    using len by (simp add: ptk_label_def min_def max_def)
  have h: "sha1_hmac mbedtls_sha1_init pmk (?d i) = hmac_sha1 pmk (?d i)" for i
    by (rule hmac_init [OF _ l]) (use len in simp)
  have mm: "get_arr_min dm am = min dm am" "get_arr_max dm am = max dm am"
    "get_arr_min an dn = min dn an" "get_arr_max an dn = max dn an"
    using len by (simp_all add: get_arr_min_max min.commute max.commute)
  show ?thesis
    unfolding wpa_calc_ptk_def Let_def mm upd h prf_512_def
    by (simp add: ptk_label_def numeral_eq_Suc)
qed

lemma wpa_calc_ptk_sym:
  assumes "length m1 = 6" "length m2 = 6" "length n1 = 32" "length n2 = 32" "length pmk = 32"
  shows "wpa_calc_ptk m1 m2 n1 n2 pmk = wpa_calc_ptk m2 m1 n2 n1 pmk"
  using assms by (simp add: wpa_calc_ptk_prf min.commute max.commute)

lemma length_wpa_calc_mic:
  "length k < 2 ^ 32 \<Longrightarrow> length m < 2 ^ 32 \<Longrightarrow> length (wpa_calc_mic k m) = 16"
  by (simp add: wpa_calc_mic_def hmac_init)

subsection \<open>The group key\<close>

text \<open>Key data: a sequence of elements of type, length and body.\<close>

definition kde :: "u8 \<times> bytes \<Rightarrow> bytes" where
  "kde e = (case e of (t, d) \<Rightarrow> t # of_nat (length d) # d)"

definition is_gtk_kde :: "u8 \<times> bytes \<Rightarrow> bool" where
  "is_gtk_kde e \<longleftrightarrow> (case e of (t, d) \<Rightarrow> t = 0xDD \<and> take 4 d = [0x00, 0x0F, 0xAC, 0x01]
     \<and> (length d = 0x16 \<or> length d = 0x26))"

lemma map_view_append:
  assumes "\<And>j. j < length (pre @ d @ rest) \<Longrightarrow> g j = (pre @ d @ rest) ! j" "k \<le> length d"
  shows "map (\<lambda>j. g (length pre + j)) [0..<k] = take k d"
  using assms by (intro nth_equalityI) (auto simp: nth_append)

lemma gtk_walk_kdes:
  assumes "\<And>j. j < length (pre @ concat (map kde es)) \<Longrightarrow> g j = (pre @ concat (map kde es)) ! j"
    and "\<forall>(t, d) \<in> set es. length d < 256"
  shows "gtk_walk g (length (pre @ concat (map kde es))) (length pre) out
     = fold (\<lambda>e out. if is_gtk_kde e then overwrite 0 (snd e) out else out) es out"
  using assms
proof (induction es arbitrary: pre out)
  case Nil
  then show ?case by (simp add: gtk_walk.simps)
next
  case (Cons e es)
  obtain t d where e: "e = (t, d)" by fastforce
  let ?p = "pre @ kde e" and ?rest = "concat (map kde es)"
  let ?all = "?p @ ?rest"
  have d: "length d < 256" "unat (of_nat (length d) :: u8) = length d"
    using Cons.prems(2) e by (auto simp: unat_of_nat)
  have g: "g j = ?all ! j" if "j < length ?all" for j using Cons.prems(1) [of j] that by simp
  have g0: "g (length pre) = t" and g1: "g (length pre + 1) = of_nat (length d)"
    using g [of "length pre"] g [of "length pre + 1"] by (simp_all add: e kde_def nth_append)
  have g2: "map (\<lambda>j. g (length pre + 2 + j)) [0..<k] = take k d" if "k \<le> length d" for k
    using map_view_append [of "pre @ [t, of_nat (length d)]" d ?rest g k] g that
    by (simp add: e kde_def)
  have len: "length ?p = length pre + 2 + length d" by (simp add: e kde_def)
  have cond: "t = 0xDD \<and> map (\<lambda>j. g (length pre + 2 + j)) [0..<4] = [0x00, 0x0F, 0xAC, 0x01]
       \<and> ((of_nat (length d) :: u8) = 0x16 \<or> (of_nat (length d) :: u8) = 0x26) \<longleftrightarrow> is_gtk_kde e"
  proof -
    have "(of_nat (length d) :: u8) = 0x16 \<longleftrightarrow> length d = 0x16"
      "(of_nat (length d) :: u8) = 0x26 \<longleftrightarrow> length d = 0x26"
      using d(2) by (auto simp: word_unat_eq_iff)
    with g2 [of 4] show ?thesis unfolding is_gtk_kde_def e by auto
  qed
  let ?out = "if is_gtk_kde e then overwrite 0 (snd e) out else out"
  have "gtk_walk g (length ?all) (length pre) out = gtk_walk g (length ?all) (length ?p) ?out"
    unfolding gtk_walk.simps [of g _ "length pre"] Let_def g0 g1 cond
    using g2 [of "length d"] len d(2) by (simp add: e)
  also have "\<dots> = fold (\<lambda>e out. if is_gtk_kde e then overwrite 0 (snd e) out else out) es ?out"
    using Cons.prems(2) by (intro Cons.IH g) auto
  finally show ?case by simp
qed

lemma wpa_decrypt_gtk_eq:
  "wpa_decrypt_gtk heap stk key data =
     (case mbedtls_nist_kw_unwrap (mbedtls_cipher_update (snd (mbedtls_nist_kw_setkey heap mbedtls_nist_kw_init
         MBEDTLS_CIPHER_ID_AES key 128 False))) MBEDTLS_KW_MODE_KW data 0x200 of
        (ret, decrypted_length, output) \<Rightarrow>
          gtk_of_bytes (gtk_walk (\<lambda>i. if i < length output then output ! i else stk i)
                          decrypted_length 0 (replicate 38 0)))"
  unfolding wpa_decrypt_gtk_def Let_def by (simp only: split_beta)

text \<open>The authenticator wraps under the same key.\<close>

definition wrap_key_data :: "bytes \<Rightarrow> bytes \<Rightarrow> u32 \<times> nat \<times> bytes" where
  "wrap_key_data key p = mbedtls_nist_kw_wrap (mbedtls_cipher_update (kw_context True key)) MBEDTLS_KW_MODE_KW p (length p + 8)"

lemma wpa_decrypt_gtk_wrapped:
  assumes k: "length k = 16" and es: "\<forall>(t, d) \<in> set es. length d < 256"
    and p: "p = concat (map kde es)" "16 \<le> length p" "8 dvd length p" "length p \<le> 0x200"
    and c: "wrap_key_data k p = (0, n, c)"
  shows "wpa_decrypt_gtk True stk k c = gtk_of_bytes
     (fold (\<lambda>e out. if is_gtk_kde e then overwrite 0 (snd e) out else out) es (replicate 38 0))"
proof -
  have key: "key_ok k" "128 = 8 * length k" using k by (simp_all add: key_ok_def)
  have "mbedtls_nist_kw_unwrap (mbedtls_cipher_update (kw_context False k)) MBEDTLS_KW_MODE_KW c 0x200 = (0, length p, p)"
    using kw_unwrap_wrap [OF kw_inverse_ciphers [OF key(1)] p(2,3), of "length p + 8" "0x200"] p(4) c
    by (auto simp: wrap_key_data_def)
  then show ?thesis
    unfolding p(1)
    using gtk_walk_kdes [of "[]" es
        "\<lambda>i. if i < length (concat (map kde es)) then concat (map kde es) ! i else stk i"] es
    by (simp add: wpa_decrypt_gtk_eq key(2))
qed

text \<open>When the key data does not unwrap the result is the all-zero key, and nobody is told.\<close>

lemma wpa_decrypt_gtk_forged:
  assumes "fst (mbedtls_nist_kw_unwrap (mbedtls_cipher_update (snd (mbedtls_nist_kw_setkey heap mbedtls_nist_kw_init
      MBEDTLS_CIPHER_ID_AES k 128 False))) MBEDTLS_KW_MODE_KW c 0x200) \<noteq> 0"
  shows "wpa_decrypt_gtk heap stk k c = gtk_of_bytes (replicate 38 0)"
proof -
  let ?ctx = "snd (mbedtls_nist_kw_setkey heap mbedtls_nist_kw_init MBEDTLS_CIPHER_ID_AES k 128 False)"
  obtain ret n out where u: "mbedtls_nist_kw_unwrap (mbedtls_cipher_update ?ctx) MBEDTLS_KW_MODE_KW c 0x200 = (ret, n, out)"
    by (metis prod_cases3)
  with kw_unwrap_failure [OF kw_block_sized u] assms have "n = 0" by simp
  with u show ?thesis by (simp add: wpa_decrypt_gtk_eq gtk_walk.simps)
qed

end
