(* ===== verification/Md.thy ===== *)
theory Md
  imports Sha1
begin

text \<open>
  The digest layer (\<^verbatim>\<open>crypto/md.twl.c\<close>): contexts that carry a digest and, for HMAC, the two padded keys. SHA-1 is the only
  digest this configuration has. Functions return the library's code, 0 for success. \<open>heap i\<close> says whether the \<open>i\<close>-th
  \<^verbatim>\<open>calloc\<close> finds memory. Releasing a context (\<^verbatim>\<open>mbedtls_md_free\<close>) only returns its memory to the heap.
\<close>

subsection \<open>The code\<close>

abbreviation (input) MBEDTLS_ERR_MD_BAD_INPUT_DATA :: u32 where "MBEDTLS_ERR_MD_BAD_INPUT_DATA \<equiv> - 0x5100"
abbreviation (input) MBEDTLS_ERR_MD_ALLOC_FAILED :: u32 where "MBEDTLS_ERR_MD_ALLOC_FAILED \<equiv> - 0x5180"

datatype mbedtls_md_type_t = MBEDTLS_MD_NONE | MBEDTLS_MD_MD5 | MBEDTLS_MD_SHA1 | MBEDTLS_MD_SHA224
  | MBEDTLS_MD_SHA256 | MBEDTLS_MD_SHA384 | MBEDTLS_MD_SHA512 | MBEDTLS_MD_RIPEMD160

record mbedtls_md_info_t =
  md_name :: string
  md_type :: mbedtls_md_type_t
  md_size :: nat
  md_block_size :: nat

record mbedtls_md_context_t =
  md_info :: "mbedtls_md_info_t option"
  md_ctx :: "mbedtls_sha1_context option"
  hmac_ctx :: "bytes option"

definition mbedtls_sha1_info :: mbedtls_md_info_t where
  "mbedtls_sha1_info = \<lparr>md_name = ''SHA1'', md_type = MBEDTLS_MD_SHA1, md_size = 20, md_block_size = 64\<rparr>"

definition mbedtls_md_list :: "mbedtls_md_type_t list" where
  "mbedtls_md_list = [MBEDTLS_MD_SHA1, MBEDTLS_MD_NONE]"

definition mbedtls_md_info_from_type :: "mbedtls_md_type_t \<Rightarrow> mbedtls_md_info_t option" where
  "mbedtls_md_info_from_type t = (case t of MBEDTLS_MD_SHA1 \<Rightarrow> Some mbedtls_sha1_info | _ \<Rightarrow> None)"

definition mbedtls_md_info_from_string :: "string option \<Rightarrow> mbedtls_md_info_t option" where
  "mbedtls_md_info_from_string name =
     (case name of None \<Rightarrow> None
      | Some s \<Rightarrow> if s = ''SHA1'' \<or> s = ''SHA'' then mbedtls_md_info_from_type MBEDTLS_MD_SHA1 else None)"

definition mbedtls_md_get_size :: "mbedtls_md_info_t option \<Rightarrow> nat" where
  "mbedtls_md_get_size info = (case info of None \<Rightarrow> 0 | Some i \<Rightarrow> md_size i)"

definition mbedtls_md_get_type :: "mbedtls_md_info_t option \<Rightarrow> mbedtls_md_type_t" where
  "mbedtls_md_get_type info = (case info of None \<Rightarrow> MBEDTLS_MD_NONE | Some i \<Rightarrow> md_type i)"

definition mbedtls_md_get_name :: "mbedtls_md_info_t option \<Rightarrow> string option" where
  "mbedtls_md_get_name info = map_option md_name info"

definition mbedtls_md_init :: mbedtls_md_context_t where
  "mbedtls_md_init = \<lparr>md_info = None, md_ctx = None, hmac_ctx = None\<rparr>"

text \<open>The contexts of the digest are objects of their own; cloning copies the one of the source into the one of the destination.\<close>

definition mbedtls_md_clone :: "mbedtls_md_context_t \<Rightarrow> mbedtls_md_context_t \<Rightarrow> u32 \<times> mbedtls_md_context_t" where
  "mbedtls_md_clone dst src =
     (if md_info dst = None \<or> md_info src = None \<or> md_info dst \<noteq> md_info src then (MBEDTLS_ERR_MD_BAD_INPUT_DATA, dst)
      else if mbedtls_md_get_type (md_info src) = MBEDTLS_MD_SHA1
      then (0, dst\<lparr>md_ctx := map_option mbedtls_sha1_clone (md_ctx src)\<rparr>)
      else (MBEDTLS_ERR_MD_BAD_INPUT_DATA, dst))"

definition mbedtls_md_setup ::
  "(nat \<Rightarrow> bool) \<Rightarrow> mbedtls_md_context_t \<Rightarrow> mbedtls_md_info_t option \<Rightarrow> bool \<Rightarrow> u32 \<times> mbedtls_md_context_t" where
  "mbedtls_md_setup heap ctx info hmac =
     (case info of None \<Rightarrow> (MBEDTLS_ERR_MD_BAD_INPUT_DATA, ctx)
      | Some i \<Rightarrow>
          let ctx = ctx\<lparr>md_info := info, md_ctx := None, hmac_ctx := None\<rparr> in
          if md_type i \<noteq> MBEDTLS_MD_SHA1 then (MBEDTLS_ERR_MD_BAD_INPUT_DATA, ctx)
          else if \<not> heap 0 then (MBEDTLS_ERR_MD_ALLOC_FAILED, ctx)
          else
            let ctx = ctx\<lparr>md_ctx := Some mbedtls_sha1_init\<rparr> in
            if hmac
            then if \<not> heap 1 then (MBEDTLS_ERR_MD_ALLOC_FAILED, ctx)
                 else (0, ctx\<lparr>hmac_ctx := Some (replicate (2 * md_block_size i) 0)\<rparr>)
            else (0, ctx))"

text \<open>
  A context that \<^verbatim>\<open>mbedtls_md_setup\<close> accepted has its digest context; \<open>with_sha1\<close> is the \<^verbatim>\<open>switch\<close> the four functions
  on it share.
\<close>

definition with_sha1 ::
  "mbedtls_md_context_t \<Rightarrow> (mbedtls_sha1_context \<Rightarrow> bytes \<times> mbedtls_sha1_context) \<Rightarrow> u32 \<times> bytes \<times> mbedtls_md_context_t" where
  "with_sha1 ctx f =
     (case (md_info ctx, md_ctx ctx) of
        (Some i, Some c) \<Rightarrow>
          if md_type i = MBEDTLS_MD_SHA1 then (case f c of (output, c) \<Rightarrow> (0, output, ctx\<lparr>md_ctx := Some c\<rparr>))
          else (MBEDTLS_ERR_MD_BAD_INPUT_DATA, [], ctx)
      | _ \<Rightarrow> (MBEDTLS_ERR_MD_BAD_INPUT_DATA, [], ctx))"

definition mbedtls_md_starts :: "mbedtls_md_context_t \<Rightarrow> u32 \<times> mbedtls_md_context_t" where
  "mbedtls_md_starts ctx = (case with_sha1 ctx (\<lambda>c. ([], mbedtls_sha1_starts c)) of (ret, _, ctx) \<Rightarrow> (ret, ctx))"

definition mbedtls_md_update :: "mbedtls_md_context_t \<Rightarrow> bytes \<Rightarrow> u32 \<times> mbedtls_md_context_t" where
  "mbedtls_md_update ctx input = (case with_sha1 ctx (\<lambda>c. ([], mbedtls_sha1_update c input)) of (ret, _, ctx) \<Rightarrow> (ret, ctx))"

definition mbedtls_md_finish :: "mbedtls_md_context_t \<Rightarrow> u32 \<times> bytes \<times> mbedtls_md_context_t" where
  "mbedtls_md_finish ctx = with_sha1 ctx mbedtls_sha1_finish"

definition mbedtls_md_process :: "mbedtls_md_context_t \<Rightarrow> bytes \<Rightarrow> u32 \<times> mbedtls_md_context_t" where
  "mbedtls_md_process ctx data =
     (case with_sha1 ctx (\<lambda>c. ([], mbedtls_internal_sha1_process c data)) of (ret, _, ctx) \<Rightarrow> (ret, ctx))"

definition mbedtls_md :: "mbedtls_md_info_t option \<Rightarrow> bytes \<Rightarrow> u32 \<times> bytes" where
  "mbedtls_md info input =
     (case info of None \<Rightarrow> (MBEDTLS_ERR_MD_BAD_INPUT_DATA, [])
      | Some i \<Rightarrow> if md_type i = MBEDTLS_MD_SHA1 then (0, mbedtls_sha1 input) else (MBEDTLS_ERR_MD_BAD_INPUT_DATA, []))"

text \<open>Storing the padded keys, and the inner one as the first input.\<close>

definition hmac_pads :: "mbedtls_md_info_t \<Rightarrow> bytes \<Rightarrow> mbedtls_md_context_t \<Rightarrow> u32 \<times> mbedtls_md_context_t" where
  "hmac_pads i key ctx =
     (let ipad = xor_key key (replicate (md_block_size i) 0x36);
          opad = xor_key key (replicate (md_block_size i) 0x5C);
          (ret, ctx) = mbedtls_md_starts (ctx\<lparr>hmac_ctx := Some (ipad @ opad)\<rparr>)
      in if ret \<noteq> 0 then (ret, ctx) else mbedtls_md_update ctx ipad)"

definition mbedtls_md_hmac_starts :: "mbedtls_md_context_t \<Rightarrow> bytes \<Rightarrow> u32 \<times> mbedtls_md_context_t" where
  "mbedtls_md_hmac_starts ctx key =
     (case (md_info ctx, hmac_ctx ctx) of
        (Some i, Some pads) \<Rightarrow>
          if length key > md_block_size i then
            (case mbedtls_md_starts ctx of (ret, ctx) \<Rightarrow> if ret \<noteq> 0 then (ret, ctx) else
             case mbedtls_md_update ctx key of (ret, ctx) \<Rightarrow> if ret \<noteq> 0 then (ret, ctx) else
             case mbedtls_md_finish ctx of (ret, digest, ctx) \<Rightarrow> if ret \<noteq> 0 then (ret, ctx) else
               hmac_pads i (take (md_size i) digest) ctx)
          else hmac_pads i key ctx
      | _ \<Rightarrow> (MBEDTLS_ERR_MD_BAD_INPUT_DATA, ctx))"

definition mbedtls_md_hmac_update :: "mbedtls_md_context_t \<Rightarrow> bytes \<Rightarrow> u32 \<times> mbedtls_md_context_t" where
  "mbedtls_md_hmac_update ctx input =
     (if md_info ctx = None \<or> hmac_ctx ctx = None then (MBEDTLS_ERR_MD_BAD_INPUT_DATA, ctx)
      else mbedtls_md_update ctx input)"

definition mbedtls_md_hmac_finish :: "mbedtls_md_context_t \<Rightarrow> u32 \<times> bytes \<times> mbedtls_md_context_t" where
  "mbedtls_md_hmac_finish ctx =
     (case (md_info ctx, hmac_ctx ctx) of
        (Some i, Some pads) \<Rightarrow>
          (case mbedtls_md_finish ctx of (ret, tmp, ctx) \<Rightarrow> if ret \<noteq> 0 then (ret, [], ctx) else
           case mbedtls_md_starts ctx of (ret, ctx) \<Rightarrow> if ret \<noteq> 0 then (ret, [], ctx) else
           case mbedtls_md_update ctx (take (md_block_size i) (drop (md_block_size i) pads)) of (ret, ctx) \<Rightarrow>
             if ret \<noteq> 0 then (ret, [], ctx) else
           case mbedtls_md_update ctx (take (md_size i) tmp) of (ret, ctx) \<Rightarrow> if ret \<noteq> 0 then (ret, [], ctx) else
             mbedtls_md_finish ctx)
      | _ \<Rightarrow> (MBEDTLS_ERR_MD_BAD_INPUT_DATA, [], ctx))"

definition mbedtls_md_hmac_reset :: "mbedtls_md_context_t \<Rightarrow> u32 \<times> mbedtls_md_context_t" where
  "mbedtls_md_hmac_reset ctx =
     (case (md_info ctx, hmac_ctx ctx) of
        (Some i, Some pads) \<Rightarrow>
          (case mbedtls_md_starts ctx of (ret, ctx) \<Rightarrow> if ret \<noteq> 0 then (ret, ctx) else
             mbedtls_md_update ctx (take (md_block_size i) pads))
      | _ \<Rightarrow> (MBEDTLS_ERR_MD_BAD_INPUT_DATA, ctx))"

definition mbedtls_md_hmac :: "(nat \<Rightarrow> bool) \<Rightarrow> mbedtls_md_info_t option \<Rightarrow> bytes \<Rightarrow> bytes \<Rightarrow> u32 \<times> bytes" where
  "mbedtls_md_hmac heap info key input =
     (if info = None then (MBEDTLS_ERR_MD_BAD_INPUT_DATA, []) else
      case mbedtls_md_setup heap mbedtls_md_init info True of (ret, ctx) \<Rightarrow> if ret \<noteq> 0 then (ret, []) else
      case mbedtls_md_hmac_starts ctx key of (ret, ctx) \<Rightarrow> if ret \<noteq> 0 then (ret, []) else
      case mbedtls_md_hmac_update ctx input of (ret, ctx) \<Rightarrow> if ret \<noteq> 0 then (ret, []) else
      case mbedtls_md_hmac_finish ctx of (ret, output, ctx) \<Rightarrow> (ret, output))"

subsection \<open>Keyed digests\<close>

text \<open>
  What a client of a keyed digest relies on: a context that has taken \<open>m\<close> since its last reset (\<open>taken c m\<close>) takes more,
  yields the code of all it has taken, and is empty again after a reset.
\<close>

locale keyed_digest =
  fixes upd :: "'c \<Rightarrow> bytes \<Rightarrow> u32 \<times> 'c" and fin :: "'c \<Rightarrow> u32 \<times> bytes \<times> 'c" and rst :: "'c \<Rightarrow> u32 \<times> 'c"
    and taken :: "'c \<Rightarrow> bytes \<Rightarrow> bool" and spent :: "'c \<Rightarrow> bool" and mac :: "bytes \<Rightarrow> bytes"
  assumes upd_ok: "taken c m \<Longrightarrow> length x < 2 ^ 32 \<Longrightarrow> fst (upd c x) = 0 \<and> taken (snd (upd c x)) (m @ x)"
    and fin_ok: "taken c m \<Longrightarrow> fst (fin c) = 0 \<and> fst (snd (fin c)) = mac m \<and> spent (snd (snd (fin c)))"
    and rst_ok: "spent c \<Longrightarrow> fst (rst c) = 0 \<and> taken (snd (rst c)) []"
begin

lemma upd_cases:
  assumes "taken c m" "length x < 2 ^ 32"
  obtains c' where "upd c x = (0, c')" "taken c' (m @ x)"
  using upd_ok [OF assms] by (cases "upd c x") auto

text \<open>Finishing and resetting gives the code and an empty context.\<close>

lemma code_cases:
  assumes "taken c m"
  obtains c1 c2 where "fin c = (0, mac m, c1)" "rst c1 = (0, c2)" "taken c2 []"
proof -
  obtain c1 where c1: "fin c = (0, mac m, c1)" "spent c1" using fin_ok [OF assms] by (cases "fin c") auto
  obtain c2 where "rst c1 = (0, c2)" "taken c2 []" using rst_ok [OF c1(2)] by (cases "rst c1") auto
  with c1 show thesis using that by blast
qed

end

subsection \<open>HMAC over SHA-1\<close>

lemma with_sha1_simps:
  assumes "md_info ctx = Some mbedtls_sha1_info" "md_ctx ctx = Some c"
  shows "mbedtls_md_starts ctx = (0, ctx\<lparr>md_ctx := Some (mbedtls_sha1_starts c)\<rparr>)"
    and "mbedtls_md_update ctx x = (0, ctx\<lparr>md_ctx := Some (mbedtls_sha1_update c x)\<rparr>)"
    and "mbedtls_md_finish ctx = (0, fst (mbedtls_sha1_finish c), ctx\<lparr>md_ctx := Some (snd (mbedtls_sha1_finish c))\<rparr>)"
  using assms by (simp_all add: mbedtls_md_starts_def mbedtls_md_update_def mbedtls_md_finish_def with_sha1_def split_beta
      mbedtls_sha1_info_def)

text \<open>The padded keys of a context, and what it has absorbed after the inner one.\<close>

abbreviation (input) inner :: "bytes \<Rightarrow> bytes" where "inner key \<equiv> map (\<lambda>b. b XOR 0x36) (hmac_key key)"
abbreviation (input) outer :: "bytes \<Rightarrow> bytes" where "outer key \<equiv> map (\<lambda>b. b XOR 0x5C) (hmac_key key)"

definition hmac_spent :: "bytes \<Rightarrow> mbedtls_md_context_t \<Rightarrow> bool" where
  "hmac_spent key ctx \<longleftrightarrow> md_info ctx = Some mbedtls_sha1_info \<and> hmac_ctx ctx = Some (inner key @ outer key)
     \<and> (\<exists>c. md_ctx ctx = Some c \<and> length (buffer c) = 64)"

definition hmac_taken :: "bytes \<Rightarrow> mbedtls_md_context_t \<Rightarrow> bytes \<Rightarrow> bool" where
  "hmac_taken key ctx m \<longleftrightarrow> hmac_spent key ctx \<and> (\<exists>c. md_ctx ctx = Some c \<and> absorbed c (inner key @ m))"

lemma hmac_pads_taken:
  assumes "md_info ctx = Some mbedtls_sha1_info" "md_ctx ctx = Some c" "length (buffer c) = 64"
    and "\<And>b. xor_key k (replicate 64 b) = map (\<lambda>x. x XOR b) (hmac_key key)"
  shows "\<exists>ctx'. hmac_pads mbedtls_sha1_info k ctx = (0, ctx') \<and> hmac_taken key ctx' []"
proof -
  let ?c = "mbedtls_sha1_starts c"
  have "absorbed (mbedtls_sha1_update ?c (inner key)) (inner key)"
    using absorbed_update [OF absorbed_starts [OF assms(3)], of "inner key"] by simp
  then show ?thesis
    using assms unfolding hmac_pads_def
    by (simp add: Let_def with_sha1_simps hmac_taken_def hmac_spent_def mbedtls_sha1_info_def absorbed_def)
qed

lemma hmac_starts_taken:
  assumes "md_info ctx = Some mbedtls_sha1_info" "md_ctx ctx = Some c" "length (buffer c) = 64" "hmac_ctx ctx = Some p"
    and "length key < 2 ^ 32"
  shows "\<exists>ctx'. mbedtls_md_hmac_starts ctx key = (0, ctx') \<and> hmac_taken key ctx' []"
proof (cases "length key > 64")
  case True
  let ?c = "mbedtls_sha1_update (mbedtls_sha1_starts c) key"
  have a: "absorbed ?c key" using absorbed_update [OF absorbed_starts [OF assms(3)] assms(5)] by simp
  let ?d = "ctx\<lparr>md_ctx := Some (snd (mbedtls_sha1_finish ?c))\<rparr>"
  have "\<exists>ctx'. hmac_pads mbedtls_sha1_info (fips_sha1 key) ?d = (0, ctx') \<and> hmac_taken key ctx' []"
    by (rule hmac_pads_taken [where c = "snd (mbedtls_sha1_finish ?c)"])
      (use assms True sha1_finish_fips(2) [OF a] in \<open>simp_all add: xor_key_pad hmac_key_def Let_def\<close>)
  then show ?thesis
    using assms True sha1_finish_fips(1) [OF a] unfolding mbedtls_md_hmac_starts_def
    by (simp add: with_sha1_simps mbedtls_sha1_info_def)
next
  case False
  then show ?thesis
    using hmac_pads_taken [OF assms(1-3), of key key] assms unfolding mbedtls_md_hmac_starts_def
    by (simp add: mbedtls_sha1_info_def xor_key_pad hmac_key_def Let_def)
qed

lemma hmac_taken_cases:
  assumes "hmac_taken key ctx m"
  obtains c where "md_info ctx = Some mbedtls_sha1_info" "hmac_ctx ctx = Some (inner key @ outer key)" "md_ctx ctx = Some c"
    "length (buffer c) = 64" "absorbed c (inner key @ m)"
  using assms by (auto simp: hmac_taken_def hmac_spent_def)

lemma hmac_finish_code:
  assumes "hmac_taken key ctx m"
  shows "\<exists>ctx'. mbedtls_md_hmac_finish ctx = (0, hmac_sha1 key m, ctx') \<and> hmac_spent key ctx'"
proof -
  obtain c where c: "md_info ctx = Some mbedtls_sha1_info" "hmac_ctx ctx = Some (inner key @ outer key)" "md_ctx ctx = Some c"
    "length (buffer c) = 64" "absorbed c (inner key @ m)"
    using assms by (rule hmac_taken_cases)
  let ?d = "mbedtls_sha1_starts (snd (mbedtls_sha1_finish c))" and ?t = "fips_sha1 (inner key @ m)"
  have "absorbed ?d []" using sha1_finish_fips(2) [OF c(5)] by (rule absorbed_starts)
  then have "absorbed (mbedtls_sha1_update ?d (outer key)) (outer key)" using absorbed_update [of ?d "[]"] by simp
  then have a: "absorbed (mbedtls_sha1_update (mbedtls_sha1_update ?d (outer key)) ?t) (outer key @ ?t)"
    by (rule absorbed_update) simp
  have "md_block_size mbedtls_sha1_info = 64" "md_size mbedtls_sha1_info = 20" by (simp_all add: mbedtls_sha1_info_def)
  then show ?thesis
    using c(1-3) sha1_finish_fips(1) [OF c(5)] sha1_finish_fips(1,2) [OF a] unfolding mbedtls_md_hmac_finish_def
    by (simp add: with_sha1_simps hmac_spent_def hmac_sha1_def)
qed

lemma hmac_reset_taken:
  assumes "hmac_spent key ctx"
  shows "\<exists>ctx'. mbedtls_md_hmac_reset ctx = (0, ctx') \<and> hmac_taken key ctx' []"
proof -
  obtain c where c: "md_info ctx = Some mbedtls_sha1_info" "hmac_ctx ctx = Some (inner key @ outer key)" "md_ctx ctx = Some c"
    "length (buffer c) = 64" using assms by (auto simp: hmac_spent_def)
  have "absorbed (mbedtls_sha1_update (mbedtls_sha1_starts c) (inner key)) (inner key)"
    using absorbed_update [OF absorbed_starts [OF c(4)], of "inner key"] by simp
  moreover have "md_block_size mbedtls_sha1_info = 64" by (simp add: mbedtls_sha1_info_def)
  ultimately show ?thesis
    using c unfolding mbedtls_md_hmac_reset_def by (simp add: with_sha1_simps hmac_taken_def hmac_spent_def absorbed_def)
qed

lemma hmac_update_taken:
  assumes "hmac_taken key ctx m" "length x < 2 ^ 32"
  shows "\<exists>ctx'. mbedtls_md_hmac_update ctx x = (0, ctx') \<and> hmac_taken key ctx' (m @ x)"
proof -
  obtain c where c: "md_info ctx = Some mbedtls_sha1_info" "hmac_ctx ctx = Some (inner key @ outer key)" "md_ctx ctx = Some c"
    "length (buffer c) = 64" "absorbed c (inner key @ m)"
    using assms(1) by (rule hmac_taken_cases)
  have "absorbed (mbedtls_sha1_update c x) (inner key @ m @ x)" using absorbed_update [OF c(5) assms(2)] by simp
  then show ?thesis
    using c unfolding mbedtls_md_hmac_update_def by (simp add: with_sha1_simps hmac_taken_def hmac_spent_def absorbed_def)
qed

interpretation md_hmac: keyed_digest mbedtls_md_hmac_update mbedtls_md_hmac_finish mbedtls_md_hmac_reset
  "hmac_taken key" "hmac_spent key" "hmac_sha1 key" for key
  by unfold_locales (use hmac_update_taken hmac_finish_code hmac_reset_taken in fastforce)+

text \<open>A context set up for HMAC is ready for its key.\<close>

lemma md_setup_ready:
  assumes "heap 0" "heap 1" "length key < 2 ^ 32"
  shows "\<exists>c d. mbedtls_md_setup heap ctx (mbedtls_md_info_from_type MBEDTLS_MD_SHA1) True = (0, c)
     \<and> mbedtls_md_hmac_starts c key = (0, d) \<and> hmac_taken key d [] \<and> md_info c = Some mbedtls_sha1_info"
proof -
  let ?c = "ctx\<lparr>md_info := Some mbedtls_sha1_info, md_ctx := Some mbedtls_sha1_init, hmac_ctx := Some (replicate 128 0)\<rparr>"
  have "mbedtls_md_setup heap ctx (mbedtls_md_info_from_type MBEDTLS_MD_SHA1) True = (0, ?c)"
    using assms by (simp add: mbedtls_md_setup_def mbedtls_md_info_from_type_def mbedtls_sha1_info_def)
  moreover have "\<exists>d. mbedtls_md_hmac_starts ?c key = (0, d) \<and> hmac_taken key d []"
    by (rule hmac_starts_taken [where c = mbedtls_sha1_init]) (use assms in \<open>simp_all add: mbedtls_sha1_init_def\<close>)
  ultimately show ?thesis by auto
qed

lemma md_hmac_rfc2104:
  assumes "heap 0" "heap 1" "length key < 2 ^ 32" "length m < 2 ^ 32"
  shows "mbedtls_md_hmac heap (mbedtls_md_info_from_type MBEDTLS_MD_SHA1) key m = (0, hmac_sha1 key m)"
proof -
  obtain c d where c: "mbedtls_md_setup heap mbedtls_md_init (mbedtls_md_info_from_type MBEDTLS_MD_SHA1) True = (0, c)"
    "mbedtls_md_hmac_starts c key = (0, d)" "hmac_taken key d []"
    using md_setup_ready [OF assms(1-3)] by blast
  obtain e where e: "mbedtls_md_hmac_update d m = (0, e)" "hmac_taken key e ([] @ m)"
    by (rule md_hmac.upd_cases [OF c(3) assms(4)])
  obtain f g where "mbedtls_md_hmac_finish e = (0, hmac_sha1 key ([] @ m), f)" "mbedtls_md_hmac_reset f = (0, g)"
    by (rule md_hmac.code_cases [OF e(2)])
  moreover have "mbedtls_md_info_from_type MBEDTLS_MD_SHA1 \<noteq> None" by (simp add: mbedtls_md_info_from_type_def)
  ultimately show ?thesis using c e(1) unfolding mbedtls_md_hmac_def by (simp del: not_None_eq)
qed

end
