(* ===== verification/Machine.thy ===== *)
theory Machine
  imports Utils
begin

text \<open>
  The ARM7 machine the driver runs on. The hardware and the firmware of the wireless card
  are not part of the sources: they are the parameter \<open>hw\<close>, which answers every volatile
  read, incoming DMA transfer, flash read, allocation and \<^verbatim>\<open>rand()\<close> as a function of
  the whole history of the interaction. The same parameter carries what uninitialised stack
  memory holds and whether \<^verbatim>\<open>calloc\<close> finds memory for a cipher context (\<open>hw_calloc\<close>). The history is the trace \<open>tr\<close>, newest event first.
  Also here: the log channel of \<^verbatim>\<open>arm_iop/source/wifi_debug.twl.c\<close>, since every other
  component prints through it.
\<close>

subsection \<open>Hardware events and the hardware parameter\<close>

datatype event =
    R16 u32 u16          \<comment> \<open>volatile 16-bit load: address, value\<close>
  | R32 u32 u32
  | W16 u32 u16          \<comment> \<open>volatile 16-bit store: address, value\<close>
  | W32 u32 u32
  | DmaOut u32 bytes     \<comment> \<open>NDMA transfer memory to SDIO FIFO: source, data\<close>
  | DmaIn u32 bytes      \<comment> \<open>NDMA transfer SDIO FIFO to memory: destination, data\<close>
  | Fifo u32 bytes       \<comment> \<open>inter-processor message: cmd, rest of the structure\<close>
  | Rand u32             \<comment> \<open>result of rand()\<close>
  | Rtc bytes            \<comment> \<open>rtcTransaction\<close>
  | I2c u8 u8 u8         \<comment> \<open>i2cWriteRegister\<close>
  | IrqSet u32 | IrqOn u32 | IrqOff u32
  | Timer nat            \<comment> \<open>timerStart: tick frequency in Hz\<close>
  | Alloc u32            \<comment> \<open>memalign: result\<close>
  | Handler              \<comment> \<open>fifoSetDatamsgHandler\<close>

record hw =
  hw_r16 :: "event list \<Rightarrow> u32 \<Rightarrow> u16"
  hw_r32 :: "event list \<Rightarrow> u32 \<Rightarrow> u32"
  hw_dma :: "event list \<Rightarrow> nat \<Rightarrow> u8"
  hw_rand :: "event list \<Rightarrow> u32"
  hw_flash :: "u32 \<Rightarrow> u8"
  hw_alloc :: "event list \<Rightarrow> u32"
  hw_stack :: "event list \<Rightarrow> nat \<Rightarrow> u8"
  hw_calloc :: "event list \<Rightarrow> bool"

text \<open>\<^verbatim>\<open>wifi_sdio_ctx\<close> of \<^verbatim>\<open>wifi_sdio.h\<close>; pointers are addresses, NULL is 0.\<close>

record wifi_sdio_ctx =
  ctx_controller :: u32
  ctx_address :: u16
  ctx_port :: u8
  ctx_debug :: bool
  ctx_clk_cnt :: u32
  ctx_bus_width :: u8
  ctx_buffer :: u32
  ctx_size :: u32
  ctx_resp :: "u32 list"
  ctx_status :: u32
  ctx_stat0 :: u16
  ctx_stat1 :: u16
  ctx_err0 :: u16
  ctx_err1 :: u16
  ctx_block_size :: u16
  ctx_break_early :: bool

record machine =
  mem :: memory
  tr :: "event list"
  wifi_printf_allowed :: bool
  tmio :: wifi_sdio_ctx

definition emit :: "event \<Rightarrow> 'a machine_scheme \<Rightarrow> 'a machine_scheme" where
  "emit e s = s\<lparr>tr := e # tr s\<rparr>"

definition mmio_read16 :: "hw \<Rightarrow> u32 \<Rightarrow> 'a machine_scheme \<Rightarrow> u16 \<times> 'a machine_scheme" where
  "mmio_read16 h a s = (let v = hw_r16 h (tr s) a in (v, emit (R16 a v) s))"

definition mmio_read32 :: "hw \<Rightarrow> u32 \<Rightarrow> 'a machine_scheme \<Rightarrow> u32 \<times> 'a machine_scheme" where
  "mmio_read32 h a s = (let v = hw_r32 h (tr s) a in (v, emit (R32 a v) s))"

subsection \<open>Log messages\<close>

text \<open>Command numbers of \<^verbatim>\<open>include/dsiwifi_cmds.h\<close>.\<close>

definition WIFI_IPCCMD_INIT_IOP :: u32 where "WIFI_IPCCMD_INIT_IOP = 1"
definition WIFI_IPCCMD_INITBUFS :: u32 where "WIFI_IPCCMD_INITBUFS = 2"
definition WIFI_IPCCMD_SENDPKT :: u32 where "WIFI_IPCCMD_SENDPKT = 3"
definition WIFI_IPCCMD_GET_DEVICE_MAC :: u32 where "WIFI_IPCCMD_GET_DEVICE_MAC = 4"
definition WIFI_IPCCMD_GET_AP_MAC :: u32 where "WIFI_IPCCMD_GET_AP_MAC = 5"
definition WIFI_IPCINT_READY :: u32 where "WIFI_IPCINT_READY = 1"
definition WIFI_IPCINT_CONNECT :: u32 where "WIFI_IPCINT_CONNECT = 2"
definition WIFI_IPCINT_DEVICE_MAC :: u32 where "WIFI_IPCINT_DEVICE_MAC = 3"
definition WIFI_IPCINT_AP_MAC :: u32 where "WIFI_IPCINT_AP_MAC = 4"
definition WIFI_IPCINT_PKTDATA :: u32 where "WIFI_IPCINT_PKTDATA = 5"
definition WIFI_IPCINT_DBGLOG :: u32 where "WIFI_IPCINT_DBGLOG = 6"
definition WIFI_IPCINT_PKTSENT :: u32 where "WIFI_IPCINT_PKTSENT = 7"

lemmas ipc_cmd_defs =
  WIFI_IPCCMD_INIT_IOP_def WIFI_IPCCMD_INITBUFS_def WIFI_IPCCMD_SENDPKT_def
  WIFI_IPCCMD_GET_DEVICE_MAC_def WIFI_IPCCMD_GET_AP_MAC_def
  WIFI_IPCINT_READY_def WIFI_IPCINT_CONNECT_def WIFI_IPCINT_DEVICE_MAC_def
  WIFI_IPCINT_AP_MAC_def WIFI_IPCINT_PKTDATA_def WIFI_IPCINT_DBGLOG_def WIFI_IPCINT_PKTSENT_def

text \<open>
  The formats the driver passes to \<^verbatim>\<open>vsnprintf\<close>: literal text, \<^verbatim>\<open>%s\<close>, \<^verbatim>\<open>%u\<close>/\<^verbatim>\<open>%d\<close>
  and zero-padded hexadecimal in either case.
\<close>

datatype fmt = Lit string | Str bytes | Dec u32 | Hex nat u32 | HEX nat u32

definition ascii :: "string \<Rightarrow> bytes" where
  "ascii s = map of_char s"

definition digit :: "nat \<Rightarrow> nat \<Rightarrow> u8" where
  "digit a n = of_nat (if n < 10 then 48 + n else a + (n - 10))"

fun digits_of :: "nat \<Rightarrow> nat \<Rightarrow> nat \<Rightarrow> bytes" where
  "digits_of b a n =
     (if n < b \<or> b < 2 then [digit a n] else digits_of b a (n div b) @ [digit a (n mod b)])"

declare digits_of.simps [simp del]

definition zpad :: "nat \<Rightarrow> bytes \<Rightarrow> bytes" where
  "zpad w ds = replicate (w - length ds) 48 @ ds"

primrec render1 :: "fmt \<Rightarrow> bytes" where
  "render1 (Lit s) = ascii s"
| "render1 (Str bs) = takeWhile (\<lambda>b. b \<noteq> 0) bs"
| "render1 (Dec n) = digits_of 10 97 (unat n)"
| "render1 (Hex w n) = zpad w (digits_of 16 97 (unat n))"
| "render1 (HEX w n) = zpad w (digits_of 16 65 (unat n))"

definition vsnprintf :: "nat \<Rightarrow> fmt list \<Rightarrow> bytes" where
  "vsnprintf n fs = take (n - 1) (concat (map render1 fs))"

text \<open>\<^verbatim>\<open>strncpy\<close>: \<open>n\<close> bytes, zero-filled once the source string has ended.\<close>

definition strncpy :: "nat \<Rightarrow> bytes \<Rightarrow> bytes" where
  "strncpy n src = (let c = takeWhile (\<lambda>b. b \<noteq> 0) src in take n c @ replicate (n - length c) 0)"

definition log_chunk :: "bytes \<Rightarrow> nat \<Rightarrow> bytes" where
  "log_chunk ptr i = (strncpy 60 (drop i ptr))[59 := 0]"

function ipc_send_chunks :: "bytes \<Rightarrow> nat \<Rightarrow> 'a machine_scheme \<Rightarrow> 'a machine_scheme" where
  "ipc_send_chunks ptr i s =
     (if i \<le> length ptr
      then ipc_send_chunks ptr (i + 59) (emit (Fifo WIFI_IPCINT_DBGLOG (log_chunk ptr i)) s)
      else s)"
  by pat_completeness auto
termination
  by (relation "measure (\<lambda>(ptr, i, s). Suc (length ptr) - i)") auto

declare ipc_send_chunks.simps [simp del]

definition wifi_ipcSendStringAlt :: "bytes \<Rightarrow> 'a machine_scheme \<Rightarrow> 'a machine_scheme" where
  "wifi_ipcSendStringAlt ptr s =
     (if \<not> wifi_printf_allowed s then s else ipc_send_chunks ptr 0 s)"

definition wifi_printf :: "fmt list \<Rightarrow> 'a machine_scheme \<Rightarrow> 'a machine_scheme" where
  "wifi_printf fs s =
     (if \<not> wifi_printf_allowed s then s
      else wifi_ipcSendStringAlt (vsnprintf (0x7C - 1) fs) s)"

definition wifi_printlnf :: "fmt list \<Rightarrow> 'a machine_scheme \<Rightarrow> 'a machine_scheme" where
  "wifi_printlnf fs s =
     (if \<not> wifi_printf_allowed s then s
      else wifi_ipcSendStringAlt (vsnprintf (0x7C - 2) fs @ [10]) s)"

subsection \<open>Quiet steps\<close>

text \<open>
  Register traffic and log messages are what an operation does on the side. A step is quiet
  when it adds only such events, leaves memory and every field of the layers above alone and
  keeps the configuration of the SDIO context; status, responses and the transfer window of
  the context may change.
\<close>

primrec side_event :: "event \<Rightarrow> bool" where
  "side_event (R16 a v) = True"
| "side_event (R32 a v) = True"
| "side_event (W16 a v) = True"
| "side_event (W32 a v) = True"
| "side_event (DmaOut a bs) = False"
| "side_event (DmaIn a bs) = False"
| "side_event (Fifo c bs) = (c = WIFI_IPCINT_DBGLOG)"
| "side_event (Rand v) = False"
| "side_event (Rtc bs) = True"
| "side_event (I2c a b c) = True"
| "side_event (IrqSet v) = True"
| "side_event (IrqOn v) = True"
| "side_event (IrqOff v) = True"
| "side_event (Timer n) = True"
| "side_event (Alloc a) = True"
| "side_event Handler = True"

definition same_config :: "wifi_sdio_ctx \<Rightarrow> wifi_sdio_ctx \<Rightarrow> bool" where
  "same_config c d \<longleftrightarrow> ctx_controller d = ctx_controller c \<and> ctx_block_size d = ctx_block_size c
     \<and> ctx_port d = ctx_port c \<and> ctx_bus_width d = ctx_bus_width c \<and> ctx_clk_cnt d = ctx_clk_cnt c
     \<and> ctx_debug d = ctx_debug c \<and> ctx_address d = ctx_address c"

definition quiet :: "'a machine_scheme \<Rightarrow> 'a machine_scheme \<Rightarrow> bool" where
  "quiet s t \<longleftrightarrow> mem t = mem s \<and> machine.more t = machine.more s
     \<and> wifi_printf_allowed t = wifi_printf_allowed s \<and> same_config (tmio s) (tmio t)
     \<and> (\<exists>es. tr t = es @ tr s \<and> list_all side_event es)"

lemma same_config_refl [simp]: "same_config c c"
  by (simp add: same_config_def)

lemma same_config_trans: "same_config a b \<Longrightarrow> same_config b c \<Longrightarrow> same_config a c"
  by (simp add: same_config_def)

lemma quiet_refl [simp, intro]: "quiet s s"
  by (simp add: quiet_def)

lemma quiet_trans [trans]: "quiet s t \<Longrightarrow> quiet t u \<Longrightarrow> quiet s u"
  by (auto simp: quiet_def intro: same_config_trans)

lemma emit_simps [simp, frame_simps]:
  "mem (emit e s) = mem s" "tr (emit e s) = e # tr s" "tmio (emit e s) = tmio s"
  "wifi_printf_allowed (emit e s) = wifi_printf_allowed s"
  "machine.more (emit e s) = machine.more s"
  by (simp_all add: emit_def)

lemma quiet_emit: "side_event e \<Longrightarrow> quiet s (emit e s)"
  by (auto simp: quiet_def intro: exI [of _ "[e]"])

lemma quiet_tmio: "same_config (tmio s) c \<Longrightarrow> quiet s (s\<lparr>tmio := c\<rparr>)"
  by (simp add: quiet_def)

lemma quiet_same: "quiet s t \<Longrightarrow> mem t = mem s \<and> machine.more t = machine.more s
    \<and> wifi_printf_allowed t = wifi_printf_allowed s \<and> same_config (tmio s) (tmio t)"
  by (auto simp: quiet_def)

lemma quiet_ipc_send_chunks: "quiet s (ipc_send_chunks ptr i s)"
proof (induction ptr i s rule: ipc_send_chunks.induct)
  case (1 ptr i s)
  show ?case
  proof (cases "i \<le> length ptr")
    case True
    have "quiet s (emit (Fifo WIFI_IPCINT_DBGLOG (log_chunk ptr i)) s)"
      by (simp add: quiet_emit)
    also have "quiet \<dots> (ipc_send_chunks ptr (i + 59) \<dots>)"
      using 1 True by simp
    finally show ?thesis using True by (simp add: ipc_send_chunks.simps [of ptr i s])
  qed (simp add: ipc_send_chunks.simps [of ptr i s])
qed

lemma quiet_wifi_printf [intro]: "quiet s (wifi_printf fs s)"
  by (auto simp: wifi_printf_def wifi_ipcSendStringAlt_def intro: quiet_ipc_send_chunks)

lemma quiet_wifi_printlnf [intro]: "quiet s (wifi_printlnf fs s)"
  by (auto simp: wifi_printlnf_def wifi_ipcSendStringAlt_def intro: quiet_ipc_send_chunks)

lemma quiet_mmio_read16 [intro]: "quiet s (snd (mmio_read16 h a s))"
  by (simp add: mmio_read16_def Let_def quiet_emit)

lemma quiet_mmio_read32 [intro]: "quiet s (snd (mmio_read32 h a s))"
  by (simp add: mmio_read32_def Let_def quiet_emit)

subsection \<open>The log channel loses nothing\<close>

text \<open>What the ARM9 prints for a log message: the C string in its buffer.\<close>

definition c_string :: "bytes \<Rightarrow> bytes" where
  "c_string bs = takeWhile (\<lambda>b. b \<noteq> 0) bs"

primrec log_text :: "event list \<Rightarrow> bytes" where
  "log_text [] = []"
| "log_text (e # es) = log_text es
     @ (case e of Fifo c bs \<Rightarrow> if c = WIFI_IPCINT_DBGLOG then c_string bs else [] | _ \<Rightarrow> [])"

lemma length_strncpy [simp]: "length (strncpy n src) = n"
  by (simp add: strncpy_def Let_def)

lemma c_string_strncpy_chunk:
  assumes "0 \<notin> set ptr"
  shows "c_string (log_chunk ptr i) = take 59 (drop i ptr)"
proof -
  let ?d = "drop i ptr"
  have nz: "0 \<notin> set ?d" using assms by (meson in_set_dropD)
  have tw: "takeWhile (\<lambda>b. b \<noteq> 0) ?d = ?d"
    by (rule takeWhile_eq_all_conv [THEN iffD2]) (use nz in auto)
  have c: "log_chunk ptr i = take 59 ?d @ replicate (60 - min 59 (length ?d)) 0"
  proof (rule nth_equalityI)
    show "length (log_chunk ptr i) = length (take 59 ?d @ replicate (60 - min 59 (length ?d)) 0)"
      by (simp add: log_chunk_def)
  next
    fix k assume "k < length (log_chunk ptr i)"
    then have k: "k < 60" by (simp add: log_chunk_def)
    then show "log_chunk ptr i ! k = (take 59 ?d @ replicate (60 - min 59 (length ?d)) 0) ! k"
      unfolding log_chunk_def strncpy_def Let_def tw
      by (auto simp: nth_list_update nth_append min_def)
  qed
  have "0 \<notin> set (take 59 ?d)" using nz by (meson in_set_takeD)
  then have "takeWhile (\<lambda>b. b \<noteq> 0) (take 59 ?d @ replicate (Suc n) 0) = take 59 ?d" for n
    by (subst takeWhile_append2) auto
  moreover have "60 - min 59 (length ?d) = Suc (59 - min 59 (length ?d))" by simp
  ultimately show ?thesis unfolding c_string_def c by metis
qed

lemma log_text_emit_chunk:
  "0 \<notin> set ptr \<Longrightarrow>
   log_text (tr (emit (Fifo WIFI_IPCINT_DBGLOG (log_chunk ptr i)) s))
   = log_text (tr s) @ take 59 (drop i ptr)"
  by (simp add: c_string_strncpy_chunk)

lemma log_text_chunks:
  "0 \<notin> set ptr \<Longrightarrow> log_text (tr (ipc_send_chunks ptr i s)) = log_text (tr s) @ drop i ptr"
proof (induction ptr i s rule: ipc_send_chunks.induct)
  case (1 ptr i s)
  have "take 59 (drop i ptr) @ drop (i + 59) ptr = drop i ptr"
    by (metis add.commute append_take_drop_id drop_drop)
  then show ?case
    using 1 log_text_emit_chunk [OF "1.prems", of i s]
    by (simp add: ipc_send_chunks.simps [of ptr i s] del: log_text.simps emit_simps)
qed

end
