(* ===== verification/Pkcs5.thy ===== *)
theory Pkcs5
  imports Md Machine
begin

text \<open>
  Deriving the master key from a pass phrase: PBKDF2 (\<^verbatim>\<open>crypto/pkcs5.twl.c\<close>) and its use in \<^verbatim>\<open>ieee/wpa.twl.c\<close>. The outer loop runs until the key is
  long enough, which for a digest of size zero would be never; it is a partial function, \<open>None\<close> for no return. The reference definition is RFC 8018.
\<close>

subsection \<open>The code\<close>

text \<open>\<^verbatim>\<open>for( i = 1; i < iteration_count; i++ )\<close>; the buffers \<^verbatim>\<open>md1\<close> and \<^verbatim>\<open>work\<close> are their first \<open>n\<close> bytes, the size of the digest.\<close>

primrec pbkdf2_iterate ::
  "nat \<Rightarrow> nat \<Rightarrow> mbedtls_md_context_t \<Rightarrow> bytes \<Rightarrow> bytes \<Rightarrow> u32 \<times> bytes \<times> mbedtls_md_context_t" where
  "pbkdf2_iterate n 0 ctx md1 work = (0, work, ctx)"
| "pbkdf2_iterate n (Suc k) ctx md1 work =
     (case mbedtls_md_hmac_update ctx (take n md1) of (ret, ctx) \<Rightarrow> if ret \<noteq> 0 then (ret, work, ctx) else
      case mbedtls_md_hmac_finish ctx of (ret, md1, ctx) \<Rightarrow> if ret \<noteq> 0 then (ret, work, ctx) else
      case mbedtls_md_hmac_reset ctx of (ret, ctx) \<Rightarrow> if ret \<noteq> 0 then (ret, work, ctx) else
        pbkdf2_iterate n k ctx md1 (map2 (XOR) work md1))"

text \<open>One block of the key, which ends in \<^verbatim>\<open>work\<close>.\<close>

definition pbkdf2_block ::
  "nat \<Rightarrow> u32 \<Rightarrow> bytes \<Rightarrow> bytes \<Rightarrow> mbedtls_md_context_t \<Rightarrow> u32 \<times> bytes \<times> mbedtls_md_context_t" where
  "pbkdf2_block n iteration_count salt counter ctx =
     (case mbedtls_md_hmac_update ctx salt of (ret, ctx) \<Rightarrow> if ret \<noteq> 0 then (ret, [], ctx) else
      case mbedtls_md_hmac_update ctx counter of (ret, ctx) \<Rightarrow> if ret \<noteq> 0 then (ret, [], ctx) else
      case mbedtls_md_hmac_finish ctx of (ret, work, ctx) \<Rightarrow> if ret \<noteq> 0 then (ret, [], ctx) else
      case mbedtls_md_hmac_reset ctx of (ret, ctx) \<Rightarrow> if ret \<noteq> 0 then (ret, [], ctx) else
        pbkdf2_iterate n (unat iteration_count - 1) ctx (take n work) work)"

text \<open>\<^verbatim>\<open>for( i = 4; i > 0; i-- ) if( ++counter[i - 1] != 0 ) break;\<close>\<close>

primrec inc_counter :: "nat \<Rightarrow> bytes \<Rightarrow> bytes" where
  "inc_counter 0 counter = counter"
| "inc_counter (Suc i) counter =
     (let counter = counter[i := counter ! i + 1]
      in if counter ! i \<noteq> 0 then counter else inc_counter i counter)"

partial_function (option) pbkdf2_loop ::
  "nat \<Rightarrow> u32 \<Rightarrow> bytes \<Rightarrow> nat \<Rightarrow> bytes \<Rightarrow> bytes \<Rightarrow> mbedtls_md_context_t \<Rightarrow> (u32 \<times> bytes) option" where
  "pbkdf2_loop n iteration_count salt key_length counter output ctx =
     (if key_length = 0 then Some (0, output)
      else case pbkdf2_block n iteration_count salt counter ctx of (ret, work, ctx) \<Rightarrow>
        if ret \<noteq> 0 then Some (ret, output)
        else let use_len = (if key_length < n then key_length else n)
             in pbkdf2_loop n iteration_count salt (key_length - use_len) (inc_counter 4 counter)
                  (output @ take use_len work) ctx)"

definition mbedtls_pkcs5_pbkdf2_hmac ::
  "mbedtls_md_context_t \<Rightarrow> bytes \<Rightarrow> bytes \<Rightarrow> u32 \<Rightarrow> u32 \<Rightarrow> (u32 \<times> bytes) option" where
  "mbedtls_pkcs5_pbkdf2_hmac ctx password salt iteration_count key_length =
     (case mbedtls_md_hmac_starts ctx password of (ret, ctx') \<Rightarrow>
        if ret \<noteq> 0 then Some (ret, [])
        else pbkdf2_loop (mbedtls_md_get_size (md_info ctx)) iteration_count salt (unat key_length) [0, 0, 0, 1] [] ctx')"

text \<open>The context is a local variable: \<open>ctx\<close> is what the stack holds.\<close>

definition PBKDF2_HMAC_SHA_1 ::
  "(nat \<Rightarrow> bool) \<Rightarrow> mbedtls_md_context_t \<Rightarrow> bytes \<Rightarrow> bytes \<Rightarrow> u32 \<Rightarrow> u32 \<Rightarrow> (u32 \<times> bytes) option" where
  "PBKDF2_HMAC_SHA_1 heap ctx pass salt iterations outputBytes =
     (let info_sha1 = mbedtls_md_info_from_type MBEDTLS_MD_SHA1 in
      if info_sha1 = None then Some (104, [])
      else case mbedtls_md_setup heap ctx info_sha1 True of (ret, ctx) \<Rightarrow>
        if ret \<noteq> 0 then Some (1, [])
        else map_option (\<lambda>(ret, out). if ret \<noteq> 0 then (102, out) else (0, out))
               (mbedtls_pkcs5_pbkdf2_hmac ctx (c_string pass) (c_string salt) iterations outputBytes))"

text \<open>The bytes written over the caller's \<^verbatim>\<open>pmk\<close>.\<close>

definition wpa_calc_pmk :: "(nat \<Rightarrow> bool) \<Rightarrow> mbedtls_md_context_t \<Rightarrow> bytes \<Rightarrow> bytes \<Rightarrow> bytes option" where
  "wpa_calc_pmk heap ctx ssid pass = map_option snd (PBKDF2_HMAC_SHA_1 heap ctx pass ssid 4096 32)"

subsection \<open>RFC 8018\<close>

text \<open>\<open>rfc_U\<close> is the sequence of codes of a block, \<open>rfc_F\<close> their sum, \<open>rfc_pbkdf2\<close> the derived key.\<close>

primrec rfc_U :: "(bytes \<Rightarrow> bytes) \<Rightarrow> bytes \<Rightarrow> nat \<Rightarrow> nat \<Rightarrow> bytes" where
  "rfc_U prf salt i 0 = prf (salt @ put_uint32_be (of_nat i))"
| "rfc_U prf salt i (Suc j) = prf (rfc_U prf salt i j)"

definition rfc_F :: "(bytes \<Rightarrow> bytes) \<Rightarrow> bytes \<Rightarrow> nat \<Rightarrow> nat \<Rightarrow> bytes" where
  "rfc_F prf salt c i = foldl (map2 (XOR)) (rfc_U prf salt i 0) (map (rfc_U prf salt i) [1..<c])"

definition rfc_pbkdf2 :: "(bytes \<Rightarrow> bytes) \<Rightarrow> nat \<Rightarrow> bytes \<Rightarrow> nat \<Rightarrow> nat \<Rightarrow> bytes" where
  "rfc_pbkdf2 prf hlen salt c dklen =
     take dklen (concat (map (rfc_F prf salt c) [1..<Suc ((dklen + hlen - 1) div hlen)]))"

subsection \<open>The iterations of a block\<close>

lemma pbkdf2_iterate_rfc:
  assumes "hmac_taken key ctx []" "md1 = rfc_U (hmac_sha1 key) salt i j" "length md1 = 20"
  shows "\<exists>ctx'. pbkdf2_iterate 20 k ctx md1 work
      = (0, foldl (map2 (XOR)) work (map (rfc_U (hmac_sha1 key) salt i) [Suc j..<Suc j + k]), ctx') \<and> hmac_taken key ctx' []"
  using assms
proof (induction k arbitrary: ctx md1 work j)
  case (Suc k)
  obtain c1 where c1: "mbedtls_md_hmac_update ctx md1 = (0, c1)" "hmac_taken key c1 ([] @ md1)"
    by (rule md_hmac.upd_cases [OF Suc.prems(1), of md1]) (use Suc.prems(3) in simp_all)
  obtain c2 c3 where c3: "mbedtls_md_hmac_finish c1 = (0, hmac_sha1 key ([] @ md1), c2)" "mbedtls_md_hmac_reset c2 = (0, c3)"
    "hmac_taken key c3 []" by (rule md_hmac.code_cases [OF c1(2)])
  have u: "hmac_sha1 key md1 = rfc_U (hmac_sha1 key) salt i (Suc j)" using Suc.prems(2) by simp
  have "[Suc j..<Suc j + Suc k] = Suc j # [Suc (Suc j)..<Suc (Suc j) + k]" by (simp add: upt_conv_Cons del: upt_Suc)
  then show ?case
    using Suc.IH [OF c3(3) u, of "map2 (XOR) work (hmac_sha1 key md1)"] c1(1) c3(1,2) Suc.prems(3)
    by (simp add: u [symmetric] del: upt_Suc rfc_U.simps)
qed simp

lemma pbkdf2_block_rfc:
  assumes "hmac_taken key ctx []" "length salt < 2 ^ 32"
  shows "\<exists>ctx'. pbkdf2_block 20 c salt (put_uint32_be (of_nat i)) ctx = (0, rfc_F (hmac_sha1 key) salt (unat c) i, ctx') \<and> hmac_taken key ctx' []"
proof -
  obtain c1 where c1: "mbedtls_md_hmac_update ctx salt = (0, c1)" "hmac_taken key c1 ([] @ salt)"
    by (rule md_hmac.upd_cases [OF assms])
  obtain c2 where c2: "mbedtls_md_hmac_update c1 (put_uint32_be (of_nat i)) = (0, c2)" "hmac_taken key c2 (([] @ salt) @ put_uint32_be (of_nat i))"
    by (rule md_hmac.upd_cases [OF c1(2), of "put_uint32_be (of_nat i)"]) simp_all
  obtain c3 c4 where c4: "mbedtls_md_hmac_finish c2 = (0, hmac_sha1 key (([] @ salt) @ put_uint32_be (of_nat i)), c3)"
    "mbedtls_md_hmac_reset c3 = (0, c4)" "hmac_taken key c4 []" by (rule md_hmac.code_cases [OF c2(2)])
  have u: "hmac_sha1 key (salt @ put_uint32_be (of_nat i)) = rfc_U (hmac_sha1 key) salt i 0" by simp
  have n: "[Suc 0..<Suc (unat c - Suc 0)] = [Suc 0..<unat c]" by (cases "unat c") auto
  show ?thesis
    using pbkdf2_iterate_rfc [OF c4(3) u, where k = "unat c - 1" and work = "rfc_U (hmac_sha1 key) salt i 0"] c1(1) c2(1) c4(1,2)
    unfolding pbkdf2_block_def rfc_F_def by (simp add: n del: upt_Suc)
qed

subsection \<open>The counter\<close>

lemma length_inc_counter [simp]: "length (inc_counter i c) = length c"
  by (induction i arbitrary: c) (simp_all add: Let_def)

lemma put_uint32_be_nat: "put_uint32_be (of_nat x) = map (\<lambda>k. of_nat (x div 256 ^ k)) [3, 2, 1, 0]"
proof -
  have "(ucast (drop_bit (8 * k) (of_nat x :: u32)) :: u8) = of_nat (x div 256 ^ k)" if "k < 4" for k
  proof -
    have "(256::nat) ^ k = 2 ^ (8 * k)" by (simp add: power_mult)
    then have e: "x div 256 ^ k = drop_bit (8 * k) x" by (simp add: drop_bit_nat_def)
    show ?thesis unfolding e
      by (rule bit_word_eqI) (use that in \<open>simp add: bit_ucast_iff bit_drop_bit_eq bit_of_nat_iff possible_bit_word\<close>)
  qed
  from this [of 3] this [of 2] this [of 1] this [of 0] show ?thesis by (simp add: put_uint32_be_def)
qed

lemma of_nat_u8_zero: "(of_nat (Suc x) :: u8) = 0 \<longleftrightarrow> Suc x mod 256 = 0"
  by (simp only: of_nat_eq_0_iff word_unat_eq_iff unat_of_nat) simp

lemma inc_counter_4:
  "inc_counter 4 [a, b, c, d] =
     (if d + 1 \<noteq> 0 then [a, b, c, d + 1] else if c + 1 \<noteq> 0 then [a, b, c + 1, d + 1]
      else if b + 1 \<noteq> 0 then [a, b + 1, c + 1, d + 1] else [a + 1, b + 1, c + 1, d + 1])"
  by (simp only: numeral_eq_Suc pred_numeral_simps Num.pred_numeral_simps inc_counter.simps Let_def list_update.simps nth_Cons_0 nth_Cons_Suc BitM.simps
      list_update_code numeral_2_eq_2 numeral_3_eq_3) simp

lemma carry256:
  "(of_nat (Suc y) :: u8) = 0 \<Longrightarrow> Suc y div 256 = Suc (y div 256)"
  "(of_nat (Suc y) :: u8) \<noteq> 0 \<Longrightarrow> Suc y div 256 = y div 256"
  unfolding of_nat_u8_zero by (simp_all add: div_Suc)

lemma inc_counter_next: "inc_counter 4 (put_uint32_be (of_nat x)) = put_uint32_be (of_nat (Suc x))"
proof -
  define b where "b = (\<lambda>y. of_nat y :: u8)"
  have s: "b y + 1 = b (Suc y)" for y by (simp add: b_def)
  have z: "b (Suc y) = 0 \<Longrightarrow> Suc y div 256 = Suc (y div 256)" "b (Suc y) \<noteq> 0 \<Longrightarrow> Suc y div 256 = y div 256" for y
    unfolding b_def by (rule carry256, assumption)+
  have p: "put_uint32_be (of_nat y) = [b (y div 256 div 256 div 256), b (y div 256 div 256), b (y div 256), b y]" for y
    unfolding put_uint32_be_nat b_def by (simp add: div_mult2_eq [symmetric])
  show ?thesis
    unfolding p inc_counter_4 s
    by (cases "b (Suc x) = 0"; cases "b (Suc (x div 256)) = 0"; cases "b (Suc (x div 256 div 256)) = 0") (simp_all add: z)
qed


subsection \<open>The derived key\<close>

lemma length_rfc_U [simp]: "length (rfc_U (hmac_sha1 key) salt i j) = 20"
  by (cases j) simp_all

lemma length_rfc_F [simp]: "length (rfc_F (hmac_sha1 key) salt c i) = 20"
proof -
  have "length (foldl (map2 (XOR)) w us) = 20" if "length w = 20" "\<forall>u \<in> set us. length u = 20" for w :: bytes and us
    using that by (induction us arbitrary: w) simp_all
  then show ?thesis unfolding rfc_F_def by (simp del: upt_Suc)
qed

text \<open>Every length of key is reached, so the loop returns.\<close>

lemma pbkdf2_loop_rfc:
  assumes "hmac_taken key ctx []" "length salt < 2 ^ 32"
  shows "pbkdf2_loop 20 c salt k (put_uint32_be (of_nat i)) out ctx
    = Some (0, out @ take k (concat (map (rfc_F (hmac_sha1 key) salt (unat c)) [i..<i + (k + 19) div 20])))"
  using assms(1)
proof (induction k arbitrary: i out ctx rule: less_induct)
  case (less k)
  show ?case
  proof (cases "k = 0")
    case False
    let ?F = "rfc_F (hmac_sha1 key) salt (unat c)"
    define u where "u = (if k < 20 then k else 20)"
    obtain ctx' where b: "pbkdf2_block 20 c salt (put_uint32_be (of_nat i)) ctx = (0, ?F i, ctx')" "hmac_taken key ctx' []"
      using pbkdf2_block_rfc [OF less.prems assms(2)] by blast
    have n: "(k + 19) div 20 = Suc ((k - u + 19) div 20)"
    proof (cases "k < 20")
      case True
      with False show ?thesis by (simp add: u_def div_nat_eqI)
    next
      case ge: False
      then have k: "k + 19 = 20 + (k - u + 19)" by (simp add: u_def)
      show ?thesis unfolding k by (simp only: div_add_self1 zero_neq_numeral not_False_eq_True plus_1_eq_Suc)
    qed
    have l: "[i..<i + (k + 19) div 20] = i # [Suc i..<Suc i + (k - u + 19) div 20]"
      unfolding n by (simp add: upt_conv_Cons del: upt_Suc)
    have t: "take k (?F i @ r) = take u (?F i) @ take (k - u) r" for r by (simp add: u_def)
    show ?thesis
      unfolding l list.map concat.simps t pbkdf2_loop.simps [of _ _ _ k] b(1)
      using False less.IH [OF _ b(2), of "k - u" "Suc i"]
      by (simp add: inc_counter_next u_def [symmetric] del: upt_Suc of_nat_Suc) (simp add: u_def)
  qed (simp add: pbkdf2_loop.simps)
qed

lemma pbkdf2_rfc:
  assumes "heap 0" "heap 1" "length password < 2 ^ 32" "length salt < 2 ^ 32"
    and "mbedtls_md_setup heap ctx (mbedtls_md_info_from_type MBEDTLS_MD_SHA1) True = (ret, ctx')"
  shows "ret = 0" "mbedtls_pkcs5_pbkdf2_hmac ctx' password salt c k
     = Some (0, rfc_pbkdf2 (hmac_sha1 password) 20 salt (unat c) (unat k))"
proof -
  obtain d where d: "ret = 0" "mbedtls_md_hmac_starts ctx' password = (0, d)" "hmac_taken password d []"
    "md_info ctx' = Some mbedtls_sha1_info"
    using md_setup_ready [OF assms(1-3), of ctx] assms(5) by auto
  show "ret = 0" by (rule d(1))
  have one: "[0, 0, 0, 1] = put_uint32_be (of_nat 1)" by (simp add: put_uint32_be_def)
  show "mbedtls_pkcs5_pbkdf2_hmac ctx' password salt c k
     = Some (0, rfc_pbkdf2 (hmac_sha1 password) 20 salt (unat c) (unat k))"
    unfolding mbedtls_pkcs5_pbkdf2_hmac_def one d(2,4)
    using pbkdf2_loop_rfc [OF d(3) assms(4), of c "unat k" 1 "[]"]
    by (simp add: mbedtls_md_get_size_def mbedtls_sha1_info_def rfc_pbkdf2_def add.commute del: upt_Suc)
qed

lemma calc_pmk_rfc:
  assumes "heap 0" "heap 1" "length pass < 2 ^ 32" "length ssid < 2 ^ 32"
  shows "wpa_calc_pmk heap ctx ssid pass = Some (rfc_pbkdf2 (hmac_sha1 (c_string pass)) 20 (c_string ssid) 4096 32)"
proof -
  have l: "length (c_string x) < 2 ^ 32" if "length x < 2 ^ 32" for x
    using that length_takeWhile_le [of "\<lambda>b. b \<noteq> 0" x] by (simp add: c_string_def)
  obtain ret ctx' where s: "mbedtls_md_setup heap ctx (mbedtls_md_info_from_type MBEDTLS_MD_SHA1) True = (ret, ctx')"
    by (cases "mbedtls_md_setup heap ctx (mbedtls_md_info_from_type MBEDTLS_MD_SHA1) True") auto
  have "mbedtls_md_info_from_type MBEDTLS_MD_SHA1 \<noteq> None" by (simp add: mbedtls_md_info_from_type_def)
  then show ?thesis
    using pbkdf2_rfc [OF assms(1,2) l [OF assms(3)] l [OF assms(4)] s]
    unfolding wpa_calc_pmk_def PBKDF2_HMAC_SHA_1_def Let_def s by auto
qed

end
