(* ===== verification/Crypto.thy ===== *)
theory Crypto
  imports Wpa Pkcs5
begin

text \<open>
  The correctness theorems of the cryptographic routines: SHA-1, HMAC, the pairwise key, key
  wrapping and the group key.
\<close>

text \<open>
  C6. The digest the library computes, with its unrolled rounds on a ring of sixteen words and its streaming
  buffer, is the digest of the standard for every message shorter than 4 GiB.
\<close>

theorem sha1_is_fips:
  assumes "length m < 2 ^ 32"
  shows "mbedtls_sha1 m = fips_sha1 m"
  using assms by (rule sha1_fips)

theorem sha1_is_fips_witness: "mbedtls_sha1 (replicate 100 0x61) = fips_sha1 (replicate 100 0x61)"
  by (rule sha1_is_fips) simp

text \<open>
  Feeding a message in pieces, of any sizes and in any number, gives the digest of the
  whole message.
\<close>

theorem sha1_streaming:
  assumes "length (buffer ctx) = 64" "\<forall>x \<in> set xs. length x < 2 ^ 32"
  shows "fst (mbedtls_sha1_finish (foldl mbedtls_sha1_update (mbedtls_sha1_starts ctx) xs)) = fips_sha1 (concat xs)"
  using sha1_finish_fips(1) [OF sha1_stream.feed_all [OF absorbed_starts [OF assms(1)]]] assms(2) by (simp add: list_all_iff)

theorem sha1_streaming_witness:
  "fst (mbedtls_sha1_finish (foldl mbedtls_sha1_update (mbedtls_sha1_starts mbedtls_sha1_init) [replicate 70 1, [], [2]]))
     = fips_sha1 (replicate 70 1 @ [2])"
  using sha1_streaming [of mbedtls_sha1_init "[replicate 70 1, [], [2]]"] by (simp add: mbedtls_sha1_init_def)

text \<open>
  C25. The keyed digest is HMAC of RFC 2104 over SHA-1, for keys shorter and longer than a block alike.
\<close>

theorem hmac_is_rfc2104:
  assumes "length (buffer ctx) = 64" "length key < 2 ^ 32" "length m < 2 ^ 32"
  shows "sha1_hmac ctx key m = hmac_sha1 key m"
  using assms by (rule sha1_hmac_rfc2104)

theorem hmac_is_rfc2104_witness:
  "sha1_hmac mbedtls_sha1_init (replicate 80 3) [1, 2] = hmac_sha1 (replicate 80 3) [1, 2]"
  by (rule hmac_is_rfc2104) (simp_all add: mbedtls_sha1_init_def)

text \<open>
  C12. The pairwise key is PRF-512 of IEEE 802.11i applied to the master key, the label \<open>Pairwise key expansion\<close> and the
  addresses and nonces, smaller first; so the two ends compute the same key, each from its own point of view.
\<close>

theorem pairwise_key_is_prf:
  assumes "length dm = 6" "length am = 6" "length dn = 32" "length an = 32" "length pmk = 32"
  shows "wpa_calc_ptk dm am dn an pmk =
     ptk_of_bytes (prf_512 pmk (map of_char ''Pairwise key expansion'')
       (min dm am @ max dm am @ min dn an @ max dn an)) \<and> wpa_calc_ptk dm am dn an pmk = wpa_calc_ptk am dm an dn pmk"
  using wpa_calc_ptk_prf [OF assms] wpa_calc_ptk_sym [OF assms] by simp

theorem pairwise_key_is_prf_witness:
  "wpa_calc_ptk (replicate 6 1) (replicate 6 2) (replicate 32 3) (replicate 32 4) (replicate 32 5)
     = wpa_calc_ptk (replicate 6 2) (replicate 6 1) (replicate 32 4) (replicate 32 3) (replicate 32 5)"
  by (rule pairwise_key_is_prf [THEN conjunct2]) simp_all

subsection \<open>The block cipher\<close>

text \<open>
  C2. The block cipher is AES. For every key of 128, 192 or 256 bits setting the key succeeds, and encrypting a block,
  which the code does with four tables of words it generates itself, gives the result of the cipher of FIPS 197: substitution by the
  inverse in GF(256) and an affine map, row shifts, column mixing and round keys.
\<close>

theorem aes_is_fips197:
  assumes "length key \<in> {16, 24, 32}" "length (aes_buf ctx) = 68" "length input = 16"
  shows "\<exists>ctx'. mbedtls_aes_setkey_enc ctx key (8 * length key) = (0, ctx')
     \<and> mbedtls_aes_crypt_ecb ctx' MBEDTLS_ENCRYPT input = (0, fips_cipher key input)"
  using assms by (intro aes_encrypt_fips) (simp_all add: key_ok_def)

theorem aes_is_fips197_witness:
  "\<exists>ctx'. mbedtls_aes_setkey_enc mbedtls_aes_init (replicate 16 1) 128 = (0, ctx')
     \<and> mbedtls_aes_crypt_ecb ctx' MBEDTLS_ENCRYPT (replicate 16 2) = (0, fips_cipher (replicate 16 1) (replicate 16 2))"
  using aes_is_fips197 [of "replicate 16 1" mbedtls_aes_init "replicate 16 2"] by (simp add: mbedtls_aes_init_def)

text \<open>
  C33. Decryption, with its own key schedule and tables, inverts the cipher of the standard: it recovers every block.
\<close>

theorem aes_decrypt_inverts:
  assumes "length key \<in> {16, 24, 32}" "length (aes_buf ctx) = 68" "length input = 16"
  shows "\<exists>ctx'. mbedtls_aes_setkey_dec ctx key (8 * length key) = (0, ctx')
     \<and> mbedtls_aes_crypt_ecb ctx' MBEDTLS_DECRYPT (fips_cipher key input) = (0, input)"
  using assms by (intro aes_decrypt_fips) (simp_all add: key_ok_def)

theorem aes_decrypt_inverts_witness:
  "\<exists>ctx'. mbedtls_aes_setkey_dec mbedtls_aes_init (replicate 32 1) 256 = (0, ctx')
     \<and> mbedtls_aes_crypt_ecb ctx' MBEDTLS_DECRYPT (fips_cipher (replicate 32 1) (replicate 16 2)) = (0, replicate 16 2)"
  using aes_decrypt_inverts [of "replicate 32 1" mbedtls_aes_init "replicate 16 2"] by (simp add: mbedtls_aes_init_def)

subsection \<open>Key wrapping\<close>

text \<open>
  C7. Unwrapping undoes wrapping, with the cipher the library selects: for every key of 128, 192 or 256 bits both contexts are set
  up, every input of at least two semiblocks whose length is a multiple of eight is wrapped into eight more bytes, and unwrapping
  these returns success, the length and the input.
\<close>

theorem key_wrap_roundtrip:
  assumes "length key \<in> {16, 24, 32}" "16 \<le> length input" "8 dvd length input"
    and "length input + 8 \<le> out_size" "length input < 2 ^ 31" "length input \<le> unat dec_size"
  shows "\<exists>cw cu c. mbedtls_nist_kw_setkey True mbedtls_nist_kw_init MBEDTLS_CIPHER_ID_AES key (8 * length key) True = (0, cw)
     \<and> mbedtls_nist_kw_setkey True mbedtls_nist_kw_init MBEDTLS_CIPHER_ID_AES key (8 * length key) False = (0, cu)
     \<and> mbedtls_nist_kw_wrap (mbedtls_cipher_update cw) MBEDTLS_KW_MODE_KW input out_size = (0, length input + 8, c)
     \<and> length c = length input + 8
     \<and> mbedtls_nist_kw_unwrap (mbedtls_cipher_update cu) MBEDTLS_KW_MODE_KW c dec_size = (0, length input, input)"
proof -
  have k: "key_ok key" using assms(1) by (simp add: key_ok_def)
  from kw_setkey_ok(1) [OF k] kw_unwrap_wrap [OF kw_inverse_ciphers [OF k] assms(2-)] show ?thesis
    by (metis prod.collapse)
qed

theorem key_wrap_roundtrip_witness:
  "\<exists>cw cu c. mbedtls_nist_kw_setkey True mbedtls_nist_kw_init MBEDTLS_CIPHER_ID_AES (replicate 16 5) 128 True = (0, cw)
     \<and> mbedtls_nist_kw_setkey True mbedtls_nist_kw_init MBEDTLS_CIPHER_ID_AES (replicate 16 5) 128 False = (0, cu)
     \<and> mbedtls_nist_kw_wrap (mbedtls_cipher_update cw) MBEDTLS_KW_MODE_KW (replicate 24 7) 32 = (0, 32, c)
     \<and> mbedtls_nist_kw_unwrap (mbedtls_cipher_update cu) MBEDTLS_KW_MODE_KW c 0x200 = (0, 24, replicate 24 7)"
  using key_wrap_roundtrip [of "replicate 16 5" "replicate 24 7" 32 "0x200"] by auto

text \<open>
  C32. Unwrapping fails closed, in every context: it succeeds only when the integrity value recovered from the ciphertext is the one of the
  standard, and when that check fails it returns length 0 and what it has written is wiped to zeros. (For lengths it does not accept it
  writes nothing: the output is the empty list, and the caller's buffer keeps its bytes.)
\<close>

theorem key_unwrap_integrity:
  assumes "mbedtls_nist_kw_unwrap (mbedtls_cipher_update ctx) MBEDTLS_KW_MODE_KW c sz = (ret, n, out)"
  shows "if ret = 0 then unwrap (mbedtls_cipher_update ctx) c (length c div 8) = (0, n, NIST_KW_ICV1, out) \<and> length out = n
         else n = 0 \<and> set out \<subseteq> {0}"
  using kw_unwrap_success [OF kw_block_sized, of ctx c sz n out] kw_unwrap_failure [OF kw_block_sized, of ctx c sz ret n out] assms
  by auto

theorem key_unwrap_integrity_witness:
  "\<exists>ret n out. mbedtls_nist_kw_unwrap (mbedtls_cipher_update (kw_context False (replicate 16 5))) MBEDTLS_KW_MODE_KW
        (replicate 24 0) 0x200 = (ret, n, out)
     \<and> (if ret = 0 then length out = n else n = 0 \<and> set out \<subseteq> {0})"
proof -
  obtain ret n out where u: "mbedtls_nist_kw_unwrap (mbedtls_cipher_update (kw_context False (replicate 16 5)))
      MBEDTLS_KW_MODE_KW (replicate 24 0) 0x200 = (ret, n, out)"
    by (metis prod_cases3)
  with key_unwrap_integrity [OF u] show ?thesis by (auto split: if_splits)
qed

text \<open>
  Key data that carries a GTK element, wrapped by the authenticator under the key encryption key, is decoded to
  exactly the element's contents: the elements before and after it are skipped.
\<close>

theorem group_key_from_wrapped:
  assumes "length k = 16" "\<forall>(t, d) \<in> set es. length d < 256"
    and "p = concat (map kde es)" "16 \<le> length p" "8 dvd length p" "length p \<le> 0x200"
    and "wrap_key_data k p = (0, n, c)"
  shows "wpa_decrypt_gtk True stk k c = gtk_of_bytes
     (fold (\<lambda>e out. if is_gtk_kde e then overwrite 0 (snd e) out else out) es (replicate 38 0))"
  using assms by (rule wpa_decrypt_gtk_wrapped)

theorem group_key_from_wrapped_witness:
  "let d = [0x00, 0x0F, 0xAC, 0x01, 1, 0] @ replicate 16 9; p = concat (map kde [(0xDD, d)])
   in \<exists>n c. wrap_key_data (replicate 16 5) p = (0, n, c)
        \<and> keyidx (wpa_decrypt_gtk True (\<lambda>_. 0) (replicate 16 5) c) = 1
        \<and> take 16 (gtk_key (wpa_decrypt_gtk True (\<lambda>_. 0) (replicate 16 5) c)) = replicate 16 9"
proof -
  let ?d = "[0x00, 0x0F, 0xAC, 0x01, 1, 0] @ replicate 16 9 :: bytes"
  let ?p = "concat (map kde [(0xDD, ?d)])"
  have p: "length ?p = 24" by (simp add: kde_def)
  have k: "key_ok (replicate 16 5)" by (simp add: key_ok_def)
  obtain c where c: "wrap_key_data (replicate 16 5) ?p = (0, length ?p + 8, c)"
    using kw_unwrap_wrap [OF kw_inverse_ciphers [OF k], of ?p "length ?p + 8" "0x200"] p by (auto simp: wrap_key_data_def)
  have "wpa_decrypt_gtk True (\<lambda>_. 0) (replicate 16 5) c = gtk_of_bytes
     (fold (\<lambda>e out. if is_gtk_kde e then overwrite 0 (snd e) out else out) [(0xDD, ?d)] (replicate 38 0))"
    by (rule group_key_from_wrapped [OF _ _ refl _ _ _ c]) (use p in simp_all)
  then have "keyidx (wpa_decrypt_gtk True (\<lambda>_. 0) (replicate 16 5) c) = 1"
    "take 16 (gtk_key (wpa_decrypt_gtk True (\<lambda>_. 0) (replicate 16 5) c)) = replicate 16 9"
    by (simp_all add: is_gtk_kde_def gtk_of_bytes_def overwrite_def)
  then show ?thesis using c by (auto simp: Let_def)
qed

text \<open>
  C36. Key data that does not unwrap is not noticed: the result of unwrapping is dropped, and the key the caller goes on to install is
  the all-zero group key. The same happens when no memory is left for the cipher's context.
\<close>

theorem forged_key_data_gives_zero_key:
  assumes "fst (mbedtls_nist_kw_unwrap (mbedtls_cipher_update (snd (mbedtls_nist_kw_setkey heap mbedtls_nist_kw_init
      MBEDTLS_CIPHER_ID_AES k 128 False))) MBEDTLS_KW_MODE_KW c 0x200) \<noteq> 0"
  shows "wpa_decrypt_gtk heap stk k c = gtk_of_bytes (replicate 38 0)"
  using assms by (rule wpa_decrypt_gtk_forged)

theorem forged_key_data_gives_zero_key_witness:
  "wpa_decrypt_gtk False (\<lambda>_. 0) (replicate 16 5) [] = gtk_of_bytes (replicate 38 0)"
  by (rule forged_key_data_gives_zero_key) (simp add: mbedtls_nist_kw_unwrap_def)

subsection \<open>The digest layer and the master key\<close>

text \<open>
  C11. The master key the code derives from a pass phrase and the name of a network is PBKDF2 of RFC 8018 over HMAC-SHA-1 with 4096
  iterations and 32 bytes. Both are strings, taken up to their first zero byte; the derivation returns.
\<close>

theorem master_key_is_pbkdf2:
  assumes "heap 0" "heap 1" "length pass < 2 ^ 32" "length ssid < 2 ^ 32"
  shows "wpa_calc_pmk heap ctx ssid pass = Some (rfc_pbkdf2 (hmac_sha1 (c_string pass)) 20 (c_string ssid) 4096 32)"
  using assms by (rule calc_pmk_rfc)

theorem master_key_is_pbkdf2_witness:
  "wpa_calc_pmk (\<lambda>_. True) mbedtls_md_init [0x49, 0x45, 0x45, 0x45, 0] [0x70, 0x61, 0x73, 0x73, 0]
     = Some (rfc_pbkdf2 (hmac_sha1 [0x70, 0x61, 0x73, 0x73]) 20 [0x49, 0x45, 0x45, 0x45] 4096 32)"
  using master_key_is_pbkdf2 [of "\<lambda>_. True" "[0x70, 0x61, 0x73, 0x73, 0]" "[0x49, 0x45, 0x45, 0x45, 0]" mbedtls_md_init]
  by (simp add: c_string_def)

text \<open>
  The repository has HMAC twice, in the digest layer and in the SHA-1 file, with contexts of different shape. For every key and message they compute the
  same code, and the digest layer fails only when it finds no memory, without output.
\<close>

theorem two_hmacs_agree:
  assumes "length key < 2 ^ 32" "length m < 2 ^ 32" "length (buffer ctx) = 64"
  shows "mbedtls_md_hmac heap (mbedtls_md_info_from_type MBEDTLS_MD_SHA1) key m
     = (if heap 0 \<and> heap 1 then (0, sha1_hmac ctx key m) else (MBEDTLS_ERR_MD_ALLOC_FAILED, []))"
proof (cases "heap 0 \<and> heap 1")
  case True
  have "mbedtls_md_hmac heap (mbedtls_md_info_from_type MBEDTLS_MD_SHA1) key m = (0, hmac_sha1 key m)"
    by (rule md_hmac_rfc2104) (use True assms in simp_all)
  then show ?thesis using True assms sha1_hmac_rfc2104 [of ctx key m] by simp
next
  case False
  then show ?thesis
    by (auto simp: mbedtls_md_hmac_def mbedtls_md_setup_def mbedtls_md_info_from_type_def mbedtls_sha1_info_def Let_def)
qed

theorem two_hmacs_agree_witness:
  "mbedtls_md_hmac (\<lambda>_. True) (mbedtls_md_info_from_type MBEDTLS_MD_SHA1) [1] [2, 3] = (0, sha1_hmac mbedtls_sha1_init [1] [2, 3])
   \<and> mbedtls_md_hmac (\<lambda>i. i = 0) (mbedtls_md_info_from_type MBEDTLS_MD_SHA1) [1] [2, 3] = (MBEDTLS_ERR_MD_ALLOC_FAILED, [])"
  using two_hmacs_agree [of "[1]" "[2, 3]" mbedtls_sha1_init] by (simp add: mbedtls_sha1_init_def)

text \<open>
  Key wrapping with padding: every input of at least one byte, whether a single block or many and whatever its length modulo eight, is wrapped, and
  unwrapping returns success, the original length and the input followed by the zero padding.
\<close>

theorem padded_key_wrap_roundtrip:
  assumes "length key \<in> {16, 24, 32}" "1 \<le> length input" "length input < 2 ^ 31" "p = (8 - length input mod 8) mod 8"
    and "length input + p + 8 \<le> out_size" "length input + p \<le> unat dec_size"
  shows "\<exists>cw cu c. mbedtls_nist_kw_setkey True mbedtls_nist_kw_init MBEDTLS_CIPHER_ID_AES key (8 * length key) True = (0, cw)
     \<and> mbedtls_nist_kw_setkey True mbedtls_nist_kw_init MBEDTLS_CIPHER_ID_AES key (8 * length key) False = (0, cu)
     \<and> mbedtls_nist_kw_wrap (mbedtls_cipher_update cw) MBEDTLS_KW_MODE_KWP input out_size = (0, length input + p + 8, c)
     \<and> length c = length input + p + 8
     \<and> mbedtls_nist_kw_unwrap (mbedtls_cipher_update cu) MBEDTLS_KW_MODE_KWP c dec_size = (0, length input, input @ replicate p 0)"
proof -
  have k: "key_ok key" using assms(1) by (simp add: key_ok_def)
  from kw_setkey_ok(1) [OF k] kwp_unwrap_wrap [OF kw_inverse_ciphers [OF k] assms(2-)] show ?thesis
    by (metis prod.collapse)
qed

theorem padded_key_wrap_roundtrip_witness:
  "\<exists>cw cu c. mbedtls_nist_kw_wrap (mbedtls_cipher_update cw) MBEDTLS_KW_MODE_KWP [7, 8, 9] 16 = (0, 16, c)
     \<and> mbedtls_nist_kw_unwrap (mbedtls_cipher_update cu) MBEDTLS_KW_MODE_KWP c 8 = (0, 3, [7, 8, 9, 0, 0, 0, 0, 0])"
proof -
  have r: "[7, 8, 9] @ replicate 5 0 = [7, 8, 9, 0, 0, 0, 0, 0 :: u8]" "length [7, 8, 9 :: u8] = 3" by (simp_all add: eval_nat_numeral)
  obtain cw cu c where w: "mbedtls_nist_kw_wrap (mbedtls_cipher_update cw) MBEDTLS_KW_MODE_KWP [7, 8, 9] 16 = (0, 3 + 5 + 8, c)"
    "mbedtls_nist_kw_unwrap (mbedtls_cipher_update cu) MBEDTLS_KW_MODE_KWP c 8 = (0, 3, [7, 8, 9, 0, 0, 0, 0, 0])"
    using padded_key_wrap_roundtrip [of "replicate 16 1" "[7, 8, 9]" 5 16 8, unfolded r] by auto
  show ?thesis by (intro exI conjI) (use w in simp_all)
qed

end
