(* ===== verification/Sdio.thy ===== *)
theory Sdio
  imports Machine
begin

text \<open>
  The TMIO SDIO host controller driver \<^verbatim>\<open>arm_iop/source/wifi_sdio.twl.c\<close> and the DMA
  channel driver \<^verbatim>\<open>arm_iop/source/wifi_ndma.twl.c\<close>. Polling loops are
  \<^theory_text>\<open>partial_function (option)\<close>: \<open>None\<close> is the loop that the controller never
  lets go. A DMA transfer takes effect when its channel is enabled; every caller waits for
  the channel before it touches the buffer.
\<close>

subsection \<open>Registers\<close>

abbreviation (input) REG_SDIO_BASE :: u32 where "REG_SDIO_BASE \<equiv> 0x4004A00"
abbreviation (input) WIFI_SDIO_OFFS_CMD :: u32 where "WIFI_SDIO_OFFS_CMD \<equiv> 0x000"
abbreviation (input) WIFI_SDIO_OFFS_PORT_SEL :: u32 where "WIFI_SDIO_OFFS_PORT_SEL \<equiv> 0x002"
abbreviation (input) WIFI_SDIO_OFFS_CMD_PARAM0 :: u32 where "WIFI_SDIO_OFFS_CMD_PARAM0 \<equiv> 0x004"
abbreviation (input) WIFI_SDIO_OFFS_CMD_PARAM1 :: u32 where "WIFI_SDIO_OFFS_CMD_PARAM1 \<equiv> 0x006"
abbreviation (input) WIFI_SDIO_OFFS_STOP :: u32 where "WIFI_SDIO_OFFS_STOP \<equiv> 0x008"
abbreviation (input) WIFI_SDIO_OFFS_DATA16_BLK_CNT :: u32 where
  "WIFI_SDIO_OFFS_DATA16_BLK_CNT \<equiv> 0x00A"
abbreviation (input) WIFI_SDIO_OFFS_RESP :: "nat \<Rightarrow> u32" where
  "WIFI_SDIO_OFFS_RESP n \<equiv> 0x00C + 2 * of_nat n"
abbreviation (input) WIFI_SDIO_OFFS_IRQ_STAT0 :: u32 where "WIFI_SDIO_OFFS_IRQ_STAT0 \<equiv> 0x01C"
abbreviation (input) WIFI_SDIO_OFFS_IRQ_STAT1 :: u32 where "WIFI_SDIO_OFFS_IRQ_STAT1 \<equiv> 0x01E"
abbreviation (input) WIFI_SDIO_OFFS_IRQ_MASK :: u32 where "WIFI_SDIO_OFFS_IRQ_MASK \<equiv> 0x020"
abbreviation (input) WIFI_SDIO_OFFS_CLK_CNT :: u32 where "WIFI_SDIO_OFFS_CLK_CNT \<equiv> 0x024"
abbreviation (input) WIFI_SDIO_OFFS_DATA16_BLK_LEN :: u32 where
  "WIFI_SDIO_OFFS_DATA16_BLK_LEN \<equiv> 0x026"
abbreviation (input) WIFI_SDIO_OFFS_CARD_OPT :: u32 where "WIFI_SDIO_OFFS_CARD_OPT \<equiv> 0x028"
abbreviation (input) WIFI_SDIO_OFFS_ERR_DETAIL0 :: u32 where
  "WIFI_SDIO_OFFS_ERR_DETAIL0 \<equiv> 0x02C"
abbreviation (input) WIFI_SDIO_OFFS_ERR_DETAIL1 :: u32 where
  "WIFI_SDIO_OFFS_ERR_DETAIL1 \<equiv> 0x02E"
abbreviation (input) WIFI_SDIO_OFFS_CARDIRQ_CTL :: u32 where
  "WIFI_SDIO_OFFS_CARDIRQ_CTL \<equiv> 0x034"
abbreviation (input) WIFI_SDIO_OFFS_CARDIRQ_STAT :: u32 where
  "WIFI_SDIO_OFFS_CARDIRQ_STAT \<equiv> 0x036"
abbreviation (input) WIFI_SDIO_OFFS_CARDIRQ_MASK :: u32 where
  "WIFI_SDIO_OFFS_CARDIRQ_MASK \<equiv> 0x038"
abbreviation (input) WIFI_SDIO_OFFS_DATA16_CNT :: u32 where "WIFI_SDIO_OFFS_DATA16_CNT \<equiv> 0x0D8"
abbreviation (input) WIFI_SDIO_OFFS_RESET :: u32 where "WIFI_SDIO_OFFS_RESET \<equiv> 0x0E0"
abbreviation (input) WIFI_SDIO_OFFS_IRQ32 :: u32 where "WIFI_SDIO_OFFS_IRQ32 \<equiv> 0x100"
abbreviation (input) WIFI_SDIO_OFFS_DATA32_BLK_LEN :: u32 where
  "WIFI_SDIO_OFFS_DATA32_BLK_LEN \<equiv> 0x104"
abbreviation (input) WIFI_SDIO_OFFS_DATA32_BLK_CNT :: u32 where
  "WIFI_SDIO_OFFS_DATA32_BLK_CNT \<equiv> 0x108"
abbreviation (input) WIFI_SDIO_OFFS_DATA32_FIFO :: u32 where "WIFI_SDIO_OFFS_DATA32_FIFO \<equiv> 0x10C"

abbreviation (input) WIFI_SDIO_STAT0_CMDRESPEND :: u16 where "WIFI_SDIO_STAT0_CMDRESPEND \<equiv> 0x0001"
abbreviation (input) WIFI_SDIO_STAT0_DATAEND :: u16 where "WIFI_SDIO_STAT0_DATAEND \<equiv> 0x0004"
abbreviation (input) WIFI_SDIO_STAT1_RXRDY :: u16 where "WIFI_SDIO_STAT1_RXRDY \<equiv> 0x0100"
abbreviation (input) WIFI_SDIO_STAT1_TXRQ :: u16 where "WIFI_SDIO_STAT1_TXRQ \<equiv> 0x0200"
abbreviation (input) WIFI_SDIO_STAT1_CMD_BUSY :: u16 where "WIFI_SDIO_STAT1_CMD_BUSY \<equiv> 0x4000"
abbreviation (input) WIFI_SDIO_MASK_ERR :: u16 where
  "WIFI_SDIO_MASK_ERR \<equiv> 0x8000 OR 0x0040 OR 0x0020 OR 0x0010 OR 0x0008 OR 0x0004 OR 0x0002 OR 0x0001"

definition wifi_sdio_read16 :: "hw \<Rightarrow> u32 \<Rightarrow> u32 \<Rightarrow> 'a machine_scheme \<Rightarrow> u16 \<times> 'a machine_scheme" where
  "wifi_sdio_read16 h controller reg s = mmio_read16 h (controller + reg) s"

definition wifi_sdio_read32 :: "hw \<Rightarrow> u32 \<Rightarrow> u32 \<Rightarrow> 'a machine_scheme \<Rightarrow> u32 \<times> 'a machine_scheme" where
  "wifi_sdio_read32 h controller reg s = mmio_read32 h (controller + reg) s"

definition wifi_sdio_write16 :: "u32 \<Rightarrow> u32 \<Rightarrow> u16 \<Rightarrow> 'a machine_scheme \<Rightarrow> 'a machine_scheme" where
  "wifi_sdio_write16 controller reg v s = emit (W16 (controller + reg) v) s"

definition wifi_sdio_write32 :: "u32 \<Rightarrow> u32 \<Rightarrow> u32 \<Rightarrow> 'a machine_scheme \<Rightarrow> 'a machine_scheme" where
  "wifi_sdio_write32 controller reg v s = emit (W32 (controller + reg) v) s"

definition wifi_sdio_mask16 ::
  "hw \<Rightarrow> u32 \<Rightarrow> u32 \<Rightarrow> u16 \<Rightarrow> u16 \<Rightarrow> 'a machine_scheme \<Rightarrow> 'a machine_scheme" where
  "wifi_sdio_mask16 h controller reg clear setv s =
     (let (v, s) = wifi_sdio_read16 h controller reg s;
          v = v AND NOT clear;
          v = v OR setv
      in wifi_sdio_write16 controller reg v s)"

definition wifi_sdio_mask32 ::
  "hw \<Rightarrow> u32 \<Rightarrow> u32 \<Rightarrow> u32 \<Rightarrow> u32 \<Rightarrow> 'a machine_scheme \<Rightarrow> 'a machine_scheme" where
  "wifi_sdio_mask32 h controller reg clear setv s =
     (let (v, s) = wifi_sdio_read32 h controller reg s;
          v = v AND NOT clear;
          v = v OR setv
      in wifi_sdio_write32 controller reg v s)"

definition wifi_sdio_setclk :: "hw \<Rightarrow> u32 \<Rightarrow> u32 \<Rightarrow> 'a machine_scheme \<Rightarrow> 'a machine_scheme" where
  "wifi_sdio_setclk h controller data s =
     (let s = wifi_sdio_mask16 h controller WIFI_SDIO_OFFS_CLK_CNT 0x100 0 s;
          s = wifi_sdio_mask16 h controller WIFI_SDIO_OFFS_CLK_CNT 0x2FF (ucast (data AND 0x2FF)) s
      in wifi_sdio_mask16 h controller WIFI_SDIO_OFFS_CLK_CNT 0 0x100 s)"

definition wifi_sdio_stop :: "u32 \<Rightarrow> 'a machine_scheme \<Rightarrow> 'a machine_scheme" where
  "wifi_sdio_stop controller s = wifi_sdio_write16 controller WIFI_SDIO_OFFS_STOP 0x100 s"

definition wifi_sdio_enable_cardirq :: "hw \<Rightarrow> u32 \<Rightarrow> bool \<Rightarrow> 'a machine_scheme \<Rightarrow> 'a machine_scheme" where
  "wifi_sdio_enable_cardirq h controller en s =
     (if en
      then wifi_sdio_mask16 h controller WIFI_SDIO_OFFS_CARDIRQ_MASK 0x0003 0
             (wifi_sdio_mask16 h controller WIFI_SDIO_OFFS_CARDIRQ_CTL 0 0x0001 s)
      else wifi_sdio_mask16 h controller WIFI_SDIO_OFFS_CARDIRQ_MASK 0 3
             (wifi_sdio_mask16 h controller WIFI_SDIO_OFFS_CARDIRQ_CTL 1 0 s))"

definition wifi_sdio_get_cardirq_stat :: "hw \<Rightarrow> u32 \<Rightarrow> 'a machine_scheme \<Rightarrow> u16 \<times> 'a machine_scheme" where
  "wifi_sdio_get_cardirq_stat h controller s =
     wifi_sdio_read16 h controller WIFI_SDIO_OFFS_CARDIRQ_STAT s"

definition wifi_sdio_switch_device :: "hw \<Rightarrow> 'a machine_scheme \<Rightarrow> 'a machine_scheme" where
  "wifi_sdio_switch_device h s =
     (let c = ctx_controller (tmio s);
          s = wifi_sdio_mask16 h c WIFI_SDIO_OFFS_PORT_SEL 3 (ucast (ctx_port (tmio s))) s;
          s = wifi_sdio_setclk h c (ctx_clk_cnt (tmio s)) s
      in if ctx_bus_width (tmio s) = 4
         then wifi_sdio_mask16 h c WIFI_SDIO_OFFS_CARD_OPT 0x8000 0 s
         else wifi_sdio_mask16 h c WIFI_SDIO_OFFS_CARD_OPT 0 0x8000 s)"

definition wifi_sdio_controller_init :: "hw \<Rightarrow> u32 \<Rightarrow> 'a machine_scheme \<Rightarrow> 'a machine_scheme" where
  "wifi_sdio_controller_init h c s =
     (if c = 0 then s else
      let s = wifi_sdio_mask16 h c WIFI_SDIO_OFFS_IRQ32 0x0800 0x0000 s;
          s = wifi_sdio_mask16 h c WIFI_SDIO_OFFS_IRQ32 0x1000 0x0000 s;
          s = wifi_sdio_mask16 h c WIFI_SDIO_OFFS_IRQ32 0x0000 0x0402 s;
          s = wifi_sdio_mask16 h c WIFI_SDIO_OFFS_DATA16_CNT 0x0022 0x0002 s;
          s = wifi_sdio_mask16 h c WIFI_SDIO_OFFS_DATA16_CNT 0x0020 0x0000 s;
          s = wifi_sdio_write16 c WIFI_SDIO_OFFS_DATA32_BLK_LEN 128 s;
          s = wifi_sdio_write16 c WIFI_SDIO_OFFS_DATA32_BLK_CNT 0x0001 s;
          s = wifi_sdio_mask16 h c WIFI_SDIO_OFFS_RESET 0x0003 0x0000 s;
          s = wifi_sdio_mask16 h c WIFI_SDIO_OFFS_RESET 0x0000 0x0003 s;
          s = wifi_sdio_write32 c WIFI_SDIO_OFFS_IRQ_MASK 0xFFFFFFFF s;
          s = wifi_sdio_mask16 h c 0x0FC 0x0000 0x00DB s;
          s = wifi_sdio_mask16 h c 0x0FE 0x0000 0x00DB s;
          s = wifi_sdio_mask16 h c WIFI_SDIO_OFFS_PORT_SEL 3 0 s;
          s = wifi_sdio_write16 c WIFI_SDIO_OFFS_CLK_CNT 0x0020 s;
          s = wifi_sdio_write16 c WIFI_SDIO_OFFS_CARD_OPT 0x40EE s;
          s = wifi_sdio_mask16 h c WIFI_SDIO_OFFS_IRQ32 0x8000 0x0000 s;
          s = wifi_sdio_mask16 h c WIFI_SDIO_OFFS_IRQ32 0x0000 0x0100 s;
          s = wifi_sdio_mask16 h c WIFI_SDIO_OFFS_IRQ32 0x0100 0x0000 s;
          s = wifi_sdio_mask16 h c WIFI_SDIO_OFFS_PORT_SEL 3 0 s;
          s = wifi_sdio_write16 c WIFI_SDIO_OFFS_DATA16_BLK_LEN 128 s
      in wifi_sdio_write16 c WIFI_SDIO_OFFS_STOP 0x0100 s)"

subsection \<open>NDMA channel 3\<close>

abbreviation (input) REG_NDMA_BASE :: u32 where "REG_NDMA_BASE \<equiv> 0x04004100"
abbreviation (input) WIFI_NDMA_CHAN :: u32 where "WIFI_NDMA_CHAN \<equiv> 3"
abbreviation (input) NDMA_ENABLE :: u32 where "NDMA_ENABLE \<equiv> 0x80000000"
abbreviation (input) NDMA_STARTUP_WIFI :: u32 where "NDMA_STARTUP_WIFI \<equiv> 9"
abbreviation (input) NDMA_MODE_INC :: u32 where "NDMA_MODE_INC \<equiv> 0"
abbreviation (input) NDMA_MODE_FIXED :: u32 where "NDMA_MODE_FIXED \<equiv> 2"

definition REG_NDMA :: "u32 \<Rightarrow> u32 \<Rightarrow> u32" where
  "REG_NDMA offs n = REG_NDMA_BASE + offs + n * 0x1C"

definition NDMA_STARTUP_MODE :: "u32 \<Rightarrow> u32" where
  "NDMA_STARTUP_MODE n = push_bit 24 (n AND 0xF)"
definition NDMA_BLOCK_SIZE :: "u32 \<Rightarrow> u32" where
  "NDMA_BLOCK_SIZE n = push_bit 16 (n AND 0xF)"
definition NDMA_SRC_MODE :: "u32 \<Rightarrow> u32" where
  "NDMA_SRC_MODE n = push_bit 13 (n AND 3)"
definition NDMA_DST_MODE :: "u32 \<Rightarrow> u32" where
  "NDMA_DST_MODE n = push_bit 10 (n AND 3)"

definition wifi_ndma_init :: "'a machine_scheme \<Rightarrow> 'a machine_scheme" where
  "wifi_ndma_init s =
     emit (W32 REG_NDMA_BASE 1) (emit (W32 (REG_NDMA 0x1C WIFI_NDMA_CHAN) 0) s)"

text \<open>The polling loop \<^verbatim>\<open>while (read & mask);\<close> on a 16 or 32-bit register.\<close>

partial_function (option) poll16 ::
  "hw \<Rightarrow> u32 \<Rightarrow> u16 \<Rightarrow> 'a machine_scheme \<Rightarrow> 'a machine_scheme option" where
  "poll16 h a msk s =
     (let (v, s') = mmio_read16 h a s in
      if v AND msk \<noteq> 0 then poll16 h a msk s' else Some s')"

partial_function (option) poll32 ::
  "hw \<Rightarrow> u32 \<Rightarrow> u32 \<Rightarrow> 'a machine_scheme \<Rightarrow> 'a machine_scheme option" where
  "poll32 h a msk s =
     (let (v, s') = mmio_read32 h a s in
      if v AND msk \<noteq> 0 then poll32 h a msk s' else Some s')"

definition wifi_ndma_wait :: "hw \<Rightarrow> 'a machine_scheme \<Rightarrow> 'a machine_scheme option" where
  "wifi_ndma_wait h s = poll32 h (REG_NDMA 0x1C WIFI_NDMA_CHAN) NDMA_ENABLE s"

text \<open>The five register writes both transfer functions make, the channel control last.\<close>

definition ndma_program :: "u32 \<Rightarrow> u32 \<Rightarrow> u32 \<Rightarrow> u32 \<Rightarrow> 'a machine_scheme \<Rightarrow> 'a machine_scheme" where
  "ndma_program src dst len cnt s =
     (let s = emit (W32 (REG_NDMA 0x04 WIFI_NDMA_CHAN) src) s;
          s = emit (W32 (REG_NDMA 0x08 WIFI_NDMA_CHAN) dst) s;
          s = emit (W32 (REG_NDMA 0x0C WIFI_NDMA_CHAN) (len div 4)) s;
          s = emit (W32 (REG_NDMA 0x10 WIFI_NDMA_CHAN) (0x80 div 4)) s
      in emit (W32 (REG_NDMA 0x1C WIFI_NDMA_CHAN) cnt) s)"

definition wifi_ndma_read :: "hw \<Rightarrow> u32 \<Rightarrow> u32 \<Rightarrow> 'a machine_scheme \<Rightarrow> 'a machine_scheme" where
  "wifi_ndma_read h dst len s =
     (let s = ndma_program (REG_SDIO_BASE + WIFI_SDIO_OFFS_DATA32_FIFO) dst len
                (NDMA_ENABLE OR NDMA_BLOCK_SIZE (0x80 div 4) OR NDMA_STARTUP_MODE NDMA_STARTUP_WIFI
                 OR NDMA_SRC_MODE NDMA_MODE_FIXED OR NDMA_DST_MODE NDMA_MODE_INC) s;
          data = map (hw_dma h (tr s)) [0..<4 * unat (len div 4)]
      in emit (DmaIn dst data) (s\<lparr>mem := mem_write (mem s) dst data\<rparr>))"

definition wifi_ndma_write :: "hw \<Rightarrow> u32 \<Rightarrow> u32 \<Rightarrow> 'a machine_scheme \<Rightarrow> 'a machine_scheme option" where
  "wifi_ndma_write h src len s = do {
     s \<leftarrow> poll32 h (REG_NDMA 0x1C WIFI_NDMA_CHAN) NDMA_ENABLE s;
     let s = ndma_program src (REG_SDIO_BASE + WIFI_SDIO_OFFS_DATA32_FIFO) len
                (NDMA_ENABLE OR NDMA_BLOCK_SIZE (0x80 div 4) OR NDMA_STARTUP_MODE NDMA_STARTUP_WIFI
                 OR NDMA_SRC_MODE NDMA_MODE_INC OR NDMA_DST_MODE NDMA_MODE_FIXED) s;
     Some (emit (DmaOut src (mem_read (mem s) src (4 * unat (len div 4)))) s) }"

subsection \<open>Commands\<close>

record wifi_sdio_command =
  cmd_cmd :: u32
  cmd_command_type :: u32
  cmd_response_type :: u32
  cmd_data_transfer :: bool
  cmd_data_direction :: bool    \<comment> \<open>\<^verbatim>\<open>wifi_sdio_data_read\<close> is 1\<close>
  cmd_data_length :: bool       \<comment> \<open>\<^verbatim>\<open>wifi_sdio_multiple_block\<close> is 1\<close>
  cmd_secure :: bool

abbreviation (input) wifi_sdio_resp_none :: u32 where "wifi_sdio_resp_none \<equiv> 3"
abbreviation (input) wifi_sdio_resp_48bit :: u32 where "wifi_sdio_resp_48bit \<equiv> 4"
abbreviation (input) wifi_sdio_resp_48bit_busy :: u32 where "wifi_sdio_resp_48bit_busy \<equiv> 5"
abbreviation (input) wifi_sdio_resp_136bit :: u32 where "wifi_sdio_resp_136bit \<equiv> 6"
abbreviation (input) wifi_sdio_resp_48bit_ocr_no_crc7 :: u32 where
  "wifi_sdio_resp_48bit_ocr_no_crc7 \<equiv> 7"

text \<open>The bit-field union read through \<^verbatim>\<open>raw\<close>: fields packed from bit 0 upwards.\<close>

definition cmd_raw :: "wifi_sdio_command \<Rightarrow> u16" where
  "cmd_raw c = ucast (cmd_cmd c AND 0x3F) OR push_bit 6 (ucast (cmd_command_type c AND 3))
     OR push_bit 8 (ucast (cmd_response_type c AND 7))
     OR (if cmd_data_transfer c then 0x0800 else 0) OR (if cmd_data_direction c then 0x1000 else 0)
     OR (if cmd_data_length c then 0x2000 else 0) OR (if cmd_secure c then 0x4000 else 0)"

definition or_status :: "u32 \<Rightarrow> 'a machine_scheme \<Rightarrow> 'a machine_scheme" where
  "or_status v s = s\<lparr>tmio := (tmio s)\<lparr>ctx_status := ctx_status (tmio s) OR v\<rparr>\<rparr>"

text \<open>The inner copy loops \<^verbatim>\<open>while (buffer != buffer_end)\<close>, one 32-bit word per turn.\<close>

partial_function (option) sdio_fifo_in ::
  "hw \<Rightarrow> u32 \<Rightarrow> u32 \<Rightarrow> 'a machine_scheme \<Rightarrow> 'a machine_scheme option" where
  "sdio_fifo_in h buffer buffer_end s =
     (if buffer = buffer_end then Some s
      else let (v, s') = wifi_sdio_read32 h (ctx_controller (tmio s)) WIFI_SDIO_OFFS_DATA32_FIFO s
           in sdio_fifo_in h (buffer + 4) buffer_end
                (s'\<lparr>mem := mem_write (mem s') buffer (putle32 v)\<rparr>))"

partial_function (option) sdio_fifo_out ::
  "u32 \<Rightarrow> u32 \<Rightarrow> 'a machine_scheme \<Rightarrow> 'a machine_scheme option" where
  "sdio_fifo_out buffer buffer_end s =
     (if buffer = buffer_end then Some s
      else sdio_fifo_out (buffer + 4) buffer_end
             (wifi_sdio_write32 (ctx_controller (tmio s)) WIFI_SDIO_OFFS_DATA32_FIFO
                (getle32 (view (mem s) buffer)) s))"

text \<open>The ``ready to receive'' and ``transmission requested'' arms of the wait loop.\<close>

definition sdio_rx :: "hw \<Rightarrow> wifi_sdio_command \<Rightarrow> u16 \<Rightarrow> u32 \<Rightarrow> u32 \<Rightarrow> 'a machine_scheme
    \<Rightarrow> (u32 \<times> u32 \<times> 'a machine_scheme) option" where
  "sdio_rx h cmd cnt32 buffer sz s =
     (if cnt32 AND 0x100 \<noteq> 0 \<and> cmd_data_direction cmd \<and> buffer \<noteq> 0
      then let s = wifi_sdio_mask16 h (ctx_controller (tmio s)) WIFI_SDIO_OFFS_IRQ_STAT1
                     WIFI_SDIO_STAT1_RXRDY 0 s;
               bs = ucast (ctx_block_size (tmio s))
           in if sz > bs - 1
              then do { s \<leftarrow> sdio_fifo_in h buffer (buffer + bs) s; Some (buffer + bs, sz - bs, s) }
              else Some (buffer, sz, s)
      else Some (buffer, sz, s))"

definition sdio_tx :: "hw \<Rightarrow> wifi_sdio_command \<Rightarrow> u16 \<Rightarrow> u32 \<Rightarrow> u32 \<Rightarrow> 'a machine_scheme
    \<Rightarrow> (u32 \<times> u32 \<times> 'a machine_scheme) option" where
  "sdio_tx h cmd stat1 buffer sz s =
     (if stat1 AND WIFI_SDIO_STAT1_TXRQ \<noteq> 0 \<and> \<not> cmd_data_direction cmd \<and> buffer \<noteq> 0
      then let s = wifi_sdio_mask16 h (ctx_controller (tmio s)) WIFI_SDIO_OFFS_IRQ_STAT1
                     WIFI_SDIO_STAT1_TXRQ 0 s;
               bs = ucast (ctx_block_size (tmio s))
           in if sz > bs - 1
              then do { s \<leftarrow> sdio_fifo_out buffer (buffer + bs) s; Some (buffer + bs, sz - bs, s) }
              else Some (buffer, sz, s)
      else Some (buffer, sz, s))"

definition sdio_end :: "hw \<Rightarrow> wifi_sdio_command \<Rightarrow> u16 \<Rightarrow> u16 \<Rightarrow> u32 \<Rightarrow> 'a machine_scheme
    \<Rightarrow> bool \<times> 'a machine_scheme" where
  "sdio_end h cmd flags stat1 sz s =
     (let c = ctx_controller (tmio s);
          (end_cond, s) =
            (if cmd_data_length cmd
             then let (stat0, s) = wifi_sdio_read16 h c WIFI_SDIO_OFFS_IRQ_STAT0 s
                  in (stat0 AND WIFI_SDIO_STAT0_CMDRESPEND \<noteq> 0 \<and> sz = 0, s)
             else (stat1 AND WIFI_SDIO_STAT1_CMD_BUSY = 0, s))
      in if end_cond
         then let (stat0, s) = wifi_sdio_read16 h c WIFI_SDIO_OFFS_IRQ_STAT0 s;
                  s = (if stat0 AND WIFI_SDIO_STAT0_CMDRESPEND \<noteq> 0 then or_status 1 s else s);
                  s = (if stat0 AND WIFI_SDIO_STAT0_DATAEND \<noteq> 0 then or_status 2 s else s)
              in (stat0 AND flags = flags, s)
         else (False, s))"

partial_function (option) sdio_wait ::
  "hw \<Rightarrow> wifi_sdio_command \<Rightarrow> u16 \<Rightarrow> u32 \<Rightarrow> u32 \<Rightarrow> 'a machine_scheme \<Rightarrow> 'a machine_scheme option" where
  "sdio_wait h cmd flags buffer sz s =
     (let c = ctx_controller (tmio s);
          (stat1, s) = wifi_sdio_read16 h c WIFI_SDIO_OFFS_IRQ_STAT1 s;
          (cnt32, s) = wifi_sdio_read16 h c WIFI_SDIO_OFFS_IRQ32 s
      in do {
        (buffer, sz, s) \<leftarrow> sdio_rx h cmd cnt32 buffer sz s;
        (buffer, sz, s) \<leftarrow> sdio_tx h cmd stat1 buffer sz s;
        if stat1 AND WIFI_SDIO_MASK_ERR \<noteq> 0
        then Some (or_status 4
               (if ctx_debug (tmio s)
                then wifi_printlnf [Lit ''ERR#: '', HEX 4 (ucast (stat1 AND WIFI_SDIO_MASK_ERR)),
                       Lit '' 0000''] s
                else s))
        else let (finished, s) = sdio_end h cmd flags stat1 sz s
             in if finished then Some s
                else if ctx_break_early (tmio s) \<and> sz = 0 then Some s
                else sdio_wait h cmd flags buffer sz s })"

definition sdio_response :: "hw \<Rightarrow> nat \<Rightarrow> 'a machine_scheme \<Rightarrow> u32 \<times> 'a machine_scheme" where
  "sdio_response h i s =
     (let c = ctx_controller (tmio s);
          (lo, s) = wifi_sdio_read16 h c (WIFI_SDIO_OFFS_RESP (2 * i)) s;
          (hi, s) = wifi_sdio_read16 h c (WIFI_SDIO_OFFS_RESP (2 * i + 1)) s
      in (ucast lo OR push_bit 16 (ucast hi), s))"

definition sdio_finish :: "hw \<Rightarrow> wifi_sdio_command \<Rightarrow> 'a machine_scheme \<Rightarrow> 'a machine_scheme" where
  "sdio_finish h cmd s =
     (let c = ctx_controller (tmio s);
          (v, s) = wifi_sdio_read16 h c WIFI_SDIO_OFFS_IRQ_STAT0 s;
          s = s\<lparr>tmio := (tmio s)\<lparr>ctx_stat0 := v\<rparr>\<rparr>;
          (v, s) = wifi_sdio_read16 h c WIFI_SDIO_OFFS_IRQ_STAT1 s;
          s = s\<lparr>tmio := (tmio s)\<lparr>ctx_stat1 := v\<rparr>\<rparr>;
          (v, s) = wifi_sdio_read16 h c WIFI_SDIO_OFFS_ERR_DETAIL0 s;
          s = s\<lparr>tmio := (tmio s)\<lparr>ctx_err0 := v\<rparr>\<rparr>;
          (v, s) = wifi_sdio_read16 h c WIFI_SDIO_OFFS_ERR_DETAIL1 s;
          s = s\<lparr>tmio := (tmio s)\<lparr>ctx_err1 := v\<rparr>\<rparr>;
          s = wifi_sdio_write16 c WIFI_SDIO_OFFS_IRQ_STAT0 0 s;
          s = wifi_sdio_write16 c WIFI_SDIO_OFFS_IRQ_STAT1 0 s;
          s = (if cmd_response_type cmd \<noteq> wifi_sdio_resp_none
               then let (r0, s) = sdio_response h 0 s; (r1, s) = sdio_response h 1 s;
                        (r2, s) = sdio_response h 2 s; (r3, s) = sdio_response h 3 s
                    in s\<lparr>tmio := (tmio s)\<lparr>ctx_resp := [r0, r1, r2, r3]\<rparr>\<rparr>
               else s)
      in if ctx_debug (tmio s)
         then let t = tmio s;
                  s = wifi_printlnf [Lit ''STAT: '', HEX 4 (ucast (ctx_stat1 t)), Lit '' '',
                        HEX 4 (ucast (ctx_stat0 t)), Lit '' ('', HEX 0 (ctx_status t), Lit '') INFO: '',
                        HEX 4 (ucast (ctx_err1 t)), Lit '' '', HEX 4 (ucast (ctx_err0 t))] s;
                  s = (if cmd_response_type cmd \<noteq> wifi_sdio_resp_none
                       then if cmd_response_type cmd = wifi_sdio_resp_136bit
                            then wifi_printlnf [Lit ''RESP: '', HEX 8 (ctx_resp t ! 0), Lit '' '',
                                   HEX 8 (ctx_resp t ! 1), Lit '' '', HEX 8 (ctx_resp t ! 2), Lit '' '',
                                   HEX 8 (ctx_resp t ! 3)] s
                            else wifi_printlnf [Lit ''RESP: '', HEX 8 (ctx_resp t ! 0)] s
                       else s)
              in wifi_printlnf [] s
         else s)"

text \<open>
  The command and argument registers, the block geometry and the transfer mode, up to the
  write that starts the command.
\<close>

definition sdio_setup :: "wifi_sdio_command \<Rightarrow> u32 \<Rightarrow> u32 \<Rightarrow> 'a machine_scheme \<Rightarrow> 'a machine_scheme" where
  "sdio_setup cmd args sz s =
     (let c = ctx_controller (tmio s);
          bs = ctx_block_size (tmio s);
          blks = ucast (sz div ucast bs) :: u16;
          s = wifi_sdio_write16 c WIFI_SDIO_OFFS_IRQ_STAT0 0 s;
          s = wifi_sdio_write16 c WIFI_SDIO_OFFS_IRQ_STAT1 0 s;
          s = wifi_sdio_write16 c WIFI_SDIO_OFFS_CMD_PARAM0 (ucast (args AND 0xFFFF)) s;
          s = wifi_sdio_write16 c WIFI_SDIO_OFFS_CMD_PARAM1 (ucast (drop_bit 16 args)) s;
          s = wifi_sdio_write16 c WIFI_SDIO_OFFS_DATA16_BLK_LEN bs s;
          s = wifi_sdio_write16 c WIFI_SDIO_OFFS_DATA16_BLK_CNT blks s;
          s = wifi_sdio_write16 c WIFI_SDIO_OFFS_DATA32_BLK_LEN bs s;
          s = wifi_sdio_write16 c WIFI_SDIO_OFFS_DATA32_BLK_CNT blks s;
          s = (if cmd_data_length cmd
               then let s = wifi_sdio_write16 c WIFI_SDIO_OFFS_DATA16_CNT 0x0002 s
                    in if cmd_data_direction cmd
                       then wifi_sdio_write16 c WIFI_SDIO_OFFS_IRQ32 0xC02 s
                       else wifi_sdio_write16 c WIFI_SDIO_OFFS_IRQ32 0x1402 s
               else s)
      in wifi_sdio_write16 c WIFI_SDIO_OFFS_CMD (cmd_raw cmd) s)"

definition wifi_sdio_send_command ::
  "hw \<Rightarrow> wifi_sdio_command \<Rightarrow> u32 \<Rightarrow> 'a machine_scheme \<Rightarrow> 'a machine_scheme option" where
  "wifi_sdio_send_command h cmd args s =
     (if ctx_controller (tmio s) = 0 then Some s else
      let s = (if ctx_block_size (tmio s) = 0
               then s\<lparr>tmio := (tmio s)\<lparr>ctx_block_size := 512\<rparr>\<rparr> else s);
          buffer = ctx_buffer (tmio s);
          sz = ctx_size (tmio s);
          s = s\<lparr>tmio := (tmio s)\<lparr>ctx_status := 0\<rparr>\<rparr>;
          flags = (if cmd_response_type cmd \<noteq> wifi_sdio_resp_none
                   then WIFI_SDIO_STAT0_CMDRESPEND else 0)
               OR (if cmd_data_transfer cmd then WIFI_SDIO_STAT0_DATAEND else 0);
          s = (if ctx_debug (tmio s)
               then wifi_printlnf [Lit ''CMD#: 0x'', HEX 4 (ucast (cmd_raw cmd)), Lit '' ('',
                      Dec (cmd_cmd cmd), Lit '') ('', HEX 0 (ucast flags), Lit '') -> '',
                      Dec (ucast (ctx_port (tmio s))), Lit '':'', Dec (ucast (ctx_address (tmio s)))] s
               else s)
      in if buffer \<noteq> 0 \<and> buffer AND 3 \<noteq> 0 then Some (or_status 4 s)
         else do {
           s \<leftarrow> poll16 h (ctx_controller (tmio s) + WIFI_SDIO_OFFS_IRQ_STAT1) WIFI_SDIO_STAT1_CMD_BUSY s;
           let s = sdio_setup cmd args sz s;
           if cmd_data_direction cmd \<and> cmd_data_length cmd \<and> buffer \<noteq> 0
           then Some (wifi_ndma_read h buffer sz s)
           else if \<not> cmd_data_direction cmd \<and> cmd_data_length cmd \<and> buffer \<noteq> 0
           then wifi_ndma_write h buffer sz s
           else do {
             s \<leftarrow> sdio_wait h cmd flags buffer sz s;
             Some (sdio_finish h cmd s) } })"

subsection \<open>Register traffic is quiet\<close>

named_theorems quiet_intros \<open>rules that carry a quiet prefix over one more operation\<close>

lemma quiet_step: "quiet t (f t) \<Longrightarrow> quiet s t \<Longrightarrow> quiet s (f t)"
  by (rule quiet_trans)

lemma quiet_emitI [quiet_intros]: "side_event e \<Longrightarrow> quiet s t \<Longrightarrow> quiet s (emit e t)"
  by (blast intro: quiet_emit quiet_trans)

lemma quiet_printI [quiet_intros]:
  "quiet s t \<Longrightarrow> quiet s (wifi_printf fs t)" "quiet s t \<Longrightarrow> quiet s (wifi_printlnf fs t)"
  by (blast intro: quiet_trans)+

lemma quiet_tmioI [quiet_intros]:
  "same_config (tmio t) c \<Longrightarrow> quiet s t \<Longrightarrow> quiet s (t\<lparr>tmio := c\<rparr>)"
  by (blast intro: quiet_trans quiet_tmio)

lemma quiet_read16I [quiet_intros]: "quiet s t \<Longrightarrow> quiet s (snd (wifi_sdio_read16 h c r t))"
  unfolding wifi_sdio_read16_def by (blast intro: quiet_trans)

lemma quiet_read32I [quiet_intros]: "quiet s t \<Longrightarrow> quiet s (snd (wifi_sdio_read32 h c r t))"
  unfolding wifi_sdio_read32_def by (blast intro: quiet_trans)

lemma quiet_write16I [quiet_intros]: "quiet s t \<Longrightarrow> quiet s (wifi_sdio_write16 c r v t)"
  unfolding wifi_sdio_write16_def by (rule quiet_emitI) simp_all

lemma quiet_write32I [quiet_intros]: "quiet s t \<Longrightarrow> quiet s (wifi_sdio_write32 c r v t)"
  unfolding wifi_sdio_write32_def by (rule quiet_emitI) simp_all

lemma quiet_mask16I [quiet_intros]: "quiet s t \<Longrightarrow> quiet s (wifi_sdio_mask16 h c r cl st t)"
  unfolding wifi_sdio_mask16_def Let_def split_beta by (intro quiet_intros)

lemma quiet_setclkI [quiet_intros]: "quiet s t \<Longrightarrow> quiet s (wifi_sdio_setclk h c d t)"
  unfolding wifi_sdio_setclk_def Let_def by (intro quiet_intros)

lemma quiet_stopI [quiet_intros]: "quiet s t \<Longrightarrow> quiet s (wifi_sdio_stop c t)"
  unfolding wifi_sdio_stop_def by (intro quiet_intros)

lemma quiet_cardirqI [quiet_intros]: "quiet s t \<Longrightarrow> quiet s (wifi_sdio_enable_cardirq h c en t)"
  unfolding wifi_sdio_enable_cardirq_def by (auto intro!: quiet_intros)

lemma quiet_switch_deviceI [quiet_intros]: "quiet s t \<Longrightarrow> quiet s (wifi_sdio_switch_device h t)"
  unfolding wifi_sdio_switch_device_def Let_def by (auto intro!: quiet_intros)

lemma quiet_controller_init: "quiet s t \<Longrightarrow> quiet s (wifi_sdio_controller_init h c t)"
  unfolding wifi_sdio_controller_init_def Let_def by (auto intro!: quiet_intros)

lemma quiet_ndma_init: "quiet s t \<Longrightarrow> quiet s (wifi_ndma_init t)"
  unfolding wifi_ndma_init_def by (intro quiet_intros) simp_all

lemma quiet_ndma_programI [quiet_intros]:
  "quiet s t \<Longrightarrow> quiet s (ndma_program src dst len cnt t)"
  unfolding ndma_program_def Let_def by (intro quiet_intros) simp_all

lemma mem_ndma_program [simp]: "mem (ndma_program src dst len cnt s) = mem s"
  by (simp add: ndma_program_def Let_def)

lemma quiet_or_statusI [quiet_intros]: "quiet s t \<Longrightarrow> quiet s (or_status v t)"
  unfolding or_status_def by (intro quiet_intros) (simp_all add: same_config_def)

lemma quiet_responseI [quiet_intros]: "quiet s t \<Longrightarrow> quiet s (snd (sdio_response h i t))"
  unfolding sdio_response_def Let_def split_beta by (simp, intro quiet_intros)

lemma quiet_if [quiet_intros]: "(b \<Longrightarrow> quiet s t) \<Longrightarrow> (\<not> b \<Longrightarrow> quiet s u) \<Longrightarrow> quiet s (if b then t else u)"
  by simp

lemma quiet_snd_if [quiet_intros]:
  "(b \<Longrightarrow> quiet s (snd t)) \<Longrightarrow> (\<not> b \<Longrightarrow> quiet s (snd u)) \<Longrightarrow> quiet s (snd (if b then t else u))"
  by simp

lemma quiet_snd_Pair [quiet_intros]: "quiet s t \<Longrightarrow> quiet s (snd (a, t))"
  by simp

lemma quiet_setupI [quiet_intros]: "quiet s t \<Longrightarrow> quiet s (sdio_setup cmd args sz t)"
  unfolding sdio_setup_def Let_def by (intro quiet_intros)

lemma quiet_finishI: "quiet s t \<Longrightarrow> quiet s (sdio_finish h cmd t)"
  unfolding sdio_finish_def Let_def split_beta
  by (intro quiet_intros | simp add: same_config_def)+

lemma quiet_endI [quiet_intros]: "quiet s t \<Longrightarrow> quiet s (snd (sdio_end h cmd flags stat1 sz t))"
  unfolding sdio_end_def Let_def split_beta by (intro quiet_intros)

subsection \<open>Liveness of the controller\<close>

text \<open>
  The controller is live when busy answers run out: there is a rank on histories that no
  read raises and that every busy answer lowers (command register busy, command not yet
  complete, DMA channel still enabled).
\<close>

definition live :: "hw \<Rightarrow> bool" where
  "live h \<longleftrightarrow> (\<exists>rank :: event list \<Rightarrow> nat.
     (\<forall>t a. rank (R16 a (hw_r16 h t a) # t) \<le> rank t) \<and>
     (\<forall>t a. rank (R32 a (hw_r32 h t a) # t) \<le> rank t) \<and>
     (\<forall>t. let a = REG_SDIO_BASE + WIFI_SDIO_OFFS_IRQ_STAT1; v = hw_r16 h t a in
        v AND WIFI_SDIO_STAT1_CMD_BUSY \<noteq> 0 \<longrightarrow> rank (R16 a v # t) < rank t) \<and>
     (\<forall>t. let a = REG_SDIO_BASE + WIFI_SDIO_OFFS_IRQ_STAT0; v = hw_r16 h t a in
        v AND 5 \<noteq> 5 \<longrightarrow> rank (R16 a v # t) < rank t) \<and>
     (\<forall>t. let a = REG_NDMA 0x1C WIFI_NDMA_CHAN; v = hw_r32 h t a in
        v AND NDMA_ENABLE \<noteq> 0 \<longrightarrow> rank (R32 a v # t) < rank t))"

text \<open>A controller that is always idle and always done is live.\<close>

definition idle_hw :: hw where
  "idle_hw = \<lparr>hw_r16 = (\<lambda>t a. if a = REG_SDIO_BASE + WIFI_SDIO_OFFS_IRQ_STAT0 then 5 else 0),
     hw_r32 = (\<lambda>t a. 0), hw_dma = (\<lambda>t i. 0), hw_rand = (\<lambda>t. 0), hw_flash = (\<lambda>a. 0),
     hw_alloc = (\<lambda>t. 0x2000000), hw_stack = (\<lambda>t i. 0), hw_calloc = (\<lambda>t. True)\<rparr>"

lemma live_idle_hw: "live idle_hw"
  unfolding live_def by (rule exI [of _ "\<lambda>_. 0"]) (simp add: idle_hw_def REG_NDMA_def)

lemma poll16_partial: "poll16 h a msk s = Some t \<Longrightarrow> quiet s t"
proof (induction rule: poll16.raw_induct [rotated 1, consumes 1, case_names step])
  case (step f h a msk s t)
  let ?s = "snd (mmio_read16 h a s)"
  from step have "quiet ?s t \<or> t = ?s"
    by (auto simp: Let_def split_beta split: if_splits)
  then show ?case using quiet_mmio_read16 [of s h a] by (blast intro: quiet_trans)
qed


lemma poll32_partial: "poll32 h a msk s = Some t \<Longrightarrow> quiet s t"
proof (induction rule: poll32.raw_induct [rotated 1, consumes 1, case_names step])
  case (step f h a msk s t)
  let ?s = "snd (mmio_read32 h a s)"
  from step have "quiet ?s t \<or> t = ?s"
    by (auto simp: Let_def split_beta split: if_splits)
  then show ?case using quiet_mmio_read32 [of s h a] by (blast intro: quiet_trans)
qed

text \<open>What the DMA channel driver puts on the bus: 32-bit register accesses only.\<close>

primrec dma_event :: "event \<Rightarrow> bool" where
  "dma_event (R16 a v) = False"
| "dma_event (R32 a v) = True"
| "dma_event (W16 a v) = False"
| "dma_event (W32 a v) = True"
| "dma_event (DmaOut a bs) = False"
| "dma_event (DmaIn a bs) = False"
| "dma_event (Fifo c bs) = False"
| "dma_event (Rand v) = False"
| "dma_event (Rtc bs) = False"
| "dma_event (I2c a b c) = False"
| "dma_event (IrqSet v) = False"
| "dma_event (IrqOn v) = False"
| "dma_event (IrqOff v) = False"
| "dma_event (Timer n) = False"
| "dma_event (Alloc a) = False"
| "dma_event Handler = False"

lemma poll32_dma: "poll32 h a msk s = Some t \<Longrightarrow> \<exists>es. tr t = es @ tr s \<and> list_all dma_event es"
proof (induction rule: poll32.raw_induct [rotated 1, consumes 1, case_names step])
  case (step f h a msk s t)
  let ?e = "R32 a (hw_r32 h (tr s) a)"
  from step have "(\<exists>es. tr t = es @ ?e # tr s \<and> list_all dma_event es) \<or> tr t = ?e # tr s"
    by (fastforce simp: mmio_read32_def Let_def split: if_splits)
  then show ?case
  proof
    assume "\<exists>es. tr t = es @ ?e # tr s \<and> list_all dma_event es"
    then obtain es where "tr t = es @ ?e # tr s" "list_all dma_event es" by blast
    then show ?thesis by (intro exI [of _ "es @ [?e]"]) simp
  qed (intro exI [of _ "[?e]"], simp)
qed

lemma ndma_program_dma: "\<exists>es. tr (ndma_program src dst n cnt s) = es @ tr s \<and> list_all dma_event es"
  by (rule exI [of _ "[W32 (REG_NDMA 0x1C WIFI_NDMA_CHAN) cnt, W32 (REG_NDMA 0x10 WIFI_NDMA_CHAN) (0x80 div 4),
      W32 (REG_NDMA 0x0C WIFI_NDMA_CHAN) (n div 4), W32 (REG_NDMA 0x08 WIFI_NDMA_CHAN) dst,
      W32 (REG_NDMA 0x04 WIFI_NDMA_CHAN) src]"]) (simp add: ndma_program_def Let_def)

lemma poll16_total:
  assumes "\<And>t. hw_r16 h t a AND msk \<noteq> 0 \<Longrightarrow> (rank :: event list \<Rightarrow> nat) (R16 a (hw_r16 h t a) # t) < rank t"
  shows "\<exists>t. poll16 h a msk s = Some t"
proof (induction "rank (tr s)" arbitrary: s rule: less_induct)
  case less
  show ?case
  proof (cases "hw_r16 h (tr s) a AND msk = 0")
    case False
    from assms [OF False] less [of "snd (mmio_read16 h a s)"] False show ?thesis
      by (subst poll16.simps) (simp add: mmio_read16_def Let_def)
  qed (subst poll16.simps, simp add: mmio_read16_def Let_def)
qed

lemma poll32_total:
  assumes "\<And>t. hw_r32 h t a AND msk \<noteq> 0 \<Longrightarrow> (rank :: event list \<Rightarrow> nat) (R32 a (hw_r32 h t a) # t) < rank t"
  shows "\<exists>t. poll32 h a msk s = Some t"
proof (induction "rank (tr s)" arbitrary: s rule: less_induct)
  case less
  show ?case
  proof (cases "hw_r32 h (tr s) a AND msk = 0")
    case False
    from assms [OF False] less [of "snd (mmio_read32 h a s)"] False show ?thesis
      by (subst poll32.simps) (simp add: mmio_read32_def Let_def)
  qed (subst poll32.simps, simp add: mmio_read32_def Let_def)
qed

lemma poll_busy_ok:
  "ok (live h) (poll16 h (REG_SDIO_BASE + WIFI_SDIO_OFFS_IRQ_STAT1) WIFI_SDIO_STAT1_CMD_BUSY s) (quiet s)"
proof -
  have "\<exists>t. poll16 h (REG_SDIO_BASE + WIFI_SDIO_OFFS_IRQ_STAT1) WIFI_SDIO_STAT1_CMD_BUSY s = Some t"
    if "live h"
  proof -
    from that obtain rank :: "event list \<Rightarrow> nat" where
      "\<And>t. let a = REG_SDIO_BASE + WIFI_SDIO_OFFS_IRQ_STAT1; v = hw_r16 h t a in
        v AND WIFI_SDIO_STAT1_CMD_BUSY \<noteq> 0 \<longrightarrow> rank (R16 a v # t) < rank t"
      unfolding live_def by blast
    then show ?thesis unfolding Let_def by (intro poll16_total [where rank = rank]) blast
  qed
  then show ?thesis by (auto simp: ok_def split: option.splits dest: poll16_partial)
qed

lemma wifi_ndma_wait_ok: "ok (live h) (wifi_ndma_wait h s) (quiet s)"
proof -
  have "\<exists>t. wifi_ndma_wait h s = Some t" if "live h"
  proof -
    from that obtain rank :: "event list \<Rightarrow> nat" where
      "\<And>t. let a = REG_NDMA 0x1C WIFI_NDMA_CHAN; v = hw_r32 h t a in
        v AND NDMA_ENABLE \<noteq> 0 \<longrightarrow> rank (R32 a v # t) < rank t"
      unfolding live_def by blast
    then show ?thesis
      unfolding Let_def wifi_ndma_wait_def by (intro poll32_total [where rank = rank]) blast
  qed
  then show ?thesis by (auto simp: ok_def wifi_ndma_wait_def split: option.splits dest: poll32_partial)
qed

lemma ndma_poll_ok:
  "ok (live h) (poll32 h (REG_NDMA 0x1C WIFI_NDMA_CHAN) NDMA_ENABLE s)
     (\<lambda>t. quiet s t \<and> (\<exists>es. tr t = es @ tr s \<and> list_all dma_event es))"
  by (rule ok_mono_eq [OF wifi_ndma_wait_ok [unfolded wifi_ndma_wait_def]]) (simp add: poll32_dma)

subsection \<open>Commands without data\<close>

text \<open>
  A command that moves no data (\<^verbatim>\<open>buffer\<close> NULL, single block) ends on a live controller and
  is quiet: the wait loop goes round only on answers that lower the rank.
\<close>

lemma sdio_rx_NULL [simp]: "sdio_rx h cmd cnt32 0 sz s = Some (0, sz, s)"
  by (simp add: sdio_rx_def)

lemma sdio_tx_NULL [simp]: "sdio_tx h cmd stat1 0 sz s = Some (0, sz, s)"
  by (simp add: sdio_tx_def)

text \<open>One turn of the wait loop without data: \<open>Inl\<close> leaves the loop, \<open>Inr\<close> goes round.\<close>

definition sdio_turn :: "hw \<Rightarrow> wifi_sdio_command \<Rightarrow> u16 \<Rightarrow> u32 \<Rightarrow> 'a machine_scheme
    \<Rightarrow> 'a machine_scheme + 'a machine_scheme" where
  "sdio_turn h cmd flags sz s =
     (let c = ctx_controller (tmio s);
          (stat1, s) = wifi_sdio_read16 h c WIFI_SDIO_OFFS_IRQ_STAT1 s;
          (cnt32, s) = wifi_sdio_read16 h c WIFI_SDIO_OFFS_IRQ32 s
      in if stat1 AND WIFI_SDIO_MASK_ERR \<noteq> 0
         then Inl (or_status 4
               (if ctx_debug (tmio s)
                then wifi_printlnf [Lit ''ERR#: '', HEX 4 (ucast (stat1 AND WIFI_SDIO_MASK_ERR)),
                       Lit '' 0000''] s
                else s))
         else let (finished, s) = sdio_end h cmd flags stat1 sz s
              in if finished then Inl s
                 else if ctx_break_early (tmio s) \<and> sz = 0 then Inl s else Inr s)"

lemma sdio_wait_turn:
  "sdio_wait h cmd flags 0 sz s =
     (case sdio_turn h cmd flags sz s of Inl t \<Rightarrow> Some t | Inr t \<Rightarrow> sdio_wait h cmd flags 0 sz t)"
  by (subst sdio_wait.simps) (auto simp: sdio_turn_def Let_def split_beta)

lemma quiet_turn:
  "(case sdio_turn h cmd flags sz s of Inl t \<Rightarrow> quiet s t | Inr t \<Rightarrow> quiet s t)"
  unfolding sdio_turn_def Let_def split_beta
  by (auto intro!: quiet_intros)

lemma quiet_controller: "quiet s t \<Longrightarrow> ctx_controller (tmio t) = ctx_controller (tmio s)"
  by (simp add: quiet_def same_config_def)

lemma flags_incomplete:
  fixes v flags :: u16
  assumes "flags AND 5 = flags" and "v AND flags \<noteq> flags"
  shows "v AND 5 \<noteq> 5"
proof
  assume "v AND 5 = 5"
  with assms(1) have "v AND flags = flags" by (metis and.assoc and.commute)
  with assms(2) show False by simp
qed

lemma turn_lowers_rank:
  fixes rank :: "event list \<Rightarrow> nat"
  assumes r16: "\<And>t a. rank (R16 a (hw_r16 h t a) # t) \<le> rank t"
    and busy: "\<And>t. hw_r16 h t 0x4004A1E AND WIFI_SDIO_STAT1_CMD_BUSY \<noteq> 0 \<Longrightarrow>
       rank (R16 0x4004A1E (hw_r16 h t 0x4004A1E) # t) < rank t"
    and incomplete: "\<And>t. hw_r16 h t 0x4004A1C AND 5 \<noteq> 5 \<Longrightarrow>
       rank (R16 0x4004A1C (hw_r16 h t 0x4004A1C) # t) < rank t"
    and c: "ctx_controller (tmio s) = REG_SDIO_BASE" and nb: "\<not> cmd_data_length cmd"
    and fl: "flags AND 5 = flags" and round: "sdio_turn h cmd flags sz s = Inr t"
  shows "rank (tr t) < rank (tr s)"
proof -
  let ?v = "hw_r16 h (tr s) 0x4004A1E"
  let ?t1 = "R16 0x4004A1E ?v # tr s"
  let ?t2 = "R16 0x4004B00 (hw_r16 h ?t1 0x4004B00) # ?t1"
  have le: "rank ?t1 \<le> rank (tr s)" "rank ?t2 \<le> rank ?t1" by (rule r16)+
  show ?thesis
  proof (cases "?v AND WIFI_SDIO_STAT1_CMD_BUSY = 0")
    case False
    with round c nb have "tr t = ?t2"
      by (auto simp: sdio_turn_def sdio_end_def wifi_sdio_read16_def mmio_read16_def Let_def
          split: if_splits)
    with le busy [OF False] show ?thesis by simp
  next
    case True
    with round c nb have t: "tr t = R16 0x4004A1C (hw_r16 h ?t2 0x4004A1C) # ?t2"
      and "hw_r16 h ?t2 0x4004A1C AND flags \<noteq> flags"
      by (auto simp: sdio_turn_def sdio_end_def wifi_sdio_read16_def mmio_read16_def Let_def
          or_status_def split: if_splits)
    then have "hw_r16 h ?t2 0x4004A1C AND 5 \<noteq> 5" using fl flags_incomplete by blast
    from incomplete [OF this] le t show ?thesis by simp
  qed
qed

lemma sdio_wait_partial:
  "sdio_wait h cmd flags buffer sz s = Some t \<Longrightarrow> buffer = 0 \<Longrightarrow> quiet s t"
proof (induction rule: sdio_wait.raw_induct [rotated 1, consumes 1, case_names step])
  case (step f h cmd flags buffer sz s t)
  have "(case sdio_turn h cmd flags sz s of Inl u \<Rightarrow> Some u | Inr u \<Rightarrow> f h cmd flags 0 sz u) = Some t"
    by (rule trans [OF _ step.hyps])
      (auto simp: sdio_turn_def Let_def split_beta \<open>buffer = 0\<close>)
  then show ?case
    using step.IH quiet_turn [where h = h and cmd = cmd and flags = flags and sz = sz and s = s]
    by (auto split: sum.splits intro: quiet_trans)
qed

lemma sdio_wait_ok:
  assumes c: "ctx_controller (tmio s) = REG_SDIO_BASE" and nb: "\<not> cmd_data_length cmd"
    and fl: "flags AND 5 = flags"
  shows "ok (live h) (sdio_wait h cmd flags 0 sz s) (quiet s)"
proof -
  have "\<exists>t. sdio_wait h cmd flags 0 sz s = Some t" if lv: "live h"
  proof -
    from lv obtain rank :: "event list \<Rightarrow> nat" where rank:
      "\<And>t a. rank (R16 a (hw_r16 h t a) # t) \<le> rank t"
      "\<And>t. hw_r16 h t 0x4004A1E AND WIFI_SDIO_STAT1_CMD_BUSY \<noteq> 0 \<Longrightarrow>
         rank (R16 0x4004A1E (hw_r16 h t 0x4004A1E) # t) < rank t"
      "\<And>t. hw_r16 h t 0x4004A1C AND 5 \<noteq> 5 \<Longrightarrow>
         rank (R16 0x4004A1C (hw_r16 h t 0x4004A1C) # t) < rank t"
      unfolding live_def Let_def by auto
    from c show ?thesis
    proof (induction "rank (tr s)" arbitrary: s rule: less_induct)
      case less
      show ?case
      proof (cases "sdio_turn h cmd flags sz s")
        case (Inr t)
        have "ctx_controller (tmio t) = REG_SDIO_BASE"
          using quiet_turn [where h = h and cmd = cmd and flags = flags and sz = sz and s = s] Inr less.prems
          by (simp add: quiet_controller)
        moreover have "rank (tr t) < rank (tr s)"
          by (rule turn_lowers_rank [where rank = rank and h = h and cmd = cmd and flags = flags
                and sz = sz, OF _ _ _ less.prems nb fl Inr]) (fact rank)+
        ultimately have "\<exists>u. sdio_wait h cmd flags 0 sz t = Some u"
          using less.hyps [of t] by blast
        moreover have "sdio_wait h cmd flags 0 sz s = sdio_wait h cmd flags 0 sz t"
          by (subst sdio_wait_turn) (simp only: Inr sum.case)
        ultimately show ?thesis by simp
      qed (subst sdio_wait_turn, simp)
    qed
  qed
  then show ?thesis by (auto simp: ok_def split: option.splits dest: sdio_wait_partial)
qed


subsection \<open>Contracts of the two kinds of command the card driver issues\<close>

text \<open>The context as \<^verbatim>\<open>wifi_card_wlan_init\<close> sets it up.\<close>

definition sdio_wf :: "'a machine_scheme \<Rightarrow> bool" where
  "sdio_wf s \<longleftrightarrow> ctx_controller (tmio s) = REG_SDIO_BASE \<and> ctx_block_size (tmio s) = 128
     \<and> \<not> ctx_debug (tmio s)"

lemma sdio_wf_quiet: "quiet s t \<Longrightarrow> sdio_wf t \<longleftrightarrow> sdio_wf s"
  by (auto simp: sdio_wf_def quiet_def same_config_def)

lemma sdio_wf_simps [simp]:
  "sdio_wf (emit e s) = sdio_wf s" "sdio_wf (s\<lparr>mem := m\<rparr>) = sdio_wf s"
  by (simp_all add: sdio_wf_def)

lemma send_command_quiet:
  assumes wf: "sdio_wf s" and nb: "\<not> cmd_data_length cmd" and b: "ctx_buffer (tmio s) = 0"
  shows "ok (live h) (wifi_sdio_send_command h cmd args s) (quiet s)"
proof -
  let ?fl = "(if cmd_response_type cmd \<noteq> wifi_sdio_resp_none then WIFI_SDIO_STAT0_CMDRESPEND else 0)
      OR (if cmd_data_transfer cmd then WIFI_SDIO_STAT0_DATAEND else 0)"
  let ?s0 = "s\<lparr>tmio := (tmio s)\<lparr>ctx_status := 0\<rparr>\<rparr>"
  have q0: "quiet s ?s0" by (intro quiet_tmio) (simp add: same_config_def)
  have c: "ctx_controller (tmio s) = REG_SDIO_BASE" "ctx_block_size (tmio s) = 128"
    "\<not> ctx_debug (tmio s)" using wf by (auto simp: sdio_wf_def)
  have "ok (live h)
     (do { u \<leftarrow> poll16 h (REG_SDIO_BASE + WIFI_SDIO_OFFS_IRQ_STAT1) WIFI_SDIO_STAT1_CMD_BUSY ?s0;
           u \<leftarrow> sdio_wait h cmd ?fl 0 (ctx_size (tmio s)) (sdio_setup cmd args (ctx_size (tmio s)) u);
           Some (sdio_finish h cmd u) }) (quiet s)"
  proof (rule ok_bind_rule [OF poll_busy_ok])
    fix u assume "quiet ?s0 u"
    let ?u = "sdio_setup cmd args (ctx_size (tmio s)) u"
    have q: "quiet s ?u" using quiet_trans [OF q0 \<open>quiet ?s0 u\<close>] by (intro quiet_intros)
    then have "ctx_controller (tmio ?u) = REG_SDIO_BASE" using c quiet_controller by fastforce
    then have "ok (live h) (sdio_wait h cmd ?fl 0 (ctx_size (tmio s)) ?u) (quiet ?u)"
      using nb by (intro sdio_wait_ok) auto
    then show "ok (live h) (do { u \<leftarrow> sdio_wait h cmd ?fl 0 (ctx_size (tmio s)) ?u;
        Some (sdio_finish h cmd u) }) (quiet s)"
      by (rule ok_bind_rule) (simp add: quiet_finishI quiet_trans [OF q])
  qed
  then show ?thesis using c nb b by (simp add: wifi_sdio_send_command_def Let_def)
qed

text \<open>
  A multiple-block write hands the buffer to the DMA channel: exactly one outgoing block, after
  the registers have been set up for the command and nothing but the DMA channel was touched since.
\<close>

definition block_start :: "wifi_sdio_command \<Rightarrow> u32 \<Rightarrow> 'a machine_scheme \<Rightarrow> 'a machine_scheme \<Rightarrow> bool" where
  "block_start cmd args s u \<longleftrightarrow> quiet s u \<and> (\<exists>v es. quiet s v \<and> list_all dma_event es
     \<and> tr u = es @ tr (sdio_setup cmd args (ctx_size (tmio s)) v))"

lemma send_command_block_write:
  assumes wf: "sdio_wf s" and bl: "cmd_data_length cmd" and w: "\<not> cmd_data_direction cmd"
    and b: "ctx_buffer (tmio s) \<noteq> 0" "ctx_buffer (tmio s) AND 3 = 0"
  shows "ok (live h) (wifi_sdio_send_command h cmd args s)
     (\<lambda>t. \<exists>u. block_start cmd args s u \<and> t = emit (DmaOut (ctx_buffer (tmio s))
        (mem_read (mem s) (ctx_buffer (tmio s)) (4 * unat (ctx_size (tmio s) div 4)))) u)"
proof -
  let ?s0 = "s\<lparr>tmio := (tmio s)\<lparr>ctx_status := 0\<rparr>\<rparr>"
  let ?b = "ctx_buffer (tmio s)" and ?n = "ctx_size (tmio s)"
  have q0: "quiet s ?s0" by (intro quiet_tmio) (simp add: same_config_def)
  have c: "ctx_controller (tmio s) = REG_SDIO_BASE" "ctx_block_size (tmio s) = 128"
    "\<not> ctx_debug (tmio s)" using wf by (auto simp: sdio_wf_def)
  have "ok (live h)
     (do { u \<leftarrow> poll16 h (REG_SDIO_BASE + WIFI_SDIO_OFFS_IRQ_STAT1) WIFI_SDIO_STAT1_CMD_BUSY ?s0;
           wifi_ndma_write h ?b ?n (sdio_setup cmd args ?n u) })
     (\<lambda>t. \<exists>u. block_start cmd args s u \<and> t = emit (DmaOut ?b (mem_read (mem s) ?b (4 * unat (?n div 4)))) u)"
  proof (rule ok_bind_rule [OF poll_busy_ok])
    fix u assume "quiet ?s0 u"
    let ?u = "sdio_setup cmd args ?n u"
    have u: "quiet s u" by (rule quiet_trans [OF q0 \<open>quiet ?s0 u\<close>])
    then have q: "quiet s ?u" by (intro quiet_intros)
    show "ok (live h) (wifi_ndma_write h ?b ?n ?u)
        (\<lambda>t. \<exists>u. block_start cmd args s u \<and> t = emit (DmaOut ?b (mem_read (mem s) ?b (4 * unat (?n div 4)))) u)"
      unfolding wifi_ndma_write_def
    proof (rule ok_bind_rule [OF ndma_poll_ok], elim conjE exE)
      fix v es assume p: "tr v = es @ tr ?u" "list_all dma_event es" and qv: "quiet ?u v"
      have v: "quiet s v" by (rule quiet_trans [OF q qv])
      then have m: "mem v = mem s" by (simp add: quiet_def)
      let ?w = "ndma_program ?b (REG_SDIO_BASE + WIFI_SDIO_OFFS_DATA32_FIFO) ?n
                (NDMA_ENABLE OR NDMA_BLOCK_SIZE (0x80 div 4) OR NDMA_STARTUP_MODE NDMA_STARTUP_WIFI
                 OR NDMA_SRC_MODE NDMA_MODE_INC OR NDMA_DST_MODE NDMA_MODE_FIXED) v"
      obtain fs where "tr ?w = fs @ tr v" "list_all dma_event fs" using ndma_program_dma by blast
      then have "tr ?w = (fs @ es) @ tr ?u" "list_all dma_event (fs @ es)" using p by simp_all
      moreover have "quiet s ?w" by (intro quiet_intros v)
      ultimately have "block_start cmd args s ?w"
        unfolding block_start_def by (intro conjI exI [of _ u] exI [of _ "fs @ es"] u)
      then show "ok (live h)
        (let s = ?w in Some (emit (DmaOut ?b (mem_read (mem s) ?b (4 * unat (?n div 4)))) s))
        (\<lambda>t. \<exists>u. block_start cmd args s u \<and> t = emit (DmaOut ?b (mem_read (mem s) ?b (4 * unat (?n div 4)))) u)"
        unfolding Let_def ok_Some mem_ndma_program m by blast
    qed
  qed
  then show ?thesis using c bl w b by (simp add: wifi_sdio_send_command_def Let_def)
qed

text \<open>A multiple-block read lets the DMA channel fill the buffer with bytes of the card's choice.\<close>

lemma ndma_read_shape:
  "\<exists>u es data. quiet s u \<and> data = map (hw_dma h (es @ tr s)) [0..<4 * unat (n div 4)]
     \<and> wifi_ndma_read h b n s = emit (DmaIn b data) (u\<lparr>mem := mem_write (mem s) b data\<rparr>)"
proof -
  let ?w = "ndma_program (REG_SDIO_BASE + WIFI_SDIO_OFFS_DATA32_FIFO) b n
                (NDMA_ENABLE OR NDMA_BLOCK_SIZE (0x80 div 4) OR NDMA_STARTUP_MODE NDMA_STARTUP_WIFI
                 OR NDMA_SRC_MODE NDMA_MODE_FIXED OR NDMA_DST_MODE NDMA_MODE_INC) s"
  have "quiet s ?w" by (intro quiet_intros quiet_refl)
  moreover obtain es where "tr ?w = es @ tr s" using ndma_program_dma by metis
  ultimately show ?thesis
    unfolding wifi_ndma_read_def Let_def mem_ndma_program by metis
qed

lemma send_command_block_read:
  assumes wf: "sdio_wf s" and bl: "cmd_data_length cmd" and r: "cmd_data_direction cmd"
    and b: "ctx_buffer (tmio s) \<noteq> 0" "ctx_buffer (tmio s) AND 3 = 0"
  shows "ok (live h) (wifi_sdio_send_command h cmd args s)
     (\<lambda>t. \<exists>u es data. quiet s u \<and> data = map (hw_dma h (es @ tr s)) [0..<4 * unat (ctx_size (tmio s) div 4)]
        \<and> t = emit (DmaIn (ctx_buffer (tmio s)) data)
                (u\<lparr>mem := mem_write (mem s) (ctx_buffer (tmio s)) data\<rparr>))"
proof -
  let ?s0 = "s\<lparr>tmio := (tmio s)\<lparr>ctx_status := 0\<rparr>\<rparr>"
  let ?b = "ctx_buffer (tmio s)" and ?n = "ctx_size (tmio s)"
  have q0: "quiet s ?s0" by (intro quiet_tmio) (simp add: same_config_def)
  have c: "ctx_controller (tmio s) = REG_SDIO_BASE" "ctx_block_size (tmio s) = 128"
    "\<not> ctx_debug (tmio s)" using wf by (auto simp: sdio_wf_def)
  have "ok (live h)
     (do { u \<leftarrow> poll16 h (REG_SDIO_BASE + WIFI_SDIO_OFFS_IRQ_STAT1) WIFI_SDIO_STAT1_CMD_BUSY ?s0;
           Some (wifi_ndma_read h ?b ?n (sdio_setup cmd args ?n u)) })
     (\<lambda>t. \<exists>u es data. quiet s u \<and> data = map (hw_dma h (es @ tr s)) [0..<4 * unat (?n div 4)]
        \<and> t = emit (DmaIn ?b data) (u\<lparr>mem := mem_write (mem s) ?b data\<rparr>))"
  proof (rule ok_bind_rule [OF poll_busy_ok], unfold ok_Some)
    fix u assume "quiet ?s0 u"
    let ?u = "sdio_setup cmd args ?n u"
    have q: "quiet s ?u" using quiet_trans [OF q0 \<open>quiet ?s0 u\<close>] by (intro quiet_intros)
    then have "mem ?u = mem s" by (simp add: quiet_def)
    moreover from q obtain fs where "tr ?u = fs @ tr s" by (auto simp: quiet_def)
    ultimately show "\<exists>v es data. quiet s v \<and> data = map (hw_dma h (es @ tr s)) [0..<4 * unat (?n div 4)]
        \<and> wifi_ndma_read h ?b ?n ?u = emit (DmaIn ?b data) (v\<lparr>mem := mem_write (mem s) ?b data\<rparr>)"
      using ndma_read_shape [of ?u h ?n ?b] quiet_trans [OF q] by (metis append.assoc)
  qed
  then show ?thesis using c bl r b by (simp add: wifi_sdio_send_command_def Let_def)
qed

end
