(* ===== verification/Card.thy ===== *)
theory Card
  imports Sdio
begin

text \<open>
  The card layer of \<^verbatim>\<open>arm_iop/source/wifi_card.twl.c\<close>: CMD52/CMD53 register access, the
  diagnostic window into the card's internal memory, the bootloader (BMI) protocol and the
  transmit side of mailbox 0. Where C leaves the order of evaluation of two register reads
  open, the model reads left to right. Dereferencing the NULL \<^verbatim>\<open>device_curctx\<close> is \<open>None\<close>.
\<close>

record card = machine +
  mbox_out_buffer :: u32
  mbox_buffer :: u32
  ip_data_out_buf_idx :: u32
  ip_data_out_buf :: u32
  ip_data_out_buf_totlen :: u32
  device_curctx :: bool            \<comment> \<open>NULL, or the address of \<^verbatim>\<open>wlan_ctx\<close>\<close>
  device_chip_id :: u32
  device_manufacturer :: u32
  device_host_interest_addr :: u32
  device_eeprom_addr :: u32
  device_eeprom_version :: u32
  wifi_card_bInitted :: bool
  wifi_card_alignedbuf_small :: u32 \<comment> \<open>address of the static buffer\<close>
  mbox_has_lookahead :: bool
  mbox_lookahead :: u32
  wifi_card_nvram_wep_configs :: bytes
  wifi_card_nvram_configs :: bytes
  wmi_idk :: u16                    \<comment> \<open>extern, defined in \<^verbatim>\<open>ath/wmi.twl.c\<close>\<close>

subsection \<open>Constants\<close>

abbreviation (input) CHIP_ID_AR6002 :: u32 where "CHIP_ID_AR6002 \<equiv> 0x02000001"
abbreviation (input) CHIP_ID_AR6013 :: u32 where "CHIP_ID_AR6013 \<equiv> 0x0D000000"
abbreviation (input) CHIP_ID_AR6014 :: u32 where "CHIP_ID_AR6014 \<equiv> 0x0D000001"
abbreviation (input) AR6002_HOST_INTEREST_ADDRESS :: u32 where
  "AR6002_HOST_INTEREST_ADDRESS \<equiv> 0x00500400"
abbreviation (input) AR601x_HOST_INTEREST_ADDRESS :: u32 where
  "AR601x_HOST_INTEREST_ADDRESS \<equiv> 0x00520000"
abbreviation (input) MBOX_TMPBUF_SIZE :: nat where "MBOX_TMPBUF_SIZE \<equiv> 0x600"
abbreviation (input) DATA_BUF_LEN :: nat where "DATA_BUF_LEN \<equiv> 0x600"
abbreviation (input) F1_HOST_INT_STATUS :: u32 where "F1_HOST_INT_STATUS \<equiv> 0x400"
abbreviation (input) F1_MBOX_FRAME :: u32 where "F1_MBOX_FRAME \<equiv> 0x404"
abbreviation (input) F1_RX_LOOKAHEAD_VALID :: u32 where "F1_RX_LOOKAHEAD_VALID \<equiv> 0x405"
abbreviation (input) F1_RX_LOOKAHEAD0 :: u32 where "F1_RX_LOOKAHEAD0 \<equiv> 0x408"
abbreviation (input) F1_INT_STATUS_ENABLE :: u32 where "F1_INT_STATUS_ENABLE \<equiv> 0x418"
abbreviation (input) F1_COUNT4 :: u32 where "F1_COUNT4 \<equiv> 0x450"
abbreviation (input) BMI_DONE :: u32 where "BMI_DONE \<equiv> 0x1"
abbreviation (input) BMI_READ_MEMORY :: u32 where "BMI_READ_MEMORY \<equiv> 0x2"
abbreviation (input) BMI_WRITE_MEMORY :: u32 where "BMI_WRITE_MEMORY \<equiv> 0x3"
abbreviation (input) BMI_EXECUTE :: u32 where "BMI_EXECUTE \<equiv> 0x4"
abbreviation (input) BMI_READ_SOC_REGISTER :: u32 where "BMI_READ_SOC_REGISTER \<equiv> 0x6"
abbreviation (input) BMI_WRITE_SOC_REGISTER :: u32 where "BMI_WRITE_SOC_REGISTER \<equiv> 0x7"
abbreviation (input) BMI_GET_TARGET_ID :: u32 where "BMI_GET_TARGET_ID \<equiv> 0x8"
abbreviation (input) BMI_LZ_STREAM_START :: u32 where "BMI_LZ_STREAM_START \<equiv> 0xD"
abbreviation (input) BMI_LZ_DATA :: u32 where "BMI_LZ_DATA \<equiv> 0xE"
abbreviation (input) MBOXPKT_HTC :: u8 where "MBOXPKT_HTC \<equiv> 0"
abbreviation (input) MBOXPKT_WMI :: u8 where "MBOXPKT_WMI \<equiv> 1"
abbreviation (input) MBOXPKT_NOACK :: u8 where "MBOXPKT_NOACK \<equiv> 0"
abbreviation (input) MBOXPKT_REQACK :: u8 where "MBOXPKT_REQACK \<equiv> 1"

definition cmd52 :: wifi_sdio_command where
  "cmd52 = \<lparr>cmd_cmd = 52, cmd_command_type = 0, cmd_response_type = wifi_sdio_resp_48bit,
     cmd_data_transfer = False, cmd_data_direction = False, cmd_data_length = False,
     cmd_secure = False\<rparr>"

definition cmd53_read :: wifi_sdio_command where
  "cmd53_read = \<lparr>cmd_cmd = 53, cmd_command_type = 0, cmd_response_type = wifi_sdio_resp_48bit,
     cmd_data_transfer = True, cmd_data_direction = True, cmd_data_length = True,
     cmd_secure = True\<rparr>"

definition cmd53_read_single :: wifi_sdio_command where
  "cmd53_read_single = \<lparr>cmd_cmd = 53, cmd_command_type = 0,
     cmd_response_type = wifi_sdio_resp_48bit, cmd_data_transfer = True,
     cmd_data_direction = True, cmd_data_length = False, cmd_secure = True\<rparr>"

definition cmd53_write :: wifi_sdio_command where
  "cmd53_write = \<lparr>cmd_cmd = 53, cmd_command_type = 0, cmd_response_type = wifi_sdio_resp_48bit,
     cmd_data_transfer = True, cmd_data_direction = False, cmd_data_length = True,
     cmd_secure = True\<rparr>"

definition cmd53_write_single :: wifi_sdio_command where
  "cmd53_write_single = \<lparr>cmd_cmd = 53, cmd_command_type = 0,
     cmd_response_type = wifi_sdio_resp_48bit, cmd_data_transfer = True,
     cmd_data_direction = False, cmd_data_length = False, cmd_secure = True\<rparr>"

definition wifi_card_get_chip_str :: "'a card_scheme \<Rightarrow> string" where
  "wifi_card_get_chip_str s =
     (if device_chip_id s = CHIP_ID_AR6013 then ''AR6013''
      else if device_chip_id s = CHIP_ID_AR6014 then ''AR6014''
      else if device_chip_id s = CHIP_ID_AR6002 then ''AR6002''
      else ''Unknown'')"

subsection \<open>CMD52 and CMD53\<close>

definition set_buffer :: "u32 \<Rightarrow> 'a card_scheme \<Rightarrow> 'a card_scheme" where
  "set_buffer b s = s\<lparr>tmio := (tmio s)\<lparr>ctx_buffer := b\<rparr>\<rparr>"

definition wifi_card_send_command ::
  "hw \<Rightarrow> wifi_sdio_command \<Rightarrow> u32 \<Rightarrow> 'a card_scheme \<Rightarrow> 'a card_scheme option" where
  "wifi_card_send_command h cmd args s =
     (if \<not> device_curctx s then Some s
      else wifi_sdio_send_command h cmd args (set_buffer 0 s))"

definition wifi_card_send_command_alt ::
  "hw \<Rightarrow> wifi_sdio_command \<Rightarrow> u32 \<Rightarrow> 'a card_scheme \<Rightarrow> 'a card_scheme option" where
  "wifi_card_send_command_alt h cmd args s =
     (if \<not> device_curctx s then Some s else wifi_sdio_send_command h cmd args s)"

definition wifi_card_write_func_byte ::
  "hw \<Rightarrow> u8 \<Rightarrow> u32 \<Rightarrow> u8 \<Rightarrow> 'a card_scheme \<Rightarrow> (u32 \<times> 'a card_scheme) option" where
  "wifi_card_write_func_byte h func addr v s = do {
     s \<leftarrow> wifi_card_send_command h cmd52
           (0x80000000 OR push_bit 28 (ucast func) OR push_bit 9 addr OR ucast v) s;
     if \<not> device_curctx s then None
     else if ctx_status (tmio s) AND 4 \<noteq> 0 then Some (-1, s) else Some (0, s) }"

definition wifi_card_read_func_byte ::
  "hw \<Rightarrow> u8 \<Rightarrow> u32 \<Rightarrow> 'a card_scheme \<Rightarrow> (u8 \<times> 'a card_scheme) option" where
  "wifi_card_read_func_byte h func addr s = do {
     s \<leftarrow> wifi_card_send_command h cmd52
           (push_bit 28 (ucast func) OR push_bit 9 (addr AND 0x1FFFF)) s;
     if \<not> device_curctx s then None
     else if ctx_status (tmio s) AND 4 \<noteq> 0 then Some (0xFF, s)
     else Some (ucast (ctx_resp (tmio s) ! 0 AND 0xFF), s) }"

definition wifi_card_read_func1_32bit ::
  "hw \<Rightarrow> u32 \<Rightarrow> u32 \<Rightarrow> u32 \<Rightarrow> 'a card_scheme \<Rightarrow> (u32 \<times> 'a card_scheme) option" where
  "wifi_card_read_func1_32bit h addr buf len s =
     (if \<not> device_curctx s then Some (-2, s) else
      let s = s\<lparr>tmio := (tmio s)\<lparr>ctx_buffer := buf, ctx_size := len, ctx_break_early := True\<rparr>\<rparr>;
          old_blocksize = ctx_block_size (tmio s);
          s = s\<lparr>tmio := (tmio s)\<lparr>ctx_block_size := 4\<rparr>\<rparr>;
          blkcnt = (ucast len :: u8)
      in do {
        s \<leftarrow> wifi_card_send_command_alt h cmd53_read_single
              (push_bit 28 1 OR push_bit 26 1 OR push_bit 9 (addr AND 0x1FFFF) OR ucast blkcnt) s;
        let s = s\<lparr>tmio := (tmio s)\<lparr>ctx_block_size := old_blocksize\<rparr>\<rparr>;
        if ctx_status (tmio s) AND 4 \<noteq> 0 then Some (-1, s) else Some (0, s) })"

definition wifi_card_read_func1_block ::
  "hw \<Rightarrow> u32 \<Rightarrow> u32 \<Rightarrow> u32 \<Rightarrow> 'a card_scheme \<Rightarrow> (u32 \<times> 'a card_scheme) option" where
  "wifi_card_read_func1_block h addr buf len s =
     (if \<not> device_curctx s then Some (-2, s) else do {
        s \<leftarrow> wifi_ndma_wait h s;
        let s = wifi_sdio_stop (ctx_controller (tmio s)) s;
        let s = s\<lparr>tmio := (tmio s)\<lparr>ctx_buffer := buf, ctx_size := len\<rparr>\<rparr>;
        let blkcnt = (ucast (len div ucast (ctx_block_size (tmio s))) :: u8);
        s \<leftarrow> wifi_card_send_command_alt h cmd53_read
              (push_bit 28 1 OR push_bit 27 1 OR push_bit 26 1 OR push_bit 9 (addr AND 0x1FFFF)
               OR ucast blkcnt) s;
        let s = wifi_sdio_stop (ctx_controller (tmio s)) s;
        s \<leftarrow> wifi_ndma_wait h s;
        if ctx_status (tmio s) AND 4 \<noteq> 0 then Some (-1, s) else Some (0, s) })"

definition wifi_card_write_func1_block ::
  "hw \<Rightarrow> u32 \<Rightarrow> u32 \<Rightarrow> u32 \<Rightarrow> 'a card_scheme \<Rightarrow> (u32 \<times> 'a card_scheme) option" where
  "wifi_card_write_func1_block h addr buf len s =
     (if \<not> device_curctx s then Some (-2, s) else do {
        s \<leftarrow> wifi_ndma_wait h s;
        let s = wifi_sdio_stop (ctx_controller (tmio s)) s;
        let s = s\<lparr>tmio := (tmio s)\<lparr>ctx_buffer := buf, ctx_size := len\<rparr>\<rparr>;
        let blkcnt = (ucast (len div ucast (ctx_block_size (tmio s))) :: u8);
        s \<leftarrow> wifi_card_send_command_alt h cmd53_write
              (0x80000000 OR push_bit 28 1 OR push_bit 27 1 OR push_bit 26 1
               OR push_bit 9 (addr AND 0x1FFFF) OR ucast blkcnt) s;
        s \<leftarrow> wifi_ndma_wait h s;
        let s = wifi_sdio_stop (ctx_controller (tmio s)) s;
        if ctx_status (tmio s) AND 4 \<noteq> 0 then Some (-1, s) else Some (0, s) })"

subsection \<open>Function 0 and function 1 registers\<close>

definition wifi_card_write_func0_u8 ::
  "hw \<Rightarrow> u32 \<Rightarrow> u8 \<Rightarrow> 'a card_scheme \<Rightarrow> (u32 \<times> 'a card_scheme) option" where
  "wifi_card_write_func0_u8 h addr v s = wifi_card_write_func_byte h 0 addr v s"

definition wifi_card_read_func0_u8 ::
  "hw \<Rightarrow> u32 \<Rightarrow> 'a card_scheme \<Rightarrow> (u8 \<times> 'a card_scheme) option" where
  "wifi_card_read_func0_u8 h addr s = wifi_card_read_func_byte h 0 addr s"

definition wifi_card_read_func0_u16 ::
  "hw \<Rightarrow> u32 \<Rightarrow> 'a card_scheme \<Rightarrow> (u16 \<times> 'a card_scheme) option" where
  "wifi_card_read_func0_u16 h addr s = do {
     (lo, s) \<leftarrow> wifi_card_read_func0_u8 h addr s;
     (hi, s) \<leftarrow> wifi_card_read_func0_u8 h (addr + 1) s;
     Some (ucast lo OR push_bit 8 (ucast hi), s) }"

definition wifi_card_read_func0_u32 ::
  "hw \<Rightarrow> u32 \<Rightarrow> 'a card_scheme \<Rightarrow> (u32 \<times> 'a card_scheme) option" where
  "wifi_card_read_func0_u32 h addr s = do {
     (lo, s) \<leftarrow> wifi_card_read_func0_u16 h addr s;
     (hi, s) \<leftarrow> wifi_card_read_func0_u16 h (addr + 2) s;
     Some (ucast lo OR push_bit 16 (ucast hi), s) }"

definition wifi_card_write_func0_u16 ::
  "hw \<Rightarrow> u32 \<Rightarrow> u16 \<Rightarrow> 'a card_scheme \<Rightarrow> (u16 \<times> 'a card_scheme) option" where
  "wifi_card_write_func0_u16 h addr v s = do {
     (lo, s) \<leftarrow> wifi_card_write_func0_u8 h addr (ucast (v AND 0xFF)) s;
     (hi, s) \<leftarrow> wifi_card_write_func0_u8 h (addr + 1) (ucast (drop_bit 8 v)) s;
     Some (ucast (lo OR push_bit 8 hi), s) }"

definition wifi_card_write_func0_u32 ::
  "hw \<Rightarrow> u32 \<Rightarrow> u32 \<Rightarrow> 'a card_scheme \<Rightarrow> (u32 \<times> 'a card_scheme) option" where
  "wifi_card_write_func0_u32 h addr v s = do {
     (lo, s) \<leftarrow> wifi_card_write_func0_u16 h addr (ucast (v AND 0xFFFF)) s;
     (hi, s) \<leftarrow> wifi_card_write_func0_u16 h (addr + 2) (ucast (drop_bit 16 v)) s;
     Some (ucast lo OR push_bit 16 (ucast hi), s) }"

definition wifi_card_write_func1_u8 ::
  "hw \<Rightarrow> u32 \<Rightarrow> u8 \<Rightarrow> 'a card_scheme \<Rightarrow> (u32 \<times> 'a card_scheme) option" where
  "wifi_card_write_func1_u8 h addr v s = wifi_card_write_func_byte h 1 addr v s"

definition wifi_card_read_func1_u8 ::
  "hw \<Rightarrow> u32 \<Rightarrow> 'a card_scheme \<Rightarrow> (u8 \<times> 'a card_scheme) option" where
  "wifi_card_read_func1_u8 h addr s = wifi_card_read_func_byte h 1 addr s"

definition wifi_card_read_func1_u16 ::
  "hw \<Rightarrow> u32 \<Rightarrow> 'a card_scheme \<Rightarrow> (u16 \<times> 'a card_scheme) option" where
  "wifi_card_read_func1_u16 h addr s = do {
     (lo, s) \<leftarrow> wifi_card_read_func1_u8 h addr s;
     (hi, s) \<leftarrow> wifi_card_read_func1_u8 h (addr + 1) s;
     Some (ucast lo OR push_bit 8 (ucast hi), s) }"

definition wifi_card_read_func1_u32 ::
  "hw \<Rightarrow> u32 \<Rightarrow> 'a card_scheme \<Rightarrow> (u32 \<times> 'a card_scheme) option" where
  "wifi_card_read_func1_u32 h addr s = do {
     (lo, s) \<leftarrow> wifi_card_read_func1_u16 h addr s;
     (hi, s) \<leftarrow> wifi_card_read_func1_u16 h (addr + 2) s;
     Some (ucast lo OR push_bit 16 (ucast hi), s) }"

definition wifi_card_read_func1_u32_fast ::
  "hw \<Rightarrow> u32 \<Rightarrow> 'a card_scheme \<Rightarrow> (u32 \<times> 'a card_scheme) option" where
  "wifi_card_read_func1_u32_fast h addr s = do {
     (r, s) \<leftarrow> wifi_card_read_func1_32bit h addr (wifi_card_alignedbuf_small s) 4 s;
     Some (getle32 (view (mem s) (wifi_card_alignedbuf_small s)), s) }"

definition wifi_card_write_func1_u16 ::
  "hw \<Rightarrow> u32 \<Rightarrow> u16 \<Rightarrow> 'a card_scheme \<Rightarrow> 'a card_scheme option" where
  "wifi_card_write_func1_u16 h addr v s = do {
     (r, s) \<leftarrow> wifi_card_write_func1_u8 h (addr + 1) (ucast (drop_bit 8 v)) s;
     (r, s) \<leftarrow> wifi_card_write_func1_u8 h addr (ucast (v AND 0xFF)) s;
     Some s }"

definition wifi_card_write_func1_u32 ::
  "hw \<Rightarrow> u32 \<Rightarrow> u32 \<Rightarrow> 'a card_scheme \<Rightarrow> 'a card_scheme option" where
  "wifi_card_write_func1_u32 h addr v s = do {
     s \<leftarrow> wifi_card_write_func1_u16 h (addr + 2) (ucast (drop_bit 16 v)) s;
     wifi_card_write_func1_u16 h addr (ucast (v AND 0xFFFF)) s }"

definition wifi_card_read_intern_word ::
  "hw \<Rightarrow> u32 \<Rightarrow> 'a card_scheme \<Rightarrow> (u32 \<times> 'a card_scheme) option" where
  "wifi_card_read_intern_word h addr s = do {
     s \<leftarrow> wifi_card_write_func1_u32 h 0x0047C addr s;
     wifi_card_read_func1_u32 h 0x00474 s }"

definition wifi_card_read_intern_word_fast ::
  "hw \<Rightarrow> u32 \<Rightarrow> 'a card_scheme \<Rightarrow> (u32 \<times> 'a card_scheme) option" where
  "wifi_card_read_intern_word_fast h addr s = do {
     s \<leftarrow> wifi_card_write_func1_u32 h 0x0047C addr s;
     wifi_card_read_func1_u32_fast h 0x00474 s }"

definition wifi_card_write_intern_word ::
  "hw \<Rightarrow> u32 \<Rightarrow> u32 \<Rightarrow> 'a card_scheme \<Rightarrow> 'a card_scheme option" where
  "wifi_card_write_intern_word h addr data s = do {
     s \<leftarrow> wifi_card_write_func1_u32 h 0x00474 data s;
     wifi_card_write_func1_u32 h 0x00478 addr s }"

subsection \<open>Mailbox 0, bytewise\<close>

text \<open>Reading a register until its value satisfies \<open>p\<close>.\<close>

partial_function (option) poll_func ::
  "hw \<Rightarrow> u8 \<Rightarrow> u32 \<Rightarrow> (u8 \<Rightarrow> bool) \<Rightarrow> 'a card_scheme \<Rightarrow> 'a card_scheme option" where
  "poll_func h func addr p s = do {
     (v, s) \<leftarrow> wifi_card_read_func_byte h func addr s;
     if p v then Some s else poll_func h func addr p s }"

partial_function (option) mbox_drain :: "hw \<Rightarrow> 'a card_scheme \<Rightarrow> 'a card_scheme option" where
  "mbox_drain h s = do {
     (v, s) \<leftarrow> wifi_card_read_func1_u8 h F1_RX_LOOKAHEAD_VALID s;
     if v AND 1 \<noteq> 0
     then do { (b, s) \<leftarrow> wifi_card_read_func1_u8 h 0xFF s; mbox_drain h s }
     else Some s }"

definition wifi_card_mbox_clear :: "hw \<Rightarrow> 'a card_scheme \<Rightarrow> 'a card_scheme option" where
  "wifi_card_mbox_clear h s = do {
     (a, s) \<leftarrow> wifi_card_read_func1_u8 h F1_HOST_INT_STATUS s;
     (b, s) \<leftarrow> wifi_card_read_func1_u8 h F1_MBOX_FRAME s;
     (c, s) \<leftarrow> wifi_card_read_func1_u8 h F1_RX_LOOKAHEAD_VALID s;
     s \<leftarrow> mbox_drain h (wifi_printf [Hex 1 (ucast a), Lit '' '', Hex 1 (ucast b), Lit '' '',
           Hex 1 (ucast c), Lit [CHR 0x0A]] s);
     Some (wifi_printf [Lit ''leave'', Lit [CHR 0x0A]] s) }"

definition wifi_card_bmi_wait_count4 :: "hw \<Rightarrow> 'a card_scheme \<Rightarrow> 'a card_scheme option" where
  "wifi_card_bmi_wait_count4 h s = poll_func h 1 F1_COUNT4 (\<lambda>v. v \<noteq> 0) s"

primrec mbox0_put :: "hw \<Rightarrow> nat \<Rightarrow> u32 \<Rightarrow> 'a card_scheme \<Rightarrow> 'a card_scheme option" where
  "mbox0_put h 0 v s = Some s"
| "mbox0_put h (Suc n) v s = do {
     (r, s) \<leftarrow> wifi_card_write_func1_u8 h 0xFF (ucast (v AND 0xFF)) s;
     mbox0_put h n (drop_bit 8 v) s }"

definition wifi_card_write_mbox0_u32 :: "hw \<Rightarrow> u32 \<Rightarrow> 'a card_scheme \<Rightarrow> 'a card_scheme option" where
  "wifi_card_write_mbox0_u32 h v s = mbox0_put h 4 v s"

primrec mbox0_get ::
  "hw \<Rightarrow> nat \<Rightarrow> nat \<Rightarrow> u32 \<Rightarrow> 'a card_scheme \<Rightarrow> (u32 \<times> 'a card_scheme) option" where
  "mbox0_get h 0 i v s = Some (v, s)"
| "mbox0_get h (Suc n) i v s = do {
     (b, s) \<leftarrow> wifi_card_read_func1_u8 h 0xFF s;
     mbox0_get h n (Suc i) (v OR push_bit (i * 8) (ucast b)) s }"

definition wifi_card_read_mbox0_u32 :: "hw \<Rightarrow> 'a card_scheme \<Rightarrow> (u32 \<times> 'a card_scheme) option" where
  "wifi_card_read_mbox0_u32 h s = do {
     s \<leftarrow> poll_func h 1 F1_RX_LOOKAHEAD_VALID (\<lambda>v. v AND 1 \<noteq> 0) s;
     mbox0_get h 4 0 0 s }"

primrec mbox0_timeout :: "hw \<Rightarrow> nat \<Rightarrow> 'a card_scheme \<Rightarrow> 'a card_scheme option" where
  "mbox0_timeout h 0 s = Some s"
| "mbox0_timeout h (Suc n) s = do {
     (v, s) \<leftarrow> wifi_card_read_func1_u8 h F1_RX_LOOKAHEAD_VALID s;
     if v AND 1 \<noteq> 0 then Some s else mbox0_timeout h n s }"

definition wifi_card_read_mbox0_u32_timeout ::
  "hw \<Rightarrow> 'a card_scheme \<Rightarrow> (u32 \<times> 'a card_scheme) option" where
  "wifi_card_read_mbox0_u32_timeout h s = do {
     s \<leftarrow> mbox0_timeout h 10 s;
     (v, s) \<leftarrow> wifi_card_read_func1_u8 h F1_RX_LOOKAHEAD_VALID s;
     if v AND 1 = 0 then Some (0xFFFFFFFF, s) else mbox0_get h 4 0 0 s }"

subsection \<open>Mailbox 0, packets\<close>

text \<open>
  A \<^verbatim>\<open>const u8*\<close> parameter is an address, or an object of the caller's stack frame which no
  address of the model aliases. \<open>deref m p n\<close> is what \<^verbatim>\<open>memcpy\<close> copies out of it.
\<close>

datatype cptr = Addr u32 | Local bytes

primrec deref :: "memory \<Rightarrow> cptr \<Rightarrow> nat \<Rightarrow> bytes" where
  "deref m (Addr a) n = mem_read m a n"
| "deref m (Local bs) n = take n bs"

definition store :: "u32 \<Rightarrow> bytes \<Rightarrow> 'a card_scheme \<Rightarrow> 'a card_scheme" where
  "store a bs s = s\<lparr>mem := mem_write (mem s) a bs\<rparr>"

definition wifi_card_mbox0_sendbytes ::
  "hw \<Rightarrow> u32 \<Rightarrow> u32 \<Rightarrow> 'a card_scheme \<Rightarrow> 'a card_scheme option" where
  "wifi_card_mbox0_sendbytes h data len s =
     (let send_addr = (ucast (0x4000 - len) :: u16) in do {
        (r, s) \<leftarrow> wifi_card_write_func1_block h (ucast send_addr) data len s;
        (intval, s) \<leftarrow> wifi_card_read_func1_u32 h F1_HOST_INT_STATUS s;
        if intval AND 0x00010000 \<noteq> 0
        then do {
          (a, s) \<leftarrow> wifi_card_read_func1_u32 h F1_HOST_INT_STATUS s;
          (b, s) \<leftarrow> wifi_card_read_func1_u8 h F1_RX_LOOKAHEAD_VALID s;
          Some (wifi_printlnf [Lit ''Mbox Full!: '', Hex 8 a, Lit '' '', Hex 2 (ucast b)] s) }
        else Some s })"

definition wifi_card_mbox0_send_packet ::
  "hw \<Rightarrow> u8 \<Rightarrow> u8 \<Rightarrow> cptr \<Rightarrow> u16 \<Rightarrow> u16 \<Rightarrow> 'a card_scheme \<Rightarrow> 'a card_scheme option" where
  "wifi_card_mbox0_send_packet h type ack_type data len idk s =
     (let b = mbox_out_buffer s;
          s = store b [type] s;
          s = store (b + 1) [ack_type] s;
          s = store (b + 2) (putle16 len) s;
          s = store (b + 4) (putle16 idk) s;
          len = (if len > 0x600 - 6 then 0x600 - 6 else len);
          s = (if data \<noteq> Addr 0 then store (b + 6) (deref (mem s) data (unat len)) s else s);
          len = len + 6;
          len = (ucast (round_up (ucast len) 0x80) :: u16)
      in wifi_card_mbox0_sendbytes h b (ucast len) s)"

definition data_send_pkt :: "hw \<Rightarrow> cptr \<Rightarrow> u32 \<Rightarrow> 'a card_scheme \<Rightarrow> 'a card_scheme option" where
  "data_send_pkt h pkt_data len s =
     wifi_card_mbox0_send_packet h 0x02 MBOXPKT_NOACK pkt_data (ucast len) 0 s"

definition data_send_pkt_idk :: "hw \<Rightarrow> cptr \<Rightarrow> u32 \<Rightarrow> 'a card_scheme \<Rightarrow> 'a card_scheme option" where
  "data_send_pkt_idk h pkt_data len s =
     wifi_card_mbox0_send_packet h 0x02 MBOXPKT_NOACK pkt_data (ucast len) 0x2008 s"

definition wmi_send_pkt ::
  "hw \<Rightarrow> u16 \<Rightarrow> u8 \<Rightarrow> cptr \<Rightarrow> u16 \<Rightarrow> 'a card_scheme \<Rightarrow> 'a card_scheme option" where
  "wmi_send_pkt h wmi_type ack_type data len s =
     (let b = mbox_out_buffer s;
          s = store b (replicate 8 0) s;
          s = store b [MBOXPKT_WMI] s;
          s = store (b + 1) [ack_type] s;
          s = store (b + 2) (putle16 (len + 2)) s;
          s = store (b + 4) (putle16 (wmi_idk s)) s;
          s = store (b + 6) (putle16 wmi_type) s;
          len = (if len > 0x600 - 8 then 0x600 - 8 else len);
          s = (if data \<noteq> Addr 0 then store (b + 8) (deref (mem s) data (unat len)) s else s);
          len = len + 8;
          len = (ucast (round_up (ucast len) 0x80) :: u16)
      in wifi_card_mbox0_sendbytes h b (ucast len) s)"

text \<open>The remainder by a ring of no buffers has no result.\<close>

definition data_next_buf :: "'a card_scheme \<Rightarrow> (u32 \<times> 'a card_scheme) option" where
  "data_next_buf s =
     (let ret = ip_data_out_buf s + 0x600 * ip_data_out_buf_idx s;
          n = ip_data_out_buf_totlen s div 0x600
      in if n = 0 then None
         else Some (ret, s\<lparr>ip_data_out_buf_idx := (ip_data_out_buf_idx s + 1) mod n\<rparr>))"

text \<open>With the size the host announces the receive buffers are a ring of six as well.\<close>

definition ring_ready :: "'a card_scheme \<Rightarrow> bool" where
  "ring_ready s \<longleftrightarrow> ip_data_out_buf_totlen s = 0x2400 \<and> unat (ip_data_out_buf_idx s) < 6"

interpretation card_ring: buffer_ring "\<lambda>s. unat (ip_data_out_buf_idx s)" "\<lambda>s. snd (the (data_next_buf s))" ring_ready 6
  by unfold_locales (auto simp: ring_ready_def data_next_buf_def Let_def unat_mod unat_word_ariths)

subsection \<open>Register access is quiet\<close>

definition card_wf :: "'a card_scheme \<Rightarrow> bool" where
  "card_wf s \<longleftrightarrow> sdio_wf s \<and> device_curctx s \<and> mbox_out_buffer s \<noteq> 0 \<and> mbox_out_buffer s AND 3 = 0"

lemma more_card:
  fixes s t :: "'a card_scheme"
  assumes "machine.more t = machine.more s"
  shows "mbox_out_buffer t = mbox_out_buffer s" "mbox_buffer t = mbox_buffer s"
    "ip_data_out_buf_idx t = ip_data_out_buf_idx s" "ip_data_out_buf t = ip_data_out_buf s"
    "ip_data_out_buf_totlen t = ip_data_out_buf_totlen s" "device_curctx t = device_curctx s"
    "wifi_card_bInitted t = wifi_card_bInitted s" "mbox_has_lookahead t = mbox_has_lookahead s"
    "mbox_lookahead t = mbox_lookahead s" "wmi_idk t = wmi_idk s" "card.more t = card.more s"
    "wifi_card_alignedbuf_small t = wifi_card_alignedbuf_small s"
  using assms by (cases s; cases t; simp)+

lemma quiet_more: "quiet s t \<Longrightarrow> machine.more t = machine.more s"
  by (simp add: quiet_def)

lemmas quiet_card = more_card [OF quiet_more]

lemma card_wf_quiet: "quiet s t \<Longrightarrow> card_wf t \<longleftrightarrow> card_wf s"
  by (simp add: card_wf_def sdio_wf_quiet quiet_card)

lemma quiet_set_buffer: "quiet s t \<Longrightarrow> quiet s (set_buffer b t)"
  by (erule quiet_trans) (simp add: set_buffer_def quiet_tmio same_config_def)

lemma send_command_ok:
  assumes wf: "card_wf s" and q: "quiet s t" and c: "\<not> cmd_data_length cmd"
  shows "ok (live h) (wifi_card_send_command h cmd args t) (quiet s)"
proof -
  have q': "quiet s (set_buffer 0 t)" using q by (rule quiet_set_buffer)
  then have "sdio_wf (set_buffer 0 t)" "device_curctx t"
    using wf q by (auto simp: card_wf_def sdio_wf_quiet quiet_card)
  with c have "ok (live h) (wifi_sdio_send_command h cmd args (set_buffer 0 t))
      (quiet (set_buffer 0 t))"
    by (intro send_command_quiet) (simp_all add: set_buffer_def)
  then show ?thesis
    using \<open>device_curctx t\<close> q' by (auto simp: wifi_card_send_command_def intro: ok_mono quiet_trans)
qed

lemma cmd52_no_data [simp]: "\<not> cmd_data_length cmd52"
  by (simp add: cmd52_def)

named_theorems q_ok \<open>card operations that are quiet\<close>

lemma write_func_byte_ok [q_ok]:
  assumes "card_wf s" "quiet s t"
  shows "ok (live h) (wifi_card_write_func_byte h f a v t) (\<lambda>r. quiet s (snd r))"
  unfolding wifi_card_write_func_byte_def
  by (rule ok_bind_rule [OF send_command_ok [OF assms cmd52_no_data]])
    (use assms in \<open>auto simp: quiet_card card_wf_def\<close>)

lemma read_func_byte_ok [q_ok]:
  assumes "card_wf s" "quiet s t"
  shows "ok (live h) (wifi_card_read_func_byte h f a t) (\<lambda>r. quiet s (snd r))"
  unfolding wifi_card_read_func_byte_def
  by (rule ok_bind_rule [OF send_command_ok [OF assms cmd52_no_data]])
    (use assms in \<open>auto simp: quiet_card card_wf_def\<close>)

lemma func0_u8_ok [q_ok]:
  assumes "card_wf s" "quiet s t"
  shows "ok (live h) (wifi_card_write_func0_u8 h a v t) (\<lambda>r. quiet s (snd r))"
    and "ok (live h) (wifi_card_read_func0_u8 h a t) (\<lambda>r. quiet s (snd r))"
    and "ok (live h) (wifi_card_write_func1_u8 h a v t) (\<lambda>r. quiet s (snd r))"
    and "ok (live h) (wifi_card_read_func1_u8 h a t) (\<lambda>r. quiet s (snd r))"
  unfolding wifi_card_write_func0_u8_def wifi_card_read_func0_u8_def
    wifi_card_write_func1_u8_def wifi_card_read_func1_u8_def
  by (intro q_ok assms)+

lemma ok_SomeI: "Q r \<Longrightarrow> ok L (Some r) Q"
  by simp

lemma quiet_sndI: "quiet s t \<Longrightarrow> quiet s (snd (v, t))"
  by simp

lemma q_bind:
  assumes "card_wf s" "ok L m (\<lambda>r. quiet s (snd r))" "\<And>r. quiet s (snd r) \<Longrightarrow> ok L (f r) Q"
  shows "ok L (Option.bind m f) Q"
  using assms(2,3) by (rule ok_bind_rule)

lemma q_bind1:
  assumes "card_wf s" "ok L m (quiet s)" "\<And>r. quiet s r \<Longrightarrow> ok L (f r) Q"
  shows "ok L (Option.bind m f) Q"
  using assms(2,3) by (rule ok_bind_rule)

lemmas q_binds = q_bind q_bind1
lemmas q_ends = ok_SomeI quiet_sndI

lemma read_func0_u16_ok [q_ok]:
  assumes "card_wf s" "quiet s t"
  shows "ok (live h) (wifi_card_read_func0_u16 h a t) (\<lambda>r. quiet s (snd r))"
  unfolding wifi_card_read_func0_u16_def split_beta by (intro q_ok q_binds [OF assms(1)] q_ends assms)

lemma read_func0_u32_ok [q_ok]:
  assumes "card_wf s" "quiet s t"
  shows "ok (live h) (wifi_card_read_func0_u32 h a t) (\<lambda>r. quiet s (snd r))"
  unfolding wifi_card_read_func0_u32_def split_beta by (intro q_ok q_binds [OF assms(1)] q_ends assms)

lemma read_func1_u16_ok [q_ok]:
  assumes "card_wf s" "quiet s t"
  shows "ok (live h) (wifi_card_read_func1_u16 h a t) (\<lambda>r. quiet s (snd r))"
  unfolding wifi_card_read_func1_u16_def split_beta by (intro q_ok q_binds [OF assms(1)] q_ends assms)

lemma read_func1_u32_ok [q_ok]:
  assumes "card_wf s" "quiet s t"
  shows "ok (live h) (wifi_card_read_func1_u32 h a t) (\<lambda>r. quiet s (snd r))"
  unfolding wifi_card_read_func1_u32_def split_beta by (intro q_ok q_binds [OF assms(1)] q_ends assms)

lemma write_func1_u16_ok [q_ok]:
  assumes "card_wf s" "quiet s t"
  shows "ok (live h) (wifi_card_write_func1_u16 h a v t) (quiet s)"
  unfolding wifi_card_write_func1_u16_def split_beta by (intro q_ok q_binds [OF assms(1)] q_ends assms)

lemma write_func1_u32_ok [q_ok]:
  assumes "card_wf s" "quiet s t"
  shows "ok (live h) (wifi_card_write_func1_u32 h a v t) (quiet s)"
  unfolding wifi_card_write_func1_u32_def split_beta by (intro q_ok q_binds [OF assms(1)] q_ends assms)

end
