(* ===== verification/Mailbox.thy ===== *)
theory Mailbox
  imports Card
begin

text \<open>
  The contract of the transmit side of mailbox 0. What the driver does towards the card and
  the ARM9 is read off the event trace as a list of outputs: the packet a DMA block carries
  (type, acknowledgement flag, length field, \<^verbatim>\<open>idk\<close> field, payload) and the inter-processor
  messages. \<open>xmit os s t\<close> says that going from \<open>s\<close> to \<open>t\<close> put out exactly \<open>os\<close>, changed
  memory only inside the transmit buffer and left every variable of the driver alone. This view leaves out the padding of a
  block and the command that carries it; \<open>frame_out\<close> below states them.
\<close>

datatype outp = Tx u8 u8 u16 u16 bytes | Msg u32 bytes

definition tx_frame :: "bytes \<Rightarrow> outp" where
  "tx_frame bs =
     (let len = (ucast (bs ! 2) OR push_bit 8 (ucast (bs ! 3)) :: u16)
      in Tx (bs ! 0) (bs ! 1) len (ucast (bs ! 4) OR push_bit 8 (ucast (bs ! 5)))
           (take (unat len) (drop 6 bs)))"

primrec outputs :: "event list \<Rightarrow> outp list" where
  "outputs [] = []"
| "outputs (e # es) = outputs es @ (case e of DmaOut a bs \<Rightarrow> [tx_frame bs]
     | Fifo c bs \<Rightarrow> if c = WIFI_IPCINT_DBGLOG then [] else [Msg c bs] | _ \<Rightarrow> [])"

lemma join16_split: "(ucast (ucast (v::u16) :: u8) OR push_bit 8 (ucast (ucast (drop_bit 8 v) :: u8)) :: u16) = v"
  by (rule bit_word_eqI) (auto simp: bit_simps)

lemma tx_frame_encode:
  assumes "length data = unat len"
  shows "tx_frame ([ty, ack] @ putle16 len @ putle16 idk @ data @ pad) = Tx ty ack len idk data"
  using assms by (simp add: tx_frame_def putle16_def join16_split)

lemma out_side: "list_all side_event es \<Longrightarrow> outputs (es @ fs) = outputs fs"
  by (induction es) (auto split: event.splits)

lemma out_quiet: "quiet s t \<Longrightarrow> outputs (tr t) = outputs (tr s)"
  by (auto simp: quiet_def out_side)

definition outside :: "u32 \<Rightarrow> nat \<Rightarrow> memory \<Rightarrow> memory \<Rightarrow> bool" where
  "outside a n m m' \<longleftrightarrow> (\<forall>x. n \<le> unat (x - a) \<longrightarrow> m' x = m x)"

definition xmit :: "outp list \<Rightarrow> 'a card_scheme \<Rightarrow> 'a card_scheme \<Rightarrow> bool" where
  "xmit os s t \<longleftrightarrow> machine.more t = machine.more s
     \<and> wifi_printf_allowed t = wifi_printf_allowed s \<and> same_config (tmio s) (tmio t)
     \<and> outside (mbox_out_buffer s) 0x600 (mem s) (mem t) \<and> outputs (tr t) = outputs (tr s) @ os"

lemma xmit_quiet: "quiet s t \<Longrightarrow> xmit [] s t"
  using out_quiet [of s t] by (auto simp: xmit_def quiet_def outside_def)

lemma xmit_trans: "xmit a s t \<Longrightarrow> xmit b t u \<Longrightarrow> xmit (a @ b) s u"
  using more_card(1) [of t s]
  by (auto simp: xmit_def outside_def intro: same_config_trans)

lemma xmit_wf: "xmit os s t \<Longrightarrow> card_wf t \<longleftrightarrow> card_wf s"
  using more_card(1,6) [of t s]
  by (auto simp: xmit_def card_wf_def sdio_wf_def same_config_def)

lemma xmit_dma: "xmit [tx_frame bs] s (emit (DmaOut a bs) s)"
  by (simp add: xmit_def outside_def)

lemma store_simps [simp]:
  "tr (store a bs s) = tr s" "tmio (store a bs s) = tmio s" "mem (store a bs s) = mem_write (mem s) a bs"
  "machine.more (store a bs s) = machine.more s"
  "wifi_printf_allowed (store a bs s) = wifi_printf_allowed s"
  by (simp_all add: store_def)

lemma store_card [simp]:
  "mbox_out_buffer (store a bs s) = mbox_out_buffer s" "device_curctx (store a bs s) = device_curctx s"
  "wmi_idk (store a bs s) = wmi_idk s" "card_wf (store a bs s) = card_wf s"
  by (simp_all add: store_def card_wf_def)

lemma store_store: "a' = a + of_nat (length xs) \<Longrightarrow> store a' ys (store a xs s) = store a (xs @ ys) s"
  by (simp add: store_def mem_write_append)

lemma store_overwrite:
  "length xs \<le> length ys \<Longrightarrow> length ys \<le> 2 ^ 32 \<Longrightarrow> store a ys (store a xs s) = store a ys s"
  by (simp add: store_def mem_write_overwrite)

lemma xmit_store:
  "length bs \<le> 0x600 \<Longrightarrow> xmit [] s (store (mbox_out_buffer s) bs s)"
  by (simp add: xmit_def outside_def mem_write_cases)

text \<open>
  The transfer behind a frame: \<open>block_write\<close> are the writes to the controller's registers, newest
  first, that start a CMD53 block write with the argument \<open>args\<close> and \<open>n\<close> bytes in blocks of 128;
  \<open>block_out\<close> says that from \<open>s\<close> to \<open>t\<close> exactly one DMA block went out, that it carried \<open>bs\<close> from
  address \<open>b\<close>, and that this command was the last thing told to the controller before it.
\<close>

definition block_write :: "u32 \<Rightarrow> u32 \<Rightarrow> event list" where
  "block_write args n = rev [W16 0x4004A1C 0, W16 0x4004A1E 0,
     W16 0x4004A04 (ucast args), W16 0x4004A06 (ucast (drop_bit 16 args)),
     W16 0x4004A26 128, W16 0x4004A0A (ucast (n div 128)), W16 0x4004B04 128, W16 0x4004B08 (ucast (n div 128)),
     W16 0x4004AD8 2, W16 0x4004B00 0x1402, W16 0x4004A00 0x6C35]"

definition block_out :: "u32 \<Rightarrow> u32 \<Rightarrow> u32 \<Rightarrow> bytes \<Rightarrow> 'a card_scheme \<Rightarrow> 'a card_scheme \<Rightarrow> bool" where
  "block_out args n b bs s t \<longleftrightarrow> (\<exists>es fs gs. list_all side_event es \<and> list_all dma_event fs \<and> list_all side_event gs
     \<and> tr t = es @ [DmaOut b bs] @ fs @ block_write args n @ gs @ tr s)"

lemma block_out_quiet: "block_out args n b bs s t \<Longrightarrow> quiet t u \<Longrightarrow> block_out args n b bs s u"
  unfolding block_out_def quiet_def by (metis append.assoc list_all_append)

lemma low_half: "(ucast (v AND 0xFFFF :: u32) :: u16) = ucast v"
proof -
  have m: "(0xFFFF :: u32) = mask 16" by (simp add: mask_eq_exp_minus_1)
  show ?thesis unfolding m by (rule bit_word_eqI) (auto simp: bit_simps)
qed

lemma setup_block_write:
  assumes "sdio_wf v"
  shows "tr (sdio_setup cmd53_write args n v) = block_write args n @ tr v"
  using assms by (simp add: sdio_setup_def block_write_def sdio_wf_def wifi_sdio_write16_def Let_def low_half
      cmd53_write_def cmd_raw_def)

lemma block_start_out:
  assumes "block_start cmd53_write args w u" "sdio_wf w" "quiet s w" "ctx_size (tmio w) = n"
  shows "block_out args n b bs s (emit (DmaOut b bs) u)"
proof -
  from assms obtain v es where v: "quiet w v" "list_all dma_event es"
    "tr u = es @ tr (sdio_setup cmd53_write args n v)" by (auto simp: block_start_def)
  have "sdio_wf v" using v(1) assms(2) by (simp add: sdio_wf_quiet)
  moreover from quiet_trans [OF assms(3) v(1)] obtain gs where "tr v = gs @ tr s" "list_all side_event gs"
    by (auto simp: quiet_def)
  ultimately show ?thesis
    unfolding block_out_def using v(2,3) by (intro exI [of _ "[]"] exI [of _ es] exI [of _ gs]) (simp add: setup_block_write)
qed

lemma write_func1_block_ok:
  assumes wf: "card_wf s" and b: "b \<noteq> 0" "b AND 3 = 0"
  shows "ok (live h) (wifi_card_write_func1_block h addr b len s)
     (\<lambda>r. xmit [tx_frame (mem_read (mem s) b (4 * unat (len div 4)))] s (snd r)
        \<and> block_out (0x9C000000 OR push_bit 9 (addr AND 0x1FFFF) OR ucast (ucast (len div 128) :: u8)) len
            b (mem_read (mem s) b (4 * unat (len div 4))) s (snd r))"
proof -
  let ?d = "mem_read (mem s) b (4 * unat (len div 4))"
  let ?args = "0x9C000000 OR push_bit 9 (addr AND 0x1FFFF) OR ucast (ucast (len div 128) :: u8)"
  have bs: "ctx_block_size (tmio s) = 128" using wf by (simp add: card_wf_def sdio_wf_def)
  have cc: "device_curctx s" using wf by (simp add: card_wf_def)
  have "ok (live h) (do {
        s \<leftarrow> wifi_ndma_wait h s;
        let s = wifi_sdio_stop (ctx_controller (tmio s)) s;
        let s = s\<lparr>tmio := (tmio s)\<lparr>ctx_buffer := b, ctx_size := len\<rparr>\<rparr>;
        let blkcnt = (ucast (len div ucast (ctx_block_size (tmio s))) :: u8);
        s \<leftarrow> wifi_card_send_command_alt h cmd53_write
              (0x80000000 OR push_bit 28 1 OR push_bit 27 1 OR push_bit 26 1
               OR push_bit 9 (addr AND 0x1FFFF) OR ucast blkcnt) s;
        s \<leftarrow> wifi_ndma_wait h s;
        let s = wifi_sdio_stop (ctx_controller (tmio s)) s;
        if ctx_status (tmio s) AND 4 \<noteq> 0 then Some (-1, s) else Some (0, s) })
      (\<lambda>r. xmit [tx_frame ?d] s (snd r) \<and> block_out ?args len b ?d s (snd r))"
  proof (rule ok_bind_rule [OF wifi_ndma_wait_ok], unfold Let_def)
    fix u assume "quiet s u"
    let ?v = "wifi_sdio_stop (ctx_controller (tmio u)) u"
    let ?w = "?v\<lparr>tmio := (tmio ?v)\<lparr>ctx_buffer := b, ctx_size := len\<rparr>\<rparr>"
    have "quiet s ?v" using \<open>quiet s u\<close> by (intro quiet_intros)
    also have "quiet ?v ?w" by (rule quiet_tmio) (simp add: same_config_def)
    finally have w: "quiet s ?w" .
    then have wf': "sdio_wf ?w" "mem ?w = mem s" "device_curctx ?w"
      using wf by (simp_all add: card_wf_def sdio_wf_quiet quiet_card quiet_same)
    have args: "0x80000000 OR push_bit 28 1 OR push_bit 27 1 OR push_bit 26 1 OR push_bit 9 (addr AND 0x1FFFF)
           OR ucast (ucast (len div ucast (ctx_block_size (tmio ?w))) :: u8) = ?args"
      using w bs by (simp add: quiet_def same_config_def flip: or.assoc)
    have "ok (live h) (wifi_card_send_command_alt h cmd53_write ?args ?w)
       (\<lambda>t. \<exists>u. block_start cmd53_write ?args ?w u \<and> t = emit (DmaOut b ?d) u)"
      using send_command_block_write [of ?w cmd53_write h ?args] b wf'
      by (simp add: wifi_card_send_command_alt_def cmd53_write_def)
    then show "ok (live h) (wifi_card_send_command_alt h cmd53_write
        (0x80000000 OR push_bit 28 1 OR push_bit 27 1 OR push_bit 26 1 OR push_bit 9 (addr AND 0x1FFFF)
           OR ucast (ucast (len div ucast (ctx_block_size (tmio ?w))) :: u8)) ?w
       \<bind> (\<lambda>s. wifi_ndma_wait h s \<bind> (\<lambda>s. if ctx_status (tmio (wifi_sdio_stop (ctx_controller (tmio s)) s)) AND 4 \<noteq> 0
            then Some (-1, wifi_sdio_stop (ctx_controller (tmio s)) s)
            else Some (0, wifi_sdio_stop (ctx_controller (tmio s)) s))))
       (\<lambda>r. xmit [tx_frame ?d] s (snd r) \<and> block_out ?args len b ?d s (snd r))"
      unfolding args
    proof (rule ok_bind_rule, elim exE conjE)
      fix t x assume st: "block_start cmd53_write ?args ?w x" and t: "t = emit (DmaOut b ?d) x"
      have "quiet ?w x" using st by (simp add: block_start_def)
      have o: "block_out ?args len b ?d s t"
        unfolding t by (rule block_start_out [OF st wf'(1) w]) simp
      have x: "xmit [] s x" by (rule xmit_quiet [OF quiet_trans [OF w \<open>quiet ?w x\<close>]])
      have *: "xmit [tx_frame ?d] s y" if "quiet t y" for y
        using xmit_trans [OF x xmit_trans [OF xmit_dma [of ?d x b] xmit_quiet]] that t by simp
      show "ok (live h) (wifi_ndma_wait h t \<bind> (\<lambda>s. if ctx_status (tmio (wifi_sdio_stop (ctx_controller (tmio s)) s)) AND 4 \<noteq> 0
            then Some (-1, wifi_sdio_stop (ctx_controller (tmio s)) s)
            else Some (0, wifi_sdio_stop (ctx_controller (tmio s)) s)))
          (\<lambda>r. xmit [tx_frame ?d] s (snd r) \<and> block_out ?args len b ?d s (snd r))"
        by (rule ok_bind_rule [OF wifi_ndma_wait_ok], intro ok_if; simp only: ok_Some snd_conv;
            intro conjI * block_out_quiet [OF o] quiet_intros)
    qed
  qed
  then show ?thesis using cc by (simp add: wifi_card_write_func1_block_def)
qed


lemma sendbytes_block:
  assumes wf: "card_wf s" and b: "b \<noteq> 0" "b AND 3 = 0"
  shows "ok (live h) (wifi_card_mbox0_sendbytes h b len s)
     (\<lambda>t. xmit [tx_frame (mem_read (mem s) b (4 * unat (len div 4)))] s t
        \<and> block_out (0x9C000000 OR push_bit 9 (ucast (ucast (0x4000 - len) :: u16) AND 0x1FFFF)
              OR ucast (ucast (len div 128) :: u8)) len b (mem_read (mem s) b (4 * unat (len div 4))) s t)"
proof -
  let ?o = "[tx_frame (mem_read (mem s) b (4 * unat (len div 4)))]"
  have *: "xmit ?o s v" if "xmit ?o s u" "quiet u v" for u v
    using xmit_trans [OF that(1) xmit_quiet [OF that(2)]] by simp
  have tail: "ok (live h) (do {
        (intval, s) \<leftarrow> wifi_card_read_func1_u32 h F1_HOST_INT_STATUS u;
        if intval AND 0x00010000 \<noteq> 0
        then do {
          (a, s) \<leftarrow> wifi_card_read_func1_u32 h F1_HOST_INT_STATUS s;
          (b, s) \<leftarrow> wifi_card_read_func1_u8 h F1_RX_LOOKAHEAD_VALID s;
          Some (wifi_printlnf [Lit ''Mbox Full!: '', Hex 8 a, Lit '' '', Hex 2 (ucast b)] s) }
        else Some s }) (quiet u)" if "card_wf u" for u :: "'a card_scheme"
    unfolding split_beta
    by (intro q_ok q_binds [OF that] q_ends quiet_intros quiet_refl that ok_if; assumption)
  show ?thesis
    unfolding wifi_card_mbox0_sendbytes_def Let_def split_beta
    by (rule ok_bind_rule [OF write_func1_block_ok [OF assms]], elim conjE, rule ok_mono [OF tail [unfolded split_beta]])
      (erule xmit_wf [THEN iffD2], rule wf, rule conjI, erule (1) *, erule (1) block_out_quiet)
qed

lemma sendbytes_ok:
  assumes "card_wf s" "b \<noteq> 0" "b AND 3 = 0"
  shows "ok (live h) (wifi_card_mbox0_sendbytes h b len s)
     (xmit [tx_frame (mem_read (mem s) b (4 * unat (len div 4)))] s)"
  by (rule ok_mono [OF sendbytes_block [OF assms]]) simp

lemma round_up_u16:
  fixes n :: u16
  assumes "unat n \<le> 0x600"
  shows "4 * unat (ucast (ucast (round_up (ucast n) 0x80) :: u16) div 4 :: u32) = (unat n + 127) div 128 * 128"
    (is "?l = ?r")
proof -
  let ?w = "round_up (ucast n) 0x80 :: u32"
  have "(ucast n :: u32) \<le> 0x600" using assms by (simp add: word_le_nat_alt)
  then have w: "unat ?w = ?r" using round_up_0x80 [of "ucast n"] by simp
  have "?r \<le> 0x600" using assms by simp
  with w have "unat (ucast (ucast ?w :: u16) :: u32) = ?r"
    by (simp add: unat_u32_u16)
  then show ?thesis by (simp add: unat_div_distrib)
qed

text \<open>
  The size of the transfer for \<open>n\<close> bytes, and the argument of its command: the mailbox window ends
  at 0x4000, so the last byte of the padded frame lands on the end of the window.
\<close>

definition padded :: "nat \<Rightarrow> nat" where
  "padded n = (n + 127) div 128 * 128"

definition mbox_args :: "nat \<Rightarrow> u32" where
  "mbox_args n = 0x9C000000 OR push_bit 9 (of_nat (0x4000 - n)) OR of_nat (n div 128)"

lemma mbox_args_u16:
  fixes n :: u16
  assumes "unat n \<le> 0x600"
  defines "len \<equiv> ucast (ucast (round_up (ucast n) 0x80) :: u16) :: u32"
  shows "len = of_nat (padded (unat n))"
    "0x9C000000 OR push_bit 9 (ucast (ucast (0x4000 - len) :: u16) AND 0x1FFFF) OR ucast (ucast (len div 128) :: u8)
       = mbox_args (padded (unat n))"
proof -
  let ?k = "padded (unat n)"
  have k: "?k \<le> 0x600" using assms(1) by (simp add: padded_def)
  have "(ucast n :: u32) \<le> 0x600" using assms by (simp add: word_le_nat_alt)
  then have "unat (round_up (ucast n) 0x80 :: u32) = ?k" using round_up_0x80 [of "ucast n"] by (simp add: padded_def)
  then have u: "unat len = ?k" using k by (simp add: len_def unat_u32_u16)
  then show len: "len = of_nat ?k" using k by (simp add: word_unat_eq_iff unat_of_nat)
  have "unat (0x4000 - len) = 0x4000 - ?k" using u k by (simp add: unat_sub word_le_nat_alt)
  then have a: "ucast (ucast (0x4000 - len) :: u16) = (of_nat (0x4000 - ?k) :: u32)"
    using k unfolding word_unat_eq_iff by (simp add: unat_u32_u16 unat_of_nat del: of_nat_diff)
  let ?w = "of_nat (0x4000 - ?k) :: u32"
  have m: "(0x1FFFF :: u32) = mask 17" by (simp add: mask_eq_exp_minus_1)
  have "unat ?w < 2 ^ 17" by (simp add: unat_of_nat del: of_nat_diff)
  then have "?w AND 0x1FFFF = ?w"
    unfolding m take_bit_eq_mask [symmetric] word_unat_eq_iff unsigned_take_bit_eq by (rule take_bit_nat_eq_self)
  moreover have "ucast (ucast (len div 128) :: u8) = (of_nat (?k div 128) :: u32)"
    using u k by (simp add: word_unat_eq_iff unsigned_ucast_eq unsigned_take_bit_eq unat_of_nat unat_div_distrib
        take_bit_nat_eq_self)
  ultimately show "0x9C000000 OR push_bit 9 (ucast (ucast (0x4000 - len) :: u16) AND 0x1FFFF) OR ucast (ucast (len div 128) :: u8)
       = mbox_args ?k"
    unfolding a mbox_args_def by simp
qed

text \<open>The frame a block carries once header and payload have been stored.\<close>

lemma stored_frame:
  fixes n :: u16
  assumes n: "unat n = 6 + length data" "unat n \<le> 0x600" and len: "length data = unat len"
  shows "tx_frame (mem_read (mem_write m b ([ty, ack] @ putle16 len @ putle16 idk @ data)) b
           (4 * unat (ucast (ucast (round_up (ucast n) 0x80) :: u16) div 4 :: u32)))
         = Tx ty ack len idk data"
proof -
  let ?bs = "[ty, ack] @ putle16 len @ putle16 idk @ data" and ?k = "(unat n + 127) div 128 * 128"
  have "length ?bs \<le> ?k" using n by (simp add: putle16_def)
  moreover have "?k \<le> 2 ^ 32" using n by simp
  ultimately obtain pad where "mem_read (mem_write m b ?bs) b ?k = ?bs @ pad"
    using mem_read_prefix by blast
  then show ?thesis
    unfolding round_up_u16 [OF n(2)] using tx_frame_encode [OF len] by simp
qed

definition frame_out :: "bytes \<Rightarrow> 'a card_scheme \<Rightarrow> 'a card_scheme \<Rightarrow> bool" where
  "frame_out bs s t \<longleftrightarrow> (let n = padded (length bs); b = mbox_out_buffer s
     in block_out (mbox_args n) (of_nat n) b (bs @ mem_read (mem s) (b + of_nat (length bs)) (n - length bs)) s t)"

lemma send_stored_block:
  fixes n :: u16
  assumes wf: "card_wf s" and d: "length data = unat len" and n: "unat n = 6 + length data"
    "unat n \<le> 0x600"
  shows "ok (live h) (wifi_card_mbox0_sendbytes h (mbox_out_buffer s)
            (ucast (ucast (round_up (ucast n) 0x80) :: u16))
            (store (mbox_out_buffer s) ([ty, ack] @ putle16 len @ putle16 idk @ data) s))
          (\<lambda>t. xmit [Tx ty ack len idk data] s t \<and> frame_out ([ty, ack] @ putle16 len @ putle16 idk @ data) s t)"
proof -
  let ?b = "mbox_out_buffer s" and ?bs = "[ty, ack] @ putle16 len @ putle16 idk @ data"
  let ?t = "store ?b ?bs s"
  have wft: "card_wf ?t" using wf by simp
  have b: "?b \<noteq> 0" "?b AND 3 = 0" using wf by (simp_all add: card_wf_def)
  have x: "xmit [] s ?t" by (rule xmit_store) (use n in \<open>simp add: putle16_def\<close>)
  have f: "tx_frame (mem_read (mem ?t) ?b
      (4 * unat (ucast (ucast (round_up (ucast n) 0x80) :: u16) div 4 :: u32))) = Tx ty ack len idk data"
    unfolding store_simps by (rule stored_frame [OF n d])
  have l: "length ?bs = unat n" using n by (simp add: putle16_def)
  have k: "unat n \<le> padded (unat n)" "padded (unat n) \<le> 2 ^ 32" using n by (simp_all add: padded_def)
  have fr: "mem_read (mem ?t) ?b (4 * unat (ucast (ucast (round_up (ucast n) 0x80) :: u16) div 4 :: u32))
      = ?bs @ mem_read (mem s) (?b + of_nat (length ?bs)) (padded (length ?bs) - length ?bs)"
    unfolding round_up_u16 [OF n(2)] padded_def [symmetric] store_simps l [symmetric]
    by (rule mem_read_padded) (use k l in simp_all)
  have o: "frame_out ?bs s u" if "block_out (mbox_args (padded (unat n))) (of_nat (padded (unat n))) ?b
      (?bs @ mem_read (mem s) (?b + of_nat (length ?bs)) (padded (length ?bs) - length ?bs)) ?t u" for u
    using that unfolding frame_out_def Let_def block_out_def store_simps l .
  show ?thesis
  proof (rule ok_mono [OF sendbytes_block [OF wft b]], unfold f, unfold fr,
      unfold mbox_args_u16(2) [OF n(2)], unfold mbox_args_u16(1) [OF n(2)], elim conjE, intro conjI o)
    fix u assume "xmit [Tx ty ack len idk data] ?t u"
    with xmit_trans [OF x] show "xmit [Tx ty ack len idk data] s u" by fastforce
  qed
qed

lemmas send_stored_ok = ok_mono [OF send_stored_block conjunct1]

text \<open>
  What the payload pointer is read as must not depend on the header being stored over it: it
  lies outside the \<open>k\<close> header bytes of the transmit buffer, or in the caller's frame.
\<close>

definition payload :: "nat \<Rightarrow> 'a card_scheme \<Rightarrow> cptr \<Rightarrow> u16 \<Rightarrow> bytes \<Rightarrow> bool" where
  "payload k s p len data \<longleftrightarrow> length data = unat len \<and> (p \<noteq> Addr 0 \<or> len = 0)
     \<and> (\<forall>m. outside (mbox_out_buffer s) k (mem s) m \<longrightarrow> deref m p (unat len) = data)"

lemma payload_Local [simp]: "payload k s (Local bs) len data \<longleftrightarrow> length data = unat len \<and> take (unat len) bs = data"
  by (auto simp: payload_def outside_def)

lemma payload_NULL [simp]: "payload k s (Addr 0) len data \<longleftrightarrow> len = 0 \<and> data = []"
  by (auto simp: payload_def)

lemma payload_store:
  assumes "payload k s p len data" "length hdr = k" "k \<le> 8" "b = mbox_out_buffer s"
    "a = b + of_nat k"
  shows "(if p \<noteq> Addr 0 then store a (deref (mem (store b hdr s)) p (unat len)) (store b hdr s)
          else store b hdr s) = store b (hdr @ data) s"
proof -
  have "outside b k (mem s) (mem (store b hdr s))"
    using assms by (simp add: outside_def mem_write_cases)
  with assms have "deref (mem (store b hdr s)) p (unat len) = data" by (simp add: payload_def)
  with assms show ?thesis by (auto simp: store_store payload_def)
qed

lemma send_packet_block:
  assumes wf: "card_wf s" and n: "unat len \<le> 0x600 - 6" and p: "payload 6 s p len data"
  shows "ok (live h) (wifi_card_mbox0_send_packet h ty ack p len idk s)
     (\<lambda>t. xmit [Tx ty ack len idk data] s t \<and> frame_out ([ty, ack] @ putle16 len @ putle16 idk @ data) s t)"
proof -
  let ?b = "mbox_out_buffer s"
  let ?hdr = "[ty, ack] @ putle16 len @ putle16 idk"
  have l: "\<not> len > 0x600 - 6" using n by (simp add: word_less_nat_alt)
  have d: "length data = unat len" using p by (simp add: payload_def)
  have n6: "unat (len + 6) = 6 + length data" using n d by (simp add: unat_word_ariths)
  have st: "(if p \<noteq> Addr 0 then store (?b + 6) (deref (mem (store ?b ?hdr s)) p (unat len)) (store ?b ?hdr s)
      else store ?b ?hdr s) = store ?b (?hdr @ data) s"
    by (rule payload_store [OF p]) (simp_all add: putle16_def)
  have hdr: "store (?b + 4) (putle16 idk) (store (?b + 2) (putle16 len) (store (?b + 1) [ack] (store ?b [ty] s)))
      = store ?b ?hdr s"
    by (simp add: store_store putle16_def)
  show ?thesis
    unfolding wifi_card_mbox0_send_packet_def Let_def hdr if_not_P [OF l] st append.assoc
    by (rule send_stored_block [OF wf d n6]) (use n n6 d in simp)
qed

lemma send_packet_ok:
  assumes "card_wf s" "unat len \<le> 0x600 - 6" "payload 6 s p len data"
  shows "ok (live h) (wifi_card_mbox0_send_packet h ty ack p len idk s) (xmit [Tx ty ack len idk data] s)"
  by (rule ok_mono [OF send_packet_block [OF assms]]) simp

lemma wmi_send_pkt_ok:
  assumes wf: "card_wf s" and n: "unat len \<le> 0x600 - 8" and p: "payload 8 s p len data"
  shows "ok (live h) (wmi_send_pkt h ty ack p len s)
     (xmit [Tx MBOXPKT_WMI ack (len + 2) (wmi_idk s) (putle16 ty @ data)] s)"
proof -
  let ?b = "mbox_out_buffer s"
  let ?hdr = "[MBOXPKT_WMI, ack] @ putle16 (len + 2) @ putle16 (wmi_idk s) @ putle16 ty"
  have l: "\<not> len > 0x600 - 8" using n by (simp add: word_less_nat_alt)
  have d: "length data = unat len" using p by (simp add: payload_def)
  have n2: "length (putle16 ty @ data) = unat (len + 2)" using n d by (simp add: unat_word_ariths putle16_def)
  have n8: "unat (len + 8) = 6 + length (putle16 ty @ data)" using n d by (simp add: unat_word_ariths putle16_def)
  have st: "(if p \<noteq> Addr 0 then store (?b + 8) (deref (mem (store ?b ?hdr s)) p (unat len)) (store ?b ?hdr s)
      else store ?b ?hdr s) = store ?b (?hdr @ data) s"
    by (rule payload_store [OF p]) (simp_all add: putle16_def)
  have hdr: "store (?b + 6) (putle16 ty) (store (?b + 4) (putle16 (wmi_idk s))
       (store (?b + 2) (putle16 (len + 2)) (store (?b + 1) [ack] (store ?b [MBOXPKT_WMI] u))))
       = store ?b ?hdr u" for u
    by (simp add: store_store putle16_def)
  have zero: "store ?b ?hdr (store ?b (replicate 8 0) s) = store ?b ?hdr s"
    by (rule store_overwrite) (simp_all add: putle16_def)
  show ?thesis
    unfolding wmi_send_pkt_def Let_def store_card hdr zero if_not_P [OF l] st append.assoc
    by (rule send_stored_ok [OF wf n2 n8]) (use n n8 n2 d in simp)
qed

end
