(* ===== verification/Boot.thy ===== *)
theory Boot
  imports Mailbox
begin

text \<open>
  Bringing the card up: the bootloader message interface (BMI) and the initialisation
  sequence of \<^verbatim>\<open>arm_iop/source/wifi_card.twl.c\<close> up to the point where it waits for the
  firmware's ready event. The \<^verbatim>\<open>int\<close> loop counters are natural numbers: they count below
  lengths of firmware images, far from the range of \<^verbatim>\<open>int\<close>.
\<close>

subsection \<open>Bytes through the mailbox\<close>

primrec put_bytes :: "hw \<Rightarrow> bytes \<Rightarrow> 'a card_scheme \<Rightarrow> 'a card_scheme option" where
  "put_bytes h [] s = Some s"
| "put_bytes h (b # bs) s = do {
     (r, s) \<leftarrow> wifi_card_write_func1_u8 h 0xFF b s;
     put_bytes h bs s }"

primrec get_bytes :: "hw \<Rightarrow> nat \<Rightarrow> u32 \<Rightarrow> 'a card_scheme \<Rightarrow> 'a card_scheme option" where
  "get_bytes h 0 out s = Some s"
| "get_bytes h (Suc n) out s = do {
     (b, s) \<leftarrow> wifi_card_read_func1_u8 h 0xFF s;
     get_bytes h n (out + 1) (store out [b] s) }"

primrec skip_bytes :: "hw \<Rightarrow> nat \<Rightarrow> 'a card_scheme \<Rightarrow> 'a card_scheme option" where
  "skip_bytes h 0 s = Some s"
| "skip_bytes h (Suc n) s = do {
     (b, s) \<leftarrow> wifi_card_read_func1_u8 h 0xFF s;
     skip_bytes h n s }"

primrec skip_words :: "hw \<Rightarrow> nat \<Rightarrow> 'a card_scheme \<Rightarrow> 'a card_scheme option" where
  "skip_words h 0 s = Some s"
| "skip_words h (Suc n) s = do {
     (v, s) \<leftarrow> wifi_card_read_mbox0_u32 h s;
     skip_words h n s }"

subsection \<open>BMI commands\<close>

definition wifi_card_bmi_start_firmware :: "hw \<Rightarrow> 'a card_scheme \<Rightarrow> 'a card_scheme option" where
  "wifi_card_bmi_start_firmware h s = wifi_card_write_mbox0_u32 h BMI_DONE s"

definition wifi_card_bmi_cmd_read_memory ::
  "hw \<Rightarrow> u32 \<Rightarrow> u32 \<Rightarrow> u32 \<Rightarrow> 'a card_scheme \<Rightarrow> 'a card_scheme option" where
  "wifi_card_bmi_cmd_read_memory h addr len out s =
     (if len = 4 then do {
        (v, s) \<leftarrow> wifi_card_read_intern_word_fast h addr s;
        Some (store out (putle32 v) s) }
      else do {
        s \<leftarrow> wifi_card_write_mbox0_u32 h BMI_READ_MEMORY s;
        s \<leftarrow> wifi_card_write_mbox0_u32 h addr s;
        s \<leftarrow> wifi_card_write_mbox0_u32 h (len + len mod 4) s;
        s \<leftarrow> get_bytes h (unat len) out s;
        skip_bytes h (unat (len mod 4)) s })"

definition wifi_card_bmi_cmd_write_memory ::
  "hw \<Rightarrow> u32 \<Rightarrow> cptr \<Rightarrow> u32 \<Rightarrow> 'a card_scheme \<Rightarrow> 'a card_scheme option" where
  "wifi_card_bmi_cmd_write_memory h addr data len s =
     (if len = 4
      then wifi_card_write_intern_word h addr (getle32 (bnth (deref (mem s) data 4))) s
      else do {
        s \<leftarrow> wifi_card_write_mbox0_u32 h BMI_WRITE_MEMORY s;
        s \<leftarrow> wifi_card_write_mbox0_u32 h addr s;
        s \<leftarrow> wifi_card_write_mbox0_u32 h (len + len mod 4) s;
        s \<leftarrow> put_bytes h (deref (mem s) data (unat len)) s;
        put_bytes h (replicate (unat (len mod 4)) 0) s })"

definition wifi_card_bmi_execute ::
  "hw \<Rightarrow> u32 \<Rightarrow> u32 \<Rightarrow> 'a card_scheme \<Rightarrow> (u32 \<times> 'a card_scheme) option" where
  "wifi_card_bmi_execute h addr arg s = do {
     s \<leftarrow> wifi_card_write_mbox0_u32 h BMI_EXECUTE s;
     s \<leftarrow> wifi_card_write_mbox0_u32 h addr s;
     s \<leftarrow> wifi_card_write_mbox0_u32 h arg s;
     wifi_card_read_mbox0_u32 h s }"

definition wifi_card_bmi_read_register ::
  "hw \<Rightarrow> u32 \<Rightarrow> 'a card_scheme \<Rightarrow> (u32 \<times> 'a card_scheme) option" where
  "wifi_card_bmi_read_register h addr s = do {
     s \<leftarrow> wifi_card_write_mbox0_u32 h BMI_READ_SOC_REGISTER s;
     s \<leftarrow> wifi_card_write_mbox0_u32 h addr s;
     wifi_card_read_mbox0_u32 h s }"

definition wifi_card_bmi_write_register ::
  "hw \<Rightarrow> u32 \<Rightarrow> u32 \<Rightarrow> 'a card_scheme \<Rightarrow> 'a card_scheme option" where
  "wifi_card_bmi_write_register h addr v s = do {
     s \<leftarrow> wifi_card_write_mbox0_u32 h BMI_WRITE_SOC_REGISTER s;
     s \<leftarrow> wifi_card_write_mbox0_u32 h addr s;
     wifi_card_write_mbox0_u32 h v s }"

definition wifi_card_bmi_get_version :: "hw \<Rightarrow> 'a card_scheme \<Rightarrow> (u32 \<times> 'a card_scheme) option" where
  "wifi_card_bmi_get_version h s = do {
     s \<leftarrow> wifi_card_write_mbox0_u32 h BMI_GET_TARGET_ID s;
     (ret, s) \<leftarrow> wifi_card_read_mbox0_u32 h s;
     if ret = 0xFFFFFFFF then do {
       (len, s) \<leftarrow> wifi_card_read_mbox0_u32 h s;
       if len \<noteq> 0xFFFFFFFF then do {
         (ret, s) \<leftarrow> wifi_card_read_mbox0_u32 h s;
         s \<leftarrow> skip_words h (unat (len div 4 - 2)) s;
         Some (ret, s) }
       else Some (ret, s) }
     else Some (ret, s) }"

definition wifi_card_bmi_lz_start :: "hw \<Rightarrow> u32 \<Rightarrow> 'a card_scheme \<Rightarrow> 'a card_scheme option" where
  "wifi_card_bmi_lz_start h addr s = do {
     s \<leftarrow> wifi_card_write_mbox0_u32 h BMI_LZ_STREAM_START s;
     wifi_card_write_mbox0_u32 h addr s }"

definition wifi_card_bmi_lz_data :: "hw \<Rightarrow> u32 \<Rightarrow> u32 \<Rightarrow> 'a card_scheme \<Rightarrow> 'a card_scheme option" where
  "wifi_card_bmi_lz_data h data len s =
     (let len_bulk = len - len mod 0x80 in do {
        s \<leftarrow> wifi_card_write_mbox0_u32 h BMI_LZ_DATA s;
        s \<leftarrow> wifi_card_write_mbox0_u32 h (len + len mod 4) s;
        s \<leftarrow> wifi_card_mbox0_sendbytes h data len_bulk s;
        s \<leftarrow> put_bytes h (mem_read (mem s) (data + len_bulk) (unat len - unat len_bulk)) s;
        put_bytes h (replicate (unat (len mod 4)) 0) s })"

function bmi_write_chunks ::
  "hw \<Rightarrow> u32 \<Rightarrow> u32 \<Rightarrow> nat \<Rightarrow> nat \<Rightarrow> 'a card_scheme \<Rightarrow> 'a card_scheme option" where
  "bmi_write_chunks h addr data len i s =
     (if i < len
      then do {
        s \<leftarrow> wifi_card_bmi_cmd_write_memory h (addr + of_nat i) (Addr (data + of_nat i))
              (of_nat (if i + 0x1F0 > len then len - i else 0x1F0)) s;
        bmi_write_chunks h addr data len (i + 0x1F0) s }
      else Some s)"
  by pat_completeness auto
termination
  by (relation "measure (\<lambda>(h, addr, data, len, i, s). len - i)") auto

declare bmi_write_chunks.simps [simp del]

definition wifi_card_bmi_write_memory ::
  "hw \<Rightarrow> u32 \<Rightarrow> u32 \<Rightarrow> u32 \<Rightarrow> 'a card_scheme \<Rightarrow> 'a card_scheme option" where
  "wifi_card_bmi_write_memory h addr data len s = bmi_write_chunks h addr data (unat len) 0 s"

function bmi_lz_chunks :: "hw \<Rightarrow> u32 \<Rightarrow> nat \<Rightarrow> nat \<Rightarrow> 'a card_scheme \<Rightarrow> 'a card_scheme option" where
  "bmi_lz_chunks h data len i s =
     (if i < len
      then do {
        s \<leftarrow> wifi_card_bmi_lz_data h (data + of_nat i)
              (of_nat (if i + 0x1F8 > len then len - i else 0x1F8)) s;
        bmi_lz_chunks h data len (i + 0x1F8) s }
      else Some s)"
  by pat_completeness auto
termination
  by (relation "measure (\<lambda>(h, data, len, i, s). len - i)") auto

declare bmi_lz_chunks.simps [simp del]

definition wifi_card_bmi_lz_upload ::
  "hw \<Rightarrow> u32 \<Rightarrow> u32 \<Rightarrow> u32 \<Rightarrow> 'a card_scheme \<Rightarrow> 'a card_scheme option" where
  "wifi_card_bmi_lz_upload h addr data len s = do {
     s \<leftarrow> wifi_card_bmi_lz_start h addr s;
     bmi_lz_chunks h data (unat len) 0 s }"

subsection \<open>Initialisation\<close>

definition wifi_card_switch_device :: "hw \<Rightarrow> 'a card_scheme \<Rightarrow> 'a card_scheme" where
  "wifi_card_switch_device h s = (wifi_sdio_switch_device h s)\<lparr>device_curctx := True\<rparr>"

definition wifi_card_setclk :: "hw \<Rightarrow> u32 \<Rightarrow> 'a card_scheme \<Rightarrow> 'a card_scheme" where
  "wifi_card_setclk h data s = wifi_sdio_setclk h REG_SDIO_BASE data s"

definition wifi_card_stop :: "'a card_scheme \<Rightarrow> 'a card_scheme" where
  "wifi_card_stop s = wifi_sdio_stop REG_SDIO_BASE s"

definition readFirmware :: "hw \<Rightarrow> u32 \<Rightarrow> nat \<Rightarrow> bytes" where
  "readFirmware h addr n = map (\<lambda>i. hw_flash h (addr + of_nat i)) [0..<n]"

text \<open>
  \<^verbatim>\<open>wifi_card_init\<close>: the access-point settings are the three 0x100-byte WEP slots below
  the end of the flash user area and the three 0x200-byte WPA slots at 0x1F400.
\<close>

definition wifi_card_init :: "hw \<Rightarrow> 'a card_scheme \<Rightarrow> 'a card_scheme" where
  "wifi_card_init h s =
     (let a = hw_alloc h (tr s);
          s = emit (Alloc a) (s\<lparr>mbox_buffer := a\<rparr>);
          b = hw_alloc h (tr s);
          s = emit (Alloc b) (s\<lparr>mbox_out_buffer := b\<rparr>);
          end_addr = getle32 (bnth (readFirmware h 0x20 4)) * 8;
          s = s\<lparr>wifi_card_nvram_wep_configs := readFirmware h (end_addr - 0x400) 0x300\<rparr>;
          s = s\<lparr>wifi_card_nvram_configs := readFirmware h 0x1F400 0x600\<rparr>;
          s = wifi_ndma_init s;
          s = wifi_sdio_controller_init h REG_SDIO_BASE s
      in emit Handler s)"

definition cmd_simple :: "u32 \<Rightarrow> u32 \<Rightarrow> wifi_sdio_command" where
  "cmd_simple n r = \<lparr>cmd_cmd = n, cmd_command_type = 0, cmd_response_type = r,
     cmd_data_transfer = False, cmd_data_direction = False, cmd_data_length = False,
     cmd_secure = False\<rparr>"

text \<open>\<^verbatim>\<open>if(ctx->tmio.status & 4) return -1;\<close> and what follows it.\<close>

definition unless_error :: "'a card_scheme \<Rightarrow> (u32 \<times> 'a card_scheme) option \<Rightarrow> (u32 \<times> 'a card_scheme) option" where
  "unless_error s k = (if ctx_status (tmio s) AND 4 \<noteq> 0 then Some (-1, s) else k)"

text \<open>The CMD5 negotiation: \<open>False\<close> is the jump to \<^verbatim>\<open>skip_opcond\<close>.\<close>

partial_function (option) opcond :: "hw \<Rightarrow> u32 \<Rightarrow> 'a card_scheme \<Rightarrow> (bool \<times> 'a card_scheme) option" where
  "opcond h ocr s = do {
     s \<leftarrow> wifi_card_send_command h (cmd_simple 5 wifi_sdio_resp_48bit_ocr_no_crc7) ocr s;
     if ctx_status (tmio s) AND 4 \<noteq> 0
     then Some (False, wifi_printf [Lit ''Skip opcond...'', Lit [CHR 0x0A]] s)
     else if ctx_status (tmio s) AND 1 = 0 then opcond h ocr s
     else if ctx_resp (tmio s) ! 0 AND 0x80000000 \<noteq> 0 then Some (True, s)
     else opcond h (ctx_resp (tmio s) ! 0 AND 0xFFFFFF) s }"

definition wlan_select :: "hw \<Rightarrow> 'a card_scheme \<Rightarrow> 'a card_scheme option" where
  "wlan_select h s =
     (let s = s\<lparr>device_curctx := True\<rparr>;
          s = s\<lparr>tmio := (tmio s)\<lparr>ctx_port := 0, ctx_address := 0, ctx_debug := False,
                 ctx_break_early := False, ctx_block_size := 128\<rparr>\<rparr>;
          (v, s) = mmio_read16 h 0x4004C04 s;
          s = emit (W16 0x4004C04 (v AND NOT 0x100)) s;
          s = emit (Rtc [0x72, 0x80]) s;
          s = emit (Rtc [0x74, 0x00]) s;
          s = emit (I2c 0x4A 0x30 0x13) s;
          s = emit (W16 0x4004020 1) s;
          s = s\<lparr>tmio := (tmio s)\<lparr>ctx_bus_width := 4\<rparr>\<rparr>;
          s = wifi_card_switch_device h s
      in do {
        (v, s) \<leftarrow> wifi_card_read_func0_u8 h 0x00 s;
        Some (if ctx_status (tmio s) AND 4 \<noteq> 0
              then wifi_printlnf [Lit ''Failed to read revision, assuming 1bit'']
                     (wifi_card_switch_device h (s\<lparr>tmio := (tmio s)\<lparr>ctx_bus_width := 1\<rparr>\<rparr>))
              else s) })"

text \<open>Addressing and selecting the card once the operating conditions are agreed.\<close>

definition wlan_address :: "hw \<Rightarrow> 'a card_scheme \<Rightarrow> (u32 \<times> 'a card_scheme) option" where
  "wlan_address h s = do {
     s \<leftarrow> wifi_card_send_command h (cmd_simple 3 wifi_sdio_resp_48bit) 0 s;
     unless_error s (do {
       let s = s\<lparr>tmio := (tmio s)\<lparr>ctx_address := ucast (drop_bit 16 (ctx_resp (tmio s) ! 0))\<rparr>\<rparr>;
       s \<leftarrow> wifi_card_send_command h (cmd_simple 7 wifi_sdio_resp_48bit_busy)
             (push_bit 16 (ucast (ctx_address (tmio s)))) s;
       unless_error s (Some (0, s)) }) }"

text \<open>From \<^verbatim>\<open>skip_opcond\<close> to the end of the reset block.\<close>

definition wlan_bus :: "hw \<Rightarrow> 'a card_scheme \<Rightarrow> (u32 \<times> 'a card_scheme) option" where
  "wlan_bus h s = do {
     (r, s) \<leftarrow> wifi_card_write_func0_u8 h 0x2 0x0 s;
     (r, s) \<leftarrow> wifi_card_write_func0_u8 h 0x2 0x2 s;
     s \<leftarrow> wifi_card_send_command h cmd52 (push_bit 9 0x07) s;
     unless_error s (do {
     let bus_interface_control = (ucast (ctx_resp (tmio s) ! 0 AND 0xFF) OR 0x82 :: u8);
     (r, s) \<leftarrow> wifi_card_write_func0_u8 h 0x07 bus_interface_control s;
     unless_error s (do {
     let s = wifi_card_switch_device h (s\<lparr>tmio := (tmio s)\<lparr>ctx_bus_width := 4\<rparr>\<rparr>);
     (r, s) \<leftarrow> wifi_card_write_func0_u8 h 0x12 0x02 s;
     unless_error s (do {
     (r, s) \<leftarrow> wifi_card_write_func0_u8 h 0x110 (ucast (ctx_block_size (tmio s) AND 0xFF)) s;
     unless_error s (do {
     (r, s) \<leftarrow> wifi_card_write_func0_u8 h 0x111 (ucast (drop_bit 8 (ctx_block_size (tmio s)))) s;
     unless_error s (do {
     (r, s) \<leftarrow> wifi_card_write_func0_u8 h 0x10 (ucast (ctx_block_size (tmio s) AND 0xFF)) s;
     unless_error s (do {
     (r, s) \<leftarrow> wifi_card_write_func0_u8 h 0x11 (ucast (drop_bit 8 (ctx_block_size (tmio s)))) s;
     unless_error s (Some (0, s)) }) }) }) }) }) }) }"

definition wlan_reset :: "hw \<Rightarrow> 'a card_scheme \<Rightarrow> (u32 \<times> 'a card_scheme) option" where
  "wlan_reset h s = do {
     let s = wifi_printlnf [Lit ''Resetting SDIO...''] s;
     let s = wifi_sdio_stop (ctx_controller (tmio s)) s;
     (agreed, s) \<leftarrow> opcond h 0 s;
     (r, s) \<leftarrow> (if agreed then wlan_address h s else Some (0, s));
     if r \<noteq> 0 then Some (r, s) else wlan_bus h s }"

definition wlan_identify :: "hw \<Rightarrow> 'a card_scheme \<Rightarrow> (u32 \<times> 'a card_scheme) option" where
  "wlan_identify h s = do {
     (revision, s) \<leftarrow> wifi_card_read_func0_u8 h 0x00 s;
     unless_error s (do {
       let s = wifi_printf [Lit ''Rev: '', Hex 2 (ucast revision), Lit [CHR 0x0A]] s;
       (r, s) \<leftarrow> wifi_card_write_func0_u8 h 0x02 0x02 s;
       s \<leftarrow> poll_func h 0 0x3 (\<lambda>v. v = 0x02) s;
       (m, s) \<leftarrow> wifi_card_read_func0_u32 h 0x1007 s;
       let s = s\<lparr>device_manufacturer := m\<rparr>;
       (c, s) \<leftarrow> wifi_card_read_intern_word h 0x000040ec s;
       let s = s\<lparr>device_chip_id := c\<rparr>;
       let s = (if ctx_status (tmio s) AND 4 \<noteq> 0
                then wifi_printf [Lit ''Error status reading manufacturer'', Lit [CHR 0x0A]] s else s);
       let s = wifi_printf [Lit ''Mfg '', Hex 8 (device_manufacturer s), Lit '' Cid '',
                 Hex 8 (device_chip_id s), Lit '' ('', Lit (wifi_card_get_chip_str s), Lit '')'',
                 Lit [CHR 0x0A]] s;
       let s = s\<lparr>device_host_interest_addr :=
                   if device_chip_id s = CHIP_ID_AR6002 then AR6002_HOST_INTEREST_ADDRESS
                   else AR601x_HOST_INTEREST_ADDRESS\<rparr>;
       Some (0, s) }) }"

text \<open>
  From the firmware check to the launch of the firmware. \<^verbatim>\<open>mem_write32\<close> is a local variable,
  passed by address.
\<close>

definition wlan_boot :: "hw \<Rightarrow> 'a card_scheme \<Rightarrow> 'a card_scheme option" where
  "wlan_boot h s = do {
     (is_uploaded, s) \<leftarrow> wifi_card_read_intern_word h (device_host_interest_addr s + 0x58) s;
     let s = (if is_uploaded = 0
              then wifi_printf [Lit (wifi_card_get_chip_str s), Lit '' needs firmware upload '',
                     Hex 1 is_uploaded, Lit ''.'', Lit [CHR 0x0A]] s else s);
     s \<leftarrow> wifi_card_write_intern_word h 0x4000 0x00000100 s;
     (cause, s) \<leftarrow> wifi_card_read_intern_word h 0x40C0 s;
     let s = wifi_printf [Lit ''Reset cause: '', Hex 8 cause, Lit [CHR 0x0A]] s;
     (version, s) \<leftarrow> wifi_card_bmi_get_version h s;
     let s = wifi_printlnf [Lit ''BMI version: '', Hex 8 version] s;
     s \<leftarrow> wifi_card_bmi_cmd_write_memory h (device_host_interest_addr s) (Local (putle32 0x2)) 4 s;
     (scratch0, s) \<leftarrow> wifi_card_bmi_read_register h 0x0180C0 s;
     s \<leftarrow> wifi_card_bmi_write_register h 0x0180C0 (scratch0 OR 0x8) s;
     (wlan_system_sleep, s) \<leftarrow> wifi_card_bmi_read_register h 0x0040C4 s;
     s \<leftarrow> wifi_card_bmi_write_register h 0x0040C4 (wlan_system_sleep OR 1) s;
     s \<leftarrow> wifi_card_bmi_write_register h 0x004028 0x5 s;
     s \<leftarrow> wifi_card_bmi_write_register h 0x004020 0x0 s;
     let s = wifi_printlnf [Lit ''BMI finishing...''] s;
     s \<leftarrow> wifi_card_bmi_cmd_write_memory h (device_host_interest_addr s + 0x6C) (Local (putle32 0x80)) 4 s;
     s \<leftarrow> wifi_card_bmi_cmd_write_memory h (device_host_interest_addr s + 0x74) (Local (putle32 0x63)) 4 s;
     let s = wifi_printlnf [Lit ''Launching!''] s;
     wifi_card_bmi_start_firmware h s }"

partial_function (option) firmware_ready :: "hw \<Rightarrow> 'a card_scheme \<Rightarrow> 'a card_scheme option" where
  "firmware_ready h s = do {
     (is_ready, s) \<leftarrow> wifi_card_read_intern_word h (device_host_interest_addr s + 0x58) s;
     if is_ready = 1 then Some s else firmware_ready h s }"

definition wlan_irq :: "hw \<Rightarrow> 'a card_scheme \<Rightarrow> 'a card_scheme option" where
  "wlan_irq h s = do {
     s \<leftarrow> firmware_ready h s;
     (a, s) \<leftarrow> wifi_card_read_intern_word h (device_host_interest_addr s + 0x54) s;
     let s = s\<lparr>device_eeprom_addr := a\<rparr>;
     (v, s) \<leftarrow> wifi_card_read_intern_word h (device_eeprom_addr s + 0x10) s;
     let s = s\<lparr>device_eeprom_version := v\<rparr>;
     let s = wifi_printlnf [Lit ''Firmware '', Hex 8 v, Lit '' ready, handshaking...''] s;
     let s = s\<lparr>wifi_card_bInitted := True\<rparr>;
     let s = emit (IrqOn (push_bit 11 1)) (emit (IrqSet (push_bit 11 1)) s);
     let s = wifi_sdio_enable_cardirq h REG_SDIO_BASE True s;
     s \<leftarrow> wifi_card_write_func1_u32 h F1_INT_STATUS_ENABLE 0x010300D1 s;
     (r, s) \<leftarrow> wifi_card_write_func0_u8 h 0x4 0x3 s;
     let s = emit (Timer 1000) s;
     Some (wifi_printlnf [Lit ''wait ready''] s) }"

text \<open>
  \<^verbatim>\<open>wifi_card_wlan_init\<close> up to its loop \<^verbatim>\<open>while (!wmi_is_ready());\<close>, which the card's interrupt
  handler ends: result 0 is reaching that loop. A failed allocation spins for ever.
\<close>

definition wlan_init_start :: "hw \<Rightarrow> 'a card_scheme \<Rightarrow> (u32 \<times> 'a card_scheme) option" where
  "wlan_init_start h s =
     (if mbox_out_buffer s = 0 \<or> mbox_buffer s = 0 then None
      else do {
        s \<leftarrow> wlan_select h s;
        (r, s) \<leftarrow> wlan_reset h s;
        if r \<noteq> 0 then Some (r, s) else do {
        (r, s) \<leftarrow> wlan_identify h s;
        if r \<noteq> 0 then Some (r, s) else do {
        s \<leftarrow> wlan_boot h s;
        s \<leftarrow> wlan_irq h s;
        Some (0, s) } } })"

definition zero_ctx :: wifi_sdio_ctx where
  "zero_ctx = \<lparr>ctx_controller = 0, ctx_address = 0, ctx_port = 0, ctx_debug = False,
     ctx_clk_cnt = 0, ctx_bus_width = 0, ctx_buffer = 0, ctx_size = 0, ctx_resp = [0, 0, 0, 0],
     ctx_status = 0, ctx_stat0 = 0, ctx_stat1 = 0, ctx_err0 = 0, ctx_err1 = 0,
     ctx_block_size = 0, ctx_break_early = False\<rparr>"

text \<open>\<^verbatim>\<open>wifi_card_device_init(wifi_card_dev_wlan)\<close>, to the same point.\<close>

definition wifi_card_device_init :: "hw \<Rightarrow> 'a card_scheme \<Rightarrow> (u32 \<times> 'a card_scheme) option" where
  "wifi_card_device_init h s =
     wlan_init_start h
       (s\<lparr>tmio := zero_ctx\<lparr>ctx_controller := REG_SDIO_BASE, ctx_clk_cnt := 0, ctx_bus_width := 1\<rparr>\<rparr>)"

definition wifi_card_deinit :: "hw \<Rightarrow> 'a card_scheme \<Rightarrow> 'a card_scheme option" where
  "wifi_card_deinit h s = do {
     let s = wifi_sdio_enable_cardirq h REG_SDIO_BASE False s;
     let s = emit (IrqOff (push_bit 11 1)) s;
     let s = emit (IrqOff (push_bit 6 1)) s;
     s \<leftarrow> (if wifi_card_bInitted s then do {
             s \<leftarrow> wifi_card_write_func1_u32 h F1_INT_STATUS_ENABLE 0x0 s;
             (r, s) \<leftarrow> wifi_card_write_func0_u8 h 0x4 0x0 s;
             Some s }
           else Some s);
     let s = s\<lparr>wifi_card_bInitted := False\<rparr>;
     Some (wifi_printlnf [Lit (wifi_card_get_chip_str s), Lit '' deinitted''] s) }"

definition wifi_card_host_interest_addr :: "'a card_scheme \<Rightarrow> u32" where
  "wifi_card_host_interest_addr s = device_host_interest_addr s"

definition wifi_card_send_ready :: "'a card_scheme \<Rightarrow> 'a card_scheme" where
  "wifi_card_send_ready s = emit (Fifo WIFI_IPCINT_READY []) s"

definition wifi_card_send_connect :: "'a card_scheme \<Rightarrow> 'a card_scheme" where
  "wifi_card_send_connect s = emit (Fifo WIFI_IPCINT_CONNECT []) s"

end
