(* ===== verification/Wmi.thy ===== *)
theory Wmi
  imports Boot Wpa
begin

text \<open>
  The static variables of \<^verbatim>\<open>arm_iop/source/ath/wmi.twl.c\<close> and the commands it sends to the
  firmware. Structures are packed (\<^verbatim>\<open>#pragma pack(push, 1)\<close>) and little-endian; a command is
  the concatenation of its fields. Pointers into the constant settings (\<^verbatim>\<open>ap_pass\<close>,
  \<^verbatim>\<open>ap_wep1\<close>..) are kept as the bytes they point to.
\<close>

datatype ap_security = AP_OPEN | AP_WEP | AP_WPA | AP_WPA2

abbreviation (input) CRYPT_NONE :: u8 where "CRYPT_NONE \<equiv> 1"
abbreviation (input) CRYPT_WEP :: u8 where "CRYPT_WEP \<equiv> 2"
abbreviation (input) CRYPT_TKIP :: u8 where "CRYPT_TKIP \<equiv> 3"
abbreviation (input) CRYPT_AES :: u8 where "CRYPT_AES \<equiv> 4"
abbreviation (input) AUTH_NONE :: u8 where "AUTH_NONE \<equiv> 0"
abbreviation (input) AUTH_8021X :: u8 where "AUTH_8021X \<equiv> 1"
abbreviation (input) AUTH_PSK :: u8 where "AUTH_PSK \<equiv> 2"
abbreviation (input) AUTH_FT :: u8 where "AUTH_FT \<equiv> 3"

record iop = card +
  ap_security_type :: ap_security
  device_mac :: bytes
  device_num_channels :: u8
  device_cur_channel_idx :: u8
  channel_freqs :: "u16 list"
  ap_found :: bool
  ap_channel :: u16
  ap_bssid :: bytes
  ap_caps :: u16
  ap_name :: bytes
  ap_pass :: bytes
  ap_wep1 :: bytes
  ap_wep2 :: bytes
  ap_wep3 :: bytes
  ap_wep4 :: bytes
  ap_wepmode :: u8
  ap_pmk :: bytes
  ap_nvram_idx :: nat
  ap_snr :: u16
  num_rounds_scanned :: u16
  ap_group_crypt_type :: u8
  ap_pair_crypt_type :: u8
  ap_auth_type :: u8
  wmi_bIsReady :: bool
  scan_done :: bool
  scanning :: bool
  sent_connect :: bool
  wmi_bScanning :: bool
  ap_connected :: bool
  has_sent_hs2 :: bool
  has_sent_hs4 :: bool
  device_ap_nonce :: bytes
  device_nonce :: bytes
  device_ap_mic :: bytes
  device_gtk_keyinfo :: gtk_keyinfo
  device_ptk :: ptk_keyinfo

subsection \<open>Names and conversions\<close>

primrec wmi_ap_sec_type_str :: "ap_security \<Rightarrow> string" where
  "wmi_ap_sec_type_str AP_OPEN = ''Open''"
| "wmi_ap_sec_type_str AP_WEP = ''WEP''"
| "wmi_ap_sec_type_str AP_WPA = ''WPA''"
| "wmi_ap_sec_type_str AP_WPA2 = ''WPA2-PSK''"

definition wmi_ap_crypt_str :: "u8 \<Rightarrow> string" where
  "wmi_ap_crypt_str t = (if t = CRYPT_NONE then ''NONE'' else if t = CRYPT_WEP then ''WEP''
     else if t = CRYPT_TKIP then ''TKIP'' else if t = CRYPT_AES then ''AES'' else ''Unk'')"

definition wmi_ap_auth_str :: "u8 \<Rightarrow> string" where
  "wmi_ap_auth_str t = (if t = AUTH_NONE then ''NONE'' else if t = AUTH_8021X then ''802.1X''
     else if t = AUTH_PSK then ''PSK'' else if t = AUTH_FT then ''FT'' else ''Unk'')"

definition wmi_ieee_to_crypt :: "u32 \<Rightarrow> u8" where
  "wmi_ieee_to_crypt ieee = (if ieee = 0x000FAC02 then CRYPT_TKIP
     else if ieee = 0x000FAC04 then CRYPT_AES else CRYPT_NONE)"

subsection \<open>Commands\<close>

abbreviation (input) WMI_CONNECT_CMD :: u16 where "WMI_CONNECT_CMD \<equiv> 0x0001"
abbreviation (input) WMI_DISCONNECT_CMD :: u16 where "WMI_DISCONNECT_CMD \<equiv> 0x0003"
abbreviation (input) WMI_SYNCHRONIZE_CMD :: u16 where "WMI_SYNCHRONIZE_CMD \<equiv> 0x0004"
abbreviation (input) WMI_CREATE_PSTREAM_CMD :: u16 where "WMI_CREATE_PSTREAM_CMD \<equiv> 0x0005"
abbreviation (input) WMI_START_SCAN_CMD :: u16 where "WMI_START_SCAN_CMD \<equiv> 0x0007"
abbreviation (input) WMI_SET_SCAN_PARAMS_CMD :: u16 where "WMI_SET_SCAN_PARAMS_CMD \<equiv> 0x0008"
abbreviation (input) WMI_SET_BSS_FILTER_CMD :: u16 where "WMI_SET_BSS_FILTER_CMD \<equiv> 0x0009"
abbreviation (input) WMI_SET_PROBED_SSID_CMD :: u16 where "WMI_SET_PROBED_SSID_CMD \<equiv> 0x000A"
abbreviation (input) WMI_SET_DISCONNECT_TIMEOUT_CMD :: u16 where
  "WMI_SET_DISCONNECT_TIMEOUT_CMD \<equiv> 0x000D"
abbreviation (input) WMI_GET_CHANNEL_LIST_CMD :: u16 where "WMI_GET_CHANNEL_LIST_CMD \<equiv> 0x000E"
abbreviation (input) WMI_SET_CHANNEL_PARAMS_CMD :: u16 where "WMI_SET_CHANNEL_PARAMS_CMD \<equiv> 0x0011"
abbreviation (input) WMI_SET_POWER_MODE_CMD :: u16 where "WMI_SET_POWER_MODE_CMD \<equiv> 0x0012"
abbreviation (input) WMI_ADD_CIPHER_KEY_CMD :: u16 where "WMI_ADD_CIPHER_KEY_CMD \<equiv> 0x0016"
abbreviation (input) WMI_SET_TX_PWR_CMD :: u16 where "WMI_SET_TX_PWR_CMD \<equiv> 0x001B"
abbreviation (input) WMI_DELETE_BAD_AP_CMD :: u16 where "WMI_DELETE_BAD_AP_CMD \<equiv> 0x001F"
abbreviation (input) WMI_TARGET_ERROR_REPORT_BITMASK_CMD :: u16 where
  "WMI_TARGET_ERROR_REPORT_BITMASK_CMD \<equiv> 0x0022"
abbreviation (input) WMI_WMIX_CMD :: u16 where "WMI_WMIX_CMD \<equiv> 0x002E"
abbreviation (input) WMI_SET_KEEPALIVE_CMD :: u16 where "WMI_SET_KEEPALIVE_CMD \<equiv> 0x003D"
abbreviation (input) WMI_SET_WSC_STATUS_CMD :: u16 where "WMI_SET_WSC_STATUS_CMD \<equiv> 0x0041"
abbreviation (input) WMI_SET_HEARTBEAT_TIMEOUT_CMD :: u16 where
  "WMI_SET_HEARTBEAT_TIMEOUT_CMD \<equiv> 0x0047"
abbreviation (input) WMI_SET_FRAMERATES_CMD :: u16 where "WMI_SET_FRAMERATES_CMD \<equiv> 0x0048"
abbreviation (input) WMI_SET_BITRATE_CMD :: u16 where "WMI_SET_BITRATE_CMD \<equiv> 0xF000"

text \<open>\<^verbatim>\<open>wmi_send_pkt(type, MBOXPKT_REQACK, &params, sizeof(params))\<close> for a local structure.\<close>

definition wmi_send :: "hw \<Rightarrow> u16 \<Rightarrow> bytes \<Rightarrow> 'a card_scheme \<Rightarrow> 'a card_scheme option" where
  "wmi_send h wmi_type params s =
     wmi_send_pkt h wmi_type MBOXPKT_REQACK (Local params) (of_nat (length params)) s"

definition wmi_set_bss_filter :: "hw \<Rightarrow> u8 \<Rightarrow> u32 \<Rightarrow> 'a iop_scheme \<Rightarrow> 'a iop_scheme option" where
  "wmi_set_bss_filter h filt ieMask s =
     wmi_send h WMI_SET_BSS_FILTER_CMD ([filt, 0] @ putle16 0 @ putle32 ieMask) s"

definition wmi_set_channel_params :: "hw \<Rightarrow> u16 \<Rightarrow> 'a iop_scheme \<Rightarrow> 'a iop_scheme option" where
  "wmi_set_channel_params h mhz s =
     wmi_send h WMI_SET_CHANNEL_PARAMS_CMD ([0, 0, 3, 1] @ putle16 mhz) s"

definition wmi_set_scan_params ::
  "hw \<Rightarrow> u8 \<Rightarrow> u16 \<Rightarrow> u16 \<Rightarrow> u16 \<Rightarrow> 'a iop_scheme \<Rightarrow> 'a iop_scheme option" where
  "wmi_set_scan_params h flags maxact pas minact s =
     wmi_send h WMI_SET_SCAN_PARAMS_CMD
       (putle16 0xFFFF @ putle16 0xFFFF @ putle16 0xFFFF @ putle16 maxact @ putle16 pas
        @ [3, flags] @ putle16 minact @ putle16 0 @ putle16 0) s"

definition wmi_start_scan :: "hw \<Rightarrow> 'a iop_scheme \<Rightarrow> 'a iop_scheme option" where
  "wmi_start_scan h s =
     wmi_send h WMI_START_SCAN_CMD
       (putle32 0 @ putle32 0 @ putle32 20 @ putle32 0 @ [0, 0] @ putle16 0) (s\<lparr>scan_done := False\<rparr>)"

definition wmi_disconnect_cmd :: "hw \<Rightarrow> 'a iop_scheme \<Rightarrow> 'a iop_scheme option" where
  "wmi_disconnect_cmd h s = wmi_send h WMI_DISCONNECT_CMD (putle32 0) s"

definition wmi_delete_bad_ap_cmd :: "hw \<Rightarrow> 'a iop_scheme \<Rightarrow> 'a iop_scheme option" where
  "wmi_delete_bad_ap_cmd h s = wmi_send h WMI_DELETE_BAD_AP_CMD [0] s"

definition wmi_create_pstream :: "hw \<Rightarrow> 'a iop_scheme \<Rightarrow> 'a iop_scheme option" where
  "wmi_create_pstream h s =
     wmi_send h WMI_CREATE_PSTREAM_CMD
       (concat (map putle32 [20, 20, 9999999, -1, 0, 83200, 83200, 83200, 0, 0, 6000000, 8192, 0])
        @ putle16 0x80D0 @ putle16 0x0D0 @ [0, 2, 0xFF, 1, 0, 5, 0]) s"

definition wmi_set_bitrate :: "hw \<Rightarrow> 'a iop_scheme \<Rightarrow> 'a iop_scheme option" where
  "wmi_set_bitrate h s = wmi_send h WMI_SET_BITRATE_CMD [0xFF, 0, 0] s"

definition wmi_set_framerate :: "hw \<Rightarrow> 'a iop_scheme \<Rightarrow> 'a iop_scheme option" where
  "wmi_set_framerate h s = wmi_send h WMI_SET_FRAMERATES_CMD ([1, 0xA4] @ putle16 0xFFF7) s"

definition wmi_set_tx_power :: "hw \<Rightarrow> 'a iop_scheme \<Rightarrow> 'a iop_scheme option" where
  "wmi_set_tx_power h s = wmi_send h WMI_SET_TX_PWR_CMD [255] s"

definition wmi_dbgoff :: "hw \<Rightarrow> 'a iop_scheme \<Rightarrow> 'a iop_scheme option" where
  "wmi_dbgoff h s =
     wmi_send h WMI_WMIX_CMD (putle32 0x2009 @ putle32 0xFFFFFFFF @ putle32 0) s"

text \<open>The cipher and key length that \<^verbatim>\<open>wmi_add_cipher_key\<close> announces.\<close>

definition cipher_key_kind :: "u8 \<Rightarrow> 'a iop_scheme \<Rightarrow> u8 \<times> u8" where
  "cipher_key_kind usage s =
     (let crypt_type = (if usage = 1 then ap_group_crypt_type s else CRYPT_AES);
          crypt_keylen = (if crypt_type = CRYPT_TKIP then 0x20 else 0x10)
      in if ap_security_type s = AP_WEP
         then (CRYPT_WEP, if ap_wepmode s = 0x1 \<or> ap_wepmode s = 0x5 then 5
                          else if ap_wepmode s = 0x3 \<or> ap_wepmode s = 0x7 then 0x10 else 13)
         else (crypt_type, crypt_keylen))"

text \<open>The 32-byte key field: the two MIC keys of TKIP change places.\<close>

definition cipher_key_field :: "u8 \<Rightarrow> bytes \<Rightarrow> bytes" where
  "cipher_key_field crypt_keylen key =
     (let f = overwrite 0 (take (if crypt_keylen < 0x10 then unat crypt_keylen else 0x10) key)
                (replicate 32 0)
      in if crypt_keylen > 0x10
         then overwrite 0x18 (take 8 (drop 0x10 key)) (overwrite 0x10 (take 8 (drop 0x18 key)) f)
         else f)"

definition wmi_add_cipher_key ::
  "hw \<Rightarrow> u8 \<Rightarrow> u8 \<Rightarrow> bytes \<Rightarrow> bytes option \<Rightarrow> 'a iop_scheme \<Rightarrow> 'a iop_scheme option" where
  "wmi_add_cipher_key h idx usage key rsc s =
     (let (crypt_type, crypt_keylen) = cipher_key_kind usage s;
          keyRSC = (case rsc of None \<Rightarrow> replicate 8 0 | Some r \<Rightarrow> take 8 r)
      in wmi_send h WMI_ADD_CIPHER_KEY_CMD
           ([idx, crypt_type, usage, crypt_keylen] @ keyRSC @ cipher_key_field crypt_keylen key @ [3]) s)"

text \<open>
  The structure of \<^verbatim>\<open>wmi_connect_cmd\<close>. The name is copied by \<^verbatim>\<open>strcpy\<close>, terminator included,
  over a field of 32 bytes that the channel follows.
\<close>

definition connect_params :: "u8 list \<Rightarrow> 'a iop_scheme \<Rightarrow> bytes" where
  "connect_params modes s =
     overwrite 42 (ap_bssid s)
       (overwrite 8 (c_string (ap_name s) @ [0])
         (modes @ [of_nat (length (c_string (ap_name s)))] @ replicate 32 0
          @ putle16 (ap_channel s) @ replicate 6 0 @ putle32 0))"

definition wmi_connect_cmd :: "hw \<Rightarrow> 'a iop_scheme \<Rightarrow> 'a iop_scheme option" where
  "wmi_connect_cmd h s =
     (case ap_security_type s of
        AP_OPEN \<Rightarrow> wmi_send h WMI_CONNECT_CMD (connect_params [1, 1, 1, 1, 0, 1, 0] s) s
      | AP_WEP \<Rightarrow> do {
          s \<leftarrow> wmi_add_cipher_key h 0 3 (ap_wep1 s) None s;
          s \<leftarrow> wmi_add_cipher_key h 1 1 (ap_wep2 s) None s;
          s \<leftarrow> wmi_add_cipher_key h 2 1 (ap_wep3 s) None s;
          s \<leftarrow> wmi_add_cipher_key h 3 1 (ap_wep4 s) None s;
          wmi_send h WMI_CONNECT_CMD (connect_params [1, 2, 1, CRYPT_WEP, 0, CRYPT_WEP, 0] s) s }
      | _ \<Rightarrow> wmi_send h WMI_CONNECT_CMD
               (connect_params [1, 1, 5, ap_pair_crypt_type s, 0, ap_group_crypt_type s, 0] s) s)"

definition wmi_scan :: "hw \<Rightarrow> 'a iop_scheme \<Rightarrow> 'a iop_scheme option" where
  "wmi_scan h s = do {
     s \<leftarrow> wmi_send h WMI_TARGET_ERROR_REPORT_BITMASK_CMD (putle32 0x7F) s;
     s \<leftarrow> wmi_send h WMI_SET_HEARTBEAT_TIMEOUT_CMD (putle32 0) s;
     s \<leftarrow> wmi_send_pkt h WMI_GET_CHANNEL_LIST_CMD MBOXPKT_REQACK (Addr 0) 0 s;
     s \<leftarrow> wmi_set_bss_filter h 0 0 s;
     s \<leftarrow> wmi_send h WMI_SET_PROBED_SSID_CMD ([0, 0, 0] @ replicate 32 0) s;
     let s = s\<lparr>wmi_bScanning := True\<rparr>;
     Some (wifi_printf [Lit ''scanning'', Lit [CHR 0x0A]] s) }"

text \<open>\<^verbatim>\<open>wmi_connect\<close>, and its part after \<^verbatim>\<open>wmi_idk\<close> is back to 0.\<close>

definition wmi_connect_setup :: "hw \<Rightarrow> 'a iop_scheme \<Rightarrow> 'a iop_scheme option" where
  "wmi_connect_setup h s = do {
     s \<leftarrow> wmi_send h WMI_SET_POWER_MODE_CMD [2] s;
     s \<leftarrow> wmi_send h WMI_SYNCHRONIZE_CMD [0] s;
     s \<leftarrow> wmi_create_pstream h s;
     s \<leftarrow> wmi_send h WMI_SET_WSC_STATUS_CMD [0] s;
     s \<leftarrow> wmi_send h WMI_SET_DISCONNECT_TIMEOUT_CMD [5] s;
     s \<leftarrow> wmi_send h WMI_SET_KEEPALIVE_CMD [0] s;
     wmi_connect_cmd h s }"

definition wmi_connect :: "hw \<Rightarrow> 'a iop_scheme \<Rightarrow> 'a iop_scheme option" where
  "wmi_connect h s = do {
     s \<leftarrow> wmi_set_bss_filter h 4 0 s;
     s \<leftarrow> wmi_set_scan_params h 5 200 200 200 s;
     s \<leftarrow> wmi_set_channel_params h (ap_channel s) s;
     let s = s\<lparr>wmi_idk := 0x2008\<rparr>;
     s \<leftarrow> wmi_send h WMI_SYNCHRONIZE_CMD [0] s;
     let s = s\<lparr>wmi_idk := 0\<rparr>;
     wmi_connect_setup h s }"

text \<open>The channel table has 32 entries; reading behind it has no result.\<close>

definition wmi_scantick :: "hw \<Rightarrow> 'a iop_scheme \<Rightarrow> 'a iop_scheme option" where
  "wmi_scantick h s =
     (if device_num_channels s = 0 then Some s else do {
      s \<leftarrow> (if ap_found s \<and> \<not> sent_connect s \<and> num_rounds_scanned s \<ge> 5 - 1
            then do { s \<leftarrow> wmi_connect h s; Some (s\<lparr>sent_connect := True\<rparr>) }
            else Some s);
      if ap_found s \<and> num_rounds_scanned s \<ge> 5 - 1 then Some s
      else if scanning s then Some s
      else if unat (device_cur_channel_idx s) \<ge> length (channel_freqs s) then None
      else
        let mhz = channel_freqs s ! unat (device_cur_channel_idx s);
            s = s\<lparr>device_cur_channel_idx := device_cur_channel_idx s + 1\<rparr>;
            s = (if device_cur_channel_idx s > device_num_channels s
                 then s\<lparr>device_cur_channel_idx := 0, num_rounds_scanned := num_rounds_scanned s + 1\<rparr>
                 else s);
            s = (if num_rounds_scanned s \<noteq> 0 \<and> num_rounds_scanned s mod 5 = 0
                 then s\<lparr>ap_snr := 0\<rparr> else s)
        in if mhz = 0 then Some s
           else do {
             s \<leftarrow> wmi_set_channel_params h mhz s;
             s \<leftarrow> wmi_set_scan_params h 1 20 50 0 s;
             s \<leftarrow> wmi_set_bss_filter h 1 0 s;
             s \<leftarrow> wmi_start_scan h s;
             Some (s\<lparr>scanning := True\<rparr>) } })"

definition wmi_tick :: "hw \<Rightarrow> 'a iop_scheme \<Rightarrow> 'a iop_scheme option" where
  "wmi_tick h s = (if wmi_bScanning s then wmi_scantick h s else Some s)"

definition wmi_handle_get_channel_list :: "view \<Rightarrow> 'a iop_scheme \<Rightarrow> 'a iop_scheme" where
  "wmi_handle_get_channel_list pkt_data s =
     (let num_entries = pkt_data 1;
          s = wifi_printlnf [Lit ''WMI_GET_CHANNEL_LIST_RESP num '', Hex 2 (ucast num_entries)] s;
          s = s\<lparr>device_num_channels := num_entries\<rparr>;
          n = (if num_entries > 32 then 32 else unat num_entries)
      in s\<lparr>channel_freqs := map (\<lambda>i. ucast (getle16 (\<lambda>j. pkt_data (2 + 2 * i + j)))) [0..<n]
                              @ drop n (channel_freqs s)\<rparr>)"

definition wmi_handle_scan_complete :: "'a iop_scheme \<Rightarrow> 'a iop_scheme" where
  "wmi_handle_scan_complete s = s\<lparr>scan_done := True, scanning := False\<rparr>"

definition wmi_is_ready :: "'a iop_scheme \<Rightarrow> bool" where
  "wmi_is_ready s = wmi_bIsReady s"

definition wmi_handshake_done :: "'a iop_scheme \<Rightarrow> bool" where
  "wmi_handshake_done s = has_sent_hs4 s"

definition wmi_get_mac :: "'a iop_scheme \<Rightarrow> bytes" where
  "wmi_get_mac s = device_mac s"

definition wmi_get_ap_mac :: "'a iop_scheme \<Rightarrow> bytes" where
  "wmi_get_ap_mac s = ap_bssid s"

text \<open>
  Installing the keys after the handshake (or, for open and WEP networks, right after the
  association, when \<open>keys\<close> is the NULL pointers).
\<close>

definition wmi_post_handshake ::
  "hw \<Rightarrow> (bytes \<times> gtk_keyinfo \<times> bytes) option \<Rightarrow> 'a iop_scheme \<Rightarrow> 'a iop_scheme option" where
  "wmi_post_handshake h keys s = do {
     s \<leftarrow> wmi_send h WMI_SYNCHRONIZE_CMD [1] s;
     s \<leftarrow> data_send_pkt h (Local (putle16 0x0200)) 2 s;
     s \<leftarrow> data_send_pkt h (Local (putle16 0x0200)) 2 s;
     s \<leftarrow> (if ap_security_type s = AP_WPA2
           then case keys of None \<Rightarrow> None
                | Some (key, gtk, rsc) \<Rightarrow> do {
                    s \<leftarrow> wmi_add_cipher_key h 0 0 key None s;
                    s \<leftarrow> wmi_add_cipher_key h (keyidx gtk) 1 (gtk_key gtk) (Some rsc) s;
                    Some (wifi_printlnf [Lit ''Added GTK '', Hex 1 (ucast (keyidx gtk))] s) }
           else Some s);
     s \<leftarrow> wmi_send h WMI_SYNCHRONIZE_CMD [1] s;
     Some (wifi_card_send_ready s) }"

subsection \<open>Which variables a quiet step or a transmission keeps\<close>

lemma iop_of_more:
  fixes s t :: "'a iop_scheme"
  assumes "machine.more t = machine.more s"
  shows "ap_security_type t = ap_security_type s" "device_mac t = device_mac s"
    "device_num_channels t = device_num_channels s" "device_cur_channel_idx t = device_cur_channel_idx s"
    "channel_freqs t = channel_freqs s" "ap_found t = ap_found s" "ap_channel t = ap_channel s"
    "ap_bssid t = ap_bssid s" "ap_caps t = ap_caps s" "ap_name t = ap_name s" "ap_pass t = ap_pass s"
    "ap_wep1 t = ap_wep1 s" "ap_wep2 t = ap_wep2 s" "ap_wep3 t = ap_wep3 s" "ap_wep4 t = ap_wep4 s"
    "ap_wepmode t = ap_wepmode s" "ap_pmk t = ap_pmk s" "ap_nvram_idx t = ap_nvram_idx s"
    "ap_snr t = ap_snr s" "num_rounds_scanned t = num_rounds_scanned s"
    "ap_group_crypt_type t = ap_group_crypt_type s" "ap_pair_crypt_type t = ap_pair_crypt_type s"
    "ap_auth_type t = ap_auth_type s" "wmi_bIsReady t = wmi_bIsReady s" "scan_done t = scan_done s"
    "scanning t = scanning s" "sent_connect t = sent_connect s" "wmi_bScanning t = wmi_bScanning s"
    "ap_connected t = ap_connected s" "has_sent_hs2 t = has_sent_hs2 s" "has_sent_hs4 t = has_sent_hs4 s"
    "device_ap_nonce t = device_ap_nonce s" "device_nonce t = device_nonce s"
    "device_ap_mic t = device_ap_mic s" "device_gtk_keyinfo t = device_gtk_keyinfo s"
    "device_ptk t = device_ptk s" "wmi_idk t = wmi_idk s"
    "wifi_card_nvram_wep_configs t = wifi_card_nvram_wep_configs s"
    "wifi_card_nvram_configs t = wifi_card_nvram_configs s" "iop.more t = iop.more s"
  using assms by (cases s; cases t; simp)+

lemmas printf_iop [simp] =
  iop_of_more [OF quiet_more [OF quiet_wifi_printf]] out_quiet [OF quiet_wifi_printf]
  card_wf_quiet [OF quiet_wifi_printf]
  iop_of_more [OF quiet_more [OF quiet_wifi_printlnf]] out_quiet [OF quiet_wifi_printlnf]
  card_wf_quiet [OF quiet_wifi_printlnf]

subsection \<open>What the commands put out\<close>

definition wmi_tx :: "u16 \<Rightarrow> u16 \<Rightarrow> bytes \<Rightarrow> outp" where
  "wmi_tx idk ty params =
     Tx MBOXPKT_WMI MBOXPKT_REQACK (of_nat (length params) + 2) idk (putle16 ty @ params)"

text \<open>The variables that the commands depend on.\<close>

definition same_ap :: "'a iop_scheme \<Rightarrow> 'a iop_scheme \<Rightarrow> bool" where
  "same_ap s t \<longleftrightarrow> wmi_idk t = wmi_idk s \<and> ap_security_type t = ap_security_type s
     \<and> ap_channel t = ap_channel s \<and> ap_bssid t = ap_bssid s \<and> ap_name t = ap_name s
     \<and> ap_wep1 t = ap_wep1 s \<and> ap_wep2 t = ap_wep2 s \<and> ap_wep3 t = ap_wep3 s
     \<and> ap_wep4 t = ap_wep4 s \<and> ap_wepmode t = ap_wepmode s
     \<and> ap_group_crypt_type t = ap_group_crypt_type s
     \<and> ap_pair_crypt_type t = ap_pair_crypt_type s"

lemma more_iop:
  fixes s t :: "'a iop_scheme"
  assumes "machine.more t = machine.more s"
  shows "same_ap s t"
  using assms by (cases s; cases t) (simp add: same_ap_def)

lemma xmit_more: "xmit os s t \<Longrightarrow> machine.more t = machine.more s"
  by (simp add: xmit_def)

text \<open>
  Sequences of commands: \<open>r\<close> is the state the sequence starts from, and every command's
  output is stated over it.
\<close>

lemma x_bind_upd:
  fixes s :: "'a iop_scheme"
  assumes wf: "card_wf s" "same_ap r s" and m: "ok L m (xmit a s)"
    and g: "\<And>x y. xmit a x y \<Longrightarrow> xmit a (g x) (g y)"
    and f: "\<And>u. card_wf u \<Longrightarrow> same_ap r u \<Longrightarrow> ok L (f u) (xmit b (g u))"
  shows "ok L (Option.bind m f) (xmit (a @ b) (g s))"
proof (rule ok_bind_rule [OF m])
  fix u assume x: "xmit a s u"
  have "card_wf u" using xmit_wf [OF x] wf by simp
  moreover have "same_ap r u"
    using wf(2) more_iop [OF xmit_more [OF x]] by (simp add: same_ap_def)
  ultimately show "ok L (f u) (xmit (a @ b) (g s))"
    using f xmit_trans [OF g [OF x]] ok_mono by blast
qed

lemma x_bind:
  fixes s :: "'a iop_scheme"
  assumes "card_wf s" "same_ap r s" "ok L m (xmit a s)"
    "\<And>u. card_wf u \<Longrightarrow> same_ap r u \<Longrightarrow> ok L (f u) (xmit b u)"
  shows "ok L (Option.bind m f) (xmit (a @ b) s)"
  by (rule x_bind_upd [where g = "\<lambda>s. s"]) (use assms in auto)

lemma wmi_send_ok:
  assumes "card_wf s" "wmi_idk s = idk" "length p \<le> 0x5F8"
  shows "ok (live h) (wmi_send h ty p s) (xmit [wmi_tx idk ty p] s)"
proof -
  have "unat (of_nat (length p) :: u16) = length p" using assms(3) by (simp add: unat_of_nat)
  then show ?thesis
    unfolding wmi_send_def wmi_tx_def assms(2) [symmetric]
    using assms(3) by (intro wmi_send_pkt_ok [OF assms(1)]) simp_all
qed

lemma x_send:
  assumes "card_wf s" "same_ap r s" "p = p'" "length p' \<le> 0x5F8"
  shows "ok (live h) (wmi_send h ty p s) (xmit [wmi_tx (wmi_idk r) ty p'] s)"
  using wmi_send_ok [of s "wmi_idk r" p' h ty] assms by (simp add: same_ap_def)

lemma xmit_upd:
  fixes s t :: "'a iop_scheme"
  assumes "xmit os s t"
  shows "xmit os (s\<lparr>wmi_idk := i\<rparr>) (t\<lparr>wmi_idk := i\<rparr>)"
    "xmit os (s\<lparr>wmi_bScanning := b\<rparr>) (t\<lparr>wmi_bScanning := b\<rparr>)"
    "xmit os (s\<lparr>scanning := b\<rparr>) (t\<lparr>scanning := b\<rparr>)"
    "xmit os (s\<lparr>scan_done := b\<rparr>) (t\<lparr>scan_done := b\<rparr>)"
    "xmit os (s\<lparr>sent_connect := b\<rparr>) (t\<lparr>sent_connect := b\<rparr>)"
  using assms by (cases s; cases t; simp add: xmit_def)+

definition bss_filter_tx :: "u16 \<Rightarrow> u8 \<Rightarrow> u32 \<Rightarrow> outp" where
  "bss_filter_tx idk filt ieMask =
     wmi_tx idk WMI_SET_BSS_FILTER_CMD ([filt, 0] @ putle16 0 @ putle32 ieMask)"

definition channel_params_tx :: "u16 \<Rightarrow> u16 \<Rightarrow> outp" where
  "channel_params_tx idk mhz = wmi_tx idk WMI_SET_CHANNEL_PARAMS_CMD ([0, 0, 3, 1] @ putle16 mhz)"

definition scan_params_tx :: "u16 \<Rightarrow> u8 \<Rightarrow> u16 \<Rightarrow> u16 \<Rightarrow> u16 \<Rightarrow> outp" where
  "scan_params_tx idk flags maxact pas minact = wmi_tx idk WMI_SET_SCAN_PARAMS_CMD
     (putle16 0xFFFF @ putle16 0xFFFF @ putle16 0xFFFF @ putle16 maxact @ putle16 pas @ [3, flags]
      @ putle16 minact @ putle16 0 @ putle16 0)"

definition pstream_tx :: "u16 \<Rightarrow> outp" where
  "pstream_tx idk = wmi_tx idk WMI_CREATE_PSTREAM_CMD
       (concat (map putle32 [20, 20, 9999999, -1, 0, 83200, 83200, 83200, 0, 0, 6000000, 8192, 0])
        @ putle16 0x80D0 @ putle16 0x0D0 @ [0, 2, 0xFF, 1, 0, 5, 0])"

definition start_scan_tx :: "u16 \<Rightarrow> outp" where
  "start_scan_tx idk = wmi_tx idk WMI_START_SCAN_CMD
     (putle32 0 @ putle32 0 @ putle32 20 @ putle32 0 @ [0, 0] @ putle16 0)"

named_theorems x_ok \<open>commands and what they put out\<close>

lemma x_bss_filter [x_ok]:
  "card_wf s \<Longrightarrow> same_ap r s \<Longrightarrow>
   ok (live h) (wmi_set_bss_filter h f m s) (xmit [bss_filter_tx (wmi_idk r) f m] s)"
  unfolding wmi_set_bss_filter_def bss_filter_tx_def
  by (rule x_send) (simp_all add: putle16_def putle32_def)

lemma x_channel_params [x_ok]:
  "card_wf s \<Longrightarrow> same_ap r s \<Longrightarrow> mhz = mhz' \<Longrightarrow>
   ok (live h) (wmi_set_channel_params h mhz s) (xmit [channel_params_tx (wmi_idk r) mhz'] s)"
  unfolding wmi_set_channel_params_def channel_params_tx_def
  by (rule x_send) (simp_all add: putle16_def)

lemma x_scan_params [x_ok]:
  "card_wf s \<Longrightarrow> same_ap r s \<Longrightarrow>
   ok (live h) (wmi_set_scan_params h f a p m s) (xmit [scan_params_tx (wmi_idk r) f a p m] s)"
  unfolding wmi_set_scan_params_def scan_params_tx_def
  by (rule x_send) (simp_all add: putle16_def)

lemma x_create_pstream [x_ok]:
  "card_wf s \<Longrightarrow> same_ap r s \<Longrightarrow> ok (live h) (wmi_create_pstream h s) (xmit [pstream_tx (wmi_idk r)] s)"
  unfolding wmi_create_pstream_def pstream_tx_def
  by (rule x_send) (simp_all add: putle16_def putle32_def)

lemma card_wf_upd [simp]:
  fixes s :: "'a iop_scheme"
  shows
    "card_wf (s\<lparr>wmi_idk := x0\<rparr>) = card_wf s"
    "card_wf (s\<lparr>mbox_has_lookahead := x1\<rparr>) = card_wf s"
    "card_wf (s\<lparr>mbox_lookahead := x2\<rparr>) = card_wf s"
    "card_wf (s\<lparr>ap_security_type := x3\<rparr>) = card_wf s"
    "card_wf (s\<lparr>device_mac := x4\<rparr>) = card_wf s"
    "card_wf (s\<lparr>device_num_channels := x5\<rparr>) = card_wf s"
    "card_wf (s\<lparr>device_cur_channel_idx := x6\<rparr>) = card_wf s"
    "card_wf (s\<lparr>channel_freqs := x7\<rparr>) = card_wf s"
    "card_wf (s\<lparr>ap_found := x8\<rparr>) = card_wf s"
    "card_wf (s\<lparr>ap_channel := x9\<rparr>) = card_wf s"
    "card_wf (s\<lparr>ap_bssid := x10\<rparr>) = card_wf s"
    "card_wf (s\<lparr>ap_caps := x11\<rparr>) = card_wf s"
    "card_wf (s\<lparr>ap_name := x12\<rparr>) = card_wf s"
    "card_wf (s\<lparr>ap_pass := x13\<rparr>) = card_wf s"
    "card_wf (s\<lparr>ap_wep1 := x14\<rparr>) = card_wf s"
    "card_wf (s\<lparr>ap_wep2 := x15\<rparr>) = card_wf s"
    "card_wf (s\<lparr>ap_wep3 := x16\<rparr>) = card_wf s"
    "card_wf (s\<lparr>ap_wep4 := x17\<rparr>) = card_wf s"
    "card_wf (s\<lparr>ap_wepmode := x18\<rparr>) = card_wf s"
    "card_wf (s\<lparr>ap_pmk := x19\<rparr>) = card_wf s"
    "card_wf (s\<lparr>ap_nvram_idx := x20\<rparr>) = card_wf s"
    "card_wf (s\<lparr>ap_snr := x21\<rparr>) = card_wf s"
    "card_wf (s\<lparr>num_rounds_scanned := x22\<rparr>) = card_wf s"
    "card_wf (s\<lparr>ap_group_crypt_type := x23\<rparr>) = card_wf s"
    "card_wf (s\<lparr>ap_pair_crypt_type := x24\<rparr>) = card_wf s"
    "card_wf (s\<lparr>ap_auth_type := x25\<rparr>) = card_wf s"
    "card_wf (s\<lparr>wmi_bIsReady := x26\<rparr>) = card_wf s"
    "card_wf (s\<lparr>scan_done := x27\<rparr>) = card_wf s"
    "card_wf (s\<lparr>scanning := x28\<rparr>) = card_wf s"
    "card_wf (s\<lparr>sent_connect := x29\<rparr>) = card_wf s"
    "card_wf (s\<lparr>wmi_bScanning := x30\<rparr>) = card_wf s"
    "card_wf (s\<lparr>ap_connected := x31\<rparr>) = card_wf s"
    "card_wf (s\<lparr>has_sent_hs2 := x32\<rparr>) = card_wf s"
    "card_wf (s\<lparr>has_sent_hs4 := x33\<rparr>) = card_wf s"
    "card_wf (s\<lparr>device_ap_nonce := x34\<rparr>) = card_wf s"
    "card_wf (s\<lparr>device_nonce := x35\<rparr>) = card_wf s"
    "card_wf (s\<lparr>device_ap_mic := x36\<rparr>) = card_wf s"
    "card_wf (s\<lparr>device_gtk_keyinfo := x37\<rparr>) = card_wf s"
    "card_wf (s\<lparr>device_ptk := x38\<rparr>) = card_wf s"
  by (simp_all add: card_wf_def sdio_wf_def)

lemma wmi_start_scan_ok:
  "card_wf s \<Longrightarrow> same_ap r s \<Longrightarrow>
   ok (live h) (wmi_start_scan h s) (xmit [start_scan_tx (wmi_idk r)] (s\<lparr>scan_done := False\<rparr>))"
  unfolding wmi_start_scan_def start_scan_tx_def
  by (rule x_send) (simp_all add: putle16_def putle32_def same_ap_def)

lemma length_connect_params:
  assumes "length modes = 7" "length (c_string (ap_name s)) \<le> 32" "length (ap_bssid s) = 6"
  shows "length (connect_params modes s) = 52"
  using assms by (simp add: connect_params_def length_overwrite putle16_def putle32_def)

definition key_tx :: "u16 \<Rightarrow> u8 \<Rightarrow> u8 \<Rightarrow> bytes \<Rightarrow> bytes \<Rightarrow> 'a iop_scheme \<Rightarrow> outp" where
  "key_tx idk idx usage key rsc s = (case cipher_key_kind usage s of (ct, kl) \<Rightarrow>
     wmi_tx idk WMI_ADD_CIPHER_KEY_CMD ([idx, ct, usage, kl] @ rsc @ cipher_key_field kl key @ [3]))"

lemma length_cipher_key_field:
  "length (cipher_key_field kl key) \<le> 32 + length key"
  by (auto simp: cipher_key_field_def Let_def overwrite_def)

lemma wmi_add_cipher_key_ok:
  assumes "card_wf s" "length key \<le> 64"
    "(case rsc of None \<Rightarrow> replicate 8 0 | Some r \<Rightarrow> take 8 r) = rs"
  shows "ok (live h) (wmi_add_cipher_key h idx usage key rsc s)
     (xmit [key_tx (wmi_idk s) idx usage key rs s] s)"
proof -
  obtain ct kl where k: "cipher_key_kind usage s = (ct, kl)" by fastforce
  have "length rs \<le> 8" using assms(3) by (auto split: option.splits)
  then have "length ([idx, ct, usage, kl] @ rs @ cipher_key_field kl key @ [3]) \<le> 0x5F8"
    using length_cipher_key_field [of kl key] assms(2) by simp
  from wmi_send_ok [OF assms(1) refl this] show ?thesis
    by (simp add: wmi_add_cipher_key_def key_tx_def k assms(3))
qed

lemma same_ap_key: "same_ap s t \<Longrightarrow> key_tx idk idx usage key rs t = key_tx idk idx usage key rs s"
  by (simp add: key_tx_def cipher_key_kind_def same_ap_def)

lemma x_key [x_ok]:
  assumes "card_wf s" "same_ap r s" "key = key'" "length key' \<le> 64"
    "(case rsc of None \<Rightarrow> replicate 8 0 | Some r \<Rightarrow> take 8 r) = rs"
  shows "ok (live h) (wmi_add_cipher_key h idx usage key rsc s)
     (xmit [key_tx (wmi_idk r) idx usage key' rs r] s)"
  using wmi_add_cipher_key_ok [of s key rsc rs h idx usage] same_ap_key [of r s] assms
  by (simp add: same_ap_def)

lemma same_ap_params: "same_ap s t \<Longrightarrow> connect_params modes t = connect_params modes s"
  by (simp add: connect_params_def same_ap_def)

lemma same_ap_refl [simp]: "same_ap s s"
  by (simp add: same_ap_def)

text \<open>The invariant of the settings of the selected access point.\<close>

definition ap_wf :: "'a iop_scheme \<Rightarrow> bool" where
  "ap_wf s \<longleftrightarrow> length (c_string (ap_name s)) \<le> 32 \<and> length (ap_bssid s) = 6
     \<and> length (ap_wep1 s) \<le> 16 \<and> length (ap_wep2 s) \<le> 16 \<and> length (ap_wep3 s) \<le> 16
     \<and> length (ap_wep4 s) \<le> 16"

definition connect_txs :: "'a iop_scheme \<Rightarrow> outp list" where
  "connect_txs s = (case ap_security_type s of
      AP_OPEN \<Rightarrow> [wmi_tx (wmi_idk s) WMI_CONNECT_CMD (connect_params [1, 1, 1, 1, 0, 1, 0] s)]
    | AP_WEP \<Rightarrow>
        [key_tx (wmi_idk s) 0 3 (ap_wep1 s) (replicate 8 0) s]
        @ [key_tx (wmi_idk s) 1 1 (ap_wep2 s) (replicate 8 0) s]
        @ [key_tx (wmi_idk s) 2 1 (ap_wep3 s) (replicate 8 0) s]
        @ [key_tx (wmi_idk s) 3 1 (ap_wep4 s) (replicate 8 0) s]
        @ [wmi_tx (wmi_idk s) WMI_CONNECT_CMD (connect_params [1, 2, 1, CRYPT_WEP, 0, CRYPT_WEP, 0] s)]
    | _ \<Rightarrow> [wmi_tx (wmi_idk s) WMI_CONNECT_CMD
              (connect_params [1, 1, 5, ap_pair_crypt_type s, 0, ap_group_crypt_type s, 0] s)])"

lemma ap_wf_same: "same_ap s t \<Longrightarrow> ap_wf t \<longleftrightarrow> ap_wf s"
  by (simp add: ap_wf_def same_ap_def)

lemma wmi_connect_cmd_ok:
  assumes wf: "card_wf s" "ap_wf s"
  shows "ok (live h) (wmi_connect_cmd h s) (xmit (connect_txs s) s)"
proof -
  have len: "length (connect_params modes s) \<le> 0x5F8" if "length modes = 7" for modes
    using wf(2) that length_connect_params [of modes s] by (simp add: ap_wf_def)
  show ?thesis
  proof (cases "ap_security_type s")
    case AP_WEP
    show ?thesis
      unfolding wmi_connect_cmd_def connect_txs_def AP_WEP ap_security.case
      by (intro x_bind [where r = s] x_key [where r = s] x_send [where r = s] wf same_ap_refl;
          (assumption | rule same_ap_params, assumption | rule len, simp
           | use wf(2) in \<open>simp add: same_ap_def ap_wf_def\<close>))
  qed (use wf len in \<open>simp_all add: wmi_connect_cmd_def connect_txs_def wmi_send_ok\<close>)
qed

lemma x_connect_cmd [x_ok]:
  assumes "card_wf s" "same_ap r s" "ap_wf r"
  shows "ok (live h) (wmi_connect_cmd h s) (xmit (connect_txs r) s)"
proof -
  have "connect_txs s = connect_txs r" "ap_wf s"
    using assms(2,3) same_ap_params [OF assms(2)] same_ap_key [OF assms(2)] ap_wf_same [OF assms(2)]
    by (simp_all add: connect_txs_def same_ap_def cong: ap_security.case_cong)
  with wmi_connect_cmd_ok [OF assms(1)] show ?thesis by simp
qed

lemma x_NULL [x_ok]:
  assumes "card_wf s" "same_ap r s"
  shows "ok (live h) (wmi_send_pkt h ty MBOXPKT_REQACK (Addr 0) 0 s) (xmit [wmi_tx (wmi_idk r) ty []] s)"
  using wmi_send_pkt_ok [OF assms(1), of 0 "Addr 0" "[]" h ty MBOXPKT_REQACK] assms(2)
  by (simp add: wmi_tx_def same_ap_def)

definition scan_txs :: "u16 \<Rightarrow> outp list" where
  "scan_txs idk =
     [wmi_tx idk WMI_TARGET_ERROR_REPORT_BITMASK_CMD (putle32 0x7F)]
     @ [wmi_tx idk WMI_SET_HEARTBEAT_TIMEOUT_CMD (putle32 0)]
     @ [wmi_tx idk WMI_GET_CHANNEL_LIST_CMD []]
     @ [bss_filter_tx idk 0 0]
     @ [wmi_tx idk WMI_SET_PROBED_SSID_CMD ([0, 0, 0] @ replicate 32 0)] @ []"

lemma wmi_scan_ok:
  assumes wf: "card_wf s"
  shows "ok (live h) (wmi_scan h s) (xmit (scan_txs (wmi_idk s)) (s\<lparr>wmi_bScanning := True\<rparr>))"
  unfolding wmi_scan_def scan_txs_def Let_def
  by (intro x_bind_upd [where r = s and g = "\<lambda>s. s\<lparr>wmi_bScanning := True\<rparr>"] x_send [where r = s]
      x_ok [where r = s] xmit_upd wf same_ap_refl ok_SomeI xmit_quiet quiet_wifi_printf;
      (assumption | simp add: putle32_def))

definition connect_setup_txs :: "'a iop_scheme \<Rightarrow> outp list" where
  "connect_setup_txs s =
     [wmi_tx (wmi_idk s) WMI_SET_POWER_MODE_CMD [2]] @ [wmi_tx (wmi_idk s) WMI_SYNCHRONIZE_CMD [0]]
     @ [pstream_tx (wmi_idk s)]
     @ [wmi_tx (wmi_idk s) WMI_SET_WSC_STATUS_CMD [0]] @ [wmi_tx (wmi_idk s) WMI_SET_DISCONNECT_TIMEOUT_CMD [5]]
     @ [wmi_tx (wmi_idk s) WMI_SET_KEEPALIVE_CMD [0]] @ connect_txs s"

lemma x_connect_setup [x_ok]:
  assumes "card_wf s" "same_ap r s" "ap_wf r"
  shows "ok (live h) (wmi_connect_setup h s) (xmit (connect_setup_txs r) s)"
  unfolding wmi_connect_setup_def connect_setup_txs_def
  by (intro x_bind [where r = r] x_send [where r = r] x_ok [where r = r] assms;
      (assumption | simp))

definition connect_seq :: "'a iop_scheme \<Rightarrow> outp list" where
  "connect_seq s =
     [bss_filter_tx (wmi_idk s) 4 0] @ [scan_params_tx (wmi_idk s) 5 200 200 200]
     @ [channel_params_tx (wmi_idk s) (ap_channel s)]
     @ [wmi_tx 0x2008 WMI_SYNCHRONIZE_CMD [0]] @ connect_setup_txs (s\<lparr>wmi_idk := 0\<rparr>)"

lemma wmi_connect_ok:
  assumes wf: "card_wf s" "ap_wf s"
  shows "ok (live h) (wmi_connect h s) (xmit (connect_seq s) (s\<lparr>wmi_idk := 0\<rparr>))"
proof -
  let ?g = "\<lambda>s :: 'a iop_scheme. s\<lparr>wmi_idk := 0\<rparr>" and ?i = "\<lambda>s :: 'a iop_scheme. s\<lparr>wmi_idk := 0x2008\<rparr>"
  have sync: "ok (live h) (do { v \<leftarrow> wmi_send h WMI_SYNCHRONIZE_CMD [0] (?i u); wmi_connect_setup h (?g v) })
      (xmit ([wmi_tx 0x2008 WMI_SYNCHRONIZE_CMD [0]] @ connect_setup_txs (?g s)) (?g u))"
    if u: "card_wf u" "same_ap s u" for u
  proof -
    have r: "same_ap (?i s) (?i u)" using u by (simp add: same_ap_def)
    have "ok (live h) (do { v \<leftarrow> wmi_send h WMI_SYNCHRONIZE_CMD [0] (?i u); wmi_connect_setup h (?g v) })
        (xmit ([wmi_tx 0x2008 WMI_SYNCHRONIZE_CMD [0]] @ connect_setup_txs (?g s)) (?g (?i u)))"
    proof (rule x_bind_upd [where g = ?g, OF _ r])
      show "ok (live h) (wmi_send h WMI_SYNCHRONIZE_CMD [0] (?i u)) (xmit [wmi_tx 0x2008 WMI_SYNCHRONIZE_CMD [0]] (?i u))"
        using u by (intro wmi_send_ok) simp_all
      show "ok (live h) (wmi_connect_setup h (?g v)) (xmit (connect_setup_txs (?g s)) (?g v))"
        if "card_wf v" "same_ap (?i s) v" for v
        by (rule x_connect_setup) (use that wf in \<open>simp_all add: same_ap_def ap_wf_def\<close>)
    qed (use u in \<open>simp_all add: xmit_upd\<close>)
    then show ?thesis by simp
  qed
  show ?thesis
    unfolding wmi_connect_def connect_seq_def Let_def
    by (intro x_bind_upd [where r = s and g = ?g] sync x_ok [where r = s] xmit_upd wf same_ap_refl;
        (assumption | simp add: same_ap_def))
qed

subsection \<open>The scanning tick\<close>

text \<open>What a tick does to the variables when it probes the next channel.\<close>

definition scan_advance :: "'a iop_scheme \<Rightarrow> 'a iop_scheme" where
  "scan_advance s =
     (let s = (if device_cur_channel_idx s + 1 > device_num_channels s
               then s\<lparr>device_cur_channel_idx := 0, num_rounds_scanned := num_rounds_scanned s + 1\<rparr>
               else s\<lparr>device_cur_channel_idx := device_cur_channel_idx s + 1\<rparr>)
      in if num_rounds_scanned s \<noteq> 0 \<and> num_rounds_scanned s mod 5 = 0 then s\<lparr>ap_snr := 0\<rparr> else s)"

definition probe_txs :: "u16 \<Rightarrow> u16 \<Rightarrow> outp list" where
  "probe_txs idk mhz = [channel_params_tx idk mhz] @ [scan_params_tx idk 1 20 50 0]
     @ [bss_filter_tx idk 1 0] @ [start_scan_tx idk] @ []"

definition ready_to_connect :: "'a iop_scheme \<Rightarrow> bool" where
  "ready_to_connect s \<longleftrightarrow> ap_found s \<and> num_rounds_scanned s \<ge> 4"

lemma scantick_idle:
  assumes "device_num_channels s = 0 \<or> ready_to_connect s \<and> sent_connect s
     \<or> \<not> ready_to_connect s \<and> scanning s"
  shows "wmi_scantick h s = Some s"
  using assms by (auto simp: wmi_scantick_def ready_to_connect_def)

lemma xmit_same_iop:
  fixes s t :: "'a iop_scheme"
  assumes "xmit os s t"
  shows "ap_found t = ap_found s" "num_rounds_scanned t = num_rounds_scanned s"
    "sent_connect t = sent_connect s" "scanning t = scanning s"
    "device_num_channels t = device_num_channels s"
    "device_cur_channel_idx t = device_cur_channel_idx s" "channel_freqs t = channel_freqs s"
    "ap_security_type t = ap_security_type s" "wmi_bScanning t = wmi_bScanning s"
  using xmit_more [OF assms] by (cases s; cases t; simp)+

lemma scantick_connects:
  assumes wf: "card_wf s" "ap_wf s" and n: "device_num_channels s \<noteq> 0"
    and r: "ready_to_connect s" "\<not> sent_connect s"
  shows "ok (live h) (wmi_scantick h s) (xmit (connect_seq s) (s\<lparr>wmi_idk := 0, sent_connect := True\<rparr>))"
proof -
  have "ok (live h) (do { s \<leftarrow> wmi_connect h s; Some (s\<lparr>sent_connect := True\<rparr>) })
      (\<lambda>t. xmit (connect_seq s) (s\<lparr>wmi_idk := 0, sent_connect := True\<rparr>) t)"
    by (rule ok_bind_rule [OF wmi_connect_ok [OF wf]]) (auto dest: xmit_upd(5))
  then have conn: "ok (live h) (do { s \<leftarrow> wmi_connect h s; Some (s\<lparr>sent_connect := True\<rparr>) })
      (\<lambda>t. xmit (connect_seq s) (s\<lparr>wmi_idk := 0, sent_connect := True\<rparr>) t \<and> ready_to_connect t)"
    by (rule ok_mono) (use r(1) in \<open>auto simp: ready_to_connect_def dest: xmit_same_iop\<close>)
  have c: "ap_found s \<and> \<not> sent_connect s \<and> num_rounds_scanned s \<ge> 5 - 1"
    using r by (simp add: ready_to_connect_def)
  show ?thesis
    unfolding wmi_scantick_def if_not_P [OF n] if_P [OF c]
    by (rule ok_bind_rule [OF conn]) (simp add: ready_to_connect_def)
qed

lemma scan_advance_wf [simp]: "card_wf (scan_advance s) = card_wf s"
  by (simp add: scan_advance_def Let_def card_wf_def sdio_wf_def)

lemma scan_advance_idk [simp]: "wmi_idk (scan_advance s) = wmi_idk s"
  by (simp add: scan_advance_def Let_def)

lemma start_scan_last:
  assumes "card_wf s" "same_ap r s"
  shows "ok (live h) (do { s \<leftarrow> wmi_start_scan h s; Some (s\<lparr>scanning := True\<rparr>) })
     (xmit ([start_scan_tx (wmi_idk r)] @ []) (s\<lparr>scan_done := False, scanning := True\<rparr>))"
  by (rule ok_bind_rule [OF wmi_start_scan_ok [OF assms]]) (auto dest: xmit_upd(3))

lemma scantick_probes:
  assumes wf: "card_wf s" and n: "device_num_channels s \<noteq> 0" and r: "\<not> ready_to_connect s" "\<not> scanning s"
    and i: "unat (device_cur_channel_idx s) < length (channel_freqs s)"
  shows "ok (live h) (wmi_scantick h s)
     (let mhz = channel_freqs s ! unat (device_cur_channel_idx s); u = scan_advance s
      in if mhz = 0 then (\<lambda>t. t = u)
         else xmit (probe_txs (wmi_idk s) mhz) (u\<lparr>scan_done := False, scanning := True\<rparr>))"
proof -
  let ?mhz = "channel_freqs s ! unat (device_cur_channel_idx s)" and ?u = "scan_advance s"
  let ?g = "\<lambda>s :: 'a iop_scheme. s\<lparr>scan_done := False, scanning := True\<rparr>"
  have tick: "wmi_scantick h s = (if ?mhz = 0 then Some ?u else do {
       s \<leftarrow> wmi_set_channel_params h ?mhz ?u;
       s \<leftarrow> wmi_set_scan_params h 1 20 50 0 s;
       s \<leftarrow> wmi_set_bss_filter h 1 0 s;
       s \<leftarrow> wmi_start_scan h s;
       Some (s\<lparr>scanning := True\<rparr>) })"
    using n r i unfolding wmi_scantick_def scan_advance_def
    by (auto simp: ready_to_connect_def Let_def)
  have "ok (live h) (do {
       s \<leftarrow> wmi_set_channel_params h ?mhz ?u;
       s \<leftarrow> wmi_set_scan_params h 1 20 50 0 s;
       s \<leftarrow> wmi_set_bss_filter h 1 0 s;
       s \<leftarrow> wmi_start_scan h s;
       Some (s\<lparr>scanning := True\<rparr>) }) (xmit (probe_txs (wmi_idk ?u) ?mhz) (?g ?u))"
    unfolding probe_txs_def
    by (intro x_bind_upd [where r = ?u and g = ?g] start_scan_last [where r = ?u] x_ok [where r = ?u]
        xmit_upd same_ap_refl; (assumption | use wf in simp))
  then show ?thesis unfolding tick Let_def by simp
qed

subsection \<open>A scanning round\<close>

text \<open>Ticks that the firmware answers with a scan-complete event each.\<close>

primrec scan_run :: "hw \<Rightarrow> nat \<Rightarrow> 'a iop_scheme \<Rightarrow> 'a iop_scheme option" where
  "scan_run h 0 s = Some s"
| "scan_run h (Suc k) s = do {
     s \<leftarrow> wmi_tick h s;
     scan_run h k (wmi_handle_scan_complete s) }"

definition scan_ready :: "nat \<Rightarrow> u16 list \<Rightarrow> 'a iop_scheme \<Rightarrow> bool" where
  "scan_ready n fs s \<longleftrightarrow> card_wf s \<and> wmi_bScanning s \<and> \<not> ap_found s \<and> \<not> scanning s
     \<and> unat (device_num_channels s) = n \<and> channel_freqs s = fs \<and> wmi_idk s = 0"

definition probes :: "u16 list \<Rightarrow> outp list" where
  "probes fs = concat (map (probe_txs 0) (filter (\<lambda>mhz. mhz \<noteq> 0) fs))"

lemma xmit_same_scan:
  fixes s t :: "'a iop_scheme"
  assumes "xmit os s t"
  shows "wmi_idk t = wmi_idk s" "outputs (tr t) = outputs (tr s) @ os"
  using assms xmit_more [OF assms] by (auto simp: xmit_def dest: more_card)

lemma scan_advance_simps [simp]:
  "ap_found (scan_advance s) = ap_found s" "scanning (scan_advance s) = scanning s"
  "device_num_channels (scan_advance s) = device_num_channels s"
  "channel_freqs (scan_advance s) = channel_freqs s" "wmi_bScanning (scan_advance s) = wmi_bScanning s"
  "tr (scan_advance s) = tr s"
  by (simp_all add: scan_advance_def Let_def)

lemma scan_advance_index:
  assumes "unat (device_cur_channel_idx s) = i" "unat (device_num_channels s) = n" "i \<le> n" "n < 255"
  shows "unat (device_cur_channel_idx (scan_advance s)) = (if i = n then 0 else Suc i)"
    "num_rounds_scanned (scan_advance s) = num_rounds_scanned s + (if i = n then 1 else 0)"
proof -
  have "unat (device_cur_channel_idx s + 1) = Suc i" using assms by (simp add: unat_word_ariths)
  then have "device_cur_channel_idx s + 1 > device_num_channels s \<longleftrightarrow> i = n"
    using assms by (auto simp: word_less_nat_alt)
  with \<open>unat (device_cur_channel_idx s + 1) = Suc i\<close>
  show "unat (device_cur_channel_idx (scan_advance s)) = (if i = n then 0 else Suc i)"
    "num_rounds_scanned (scan_advance s) = num_rounds_scanned s + (if i = n then 1 else 0)"
    by (auto simp: scan_advance_def Let_def)
qed

lemma scan_tick_step:
  fixes s :: "'a iop_scheme"
  assumes P: "scan_ready n fs s" and i: "unat (device_cur_channel_idx s) = i" "i \<le> n"
    and n: "0 < n" "n < length fs" "n < 255"
  shows "ok (live h) (wmi_tick h s) (\<lambda>t. let t' = wmi_handle_scan_complete t in
     scan_ready n fs t' \<and> outputs (tr t') = outputs (tr s) @ probes [fs ! i]
     \<and> unat (device_cur_channel_idx t') = (if i = n then 0 else Suc i)
     \<and> num_rounds_scanned t' = num_rounds_scanned s + (if i = n then 1 else 0))"
proof -
  let ?u = "scan_advance s"
  let ?Q = "\<lambda>t. scan_ready n fs (wmi_handle_scan_complete t)
     \<and> outputs (tr t) = outputs (tr s) @ probes [fs ! i]
     \<and> device_cur_channel_idx t = device_cur_channel_idx ?u \<and> num_rounds_scanned t = num_rounds_scanned ?u"
  have pr: "card_wf s" "wmi_bScanning s" "\<not> ap_found s" "\<not> scanning s" "unat (device_num_channels s) = n"
    "channel_freqs s = fs" "wmi_idk s = 0" using P by (auto simp: scan_ready_def)
  have "device_num_channels s \<noteq> 0" "\<not> ready_to_connect s" "unat (device_cur_channel_idx s) < length (channel_freqs s)"
    using pr n i by (auto simp: ready_to_connect_def)
  note probe = scantick_probes [OF pr(1) this(1,2) pr(4) this(3), of h]
  have "ok (live h) (wmi_scantick h s) ?Q"
  proof (rule ok_mono [OF probe])
    fix t :: "'a iop_scheme"
    assume *: "(let mhz = channel_freqs s ! unat (device_cur_channel_idx s); u = scan_advance s
      in if mhz = 0 then (\<lambda>t. t = u)
         else xmit (probe_txs (wmi_idk s) mhz) (u\<lparr>scan_done := False, scanning := True\<rparr>)) t"
    show "?Q t"
    proof (cases "fs ! i = 0")
      case True
      with * pr i show ?thesis
        by (auto simp: Let_def scan_ready_def wmi_handle_scan_complete_def probes_def)
    next
      case False
      with * pr i have x: "xmit (probe_txs 0 (fs ! i)) (?u\<lparr>scan_done := False, scanning := True\<rparr>) t"
        by (auto simp: Let_def)
      show ?thesis
        using xmit_same_iop [OF x] xmit_same_scan [OF x] xmit_wf [OF x] pr False
        by (simp add: scan_ready_def wmi_handle_scan_complete_def probes_def)
    qed
  qed
  then show ?thesis
    unfolding wmi_tick_def if_P [OF pr(2)] Let_def
    by (rule ok_mono) (use scan_advance_index [OF i(1) pr(5) i(2) n(3)] in \<open>simp add: wmi_handle_scan_complete_def\<close>)
qed

lemma probes_Cons: "probes (f # fs) = probes [f] @ probes fs"
  by (simp add: probes_def)

lemma scan_run_from:
  fixes s :: "'a iop_scheme"
  assumes "scan_ready n fs s" "unat (device_cur_channel_idx s) = i" "i + Suc k = Suc n"
    and n: "0 < n" "n < length fs" "n < 255"
  shows "ok (live h) (scan_run h (Suc k) s) (\<lambda>t. scan_ready n fs t
     \<and> outputs (tr t) = outputs (tr s) @ probes (take (Suc k) (drop i fs))
     \<and> device_cur_channel_idx t = 0 \<and> num_rounds_scanned t = num_rounds_scanned s + 1)"
  using assms(1-3)
proof (induction k arbitrary: s i)
  case 0
  have d: "take (Suc 0) (drop i fs) = [fs ! i]"
    using n "0.prems" by (simp add: take_Suc hd_drop_conv_nth)
  show ?case
    unfolding scan_run.simps d
    by (rule ok_bind_rule [OF scan_tick_step [OF "0.prems"(1,2) _ n]])
      (use "0.prems"(3) in \<open>auto simp: Let_def unat_eq_0\<close>)
next
  case (Suc k)
  have d: "take (Suc (Suc k)) (drop i fs) = fs ! i # take (Suc k) (drop (Suc i) fs)"
    using n Suc.prems by (simp add: take_Suc_Cons [symmetric] Cons_nth_drop_Suc)
  have "i \<le> n" "i \<noteq> n" using Suc.prems(3) by auto
  show ?case
    unfolding scan_run.simps(2) [of h "Suc k"] d
  proof (rule ok_bind_rule [OF scan_tick_step [OF Suc.prems(1,2) \<open>i \<le> n\<close> n]])
    fix t :: "'a iop_scheme"
    let ?t = "wmi_handle_scan_complete t"
    assume "let t' = ?t in scan_ready n fs t' \<and> outputs (tr t') = outputs (tr s) @ probes [fs ! i]
       \<and> unat (device_cur_channel_idx t') = (if i = n then 0 else Suc i)
       \<and> num_rounds_scanned t' = num_rounds_scanned s + (if i = n then 1 else 0)"
    then have t: "scan_ready n fs ?t" "outputs (tr ?t) = outputs (tr s) @ probes [fs ! i]"
      "unat (device_cur_channel_idx ?t) = Suc i" "num_rounds_scanned ?t = num_rounds_scanned s"
      using \<open>i \<noteq> n\<close> by (auto simp: Let_def)
    have "Suc i + Suc k = Suc n" using Suc.prems(3) by simp
    from Suc.IH [OF t(1,3) this] show "ok (live h) (scan_run h (Suc k) ?t) (\<lambda>u. scan_ready n fs u
       \<and> outputs (tr u) = outputs (tr s) @ probes (fs ! i # take (Suc k) (drop (Suc i) fs))
       \<and> device_cur_channel_idx u = 0 \<and> num_rounds_scanned u = num_rounds_scanned s + 1)"
      unfolding probes_Cons [of "fs ! i" "take (Suc k) (drop (Suc i) fs)"] t append.assoc
      by (rule ok_mono) auto
  qed
qed

subsection \<open>After the handshake\<close>

definition data_tx :: "bytes \<Rightarrow> outp" where
  "data_tx bs = Tx 2 MBOXPKT_NOACK (of_nat (length bs)) 0 bs"

lemma data_send_pkt_ok:
  assumes "card_wf s" "length bs \<le> 0x600 - 6" "len = of_nat (length bs)"
  shows "ok (live h) (data_send_pkt h (Local bs) len s) (xmit [data_tx bs] s)"
proof -
  have l: "(ucast len :: u16) = of_nat (length bs)" "unat (of_nat (length bs) :: u16) = length bs"
    using assms by (simp_all add: unat_of_nat word_unat_eq_iff unat_u32_u16)
  show ?thesis
    unfolding data_send_pkt_def data_tx_def l(1)
    using assms(2) l(2) by (intro send_packet_ok [OF assms(1)]) simp_all
qed

lemma x_data [x_ok]:
  "card_wf s \<Longrightarrow> same_ap r s \<Longrightarrow> length bs \<le> 0x600 - 6 \<Longrightarrow> len = of_nat (length bs) \<Longrightarrow>
   ok (live h) (data_send_pkt h (Local bs) len s) (xmit [data_tx bs] s)"
  by (rule data_send_pkt_ok)

lemma xmit_msg: "c \<noteq> WIFI_IPCINT_DBGLOG \<Longrightarrow> xmit [Msg c bs] s (emit (Fifo c bs) s)"
  by (simp add: xmit_def outside_def)

lemma xmit_send_ready: "xmit [Msg WIFI_IPCINT_READY []] s (wifi_card_send_ready s)"
  unfolding wifi_card_send_ready_def by (rule xmit_msg) (simp add: ipc_cmd_defs)

lemma xmit_send_connect: "xmit [Msg WIFI_IPCINT_CONNECT []] s (wifi_card_send_connect s)"
  unfolding wifi_card_send_connect_def by (rule xmit_msg) (simp add: ipc_cmd_defs)

definition install_txs :: "(bytes \<times> gtk_keyinfo \<times> bytes) option \<Rightarrow> 'a iop_scheme \<Rightarrow> outp list" where
  "install_txs keys s =
     (if ap_security_type s = AP_WPA2
      then case keys of None \<Rightarrow> []
           | Some (key, gtk, rsc) \<Rightarrow>
               [key_tx (wmi_idk s) 0 0 key (replicate 8 0) s]
               @ [key_tx (wmi_idk s) (keyidx gtk) 1 (gtk_key gtk) (take 8 rsc) s] @ []
      else [])"

definition post_handshake_txs :: "(bytes \<times> gtk_keyinfo \<times> bytes) option \<Rightarrow> 'a iop_scheme \<Rightarrow> outp list" where
  "post_handshake_txs keys s =
     [wmi_tx (wmi_idk s) WMI_SYNCHRONIZE_CMD [1]] @ [data_tx (putle16 0x0200)] @ [data_tx (putle16 0x0200)]
     @ install_txs keys s @ [wmi_tx (wmi_idk s) WMI_SYNCHRONIZE_CMD [1]] @ [Msg WIFI_IPCINT_READY []]"

lemma x_install:
  assumes "card_wf s" "same_ap r s" "ap_security_type r = AP_WPA2 \<Longrightarrow> keys \<noteq> None"
    and "\<And>key gtk rsc. keys = Some (key, gtk, rsc) \<Longrightarrow> length key \<le> 64 \<and> length (gtk_key gtk) \<le> 64"
  shows "ok (live h) (if ap_security_type s = AP_WPA2
           then case keys of None \<Rightarrow> None
                | Some (key, gtk, rsc) \<Rightarrow> do {
                    s \<leftarrow> wmi_add_cipher_key h 0 0 key None s;
                    s \<leftarrow> wmi_add_cipher_key h (keyidx gtk) 1 (gtk_key gtk) (Some rsc) s;
                    Some (wifi_printlnf [Lit ''Added GTK '', Hex 1 (ucast (keyidx gtk))] s) }
           else Some s) (xmit (install_txs keys r) s)"
proof (cases "ap_security_type r = AP_WPA2")
  case True
  with assms(2,3) obtain key gtk rsc where k: "keys = Some (key, gtk, rsc)" "ap_security_type s = AP_WPA2"
    by (cases keys) (auto simp: same_ap_def)
  have l: "length key \<le> 64" "length (gtk_key gtk) \<le> 64" using assms(4) [OF k(1)] by auto
  show ?thesis
    unfolding install_txs_def k option.case prod.case if_P [OF True] if_P [OF refl]
    by (intro x_bind [where r = r] x_key [where r = r] ok_SomeI xmit_quiet quiet_wifi_printlnf assms(1,2);
        (assumption | simp add: l))
next
  case False
  with assms(2) have "ap_security_type s \<noteq> AP_WPA2" by (simp add: same_ap_def)
  with False show ?thesis by (simp add: install_txs_def xmit_quiet)
qed

lemma wmi_post_handshake_ok:
  assumes wf: "card_wf s" and k: "ap_security_type s = AP_WPA2 \<Longrightarrow> keys \<noteq> None"
    "\<And>key gtk rsc. keys = Some (key, gtk, rsc) \<Longrightarrow> length key \<le> 64 \<and> length (gtk_key gtk) \<le> 64"
  shows "ok (live h) (wmi_post_handshake h keys s) (xmit (post_handshake_txs keys s) s)"
  unfolding wmi_post_handshake_def post_handshake_txs_def
  by (intro x_bind [where r = s] x_send [where r = s] x_ok [where r = s] x_install [where r = s]
      ok_SomeI xmit_send_ready wf same_ap_refl;
      (assumption | rule k(1), assumption | rule k(2), assumption | simp add: putle16_def))

end
