(* ===== verification/Bss.thy ===== *)
theory Bss
  imports Wmi
begin

text \<open>
  \<^verbatim>\<open>wmi_handle_bss_info\<close> of \<^verbatim>\<open>arm_iop/source/ath/wmi.twl.c\<close>: parsing the information
  elements of a beacon or probe response, and choosing an access point among the three WPA
  and the three WEP settings in flash. The packet is a view of memory; like the code, the
  parser reads wherever the lengths in the packet send it. The settings are looked up in the
  raw flash images by the offsets of \<^verbatim>\<open>nvram_cfg\<close> and \<^verbatim>\<open>nvram_cfg_wep\<close>.
\<close>

subsection \<open>Information elements\<close>

record bss_loc =
  loc_tmp :: bytes                 \<comment> \<open>\<^verbatim>\<open>tmp\<close>, the name of the network\<close>
  loc_sec :: ap_security
  loc_group :: u8
  loc_pair :: u8
  loc_auth :: u8

text \<open>The loops over the pairwise ciphers and the key management suites.\<close>

primrec pick_pair :: "view \<Rightarrow> nat \<Rightarrow> nat \<Rightarrow> u8 \<Rightarrow> u8" where
  "pick_pair p off 0 pair_crypto = pair_crypto"
| "pick_pair p off (Suc n) pair_crypto =
     (let pair_crypto = wmi_ieee_to_crypt (getbe32 (\<lambda>j. p (off + j)))
      in if pair_crypto = CRYPT_AES then pair_crypto else pick_pair p (off + 4) n pair_crypto)"

primrec pick_auth :: "view \<Rightarrow> nat \<Rightarrow> nat \<Rightarrow> u8 \<Rightarrow> u8" where
  "pick_auth p off 0 auth_type = auth_type"
| "pick_auth p off (Suc n) auth_type =
     (let auth = getbe32 (\<lambda>j. p (off + j));
          auth_type = ucast (auth AND 0xFF)
      in if auth = 0x000FAC02 then auth_type else pick_auth p (off + 4) n auth_type)"

definition clamp4 :: "u32 \<Rightarrow> nat" where
  "clamp4 n = (if n > 4 then 4 else unat n)"

definition parse_rsn :: "view \<Rightarrow> bss_loc \<Rightarrow> bss_loc" where
  "parse_rsn p l =
     (let l = l\<lparr>loc_sec := AP_WPA2\<rparr> in
      if getle16 p \<noteq> 0x0001 then l else
      let l = l\<lparr>loc_group := wmi_ieee_to_crypt (getbe32 (\<lambda>j. p (2 + j)))\<rparr>;
          read_idx = 2 + 4;
          num_pairwise = clamp4 (getle16 (\<lambda>j. p (read_idx + j)));
          read_idx = read_idx + 2;
          l = l\<lparr>loc_pair := pick_pair p read_idx num_pairwise (loc_pair l)\<rparr>;
          read_idx = read_idx + 4 * num_pairwise;
          num_authkey = clamp4 (getle16 (\<lambda>j. p (read_idx + j)));
          read_idx = read_idx + 2;
          l = l\<lparr>loc_auth := pick_auth p read_idx num_authkey (loc_auth l)\<rparr>
      in if loc_pair l = CRYPT_TKIP then l\<lparr>loc_sec := AP_WPA\<rparr> else l)"

text \<open>One element at offset \<open>off\<close>, and the walk over all of them.\<close>

definition parse_ie :: "view \<Rightarrow> nat \<Rightarrow> bss_loc \<Rightarrow> bss_loc" where
  "parse_ie p off l =
     (let id = p off; len = p (off + 1); q = (\<lambda>j. p (off + 2 + j)) in
      if id = 0 \<and> len \<le> 0x20 \<and> q 0 \<noteq> 0
      then l\<lparr>loc_tmp := overwrite 0 (strncpy (unat len) (map q [0..<unat len])) (loc_tmp l)\<rparr>
      else if id = 0xDD then l
      else if id = 0x30 then parse_rsn q l
      else l)"

function parse_ies :: "view \<Rightarrow> nat \<Rightarrow> int \<Rightarrow> bss_loc \<Rightarrow> bss_loc" where
  "parse_ies p off data_left l =
     (if data_left > 0
      then parse_ies p (off + 2 + unat (p (off + 1))) (data_left - 2 - int (unat (p (off + 1))))
             (parse_ie p off l)
      else l)"
  by pat_completeness auto
termination
  by (relation "measure (\<lambda>(p, off, n, l). nat n)") (auto intro: order_less_le_trans [of _ 0])

declare parse_ies.simps [simp del]

subsection \<open>Settings in flash\<close>

definition cfg_wpa :: "'a iop_scheme \<Rightarrow> nat \<Rightarrow> nat \<Rightarrow> nat \<Rightarrow> bytes" where
  "cfg_wpa s i off n = take n (drop (0x200 * i + off) (wifi_card_nvram_configs s))"

definition cfg_wep :: "'a iop_scheme \<Rightarrow> nat \<Rightarrow> nat \<Rightarrow> nat \<Rightarrow> bytes" where
  "cfg_wep s i off n = take n (drop (0x100 * i + off) (wifi_card_nvram_wep_configs s))"

abbreviation (input) cfg_wpa_u8 :: "'a iop_scheme \<Rightarrow> nat \<Rightarrow> nat \<Rightarrow> u8" where
  "cfg_wpa_u8 s i off \<equiv> bnth (cfg_wpa s i off 1) 0"
abbreviation (input) cfg_wep_u8 :: "'a iop_scheme \<Rightarrow> nat \<Rightarrow> nat \<Rightarrow> u8" where
  "cfg_wep_u8 s i off \<equiv> bnth (cfg_wep s i off 1) 0"

definition usable_wpa :: "'a iop_scheme \<Rightarrow> nat \<Rightarrow> bool" where
  "usable_wpa s i \<longleftrightarrow> cfg_wpa_u8 s i 0x40 \<noteq> 0 \<and> cfg_wpa_u8 s i 0xE7 \<noteq> 0xFF \<and> cfg_wpa_u8 s i 0xEF \<noteq> 0"

definition usable_wep :: "'a iop_scheme \<Rightarrow> nat \<Rightarrow> bool" where
  "usable_wep s i \<longleftrightarrow> cfg_wep_u8 s i 0x40 \<noteq> 0 \<and> cfg_wep_u8 s i 0xE7 \<noteq> 0xFF \<and> cfg_wep_u8 s i 0xEF \<noteq> 0"

text \<open>\<^verbatim>\<open>tmp_2\<close>: 33 zeroed bytes and the configured name copied over them.\<close>

definition ssid_wpa :: "'a iop_scheme \<Rightarrow> nat \<Rightarrow> bytes" where
  "ssid_wpa s i =
     (let n = cfg_wpa_u8 s i 0xE8; n = (if n > 0x20 then 0x20 else unat n)
      in overwrite 0 (strncpy n (cfg_wpa s i 0x40 0x20)) (replicate 33 0))"

definition ssid_wep :: "'a iop_scheme \<Rightarrow> nat \<Rightarrow> bytes" where
  "ssid_wep s i = overwrite 0 (strncpy 0x20 (cfg_wep s i 0x40 0x20)) (replicate 33 0)"

definition strcpy :: "bytes \<Rightarrow> bytes \<Rightarrow> bytes" where
  "strcpy dst src = overwrite 0 (c_string src @ [0]) dst"

subsection \<open>Choosing an access point\<close>

abbreviation (input) bss_snr :: "view \<Rightarrow> u16" where "bss_snr p \<equiv> ucast (p 3)"
abbreviation (input) bss_channel :: "view \<Rightarrow> u16" where "bss_channel p \<equiv> ucast (getle16 p)"
abbreviation (input) bss_caps :: "view \<Rightarrow> u16" where "bss_caps p \<equiv> ucast (getle16 (\<lambda>j. p (0x1A + j)))"
abbreviation (input) bss_bssid :: "view \<Rightarrow> bytes" where "bss_bssid p \<equiv> map p [6, 7, 8, 9, 10, 11]"

definition print_bss :: "view \<Rightarrow> bytes \<Rightarrow> bool \<Rightarrow> 'a iop_scheme \<Rightarrow> 'a iop_scheme" where
  "print_bss p tmp kinds s =
     (let s = wifi_printlnf [Lit ''WMI_BSSINFO '', Str tmp, Lit '' ('',
                Lit (wmi_ap_sec_type_str (ap_security_type s)), Lit '')''] s;
          b = ap_bssid s;
          s = wifi_printlnf [Lit ''  BSSID '', Hex 2 (ucast (b ! 0)), Lit '':'', Hex 2 (ucast (b ! 1)),
                Lit '':'', Hex 2 (ucast (b ! 2)), Lit '':'', Hex 2 (ucast (b ! 3)), Lit '':'',
                Hex 2 (ucast (b ! 4)), Lit '':'', Hex 2 (ucast (b ! 5))] s;
          s = (if kinds
               then wifi_printlnf [Lit ''  G '', Lit (wmi_ap_crypt_str (ap_group_crypt_type s)),
                      Lit '' P '', Lit (wmi_ap_crypt_str (ap_pair_crypt_type s)), Lit '' A '',
                      Lit (wmi_ap_auth_str (ap_auth_type s))] s
               else s)
      in wifi_printlnf [Lit ''  '', Hex 1 (ucast (ap_group_crypt_type s)), Lit '' '',
           Hex 1 (ucast (ap_pair_crypt_type s)), Lit '' '', Hex 1 (ucast (ap_auth_type s)), Lit '' -- '',
           Hex 1 (ucast (p 3)), Lit '' '', Hex 1 (ucast (ap_channel s))] s)"

text \<open>
  The body of the first loop for a setting whose name matches and whose signal is stronger:
  loading the setting, deciding on the security type (\<open>None\<close> is \<^verbatim>\<open>continue\<close>), selecting.
\<close>

definition load_wpa :: "nat \<Rightarrow> bss_loc \<Rightarrow> 'a iop_scheme \<Rightarrow> bss_loc \<times> 'a iop_scheme" where
  "load_wpa i l s =
     (let s = s\<lparr>ap_nvram_idx := i + 3, ap_name := strcpy (ap_name s) (ssid_wpa s i),
                 ap_pass := cfg_wpa s i 0x120 0x40, ap_pmk := cfg_wpa s i 0x100 0x20\<rparr>;
          wep_mode = cfg_wpa_u8 s i 0xE6;
          (l, s) = (if wep_mode \<noteq> 0
                    then (l\<lparr>loc_sec := AP_WEP\<rparr>,
                          s\<lparr>ap_wepmode := wep_mode, ap_wep1 := cfg_wpa s i 0x80 0x10,
                            ap_wep2 := cfg_wpa s i 0x90 0x10, ap_wep3 := cfg_wpa s i 0xA0 0x10,
                            ap_wep4 := cfg_wpa s i 0xB0 0x10, ap_pass := cfg_wpa s i 0x80 0x10\<rparr>)
                    else (l, s));
          l = (if bnth (ap_pass s) 0 = 0 then l\<lparr>loc_sec := AP_OPEN\<rparr> else l)
      in (l, s))"

text \<open>An access point that announces no RSN element is given the security of the flash setting.\<close>

definition missing_rsn :: "nat \<Rightarrow> bss_loc \<Rightarrow> 'a iop_scheme \<Rightarrow> bool \<times> bss_loc \<times> 'a iop_scheme" where
  "missing_rsn i l s =
     (if bnth (ap_pass s) 0 \<noteq> 0 \<and> loc_auth l = AUTH_NONE \<and> loc_sec l = AP_OPEN
      then let s = wifi_printf [Lit ''AP missing RSN??? Using flash vals.'', Lit [CHR 0x0A]] s;
               l = l\<lparr>loc_sec := AP_WPA2, loc_auth := AUTH_PSK\<rparr>;
               t = cfg_wpa_u8 s i 0x181
           in if t = 4 \<or> t = 6
              then (False, l, wifi_printf [Lit ''WPA is currently unsupported.'', Lit [CHR 0x0A]] s)
              else if t = 5 then (True, l\<lparr>loc_group := CRYPT_TKIP, loc_pair := CRYPT_AES\<rparr>, s)
              else if t = 7 then (True, l\<lparr>loc_group := CRYPT_AES, loc_pair := CRYPT_AES\<rparr>, s)
              else (False, l, wifi_printf [Lit ''Unk flash val '', Hex 2 (ucast t), Lit [CHR 0x0A]] s)
      else (True, l, s))"

definition settle_security :: "bss_loc \<Rightarrow> 'a iop_scheme \<Rightarrow> bool \<times> bss_loc \<times> 'a iop_scheme" where
  "settle_security l s =
     (let l = (if loc_pair l = CRYPT_AES \<and> loc_auth l = AUTH_PSK then l\<lparr>loc_sec := AP_WPA2\<rparr> else l);
          (l, s) = (if loc_sec l = AP_WEP
                    then (l\<lparr>loc_group := CRYPT_WEP, loc_pair := CRYPT_WEP, loc_auth := AUTH_NONE\<rparr>,
                          wifi_printf [Lit ''Only shared auth WEP40 is verified...'', Lit [CHR 0x0A]] s)
                    else (l, s))
      in if loc_sec l = AP_WPA
         then (False, l, wifi_printf [Lit ''WPA is currently unsupported.'', Lit [CHR 0x0A]] s)
         else (True, l, s))"

definition select_wpa :: "view \<Rightarrow> bss_loc \<Rightarrow> 'a iop_scheme \<Rightarrow> 'a iop_scheme" where
  "select_wpa p l s =
     print_bss p (loc_tmp l) True
       (s\<lparr>ap_security_type := loc_sec l, ap_group_crypt_type := loc_group l,
          ap_pair_crypt_type := loc_pair l, ap_auth_type := loc_auth l, ap_snr := bss_snr p,
          ap_channel := bss_channel p, ap_caps := bss_caps p, ap_bssid := bss_bssid p,
          ap_found := True\<rparr>)"

definition try_wpa :: "hw \<Rightarrow> view \<Rightarrow> nat \<Rightarrow> bss_loc \<Rightarrow> 'a iop_scheme
    \<Rightarrow> (bool \<times> bss_loc \<times> 'a iop_scheme) option" where
  "try_wpa h p i l s =
     (if usable_wpa s i \<and> c_string (loc_tmp l) = c_string (ssid_wpa s i) \<and> bss_snr p > ap_snr s
      then let (l, s) = load_wpa i l s; (go, l, s) = missing_rsn i l s in
           if \<not> go then Some (False, l, s)
           else let (go, l, s) = settle_security l s in
           if \<not> go then Some (False, l, s)
           else do { s \<leftarrow> wmi_set_bss_filter h 0 0 (select_wpa p l s); Some (True, l, s) }
      else Some (False, l, s))"

primrec wpa_loop :: "hw \<Rightarrow> view \<Rightarrow> nat list \<Rightarrow> bss_loc \<Rightarrow> 'a iop_scheme \<Rightarrow> 'a iop_scheme option" where
  "wpa_loop h p [] l s = Some s"
| "wpa_loop h p (i # is) l s = do {
     (found, l, s) \<leftarrow> try_wpa h p i l s;
     if found then Some s else wpa_loop h p is l s }"

text \<open>The second loop, over the WEP settings.\<close>

definition select_wep :: "view \<Rightarrow> nat \<Rightarrow> bss_loc \<Rightarrow> 'a iop_scheme \<Rightarrow> 'a iop_scheme" where
  "select_wep p i l s =
     (let s = s\<lparr>ap_nvram_idx := i, ap_channel := bss_channel p, ap_caps := bss_caps p,
                 ap_name := strcpy (ap_name s) (ssid_wep s i),
                 ap_wep1 := cfg_wep s i 0x80 0x10, ap_wep2 := cfg_wep s i 0x90 0x10,
                 ap_wep3 := cfg_wep s i 0xA0 0x10, ap_wep4 := cfg_wep s i 0xB0 0x10,
                 ap_wepmode := cfg_wep_u8 s i 0xE6, ap_pass := cfg_wep s i 0x80 0x10,
                 ap_pmk := replicate 0x20 0, ap_snr := bss_snr p\<rparr>;
          sec = (if bnth (ap_pass s) 0 = 0 then AP_OPEN else AP_WEP);
          s = s\<lparr>ap_security_type := sec\<rparr>;
          s = (if sec = AP_OPEN
               then s\<lparr>ap_group_crypt_type := CRYPT_NONE, ap_pair_crypt_type := CRYPT_NONE,
                       ap_auth_type := AUTH_NONE\<rparr>
               else wifi_printf [Lit ''Only shared auth WEP40 is verified...'', Lit [CHR 0x0A]]
                      (s\<lparr>ap_group_crypt_type := CRYPT_WEP, ap_pair_crypt_type := CRYPT_WEP,
                         ap_auth_type := AUTH_NONE\<rparr>));
          s = s\<lparr>ap_bssid := bss_bssid p, ap_found := True\<rparr>
      in print_bss p (loc_tmp l) False s)"

primrec wep_loop :: "hw \<Rightarrow> view \<Rightarrow> nat list \<Rightarrow> bss_loc \<Rightarrow> 'a iop_scheme \<Rightarrow> 'a iop_scheme option" where
  "wep_loop h p [] l s = Some s"
| "wep_loop h p (i # is) l s =
     (if usable_wep s i \<and> c_string (loc_tmp l) = c_string (ssid_wep s i) \<and> bss_snr p > ap_snr s
      then wmi_set_bss_filter h 0 0 (select_wep p i l s)
      else wep_loop h p is l s)"

definition bss_start :: bss_loc where
  "bss_start = \<lparr>loc_tmp = replicate 33 0, loc_sec = AP_OPEN, loc_group = CRYPT_NONE,
     loc_pair = CRYPT_NONE, loc_auth = AUTH_NONE\<rparr>"

text \<open>\<open>p\<close> is the packet at \<^verbatim>\<open>pkt_data\<close>; the elements start at offset 0x1C.\<close>

definition bss_elements :: "view \<Rightarrow> u32 \<Rightarrow> bss_loc" where
  "bss_elements p len =
     (let l = parse_ies p 0x1C (sint (len - 0x1C)) bss_start
      in if bss_caps p AND 0x10 = 0 then l\<lparr>loc_sec := AP_OPEN\<rparr> else l)"

definition wmi_handle_bss_info :: "hw \<Rightarrow> view \<Rightarrow> u32 \<Rightarrow> 'a iop_scheme \<Rightarrow> 'a iop_scheme option" where
  "wmi_handle_bss_info h p len s =
     (if len \<le> 0x1C then Some s
      else if p 3 < 0x20 then Some (s\<lparr>scan_done := True\<rparr>)
      else let l = bss_elements p len in do {
        s \<leftarrow> wpa_loop h p [0, 1, 2] l s;
        s \<leftarrow> (if ap_found s then Some s else wep_loop h p [0, 1, 2] l s);
        Some (s\<lparr>scan_done := True\<rparr>) })"

subsection \<open>What a selection means\<close>

text \<open>The variables that describe the selected access point, and the state around them.\<close>

definition kept :: "'a iop_scheme \<Rightarrow> 'a iop_scheme \<Rightarrow> bool" where
  "kept s t \<longleftrightarrow> ap_found t = ap_found s \<and> ap_security_type t = ap_security_type s
     \<and> ap_group_crypt_type t = ap_group_crypt_type s \<and> ap_pair_crypt_type t = ap_pair_crypt_type s
     \<and> ap_auth_type t = ap_auth_type s \<and> ap_snr t = ap_snr s \<and> ap_channel t = ap_channel s
     \<and> ap_bssid t = ap_bssid s \<and> wifi_card_nvram_configs t = wifi_card_nvram_configs s
     \<and> wifi_card_nvram_wep_configs t = wifi_card_nvram_wep_configs s \<and> wmi_idk t = wmi_idk s
     \<and> outputs (tr t) = outputs (tr s) \<and> card_wf t = card_wf s"

definition credentials_wpa :: "nat \<Rightarrow> 'a iop_scheme \<Rightarrow> 'a iop_scheme \<Rightarrow> bool" where
  "credentials_wpa i s t \<longleftrightarrow> ap_nvram_idx t = i + 3 \<and> c_string (ap_name t) = c_string (ssid_wpa s i)
     \<and> ap_pmk t = cfg_wpa s i 0x100 0x20"

definition same_creds :: "'a iop_scheme \<Rightarrow> 'a iop_scheme \<Rightarrow> bool" where
  "same_creds s t \<longleftrightarrow> ap_nvram_idx t = ap_nvram_idx s \<and> ap_name t = ap_name s \<and> ap_pmk t = ap_pmk s
     \<and> ap_wep1 t = ap_wep1 s \<and> ap_wep2 t = ap_wep2 s \<and> ap_wep3 t = ap_wep3 s \<and> ap_wep4 t = ap_wep4 s"

lemma c_string_stop: "c_string (a @ 0 # b) = c_string a"
  by (induction a) (simp_all add: c_string_def)

lemma c_string_c_string [simp]: "c_string (c_string a) = c_string a"
  unfolding c_string_def by (rule takeWhile_idem)

lemma c_string_strcpy:
  assumes "length (c_string src) < length dst"
  shows "c_string (strcpy dst src) = c_string src"
  unfolding strcpy_def overwrite_def by (simp add: c_string_stop c_string_c_string)

lemma length_strcpy: "length (c_string src) < length dst \<Longrightarrow> length (strcpy dst src) = length dst"
  by (simp add: strcpy_def length_overwrite)

lemma c_string_short: "length (c_string bs) \<le> length bs"
  by (simp add: c_string_def length_takeWhile_le)

lemma length_ssid_buffer:
  assumes "n \<le> 32"
  shows "length (c_string (overwrite 0 (strncpy n src) (replicate 33 0))) < 33"
proof -
  have "replicate (33 - n) (0 :: u8) = 0 # replicate (32 - n) 0"
    using assms by (metis Suc_diff_le Suc_numeral add_One_commute replicate_Suc semiring_norm(5))
  then have "overwrite 0 (strncpy n src) (replicate 33 0) = strncpy n src @ 0 # replicate (32 - n) 0"
    by (simp add: overwrite_def)
  then have "length (c_string (overwrite 0 (strncpy n src) (replicate 33 0))) \<le> n"
    using c_string_short [of "strncpy n src"] by (simp add: c_string_stop)
  then show ?thesis using assms by simp
qed

lemma length_ssid_wpa: "length (c_string (ssid_wpa s i)) < 33"
  unfolding ssid_wpa_def Let_def by (rule length_ssid_buffer) (simp add: word_less_nat_alt)

lemma length_ssid_wep: "length (c_string (ssid_wep s i)) < 33"
  unfolding ssid_wep_def by (rule length_ssid_buffer) simp


lemma load_wpa_spec:
  assumes "load_wpa i l s = (l', t)" "length (ap_name s) = 33"
  shows "kept s t" "credentials_wpa i s t" "length (ap_name t) = 33"
    "loc_tmp l' = loc_tmp l" "cfg_wpa t = cfg_wpa s"
  using assms length_ssid_wpa [of s i]
  by (auto simp: load_wpa_def Let_def kept_def credentials_wpa_def card_wf_def sdio_wf_def cfg_wpa_def
      c_string_strcpy length_strcpy fun_eq_iff split: if_splits)

lemma missing_rsn_spec:
  assumes "missing_rsn i l s = (go, l', t)"
  shows "kept s t" "same_creds s t" "loc_tmp l' = loc_tmp l" "length (ap_name t) = length (ap_name s)"
  using assms by (auto simp: missing_rsn_def Let_def kept_def same_creds_def split: if_splits)

lemma settle_security_spec:
  assumes "settle_security l s = (go, l', t)"
  shows "kept s t" "same_creds s t" "loc_tmp l' = loc_tmp l" "go \<Longrightarrow> loc_sec l' \<noteq> AP_WPA"
    "length (ap_name t) = length (ap_name s)"
  using assms by (auto simp: settle_security_def Let_def kept_def same_creds_def split: if_splits)

lemma kept_trans: "kept s t \<Longrightarrow> kept t u \<Longrightarrow> kept s u"
  by (simp add: kept_def)

lemma quiet_print_bss: "quiet s (print_bss p tmp k s)"
  unfolding print_bss_def Let_def
  by (intro quiet_intros quiet_refl)

lemmas print_bss_iop [simp] =
  iop_of_more [OF quiet_more [OF quiet_print_bss]] out_quiet [OF quiet_print_bss]
  card_wf_quiet [OF quiet_print_bss]

definition chosen :: "view \<Rightarrow> 'a iop_scheme \<Rightarrow> 'a iop_scheme \<Rightarrow> bool" where
  "chosen p s t \<longleftrightarrow> ap_found t \<and> ap_security_type t \<noteq> AP_WPA \<and> ap_snr t = bss_snr p
     \<and> ap_snr s < ap_snr t \<and> ap_bssid t = bss_bssid p \<and> ap_channel t = bss_channel p
     \<and> card_wf t = card_wf s \<and> length (ap_name t) = 33
     \<and> outputs (tr t) = outputs (tr s) @ [bss_filter_tx (wmi_idk s) 0 0]"

lemma same_creds_wpa: "same_creds s t \<Longrightarrow> credentials_wpa i r s \<Longrightarrow> credentials_wpa i r t"
  by (simp add: same_creds_def credentials_wpa_def)

lemma select_wpa_spec:
  "ap_found (select_wpa p l s)" "ap_security_type (select_wpa p l s) = loc_sec l"
  "ap_snr (select_wpa p l s) = bss_snr p" "ap_bssid (select_wpa p l s) = bss_bssid p"
  "ap_channel (select_wpa p l s) = bss_channel p"
  "ap_name (select_wpa p l s) = ap_name s" "outputs (tr (select_wpa p l s)) = outputs (tr s)"
  "wmi_idk (select_wpa p l s) = wmi_idk s"
  "ap_nvram_idx (select_wpa p l s) = ap_nvram_idx s" "ap_pmk (select_wpa p l s) = ap_pmk s"
  by (simp_all add: select_wpa_def)

lemma select_wpa_wf: "card_wf (select_wpa p l s) = card_wf s"
  by (simp add: select_wpa_def card_wf_quiet [OF quiet_print_bss])

lemma bss_filter_fields:
  fixes s :: "'a iop_scheme"
  assumes "card_wf s"
  shows "ok (live h) (wmi_set_bss_filter h 0 0 s) (\<lambda>t.
     outputs (tr t) = outputs (tr s) @ [bss_filter_tx (wmi_idk s) 0 0] \<and> machine.more t = machine.more s \<and> card_wf t)"
  by (rule ok_mono [OF x_bss_filter [OF assms same_ap_refl]]) (use assms in \<open>auto simp: xmit_def xmit_wf\<close>)

definition wpa_choice :: "view \<Rightarrow> bytes \<Rightarrow> 'a iop_scheme \<Rightarrow> 'a iop_scheme \<Rightarrow> bool" where
  "wpa_choice p name s t \<longleftrightarrow> chosen p s t
     \<and> (\<exists>i < 3. usable_wpa s i \<and> c_string name = c_string (ssid_wpa s i) \<and> credentials_wpa i s t)"

lemma try_wpa_ok:
  assumes wf: "card_wf s" "length (ap_name s) = 33" and i: "i < 3"
  shows "ok (live h) (try_wpa h p i l s) (\<lambda>(found, l', t). length (ap_name t) = 33
     \<and> loc_tmp l' = loc_tmp l \<and> (if found then wpa_choice p (loc_tmp l) s t else kept s t))"
proof (cases "usable_wpa s i \<and> c_string (loc_tmp l) = c_string (ssid_wpa s i) \<and> bss_snr p > ap_snr s")
  case True
  obtain l1 s1 where load: "load_wpa i l s = (l1, s1)" by fastforce
  obtain g2 l2 s2 where miss: "missing_rsn i l1 s1 = (g2, l2, s2)" by (metis prod_cases3)
  obtain g3 l3 s3 where settle: "settle_security l2 s2 = (g3, l3, s3)" by (metis prod_cases3)
  note ls = load_wpa_spec [OF load wf(2)] and ms = missing_rsn_spec [OF miss]
    and ss = settle_security_spec [OF settle]
  have k2: "kept s s2" using ls(1) ms(1) by (rule kept_trans)
  have k3: "kept s s3" using k2 ss(1) by (rule kept_trans)
  have cr: "credentials_wpa i s s3" using ls(2) ms(2) ss(2) same_creds_wpa by blast
  let ?u = "select_wpa p l3 s3"
  have "ok (live h) (do { s \<leftarrow> wmi_set_bss_filter h 0 0 ?u; Some (True, l3, s) })
      (\<lambda>(found, l', t). length (ap_name t) = 33 \<and> loc_tmp l' = loc_tmp l
         \<and> (if found then wpa_choice p (loc_tmp l) s t else kept s t))" if g3
  proof (rule ok_bind_rule [OF bss_filter_fields])
    show "card_wf ?u" using k3 wf(1) by (simp add: select_wpa_wf kept_def)
    fix t assume t: "outputs (tr t) = outputs (tr ?u) @ [bss_filter_tx (wmi_idk ?u) 0 0]
        \<and> machine.more t = machine.more ?u \<and> card_wf t"
    then have eq: "ap_found t = ap_found ?u" "ap_security_type t = ap_security_type ?u" "ap_snr t = ap_snr ?u"
      "ap_bssid t = ap_bssid ?u" "ap_channel t = ap_channel ?u" "ap_name t = ap_name ?u"
      "ap_nvram_idx t = ap_nvram_idx ?u" "ap_pmk t = ap_pmk ?u"
      by (auto dest: iop_of_more)
    have len: "length (ap_name s3) = 33" using ls(3) ms(4) ss(5) by simp
    have "wpa_choice p (loc_tmp l) s t"
      unfolding wpa_choice_def chosen_def
      using t eq k3 True i cr ss(4) [OF that] wf len
      by (auto simp: select_wpa_spec select_wpa_wf kept_def credentials_wpa_def intro!: exI [of _ i])
    then show "ok (live h) (Some (True, l3, t)) (\<lambda>(found, l', t). length (ap_name t) = 33 \<and> loc_tmp l' = loc_tmp l
         \<and> (if found then wpa_choice p (loc_tmp l) s t else kept s t))"
      using ls ms ss eq len by (simp add: select_wpa_spec)
  qed
  then show ?thesis
    unfolding try_wpa_def if_P [OF True] Let_def load miss settle prod.case
    using k2 k3 ls ms ss by auto
qed (auto simp: try_wpa_def wf kept_def)


lemma cfg_kept:
  assumes "kept s t"
  shows "cfg_wpa t = cfg_wpa s" "cfg_wep t = cfg_wep s" "usable_wpa t = usable_wpa s" "ssid_wpa t = ssid_wpa s"
    "usable_wep t = usable_wep s" "ssid_wep t = ssid_wep s"
proof -
  show *: "cfg_wpa t = cfg_wpa s" "cfg_wep t = cfg_wep s"
    using assms by (auto simp: kept_def cfg_wpa_def cfg_wep_def fun_eq_iff)
  show "usable_wpa t = usable_wpa s" "ssid_wpa t = ssid_wpa s" "usable_wep t = usable_wep s" "ssid_wep t = ssid_wep s"
    using * by (auto simp: usable_wpa_def usable_wep_def ssid_wpa_def ssid_wep_def fun_eq_iff)
qed

lemma chosen_kept: "kept r s \<Longrightarrow> chosen p s t \<Longrightarrow> chosen p r t"
  by (auto simp: kept_def chosen_def)

lemma wpa_choice_kept: "kept r s \<Longrightarrow> wpa_choice p name s t \<Longrightarrow> wpa_choice p name r t"
  using chosen_kept [of r s p t] cfg_kept [of r s] by (simp add: wpa_choice_def credentials_wpa_def)

lemma wpa_loop_ok:
  fixes s :: "'a iop_scheme"
  assumes "card_wf s" "length (ap_name s) = 33" "set is \<subseteq> {..<3}"
  shows "ok (live h) (wpa_loop h p is l s)
     (\<lambda>t. length (ap_name t) = 33 \<and> (kept s t \<or> wpa_choice p (loc_tmp l) s t))"
  using assms
proof (induction "is" arbitrary: l s)
  case Nil
  then show ?case by (simp add: kept_def)
next
  case (Cons i "is")
  have i: "i < 3" using Cons.prems(3) by simp
  show ?case unfolding wpa_loop.simps
  proof (rule ok_bind_rule [OF try_wpa_ok [OF Cons.prems(1,2) i]], clarify)
    fix found and l' :: bss_loc and t :: "'a iop_scheme"
    assume t: "length (ap_name t) = 33" "loc_tmp l' = loc_tmp l"
      "if found then wpa_choice p (loc_tmp l) s t else kept s t"
    show "ok (live h) (if found then Some t else wpa_loop h p is l' t)
       (\<lambda>t. length (ap_name t) = 33 \<and> (kept s t \<or> wpa_choice p (loc_tmp l) s t))"
    proof (cases found)
      case False
      with t have k: "kept s t" by simp
      then have "card_wf t" using Cons.prems(1) by (simp add: kept_def)
      with Cons.IH [of t l'] Cons.prems(3) t k show ?thesis
        using False by (auto elim!: ok_mono intro: kept_trans wpa_choice_kept)
    qed (use t in simp)
  qed
qed

definition credentials_wep :: "nat \<Rightarrow> 'a iop_scheme \<Rightarrow> 'a iop_scheme \<Rightarrow> bool" where
  "credentials_wep i s t \<longleftrightarrow> ap_nvram_idx t = i \<and> c_string (ap_name t) = c_string (ssid_wep s i)
     \<and> ap_wep1 t = cfg_wep s i 0x80 0x10 \<and> ap_wep2 t = cfg_wep s i 0x90 0x10
     \<and> ap_wep3 t = cfg_wep s i 0xA0 0x10 \<and> ap_wep4 t = cfg_wep s i 0xB0 0x10"

definition wep_choice :: "view \<Rightarrow> bytes \<Rightarrow> 'a iop_scheme \<Rightarrow> 'a iop_scheme \<Rightarrow> bool" where
  "wep_choice p name s t \<longleftrightarrow> chosen p s t \<and> ap_security_type t \<in> {AP_OPEN, AP_WEP}
     \<and> (\<exists>i < 3. usable_wep s i \<and> c_string name = c_string (ssid_wep s i) \<and> credentials_wep i s t)"

lemma wep_choice_kept: "kept r s \<Longrightarrow> wep_choice p name s t \<Longrightarrow> wep_choice p name r t"
  using chosen_kept [of r s p t] cfg_kept [of r s] by (simp add: wep_choice_def credentials_wep_def)

lemma select_wep_spec:
  "ap_found (select_wep p i l s)" "ap_security_type (select_wep p i l s) \<in> {AP_OPEN, AP_WEP}"
  "ap_snr (select_wep p i l s) = bss_snr p" "ap_bssid (select_wep p i l s) = bss_bssid p"
  "ap_channel (select_wep p i l s) = bss_channel p"
  "ap_name (select_wep p i l s) = strcpy (ap_name s) (ssid_wep s i)"
  "outputs (tr (select_wep p i l s)) = outputs (tr s)"
  "wmi_idk (select_wep p i l s) = wmi_idk s" "ap_nvram_idx (select_wep p i l s) = i"
  "ap_wep1 (select_wep p i l s) = cfg_wep s i 0x80 0x10" "ap_wep2 (select_wep p i l s) = cfg_wep s i 0x90 0x10"
  "ap_wep3 (select_wep p i l s) = cfg_wep s i 0xA0 0x10" "ap_wep4 (select_wep p i l s) = cfg_wep s i 0xB0 0x10"
  by (simp_all add: select_wep_def Let_def cfg_wep_def ssid_wep_def)

lemma select_wep_wf: "card_wf (select_wep p i l s) = card_wf s"
  by (simp add: select_wep_def Let_def card_wf_quiet [OF quiet_print_bss])

lemma select_wep_ok:
  assumes wf: "card_wf s" "length (ap_name s) = 33" and i: "i < 3"
    and c: "usable_wep s i" "c_string (loc_tmp l) = c_string (ssid_wep s i)" "bss_snr p > ap_snr s"
  shows "ok (live h) (wmi_set_bss_filter h 0 0 (select_wep p i l s))
     (\<lambda>t. length (ap_name t) = 33 \<and> wep_choice p (loc_tmp l) s t)"
proof (rule ok_mono [OF bss_filter_fields])
  let ?u = "select_wep p i l s"
  show "card_wf ?u" using wf(1) by (simp add: select_wep_wf)
  fix t assume t: "outputs (tr t) = outputs (tr ?u) @ [bss_filter_tx (wmi_idk ?u) 0 0]
      \<and> machine.more t = machine.more ?u \<and> card_wf t"
  then have eq: "ap_found t = ap_found ?u" "ap_security_type t = ap_security_type ?u" "ap_snr t = ap_snr ?u"
    "ap_bssid t = ap_bssid ?u" "ap_channel t = ap_channel ?u" "ap_name t = ap_name ?u"
    "ap_nvram_idx t = ap_nvram_idx ?u" "ap_wep1 t = ap_wep1 ?u" "ap_wep2 t = ap_wep2 ?u"
    "ap_wep3 t = ap_wep3 ?u" "ap_wep4 t = ap_wep4 ?u"
    by (auto dest: iop_of_more)
  have len: "length (ap_name t) = 33" and name: "c_string (ap_name t) = c_string (ssid_wep s i)"
    using eq(6) wf(2) length_ssid_wep [of s i] by (simp_all add: select_wep_spec length_strcpy c_string_strcpy)
  have "credentials_wep i s t" unfolding credentials_wep_def eq(7-) select_wep_spec using name by simp
  moreover have "ap_security_type t \<in> {AP_OPEN, AP_WEP}" unfolding eq by (rule select_wep_spec)
  ultimately show "length (ap_name t) = 33 \<and> wep_choice p (loc_tmp l) s t"
    unfolding wep_choice_def chosen_def using t eq i c len wf by (auto simp: select_wep_spec)
qed

lemma wep_loop_ok:
  assumes "card_wf s" "length (ap_name s) = 33" "set is \<subseteq> {..<3}"
  shows "ok (live h) (wep_loop h p is l s)
     (\<lambda>t. length (ap_name t) = 33 \<and> (kept s t \<or> wep_choice p (loc_tmp l) s t))"
  using assms(3)
proof (induction "is")
  case (Cons i "is")
  then show ?case
    using select_wep_ok [OF assms(1,2), of i l p h] by (auto elim!: ok_mono)
qed (use assms in \<open>simp add: kept_def\<close>)

lemma kept_done [simp]: "kept s (t\<lparr>scan_done := b\<rparr>) = kept s t"
  "wpa_choice p n s (t\<lparr>scan_done := b\<rparr>) = wpa_choice p n s t"
  "wep_choice p n s (t\<lparr>scan_done := b\<rparr>) = wep_choice p n s t"
  by (simp_all add: kept_def wpa_choice_def wep_choice_def chosen_def credentials_wpa_def credentials_wep_def)

lemma kept_wpa_found: "kept s t \<Longrightarrow> ap_found t = ap_found s"
  by (simp add: kept_def)

lemma wmi_handle_bss_info_ok:
  fixes s :: "'a iop_scheme"
  assumes wf: "card_wf s" "length (ap_name s) = 33"
  shows "ok (live h) (wmi_handle_bss_info h p len s) (\<lambda>t. length (ap_name t) = 33
     \<and> (kept s t \<or> len > 0x1C \<and> p 3 \<ge> 0x20
          \<and> (wpa_choice p (loc_tmp (bss_elements p len)) s t
              \<or> \<not> ap_found s \<and> wep_choice p (loc_tmp (bss_elements p len)) s t)))"
proof (cases "len \<le> 0x1C \<or> p 3 < 0x20")
  case True
  then show ?thesis using wf by (auto simp: wmi_handle_bss_info_def kept_def)
next
  case False
  let ?l = "bss_elements p len"
  let ?Q = "\<lambda>t :: 'a iop_scheme. length (ap_name t) = 33 \<and> (kept s t \<or> wpa_choice p (loc_tmp ?l) s t
       \<or> \<not> ap_found s \<and> wep_choice p (loc_tmp ?l) s t)"
  have "ok (live h) (do {
        s \<leftarrow> wpa_loop h p [0, 1, 2] ?l s;
        s \<leftarrow> (if ap_found s then Some s else wep_loop h p [0, 1, 2] ?l s);
        Some (s\<lparr>scan_done := True\<rparr>) }) ?Q"
  proof (rule ok_bind_rule [OF wpa_loop_ok [OF wf]])
    fix t :: "'a iop_scheme"
    assume t: "length (ap_name t) = 33 \<and> (kept s t \<or> wpa_choice p (loc_tmp ?l) s t)"
    have "ok (live h) (if ap_found t then Some t else wep_loop h p [0, 1, 2] ?l t) ?Q"
    proof (cases "ap_found t")
      case False
      with t have k: "kept s t" "\<not> ap_found s" by (auto simp: wpa_choice_def chosen_def kept_def)
      then have "card_wf t" using wf by (simp add: kept_def)
      then have "ok (live h) (wep_loop h p [0, 1, 2] ?l t)
          (\<lambda>u. length (ap_name u) = 33 \<and> (kept t u \<or> wep_choice p (loc_tmp ?l) t u))"
        using t by (intro wep_loop_ok) auto
      then show ?thesis using k False
        by (auto elim!: ok_mono intro: kept_trans wep_choice_kept)
    qed (use t in auto)
    then show "ok (live h) (do { s \<leftarrow> (if ap_found t then Some t else wep_loop h p [0, 1, 2] ?l t);
        Some (s\<lparr>scan_done := True\<rparr>) }) ?Q"
      by (rule ok_bind_rule) auto
  qed auto
  note body = this
  have c: "\<not> len \<le> 0x1C" "\<not> p 3 < 0x20" using False by auto
  show ?thesis
    unfolding wmi_handle_bss_info_def Let_def if_not_P [OF c(1)] if_not_P [OF c(2)]
    by (rule ok_mono [OF body]) (use False in auto)
qed

text \<open>
  The way out through the two \<^verbatim>\<open>continue\<close> statements: the access point is not taken, but the
  name and the key of the setting already stand in the variables.
\<close>

lemma try_wpa_rejected:
  assumes g: "usable_wpa s i" "c_string (loc_tmp l) = c_string (ssid_wpa s i)" "bss_snr p > ap_snr s"
    and wf: "length (ap_name s) = 33" and r: "try_wpa h p i l s = Some (False, l', t)"
  shows "kept s t" "credentials_wpa i s t"
proof -
  have c: "usable_wpa s i \<and> c_string (loc_tmp l) = c_string (ssid_wpa s i) \<and> bss_snr p > ap_snr s"
    using g by simp
  obtain l1 s1 where load: "load_wpa i l s = (l1, s1)" by fastforce
  obtain g2 l2 s2 where miss: "missing_rsn i l1 s1 = (g2, l2, s2)" by (metis prod_cases3)
  obtain g3 l3 s3 where settle: "settle_security l2 s2 = (g3, l3, s3)" by (metis prod_cases3)
  note ls = load_wpa_spec [OF load wf] and ms = missing_rsn_spec [OF miss]
    and ss = settle_security_spec [OF settle]
  have "t = s2 \<or> t = s3"
    using r unfolding try_wpa_def if_P [OF c] Let_def load miss settle prod.case
    by (auto split: if_splits Option.bind_splits)
  then show "kept s t" "credentials_wpa i s t"
    using ls ms ss by (blast intro: kept_trans same_creds_wpa)+
qed

lemma pick_pair_AES:
  "pick_pair p off n c = CRYPT_AES \<longleftrightarrow>
     (\<exists>k < n. wmi_ieee_to_crypt (getbe32 (\<lambda>j. p (off + 4 * k + j))) = CRYPT_AES) \<or> n = 0 \<and> c = CRYPT_AES"
proof (induction n arbitrary: off c)
  case (Suc n)
  let ?P = "\<lambda>off k. wmi_ieee_to_crypt (getbe32 (\<lambda>j. p (off + 4 * k + j))) = CRYPT_AES"
  have shift: "?P (off + 4) k \<longleftrightarrow> ?P off (Suc k)" for k by (simp add: ac_simps)
  have "(\<exists>k < Suc n. ?P off k) \<longleftrightarrow> ?P off 0 \<or> (\<exists>k < n. ?P off (Suc k))"
    by (rule Ex_less_Suc2)
  then show ?case
    using Suc.IH [of "off + 4" "wmi_ieee_to_crypt (getbe32 (\<lambda>j. p (off + j)))"]
    unfolding shift by (simp add: Let_def)
qed simp

end
