(* ===== verification/Auth.thy ===== *)
theory Auth
  imports Bss
begin

text \<open>
  The WPA2 four-way handshake and the group key handshake of
  \<^verbatim>\<open>arm_iop/source/ath/wmi.twl.c\<close>: the two EAPOL-Key replies and the acknowledgement of a
  group key, and the handler that answers the messages of the access point. A frame is the
  packed structure \<^verbatim>\<open>data_hdr\<close> as the concatenation of its fields. A received packet is a
  view of memory, taken when its handler starts: packets lie in the receive buffer, and the
  replies are put together in the transmit buffer, another block of \<^verbatim>\<open>memalign\<close>.
\<close>

subsection \<open>Frames\<close>

text \<open>From \<^verbatim>\<open>version\<close> to \<^verbatim>\<open>end\<close>; \<^verbatim>\<open>auth_len\<close> counts from \<^verbatim>\<open>keydesc_type\<close>.\<close>

definition auth_len :: "bytes \<Rightarrow> nat" where
  "auth_len keydata = 1 + 2 + 2 + 8 + 32 + 16 + 8 + 8 + 16 + 2 + length keydata"

definition eapol_body :: "u16 \<Rightarrow> u64 \<Rightarrow> bytes \<Rightarrow> bytes \<Rightarrow> bytes \<Rightarrow> bytes" where
  "eapol_body keyinfo replay nonce mic keydata =
     [1, 3] @ putbe16 (of_nat (auth_len keydata)) @ [2] @ putbe16 keyinfo @ putbe16 0
     @ putbe64 replay @ nonce @ replicate 16 0 @ replicate 8 0 @ replicate 8 0 @ mic
     @ putbe16 (of_nat (length keydata)) @ keydata"

definition link_hdr :: "bytes \<Rightarrow> bytes \<Rightarrow> bytes \<Rightarrow> bytes" where
  "link_hdr dst_bssid src_bssid keydata =
     [0x00, 0x1C] @ dst_bssid @ src_bssid @ putbe16 (of_nat (8 + 4 + auth_len keydata))
     @ [0xAA, 0xAA, 0x03, 0, 0, 0, 0x88, 0x8E]"

text \<open>The MIC is computed while its field still holds zeros.\<close>

definition eapol_frame :: "bytes \<Rightarrow> bytes \<Rightarrow> bytes \<Rightarrow> u16 \<Rightarrow> u64 \<Rightarrow> bytes \<Rightarrow> bytes \<Rightarrow> bytes" where
  "eapol_frame kck_key dst_bssid src_bssid keyinfo replay nonce keydata =
     link_hdr dst_bssid src_bssid keydata
     @ eapol_body keyinfo replay nonce
         (wpa_calc_mic kck_key (eapol_body keyinfo replay nonce (replicate 16 0) keydata)) keydata"

definition rsn_keydata :: "'a iop_scheme \<Rightarrow> bytes" where
  "rsn_keydata s = [0x30, 0x14, 0x01, 0x00, 0x00, 0x0f, 0xac,
     if ap_group_crypt_type s = CRYPT_AES then 0x04 else 0x02, 0x01, 0x00, 0x00, 0x0f, 0xac, 0x04,
     0x01, 0x00, 0x00, 0x0f, 0xac, 0x02, 0x00, 0x00]"

primrec rand_bytes :: "hw \<Rightarrow> nat \<Rightarrow> 'a machine_scheme \<Rightarrow> bytes \<times> 'a machine_scheme" where
  "rand_bytes h 0 s = ([], s)"
| "rand_bytes h (Suc n) s =
     (let v = hw_rand h (tr s); (bs, s) = rand_bytes h n (emit (Rand v) s) in (ucast v # bs, s))"

definition data_send_wpa_handshake2 ::
  "hw \<Rightarrow> bytes \<Rightarrow> bytes \<Rightarrow> u64 \<Rightarrow> 'a iop_scheme \<Rightarrow> 'a iop_scheme option" where
  "data_send_wpa_handshake2 h dst_bssid src_bssid replay_cnt s =
     (let keydata = rsn_keydata s;
          (test_nonce, s) = rand_bytes h 32 s;
          s = s\<lparr>device_nonce := test_nonce\<rparr>;
          s = s\<lparr>device_ptk := wpa_calc_ptk src_bssid dst_bssid (device_nonce s) (device_ap_nonce s) (ap_pmk s)\<rparr>;
          frame = eapol_frame (kck (device_ptk s)) dst_bssid src_bssid 0x010A replay_cnt test_nonce keydata
      in do {
        s \<leftarrow> data_send_pkt h (Local frame) (of_nat (length frame)) s;
        Some (s\<lparr>has_sent_hs2 := True\<rparr>) })"

definition data_send_wpa_handshake4 ::
  "hw \<Rightarrow> bytes \<Rightarrow> bytes \<Rightarrow> u64 \<Rightarrow> 'a iop_scheme \<Rightarrow> 'a iop_scheme option" where
  "data_send_wpa_handshake4 h dst_bssid src_bssid replay_cnt s =
     (let frame = eapol_frame (kck (device_ptk s)) dst_bssid src_bssid 0x030A replay_cnt (replicate 32 0) []
      in do {
        s \<leftarrow> data_send_pkt h (Local frame) (of_nat (length frame)) s;
        Some (s\<lparr>has_sent_hs4 := True\<rparr>) })"

definition data_send_wpa_gtkrenew ::
  "hw \<Rightarrow> bytes \<Rightarrow> bytes \<Rightarrow> u64 \<Rightarrow> 'a iop_scheme \<Rightarrow> 'a iop_scheme option" where
  "data_send_wpa_gtkrenew h dst_bssid src_bssid replay_cnt s =
     (let frame = eapol_frame (kck (device_ptk s)) dst_bssid src_bssid 0x0302 replay_cnt (replicate 32 0) []
      in do {
        s \<leftarrow> data_send_pkt h (Local frame) (of_nat (length frame)) s;
        Some (s\<lparr>has_sent_hs4 := True\<rparr>) })"

definition data_send_link :: "hw \<Rightarrow> u32 \<Rightarrow> u32 \<Rightarrow> 'a iop_scheme \<Rightarrow> 'a iop_scheme option" where
  "data_send_link h ip_data ip_data_len s = data_send_pkt_idk h (Addr ip_data) ip_data_len s"

subsection \<open>The handler\<close>

abbreviation (input) field :: "view \<Rightarrow> nat \<Rightarrow> nat \<Rightarrow> bytes" where
  "field p off n \<equiv> map (\<lambda>i. p (off + i)) [0..<n]"

text \<open>Offsets of \<^verbatim>\<open>auth_hdr\<close>.\<close>

abbreviation (input) auth_keyinfo :: "view \<Rightarrow> u16" where "auth_keyinfo p \<equiv> ucast (getbe16 (\<lambda>i. p (5 + i)))"
abbreviation (input) auth_replay :: "view \<Rightarrow> u64" where "auth_replay p \<equiv> getbe64 (\<lambda>i. p (9 + i))"
abbreviation (input) auth_nonce :: "view \<Rightarrow> bytes" where "auth_nonce p \<equiv> field p 17 32"
abbreviation (input) auth_rsc :: "view \<Rightarrow> bytes" where "auth_rsc p \<equiv> field p 65 8"
abbreviation (input) auth_mic :: "view \<Rightarrow> bytes" where "auth_mic p \<equiv> field p 81 16"
abbreviation (input) auth_keydata :: "view \<Rightarrow> bytes" where
  "auth_keydata p \<equiv> field p 99 (unat (getbe16 (\<lambda>i. p (97 + i))))"

text \<open>Both key messages decrypt the group key and install the keys.\<close>

definition load_keys :: "hw \<Rightarrow> view \<Rightarrow> 'a iop_scheme \<Rightarrow> 'a iop_scheme option" where
  "load_keys h p s =
     (let s = s\<lparr>device_gtk_keyinfo :=
                 wpa_decrypt_gtk (hw_calloc h (tr s)) (hw_stack h (tr s)) (kek (device_ptk s)) (auth_keydata p)\<rparr>
      in wmi_post_handshake h (Some (tk (device_ptk s), device_gtk_keyinfo s, auth_rsc p)) s)"

definition data_handle_auth ::
  "hw \<Rightarrow> view \<Rightarrow> u32 \<Rightarrow> bytes \<Rightarrow> bytes \<Rightarrow> 'a iop_scheme \<Rightarrow> 'a iop_scheme option" where
  "data_handle_auth h p len dev_bssid bssid s =
     (let keyinfo = auth_keyinfo p; replay = auth_replay p in do {
        s \<leftarrow> (if keyinfo = 0x008A then do {
                let s = s\<lparr>device_ap_nonce := auth_nonce p\<rparr>;
                s \<leftarrow> data_send_wpa_handshake2 h bssid dev_bssid replay s;
                Some (wifi_printlnf [Lit ''WPA2 Handshake 1/4:''] s) }
              else if keyinfo = 0x13CA then do {
                let s = wifi_printlnf [Lit ''WPA2 Handshake 3/4:''] s;
                let s = s\<lparr>device_ap_mic := auth_mic p\<rparr>;
                s \<leftarrow> data_send_wpa_handshake4 h bssid dev_bssid replay s;
                load_keys h p s }
              else if keyinfo = 0x1382 then do {
                let s = wifi_printlnf [Lit ''Group message:''] s;
                s \<leftarrow> data_send_wpa_gtkrenew h bssid dev_bssid replay s;
                load_keys h p s }
              else Some (wifi_printlnf [Lit ''Unk Auth Pkt: '', Hex 1 (ucast keyinfo)] s));
        Some (wifi_printlnf [Lit ''Done auth''] s) })"

subsection \<open>What a reply looks like to its receiver\<close>

text \<open>The check of the MIC over an EAPOL body: the field is zeroed for the computation.\<close>

definition mic_verifies :: "bytes \<Rightarrow> bytes \<Rightarrow> bool" where
  "mic_verifies k b \<longleftrightarrow>
     take 16 (drop 81 b) = take 16 (hmac_sha1 k (take 81 b @ replicate 16 0 @ drop 97 b))"

lemma length_wpa_calc_mic_16 [simp]: "length k \<le> 32 \<Longrightarrow> length m < 2 ^ 32 \<Longrightarrow> length (wpa_calc_mic k m) = 16"
  by (rule length_wpa_calc_mic) simp_all

lemma length_eapol_body:
  "length (eapol_body ki r n m kd) = 51 + length n + length m + length kd"
  by (simp add: eapol_body_def)

lemma length_link_hdr: "length (link_hdr d s kd) = 12 + length d + length s"
  by (simp add: link_hdr_def)

lemma eapol_body_split:
  assumes "length n = 32" "length m = 16"
  shows "take 81 (eapol_body ki r n m kd) = take 81 (eapol_body ki r n m' kd)"
    "take 16 (drop 81 (eapol_body ki r n m kd)) = m"
    "drop 97 (eapol_body ki r n m kd) = putbe16 (of_nat (length kd)) @ kd"
  using assms by (simp_all add: eapol_body_def)

lemma eapol_body_zeroed:
  assumes "length n = 32" "length m = 16"
  shows "take 81 (eapol_body ki r n m kd) @ replicate 16 0 @ drop 97 (eapol_body ki r n m kd)
     = eapol_body ki r n (replicate 16 0) kd"
  using assms by (simp add: eapol_body_def)

lemma length_eapol_frame:
  assumes "length k \<le> 32" "length d = 6" "length s = 6" "length n = 32" "length kd \<le> 0x400"
  shows "length (eapol_frame k d s ki r n kd) = 123 + length kd"
  using assms by (simp add: eapol_frame_def length_link_hdr length_eapol_body)

text \<open>The receiver strips the 24 bytes of the link header and verifies.\<close>

lemma eapol_frame_verifies:
  assumes "length k \<le> 32" "length d = 6" "length s = 6" "length n = 32" "length kd \<le> 0x400"
  shows "mic_verifies k (drop 24 (eapol_frame k d s ki r n kd))"
proof -
  let ?z = "eapol_body ki r n (replicate 16 0) kd"
  let ?b = "eapol_body ki r n (wpa_calc_mic k ?z) kd"
  have z: "length ?z < 2 ^ 32" using assms by (simp add: length_eapol_body)
  have m: "length (wpa_calc_mic k ?z) = 16" using assms z by simp
  have "drop 24 (eapol_frame k d s ki r n kd) = ?b"
    using assms by (simp add: eapol_frame_def length_link_hdr)
  moreover have "wpa_calc_mic k ?z = take 16 (hmac_sha1 k ?z)"
    using hmac_init [of k ?z] assms z by (simp add: wpa_calc_mic_def)
  ultimately show ?thesis
    unfolding mic_verifies_def
    using eapol_body_zeroed [OF assms(4) m] eapol_body_split(2) [OF assms(4) m] by simp
qed

lemma ucast_u16_u32_u16 [simp]: "ucast (ucast (v :: u16) :: u32) = v"
  by (rule bit_word_eqI) (simp add: bit_simps)

text \<open>The fields of a reply at the offsets the handler itself uses.\<close>

lemma eapol_body_fields:
  assumes "length n = 32" "length m = 16"
  shows "auth_keyinfo (bnth (eapol_body ki r n m kd)) = ki" "auth_replay (bnth (eapol_body ki r n m kd)) = r"
    "auth_nonce (bnth (eapol_body ki r n m kd)) = n" "auth_mic (bnth (eapol_body ki r n m kd)) = m"
proof -
  let ?b = "eapol_body ki r n m kd"
  have len: "length ?b = 99 + length kd" using assms by (simp add: length_eapol_body)
  have at: "bnth ?b (off + i) = take k (drop off ?b) ! i" if "i < k" "off + k \<le> 99" for off i k
    using that len by simp
  have f: "map (\<lambda>i. bnth ?b (off + i)) [0..<k] = take k (drop off ?b)" if "off + k \<le> 99" for off k
    using that len by (intro nth_equalityI) auto
  have "getbe16 (\<lambda>i. bnth ?b (5 + i)) = ucast ki"
    by (rule getbe16_putbe16) (subst at [of _ 2], simp_all add: eapol_body_def)
  then show "auth_keyinfo (bnth ?b) = ki" by simp
  show "auth_replay (bnth ?b) = r"
    by (rule getbe64_putbe64) (subst at [of _ 8], simp_all add: eapol_body_def)
  show "auth_nonce (bnth ?b) = n" "auth_mic (bnth ?b) = m"
    by (subst f, simp, use assms in \<open>simp add: eapol_body_def\<close>)+
qed

subsection \<open>The replies\<close>

lemma xmit_keys:
  fixes s t :: "'a iop_scheme"
  assumes "xmit os s t"
  shows "xmit os (s\<lparr>device_nonce := a\<rparr>) (t\<lparr>device_nonce := a\<rparr>)"
    "xmit os (s\<lparr>device_ptk := b\<rparr>) (t\<lparr>device_ptk := b\<rparr>)"
    "xmit os (s\<lparr>device_ap_nonce := a\<rparr>) (t\<lparr>device_ap_nonce := a\<rparr>)"
    "xmit os (s\<lparr>device_ap_mic := a\<rparr>) (t\<lparr>device_ap_mic := a\<rparr>)"
    "xmit os (s\<lparr>device_gtk_keyinfo := g\<rparr>) (t\<lparr>device_gtk_keyinfo := g\<rparr>)"
    "xmit os (s\<lparr>has_sent_hs2 := c\<rparr>) (t\<lparr>has_sent_hs2 := c\<rparr>)"
    "xmit os (s\<lparr>has_sent_hs4 := c\<rparr>) (t\<lparr>has_sent_hs4 := c\<rparr>)"
  using assms by (cases s; cases t; simp add: xmit_def)+

lemma rand_bytes_length: "rand_bytes h n s = (bs, t) \<Longrightarrow> length bs = n"
  by (induction n arbitrary: s bs t) (auto simp: Let_def split: prod.splits)

lemma rand_bytes_tr: "tr s = tr t \<Longrightarrow> fst (rand_bytes h n s) = fst (rand_bytes h n t)"
proof (induction n arbitrary: s t)
  case (Suc n)
  show ?case
    using Suc.prems Suc.IH [of "emit (Rand (hw_rand h (tr s))) s" "emit (Rand (hw_rand h (tr t))) t"]
    by (simp add: Let_def split_beta)
qed simp

lemma rand_bytes_xmit: "rand_bytes h n s = (bs, t) \<Longrightarrow> xmit [] s t"
proof (induction n arbitrary: s bs t)
  case (Suc n)
  obtain cs where r: "rand_bytes h n (emit (Rand (hw_rand h (tr s))) s) = (cs, t)"
    using Suc.prems by (auto simp: Let_def split: prod.splits)
  have "xmit [] s (emit (Rand (hw_rand h (tr s))) s)" by (simp add: xmit_def outside_def)
  from xmit_trans [OF this Suc.IH [OF r]] show ?case by simp
qed (simp add: xmit_quiet)

lemma x_frame:
  assumes "card_wf s" "length k \<le> 32" "length d = 6" "length sr = 6" "length n = 32" "length kd \<le> 0x400"
    "xmit os r s"
  shows "ok (live h) (data_send_pkt h (Local (eapol_frame k d sr ki rp n kd))
            (of_nat (length (eapol_frame k d sr ki rp n kd))) s)
          (xmit (os @ [data_tx (eapol_frame k d sr ki rp n kd)]) r)"
  by (rule ok_mono [OF data_send_pkt_ok xmit_trans [OF assms(7)]])
    (use assms length_eapol_frame [OF assms(2-6), of ki rp] in simp_all)

lemma length_ptk:
  assumes "length dm = 6" "length am = 6" "length dn = 32" "length an = 32" "length pmk = 32"
  shows "length (kck (wpa_calc_ptk dm am dn an pmk)) = 16" "length (kek (wpa_calc_ptk dm am dn an pmk)) = 16"
    "length (tk (wpa_calc_ptk dm am dn an pmk)) = 16"
  unfolding wpa_calc_ptk_prf [OF assms] by (simp_all add: ptk_of_bytes_def prf_512_def numeral_eq_Suc)

lemma handshake2_ok:
  fixes s :: "'a iop_scheme"
  assumes wf: "card_wf s" and len: "length d = 6" "length sr = 6" "length (ap_pmk s) = 32" "length (device_ap_nonce s) = 32"
    and n: "n = fst (rand_bytes h 32 s)" and k: "k = wpa_calc_ptk sr d n (device_ap_nonce s) (ap_pmk s)"
  shows "ok (live h) (data_send_wpa_handshake2 h d sr rp s)
     (xmit [data_tx (eapol_frame (kck k) d sr 0x010A rp n (rsn_keydata s))]
        (s\<lparr>device_nonce := n, device_ptk := k, has_sent_hs2 := True\<rparr>))"
proof -
  obtain u where u: "rand_bytes h 32 s = (n, u)" using n by (cases "rand_bytes h 32 s") simp
  note x = rand_bytes_xmit [OF u]
  have ln: "length n = 32" by (rule rand_bytes_length [OF u])
  have uf: "device_ap_nonce u = device_ap_nonce s" "ap_pmk u = ap_pmk s"
    using iop_of_more [OF xmit_more [OF x]] by auto
  let ?v = "u\<lparr>device_nonce := n, device_ptk := k\<rparr>" and ?r = "s\<lparr>device_nonce := n, device_ptk := k\<rparr>"
  have v: "xmit [] ?r ?v" by (intro xmit_keys x)
  have kck: "length (kck k) \<le> 32" using length_ptk(1) [OF len(2,1) ln len(4,3)] k by simp
  have kd: "length (rsn_keydata s) \<le> 0x400" by (simp add: rsn_keydata_def)
  have "card_wf ?v" using wf xmit_wf [OF v] by simp
  note send = x_frame [OF this kck len(1,2) ln kd v, of h "0x010A" rp]
  show ?thesis
    unfolding data_send_wpa_handshake2_def Let_def u prod.case
    using send by (simp add: uf k [symmetric]) (rule ok_bind_rule, assumption, auto dest: xmit_keys(6))
qed

lemma handshake4_ok:
  fixes s :: "'a iop_scheme"
  assumes wf: "card_wf s" and len: "length d = 6" "length sr = 6" "length (kck (device_ptk s)) \<le> 32"
  shows "ok (live h) (data_send_wpa_handshake4 h d sr rp s)
     (xmit [data_tx (eapol_frame (kck (device_ptk s)) d sr 0x030A rp (replicate 32 0) [])]
        (s\<lparr>has_sent_hs4 := True\<rparr>))"
    and "ok (live h) (data_send_wpa_gtkrenew h d sr rp s)
     (xmit [data_tx (eapol_frame (kck (device_ptk s)) d sr 0x0302 rp (replicate 32 0) [])]
        (s\<lparr>has_sent_hs4 := True\<rparr>))"
proof -
  have x: "xmit [] s s" by (simp add: xmit_quiet)
  note send = x_frame [OF wf len(3,1,2) _ _ x, of "replicate 32 0" "[]" h _ rp, simplified]
  show "ok (live h) (data_send_wpa_handshake4 h d sr rp s)
     (xmit [data_tx (eapol_frame (kck (device_ptk s)) d sr 0x030A rp (replicate 32 0) [])]
        (s\<lparr>has_sent_hs4 := True\<rparr>))"
    unfolding data_send_wpa_handshake4_def Let_def
    by (rule ok_bind_rule [OF send]) (auto dest: xmit_keys(7))
  show "ok (live h) (data_send_wpa_gtkrenew h d sr rp s)
     (xmit [data_tx (eapol_frame (kck (device_ptk s)) d sr 0x0302 rp (replicate 32 0) [])]
        (s\<lparr>has_sent_hs4 := True\<rparr>))"
    unfolding data_send_wpa_gtkrenew_def Let_def
    by (rule ok_bind_rule [OF send]) (auto dest: xmit_keys(7))
qed

subsection \<open>The handler\<close>

lemma same_ap_post:
  fixes s t :: "'a iop_scheme"
  assumes "same_ap s t"
  shows "post_handshake_txs keys t = post_handshake_txs keys s"
  using assms same_ap_key [OF assms]
  by (auto simp: post_handshake_txs_def install_txs_def same_ap_def split: option.splits)

lemma length_gtk_key: "length (gtk_key (wpa_decrypt_gtk aes stk k d)) \<le> 64"
  by (simp add: wpa_decrypt_gtk_def gtk_of_bytes_def min_def split: prod.splits)

text \<open>
  The effect of loading keys: \<open>os\<close> and the key installation went out, and the group key is
  the one in the packet's key data (\<open>stk\<close> is the content of the stack below the caller).
\<close>

definition keys_loaded :: "hw \<Rightarrow> view \<Rightarrow> outp list \<Rightarrow> 'a iop_scheme \<Rightarrow> 'a iop_scheme \<Rightarrow> bool" where
  "keys_loaded h p os s t \<longleftrightarrow> (\<exists>stk u gtk.
     gtk = wpa_decrypt_gtk (hw_calloc h u) stk (kek (device_ptk s)) (auth_keydata p)
     \<and> xmit (os @ post_handshake_txs (Some (tk (device_ptk s), gtk, auth_rsc p)) s)
          (s\<lparr>device_gtk_keyinfo := gtk\<rparr>) t)"

lemma load_keys_ok:
  fixes s t :: "'a iop_scheme"
  assumes wf: "card_wf s" and x: "xmit os s t" and l: "length (tk (device_ptk s)) \<le> 64"
  shows "ok (live h) (load_keys h p t) (keys_loaded h p os s)"
proof -
  define gtk where "gtk = wpa_decrypt_gtk (hw_calloc h (tr t)) (hw_stack h (tr t)) (kek (device_ptk t)) (auth_keydata p)"
  let ?v = "t\<lparr>device_gtk_keyinfo := gtk\<rparr>" and ?keys = "Some (tk (device_ptk t), gtk, auth_rsc p)"
  have ptk: "device_ptk t = device_ptk s" using iop_of_more [OF xmit_more [OF x]] by simp
  have wfv: "card_wf ?v" using wf xmit_wf [OF x] by simp
  have g: "xmit os (s\<lparr>device_gtk_keyinfo := gtk\<rparr>) ?v" by (rule xmit_keys(5) [OF x])
  have "same_ap s ?v" using more_iop [OF xmit_more [OF x]] by (simp add: same_ap_def)
  then have same: "post_handshake_txs ?keys ?v = post_handshake_txs ?keys s" by (rule same_ap_post)
  have "ok (live h) (wmi_post_handshake h ?keys ?v) (xmit (post_handshake_txs ?keys ?v) ?v)"
    by (rule wmi_post_handshake_ok [OF wfv]) (use l ptk length_gtk_key in \<open>auto simp: gtk_def\<close>)
  then have post: "ok (live h) (wmi_post_handshake h ?keys ?v)
     (xmit (os @ post_handshake_txs ?keys s) (s\<lparr>device_gtk_keyinfo := gtk\<rparr>))"
    unfolding same by (rule ok_mono) (rule xmit_trans [OF g])
  have eq: "load_keys h p t = wmi_post_handshake h ?keys ?v"
    by (simp add: load_keys_def Let_def gtk_def)
  show ?thesis
    unfolding eq by (rule ok_mono [OF post]) (auto simp: keys_loaded_def ptk gtk_def)
qed

lemma keys_loaded_quiet: "keys_loaded h p os s t \<Longrightarrow> quiet t u \<Longrightarrow> keys_loaded h p os s u"
  unfolding keys_loaded_def using xmit_trans [OF _ xmit_quiet [of t u]] by fastforce

lemma ok_printed:
  assumes "ok L m (xmit os s)"
  shows "ok L (do { s \<leftarrow> m; Some (wifi_printlnf fs s) }) (xmit os s)"
  by (rule ok_bind_rule [OF assms])
    (use xmit_trans [OF _ xmit_quiet [OF quiet_wifi_printlnf]] in fastforce)

text \<open>Message 1 of 4: a fresh nonce, the pairwise key, message 2.\<close>

lemma handle_auth_1:
  fixes s :: "'a iop_scheme"
  assumes wf: "card_wf s" and len: "length dev = 6" "length ap = 6" "length (ap_pmk s) = 32"
    and k: "auth_keyinfo p = 0x008A"
    and n: "n = fst (rand_bytes h 32 s)" and ptk: "ptk = wpa_calc_ptk dev ap n (auth_nonce p) (ap_pmk s)"
  shows "ok (live h) (data_handle_auth h p l dev ap s)
     (xmit [data_tx (eapol_frame (kck ptk) ap dev 0x010A (auth_replay p) n (rsn_keydata s))]
        (s\<lparr>device_ap_nonce := auth_nonce p, device_nonce := n, device_ptk := ptk, has_sent_hs2 := True\<rparr>))"
proof -
  let ?s = "s\<lparr>device_ap_nonce := auth_nonce p\<rparr>"
  have r: "fst (rand_bytes h 32 ?s) = fst (rand_bytes h 32 s)" by (rule rand_bytes_tr) simp
  have "ok (live h) (data_send_wpa_handshake2 h ap dev (auth_replay p) ?s)
     (xmit [data_tx (eapol_frame (kck ptk) ap dev 0x010A (auth_replay p) n (rsn_keydata ?s))]
        (?s\<lparr>device_nonce := n, device_ptk := ptk, has_sent_hs2 := True\<rparr>))"
    by (rule handshake2_ok) (use wf len n ptk r in simp_all)
  then have send: "ok (live h) (data_send_wpa_handshake2 h ap dev (auth_replay p) ?s)
     (xmit [data_tx (eapol_frame (kck ptk) ap dev 0x010A (auth_replay p) n (rsn_keydata s))]
        (?s\<lparr>device_nonce := n, device_ptk := ptk, has_sent_hs2 := True\<rparr>))"
    by (simp add: rsn_keydata_def)
  show ?thesis
    unfolding data_handle_auth_def Let_def if_P [OF k] by (intro ok_printed send)
qed

text \<open>Message 3 of 4: message 4 goes out before the keys are loaded.\<close>

lemma reply_and_load:
  fixes s :: "'a iop_scheme"
  assumes wf: "card_wf s" and len: "length (tk (device_ptk s)) \<le> 64"
    and send: "ok (live h) m (xmit os s)"
  shows "ok (live h) (do { s \<leftarrow> do { s \<leftarrow> m; load_keys h p s }; Some (wifi_printlnf fs s) }) (keys_loaded h p os s)"
proof -
  have "ok (live h) (do { s \<leftarrow> m; load_keys h p s }) (keys_loaded h p os s)"
    by (rule ok_bind_rule [OF send]) (rule load_keys_ok [OF wf _ len])
  then show ?thesis
    by (rule ok_bind_rule) (auto intro: keys_loaded_quiet)
qed

lemma handle_auth_3:
  fixes s :: "'a iop_scheme"
  assumes wf: "card_wf s" and len: "length dev = 6" "length ap = 6"
    "length (kck (device_ptk s)) \<le> 32" "length (tk (device_ptk s)) \<le> 64"
    and k: "auth_keyinfo p = 0x13CA"
  shows "ok (live h) (data_handle_auth h p l dev ap s) (keys_loaded h p
     [data_tx (eapol_frame (kck (device_ptk s)) ap dev 0x030A (auth_replay p) (replicate 32 0) [])]
     (s\<lparr>device_ap_mic := auth_mic p, has_sent_hs4 := True\<rparr>))"
proof -
  let ?s = "(wifi_printlnf [Lit ''WPA2 Handshake 3/4:''] s)\<lparr>device_ap_mic := auth_mic p\<rparr>"
  let ?r = "s\<lparr>device_ap_mic := auth_mic p, has_sent_hs4 := True\<rparr>"
  let ?f = "[data_tx (eapol_frame (kck (device_ptk s)) ap dev 0x030A (auth_replay p) (replicate 32 0) [])]"
  have x: "xmit [] (s\<lparr>device_ap_mic := auth_mic p\<rparr>) ?s"
    by (intro xmit_keys xmit_quiet quiet_wifi_printlnf)
  have "ok (live h) (data_send_wpa_handshake4 h ap dev (auth_replay p) ?s) (xmit ?f (?s\<lparr>has_sent_hs4 := True\<rparr>))"
    using handshake4_ok(1) [of ?s ap dev h "auth_replay p"] wf len by simp
  then have send: "ok (live h) (data_send_wpa_handshake4 h ap dev (auth_replay p) ?s) (xmit ?f ?r)"
    by (rule ok_mono) (use xmit_trans [OF xmit_keys(7) [OF x]] in fastforce)
  have k': "auth_keyinfo p \<noteq> 0x008A" using k by simp
  show ?thesis
    unfolding data_handle_auth_def Let_def if_not_P [OF k'] if_P [OF k]
    by (rule reply_and_load [OF _ _ send]) (use wf len in simp_all)
qed

text \<open>The group key handshake, and every other value of the key information.\<close>

lemma handle_auth_group:
  fixes s :: "'a iop_scheme"
  assumes wf: "card_wf s" and len: "length dev = 6" "length ap = 6"
    "length (kck (device_ptk s)) \<le> 32" "length (tk (device_ptk s)) \<le> 64"
    and k: "auth_keyinfo p = 0x1382"
  shows "ok (live h) (data_handle_auth h p l dev ap s) (keys_loaded h p
     [data_tx (eapol_frame (kck (device_ptk s)) ap dev 0x0302 (auth_replay p) (replicate 32 0) [])]
     (s\<lparr>has_sent_hs4 := True\<rparr>))"
proof -
  let ?s = "wifi_printlnf [Lit ''Group message:''] s" and ?r = "s\<lparr>has_sent_hs4 := True\<rparr>"
  let ?f = "[data_tx (eapol_frame (kck (device_ptk s)) ap dev 0x0302 (auth_replay p) (replicate 32 0) [])]"
  have x: "xmit [] s ?s" by (intro xmit_quiet quiet_wifi_printlnf)
  have "ok (live h) (data_send_wpa_gtkrenew h ap dev (auth_replay p) ?s) (xmit ?f (?s\<lparr>has_sent_hs4 := True\<rparr>))"
    using handshake4_ok(2) [of ?s ap dev h "auth_replay p"] wf len by simp
  then have send: "ok (live h) (data_send_wpa_gtkrenew h ap dev (auth_replay p) ?s) (xmit ?f ?r)"
    by (rule ok_mono) (use xmit_trans [OF xmit_keys(7) [OF x]] in fastforce)
  have k': "auth_keyinfo p \<noteq> 0x008A" "auth_keyinfo p \<noteq> 0x13CA" using k by simp_all
  show ?thesis
    unfolding data_handle_auth_def Let_def if_not_P [OF k'(1)] if_not_P [OF k'(2)] if_P [OF k]
    by (rule reply_and_load [OF _ _ send]) (use wf len in simp_all)
qed

lemma handle_auth_other:
  fixes s :: "'a iop_scheme"
  assumes "auth_keyinfo p \<notin> {0x008A, 0x13CA, 0x1382}"
  shows "\<exists>t. data_handle_auth h p l dev ap s = Some t \<and> quiet s t"
proof -
  have k: "auth_keyinfo p \<noteq> 0x008A" "auth_keyinfo p \<noteq> 0x13CA" "auth_keyinfo p \<noteq> 0x1382" using assms by simp_all
  show ?thesis
    unfolding data_handle_auth_def Let_def if_not_P [OF k(1)] if_not_P [OF k(2)] if_not_P [OF k(3)] bind.simps
    by (rule exI, rule conjI, rule refl, rule quiet_trans [OF quiet_wifi_printlnf quiet_wifi_printlnf])
qed

subsection \<open>Agreement with an authenticator\<close>

text \<open>
  An authenticator with the same master key computes the same pairwise key from the nonce in
  message 2, and message 2 passes its check and carries its replay counter.
\<close>

lemma handshake_message2:
  fixes s :: "'a iop_scheme"
  assumes wf: "card_wf s" and len: "length dev = 6" "length ap = 6" "length (ap_pmk s) = 32"
    and k: "auth_keyinfo p = 0x008A"
  shows "ok (live h) (data_handle_auth h p l dev ap s) (\<lambda>t. \<exists>f.
     let body = bnth (drop 24 f);
         ptk = wpa_calc_ptk ap dev (auth_nonce p) (auth_nonce body) (ap_pmk s)
     in outputs (tr t) = outputs (tr s) @ [data_tx f] \<and> device_ptk t = ptk
        \<and> mic_verifies (kck ptk) (drop 24 f) \<and> auth_keyinfo body = 0x010A
        \<and> auth_replay body = auth_replay p \<and> device_nonce t = auth_nonce body)"
proof -
  let ?n = "fst (rand_bytes h 32 s)"
  let ?ptk = "wpa_calc_ptk dev ap ?n (auth_nonce p) (ap_pmk s)"
  let ?f = "eapol_frame (kck ?ptk) ap dev 0x010A (auth_replay p) ?n (rsn_keydata s)"
  have ln: "length ?n = 32" using rand_bytes_length [of h 32 s] by (metis prod.collapse)
  have lk: "length (kck ?ptk) = 16" using length_ptk(1) [OF len(1,2) ln _ len(3)] by simp
  have sym: "?ptk = wpa_calc_ptk ap dev (auth_nonce p) ?n (ap_pmk s)"
    by (rule wpa_calc_ptk_sym) (use len ln in simp_all)
  let ?m = "wpa_calc_mic (kck ?ptk) (eapol_body 0x010A (auth_replay p) ?n (replicate 16 0) (rsn_keydata s))"
  have body: "drop 24 ?f = eapol_body 0x010A (auth_replay p) ?n ?m (rsn_keydata s)"
    using len by (simp add: eapol_frame_def length_link_hdr)
  have m: "length ?m = 16" using lk ln by (simp add: length_eapol_body rsn_keydata_def)
  note fields = eapol_body_fields [OF ln m, of "0x010A" "auth_replay p" "rsn_keydata s", folded body]
  have mic: "mic_verifies (kck ?ptk) (drop 24 ?f)"
    by (rule eapol_frame_verifies) (use len ln lk in \<open>simp_all add: rsn_keydata_def\<close>)
  show ?thesis
  proof (rule ok_mono [OF handle_auth_1 [OF wf len k refl refl]], rule exI [of _ ?f], unfold Let_def fields)
    fix t assume x: "xmit [data_tx ?f] (s\<lparr>device_ap_nonce := auth_nonce p, device_nonce := ?n, device_ptk := ?ptk,
       has_sent_hs2 := True\<rparr>) t"
    then have "outputs (tr t) = outputs (tr s) @ [data_tx ?f]" by (simp add: xmit_def)
    moreover have "device_ptk t = ?ptk" "device_nonce t = ?n" using iop_of_more [OF xmit_more [OF x]] by simp_all
    ultimately show "outputs (tr t) = outputs (tr s) @ [data_tx ?f]
        \<and> device_ptk t = wpa_calc_ptk ap dev (auth_nonce p) ?n (ap_pmk s)
        \<and> mic_verifies (kck (wpa_calc_ptk ap dev (auth_nonce p) ?n (ap_pmk s))) (drop 24 ?f)
        \<and> 0x010A = (0x010A :: u16) \<and> auth_replay p = auth_replay p \<and> device_nonce t = ?n"
      using mic unfolding sym by simp
  qed
qed

text \<open>
  How a message that carries keys is answered: the frame of the answer has a valid MIC and repeats the replay counter, then the
  temporal key and the group key of the key data are installed.
\<close>

lemma key_message_answered:
  fixes s :: "'a iop_scheme"
  assumes answer: "ok (live h) (data_handle_auth h p l dev ap s)
      (keys_loaded h p [data_tx (eapol_frame (kck (device_ptk s)) ap dev ki (auth_replay p) (replicate 32 0) [])] r)"
    and r: "same_ap s r" "device_ptk r = device_ptk s" "tr r = tr s" "has_sent_hs4 r"
    and len: "length dev = 6" "length ap = 6" "length (kck (device_ptk s)) \<le> 32"
    and heap: "\<forall>u. hw_calloc h u" and kek: "length (kek (device_ptk s)) = 16" and es: "\<forall>(t, d) \<in> set es. length d < 256"
    and pl: "16 \<le> length (concat (map kde es))" "8 dvd length (concat (map kde es))" "length (concat (map kde es)) \<le> 0x200"
    and c: "wrap_key_data (kek (device_ptk s)) (concat (map kde es)) = (0, m, auth_keydata p)"
    and gtk: "gtk = gtk_of_bytes (fold (\<lambda>e out. if is_gtk_kde e then overwrite 0 (snd e) out else out) es (replicate 38 0))"
  shows "ok (live h) (data_handle_auth h p l dev ap s) (\<lambda>t. \<exists>f.
     outputs (tr t) = outputs (tr s) @ [data_tx f]
        @ post_handshake_txs (Some (tk (device_ptk s), gtk, auth_rsc p)) s
     \<and> mic_verifies (kck (device_ptk s)) (drop 24 f) \<and> auth_replay (bnth (drop 24 f)) = auth_replay p
     \<and> auth_keyinfo (bnth (drop 24 f)) = ki \<and> device_gtk_keyinfo t = gtk \<and> has_sent_hs4 t)"
proof -
  let ?f = "eapol_frame (kck (device_ptk s)) ap dev ki (auth_replay p) (replicate 32 0) []"
  let ?m = "wpa_calc_mic (kck (device_ptk s)) (eapol_body ki (auth_replay p) (replicate 32 0) (replicate 16 0) [])"
  have body: "drop 24 ?f = eapol_body ki (auth_replay p) (replicate 32 0) ?m []"
    using len by (simp add: eapol_frame_def length_link_hdr)
  have m: "length ?m = 16" using len by (simp add: length_eapol_body)
  have fields: "auth_keyinfo (bnth (drop 24 ?f)) = ki" "auth_replay (bnth (drop 24 ?f)) = auth_replay p"
    unfolding body by (rule eapol_body_fields(1,2) [OF _ m], simp)+
  have mic: "mic_verifies (kck (device_ptk s)) (drop 24 ?f)"
    by (rule eapol_frame_verifies) (use len in simp_all)
  have dec: "wpa_decrypt_gtk True stk (kek (device_ptk s)) (auth_keydata p) = gtk" for stk
    unfolding gtk by (rule wpa_decrypt_gtk_wrapped [OF kek es refl pl c])
  have post: "post_handshake_txs keys r = post_handshake_txs keys s" for keys by (rule same_ap_post [OF r(1)])
  show ?thesis
  proof (rule ok_mono [OF answer], rule exI [of _ ?f])
    fix t assume "keys_loaded h p [data_tx ?f] r t"
    then have "xmit ([data_tx ?f] @ post_handshake_txs (Some (tk (device_ptk s), gtk, auth_rsc p)) s)
        (r\<lparr>device_gtk_keyinfo := gtk\<rparr>) t"
      using dec post heap r(2) by (simp add: keys_loaded_def)
    note x = this iop_of_more [OF xmit_more [OF this]]
    then show "outputs (tr t) = outputs (tr s) @ [data_tx ?f]
        @ post_handshake_txs (Some (tk (device_ptk s), gtk, auth_rsc p)) s
     \<and> mic_verifies (kck (device_ptk s)) (drop 24 ?f) \<and> auth_replay (bnth (drop 24 ?f)) = auth_replay p
     \<and> auth_keyinfo (bnth (drop 24 ?f)) = ki \<and> device_gtk_keyinfo t = gtk \<and> has_sent_hs4 t"
      using mic fields r(3,4) by (simp add: xmit_def)
  qed
qed

lemma handshake_message4:
  fixes s :: "'a iop_scheme"
  assumes "card_wf s" "length dev = 6" "length ap = 6" "length (kck (device_ptk s)) \<le> 32" "length (tk (device_ptk s)) \<le> 64"
    and "auth_keyinfo p = 0x13CA" "\<forall>u. hw_calloc h u" "length (kek (device_ptk s)) = 16" "\<forall>(t, d) \<in> set es. length d < 256"
    and "16 \<le> length (concat (map kde es))" "8 dvd length (concat (map kde es))" "length (concat (map kde es)) \<le> 0x200"
    and "wrap_key_data (kek (device_ptk s)) (concat (map kde es)) = (0, m, auth_keydata p)"
    and "gtk = gtk_of_bytes (fold (\<lambda>e out. if is_gtk_kde e then overwrite 0 (snd e) out else out) es (replicate 38 0))"
  shows "ok (live h) (data_handle_auth h p l dev ap s) (\<lambda>t. \<exists>f.
     outputs (tr t) = outputs (tr s) @ [data_tx f]
        @ post_handshake_txs (Some (tk (device_ptk s), gtk, auth_rsc p)) s
     \<and> mic_verifies (kck (device_ptk s)) (drop 24 f) \<and> auth_replay (bnth (drop 24 f)) = auth_replay p
     \<and> auth_keyinfo (bnth (drop 24 f)) = 0x030A \<and> device_gtk_keyinfo t = gtk \<and> has_sent_hs4 t)"
  by (rule key_message_answered [OF handle_auth_3 [OF assms(1-6)] _ _ _ _ assms(2-4,7-14)]) (simp_all add: same_ap_def)

lemma group_message_answered:
  fixes s :: "'a iop_scheme"
  assumes "card_wf s" "length dev = 6" "length ap = 6" "length (kck (device_ptk s)) \<le> 32" "length (tk (device_ptk s)) \<le> 64"
    and "auth_keyinfo p = 0x1382" "\<forall>u. hw_calloc h u" "length (kek (device_ptk s)) = 16" "\<forall>(t, d) \<in> set es. length d < 256"
    and "16 \<le> length (concat (map kde es))" "8 dvd length (concat (map kde es))" "length (concat (map kde es)) \<le> 0x200"
    and "wrap_key_data (kek (device_ptk s)) (concat (map kde es)) = (0, m, auth_keydata p)"
    and "gtk = gtk_of_bytes (fold (\<lambda>e out. if is_gtk_kde e then overwrite 0 (snd e) out else out) es (replicate 38 0))"
  shows "ok (live h) (data_handle_auth h p l dev ap s) (\<lambda>t. \<exists>f.
     outputs (tr t) = outputs (tr s) @ [data_tx f]
        @ post_handshake_txs (Some (tk (device_ptk s), gtk, auth_rsc p)) s
     \<and> mic_verifies (kck (device_ptk s)) (drop 24 f) \<and> auth_replay (bnth (drop 24 f)) = auth_replay p
     \<and> auth_keyinfo (bnth (drop 24 f)) = 0x0302 \<and> device_gtk_keyinfo t = gtk \<and> has_sent_hs4 t)"
  by (rule key_message_answered [OF handle_auth_group [OF assms(1-6)] _ _ _ _ assms(2-4,7-14)]) (simp_all add: same_ap_def)

end
