(* ===== verification/Iop.thy ===== *)
theory Iop
  imports Auth
begin

text \<open>
  The event side of the ARM7 driver: the firmware events of \<^verbatim>\<open>arm_iop/source/ath/wmi.twl.c\<close>,
  the service connection of \<^verbatim>\<open>arm_iop/source/ath/htc.twl.c\<close>, and the receive path of
  \<^verbatim>\<open>arm_iop/source/wifi_card.twl.c\<close> from the card's interrupt to the handlers, the timer tick
  and the messages of the ARM9. The build without \<^verbatim>\<open>SDIO_NO_BLOCKRW\<close> is modelled, as in the
  source.
\<close>

subsection \<open>Firmware events\<close>

abbreviation (input) WMI_GET_CHANNEL_LIST_RESP :: u16 where "WMI_GET_CHANNEL_LIST_RESP \<equiv> 0x000E"
abbreviation (input) WMI_READY_EVENT :: u16 where "WMI_READY_EVENT \<equiv> 0x1001"
abbreviation (input) WMI_CONNECT_EVENT :: u16 where "WMI_CONNECT_EVENT \<equiv> 0x1002"
abbreviation (input) WMI_DISCONNECT_EVENT :: u16 where "WMI_DISCONNECT_EVENT \<equiv> 0x1003"
abbreviation (input) WMI_BSS_INFO_EVENT :: u16 where "WMI_BSS_INFO_EVENT \<equiv> 0x1004"
abbreviation (input) WMI_CMD_ERROR_EVENT :: u16 where "WMI_CMD_ERROR_EVENT \<equiv> 0x1005"
abbreviation (input) WMI_REG_DOMAIN_EVENT :: u16 where "WMI_REG_DOMAIN_EVENT \<equiv> 0x1006"
abbreviation (input) WMI_TKIP_MICERR_EVENT :: u16 where "WMI_TKIP_MICERR_EVENT \<equiv> 0x1009"
abbreviation (input) WMI_SCAN_COMPLETE_EVENT :: u16 where "WMI_SCAN_COMPLETE_EVENT \<equiv> 0x100A"
abbreviation (input) WMI_REPORT_STATISTICS_EVENT :: u16 where "WMI_REPORT_STATISTICS_EVENT \<equiv> 0x100B"
abbreviation (input) WMI_TARGET_ERROR_REPORT_EVENT :: u16 where "WMI_TARGET_ERROR_REPORT_EVENT \<equiv> 0x100D"
abbreviation (input) WMI_EXTENSION_EVENT :: u16 where "WMI_EXTENSION_EVENT \<equiv> 0x1010"
abbreviation (input) WMI_ACL_DATA_EVENT :: u16 where "WMI_ACL_DATA_EVENT \<equiv> 0x1025"
abbreviation (input) WMIX_DBGLOG_EVENT :: u16 where "WMIX_DBGLOG_EVENT \<equiv> 0x3008"

abbreviation (input) hex2 :: "view \<Rightarrow> nat \<Rightarrow> fmt" where "hex2 p i \<equiv> Hex 2 (ucast (p i))"

definition wmi_handle_ready_event :: "u32 \<Rightarrow> 'a iop_scheme \<Rightarrow> 'a iop_scheme" where
  "wmi_handle_ready_event len s = wifi_printlnf [Lit ''WMI_GET_CHANNEL_LIST_RESP len '', Hex 1 len] s"

definition wmi_handle_wmix_pkt :: "u16 \<Rightarrow> u32 \<Rightarrow> 'a iop_scheme \<Rightarrow> 'a iop_scheme" where
  "wmi_handle_wmix_pkt pkt_cmd len s =
     (if pkt_cmd = WMIX_DBGLOG_EVENT then s
      else wifi_printlnf [Lit ''WMIX pkt ID '', Hex 4 (ucast pkt_cmd), Lit '', len '', Hex 2 len] s)"

text \<open>The block that three places of \<^verbatim>\<open>wmi_handle_pkt\<close> repeat: forget the access point, scan again.\<close>

definition wmi_rescan :: "hw \<Rightarrow> 'a iop_scheme \<Rightarrow> 'a iop_scheme option" where
  "wmi_rescan h s =
     (let s = s\<lparr>ap_found := False, ap_connected := False, sent_connect := False, num_rounds_scanned := 0\<rparr>
      in do {
        s \<leftarrow> wmi_disconnect_cmd h s;
        s \<leftarrow> wmi_delete_bad_ap_cmd h s;
        wmi_scan h s })"

definition handle_reg_domain :: "hw \<Rightarrow> view \<Rightarrow> 'a iop_scheme \<Rightarrow> 'a iop_scheme option" where
  "handle_reg_domain h p s = do {
     let s = wifi_printlnf [Lit ''WMI_REG_DOMAIN_EVENT '', Hex 8 (getle32 p)] s;
     (idk_addr, s) \<leftarrow> wifi_card_read_intern_word h (wifi_card_host_interest_addr s) s;
     s \<leftarrow> wifi_card_write_intern_word h idk_addr 0x3 s;
     s \<leftarrow> wmi_send h WMI_SET_SCAN_PARAMS_CMD
           [0xff, 0xff, 0xff, 0xff, 0xff, 0xff, 0x14, 0, 0x32, 0, 3, 0, 0, 0, 0, 0, 0, 0, 0, 0] s;
     s \<leftarrow> wmi_dbgoff h s;
     Some (s\<lparr>wmi_bIsReady := True\<rparr>) }"

definition handle_connect :: "hw \<Rightarrow> u32 \<Rightarrow> 'a iop_scheme \<Rightarrow> 'a iop_scheme option" where
  "handle_connect h len s =
     (let s = wifi_printlnf [Lit ''WMI_CONNECT_EVENT len '', Hex 1 len] s;
          s = s\<lparr>ap_connected := True\<rparr>;
          s = wifi_card_send_connect s
      in if ap_security_type s = AP_OPEN \<or> ap_security_type s = AP_WEP
         then wmi_post_handshake h None s else Some s)"

definition handle_disconnect :: "hw \<Rightarrow> view \<Rightarrow> 'a iop_scheme \<Rightarrow> 'a iop_scheme option" where
  "handle_disconnect h p s =
     (let disconnectReason = p 8;
          s = wifi_printlnf [Lit ''WMI_DISCONNECT '', Hex 4 (getle16 p), Lit '' '', hex2 p 2, Lit '':'',
                hex2 p 3, Lit '':'', hex2 p 4, Lit ''.. '', Hex 2 (ucast disconnectReason)] s
      in do {
        s \<leftarrow> (if \<not> ap_connected s \<and> sent_connect s then wmi_rescan h s else Some s);
        if ap_connected s \<and> (disconnectReason = 4 \<or> disconnectReason = 1 \<or> disconnectReason = 5)
        then wmi_rescan h s else Some s })"

definition handle_target_error :: "hw \<Rightarrow> view \<Rightarrow> 'a iop_scheme \<Rightarrow> 'a iop_scheme option" where
  "handle_target_error h p s =
     (let err_id = getle32 p;
          s = wifi_printlnf [Lit ''WMI_TARGET_ERROR_REPORT_EVENT '', Hex 1 err_id] s
      in do {
        s \<leftarrow> wmi_send h WMI_TARGET_ERROR_REPORT_BITMASK_CMD (putle32 0x7F) s;
        if err_id = 0x8 then wmi_rescan h s else Some s })"

definition handle_cmd_error :: "hw \<Rightarrow> view \<Rightarrow> 'a iop_scheme \<Rightarrow> 'a iop_scheme option" where
  "handle_cmd_error h p s = do {
     let s = wifi_printlnf [Lit ''WMI_CMD_ERROR_EVENT, '', Hex 4 (getle16 p), Lit '' '', hex2 p 2] s;
     (v, s) \<leftarrow> wifi_card_read_func1_u32 h F1_HOST_INT_STATUS s;
     s \<leftarrow> wifi_card_write_func1_u32 h F1_HOST_INT_STATUS v s;
     wmi_send h WMI_TARGET_ERROR_REPORT_BITMASK_CMD (putle32 0x7F) s }"

definition wmi_handle_pkt ::
  "hw \<Rightarrow> u16 \<Rightarrow> view \<Rightarrow> u32 \<Rightarrow> u32 \<Rightarrow> 'a iop_scheme \<Rightarrow> 'a iop_scheme option" where
  "wmi_handle_pkt h pkt_cmd p len ack_len s =
     (if pkt_cmd = WMI_READY_EVENT then
        Some (wifi_printlnf [Lit ''WMI_READY_EVENT, '', Hex 1 (ucast (p 6)), Lit '' MAC: '', hex2 p 0,
                Lit '':'', hex2 p 1, Lit '':'', hex2 p 2, Lit '':'', hex2 p 3, Lit '':'', hex2 p 4,
                Lit '':'', hex2 p 5] (s\<lparr>device_mac := map p [0, 1, 2, 3, 4, 5]\<rparr>))
      else if pkt_cmd = WMI_REG_DOMAIN_EVENT then handle_reg_domain h p s
      else if pkt_cmd = WMI_GET_CHANNEL_LIST_RESP then Some (wmi_handle_get_channel_list p s)
      else if pkt_cmd = WMI_REPORT_STATISTICS_EVENT then Some s
      else if pkt_cmd = WMI_CMD_ERROR_EVENT then handle_cmd_error h p s
      else if pkt_cmd = WMI_SCAN_COMPLETE_EVENT then Some (wmi_handle_scan_complete s)
      else if pkt_cmd = WMI_BSS_INFO_EVENT then wmi_handle_bss_info h p len s
      else if pkt_cmd = WMI_EXTENSION_EVENT then
        Some (wmi_handle_wmix_pkt (ucast (getle16 p)) (len - 2) s)
      else if pkt_cmd = WMI_CONNECT_EVENT then handle_connect h len s
      else if pkt_cmd = WMI_DISCONNECT_EVENT then handle_disconnect h p s
      else if pkt_cmd = WMI_TKIP_MICERR_EVENT then
        Some (wifi_printlnf [Lit ''WMI_TKIP_MICERR_EVENT '', hex2 p 0, Lit '' '', hex2 p 1] s)
      else if pkt_cmd = WMI_TARGET_ERROR_REPORT_EVENT then handle_target_error h p s
      else if pkt_cmd = WMI_ACL_DATA_EVENT then Some s
      else Some (wifi_printlnf [Lit ''WMI pkt ID '', Hex 4 (ucast pkt_cmd), Lit '', len '', Hex 2 len,
             Lit '' '', Hex 2 ack_len] s))"

subsection \<open>Service connection\<close>

abbreviation (input) HTC_MSG_READY :: u16 where "HTC_MSG_READY \<equiv> 1"
abbreviation (input) HTC_MSG_CONN_SVC :: u16 where "HTC_MSG_CONN_SVC \<equiv> 2"
abbreviation (input) HTC_MSG_CONN_SVC_RESP :: u16 where "HTC_MSG_CONN_SVC_RESP \<equiv> 3"
abbreviation (input) HTC_MSG_SETUP_COMPLETE :: u16 where "HTC_MSG_SETUP_COMPLETE \<equiv> 4"

text \<open>\<^verbatim>\<open>htc_buffer\<close> is written before every use and read by nobody else.\<close>

definition htc_send_pkt ::
  "hw \<Rightarrow> u16 \<Rightarrow> u8 \<Rightarrow> cptr \<Rightarrow> u16 \<Rightarrow> 'a iop_scheme \<Rightarrow> 'a iop_scheme option" where
  "htc_send_pkt h htc_type ack_type data len s =
     (let htc_buffer = overwrite 0 (putle16 htc_type) (replicate 0x80 0);
          len = (if len > 0x80 - 2 then 0x80 - 2 else len);
          htc_buffer = (if data \<noteq> Addr 0 then overwrite 2 (deref (mem s) data (unat len)) htc_buffer
                        else htc_buffer);
          len = len + 2
      in wifi_card_mbox0_send_packet h MBOXPKT_HTC ack_type (Local htc_buffer) len 0 s)"

text \<open>The handler reads further packets itself: \<open>readpkt\<close> is \<^verbatim>\<open>wifi_card_mbox0_readpkt\<close>.\<close>

definition htc_connect ::
  "hw \<Rightarrow> ('a iop_scheme \<Rightarrow> (u16 \<times> 'a iop_scheme) option) \<Rightarrow> bytes \<Rightarrow> 'a iop_scheme \<Rightarrow> 'a iop_scheme option" where
  "htc_connect h readpkt svc s = do {
     s \<leftarrow> htc_send_pkt h HTC_MSG_CONN_SVC MBOXPKT_NOACK (Local svc) (of_nat (length svc)) s;
     (r, s) \<leftarrow> readpkt s;
     Some s }"

definition htc_handle_pkt ::
  "hw \<Rightarrow> ('a iop_scheme \<Rightarrow> (u16 \<times> 'a iop_scheme) option) \<Rightarrow> u16 \<Rightarrow> u32 \<Rightarrow> u32 \<Rightarrow> 'a iop_scheme
    \<Rightarrow> 'a iop_scheme option" where
  "htc_handle_pkt h readpkt pkt_cmd len ack_len s =
     (if pkt_cmd = HTC_MSG_READY then do {
        let s = wifi_printlnf [Lit ''HTC_MSG_READY, len '', Hex 2 len, Lit '' '', Hex 2 ack_len] s;
        s \<leftarrow> htc_connect h readpkt [0x0, 0x1, 0x0, 0, 0, 0] s;
        s \<leftarrow> htc_connect h readpkt [0x1, 0x1, 0x5, 0, 0, 0] s;
        s \<leftarrow> htc_connect h readpkt [0x2, 0x1, 0x5, 0, 0, 0] s;
        s \<leftarrow> htc_connect h readpkt [0x3, 0x1, 0x5, 0, 0, 0] s;
        s \<leftarrow> htc_connect h readpkt [0x4, 0x1, 0x5, 0, 0, 0] s;
        s \<leftarrow> htc_send_pkt h HTC_MSG_SETUP_COMPLETE MBOXPKT_NOACK (Addr 0) 0 s;
        s \<leftarrow> wifi_card_write_func1_u32 h F1_INT_STATUS_ENABLE 0x010300D1 s;
        (r, s) \<leftarrow> wifi_card_write_func0_u8 h 0x4 0x3 s;
        Some s }
      else if pkt_cmd = HTC_MSG_CONN_SVC_RESP \<or> pkt_cmd = 0x0201 \<or> pkt_cmd = 0x0401 then Some s
      else Some (wifi_printlnf [Lit ''HTC pkt ID '', Hex 4 (ucast pkt_cmd), Lit '', len '', Hex 2 len,
             Lit '' '', Hex 2 ack_len] s))"

lemma htc_handle_pkt_mono [partial_function_mono]:
  assumes "\<And>s. mono_option (\<lambda>f. g f s)"
  shows "mono_option (\<lambda>f. htc_handle_pkt h (g f) c l a s)"
  unfolding htc_handle_pkt_def htc_connect_def Let_def split_beta
  by (intro bind_mono if_mono partial_function_mono assms)

subsection \<open>Data packets\<close>

text \<open>
  \<open>a\<close> is the address of the packet. An EAPOL packet goes to the handshake; any other is
  announced to the ARM9, which reads it where it lies.
\<close>

definition data_handle_pkt :: "hw \<Rightarrow> u32 \<Rightarrow> u32 \<Rightarrow> 'a iop_scheme \<Rightarrow> 'a iop_scheme option" where
  "data_handle_pkt h a len s =
     (let p = view (mem s) a in
      if getbe16 (\<lambda>i. p (22 + i)) = 0x888E
      then data_handle_auth h (\<lambda>i. p (24 + i)) (len - 24) (field p 2 6) (field p 8 6) s
      else let len = (if len > 0x600 - 6 then 0x600 - 6 else len)
           in Some (emit (Fifo WIFI_IPCINT_PKTDATA (putle32 a @ putle32 len)) s))"

subsection \<open>Receiving a packet\<close>

text \<open>
  The wait at the head of \<^verbatim>\<open>wifi_card_mbox0_readpkt\<close>, \<^verbatim>\<open>while (timeout--)\<close>: the old value
  of the counter is tested and the counter goes down by one whatever the test says. The result is
  the counter as the loop leaves it; an \<^verbatim>\<open>int\<close> is a word of 32 bits, and -1 is all ones.
\<close>

function readpkt_wait :: "hw \<Rightarrow> u32 \<Rightarrow> 'a card_scheme \<Rightarrow> (u32 \<times> 'a card_scheme) option" where
  "readpkt_wait h timeout s =
     (let old = timeout; timeout = timeout - 1
      in if old = 0 then Some (timeout, s)
         else do {
           (sts, s) \<leftarrow> wifi_card_read_func1_u8 h F1_HOST_INT_STATUS s;
           if sts AND 1 \<noteq> 0 then Some (timeout, s) else readpkt_wait h timeout s })"
  by pat_completeness auto
termination
  by (relation "measure (\<lambda>(h, timeout, s). unat timeout)") (auto simp: unat_minus_one unat_gt_0)

declare readpkt_wait.simps [simp del]

definition readpkt_header :: "hw \<Rightarrow> 'a card_scheme \<Rightarrow> (u32 \<times> 'a card_scheme) option" where
  "readpkt_header h s =
     (if mbox_has_lookahead s then Some (mbox_lookahead s, s\<lparr>mbox_has_lookahead := False\<rparr>)
      else wifi_card_read_func1_u32 h F1_RX_LOOKAHEAD0 s)"

text \<open>A header whose length makes no sense: up to four bytes are discarded.\<close>

primrec discard_bytes :: "hw \<Rightarrow> nat \<Rightarrow> u16 \<Rightarrow> 'a card_scheme \<Rightarrow> (u16 \<times> 'a card_scheme) option" where
  "discard_bytes h 0 actual_len s = Some (actual_len, s)"
| "discard_bytes h (Suc n) actual_len s = do {
     (v, s) \<leftarrow> wifi_card_read_func1_u8 h F1_HOST_INT_STATUS s;
     if v AND 1 = 0 then Some (actual_len, s) else do {
       (b, s) \<leftarrow> wifi_card_read_func1_u8 h 0xFF s;
       discard_bytes h n (actual_len + 1) s } }"

definition readpkt_discard :: "hw \<Rightarrow> u16 \<Rightarrow> u32 \<Rightarrow> 'a card_scheme \<Rightarrow> 'a card_scheme option" where
  "readpkt_discard h len header s = do {
     (actual_len, s) \<leftarrow> discard_bytes h 4 0 s;
     (v, s) \<leftarrow> wifi_card_read_func1_u32 h F1_RX_LOOKAHEAD0 s;
     Some (wifi_printlnf [Lit ''?? Pkt len '', Hex 1 (ucast len), Lit '' '', Hex 1 header, Lit '', '',
             Hex 1 (ucast actual_len), Lit '' '', Hex 1 v] s) }"

text \<open>The walk over the acknowledgement block: the first well-formed lookahead item is kept.\<close>

function ack_walk :: "view \<Rightarrow> nat \<Rightarrow> nat \<Rightarrow> u32 option \<Rightarrow> u32 option" where
  "ack_walk ack_data ack_len ack_idx found =
     (if ack_idx < ack_len
      then let type = ack_data ack_idx;
               len = ack_data (ack_idx + 1);
               ack_idx = ack_idx + 2;
               found = (if type = 2 \<and> len = 6 \<and> found = None \<and> ack_data ack_idx = 0xAA
                           \<and> ack_data (ack_idx + 5) = 0x55
                        then Some (getle32 (\<lambda>i. ack_data (ack_idx + 1 + i))) else found)
           in ack_walk ack_data ack_len (ack_idx + unat len) found
      else found)"
  by pat_completeness auto
termination
  by (relation "measure (\<lambda>(d, n, i, f). n - i)") auto

declare ack_walk.simps [simp del]

definition readpkt_acks :: "u32 \<Rightarrow> u8 \<Rightarrow> 'a card_scheme \<Rightarrow> 'a card_scheme" where
  "readpkt_acks ack_data ack_len s =
     (case ack_walk (view (mem s) ack_data) (unat ack_len) 0 None of
        None \<Rightarrow> s\<lparr>mbox_has_lookahead := False\<rparr>
      | Some v \<Rightarrow> s\<lparr>mbox_has_lookahead := True, mbox_lookahead := v\<rparr>)"

abbreviation (input) is_data_type :: "u8 \<Rightarrow> bool" where
  "is_data_type t \<equiv> t = 2 \<or> t = 3 \<or> t = 4 \<or> t = 5"

definition print_wat :: "view \<Rightarrow> 'a iop_scheme \<Rightarrow> 'a iop_scheme" where
  "print_wat p s =
     wifi_printlnf [Lit ''wat '', hex2 p 8, Lit '' '', hex2 p 9, Lit '' '', hex2 p 10, Lit '' '', hex2 p 11,
       Lit '' '', hex2 p 12, Lit '' '', hex2 p 13, Lit '' '', hex2 p 14, Lit '' '', hex2 p 15]
     (wifi_printlnf [Lit ''wat '', hex2 p 0, Lit '' '', hex2 p 1, Lit '' '', hex2 p 2, Lit '' '', hex2 p 3,
       Lit '' '', hex2 p 4, Lit '' '', hex2 p 5, Lit '' '', hex2 p 6, Lit '' '', hex2 p 7] s)"

text \<open>
  Handing the packet in \<open>read_buffer\<close> to its handler. The length of the payload wraps around
  in 16 bits when the acknowledgement block claims more than the packet has, and the two bytes
  of the command are subtracted in 32 bits.
\<close>

definition readpkt_dispatch ::
  "hw \<Rightarrow> ('a iop_scheme \<Rightarrow> (u16 \<times> 'a iop_scheme) option) \<Rightarrow> u8 \<Rightarrow> u32 \<Rightarrow> u16 \<Rightarrow> u8 \<Rightarrow> 'a iop_scheme
    \<Rightarrow> 'a iop_scheme option" where
  "readpkt_dispatch h readpkt pkt_type read_buffer len_pkt ack_len s =
     (let p = view (mem s) read_buffer;
          pkt_cmd = ucast (getle16 (\<lambda>i. p (6 + i))) :: u16
      in if pkt_type = MBOXPKT_HTC
         then htc_handle_pkt h readpkt pkt_cmd (ucast len_pkt - 2) (ucast ack_len) s
         else if pkt_type = MBOXPKT_WMI
         then wmi_handle_pkt h pkt_cmd (\<lambda>i. p (8 + i)) (ucast len_pkt - 2) (ucast ack_len) s
         else if is_data_type pkt_type
         then data_handle_pkt h (read_buffer + 6) (ucast len_pkt) s
         else Some (print_wat p s))"

lemma readpkt_dispatch_mono [partial_function_mono]:
  assumes "\<And>s. mono_option (\<lambda>f. g f s)"
  shows "mono_option (\<lambda>f. readpkt_dispatch h (g f) ty b n a s)"
  unfolding readpkt_dispatch_def Let_def by (intro if_mono partial_function_mono assms)

text \<open>From the DMA transfer to the end.\<close>

definition readpkt_rest ::
  "hw \<Rightarrow> ('a iop_scheme \<Rightarrow> (u16 \<times> 'a iop_scheme) option) \<Rightarrow> u8 \<Rightarrow> u8 \<Rightarrow> u16 \<Rightarrow> u32 \<Rightarrow> 'a iop_scheme
    \<Rightarrow> (u16 \<times> 'a iop_scheme) option" where
  "readpkt_rest h readpkt pkt_type ack_present len read_buffer s =
     (let full_len = (ucast (round_up (ucast len + 6) 0x80) :: u16); send_addr = (0x4000 - full_len :: u16) in do {
     (r, s) \<leftarrow> wifi_card_read_func1_block h (ucast send_addr) read_buffer (ucast full_len) s;
     if full_len = 0 then Some (0, s)
     else if full_len < 6
     then Some (full_len, wifi_printlnf [Lit ''Packet too short?? '', Hex 1 (ucast full_len)] s)
     else do {
     s \<leftarrow> wifi_ndma_wait h s;
     let ack_len = (if ack_present = 0 then 0 else view (mem s) read_buffer 4);
     let len_pkt = len - ucast ack_len;
     s \<leftarrow> readpkt_dispatch h readpkt pkt_type read_buffer len_pkt ack_len s;
     Some (len, readpkt_acks (read_buffer + 6 + ucast len_pkt) ack_len s) } })"

lemma readpkt_rest_mono [partial_function_mono]:
  assumes "\<And>s. mono_option (\<lambda>f. g f s)"
  shows "mono_option (\<lambda>f. readpkt_rest h (g f) ty ack len b s)"
  unfolding readpkt_rest_def Let_def split_beta
  by (intro bind_mono if_mono partial_function_mono assms)

text \<open>
  \<^verbatim>\<open>wifi_card_mbox0_readpkt\<close>, with the call that the service connection makes back to it as a
  parameter, and the recursion tied; \<open>readpkt_packet\<close> is the part after the test \<^verbatim>\<open>!timeout\<close>.
\<close>

definition readpkt_packet ::
  "hw \<Rightarrow> ('a iop_scheme \<Rightarrow> (u16 \<times> 'a iop_scheme) option) \<Rightarrow> 'a iop_scheme \<Rightarrow> (u16 \<times> 'a iop_scheme) option" where
  "readpkt_packet h readpkt s = do {
     (header, s) \<leftarrow> readpkt_header h s;
     let pkt_type = (ucast (header AND 0xFF) :: u8);
     let ack_present = (ucast (drop_bit 8 header AND 0xFF) :: u8);
     let len = (ucast (drop_bit 16 header) :: u16);
     (read_buffer, s) \<leftarrow> (if ip_data_out_buf s \<noteq> 0 \<and> is_data_type pkt_type
                          then data_next_buf s else Some (mbox_buffer s, s));
     if len > 0x2000 then do {
       s \<leftarrow> readpkt_discard h len header s;
       Some (0, s) }
     else readpkt_rest h readpkt pkt_type ack_present len read_buffer s }"

lemma readpkt_packet_mono [partial_function_mono]:
  assumes "\<And>s. mono_option (\<lambda>f. g f s)"
  shows "mono_option (\<lambda>f. readpkt_packet h (g f) s)"
  unfolding readpkt_packet_def Let_def split_beta
  by (intro bind_mono if_mono partial_function_mono assms)

definition readpkt_with ::
  "hw \<Rightarrow> ('a iop_scheme \<Rightarrow> (u16 \<times> 'a iop_scheme) option) \<Rightarrow> 'a iop_scheme \<Rightarrow> (u16 \<times> 'a iop_scheme) option" where
  "readpkt_with h readpkt s = do {
     (timeout, s) \<leftarrow> readpkt_wait h 100 s;
     if timeout = 0 then Some (0, s) else readpkt_packet h readpkt s }"

lemma readpkt_with_mono [partial_function_mono]:
  assumes "\<And>s. mono_option (\<lambda>f. g f s)"
  shows "mono_option (\<lambda>f. readpkt_with h (g f) s)"
  unfolding readpkt_with_def Let_def split_beta
  by (intro bind_mono if_mono partial_function_mono assms)

partial_function (option) wifi_card_mbox0_readpkt ::
  "hw \<Rightarrow> 'a iop_scheme \<Rightarrow> (u16 \<times> 'a iop_scheme) option" where
  "wifi_card_mbox0_readpkt h s = readpkt_with h (wifi_card_mbox0_readpkt h) s"

subsection \<open>Interrupts, ticks and messages of the ARM9\<close>

definition wifi_card_process_pkts :: "hw \<Rightarrow> 'a iop_scheme \<Rightarrow> 'a iop_scheme option" where
  "wifi_card_process_pkts h s = do {
     (int_sts, s) \<leftarrow> wifi_card_read_func1_u32 h F1_HOST_INT_STATUS s;
     s \<leftarrow> wifi_card_write_func1_u32 h F1_HOST_INT_STATUS int_sts s;
     (r, s) \<leftarrow> wifi_card_mbox0_readpkt h s;
     Some s }"

definition wifi_card_irq :: "hw \<Rightarrow> 'a iop_scheme \<Rightarrow> 'a iop_scheme option" where
  "wifi_card_irq h s = wifi_card_process_pkts h s"

definition wifi_card_tick :: "hw \<Rightarrow> 'a iop_scheme \<Rightarrow> 'a iop_scheme option" where
  "wifi_card_tick h s = (if \<not> wifi_card_bInitted s then Some s else wmi_tick h s)"

definition wifi_card_initted :: "'a iop_scheme \<Rightarrow> bool" where
  "wifi_card_initted s \<longleftrightarrow> wifi_card_bInitted s \<and> wmi_is_ready s"

text \<open>The rest of \<^verbatim>\<open>wifi_card_wlan_init\<close> once \<^verbatim>\<open>wmi_is_ready()\<close> ends its loop.\<close>

definition wlan_init_finish :: "hw \<Rightarrow> 'a iop_scheme \<Rightarrow> 'a iop_scheme option" where
  "wlan_init_finish h s =
     wmi_scan h (wifi_printlnf [Lit (wifi_card_get_chip_str s), Lit '' fully initialized!''] s)"

definition installWifiFIFO :: "hw \<Rightarrow> 'a iop_scheme \<Rightarrow> 'a iop_scheme" where
  "installWifiFIFO h s = wifi_card_init h s"

text \<open>
  \<^verbatim>\<open>wifi_card_handleMsg\<close> for a message of \<open>len\<close> bytes; the structure it is copied into is an
  uninitialised local. The flag of the result says that the handler stays in the loop of
  \<^verbatim>\<open>wifi_card_wlan_init\<close> that waits for the firmware.
\<close>

definition wifi_card_handleMsg ::
  "hw \<Rightarrow> bytes \<Rightarrow> 'a iop_scheme \<Rightarrow> (bool \<times> 'a iop_scheme) option" where
  "wifi_card_handleMsg h data s =
     (if length data < 4 then Some (False, s) else
      let msg = (\<lambda>i. if i < length data then data ! i else hw_stack h (tr s) i);
          cmd = getle32 msg; pkt_data = getle32 (\<lambda>i. msg (4 + i)); pkt_len = getle32 (\<lambda>i. msg (8 + i))
      in if cmd = WIFI_IPCCMD_INIT_IOP then do {
           (r, s) \<leftarrow> wifi_card_device_init h (s\<lparr>wifi_printf_allowed := True\<rparr>);
           Some (r = 0, s) }
         else if cmd = WIFI_IPCCMD_INITBUFS then
           Some (False, s\<lparr>ip_data_out_buf := pkt_data, ip_data_out_buf_totlen := pkt_len\<rparr>)
         else if cmd = WIFI_IPCCMD_SENDPKT then do {
           s \<leftarrow> data_send_pkt_idk h (Addr pkt_data) pkt_len s;
           Some (False, store pkt_data (putle32 0xF00FF00F) s) }
         else if cmd = WIFI_IPCCMD_GET_DEVICE_MAC then
           Some (False, emit (Fifo WIFI_IPCINT_DEVICE_MAC (wmi_get_mac s)) s)
         else if cmd = WIFI_IPCCMD_GET_AP_MAC then
           Some (False, emit (Fifo WIFI_IPCINT_AP_MAC (wmi_get_ap_mac s)) s)
         else Some (False, wifi_printf [Lit ''iop val '', Hex 1 cmd, Lit [CHR 0x0A]] s))"

end
