(* ===== verification/IopInv.thy ===== *)
theory IopInv
  imports Iop
begin

text \<open>
  The invariant of the ARM7 driver: the card is addressed through a configured SDIO context,
  the buffers are allocated and aligned, the ring of the ARM9 is in range, and every array of
  the driver keeps its length. Every handler of an event returns (on a live card) and keeps it.
\<close>

subsection \<open>The invariant of the driver's variables\<close>

text \<open>
  The buffers packets are received into: the mailbox buffer, and the ring of six slots of
  0x600 bytes that the ARM9 announces (its \<^verbatim>\<open>ip_data_in_buf\<close>).
\<close>

definition ring_msg_ok :: "u32 \<Rightarrow> u32 \<Rightarrow> bool" where
  "ring_msg_ok a n \<longleftrightarrow> a AND 3 = 0 \<and> n = 0x2400 \<and> unat a + 0x2400 \<le> 2 ^ 32"

definition rx_wf :: "'a card_scheme \<Rightarrow> bool" where
  "rx_wf s \<longleftrightarrow> mbox_buffer s \<noteq> 0 \<and> mbox_buffer s AND 3 = 0 \<and> ip_data_out_buf_idx s < 6
     \<and> (ip_data_out_buf s \<noteq> 0 \<longrightarrow> ring_msg_ok (ip_data_out_buf s) (ip_data_out_buf_totlen s))"

definition iop_wf :: "'a iop_scheme \<Rightarrow> bool" where
  "iop_wf s \<longleftrightarrow> card_wf s \<and> rx_wf s \<and> ap_wf s \<and> length (ap_name s) = 33 \<and> length (ap_pmk s) = 32
     \<and> length (kck (device_ptk s)) = 16 \<and> length (kek (device_ptk s)) = 16 \<and> length (tk (device_ptk s)) = 16
     \<and> length (device_mac s) = 6 \<and> length (channel_freqs s) = 32
     \<and> length (wifi_card_nvram_configs s) = 0x600 \<and> length (wifi_card_nvram_wep_configs s) = 0x300"

lemma iop_wf_more:
  fixes s t :: "'a iop_scheme"
  assumes "machine.more t = machine.more s" "card_wf t = card_wf s"
  shows "iop_wf t = iop_wf s"
  using assms(2) iop_of_more [OF assms(1)] more_card [OF assms(1)] by (simp add: iop_wf_def ap_wf_def rx_wf_def)

lemma iop_wf_xmit: "xmit os s t \<Longrightarrow> iop_wf t = iop_wf s"
  by (rule iop_wf_more) (simp_all add: xmit_more xmit_wf)

lemma iop_wf_quiet: "quiet s t \<Longrightarrow> iop_wf t = iop_wf s"
  by (rule iop_wf_more) (simp_all add: quiet_more card_wf_quiet)

lemma iop_wf_card: "iop_wf s \<Longrightarrow> card_wf s"
  by (simp add: iop_wf_def)

lemma iop_wf_print [simp]: "iop_wf (wifi_printlnf fs s) = iop_wf s" "iop_wf (wifi_printf fs s) = iop_wf s"
  by (simp_all add: iop_wf_quiet [OF quiet_wifi_printlnf] iop_wf_quiet [OF quiet_wifi_printf])

lemma iop_wf_upd [simp]:
  fixes s :: "'a iop_scheme"
  shows "iop_wf (s\<lparr>wmi_idk := i\<rparr>) = iop_wf s" "iop_wf (s\<lparr>wmi_bScanning := b\<rparr>) = iop_wf s"
    "iop_wf (s\<lparr>scanning := b\<rparr>) = iop_wf s" "iop_wf (s\<lparr>scan_done := b\<rparr>) = iop_wf s"
    "iop_wf (s\<lparr>sent_connect := b\<rparr>) = iop_wf s" "iop_wf (s\<lparr>ap_found := b\<rparr>) = iop_wf s"
    "iop_wf (s\<lparr>ap_connected := b\<rparr>) = iop_wf s" "iop_wf (s\<lparr>num_rounds_scanned := n\<rparr>) = iop_wf s"
    "iop_wf (s\<lparr>wmi_bIsReady := b\<rparr>) = iop_wf s" "iop_wf (s\<lparr>device_num_channels := c\<rparr>) = iop_wf s"
    "iop_wf (s\<lparr>has_sent_hs2 := b\<rparr>) = iop_wf s" "iop_wf (s\<lparr>has_sent_hs4 := b\<rparr>) = iop_wf s"
    "iop_wf (s\<lparr>device_nonce := x\<rparr>) = iop_wf s" "iop_wf (s\<lparr>device_ap_nonce := x\<rparr>) = iop_wf s"
    "iop_wf (s\<lparr>device_ap_mic := x\<rparr>) = iop_wf s" "iop_wf (s\<lparr>device_gtk_keyinfo := g\<rparr>) = iop_wf s"
    "iop_wf (s\<lparr>device_cur_channel_idx := c\<rparr>) = iop_wf s" "iop_wf (s\<lparr>ap_snr := n\<rparr>) = iop_wf s"
    "iop_wf (s\<lparr>ap_security_type := t\<rparr>) = iop_wf s" "iop_wf (s\<lparr>ap_group_crypt_type := c\<rparr>) = iop_wf s"
    "iop_wf (s\<lparr>ap_pair_crypt_type := c\<rparr>) = iop_wf s" "iop_wf (s\<lparr>ap_auth_type := c\<rparr>) = iop_wf s"
    "iop_wf (s\<lparr>mbox_has_lookahead := b\<rparr>) = iop_wf s" "iop_wf (s\<lparr>mbox_lookahead := l\<rparr>) = iop_wf s"
  by (simp_all add: iop_wf_def ap_wf_def rx_wf_def)

lemma ok_wf_xmit: "ok L m (xmit os s) \<Longrightarrow> iop_wf s \<Longrightarrow> ok L m iop_wf"
  by (erule ok_mono) (simp add: iop_wf_xmit)

lemma iop_wf_send_connect [simp]: "iop_wf (wifi_card_send_connect s) = iop_wf s"
  by (rule iop_wf_xmit [OF xmit_send_connect])

named_theorems wf_ok \<open>operations that return and keep the invariant\<close>

lemma wf_send [wf_ok]:
  assumes "iop_wf s" "length p \<le> 0x5F8"
  shows "ok (live h) (wmi_send h ty p s) iop_wf"
  using assms by (intro ok_wf_xmit [OF wmi_send_ok]) (auto intro: iop_wf_card)

lemma wf_rescan [wf_ok]:
  assumes "iop_wf s"
  shows "ok (live h) (wmi_rescan h s) iop_wf"
proof -
  have scan: "ok (live h) (wmi_scan h u) iop_wf" if "iop_wf u" for u :: "'a iop_scheme"
    using that by (intro ok_wf_xmit [OF wmi_scan_ok]) (simp_all add: iop_wf_card)
  show ?thesis
    unfolding wmi_rescan_def wmi_disconnect_cmd_def wmi_delete_bad_ap_cmd_def Let_def
    by (intro ok_bind_rule [OF wf_send] scan) (use assms in \<open>simp_all add: putle32_def\<close>)
qed

lemma wf_post_handshake [wf_ok]:
  assumes "iop_wf s" "keys = None \<longrightarrow> ap_security_type s \<noteq> AP_WPA2"
    "\<And>k g r. keys = Some (k, g, r) \<Longrightarrow> length k \<le> 64 \<and> length (gtk_key g) \<le> 64"
  shows "ok (live h) (wmi_post_handshake h keys s) iop_wf"
  by (rule ok_wf_xmit [OF wmi_post_handshake_ok]) (use assms in \<open>auto simp: iop_wf_card\<close>)

lemma wf_quiet_fst:
  assumes "iop_wf s" "ok L m (\<lambda>r. quiet s (snd r))" "\<And>r. iop_wf (snd r) \<Longrightarrow> ok L (f r) Q"
  shows "ok L (Option.bind m f) Q"
  using assms(2) by (rule ok_bind_rule) (use assms in \<open>auto simp: iop_wf_quiet\<close>)

lemma wf_quiet_bind:
  assumes "iop_wf s" "ok L m (quiet s)" "\<And>r. iop_wf r \<Longrightarrow> ok L (f r) Q"
  shows "ok L (Option.bind m f) Q"
  using assms(2) by (rule ok_bind_rule) (use assms in \<open>auto simp: iop_wf_quiet\<close>)

lemma q_intern_word [q_ok]:
  assumes "card_wf s" "quiet s t"
  shows "ok (live h) (wifi_card_read_intern_word h a t) (\<lambda>r. quiet s (snd r))"
    and "ok (live h) (wifi_card_write_intern_word h a v t) (quiet s)"
  unfolding wifi_card_read_intern_word_def wifi_card_write_intern_word_def
  by (rule q_bind1 [OF assms(1) write_func1_u32_ok [OF assms]], intro q_ok assms(1), assumption)+

lemma wf_reg_domain [wf_ok]:
  assumes "iop_wf s"
  shows "ok (live h) (handle_reg_domain h p s) iop_wf"
proof -
  let ?s = "wifi_printlnf [Lit ''WMI_REG_DOMAIN_EVENT '', Hex 8 (getle32 p)] s"
  have "iop_wf ?s" using assms by simp
  then show ?thesis
    unfolding handle_reg_domain_def Let_def split_beta wmi_dbgoff_def
    by (intro wf_quiet_fst [OF _ q_intern_word(1) [OF _ quiet_refl]] wf_quiet_bind [OF _ q_intern_word(2) [OF _ quiet_refl]] ok_bind_rule [OF wf_send])
      (auto simp: iop_wf_card putle32_def)
qed

lemma wf_connect [wf_ok]:
  assumes "iop_wf s"
  shows "ok (live h) (handle_connect h len s) iop_wf"
proof -
  let ?s = "wifi_card_send_connect ((wifi_printlnf [Lit ''WMI_CONNECT_EVENT len '', Hex 1 len] s)\<lparr>ap_connected := True\<rparr>)"
  have "iop_wf ?s" using assms by simp
  then show ?thesis
    unfolding handle_connect_def Let_def by (auto intro!: wf_post_handshake)
qed

lemma wf_disconnect [wf_ok]:
  assumes "iop_wf s"
  shows "ok (live h) (handle_disconnect h p s) iop_wf"
  unfolding handle_disconnect_def Let_def
  by (intro ok_bind_rule [where P = iop_wf] ok_if wf_rescan ok_SomeI; (assumption | use assms in simp))

lemma wf_target_error [wf_ok]:
  assumes "iop_wf s"
  shows "ok (live h) (handle_target_error h p s) iop_wf"
  unfolding handle_target_error_def Let_def
  by (intro ok_bind_rule [OF wf_send] ok_if wf_rescan ok_SomeI; (assumption | use assms in \<open>simp add: putle32_def\<close>))

lemma wf_cmd_error [wf_ok]:
  assumes "iop_wf s"
  shows "ok (live h) (handle_cmd_error h p s) iop_wf"
proof -
  let ?s = "wifi_printlnf [Lit ''WMI_CMD_ERROR_EVENT, '', Hex 4 (getle16 p), Lit '' '', hex2 p 2] s"
  have "iop_wf ?s" using assms by simp
  then show ?thesis
    unfolding handle_cmd_error_def Let_def split_beta
    by (intro wf_quiet_fst [OF _ read_func1_u32_ok [OF _ quiet_refl]] wf_quiet_bind [OF _ write_func1_u32_ok [OF _ quiet_refl]] wf_send)
      (auto simp: iop_wf_card putle32_def)
qed

lemma iop_wf_channels: "iop_wf s \<Longrightarrow> length fs = 32 \<Longrightarrow> iop_wf (s\<lparr>channel_freqs := fs\<rparr>)"
  by (simp add: iop_wf_def ap_wf_def rx_wf_def)

lemma wf_channel_list [simp]: "iop_wf s \<Longrightarrow> iop_wf (wmi_handle_get_channel_list p s)"
  unfolding wmi_handle_get_channel_list_def Let_def
  by (rule iop_wf_channels) (simp, auto simp: iop_wf_def word_less_nat_alt)

lemma wf_scan_complete [simp]: "iop_wf (wmi_handle_scan_complete s) = iop_wf s"
  by (simp add: wmi_handle_scan_complete_def)


lemma length_cfg [simp]: "length (cfg_wpa s i off n) \<le> n" "length (cfg_wep s i off n) \<le> n"
  by (simp_all add: cfg_wpa_def cfg_wep_def)

lemma length_cfg_pmk: "length (wifi_card_nvram_configs s) = 0x600 \<Longrightarrow> i < 3 \<Longrightarrow> length (cfg_wpa s i 0x100 0x20) = 0x20"
  by (simp add: cfg_wpa_def)

text \<open>Selecting an access point keeps the shapes, whatever the elements of the packet.\<close>

lemma load_wpa_fields:
  "device_ptk (snd (load_wpa i l s)) = device_ptk s" "device_mac (snd (load_wpa i l s)) = device_mac s"
  "channel_freqs (snd (load_wpa i l s)) = channel_freqs s" "rx_wf (snd (load_wpa i l s)) = rx_wf s"
  "length (ap_wep1 s) \<le> 16 \<Longrightarrow> length (ap_wep1 (snd (load_wpa i l s))) \<le> 16"
  "length (ap_wep2 s) \<le> 16 \<Longrightarrow> length (ap_wep2 (snd (load_wpa i l s))) \<le> 16"
  "length (ap_wep3 s) \<le> 16 \<Longrightarrow> length (ap_wep3 (snd (load_wpa i l s))) \<le> 16"
  "length (ap_wep4 s) \<le> 16 \<Longrightarrow> length (ap_wep4 (snd (load_wpa i l s))) \<le> 16"
  by (simp_all add: load_wpa_def Let_def split_beta rx_wf_def)

lemma load_wpa_wf:
  assumes "iop_wf s" "i < 3" "load_wpa i l s = (l', t)"
  shows "iop_wf t"
proof -
  have "length (ap_name s) = 33" using assms(1) by (simp add: iop_wf_def)
  note spec = load_wpa_spec [OF assms(3) this]
  have "length (c_string (ap_name t)) \<le> 32" "length (ap_pmk t) = 32"
    using spec(2) length_ssid_wpa [of s i] length_cfg_pmk [of s i] assms(1,2)
    by (simp_all add: credentials_wpa_def iop_wf_def)
  moreover have "device_ptk t = device_ptk s" "device_mac t = device_mac s" "channel_freqs t = channel_freqs s" "rx_wf t = rx_wf s"
    "length (ap_wep1 t) \<le> 16" "length (ap_wep2 t) \<le> 16" "length (ap_wep3 t) \<le> 16" "length (ap_wep4 t) \<le> 16"
    using load_wpa_fields [where i = i and l = l and s = s] assms(1,3) by (simp_all add: iop_wf_def ap_wf_def rx_wf_def)
  ultimately show ?thesis
    using spec(1,3) assms(1) by (simp add: iop_wf_def ap_wf_def kept_def)
qed

lemma missing_settle_wf:
  "missing_rsn i l s = (g, l', t) \<Longrightarrow> iop_wf t = iop_wf s"
  "settle_security l s = (g, l', t) \<Longrightarrow> iop_wf t = iop_wf s"
  by (auto simp: missing_rsn_def settle_security_def Let_def split: if_splits)

lemma iop_wf_print_bss [simp]: "iop_wf (print_bss p tmp k s) = iop_wf s"
  by (rule iop_wf_quiet [OF quiet_print_bss])

lemma select_wpa_iop_wf: "iop_wf s \<Longrightarrow> iop_wf (select_wpa p l s)"
  by (simp add: select_wpa_def) (simp add: iop_wf_def ap_wf_def rx_wf_def)

lemma wf_bss_filter [wf_ok]: "iop_wf s \<Longrightarrow> ok (live h) (wmi_set_bss_filter h f m s) iop_wf"
  by (rule ok_wf_xmit [OF x_bss_filter [OF _ same_ap_refl]]) (auto intro: iop_wf_card)

lemma try_wpa_wf:
  assumes wf: "iop_wf s" and i: "i < 3"
  shows "ok (live h) (try_wpa h p i l s) (\<lambda>r. iop_wf (snd (snd r)))"
proof (cases "usable_wpa s i \<and> c_string (loc_tmp l) = c_string (ssid_wpa s i) \<and> bss_snr p > ap_snr s")
  case True
  obtain l1 s1 where load: "load_wpa i l s = (l1, s1)" by fastforce
  obtain g2 l2 s2 where miss: "missing_rsn i l1 s1 = (g2, l2, s2)" by (metis prod_cases3)
  obtain g3 l3 s3 where settle: "settle_security l2 s2 = (g3, l3, s3)" by (metis prod_cases3)
  have s3: "iop_wf s2" "iop_wf s3"
    using load_wpa_wf [OF wf i load] missing_settle_wf(1) [OF miss] missing_settle_wf(2) [OF settle] by simp_all
  have "ok (live h) (do { s \<leftarrow> wmi_set_bss_filter h 0 0 (select_wpa p l3 s3); Some (True, l3, s) })
      (\<lambda>r. iop_wf (snd (snd r)))"
    by (rule ok_bind_rule [OF wf_bss_filter]) (use s3 in \<open>auto intro: select_wpa_iop_wf\<close>)
  with s3 show ?thesis
    unfolding try_wpa_def if_P [OF True] Let_def load miss settle prod.case by auto
qed (auto simp: try_wpa_def wf)

lemma wpa_loop_wf:
  "iop_wf s \<Longrightarrow> set is \<subseteq> {..<3} \<Longrightarrow> ok (live h) (wpa_loop h p is l s) iop_wf"
proof (induction "is" arbitrary: l s)
  case (Cons i "is")
  show ?case unfolding wpa_loop.simps split_beta
    by (rule ok_bind_rule [OF try_wpa_wf]) (use Cons in auto)
qed simp

lemma iop_wf_bssid: "iop_wf s \<Longrightarrow> length b = 6 \<Longrightarrow> iop_wf (s\<lparr>ap_bssid := b, ap_found := f\<rparr>)"
  by (simp add: iop_wf_def ap_wf_def rx_wf_def)

lemma iop_wf_wep:
  assumes "iop_wf s"
  shows "iop_wf (s\<lparr>ap_nvram_idx := i, ap_channel := ch, ap_caps := cp, ap_name := strcpy (ap_name s) (ssid_wep s i),
     ap_wep1 := cfg_wep s i a 0x10, ap_wep2 := cfg_wep s i b 0x10, ap_wep3 := cfg_wep s i c 0x10,
     ap_wep4 := cfg_wep s i d 0x10, ap_wepmode := m, ap_pass := pw, ap_pmk := replicate 0x20 0\<rparr>)"
  using assms length_ssid_wep [of s i]
  by (simp add: iop_wf_def ap_wf_def rx_wf_def length_strcpy c_string_strcpy)

lemma select_wep_iop_wf: "iop_wf s \<Longrightarrow> iop_wf (select_wep p i l s)"
  unfolding select_wep_def Let_def iop_wf_print_bss
  by (rule iop_wf_bssid) (simp_all add: iop_wf_wep)

lemma wep_loop_wf:
  "iop_wf s \<Longrightarrow> ok (live h) (wep_loop h p is l s) iop_wf"
  by (induction "is") (auto intro: wf_bss_filter select_wep_iop_wf)

lemma wf_bss_info [wf_ok]:
  assumes "iop_wf s"
  shows "ok (live h) (wmi_handle_bss_info h p len s) iop_wf"
  unfolding wmi_handle_bss_info_def Let_def
  by (intro ok_if ok_bind_rule [OF wpa_loop_wf] ok_bind_rule [where P = iop_wf] wep_loop_wf ok_SomeI;
      (assumption | use assms in simp))

lemma iop_wf_mac: "iop_wf s \<Longrightarrow> length m = 6 \<Longrightarrow> iop_wf (s\<lparr>device_mac := m\<rparr>)"
  by (simp add: iop_wf_def ap_wf_def rx_wf_def)

lemma wf_handle_pkt [wf_ok]:
  assumes "iop_wf s"
  shows "ok (live h) (wmi_handle_pkt h c p len ack s) iop_wf"
  unfolding wmi_handle_pkt_def
  by (intro ok_if wf_ok ok_SomeI assms)
    (use assms in \<open>simp_all add: wmi_handle_wmix_pkt_def iop_wf_mac\<close>)


subsection \<open>Data packets keep the invariant\<close>

lemma iop_wf_ptk: "iop_wf s \<Longrightarrow> length (kck k) = 16 \<Longrightarrow> length (kek k) = 16 \<Longrightarrow> length (tk k) = 16
    \<Longrightarrow> iop_wf (s\<lparr>device_ptk := k\<rparr>)"
  by (simp add: iop_wf_def ap_wf_def rx_wf_def)

lemma keys_loaded_wf: "keys_loaded h p os s t \<Longrightarrow> iop_wf s \<Longrightarrow> iop_wf t"
  by (auto simp: keys_loaded_def iop_wf_xmit)

lemma wf_handle_auth [wf_ok]:
  fixes s :: "'a iop_scheme"
  assumes wf: "iop_wf s" and len: "length dev = 6" "length ap = 6"
  shows "ok (live h) (data_handle_auth h p l dev ap s) iop_wf"
proof -
  have k: "length (kck (device_ptk s)) \<le> 32" "length (tk (device_ptk s)) \<le> 64" "length (ap_pmk s) = 32"
    and c: "card_wf s" using wf by (simp_all add: iop_wf_def)
  consider "auth_keyinfo p = 0x008A" | "auth_keyinfo p = 0x13CA" | "auth_keyinfo p = 0x1382"
    | "auth_keyinfo p \<notin> {0x008A, 0x13CA, 0x1382}" by blast
  then show ?thesis
  proof cases
    case 1
    let ?n = "fst (rand_bytes h 32 s)"
    have "length ?n = 32" using rand_bytes_length [of h 32 s] by (metis prod.collapse)
    note ptk = length_ptk [OF len this _ k(3), of "auth_nonce p"]
    show ?thesis
      by (rule ok_wf_xmit [OF handle_auth_1 [OF c len k(3) 1 refl refl]])
        (use wf ptk in \<open>simp add: iop_wf_ptk\<close>)
  next
    case 2
    show ?thesis
      by (rule ok_mono [OF handle_auth_3 [OF c len k(1,2) 2]]) (erule keys_loaded_wf, use wf in simp)
  next
    case 3
    show ?thesis
      by (rule ok_mono [OF handle_auth_group [OF c len k(1,2) 3]]) (erule keys_loaded_wf, use wf in simp)
  next
    case 4
    with handle_auth_other [OF 4, of h l dev ap s] wf show ?thesis by (auto simp: iop_wf_quiet)
  qed
qed

lemma wf_data_pkt [wf_ok]:
  assumes "iop_wf s"
  shows "ok (live h) (data_handle_pkt h a len s) iop_wf"
proof -
  have "iop_wf (emit (Fifo WIFI_IPCINT_PKTDATA bs) s)" for bs
    using iop_wf_xmit [OF xmit_msg [of WIFI_IPCINT_PKTDATA bs s]] assms by (simp add: ipc_cmd_defs)
  then show ?thesis
    unfolding data_handle_pkt_def Let_def by (intro ok_if wf_handle_auth ok_SomeI assms) simp_all
qed

subsection \<open>Receiving keeps the invariant\<close>

text \<open>What filling a receive buffer does.\<close>

definition recv :: "u32 \<Rightarrow> nat \<Rightarrow> 'a card_scheme \<Rightarrow> 'a card_scheme \<Rightarrow> bool" where
  "recv b n s t \<longleftrightarrow> machine.more t = machine.more s \<and> wifi_printf_allowed t = wifi_printf_allowed s
     \<and> same_config (tmio s) (tmio t) \<and> outside b n (mem s) (mem t) \<and> outputs (tr t) = outputs (tr s)"

lemma recv_quiet: "recv b n s t \<Longrightarrow> quiet t u \<Longrightarrow> recv b n s u"
  by (auto simp: recv_def quiet_def out_side intro: same_config_trans)

lemma quiet_recv: "quiet s t \<Longrightarrow> recv b n t u \<Longrightarrow> recv b n s u"
  by (auto simp: recv_def quiet_def out_side intro: same_config_trans)

lemma recv_wf: "recv b n s t \<Longrightarrow> card_wf t = card_wf s"
  using more_card(1,6) [of t s] by (auto simp: recv_def card_wf_def sdio_wf_def same_config_def)

lemma iop_wf_recv: "recv b n s t \<Longrightarrow> iop_wf t = iop_wf s"
  by (rule iop_wf_more) (simp_all add: recv_wf, simp add: recv_def)

lemma recv_dma: "length data \<le> n \<Longrightarrow> n \<le> 2 ^ 32 \<Longrightarrow> mem u = mem s \<Longrightarrow>
    recv b n u (emit (DmaIn b data) (u\<lparr>mem := mem_write (mem s) b data\<rparr>))"
  by (auto simp: recv_def outside_def mem_write_cases)

text \<open>The bytes of a block read are those the card answers with at that moment.\<close>

definition fetched :: "hw \<Rightarrow> u32 \<Rightarrow> u32 \<Rightarrow> 'a card_scheme \<Rightarrow> 'a card_scheme \<Rightarrow> bool" where
  "fetched h b len s t \<longleftrightarrow> (\<exists>es. \<forall>i < 4 * unat (len div 4). view (mem t) b i = hw_dma h (es @ tr s) i)"

lemma fetched_quiet: "fetched h b len s t \<Longrightarrow> quiet t u \<Longrightarrow> fetched h b len s u"
  by (simp add: fetched_def quiet_def)

lemma fetched_dma:
  assumes "quiet s w" "data = map (hw_dma h (es @ tr w)) [0..<4 * unat (len div 4)]"
  shows "fetched h b len s (emit (DmaIn b data) (u\<lparr>mem := mem_write m b data\<rparr>))"
proof -
  obtain fs where fs: "tr w = fs @ tr s" using assms(1) by (auto simp: quiet_def)
  have "4 * unat (len div 4) \<le> 2 ^ 32" using unat_lt2p_aux [of len] by (simp add: unat_div_distrib)
  then show ?thesis
    unfolding fetched_def using assms(2) by (intro exI [of _ "es @ fs"]) (simp add: view_def mem_write_nth fs)
qed

lemma read_func1_block_fetch:
  fixes s :: "'a card_scheme"
  assumes wf: "card_wf s" and b: "b \<noteq> 0" "b AND 3 = 0"
  shows "ok (live h) (wifi_card_read_func1_block h addr b len s)
     (\<lambda>r. recv b (unat len) s (snd r) \<and> fetched h b len s (snd r))"
proof -
  have cc: "\<not> \<not> device_curctx s" using wf by (simp add: card_wf_def)
  have n: "4 * unat (len div 4) \<le> unat len" by (simp add: unat_div_distrib)
  have start: "ok (live h) (wifi_card_send_command_alt h cmd53_read args w) (\<lambda>t. recv b (unat len) s t \<and> fetched h b len s t)"
    if q: "quiet s w" and c: "ctx_buffer (tmio w) = b" "ctx_size (tmio w) = len" for args w
  proof -
    have "sdio_wf w" "device_curctx w" using wf q by (auto simp: card_wf_def sdio_wf_quiet quiet_card)
    then have "ok (live h) (wifi_card_send_command_alt h cmd53_read args w)
       (\<lambda>t. \<exists>u es data. quiet w u \<and> data = map (hw_dma h (es @ tr w)) [0..<4 * unat (len div 4)]
          \<and> t = emit (DmaIn b data) (u\<lparr>mem := mem_write (mem w) b data\<rparr>))"
      using send_command_block_read [of w cmd53_read h args] b c
      by (simp add: wifi_card_send_command_alt_def cmd53_read_def)
    then show ?thesis
    proof (rule ok_mono, elim exE conjE)
      fix t u es data assume u: "quiet w u" "data = map (hw_dma h (es @ tr w)) [0..<4 * unat (len div 4)]"
        "t = emit (DmaIn b data) (u\<lparr>mem := mem_write (mem w) b data\<rparr>)"
      have "mem u = mem w" using u(1) by (simp add: quiet_def)
      then have "recv b (unat len) u t" unfolding u(3) using n u(2) unat_lt2p_aux [of len] by (intro recv_dma) auto
      with quiet_trans [OF q u(1)] have "recv b (unat len) s t" by (rule quiet_recv)
      then show "recv b (unat len) s t \<and> fetched h b len s t" unfolding u(3) using fetched_dma [OF q u(2)] by simp
    qed
  qed
  show ?thesis
    unfolding wifi_card_read_func1_block_def if_not_P [OF cc] Let_def
  proof (intro ok_bind_rule [OF wifi_ndma_wait_ok] ok_bind_rule [OF start])
    fix u assume u: "quiet s u"
    let ?v = "wifi_sdio_stop (ctx_controller (tmio u)) u"
    show "quiet s (?v\<lparr>tmio := (tmio ?v)\<lparr>ctx_buffer := b, ctx_size := len\<rparr>\<rparr>)"
      using u by (intro quiet_tmioI quiet_intros) (simp_all add: same_config_def)
  next
    fix t u assume t: "recv b (unat len) s t \<and> fetched h b len s t"
      and u: "quiet (wifi_sdio_stop (ctx_controller (tmio t)) t) u"
    have "quiet t u" by (rule quiet_trans [OF _ u], intro quiet_intros quiet_refl)
    with t have "recv b (unat len) s u \<and> fetched h b len s u" by (blast intro: recv_quiet fetched_quiet)
    then show "ok (live h) (if ctx_status (tmio u) AND 4 \<noteq> 0 then Some (-1, u) else Some (0, u))
        (\<lambda>r. recv b (unat len) s (snd r) \<and> fetched h b len s (snd r))" by simp
  qed simp_all
qed

lemma read_func1_block_ok:
  assumes "card_wf s" "b \<noteq> 0" "b AND 3 = 0"
  shows "ok (live h) (wifi_card_read_func1_block h addr b len s) (\<lambda>r. recv b (unat len) s (snd r))"
  by (rule ok_mono [OF read_func1_block_fetch [OF assms]]) simp

lemma iop_wf_acks [simp]: "iop_wf (readpkt_acks a n s) = iop_wf s"
  by (simp add: readpkt_acks_def split: option.splits)

lemma readpkt_wait_ok:
  "card_wf s \<Longrightarrow> quiet s t \<Longrightarrow> ok (live h) (readpkt_wait h n t) (\<lambda>r. quiet s (snd r))"
proof (induction "unat n" arbitrary: n t)
  case 0
  then have "n = 0" by (simp add: unat_eq_zero)
  then show ?case using 0 by (simp add: readpkt_wait.simps [of h 0] Let_def)
next
  case (Suc k)
  have n: "n \<noteq> 0" using Suc.hyps(2) by auto
  then have "k = unat (n - 1)" using Suc.hyps(2) by (simp add: unat_minus_one)
  note IH = Suc.hyps(1) [OF this Suc.prems(1)]
  show ?case
    unfolding readpkt_wait.simps [of h n t] Let_def if_not_P [OF n] split_beta
    by (rule q_bind [OF Suc.prems(1) func0_u8_ok(4) [OF Suc.prems]]) (auto intro: ok_if IH)
qed

lemma discard_bytes_ok:
  "card_wf s \<Longrightarrow> quiet s t \<Longrightarrow> ok (live h) (discard_bytes h n c t) (\<lambda>r. quiet s (snd r))"
proof (induction n arbitrary: t c)
  case (Suc n)
  show ?case
    unfolding discard_bytes.simps split_beta
    by (intro q_bind [OF Suc.prems(1)] func0_u8_ok(4) Suc ok_if q_ends; assumption)
qed simp

lemma readpkt_discard_ok:
  assumes "card_wf s" "quiet s t"
  shows "ok (live h) (readpkt_discard h len hdr t) (quiet s)"
  unfolding readpkt_discard_def split_beta
  by (intro q_bind [OF assms(1)] discard_bytes_ok q_ok q_ends quiet_intros assms; assumption)

lemma readpkt_header_ok:
  assumes "iop_wf s"
  shows "ok (live h) (readpkt_header h s) (\<lambda>r. iop_wf (snd r))"
  unfolding readpkt_header_def
  by (intro ok_if ok_SomeI ok_mono [OF read_func1_u32_ok [OF _ quiet_refl]])
    (use assms in \<open>simp_all add: iop_wf_quiet iop_wf_card\<close>)

text \<open>A slot of the ring lies inside the ring and is aligned.\<close>

lemma ring_slot:
  fixes b i :: u32
  assumes "i < 6" "unat b + 0x2400 \<le> 2 ^ 32"
  shows "unat (b + 0x600 * i) = unat b + 0x600 * unat i" "0x600 * unat i + 0x600 \<le> 0x2400"
proof -
  have "unat i < 6" using assms(1) by (simp add: word_less_nat_alt)
  then show "0x600 * unat i + 0x600 \<le> 0x2400" by simp
  show "unat (b + 0x600 * i) = unat b + 0x600 * unat i"
    using \<open>unat i < 6\<close> assms(2) by (simp add: unat_word_ariths)
qed

lemma mask_2_u32: "(mask 2 :: u32) = 3"
  by (simp add: mask_eq_exp_minus_1)

lemma aligned_unat: "(a :: u32) AND 3 = 0 \<longleftrightarrow> 4 dvd unat a"
proof -
  have "a AND 3 = take_bit 2 a" by (simp add: take_bit_eq_mask mask_2_u32)
  then have "unat (a AND 3) = unat a mod 4" by (simp add: unat_mod take_bit_eq_mod)
  then show ?thesis by (simp add: word_unat_eq_iff mod_eq_0_iff_dvd)
qed


lemma ok_weaken: "ok L m Q \<Longrightarrow> (L' \<Longrightarrow> L) \<Longrightarrow> ok L' m Q"
  by (auto simp: ok_def split: option.splits)

lemma data_next_buf_ok:
  assumes wf: "iop_wf s" and b: "ip_data_out_buf s \<noteq> 0"
  shows "ok L (data_next_buf s) (\<lambda>(b, t). iop_wf t \<and> b \<noteq> 0 \<and> b AND 3 = 0)"
proof -
  let ?i = "ip_data_out_buf_idx s" and ?b = "ip_data_out_buf s"
  have rx: "?b AND 3 = 0" "?i < 6" "unat ?b + 0x2400 \<le> 2 ^ 32" "ip_data_out_buf_totlen s = 0x2400"
    using wf b by (auto simp: iop_wf_def rx_wf_def ring_msg_ok_def)
  have u: "unat (?b + 0x600 * ?i) = unat ?b + 0x600 * unat ?i" by (rule ring_slot [OF rx(2,3)])
  have "?b + 0x600 * ?i \<noteq> 0" using u b by (metis add_eq_0_iff_both_eq_0 unat_eq_zero)
  moreover have "(?b + 0x600 * ?i) AND 3 = 0" using rx(1) unfolding aligned_unat u by auto
  moreover have "(?i + 1) mod 6 < 6" by (simp add: word_less_nat_alt unat_mod)
  then have "iop_wf (s\<lparr>ip_data_out_buf_idx := (?i + 1) mod 6\<rparr>)"
    using wf by (simp add: iop_wf_def rx_wf_def ap_wf_def card_wf_def sdio_wf_def)
  ultimately show ?thesis using rx(4) by (simp add: data_next_buf_def Let_def)
qed

lemma wf_htc_send:
  assumes "iop_wf s" "\<exists>bs. p = Local bs \<and> length bs \<le> 0x7E \<and> l = of_nat (length bs) \<or> p = Addr 0 \<and> l = 0"
  shows "ok (live h) (htc_send_pkt h ty a p l s) iop_wf"
proof -
  have l: "unat l \<le> 0x7E" using assms(2) by (auto simp: unat_of_nat)
  then have nl: "\<not> l > 0x80 - 2" by (simp add: word_less_nat_alt)
  have n: "unat (l + 2) \<le> 0x80" using l by (simp add: unat_word_ariths)
  let ?b = "overwrite 0 (putle16 ty) (replicate 0x80 0)"
  let ?buf = "if p \<noteq> Addr 0 then overwrite 2 (deref (mem s) p (unat l)) ?b else ?b"
  have "length (deref (mem s) p (unat l)) \<le> 0x7E" using assms(2) l by auto
  then have len: "length ?buf = 0x80" by (simp add: length_overwrite)
  have "ok (live h) (wifi_card_mbox0_send_packet h MBOXPKT_HTC a (Local ?buf) (l + 2) 0 s)
      (xmit [Tx MBOXPKT_HTC a (l + 2) 0 (take (unat (l + 2)) ?buf)] s)"
    using n len by (intro send_packet_ok iop_wf_card [OF assms(1)]) auto
  then show ?thesis
    unfolding htc_send_pkt_def Let_def if_not_P [OF nl] by (rule ok_wf_xmit [OF _ assms(1)])
qed

lemma htc_connect_wf:
  assumes rd: "\<And>u. iop_wf u \<Longrightarrow> ok L (rd u) (\<lambda>r. iop_wf (snd r))" and L: "L \<Longrightarrow> live h"
    and s: "iop_wf s" "length svc \<le> 0x7E"
  shows "ok L (htc_connect h rd svc s) iop_wf"
proof -
  have "ok L (htc_send_pkt h HTC_MSG_CONN_SVC MBOXPKT_NOACK (Local svc) (of_nat (length svc)) s) iop_wf"
    using s by (intro ok_weaken [OF wf_htc_send L]) auto
  then show ?thesis
    unfolding htc_connect_def split_beta
    by (rule ok_bind_rule) (rule ok_bind_rule [OF rd], auto)
qed

lemma htc_handle_wf:
  assumes rd: "\<And>u. iop_wf u \<Longrightarrow> ok L (rd u) (\<lambda>r. iop_wf (snd r))" and L: "L \<Longrightarrow> live h"
    and s: "iop_wf s"
  shows "ok L (htc_handle_pkt h rd c l a s) iop_wf"
proof -
  have tail: "ok L (do { s \<leftarrow> htc_send_pkt h HTC_MSG_SETUP_COMPLETE MBOXPKT_NOACK (Addr 0) 0 s;
        s \<leftarrow> wifi_card_write_func1_u32 h F1_INT_STATUS_ENABLE 0x010300D1 s;
        (r, s) \<leftarrow> wifi_card_write_func0_u8 h 0x4 0x3 s;
        Some s }) iop_wf" if "iop_wf s" for s :: "'a iop_scheme"
    unfolding split_beta
    by (rule ok_weaken [OF _ L], intro ok_bind_rule [OF wf_htc_send] wf_quiet_bind [OF _ write_func1_u32_ok [OF _ quiet_refl]]
        wf_quiet_fst [OF _ func0_u8_ok(1) [OF _ quiet_refl]])
      (use that in \<open>auto simp: iop_wf_card\<close>)
  show ?thesis
    unfolding htc_handle_pkt_def Let_def
    by (intro ok_if ok_bind_rule [OF htc_connect_wf [OF rd L]] tail ok_SomeI; (assumption | use s in simp))
qed

lemma dispatch_wf:
  assumes rd: "\<And>u. iop_wf u \<Longrightarrow> ok L (rd u) (\<lambda>r. iop_wf (snd r))" and L: "L \<Longrightarrow> live h"
    and s: "iop_wf s"
  shows "ok L (readpkt_dispatch h rd ty b n a s) iop_wf"
  unfolding readpkt_dispatch_def Let_def
  by (intro ok_if htc_handle_wf [OF rd L] ok_weaken [OF wf_handle_pkt L] ok_weaken [OF wf_data_pkt L] ok_SomeI s;
      (assumption | use s in \<open>simp add: print_wat_def\<close>))


lemma wf_next_buffer:
  assumes wf: "iop_wf s"
  shows "ok L (if ip_data_out_buf s \<noteq> 0 \<and> c then data_next_buf s else Some (mbox_buffer s, s))
     (\<lambda>r. iop_wf (snd r) \<and> fst r \<noteq> 0 \<and> fst r AND 3 = 0)"
proof (rule ok_if)
  assume "ip_data_out_buf s \<noteq> 0 \<and> c"
  then have "ip_data_out_buf s \<noteq> 0" by simp
  then show "ok L (data_next_buf s) (\<lambda>r. iop_wf (snd r) \<and> fst r \<noteq> 0 \<and> fst r AND 3 = 0)"
    by (rule ok_mono [OF data_next_buf_ok [OF wf]]) auto
qed (use wf in \<open>simp add: iop_wf_def rx_wf_def\<close>)

lemma readpkt_rest_wf:
  assumes rd: "\<And>u. iop_wf u \<Longrightarrow> ok L (rd u) (\<lambda>r. iop_wf (snd r))" and L: "L \<Longrightarrow> live h"
    and s: "iop_wf s" and b: "b \<noteq> 0" "b AND 3 = 0"
  shows "ok L (readpkt_rest h rd ty ack len b s) (\<lambda>r. iop_wf (snd r))"
  unfolding readpkt_rest_def Let_def split_beta
proof (intro ok_bind_rule [OF ok_weaken [OF read_func1_block_ok L]] ok_if ok_SomeI)
  fix r assume "recv b (unat (ucast (ucast (round_up (ucast len + 6) 0x80) :: u16) :: u32)) s (snd r)"
  then have r: "iop_wf (snd r)" using s by (simp add: iop_wf_recv)
  then show "iop_wf (snd (0, snd r))" "iop_wf (snd (ucast (round_up (ucast len + 6) 0x80) :: u16,
      wifi_printlnf [Lit ''Packet too short?? '', Hex 1 (ucast (ucast (round_up (ucast len + 6) 0x80) :: u16))] (snd r)))"
    by simp_all
  show "ok L (wifi_ndma_wait h (snd r) \<bind> (\<lambda>s. readpkt_dispatch h rd ty b
        (len - ucast (if ack = 0 then 0 else view (mem s) b 4)) (if ack = 0 then 0 else view (mem s) b 4) s
      \<bind> (\<lambda>t. Some (len, readpkt_acks (b + 6 + ucast (len - ucast (if ack = 0 then 0 else view (mem s) b 4)))
          (if ack = 0 then 0 else view (mem s) b 4) t)))) (\<lambda>r. iop_wf (snd r))"
    by (intro ok_bind_rule [OF ok_weaken [OF wifi_ndma_wait_ok L]] ok_bind_rule [OF dispatch_wf [OF rd L]] ok_SomeI;
        (assumption | use r in \<open>simp add: iop_wf_quiet\<close>))
qed (use s b in \<open>simp_all add: iop_wf_card\<close>)

lemma wf_discard:
  "iop_wf u \<Longrightarrow> ok (live h) (do { s \<leftarrow> readpkt_discard h len hdr u; Some (0 :: u16, s) }) (\<lambda>r. iop_wf (snd r))"
  by (rule ok_bind_rule [OF readpkt_discard_ok [OF _ quiet_refl]]) (auto simp: iop_wf_quiet iop_wf_card)

lemma readpkt_packet_wf:
  assumes rd: "\<And>u. iop_wf u \<Longrightarrow> ok L (rd u) (\<lambda>r. iop_wf (snd r))" and L: "L \<Longrightarrow> live h"
    and s: "iop_wf s"
  shows "ok L (readpkt_packet h rd s) (\<lambda>r. iop_wf (snd r))"
  unfolding readpkt_packet_def Let_def split_beta
  by (intro ok_if ok_bind_rule [OF ok_weaken [OF readpkt_header_ok L]]
      ok_bind_rule [OF wf_next_buffer] ok_weaken [OF wf_discard L] readpkt_rest_wf [OF rd L];
      (assumption | use s in simp))

lemma wait_wf: "iop_wf s \<Longrightarrow> ok (live h) (readpkt_wait h n s) (\<lambda>r. iop_wf (snd r))"
  by (rule ok_mono [OF readpkt_wait_ok]) (auto simp: iop_wf_quiet iop_wf_card)

lemma readpkt_with_wf:
  assumes rd: "\<And>u. iop_wf u \<Longrightarrow> ok L (rd u) (\<lambda>r. iop_wf (snd r))" and L: "L \<Longrightarrow> live h"
    and s: "iop_wf s"
  shows "ok L (readpkt_with h rd s) (\<lambda>r. iop_wf (snd r))"
  unfolding readpkt_with_def split_beta
  by (intro ok_bind_rule [OF ok_weaken [OF wait_wf L]] ok_if ok_SomeI readpkt_packet_wf [OF rd L];
      (assumption | use s in simp))

lemma readpkt_wf:
  assumes "wifi_card_mbox0_readpkt h s = Some r" "iop_wf s"
  shows "iop_wf (snd r)"
proof -
  have "iop_wf s \<longrightarrow> iop_wf (snd r)"
  proof (rule wifi_card_mbox0_readpkt.raw_induct [OF _ assms(1), where P = "\<lambda>h s r. iop_wf s \<longrightarrow> iop_wf (snd r)"], rule impI)
    fix rd :: "hw \<Rightarrow> 'a iop_scheme \<Rightarrow> (u16 \<times> 'a iop_scheme) option" and h s r
    assume IH: "\<And>h s r. rd h s = Some r \<Longrightarrow> iop_wf s \<longrightarrow> iop_wf (snd r)"
      and r: "readpkt_with h (rd h) s = Some r" and s: "iop_wf s"
    have "ok False (rd h u) (\<lambda>r. iop_wf (snd r))" if "iop_wf u" for u
      using IH [of h u] that by (auto simp: ok_def split: option.splits)
    then have "ok False (readpkt_with h (rd h) s) (\<lambda>r. iop_wf (snd r))"
      by (rule readpkt_with_wf) (use s in simp_all)
    then show "iop_wf (snd r)" using r by (rule ok_partial)
  qed
  with assms(2) show ?thesis by simp
qed

text \<open>
  Only the service connection reads packets of its own, and only when the card announces that it is
  ready: a message of type HTC whose command, in bytes 6 and 7 of the transfer, is 1.
\<close>

definition ready_msg :: "(nat \<Rightarrow> u8) \<Rightarrow> bool" where
  "ready_msg p \<longleftrightarrow> p 6 = 1 \<and> p 7 = 0"

lemma ready_command: "(ucast (getle16 (\<lambda>i. p (6 + i))) :: u16) = HTC_MSG_READY \<longleftrightarrow> ready_msg p"
proof -
  define w where "w = (ucast (p 6) OR push_bit 8 (ucast (p 7)) :: u16)"
  have "(ucast (getle16 (\<lambda>i. p (6 + i))) :: u16) = w"
    unfolding w_def by (rule bit_word_eqI) (auto simp: getle16_def bit_simps)
  moreover have "p 6 = ucast w" "p 7 = ucast (drop_bit 8 w)"
    unfolding w_def by (rule bit_word_eqI, auto simp: bit_simps dest: bit_imp_le_length)+
  moreover have "w = 1" if "p 6 = 1" "p 7 = 0" unfolding w_def that by simp
  ultimately show ?thesis by (auto simp: ready_msg_def)
qed

lemma dispatch_plain:
  assumes "ty = MBOXPKT_HTC \<Longrightarrow> \<not> ready_msg (view (mem s) b)"
  shows "readpkt_dispatch h rd ty b n a s = readpkt_dispatch h rd' ty b n a s"
  using assms by (auto simp: readpkt_dispatch_def htc_handle_pkt_def ready_command Let_def)

lemma wf_dispatch_plain:
  assumes "iop_wf s" "ty = MBOXPKT_HTC \<Longrightarrow> \<not> ready_msg (view (mem s) b)"
  shows "ok (live h) (readpkt_dispatch h rd ty b n a s) iop_wf"
  by (subst dispatch_plain [where rd = rd and rd' = "\<lambda>s. Some (0, s)"])
    (use assms in \<open>auto intro!: dispatch_wf\<close>)
abbreviation (input) full_len :: "u16 \<Rightarrow> u16" where
  "full_len len \<equiv> ucast (round_up (ucast len + 6) 0x80)"

lemma full_len_blocks:
  assumes "len \<le> 0x2000"
  shows "unat (full_len len) = (unat len + 133) div 128 * 128"
proof -
  let ?x = "ucast len + 6 :: u32"
  have l: "unat len \<le> 0x2000" using assms by (simp add: word_le_nat_alt)
  have u: "unat (ucast len :: u32) = unat len" by (simp add: unsigned_ucast_eq)
  have x: "unat ?x = unat len + 6" using l u by (simp add: unat_word_ariths)
  have "unat (round_up ?x 0x80) = (unat len + 133) div 128 * 128" using round_up_blocks [of ?x] l x by (simp add: ac_simps)
  moreover have "(unat len + 133) div 128 * 128 < 2 ^ 16" using l by simp
  ultimately show ?thesis by (simp add: unat_u32_u16)
qed

lemma rest_plain:
  fixes s :: "'a iop_scheme"
  assumes s: "iop_wf s" and b: "b \<noteq> 0" "b AND 3 = 0" and len: "len \<le> 0x2000"
    and plain: "\<And>es. ty = MBOXPKT_HTC \<Longrightarrow> \<not> ready_msg (hw_dma h (es @ tr s))"
  shows "ok (live h) (readpkt_rest h rd ty ack len b s) (\<lambda>r. iop_wf (snd r))"
proof -
  let ?n = "ucast (full_len len) :: u32"
  have u: "unat (ucast v :: u32) = unat v" for v :: u16 by (simp add: unsigned_ucast_eq)
  have "128 \<le> unat ?n" "4 dvd unat ?n" unfolding u full_len_blocks [OF len] by simp_all
  then have "7 < 4 * unat (?n div 4)" by (simp add: unat_div_distrib)
  then have plain': "\<not> ready_msg (view (mem t) b)" if "ty = MBOXPKT_HTC" "fetched h b ?n s t" for t :: "'a iop_scheme"
    using that plain by (auto simp: fetched_def ready_msg_def)
  show ?thesis
    unfolding readpkt_rest_def Let_def split_beta
  proof (intro ok_bind_rule [OF read_func1_block_fetch] ok_if ok_SomeI)
    fix r assume "recv b (unat ?n) s (snd r) \<and> fetched h b ?n s (snd r)"
    then have r: "iop_wf (snd r)" "fetched h b ?n s (snd r)" using s iop_wf_recv by blast+
    then show "iop_wf (snd (0, snd r))" "iop_wf (snd (full_len len,
        wifi_printlnf [Lit ''Packet too short?? '', Hex 1 ?n] (snd r)))"
      by simp_all
    show "ok (live h) (wifi_ndma_wait h (snd r) \<bind> (\<lambda>s. readpkt_dispatch h rd ty b
          (len - ucast (if ack = 0 then 0 else view (mem s) b 4)) (if ack = 0 then 0 else view (mem s) b 4) s
        \<bind> (\<lambda>t. Some (len, readpkt_acks (b + 6 + ucast (len - ucast (if ack = 0 then 0 else view (mem s) b 4)))
            (if ack = 0 then 0 else view (mem s) b 4) t)))) (\<lambda>r. iop_wf (snd r))"
      by (intro ok_bind_rule [OF wifi_ndma_wait_ok] ok_bind_rule [OF wf_dispatch_plain] ok_SomeI plain';
          (assumption | use r in \<open>simp add: iop_wf_quiet fetched_quiet\<close>))
  qed (use s b in \<open>simp_all add: iop_wf_card\<close>)
qed

lemma quiet_trace: "quiet s t \<Longrightarrow> \<exists>es. tr t = es @ tr s"
  by (auto simp: quiet_def)

lemma header_plain:
  fixes s :: "'a iop_scheme"
  assumes "iop_wf s"
  shows "ok (live h) (readpkt_header h s) (\<lambda>r. iop_wf (snd r) \<and> (\<exists>es. tr (snd r) = es @ tr s)
     \<and> (mbox_has_lookahead s \<longrightarrow> fst r = mbox_lookahead s))"
  unfolding readpkt_header_def
  by (intro ok_if ok_SomeI ok_mono [OF read_func1_u32_ok [OF _ quiet_refl]])
    (use assms in \<open>auto simp: iop_wf_quiet iop_wf_card quiet_trace\<close>)

lemma next_buffer_plain:
  assumes "iop_wf s"
  shows "ok L (if ip_data_out_buf s \<noteq> 0 \<and> c then data_next_buf s else Some (mbox_buffer s, s))
     (\<lambda>r. (iop_wf (snd r) \<and> fst r \<noteq> 0 \<and> fst r AND 3 = 0) \<and> tr (snd r) = tr s)"
  by (rule ok_mono_eq [OF wf_next_buffer [OF assms]])
    (auto simp: data_next_buf_def Let_def split: if_splits)

lemma packet_plain:
  fixes s :: "'a iop_scheme"
  assumes s: "iop_wf s"
    and plain: "\<And>es. ready_msg (hw_dma h (es @ tr s))
       \<Longrightarrow> mbox_has_lookahead s \<and> ucast (mbox_lookahead s AND 0xFF) \<noteq> (MBOXPKT_HTC :: u8)"
  shows "ok (live h) (readpkt_packet h rd s) (\<lambda>r. iop_wf (snd r))"
  unfolding readpkt_packet_def Let_def split_beta
proof (rule ok_bind_rule [OF header_plain [OF s]], elim conjE exE)
  fix r :: "u32 \<times> 'a iop_scheme" and es assume r: "iop_wf (snd r)" "tr (snd r) = es @ tr s" "mbox_has_lookahead s \<longrightarrow> fst r = mbox_lookahead s"
  let ?ty = "ucast (fst r AND 0xFF) :: u8"
  have plain': "\<not> ready_msg (hw_dma h (fs @ tr (snd r)))" if "?ty = MBOXPKT_HTC" for fs
    using plain [of "fs @ es"] r(2,3) that by auto
  show "ok (live h) ((if ip_data_out_buf (snd r) \<noteq> 0 \<and> is_data_type ?ty
        then data_next_buf (snd r) else Some (mbox_buffer (snd r), snd r)) \<bind>
      (\<lambda>p. if ucast (drop_bit 16 (fst r)) > (0x2000 :: u16)
           then do { s \<leftarrow> readpkt_discard h (ucast (drop_bit 16 (fst r))) (fst r) (snd p); Some (0, s) }
           else readpkt_rest h rd ?ty (ucast (drop_bit 8 (fst r) AND 0xFF)) (ucast (drop_bit 16 (fst r))) (fst p) (snd p)))
     (\<lambda>r. iop_wf (snd r))"
    by (intro ok_bind_rule [OF next_buffer_plain [OF r(1)]] ok_if wf_discard rest_plain)
      (use plain' in \<open>auto simp: not_less\<close>)
qed

lemma readpkt_returns:
  fixes s :: "'a iop_scheme"
  assumes wf: "iop_wf s"
    and plain: "\<And>es. ready_msg (hw_dma h (es @ tr s))
       \<Longrightarrow> mbox_has_lookahead s \<and> ucast (mbox_lookahead s AND 0xFF) \<noteq> (MBOXPKT_HTC :: u8)"
  shows "ok (live h) (wifi_card_mbox0_readpkt h s) (\<lambda>r. iop_wf (snd r))"
  unfolding wifi_card_mbox0_readpkt.simps [of h s] readpkt_with_def split_beta
proof (intro ok_bind_rule [OF readpkt_wait_ok [OF iop_wf_card [OF wf] quiet_refl]] ok_if packet_plain)
  fix r assume q: "quiet s (snd r)"
  then show "ok (live h) (Some (0, snd r)) (\<lambda>r. iop_wf (snd r))" "iop_wf (snd r)" using wf by (simp_all add: iop_wf_quiet)
  fix es assume "ready_msg (hw_dma h (es @ tr (snd r)))"
  moreover obtain fs where "tr (snd r) = fs @ tr s" using quiet_trace [OF q] by blast
  ultimately show "mbox_has_lookahead (snd r) \<and> ucast (mbox_lookahead (snd r) AND 0xFF) \<noteq> (MBOXPKT_HTC :: u8)"
    using plain [of "es @ fs"] q by (simp add: quiet_card)
qed

lemma process_pkts_wf: "wifi_card_process_pkts h s = Some t \<Longrightarrow> iop_wf s \<Longrightarrow> iop_wf t"
proof -
  assume r: "wifi_card_process_pkts h s = Some t" and wf: "iop_wf s"
  have rd: "ok False (wifi_card_mbox0_readpkt h u) (\<lambda>r. iop_wf (snd r))" if "iop_wf u" for u
    using readpkt_wf that by (auto simp: ok_def split: option.splits)
  have "ok False (wifi_card_process_pkts h s) iop_wf"
    unfolding wifi_card_process_pkts_def split_beta
    by (intro wf_quiet_fst [OF _ ok_weaken [OF read_func1_u32_ok [OF _ quiet_refl]]]
        wf_quiet_bind [OF _ ok_weaken [OF write_func1_u32_ok [OF _ quiet_refl]]] ok_bind_rule [OF rd] ok_SomeI)
      (use wf in \<open>auto simp: iop_wf_card\<close>)
  with r show "iop_wf t" by (rule ok_partial [rotated])
qed

subsection \<open>Ticks\<close>

lemma iop_wf_advance [simp]: "iop_wf (scan_advance s) = iop_wf s"
  by (simp add: scan_advance_def Let_def)

text \<open>
  The channel table has 32 entries and the index runs up to \<^verbatim>\<open>device_num_channels\<close> inclusive: with at most
  31 channels the tick keeps the index inside the table.
\<close>

definition channels_ok :: "'a iop_scheme \<Rightarrow> bool" where
  "channels_ok s \<longleftrightarrow> unat (device_num_channels s) \<le> 31 \<and> unat (device_cur_channel_idx s) \<le> 31"

lemma channels_ok_simps [simp]:
  "channels_ok (s\<lparr>scan_done := a, scanning := b\<rparr>) = channels_ok s"
  "channels_ok (s\<lparr>wmi_idk := i, sent_connect := c\<rparr>) = channels_ok s"
  by (simp_all add: channels_ok_def)

lemma channels_ok_advance:
  assumes "channels_ok s"
  shows "channels_ok (scan_advance s)"
proof -
  have "unat (device_cur_channel_idx s + 1) \<le> 31" if "\<not> device_cur_channel_idx s + 1 > device_num_channels s"
    using that assms by (simp add: channels_ok_def word_less_nat_alt)
  with assms show ?thesis by (auto simp: channels_ok_def scan_advance_def Let_def)
qed

lemma channels_ok_xmit:
  fixes s :: "'a iop_scheme"
  assumes "xmit os s t"
  shows "channels_ok t = channels_ok s"
proof -
  have "machine.more t = machine.more s" using assms by (simp add: xmit_def)
  from iop_of_more [OF this] show ?thesis by (simp add: channels_ok_def)
qed

lemma tick_channels:
  fixes s :: "'a iop_scheme"
  assumes wf: "iop_wf s"
  shows "ok (live h \<and> unat (device_cur_channel_idx s) < 32) (wifi_card_tick h s)
     (\<lambda>t. iop_wf t \<and> (channels_ok s \<longrightarrow> channels_ok t))" (is "ok _ _ ?Q")
proof -
  have x: "?Q t" if "xmit os u t" "iop_wf u" "channels_ok s \<longrightarrow> channels_ok u" for os u t
    using that by (simp add: iop_wf_xmit channels_ok_xmit)
  let ?L = "live h \<and> unat (device_cur_channel_idx s) < 32"
  have c: "card_wf s" "ap_wf s" "length (channel_freqs s) = 32" using wf by (simp_all add: iop_wf_def)
  consider "device_num_channels s = 0 \<or> ready_to_connect s \<and> sent_connect s \<or> \<not> ready_to_connect s \<and> scanning s"
    | "device_num_channels s \<noteq> 0" "ready_to_connect s" "\<not> sent_connect s"
    | "device_num_channels s \<noteq> 0" "\<not> ready_to_connect s" "\<not> scanning s" "unat (device_cur_channel_idx s) < 32"
    | "device_num_channels s \<noteq> 0" "\<not> ready_to_connect s" "\<not> scanning s" "\<not> unat (device_cur_channel_idx s) < 32"
    by blast
  then have "ok ?L (wmi_scantick h s) ?Q"
  proof cases
    case 1
    then show ?thesis using wf by (simp add: scantick_idle)
  next
    case 2
    show ?thesis
      by (rule ok_weaken [OF ok_mono [OF scantick_connects [OF c(1,2) 2]]], erule x)
        (use wf in simp_all)
  next
    case 3
    have "unat (device_cur_channel_idx s) < length (channel_freqs s)" using 3(4) c(3) by simp
    note p = scantick_probes [OF c(1) 3(1-3) this, of h]
    show ?thesis
      by (rule ok_weaken [OF ok_mono [OF p]])
        (use wf in \<open>auto simp: Let_def iop_wf_xmit channels_ok_xmit channels_ok_advance split: if_splits\<close>)
  next
    case 4
    have r: "\<not> (ap_found s \<and> \<not> sent_connect s \<and> num_rounds_scanned s \<ge> 5 - 1)"
      "\<not> (ap_found s \<and> num_rounds_scanned s \<ge> 5 - 1)" using 4(2) by (auto simp: ready_to_connect_def)
    have "wmi_scantick h s = None"
      unfolding wmi_scantick_def if_not_P [OF r(1)] using 4(1,3,4) c(3) r(2) by simp
    then show ?thesis using 4(4) by (simp add: ok_def)
  qed
  then show ?thesis using wf by (simp add: wifi_card_tick_def wmi_tick_def)
qed

lemma tick_wf:
  "iop_wf s \<Longrightarrow> ok (live h \<and> unat (device_cur_channel_idx s) < 32) (wifi_card_tick h s) iop_wf"
  by (rule ok_mono [OF tick_channels]) simp_all

subsection \<open>Messages of the ARM9\<close>

lemma iop_wf_store [simp]: "iop_wf (store a bs s) = iop_wf s"
  by (rule iop_wf_more) simp_all

lemma store_alignment [simp]: "mbox_out_buffer (store a bs s) = mbox_out_buffer s"
  by (simp add: store_def)

text \<open>Whatever the pointer and the length, sending returns.\<close>

lemma wf_sendbytes:
  assumes "iop_wf s" "b = mbox_out_buffer s"
  shows "ok (live h) (wifi_card_mbox0_sendbytes h b len s) iop_wf"
  using assms by (intro ok_wf_xmit [OF sendbytes_ok]) (auto simp: iop_wf_def card_wf_def)

lemma wf_send_packet [wf_ok]:
  assumes "iop_wf s"
  shows "ok (live h) (wifi_card_mbox0_send_packet h ty a p len idk s) iop_wf"
  unfolding wifi_card_mbox0_send_packet_def Let_def
  by (rule wf_sendbytes) (use assms in simp_all)

lemma iop_wf_ring: "iop_wf s \<Longrightarrow> ring_msg_ok a n \<Longrightarrow> iop_wf (s\<lparr>ip_data_out_buf := a, ip_data_out_buf_totlen := n\<rparr>)"
  by (simp add: iop_wf_def rx_wf_def ap_wf_def card_wf_def sdio_wf_def)

lemma iop_wf_emit [simp]: "iop_wf (emit e s) = iop_wf s"
  by (rule iop_wf_more) (simp_all add: card_wf_def sdio_wf_def emit_def)

lemma msg_fields:
  "length data \<ge> 4 \<Longrightarrow> getle32 (\<lambda>i. if i < length data then data ! i else f i) = getle32 (\<lambda>i. data ! i)"
  by (auto simp: getle32_def simp del: length_greater_0_conv)

lemma handleMsg_wf:
  assumes wf: "iop_wf s" and i: "length data \<ge> 4 \<Longrightarrow> getle32 (\<lambda>i. data ! i) \<noteq> WIFI_IPCCMD_INIT_IOP"
    and b: "length data \<ge> 4 \<Longrightarrow> getle32 (\<lambda>i. data ! i) = WIFI_IPCCMD_INITBUFS
       \<Longrightarrow> ring_msg_ok (getle32 (\<lambda>i. data ! (4 + i))) (getle32 (\<lambda>i. data ! (8 + i))) \<and> length data \<ge> 12"
  shows "ok (live h) (wifi_card_handleMsg h data s) (\<lambda>r. iop_wf (snd r))"
proof (cases "length data < 4")
  case False
  then have l: "length data \<ge> 4" by simp
  let ?m = "\<lambda>i. if i < length data then data ! i else hw_stack h (tr s) i"
  let ?c = "getle32 ?m" and ?d = "getle32 (\<lambda>i. ?m (4 + i))" and ?n = "getle32 (\<lambda>i. ?m (8 + i))"
  have c: "?c = getle32 (\<lambda>i. data ! i)" by (rule msg_fields [OF l])
  have init: "?c \<noteq> WIFI_IPCCMD_INIT_IOP" using i [OF l] c by simp
  have ring: "ring_msg_ok ?d ?n" if "?c = WIFI_IPCCMD_INITBUFS"
    using b [OF l] c that by (simp add: getle32_def)
  show ?thesis
    unfolding wifi_card_handleMsg_def if_not_P [OF False] Let_def if_not_P [OF init]
  proof (intro ok_if ok_SomeI)
    assume "?c = WIFI_IPCCMD_INITBUFS"
    then show "iop_wf (snd (False, s\<lparr>ip_data_out_buf := ?d, ip_data_out_buf_totlen := ?n\<rparr>))"
      using iop_wf_ring [OF wf ring] by simp
  next
    show "ok (live h) (do { s \<leftarrow> data_send_pkt_idk h (Addr ?d) ?n s; Some (False, store ?d (putle32 0xF00FF00F) s) })
        (\<lambda>r. iop_wf (snd r))"
      unfolding data_send_pkt_idk_def by (rule ok_bind_rule [OF wf_send_packet]) (use wf in simp_all)
  qed (use wf in simp_all)
qed (use wf in \<open>simp add: wifi_card_handleMsg_def\<close>)

subsection \<open>Initialisation establishes the invariant\<close>

text \<open>The part of the invariant that does not need a configured context.\<close>

definition iop_pre :: "'a iop_scheme \<Rightarrow> bool" where
  "iop_pre s \<longleftrightarrow> mbox_out_buffer s AND 3 = 0 \<and> mbox_buffer s AND 3 = 0
     \<and> (mbox_buffer s \<noteq> 0 \<longrightarrow> rx_wf s) \<and> ap_wf s \<and> length (ap_name s) = 33 \<and> length (ap_pmk s) = 32
     \<and> length (kck (device_ptk s)) = 16 \<and> length (kek (device_ptk s)) = 16 \<and> length (tk (device_ptk s)) = 16
     \<and> length (device_mac s) = 6 \<and> length (channel_freqs s) = 32
     \<and> length (wifi_card_nvram_configs s) = 0x600 \<and> length (wifi_card_nvram_wep_configs s) = 0x300"

lemma iop_wf_device [simp]:
  fixes s :: "'a iop_scheme"
  shows "iop_wf (s\<lparr>device_manufacturer := v\<rparr>) = iop_wf s" "iop_wf (s\<lparr>device_chip_id := v\<rparr>) = iop_wf s"
    "iop_wf (s\<lparr>device_host_interest_addr := v\<rparr>) = iop_wf s" "iop_wf (s\<lparr>device_eeprom_addr := v\<rparr>) = iop_wf s"
    "iop_wf (s\<lparr>device_eeprom_version := v\<rparr>) = iop_wf s" "iop_wf (s\<lparr>wifi_card_bInitted := b\<rparr>) = iop_wf s"
  by (simp_all add: iop_wf_def ap_wf_def rx_wf_def card_wf_def sdio_wf_def)

lemma iop_wf_ctx:
  "ctx_controller c = ctx_controller (tmio s) \<Longrightarrow> ctx_block_size c = ctx_block_size (tmio s)
   \<Longrightarrow> ctx_debug c = ctx_debug (tmio s) \<Longrightarrow> iop_wf (s\<lparr>tmio := c\<rparr>) = iop_wf s"
  by (simp add: iop_wf_def ap_wf_def rx_wf_def card_wf_def sdio_wf_def)

text \<open>Card operations as partial ones: if they return, the invariant still holds.\<close>

definition keeps :: "('a iop_scheme) option \<Rightarrow> bool" where
  "keeps m \<longleftrightarrow> (\<forall>t. m = Some t \<longrightarrow> iop_wf t)"

definition keeps2 :: "('b \<times> 'a iop_scheme) option \<Rightarrow> bool" where
  "keeps2 m \<longleftrightarrow> (\<forall>v t. m = Some (v, t) \<longrightarrow> iop_wf t)"

lemma keeps_quiet:
  "iop_wf s \<Longrightarrow> ok L m (quiet s) \<Longrightarrow> keeps m" "iop_wf s \<Longrightarrow> ok L m' (\<lambda>r. quiet s (snd r)) \<Longrightarrow> keeps2 m'"
  by (auto simp: keeps_def keeps2_def ok_def iop_wf_quiet)

lemma keeps_bind:
  "keeps m \<Longrightarrow> (\<And>t. iop_wf t \<Longrightarrow> keeps (f t)) \<Longrightarrow> keeps (Option.bind m f)"
  "keeps m \<Longrightarrow> (\<And>t. iop_wf t \<Longrightarrow> keeps2 (g t)) \<Longrightarrow> keeps2 (Option.bind m g)"
  "keeps2 n \<Longrightarrow> (\<And>v t. iop_wf t \<Longrightarrow> keeps (f' v t)) \<Longrightarrow> keeps (Option.bind n (\<lambda>(v, t). f' v t))"
  "keeps2 n \<Longrightarrow> (\<And>v t. iop_wf t \<Longrightarrow> keeps2 (g' v t)) \<Longrightarrow> keeps2 (Option.bind n (\<lambda>(v, t). g' v t))"
  by (auto simp: keeps_def keeps2_def split: Option.bind_splits)

lemma keeps_Some [simp]: "keeps (Some t) = iop_wf t" "keeps2 (Some (v, t)) = iop_wf t"
  by (auto simp: keeps_def keeps2_def)

lemma keeps_if: "(c \<Longrightarrow> keeps m) \<Longrightarrow> (\<not> c \<Longrightarrow> keeps n) \<Longrightarrow> keeps (if c then m else n)"
  "(c \<Longrightarrow> keeps2 m') \<Longrightarrow> (\<not> c \<Longrightarrow> keeps2 n') \<Longrightarrow> keeps2 (if c then m' else n')"
  by simp_all

named_theorems keeps_ok \<open>card operations that keep the invariant\<close>

lemma keeps_registers [keeps_ok]:
  assumes "iop_wf s"
  shows "keeps2 (wifi_card_write_func0_u8 h a v s)" "keeps2 (wifi_card_read_func0_u8 h a s)"
    "keeps2 (wifi_card_write_func1_u8 h a v s)" "keeps2 (wifi_card_read_func1_u8 h a s)"
    "keeps2 (wifi_card_read_func_byte h f a s)"
    "keeps2 (wifi_card_read_func0_u32 h a s)" "keeps (wifi_card_write_func1_u32 h a w s)"
    "keeps2 (wifi_card_read_intern_word h a s)" "keeps (wifi_card_write_intern_word h a w s)"
  by (rule keeps_quiet [OF assms], rule q_ok [OF iop_wf_card [OF assms] quiet_refl])+

lemma keeps_command [keeps_ok]:
  "iop_wf s \<Longrightarrow> \<not> cmd_data_length c \<Longrightarrow> keeps (wifi_card_send_command h c args s)"
  by (rule keeps_quiet(1), assumption, rule send_command_ok [OF iop_wf_card quiet_refl])


lemma keeps_poll [keeps_ok]: "iop_wf s \<Longrightarrow> keeps (poll_func h f a p s)"
proof -
  assume s: "iop_wf s"
  have "iop_wf s \<longrightarrow> iop_wf t" if "poll_func h f a p s = Some t" for t
  proof (rule poll_func.raw_induct [OF _ that, where P = "\<lambda>h f a p s t. iop_wf s \<longrightarrow> iop_wf t"], rule impI)
    fix rec h f a p and s t :: "'a iop_scheme"
    assume IH: "\<And>h f a p s t. rec h f a p s = Some t \<Longrightarrow> iop_wf s \<longrightarrow> iop_wf t"
      and r: "do { (v, s) \<leftarrow> wifi_card_read_func_byte h f a s; if p v then Some s else rec h f a p s } = Some t"
      and s: "iop_wf s"
    from r obtain v u where "wifi_card_read_func_byte h f a s = Some (v, u)"
      "(if p v then Some u else rec h f a p u) = Some t" by (auto split: Option.bind_splits)
    with keeps_registers(5) [OF s, of h f a] IH show "iop_wf t" by (auto simp: keeps2_def split: if_splits)
  qed
  with s show ?thesis by (simp add: keeps_def)
qed

lemma keeps_put [keeps_ok]: "iop_wf s \<Longrightarrow> keeps (mbox0_put h n v s)"
  by (induction n arbitrary: v s) (auto intro!: keeps_bind keeps_ok)

lemma keeps_get [keeps_ok]: "iop_wf s \<Longrightarrow> keeps2 (mbox0_get h n i v s)"
  by (induction n arbitrary: i v s) (auto intro!: keeps_bind keeps_ok)

lemma keeps_mbox0_u32 [keeps_ok]:
  assumes "iop_wf s"
  shows "keeps (wifi_card_write_mbox0_u32 h v s)" "keeps2 (wifi_card_read_mbox0_u32 h s)"
  unfolding wifi_card_write_mbox0_u32_def wifi_card_read_mbox0_u32_def
  using assms by (auto intro!: keeps_bind keeps_ok)

lemma keeps_skip [keeps_ok]: "iop_wf s \<Longrightarrow> keeps (skip_words h n s)"
  by (induction n arbitrary: s) (auto intro!: keeps_bind keeps_ok)

lemma keeps_bmi [keeps_ok]:
  assumes "iop_wf s"
  shows "keeps (wifi_card_bmi_start_firmware h s)" "keeps2 (wifi_card_bmi_read_register h a s)"
    "keeps (wifi_card_bmi_write_register h a v s)"
    "keeps2 (wifi_card_bmi_get_version h s)" "keeps (wifi_card_bmi_cmd_write_memory h a p 4 s)"
  unfolding wifi_card_bmi_start_firmware_def wifi_card_bmi_read_register_def wifi_card_bmi_write_register_def
    wifi_card_bmi_get_version_def wifi_card_bmi_cmd_write_memory_def
  using assms by (auto intro!: keeps_bind keeps_ok keeps_if)

lemma no_data_cmd [simp]: "\<not> cmd_data_length (cmd_simple n r)"
  by (simp add: cmd_simple_def)

lemma keeps_opcond: "iop_wf s \<Longrightarrow> keeps2 (opcond h ocr s)"
proof -
  assume s: "iop_wf s"
  have "iop_wf s \<longrightarrow> iop_wf (snd t)" if "opcond h ocr s = Some t" for t
  proof (rule opcond.raw_induct [OF _ that, where P = "\<lambda>h ocr s t. iop_wf s \<longrightarrow> iop_wf (snd t)"], rule impI)
    fix rec h ocr and s :: "'a iop_scheme" and t
    let ?c = "wifi_card_send_command h (cmd_simple 5 wifi_sdio_resp_48bit_ocr_no_crc7) ocr s"
    assume IH: "\<And>h ocr s t. rec h ocr s = Some t \<Longrightarrow> iop_wf s \<longrightarrow> iop_wf (snd t)"
      and r: "do { s \<leftarrow> ?c;
         if ctx_status (tmio s) AND 4 \<noteq> 0
         then Some (False, wifi_printf [Lit ''Skip opcond...'', Lit [CHR 0x0A]] s)
         else if ctx_status (tmio s) AND 1 = 0 then rec h ocr s
         else if ctx_resp (tmio s) ! 0 AND 0x80000000 \<noteq> 0 then Some (True, s)
         else rec h (ctx_resp (tmio s) ! 0 AND 0xFFFFFF) s } = Some t"
      and s: "iop_wf s"
    from r obtain u where "?c = Some u"
      and u: "(if ctx_status (tmio u) AND 4 \<noteq> 0
         then Some (False, wifi_printf [Lit ''Skip opcond...'', Lit [CHR 0x0A]] u)
         else if ctx_status (tmio u) AND 1 = 0 then rec h ocr u
         else if ctx_resp (tmio u) ! 0 AND 0x80000000 \<noteq> 0 then Some (True, u)
         else rec h (ctx_resp (tmio u) ! 0 AND 0xFFFFFF) u) = Some t" by (auto split: Option.bind_splits)
    with keeps_command [OF s, of "cmd_simple 5 wifi_sdio_resp_48bit_ocr_no_crc7" h ocr]
    have "iop_wf u" by (simp add: keeps_def)
    with u IH show "iop_wf (snd t)" by (auto split: if_splits)
  qed
  with s show ?thesis by (auto simp: keeps2_def)
qed

lemma keeps_firmware_ready: "iop_wf s \<Longrightarrow> keeps (firmware_ready h s)"
proof -
  assume s: "iop_wf s"
  have "iop_wf s \<longrightarrow> iop_wf t" if "firmware_ready h s = Some t" for t
  proof (rule firmware_ready.raw_induct [OF _ that, where P = "\<lambda>h s t. iop_wf s \<longrightarrow> iop_wf t"], rule impI)
    fix rec h and s t :: "'a iop_scheme"
    assume IH: "\<And>h s t. rec h s = Some t \<Longrightarrow> iop_wf s \<longrightarrow> iop_wf t"
      and r: "do { (is_ready, s) \<leftarrow> wifi_card_read_intern_word h (device_host_interest_addr s + 0x58) s;
         if is_ready = 1 then Some s else rec h s } = Some t" and s: "iop_wf s"
    from r obtain v u where "wifi_card_read_intern_word h (device_host_interest_addr s + 0x58) s = Some (v, u)"
      "(if v = 1 then Some u else rec h u) = Some t" by (auto split: Option.bind_splits)
    with keeps_registers(8) [OF s] IH show "iop_wf t" by (auto simp: keeps2_def split: if_splits)
  qed
  with s show ?thesis by (simp add: keeps_def)
qed

lemma iop_wf_switch [simp]: "iop_wf s \<Longrightarrow> iop_wf (wifi_card_switch_device h s)"
proof -
  assume "iop_wf s"
  then have "iop_wf (wifi_sdio_switch_device h s)"
    using iop_wf_quiet [OF quiet_switch_deviceI [OF quiet_refl]] by blast
  then show ?thesis
    by (simp add: wifi_card_switch_device_def iop_wf_def ap_wf_def rx_wf_def card_wf_def sdio_wf_def)
qed

lemma keeps_unless: "iop_wf s \<Longrightarrow> keeps2 m \<Longrightarrow> keeps2 (unless_error s m)"
  by (simp add: unless_error_def)

lemma keeps_address: "iop_wf s \<Longrightarrow> keeps2 (wlan_address h s)"
  unfolding wlan_address_def Let_def
  by (intro keeps_bind keeps_command keeps_unless) (simp_all add: iop_wf_ctx)

lemma keeps_bus: "iop_wf s \<Longrightarrow> keeps2 (wlan_bus h s)"
  unfolding wlan_bus_def Let_def
  by (intro keeps_bind keeps_registers keeps_command keeps_unless) (simp_all add: iop_wf_ctx)


lemma keeps_reset: "iop_wf s \<Longrightarrow> keeps2 (wlan_reset h s)"
proof -
  assume s: "iop_wf s"
  let ?s = "wifi_sdio_stop (ctx_controller (tmio (wifi_printlnf [Lit ''Resetting SDIO...''] s)))
      (wifi_printlnf [Lit ''Resetting SDIO...''] s)"
  have "quiet s ?s" by (intro quiet_intros quiet_refl)
  then have "iop_wf ?s" using s by (simp add: iop_wf_quiet)
  then show ?thesis
    unfolding wlan_reset_def Let_def
    by (intro keeps_bind keeps_opcond keeps_if keeps_address keeps_bus) (simp_all)
qed

lemma keeps_identify: "iop_wf s \<Longrightarrow> keeps2 (wlan_identify h s)"
  unfolding wlan_identify_def Let_def
  by (intro keeps_bind keeps_ok keeps_unless) simp_all

lemma keeps_boot: "iop_wf s \<Longrightarrow> keeps (wlan_boot h s)"
  unfolding wlan_boot_def Let_def
  by (intro keeps_bind keeps_ok) simp_all

lemma keeps_irq: "iop_wf s \<Longrightarrow> keeps (wlan_irq h s)"
proof -
  assume s: "iop_wf s"
  have irq: "iop_wf (wifi_sdio_enable_cardirq h REG_SDIO_BASE True u) = iop_wf u" for u :: "'a iop_scheme"
    by (rule iop_wf_quiet) (intro quiet_intros quiet_refl)
  show ?thesis
    unfolding wlan_irq_def Let_def
    by (intro keeps_bind keeps_firmware_ready keeps_registers s) (simp_all add: irq)
qed

text \<open>Selecting the card configures its context; from there on every step keeps the invariant.\<close>

lemma select_establishes:
  fixes s :: "'a iop_scheme"
  assumes pre: "iop_pre s" and b: "mbox_out_buffer s \<noteq> 0" "mbox_buffer s \<noteq> 0"
    and c: "ctx_controller (tmio s) = REG_SDIO_BASE"
  shows "keeps (wlan_select h s)"
proof -
  let ?s = "s\<lparr>device_curctx := True, tmio := (tmio s)\<lparr>ctx_port := 0, ctx_address := 0, ctx_debug := False,
                 ctx_break_early := False, ctx_block_size := 128\<rparr>\<rparr>"
  have s: "iop_wf ?s"
    using pre b c by (simp add: iop_wf_def iop_pre_def card_wf_def sdio_wf_def rx_wf_def ap_wf_def)
  show ?thesis
    unfolding wlan_select_def Let_def mmio_read16_def prod.case
    by (intro keeps_bind keeps_registers) (use s in \<open>simp_all add: iop_wf_ctx\<close>)
qed

lemma init_start_establishes:
  fixes s :: "'a iop_scheme"
  assumes "iop_pre s" "ctx_controller (tmio s) = REG_SDIO_BASE"
  shows "keeps2 (wlan_init_start h s)"
proof (cases "mbox_out_buffer s = 0 \<or> mbox_buffer s = 0")
  case True
  then show ?thesis by (simp add: wlan_init_start_def keeps2_def)
next
  case False
  show ?thesis
    unfolding wlan_init_start_def if_not_P [OF False]
    by (intro keeps_bind select_establishes keeps_reset keeps_identify keeps_boot keeps_irq keeps_if)
      (use False assms in simp_all)
qed

lemma device_init_establishes:
  fixes s :: "'a iop_scheme"
  assumes "iop_pre s" "wifi_card_device_init h s = Some (r, t)"
  shows "iop_wf t"
proof -
  let ?s = "s\<lparr>tmio := zero_ctx\<lparr>ctx_controller := REG_SDIO_BASE, ctx_clk_cnt := 0, ctx_bus_width := 1\<rparr>\<rparr>"
  have "iop_pre ?s" using assms(1) by (simp add: iop_pre_def rx_wf_def ap_wf_def)
  then have "keeps2 (wlan_init_start h ?s)" by (rule init_start_establishes) simp
  with assms(2) show ?thesis by (simp add: wifi_card_device_init_def keeps2_def)
qed

lemma iop_pre_wf: "iop_wf s \<Longrightarrow> iop_pre s"
  by (auto simp: iop_wf_def iop_pre_def rx_wf_def card_wf_def)

lemma wf_init_finish: "iop_wf s \<Longrightarrow> ok (live h) (wlan_init_finish h s) iop_wf"
  unfolding wlan_init_finish_def
  by (rule ok_wf_xmit [OF wmi_scan_ok]) (simp_all add: iop_wf_card)

end
