(* ===== verification/Driver.thy ===== *)
theory Driver
  imports IopInv
begin

text \<open>
  The ARM7 driver as a whole: the values its variables have when the program is loaded, and
  its correctness theorems. Each theorem speaks of every hardware \<open>h\<close>: in the form
  \<open>ok (live h) m Q\<close> it says that when the call \<open>m\<close> returns, its result satisfies \<open>Q\<close>, and that
  it does return on hardware whose status bits settle.
\<close>

subsection \<open>The initial state\<close>

text \<open>
  The static initialisers of \<^verbatim>\<open>wifi_card.twl.c\<close> and \<^verbatim>\<open>ath/wmi.twl.c\<close>: memory \<open>m\<close>, and the address
  at which the linker puts the aligned buffer.
\<close>

definition iop_static :: "memory \<Rightarrow> u32 \<Rightarrow> iop" where
  "iop_static m small =
    \<lparr>mem = m, tr = [], wifi_printf_allowed = False, tmio = zero_ctx,
     mbox_out_buffer = 0, mbox_buffer = 0, ip_data_out_buf_idx = 0, ip_data_out_buf = 0,
     ip_data_out_buf_totlen = 0, device_curctx = False, device_chip_id = 0, device_manufacturer = 0,
     device_host_interest_addr = 0, device_eeprom_addr = 0, device_eeprom_version = 0,
     wifi_card_bInitted = False, wifi_card_alignedbuf_small = small, mbox_has_lookahead = False,
     mbox_lookahead = 0, wifi_card_nvram_wep_configs = replicate 0x300 0,
     wifi_card_nvram_configs = replicate 0x600 0, wmi_idk = 0,
     ap_security_type = AP_OPEN, device_mac = replicate 6 0, device_num_channels = 0,
     device_cur_channel_idx = 0, channel_freqs = replicate 32 0, ap_found = False, ap_channel = 0,
     ap_bssid = replicate 6 0, ap_caps = 0, ap_name = replicate 33 0, ap_pass = [0],
     ap_wep1 = replicate 16 0, ap_wep2 = replicate 16 0, ap_wep3 = replicate 16 0,
     ap_wep4 = replicate 16 0, ap_wepmode = 0, ap_pmk = replicate 32 0, ap_nvram_idx = 0, ap_snr = 0,
     num_rounds_scanned = 0, ap_group_crypt_type = CRYPT_AES, ap_pair_crypt_type = CRYPT_AES,
     ap_auth_type = AUTH_PSK, wmi_bIsReady = False, scan_done = False, scanning = False,
     sent_connect = False, wmi_bScanning = False, ap_connected = False, has_sent_hs2 = False,
     has_sent_hs4 = False, device_ap_nonce = replicate 32 0, device_nonce = replicate 32 0,
     device_ap_mic = replicate 16 0, device_gtk_keyinfo = gtk_of_bytes (replicate 38 0),
     device_ptk = ptk_of_bytes (replicate 64 0)\<rparr>"

lemma iop_static_pre: "iop_pre (iop_static m small)"
  by (simp add: iop_pre_def iop_static_def ap_wf_def c_string_def ptk_of_bytes_def)

text \<open>A state as it is once the card has been selected: two buffers and the controller's context.\<close>

definition iop_selected :: iop where
  "iop_selected = (iop_static (\<lambda>_. 0) 0x3800000)
     \<lparr>tmio := zero_ctx\<lparr>ctx_controller := REG_SDIO_BASE, ctx_bus_width := 4, ctx_block_size := 128\<rparr>,
      mbox_out_buffer := 0x2000000, mbox_buffer := 0x2000800, device_curctx := True\<rparr>"

lemma iop_selected_wf: "iop_wf iop_selected"
  by (simp add: iop_wf_def iop_selected_def iop_static_def ap_wf_def c_string_def ptk_of_bytes_def
      card_wf_def sdio_wf_def rx_wf_def zero_ctx_def)

lemmas iop_selected_fields = iop_selected_wf [unfolded iop_wf_def]

lemma iop_selected_simps [simp]:
  "card_wf iop_selected" "ap_wf iop_selected" "length (ap_pmk iop_selected) = 32"
  "length (ap_name iop_selected) = 33" "length (kck (device_ptk iop_selected)) = 16"
  "length (tk (device_ptk iop_selected)) = 16" "length (channel_freqs iop_selected) = 32"
  using iop_selected_fields by simp_all

lemma iop_selected_values [simp]:
  "sent_connect iop_selected = False" "device_cur_channel_idx iop_selected = 0" "ap_found iop_selected = False"
  "scanning iop_selected = False" "wmi_idk iop_selected = 0" "tr iop_selected = []"
  by (simp_all add: iop_selected_def iop_static_def)

subsection \<open>The four-way handshake\<close>

text \<open>
  Message 1 of an authenticator, with its nonce \<open>n\<close> and replay counter \<open>r\<close>, for the examples.
\<close>

definition message1 :: "u64 \<Rightarrow> bytes \<Rightarrow> view" where
  "message1 r n = bnth (eapol_body 0x008A r n (replicate 16 0) [])"

lemma message1_keyinfo: "length n = 32 \<Longrightarrow> auth_keyinfo (message1 r n) = 0x008A"
  unfolding message1_def by (rule eapol_body_fields(1)) simp_all

text \<open>
  C1. The driver answers message 1 of the four-way handshake with exactly one data frame, and an
  authenticator that holds the same master key agrees with it: from the nonce in that frame it
  computes the pairwise key the driver stores, the MIC of the frame verifies under that key's
  KCK (HMAC-SHA1 over the frame with the MIC field zeroed), and the frame carries the key
  information of message 2 and the replay counter of message 1.
\<close>

theorem supplicant_message2:
  fixes s :: "'a iop_scheme"
  assumes "card_wf s" "length dev = 6" "length ap = 6" "length (ap_pmk s) = 32" "auth_keyinfo p = 0x008A"
  shows "ok (live h) (data_handle_auth h p l dev ap s) (\<lambda>t. \<exists>f.
     let body = bnth (drop 24 f);
         ptk = wpa_calc_ptk ap dev (auth_nonce p) (auth_nonce body) (ap_pmk s)
     in outputs (tr t) = outputs (tr s) @ [data_tx f] \<and> device_ptk t = ptk
        \<and> mic_verifies (kck ptk) (drop 24 f) \<and> auth_keyinfo body = 0x010A
        \<and> auth_replay body = auth_replay p \<and> device_nonce t = auth_nonce body)"
  using assms by (rule handshake_message2)

theorem supplicant_message2_witness:
  "\<exists>t f. data_handle_auth idle_hw (message1 1 (replicate 32 7)) 99 (replicate 6 2) (replicate 6 3) iop_selected = Some t
     \<and> outputs (tr t) = outputs (tr iop_selected) @ [data_tx f] \<and> mic_verifies (kck (device_ptk t)) (drop 24 f)"
proof -
  have k: "auth_keyinfo (message1 1 (replicate 32 7)) = 0x008A" by (simp add: message1_keyinfo)
  show ?thesis
    using ok_total [OF supplicant_message2 [of iop_selected "replicate 6 2" "replicate 6 3", OF _ _ _ _ k] live_idle_hw]
    unfolding Let_def by simp metis
qed

text \<open>A message of an authenticator that carries key data, for the examples.\<close>

definition key_message :: "u16 \<Rightarrow> u64 \<Rightarrow> bytes \<Rightarrow> view" where
  "key_message ki r keydata = bnth (eapol_body ki r (replicate 32 0) (replicate 16 0) keydata)"

lemma key_message_fields:
  assumes "length kd < 2 ^ 16"
  shows "auth_keyinfo (key_message ki r kd) = ki" "auth_keydata (key_message ki r kd) = kd"
proof -
  show "auth_keyinfo (key_message ki r kd) = ki" unfolding key_message_def by (rule eapol_body_fields(1)) simp_all
  let ?b = "eapol_body ki r (replicate 32 0) (replicate 16 0) kd"
  have l: "length ?b = 99 + length kd" by (simp add: eapol_body_def)
  have d: "drop 97 ?b = putbe16 (of_nat (length kd)) @ kd" by (simp add: eapol_body_def numeral_eq_Suc putbe16_def putbe64_def)
  have m: "key_message ki r kd (97 + i) = (putbe16 (of_nat (length kd)) @ kd) ! i" if "i < 2 + length kd" for i
    using that l by (simp add: key_message_def d [symmetric])
  have "getbe16 (\<lambda>i. key_message ki r kd (97 + i)) = ucast (of_nat (length kd) :: u16)"
    by (rule getbe16_putbe16) (use m in \<open>simp_all add: nth_append\<close>)
  then have n: "unat (getbe16 (\<lambda>i. key_message ki r kd (97 + i))) = length kd" using assms by (simp add: unat_of_nat)
  have "key_message ki r kd (99 + i) = kd ! i" if "i < length kd" for i
    using m [of "2 + i"] that by (simp add: nth_append)
  then show "auth_keydata (key_message ki r kd) = kd" unfolding n by (intro nth_equalityI) simp_all
qed

text \<open>Key data with one group key element, as the authenticator wraps it.\<close>

definition example_kdes :: "(u8 \<times> bytes) list" where
  "example_kdes = [(0xDD, [0x00, 0x0F, 0xAC, 0x01, 1, 0] @ replicate 16 9)]"

lemma example_kdes_ok: "length (concat (map kde example_kdes)) = 24" "\<forall>(t, d) \<in> set example_kdes. length d < 256"
  by (simp_all add: example_kdes_def kde_def)

lemma example_kek: "length (kek (device_ptk iop_selected)) = 16"
  by (simp add: iop_selected_def iop_static_def ptk_of_bytes_def)

lemma idle_calloc: "\<forall>u. hw_calloc idle_hw u"
  by (simp add: idle_hw_def)

lemma example_wrapped:
  obtains c where "wrap_key_data (kek (device_ptk iop_selected)) (concat (map kde example_kdes)) = (0, 32, c)" "length c = 32"
proof -
  have "key_ok (kek (device_ptk iop_selected))" by (simp add: key_ok_def example_kek)
  from kw_unwrap_wrap [OF kw_inverse_ciphers [OF this], of "concat (map kde example_kdes)" 32 "0x200"] that show thesis
    using example_kdes_ok(1) example_kek by (auto simp: wrap_key_data_def)
qed

text \<open>
  C3. The driver answers message 3 of the four-way handshake with message 4, whose MIC verifies under the key agreed on and which
  repeats the replay counter, and only then installs the keys: a synchronisation, the temporal key, the group key unwrapped
  from the key data under the key encryption key, a second synchronisation. The group key it stores is the one the authenticator put into its GTK element.
\<close>

theorem supplicant_message4:
  fixes s :: "'a iop_scheme"
  assumes "card_wf s" "length dev = 6" "length ap = 6" "length (kck (device_ptk s)) \<le> 32" "length (tk (device_ptk s)) \<le> 64"
    and "auth_keyinfo p = 0x13CA" "\<forall>u. hw_calloc h u" "length (kek (device_ptk s)) = 16" "\<forall>(t, d) \<in> set es. length d < 256"
    and "16 \<le> length (concat (map kde es))" "8 dvd length (concat (map kde es))" "length (concat (map kde es)) \<le> 0x200"
    and "wrap_key_data (kek (device_ptk s)) (concat (map kde es)) = (0, m, auth_keydata p)"
    and "gtk = gtk_of_bytes (fold (\<lambda>e out. if is_gtk_kde e then overwrite 0 (snd e) out else out) es (replicate 38 0))"
  shows "ok (live h) (data_handle_auth h p l dev ap s) (\<lambda>t. \<exists>f.
     outputs (tr t) = outputs (tr s) @ [data_tx f]
        @ post_handshake_txs (Some (tk (device_ptk s), gtk, auth_rsc p)) s
     \<and> mic_verifies (kck (device_ptk s)) (drop 24 f) \<and> auth_replay (bnth (drop 24 f)) = auth_replay p
     \<and> auth_keyinfo (bnth (drop 24 f)) = 0x030A \<and> device_gtk_keyinfo t = gtk \<and> has_sent_hs4 t)"
  using assms by (rule handshake_message4)

theorem supplicant_message4_witness:
  "\<exists>kd t. data_handle_auth idle_hw (key_message 0x13CA 2 kd) 131 (replicate 6 2) (replicate 6 3) iop_selected = Some t
     \<and> keyidx (device_gtk_keyinfo t) = 1 \<and> has_sent_hs4 t"
proof -
  obtain c where c: "wrap_key_data (kek (device_ptk iop_selected)) (concat (map kde example_kdes)) = (0, 32, c)" "length c = 32"
    by (rule example_wrapped)
  note f = key_message_fields [of c "0x13CA" 2, unfolded c(2), simplified]
  note w = supplicant_message4 [of iop_selected "replicate 6 2" "replicate 6 3" "key_message 0x13CA 2 c" idle_hw example_kdes 32 _ 131,
      OF _ _ _ _ _ f(1) idle_calloc example_kek]
  show ?thesis
    using ok_total [OF w live_idle_hw] c f(2) example_kdes_ok
    by (intro exI [of _ c]) (auto simp: example_kdes_def is_gtk_kde_def gtk_of_bytes_def overwrite_def)
qed

text \<open>
  C22. The group key is renewed: a group key message is answered by a frame with a valid MIC and the same replay counter, after which the temporal key in use and the new group
  key, the one the authenticator wrapped, are installed.
\<close>

theorem group_key_renewed:
  fixes s :: "'a iop_scheme"
  assumes "card_wf s" "length dev = 6" "length ap = 6" "length (kck (device_ptk s)) \<le> 32" "length (tk (device_ptk s)) \<le> 64"
    and "auth_keyinfo p = 0x1382" "\<forall>u. hw_calloc h u" "length (kek (device_ptk s)) = 16" "\<forall>(t, d) \<in> set es. length d < 256"
    and "16 \<le> length (concat (map kde es))" "8 dvd length (concat (map kde es))" "length (concat (map kde es)) \<le> 0x200"
    and "wrap_key_data (kek (device_ptk s)) (concat (map kde es)) = (0, m, auth_keydata p)"
    and "gtk = gtk_of_bytes (fold (\<lambda>e out. if is_gtk_kde e then overwrite 0 (snd e) out else out) es (replicate 38 0))"
  shows "ok (live h) (data_handle_auth h p l dev ap s) (\<lambda>t. \<exists>f.
     outputs (tr t) = outputs (tr s) @ [data_tx f]
        @ post_handshake_txs (Some (tk (device_ptk s), gtk, auth_rsc p)) s
     \<and> mic_verifies (kck (device_ptk s)) (drop 24 f) \<and> auth_replay (bnth (drop 24 f)) = auth_replay p
     \<and> auth_keyinfo (bnth (drop 24 f)) = 0x0302 \<and> device_gtk_keyinfo t = gtk \<and> has_sent_hs4 t)"
  using assms by (rule group_message_answered)

theorem group_key_renewed_witness:
  "\<exists>kd t. data_handle_auth idle_hw (key_message 0x1382 2 kd) 131 (replicate 6 2) (replicate 6 3) iop_selected = Some t
     \<and> keyidx (device_gtk_keyinfo t) = 1"
proof -
  obtain c where c: "wrap_key_data (kek (device_ptk iop_selected)) (concat (map kde example_kdes)) = (0, 32, c)" "length c = 32"
    by (rule example_wrapped)
  note f = key_message_fields [of c "0x1382" 2, unfolded c(2), simplified]
  note w = group_key_renewed [of iop_selected "replicate 6 2" "replicate 6 3" "key_message 0x1382 2 c" idle_hw example_kdes 32 _ 131,
      OF _ _ _ _ _ f(1) idle_calloc example_kek]
  show ?thesis
    using ok_total [OF w live_idle_hw] c f(2) example_kdes_ok
    by (intro exI [of _ c]) (auto simp: example_kdes_def is_gtk_kde_def gtk_of_bytes_def overwrite_def)
qed

text \<open>
  An EAPOL-Key frame that is neither message 1, message 3 nor a group key message is dropped:
  the handler returns, and nothing is sent, no key is touched and no variable changes.
\<close>

theorem other_key_frames_ignored:
  fixes s :: "'a iop_scheme"
  assumes "auth_keyinfo p \<notin> {0x008A, 0x13CA, 0x1382}"
  shows "\<exists>t. data_handle_auth h p l dev ap s = Some t \<and> quiet s t \<and> outputs (tr t) = outputs (tr s)
     \<and> device_ptk t = device_ptk s \<and> device_gtk_keyinfo t = device_gtk_keyinfo s"
proof -
  obtain t where t: "data_handle_auth h p l dev ap s = Some t" "quiet s t"
    using handle_auth_other [OF assms, of h l dev ap s] by blast
  from out_quiet [OF t(2)] iop_of_more [OF quiet_more [OF t(2)]] show ?thesis
    by (intro exI [of _ t] conjI t)
qed

theorem other_key_frames_ignored_witness:
  "\<exists>t. data_handle_auth idle_hw (\<lambda>_. 0) 99 (replicate 6 2) (replicate 6 3) iop_selected = Some t
     \<and> outputs (tr t) = outputs (tr iop_selected)"
proof -
  have "auth_keyinfo (\<lambda>_. 0) \<notin> {0x008A, 0x13CA, 0x1382}" by (simp add: getbe16_def)
  from other_key_frames_ignored [OF this, of idle_hw 99 "replicate 6 2" "replicate 6 3" iop_selected] show ?thesis by blast
qed

subsection \<open>Frames to the card\<close>

text \<open>
  C24. A packet handed to the mailbox goes out as exactly one DMA block. The block is read from the transmit buffer: the six bytes of header
  (type, acknowledgement flag, length and a tag, little endian), the data, and then what the buffer held before, up to a whole number
  \<open>n\<close> of 128-byte blocks. The last command to the controller before it is a CMD53 block write to function 1
  at address 0x4000 - \<open>n\<close>, so that the frame ends where the mailbox window ends, with \<open>n\<close> / 128 blocks in the argument and
  in both block counters. Nothing else is put out and, apart from the transmit buffer, no memory and no variable changes.
\<close>

theorem mailbox_frame:
  fixes s :: "'a card_scheme"
  assumes "card_wf s" "unat len \<le> 0x600 - 6" "payload 6 s p len data"
  shows "ok (live h) (wifi_card_mbox0_send_packet h ty ack p len idk s) (\<lambda>t. xmit [Tx ty ack len idk data] s t
     \<and> (let frame = [ty, ack] @ putle16 len @ putle16 idk @ data; b = mbox_out_buffer s; n = (length frame + 127) div 128 * 128;
            pad = mem_read (mem s) (b + of_nat (length frame)) (n - length frame);
            args = 0x9C000000 OR push_bit 9 (of_nat (0x4000 - n)) OR of_nat (n div 128)
        in block_out args (of_nat n) b (frame @ pad) s t))"
  using send_packet_block [OF assms, of h ty ack idk] by (simp add: frame_out_def padded_def mbox_args_def Let_def)

theorem mailbox_frame_witness:
  "\<exists>t. wifi_card_mbox0_send_packet idle_hw 2 0 (Local [1, 2, 3]) 3 0x2008 iop_selected = Some t
     \<and> outputs (tr t) = outputs (tr iop_selected) @ [Tx 2 0 3 0x2008 [1, 2, 3]]
     \<and> block_out 0x9C7F0001 0x80 0x2000000 ([2, 0, 3, 0, 8, 0x20, 1, 2, 3] @ replicate 119 0) iop_selected t"
proof -
  have b: "mbox_out_buffer iop_selected = 0x2000000" "mem_read (mem iop_selected) a n = replicate n 0" for a n
    by (simp add: iop_selected_def, rule nth_equalityI) (simp_all add: nth_mem_read iop_selected_def iop_static_def)
  have args: "0x9C000000 OR push_bit 9 (of_nat (0x4000 - 128)) OR of_nat (128 div 128) = (0x9C7F0001 :: u32)" by simp
  have tag: "(0x2008 :: u8) = 8" by simp
  from ok_total [OF mailbox_frame [of iop_selected 3 "Local [1, 2, 3]" "[1, 2, 3]" idle_hw 2 0 "0x2008"] live_idle_hw]
  show ?thesis using args by (auto simp: xmit_def Let_def b putle16_def tag)
qed

text \<open>
  C21. Connecting to the chosen access point: the driver sends the whole sequence of configuration
  commands, the WEP keys when the access point uses them, and the connect command with the parameters it builds
  from the chosen access point (\<open>connect_params\<close>), in that order and nothing else.
\<close>

theorem connect_sequence:
  fixes s :: "'a iop_scheme"
  assumes "card_wf s" "ap_wf s" "device_num_channels s \<noteq> 0" "ready_to_connect s" "\<not> sent_connect s"
  shows "ok (live h) (wmi_scantick h s) (xmit (connect_seq s) (s\<lparr>wmi_idk := 0, sent_connect := True\<rparr>))"
  using assms by (rule scantick_connects)

theorem connect_sequence_witness:
  "let s = iop_selected\<lparr>device_num_channels := 1, ap_found := True, num_rounds_scanned := 4\<rparr>
   in \<exists>t. wmi_scantick idle_hw s = Some t \<and> sent_connect t \<and> outputs (tr t) = outputs (tr s) @ connect_seq s"
proof -
  let ?s = "iop_selected\<lparr>device_num_channels := 1, ap_found := True, num_rounds_scanned := 4\<rparr>"
  have wf: "card_wf ?s" "ap_wf ?s" using iop_selected_fields by (simp_all add: ap_wf_def)
  have "ok (live idle_hw) (wmi_scantick idle_hw ?s) (xmit (connect_seq ?s) (?s\<lparr>wmi_idk := 0, sent_connect := True\<rparr>))"
    by (intro connect_sequence wf) (simp_all add: ready_to_connect_def)
  from ok_total [OF this live_idle_hw] obtain t where t: "wmi_scantick idle_hw ?s = Some t"
    "xmit (connect_seq ?s) (?s\<lparr>wmi_idk := 0, sent_connect := True\<rparr>) t" by blast
  then show ?thesis using xmit_same_iop(3) [OF t(2)] by (auto simp: xmit_def Let_def)
qed

text \<open>
  A round of scanning: from channel 0 on, with no access point found yet, the ticks and the
  scan-complete events that answer them probe every channel of the regulatory domain once, in
  order, skipping the empty entries, and end the round with the index back at 0 and the round counted.
\<close>

theorem scan_round:
  fixes s :: "'a iop_scheme"
  assumes "scan_ready n fs s" "device_cur_channel_idx s = 0" "0 < n" "n < length fs" "n < 255"
  shows "ok (live h) (scan_run h (Suc n) s) (\<lambda>t. outputs (tr t) = outputs (tr s) @ probes (take (Suc n) fs)
     \<and> device_cur_channel_idx t = 0 \<and> num_rounds_scanned t = num_rounds_scanned s + 1)"
  by (rule ok_mono [OF scan_run_from [OF assms(1), of 0]]) (use assms in simp_all)

theorem scan_round_witness:
  "let s = iop_selected\<lparr>device_num_channels := 2, wmi_bScanning := True, channel_freqs := [2412, 0, 2437]\<rparr>
   in \<exists>t. scan_run idle_hw 3 s = Some t \<and> outputs (tr t) = outputs (tr s) @ probe_txs 0 2412 @ probe_txs 0 2437"
proof -
  let ?s = "iop_selected\<lparr>device_num_channels := 2, wmi_bScanning := True, channel_freqs := [2412, 0, 2437]\<rparr>"
  have r: "scan_ready 2 [2412, 0, 2437] ?s" "device_cur_channel_idx ?s = 0"
    by (simp_all add: scan_ready_def)
  have p: "probes (take (Suc 2) [2412, 0, 2437]) = probe_txs 0 2412 @ probe_txs 0 2437"
    by (simp add: probes_def)
  show ?thesis
    using ok_total [OF scan_round [OF r, of idle_hw] live_idle_hw] p by (auto simp: Let_def numeral_3_eq_3)
qed

subsection \<open>Choosing an access point\<close>

text \<open>
  C10. What a beacon or probe response can do to the choice of the access point. Either the choice, the
  settings and the output are left alone, or the frame is long enough and strong enough (SNR at
  least 32), its access point is now the chosen one with a strictly larger SNR than before, with
  its BSSID and channel, is not plain WPA, and its SSID is that of a usable setting of the
  console whose credentials are now loaded, and one command turns the BSS filter off. A WEP or open setting
  is chosen only while nothing has been found.
\<close>

theorem access_point_choice:
  fixes s :: "'a iop_scheme"
  assumes "card_wf s" "length (ap_name s) = 33"
  shows "ok (live h) (wmi_handle_bss_info h p len s) (\<lambda>t. length (ap_name t) = 33
     \<and> (kept s t \<or> len > 0x1C \<and> p 3 \<ge> 0x20
          \<and> (wpa_choice p (loc_tmp (bss_elements p len)) s t
              \<or> \<not> ap_found s \<and> wep_choice p (loc_tmp (bss_elements p len)) s t)))"
  using assms by (rule wmi_handle_bss_info_ok)

theorem access_point_choice_witness:
  "\<exists>t. wmi_handle_bss_info idle_hw (\<lambda>_. 0) 0x30 iop_selected = Some t \<and> kept iop_selected t"
  using ok_total [OF access_point_choice [where s = iop_selected and h = idle_hw and p = "\<lambda>_. 0" and len = "0x30"] live_idle_hw] by auto

text \<open>
  C37. An access point that matches a usable WPA setting and is stronger than the current choice but
  is then turned down (no RSN element where one is needed, or plain WPA) still leaves its mark: the choice stays
  with the earlier access point, while the network name, the setting's index and the master key
  are already those of the rejected one.
\<close>

theorem rejected_access_point_credentials:
  assumes "usable_wpa s i" "c_string (loc_tmp l) = c_string (ssid_wpa s i)" "bss_snr p > ap_snr s"
    and "length (ap_name s) = 33" and "try_wpa h p i l s = Some (False, l', t)"
  shows "kept s t \<and> credentials_wpa i s t"
  using try_wpa_rejected [OF assms] by simp

text \<open>A flash setting for the network \<open>A\<close> with a passphrase and security type 4, and an access point of that name without an RSN element.\<close>

definition flash_A :: bytes where
  "flash_A = replicate 64 0 @ [65] @ replicate 167 0 @ [1] @ replicate 6 0 @ [1] @ replicate 48 0 @ [66]
     @ replicate 96 0 @ [4] @ replicate 1150 0"

lemma flash_A_fields:
  fixes s :: "'a iop_scheme"
  assumes "wifi_card_nvram_configs s = flash_A"
  shows "usable_wpa s 0" "c_string (ssid_wpa s 0) = [65]" "bnth (cfg_wpa s 0 0x120 0x40) 0 = 66"
    "bnth (cfg_wpa s 0 0x181 1) 0 = 4" "bnth (cfg_wpa s 0 0xE6 1) 0 = 0"
  using assms by (simp_all add: usable_wpa_def ssid_wpa_def cfg_wpa_def flash_A_def c_string_def overwrite_def strncpy_def Let_def)

theorem rejected_access_point_credentials_witness:
  "let s = iop_selected\<lparr>wifi_card_nvram_configs := flash_A\<rparr>; l = bss_start\<lparr>loc_tmp := [65, 0]\<rparr>
   in \<exists>l' t. try_wpa idle_hw (\<lambda>_. 0x40) 0 l s = Some (False, l', t) \<and> \<not> ap_found t \<and> c_string (ap_name t) = [65]"
proof -
  let ?s = "iop_selected\<lparr>wifi_card_nvram_configs := flash_A\<rparr>" and ?l = "bss_start\<lparr>loc_tmp := [65, 0]\<rparr>"
  note f = flash_A_fields [of ?s, simplified]
  have g: "c_string (loc_tmp ?l) = c_string (ssid_wpa ?s 0)" "bss_snr (\<lambda>_. 0x40) > ap_snr ?s" "length (ap_name ?s) = 33"
    using f by (simp_all add: c_string_def iop_selected_def iop_static_def)
  obtain l' t where t: "try_wpa idle_hw (\<lambda>_. 0x40) 0 ?l ?s = Some (False, l', t)"
    using f g by (simp add: try_wpa_def load_wpa_def missing_rsn_def bss_start_def Let_def cfg_wpa_def)
  from rejected_access_point_credentials [OF f(1) g t] f(2) show ?thesis
    using t by (auto simp: kept_def credentials_wpa_def Let_def)
qed

text \<open>
  The pairwise cipher taken from an RSN element is AES exactly when AES is one of the listed
  suites, wherever it stands (or the list is empty and AES was the value before).
\<close>

theorem aes_preferred:
  "pick_pair p off n c = CRYPT_AES \<longleftrightarrow>
     (\<exists>k < n. wmi_ieee_to_crypt (getbe32 (\<lambda>j. p (off + 4 * k + j))) = CRYPT_AES) \<or> n = 0 \<and> c = CRYPT_AES"
  by (rule pick_pair_AES)

subsection \<open>Losing the access point\<close>

lemma xmit_forget:
  fixes s t :: "'a iop_scheme"
  assumes "xmit os s t"
  shows "xmit os (s\<lparr>ap_found := b\<rparr>) (t\<lparr>ap_found := b\<rparr>)" "xmit os (s\<lparr>ap_connected := b\<rparr>) (t\<lparr>ap_connected := b\<rparr>)"
    "xmit os (s\<lparr>num_rounds_scanned := n\<rparr>) (t\<lparr>num_rounds_scanned := n\<rparr>)"
  using assms by (cases s; cases t; simp add: xmit_def)+

lemma wmi_rescan_ok:
  fixes s :: "'a iop_scheme"
  assumes wf: "card_wf s"
  shows "ok (live h) (wmi_rescan h s) (xmit
     ([wmi_tx (wmi_idk s) WMI_DISCONNECT_CMD (putle32 0)] @ [wmi_tx (wmi_idk s) WMI_DELETE_BAD_AP_CMD [0]] @ scan_txs (wmi_idk s))
     (s\<lparr>ap_found := False, ap_connected := False, sent_connect := False, num_rounds_scanned := 0, wmi_bScanning := True\<rparr>))"
proof -
  let ?g = "\<lambda>s :: 'a iop_scheme. s\<lparr>wmi_bScanning := True\<rparr>"
  let ?s = "s\<lparr>ap_found := False, ap_connected := False, sent_connect := False, num_rounds_scanned := 0\<rparr>"
  have w: "card_wf ?s" using wf by simp
  have scan: "ok (live h) (wmi_scan h u) (xmit (scan_txs (wmi_idk s)) (?g u))" if "card_wf u" "same_ap ?s u" for u
    using wmi_scan_ok [OF that(1), of h] that(2) by (simp add: same_ap_def)
  have "ok (live h) (wmi_rescan h s) (xmit
     ([wmi_tx (wmi_idk ?s) WMI_DISCONNECT_CMD (putle32 0)] @ [wmi_tx (wmi_idk ?s) WMI_DELETE_BAD_AP_CMD [0]] @ scan_txs (wmi_idk s))
     (?g ?s))"
    unfolding wmi_rescan_def wmi_disconnect_cmd_def wmi_delete_bad_ap_cmd_def Let_def
    by (intro x_bind_upd [where r = ?s and g = ?g] x_send [where r = ?s] xmit_upd w same_ap_refl scan;
        (assumption | simp))
  then show ?thesis by simp
qed

text \<open>
  A disconnect event after the association, for one of the reasons 1, 4 and 5, makes the driver
  leave the access point and look for one again: it sends the disconnect command, the command that clears the list
  of bad access points and the commands that start a scan, and forgets the access point and the rounds scanned so far.
\<close>

theorem disconnect_rescans:
  fixes s :: "'a iop_scheme"
  assumes "card_wf s" "ap_connected s" "p 8 \<in> {1, 4, 5}"
  shows "ok (live h) (handle_disconnect h p s) (xmit
     ([wmi_tx (wmi_idk s) WMI_DISCONNECT_CMD (putle32 0)] @ [wmi_tx (wmi_idk s) WMI_DELETE_BAD_AP_CMD [0]] @ scan_txs (wmi_idk s))
     (s\<lparr>ap_found := False, ap_connected := False, sent_connect := False, num_rounds_scanned := 0, wmi_bScanning := True\<rparr>))"
proof -
  let ?s = "wifi_printlnf [Lit ''WMI_DISCONNECT '', Hex 4 (getle16 p), Lit '' '', hex2 p 2, Lit '':'',
                hex2 p 3, Lit '':'', hex2 p 4, Lit ''.. '', Hex 2 (ucast (p 8))] s"
  let ?f = "\<lambda>s :: 'a iop_scheme. s\<lparr>ap_found := False, ap_connected := False, sent_connect := False, num_rounds_scanned := 0, wmi_bScanning := True\<rparr>"
  have x: "xmit [] (?f s) (?f ?s)"
    by (intro xmit_upd xmit_forget xmit_quiet quiet_wifi_printlnf)
  have "handle_disconnect h p s = wmi_rescan h ?s"
    using assms by (auto simp: handle_disconnect_def Let_def)
  then show ?thesis
    using wmi_rescan_ok [of ?s h] assms(1) xmit_trans [OF x] by (auto elim!: ok_mono)
qed

theorem disconnect_rescans_witness:
  "let s = iop_selected\<lparr>ap_connected := True, ap_found := True\<rparr>
   in \<exists>t. handle_disconnect idle_hw (\<lambda>_. 4) s = Some t \<and> \<not> ap_found t"
proof -
  let ?s = "iop_selected\<lparr>ap_connected := True, ap_found := True\<rparr>"
  obtain t where t: "handle_disconnect idle_hw (\<lambda>_. 4) ?s = Some t"
    "xmit ([wmi_tx (wmi_idk ?s) WMI_DISCONNECT_CMD (putle32 0)] @ [wmi_tx (wmi_idk ?s) WMI_DELETE_BAD_AP_CMD [0]] @ scan_txs (wmi_idk ?s))
     (?s\<lparr>ap_found := False, ap_connected := False, sent_connect := False, num_rounds_scanned := 0, wmi_bScanning := True\<rparr>) t"
    using ok_total [OF disconnect_rescans [of ?s "\<lambda>_. 4"] live_idle_hw] by auto
  show ?thesis using t(1) xmit_same_iop(1) [OF t(2)] by (simp add: Let_def)
qed

subsection \<open>Installing the keys\<close>

text \<open>
  After the handshake of a WPA2 network, the driver sends, in this order and nothing else: a
  synchronisation, two empty data frames, the pairwise key with index 0, the group key with its index and its receive
  sequence counter, a second synchronisation; only then is the ARM9 told that the network is ready.
\<close>

theorem keys_installed_in_order:
  fixes s :: "'a iop_scheme"
  assumes "card_wf s" "ap_security_type s = AP_WPA2" "length key \<le> 64" "length (gtk_key gtk) \<le> 64"
  shows "ok (live h) (wmi_post_handshake h (Some (key, gtk, rsc)) s) (xmit
     [wmi_tx (wmi_idk s) WMI_SYNCHRONIZE_CMD [1], data_tx (putle16 0x0200), data_tx (putle16 0x0200),
      key_tx (wmi_idk s) 0 0 key (replicate 8 0) s, key_tx (wmi_idk s) (keyidx gtk) 1 (gtk_key gtk) (take 8 rsc) s,
      wmi_tx (wmi_idk s) WMI_SYNCHRONIZE_CMD [1], Msg WIFI_IPCINT_READY []] s)"
  using wmi_post_handshake_ok [OF assms(1), of "Some (key, gtk, rsc)" h] assms(2-)
  by (simp add: post_handshake_txs_def install_txs_def)

theorem keys_installed_in_order_witness:
  "let s = iop_selected\<lparr>ap_security_type := AP_WPA2\<rparr>
   in \<exists>t. wmi_post_handshake idle_hw (Some (replicate 16 1, gtk_of_bytes (replicate 38 2), replicate 8 0)) s = Some t
        \<and> last (outputs (tr t)) = Msg WIFI_IPCINT_READY []"
  using ok_total [OF keys_installed_in_order [of "iop_selected\<lparr>ap_security_type := AP_WPA2\<rparr>"
      "replicate 16 1" "gtk_of_bytes (replicate 38 2)" idle_hw "replicate 8 0"] live_idle_hw]
  by (auto simp: xmit_def gtk_of_bytes_def)

subsection \<open>Receiving\<close>

text \<open>
  C8. Whatever packets the card delivers, and however the service connection nests the reads, a
  read that returns leaves the driver in a well-formed state: controller context, buffers, ring index, name, keys
  and tables all keep the sizes and alignments the other operations rely on.
\<close>

theorem readpkt_keeps_invariant:
  fixes s :: "'a iop_scheme"
  assumes "wifi_card_mbox0_readpkt h s = Some (n, t)" "iop_wf s"
  shows "iop_wf t"
  using readpkt_wf [OF assms] by simp



theorem readpkt_keeps_invariant_witness:
  "let s = iop_selected\<lparr>mbox_has_lookahead := True, mbox_lookahead := 0x00100001\<rparr>
   in \<exists>n t. wifi_card_mbox0_readpkt idle_hw s = Some (n, t) \<and> iop_wf t"
proof -
  let ?s = "iop_selected\<lparr>mbox_has_lookahead := True, mbox_lookahead := 0x00100001\<rparr>"
  have wf: "iop_wf ?s" by (simp add: iop_selected_wf)
  have "ok (live idle_hw) (wifi_card_mbox0_readpkt idle_hw ?s) (\<lambda>r. iop_wf (snd r))"
    by (rule readpkt_returns) (simp_all add: iop_selected_wf)
  from ok_total [OF this live_idle_hw] obtain n t where "wifi_card_mbox0_readpkt idle_hw ?s = Some (n, t)" by auto
  then show ?thesis using readpkt_keeps_invariant [OF _ wf] by (auto simp: Let_def)
qed

text \<open>
  \<open>empty_polls h n s t\<close>: \<open>n\<close> polls of the status register lead from \<open>s\<close> to \<open>t\<close>, and each finds the receive FIFO empty.
\<close>

primrec empty_polls :: "hw \<Rightarrow> nat \<Rightarrow> 'a card_scheme \<Rightarrow> 'a card_scheme \<Rightarrow> bool" where
  "empty_polls h 0 s t \<longleftrightarrow> t = s"
| "empty_polls h (Suc n) s t \<longleftrightarrow> (\<exists>v u. wifi_card_read_func1_u8 h F1_HOST_INT_STATUS s = Some (v, u)
     \<and> v AND 1 = 0 \<and> empty_polls h n u t)"

lemma wait_empty_polls:
  "empty_polls h n s t \<Longrightarrow> n \<le> unat timeout \<Longrightarrow> readpkt_wait h timeout s = readpkt_wait h (timeout - of_nat n) t"
proof (induction n arbitrary: s timeout)
  case (Suc n)
  from Suc.prems(1) obtain v u where u: "wifi_card_read_func1_u8 h F1_HOST_INT_STATUS s = Some (v, u)" "v AND 1 = 0"
    "empty_polls h n u t" by auto
  have "timeout \<noteq> 0" using Suc.prems(2) by auto
  then have "unat (timeout - 1) = unat timeout - 1" by (rule unat_minus_one)
  with Suc.IH [OF u(3), of "timeout - 1"] Suc.prems(2) u(1,2) \<open>timeout \<noteq> 0\<close> show ?case
    by (simp add: readpkt_wait.simps [of h timeout s] Let_def diff_diff_eq)
qed simp

text \<open>
  For the example, a controller that is never busy and a card whose status shows data from the \<open>n\<close>-th command on.
\<close>

definition command_event :: "event \<Rightarrow> bool" where
  "command_event e \<longleftrightarrow> (case e of W16 b v \<Rightarrow> b = 0x4004A00 | _ \<Rightarrow> False)"

lemma command_event_simps [simp]:
  "command_event (R16 a v) = False" "command_event (W16 a v) = (a = 0x4004A00)"
  by (simp_all add: command_event_def)

abbreviation commands :: "event list \<Rightarrow> nat" where
  "commands t \<equiv> length (filter command_event t)"

definition late_hw :: "nat \<Rightarrow> hw" where
  "late_hw n = idle_hw\<lparr>hw_r16 := (\<lambda>t a. if a = 0x4004A1C then 5
     else if a = 0x4004A0C \<and> n \<le> commands t then 1 else 0)\<rparr>"

lemma late_r16 [simp]:
  "hw_r16 (late_hw n) t a = (if a = 0x4004A1C then 5 else if a = 0x4004A0C \<and> n \<le> commands t then 1 else 0)"
  by (simp add: late_hw_def)

lemma late_poll: "poll16 (late_hw n) 0x4004A1E m s = Some (emit (R16 0x4004A1E 0) s)"
  by (subst poll16.simps) (simp add: mmio_read16_def Let_def)

lemma late_wait:
  assumes "ctx_controller (tmio s) = 0x4004A00"
  shows "sdio_wait (late_hw n) cmd52 1 0 sz s = Some (or_status 2 (or_status 1
     (emit (R16 0x4004A1C 5) (emit (R16 0x4004B00 0) (emit (R16 0x4004A1E 0) s)))))"
  using assms by (subst sdio_wait_turn)
    (simp add: sdio_turn_def sdio_end_def wifi_sdio_read16_def mmio_read16_def Let_def cmd52_def)

lemma access_simps [simp]:
  "tmio (snd (wifi_sdio_read16 h c r s)) = tmio s" "commands (tr (snd (wifi_sdio_read16 h c r s))) = commands (tr s)"
  "fst (wifi_sdio_read16 h c r s) = hw_r16 h (tr s) (c + r)"
  "tmio (wifi_sdio_write16 c r v s) = tmio s" "tmio (snd (sdio_response h i s)) = tmio s"
  "commands (tr (snd (sdio_response h i s))) = commands (tr s)"
  by (simp_all add: wifi_sdio_read16_def mmio_read16_def wifi_sdio_write16_def sdio_response_def Let_def split_beta)

lemma write_commands: "commands (tr (wifi_sdio_write16 c r v s)) = (if c + r = 0x4004A00 then Suc (commands (tr s)) else commands (tr s))"
  by (simp add: wifi_sdio_write16_def)

lemma late_response:
  "ctx_controller (tmio s) = 0x4004A00 \<Longrightarrow> fst (sdio_response (late_hw n) 0 s) = (if n \<le> commands (tr s) then 1 else 0)"
  by (simp add: sdio_response_def Let_def split_beta)

lemma late_finish:
  assumes "ctx_controller (tmio w) = 0x4004A00" "\<not> ctx_debug (tmio w)"
  shows "ctx_status (tmio (sdio_finish (late_hw n) cmd52 w)) = ctx_status (tmio w)"
    "ctx_resp (tmio (sdio_finish (late_hw n) cmd52 w)) ! 0 = (if n \<le> commands (tr w) then 1 else 0)"
    "commands (tr (sdio_finish (late_hw n) cmd52 w)) = commands (tr w)"
  using assms unfolding sdio_finish_def Let_def split_beta
  by (simp_all add: cmd52_def late_response write_commands)

lemma late_command:
  fixes s :: "'a card_scheme"
  assumes "card_wf s"
  shows "\<exists>u. wifi_card_send_command (late_hw n) cmd52 args s = Some u
     \<and> ctx_status (tmio u) AND 4 = 0 \<and> ctx_resp (tmio u) ! 0 = (if n \<le> Suc (commands (tr s)) then 1 else 0)
     \<and> commands (tr u) = Suc (commands (tr s))"
proof -
  have c: "ctx_controller (tmio s) = 0x4004A00" "ctx_block_size (tmio s) = 128" "\<not> ctx_debug (tmio s)" "device_curctx s"
    using assms by (simp_all add: card_wf_def sdio_wf_def)
  let ?u = "emit (R16 0x4004A1E 0) (set_buffer 0 s\<lparr>tmio := (tmio (set_buffer 0 s))\<lparr>ctx_status := 0\<rparr>\<rparr>)"
  let ?v = "sdio_setup cmd52 args (ctx_size (tmio s)) ?u"
  let ?w = "or_status 2 (or_status 1 (emit (R16 0x4004A1C 5) (emit (R16 0x4004B00 0) (emit (R16 0x4004A1E 0) ?v))))"
  have v: "tr ?v = [W16 0x4004A00 (cmd_raw cmd52), W16 0x4004B08 (ucast (ctx_size (tmio s) div 128)), W16 0x4004B04 128, W16 0x4004A0A (ucast (ctx_size (tmio s) div 128)),
      W16 0x4004A26 128, W16 0x4004A06 (ucast (drop_bit 16 args)), W16 0x4004A04 (ucast (args AND 0xFFFF)), W16 0x4004A1E 0, W16 0x4004A1C 0] @ R16 0x4004A1E 0 # tr s"
    "tmio ?v = (tmio s)\<lparr>ctx_buffer := 0, ctx_status := 0\<rparr>"
    using c by (simp_all add: sdio_setup_def set_buffer_def wifi_sdio_write16_def Let_def cmd52_def)
  have "wifi_card_send_command (late_hw n) cmd52 args s = Some (sdio_finish (late_hw n) cmd52 ?w)"
    using c late_wait [of ?v n "ctx_size (tmio s)"] v
    by (simp add: wifi_card_send_command_def wifi_sdio_send_command_def set_buffer_def Let_def late_poll cmd52_def)
  moreover have "commands (tr ?w) = Suc (commands (tr s))" "ctx_status (tmio ?w) = 3" "ctx_controller (tmio ?w) = 0x4004A00"
    "\<not> ctx_debug (tmio ?w)"
    using v c by (simp_all add: or_status_def)
  ultimately show ?thesis using late_finish [of ?w n] by simp
qed

lemma late_read:
  fixes s :: "'a card_scheme"
  assumes "card_wf s"
  shows "\<exists>u. wifi_card_read_func1_u8 (late_hw n) a s = Some (if n \<le> Suc (commands (tr s)) then 1 else 0, u)
     \<and> card_wf u \<and> commands (tr u) = Suc (commands (tr s))"
proof -
  obtain u where u: "wifi_card_send_command (late_hw n) cmd52 (push_bit 28 1 OR push_bit 9 (a AND 0x1FFFF)) s = Some u"
    "ctx_status (tmio u) AND 4 = 0" "ctx_resp (tmio u) ! 0 = (if n \<le> Suc (commands (tr s)) then 1 else 0)"
    "commands (tr u) = Suc (commands (tr s))" using late_command [OF assms] by blast
  have "quiet s u" using ok_partial [OF send_command_ok [OF assms] u(1)] by simp
  moreover have "device_curctx s" using assms by (simp add: card_wf_def)
  ultimately show ?thesis using u assms by (auto simp: wifi_card_read_func1_u8_def wifi_card_read_func_byte_def quiet_card card_wf_quiet)
qed
lemma late_polls:
  fixes s :: "'a card_scheme"
  assumes "card_wf s" "k + commands (tr s) < n"
  shows "\<exists>t. empty_polls (late_hw n) k s t \<and> card_wf t \<and> commands (tr t) = k + commands (tr s)"
  using assms
proof (induction k arbitrary: s)
  case (Suc k)
  from late_read [OF Suc.prems(1), of n F1_HOST_INT_STATUS] Suc.prems(2) obtain u where
    u: "wifi_card_read_func1_u8 (late_hw n) F1_HOST_INT_STATUS s = Some (0, u)" "card_wf u" "commands (tr u) = Suc (commands (tr s))"
    by auto
  from Suc.IH [OF u(2)] u(1,3) Suc.prems(2) show ?case by auto
qed simp

text \<open>
  C40. How \<^verbatim>\<open>wifi_card_mbox0_readpkt\<close> treats its wait of at most 100 status polls. When all 100 find the receive FIFO empty it does not report
  a timeout but goes on to read a packet header, since \<^verbatim>\<open>while (timeout--)\<close> ends with the counter at -1; when
  the last of the 100 polls is the first to find data, it returns 0 at once as if it had timed out, and leaves the packet in the card. When an
  earlier poll finds data, the packet is read.
\<close>

theorem readpkt_timeout_inverted:
  fixes s :: "'a iop_scheme"
  shows "(empty_polls h 100 s t
        \<longrightarrow> wifi_card_mbox0_readpkt h s = readpkt_packet h (wifi_card_mbox0_readpkt h) t)
     \<and> (n < 100 \<and> empty_polls h n s t \<and> wifi_card_read_func1_u8 h F1_HOST_INT_STATUS t = Some (v, u) \<and> v AND 1 \<noteq> 0
        \<longrightarrow> wifi_card_mbox0_readpkt h s
           = (if n = 99 then Some (0, u) else readpkt_packet h (wifi_card_mbox0_readpkt h) u))"
proof (intro conjI impI)
  note read = wifi_card_mbox0_readpkt.simps [of h s] readpkt_with_def
  {
    assume "empty_polls h 100 s t"
    from wait_empty_polls [OF this, of 100] have "readpkt_wait h 100 s = Some (- 1, t)"
      by (simp add: readpkt_wait.simps [of h 0] Let_def)
    then show "wifi_card_mbox0_readpkt h s = readpkt_packet h (wifi_card_mbox0_readpkt h) t"
      unfolding read by simp
  next
    assume *: "n < 100 \<and> empty_polls h n s t \<and> wifi_card_read_func1_u8 h F1_HOST_INT_STATUS t = Some (v, u) \<and> v AND 1 \<noteq> 0"
    have u: "unat (of_nat n :: u32) = n" using * by (simp add: unat_of_nat)
    then have "(of_nat n :: u32) \<noteq> 100" "(of_nat n :: u32) = 99 \<longleftrightarrow> n = 99" using * by (auto simp: word_unat_eq_iff)
    then have nz: "100 - of_nat n \<noteq> (0 :: u32)" "99 - of_nat n = (0 :: u32) \<longleftrightarrow> n = 99" by (metis eq_iff_diff_eq_0)+
    have "readpkt_wait h 100 s = Some (99 - of_nat n, u)"
      using wait_empty_polls [of h n s t 100] * nz by (simp add: readpkt_wait.simps [of h _ t] Let_def)
    with nz show "wifi_card_mbox0_readpkt h s
        = (if n = 99 then Some (0, u) else readpkt_packet h (wifi_card_mbox0_readpkt h) u)"
      unfolding read by simp
  }
qed

theorem readpkt_timeout_inverted_witness:
  "(\<exists>t v u. empty_polls (late_hw 100) 99 iop_selected t \<and> wifi_card_read_func1_u8 (late_hw 100) F1_HOST_INT_STATUS t = Some (v, u)
       \<and> v AND 1 \<noteq> 0 \<and> wifi_card_mbox0_readpkt (late_hw 100) iop_selected = Some (0, u))
   \<and> (\<exists>t. empty_polls (late_hw 101) 100 iop_selected t
       \<and> wifi_card_mbox0_readpkt (late_hw 101) iop_selected
           = readpkt_packet (late_hw 101) (wifi_card_mbox0_readpkt (late_hw 101)) t)"
proof (rule conjI)
  obtain t where t: "empty_polls (late_hw 100) 99 iop_selected t" "card_wf t" "commands (tr t) = 99"
    using late_polls [of iop_selected 99 100] by auto
  then obtain u where "wifi_card_read_func1_u8 (late_hw 100) F1_HOST_INT_STATUS t = Some (1, u)"
    using late_read [of t 100 F1_HOST_INT_STATUS] by auto
  with t(1) readpkt_timeout_inverted [of "late_hw 100" iop_selected t 99 1 u]
  show "\<exists>t v u. empty_polls (late_hw 100) 99 iop_selected t \<and> wifi_card_read_func1_u8 (late_hw 100) F1_HOST_INT_STATUS t = Some (v, u)
       \<and> v AND 1 \<noteq> 0 \<and> wifi_card_mbox0_readpkt (late_hw 100) iop_selected = Some (0, u)" by fastforce
next
  obtain t where "empty_polls (late_hw 101) 100 iop_selected t" using late_polls [of iop_selected 100 101] by auto
  then show "\<exists>t. empty_polls (late_hw 101) 100 iop_selected t
       \<and> wifi_card_mbox0_readpkt (late_hw 101) iop_selected
           = readpkt_packet (late_hw 101) (wifi_card_mbox0_readpkt (late_hw 101)) t"
    using readpkt_timeout_inverted by blast
qed

subsection \<open>Acknowledgement blocks\<close>

text \<open>
  What the card appends to a packet: items of a type byte, a length byte and data, in the shape of
  the key data of the handshake (\<open>kde\<close>). A lookahead item has type 2, six
  bytes, and the header of the next packet between the marks 0xAA and 0x55.
\<close>

definition is_lookahead :: "u8 \<times> bytes \<Rightarrow> bool" where
  "is_lookahead e \<longleftrightarrow> fst e = 2 \<and> length (snd e) = 6 \<and> snd e ! 0 = 0xAA \<and> snd e ! 5 = 0x55"

definition next_lookahead :: "(u8 \<times> bytes) list \<Rightarrow> u32 option" where
  "next_lookahead es = map_option (\<lambda>e. getle32 (\<lambda>i. snd e ! (1 + i))) (find is_lookahead es)"

lemma getle32_cong: "(\<And>i. i < 4 \<Longrightarrow> f i = g i) \<Longrightarrow> getle32 f = getle32 g"
  by (simp add: getle32_def)

lemma ack_walk_items:
  assumes "\<And>j. j < length (pre @ concat (map kde es)) \<Longrightarrow> g j = (pre @ concat (map kde es)) ! j"
    and "\<forall>(t, d) \<in> set es. length d < 256"
  shows "ack_walk g (length (pre @ concat (map kde es))) (length pre) found
     = (if found = None then next_lookahead es else found)"
  using assms
proof (induction es arbitrary: pre found)
  case Nil
  then show ?case by (subst ack_walk.simps) (simp add: next_lookahead_def)
next
  case (Cons e es)
  obtain t d where e: "e = (t, d)" by fastforce
  let ?p = "pre @ kde e" and ?rest = "concat (map kde es)"
  let ?all = "?p @ ?rest" and ?i = "length pre + 2"
  have d: "length d < 256" "unat (of_nat (length d) :: u8) = length d"
    using Cons.prems(2) e by (auto simp: unat_of_nat)
  have g: "g j = ?all ! j" if "j < length ?all" for j using Cons.prems(1) [of j] that by simp
  have g0: "g (length pre) = t" and g1: "g (length pre + 1) = of_nat (length d)"
    using g [of "length pre"] g [of "length pre + 1"] by (simp_all add: e kde_def nth_append)
  have data: "g (?i + k) = d ! k" if "k < length d" for k
    using g [of "?i + k"] that by (simp add: e kde_def nth_append)
  have six: "(of_nat (length d) :: u8) = 6 \<longleftrightarrow> length d = 6" using d(2) by (auto simp: word_unat_eq_iff)
  have cond: "t = 2 \<and> (of_nat (length d) :: u8) = 6 \<and> found = None \<and> g ?i = 0xAA \<and> g (?i + 5) = 0x55
      \<longleftrightarrow> found = None \<and> is_lookahead e"
    using data [of 0] data [of 5] unfolding six is_lookahead_def e by (cases d) auto
  have word: "getle32 (\<lambda>i. g (?i + 1 + i)) = getle32 (\<lambda>i. d ! (1 + i))" if "is_lookahead e"
    using data [of "1 + i" for i] that by (intro getle32_cong) (simp add: is_lookahead_def e)
  let ?found = "if found = None \<and> is_lookahead e then Some (getle32 (\<lambda>i. d ! (1 + i))) else found"
  have step: "(if found = None \<and> is_lookahead e then Some (getle32 (\<lambda>i. g (?i + 1 + i))) else found) = ?found"
    using word by simp
  have "ack_walk g (length ?all) (length pre) found = ack_walk g (length ?all) (length ?p) ?found"
    unfolding ack_walk.simps [of g _ "length pre"] Let_def g0 g1 cond step
    using d(2) by (simp add: e kde_def)
  also have "\<dots> = (if ?found = None then next_lookahead es else ?found)"
    using Cons.prems(2) by (intro Cons.IH g) auto
  finally show ?case by (cases found) (simp_all add: next_lookahead_def e)
qed

text \<open>
  After a packet whose acknowledgement block is a list of items, the driver remembers exactly the
  header word of the first well-formed lookahead item, and remembers that there is none
  when the block holds none; every other item is skipped by its length.
\<close>

theorem lookahead_of_ack_block:
  fixes s :: "'a card_scheme"
  assumes "\<forall>(t, d) \<in> set es. length d < 256" "length (concat (map kde es)) < 256"
    and "mem_read (mem s) a (length (concat (map kde es))) = concat (map kde es)"
  shows "readpkt_acks a (of_nat (length (concat (map kde es)))) s
     = (case next_lookahead es of None \<Rightarrow> s\<lparr>mbox_has_lookahead := False\<rparr>
        | Some v \<Rightarrow> s\<lparr>mbox_has_lookahead := True, mbox_lookahead := v\<rparr>)"
proof -
  have "ack_walk (view (mem s) a) (length (concat (map kde es))) 0 None = next_lookahead es"
    using ack_walk_items [of "[]" es "view (mem s) a" None] assms(1) view_mem_read [of _ _ "mem s" a] assms(3) by simp
  then show ?thesis using assms(2) by (simp add: readpkt_acks_def unat_of_nat)
qed

theorem lookahead_of_ack_block_witness:
  "let es = [(1, [9]), (2, [0xAA, 1, 0, 0x10, 0, 0x55])]; m = mem_write (\<lambda>_. 0) 0x100 (concat (map kde es));
       t = readpkt_acks 0x100 11 (iop_selected\<lparr>mem := m\<rparr>)
   in mbox_has_lookahead t \<and> mbox_lookahead t = 0x00100001"
proof -
  let ?es = "[(1, [9]), (2, [0xAA, 1, 0, 0x10, 0, 0x55])]"
  let ?s = "iop_selected\<lparr>mem := mem_write (\<lambda>_. 0) 0x100 (concat (map kde ?es))\<rparr>"
  have l: "length (concat (map kde ?es)) = 11" by (simp add: kde_def)
  have "mem_read (mem ?s) 0x100 (length (concat (map kde ?es))) = concat (map kde ?es)"
    using mem_read_write_same [of "concat (map kde ?es)"] l by simp
  from lookahead_of_ack_block [OF _ _ this, unfolded l] show ?thesis
    by (simp add: Let_def next_lookahead_def is_lookahead_def getle32_def)
qed

subsection \<open>Ticks, messages and initialisation\<close>

text \<open>
  C34. The one-millisecond tick. While the regulatory domain has at most 31 channels and the index lies inside the table of 32 frequencies,
  the tick returns on live hardware, leaves the driver well-formed and the index inside the table, so the same holds for the next tick. Without
  that condition the tick still keeps the driver well-formed and returns as long as the index is below 32; but the index has no bound then:
  with 32 channels or more the tick itself moves it past the table, where the next one reads outside it.
\<close>

theorem tick_keeps_invariant:
  fixes s :: "'a iop_scheme"
  assumes "iop_wf s"
  shows "(unat (device_num_channels s) \<le> 31 \<and> unat (device_cur_channel_idx s) \<le> 31
       \<longrightarrow> ok (live h) (wifi_card_tick h s) (\<lambda>t. iop_wf t \<and> unat (device_num_channels t) \<le> 31 \<and> unat (device_cur_channel_idx t) \<le> 31))
    \<and> ok (live h \<and> unat (device_cur_channel_idx s) < 32) (wifi_card_tick h s) iop_wf"
proof (intro conjI impI tick_wf [OF assms])
  assume c: "unat (device_num_channels s) \<le> 31 \<and> unat (device_cur_channel_idx s) \<le> 31"
  show "ok (live h) (wifi_card_tick h s) (\<lambda>t. iop_wf t \<and> unat (device_num_channels t) \<le> 31 \<and> unat (device_cur_channel_idx t) \<le> 31)"
    by (rule ok_weaken [OF ok_mono [OF tick_channels [OF assms]]]) (use c in \<open>auto simp: channels_ok_def\<close>)
qed

theorem tick_keeps_invariant_witness:
  "let s = iop_selected\<lparr>wifi_card_bInitted := True, wmi_bScanning := True, device_num_channels := 31, device_cur_channel_idx := 31\<rparr>
   in \<exists>t. wifi_card_tick idle_hw s = Some t \<and> iop_wf t \<and> unat (device_cur_channel_idx t) \<le> 31"
proof -
  let ?s = "iop_selected\<lparr>wifi_card_bInitted := True, wmi_bScanning := True, device_num_channels := 31, device_cur_channel_idx := 31\<rparr>"
  have wf: "iop_wf ?s" by (simp add: iop_selected_wf)
  have "ok (live idle_hw) (wifi_card_tick idle_hw ?s) (\<lambda>t. iop_wf t \<and> unat (device_num_channels t) \<le> 31 \<and> unat (device_cur_channel_idx t) \<le> 31)"
    using tick_keeps_invariant [OF wf, of idle_hw] by simp
  from ok_total [OF this live_idle_hw] show ?thesis by (auto simp: Let_def)
qed

text \<open>
  Every message of the ARM9 other than the start message is handled to its end on live
  hardware and keeps the driver well-formed: messages that are too short, unknown commands, packets at any address
  and of any length. A message that announces a receive ring must describe one of six aligned buffers.
\<close>

theorem messages_keep_invariant:
  fixes s :: "'a iop_scheme"
  assumes "iop_wf s" "length data \<ge> 4 \<Longrightarrow> getle32 (\<lambda>i. data ! i) \<noteq> WIFI_IPCCMD_INIT_IOP"
    and "length data \<ge> 4 \<Longrightarrow> getle32 (\<lambda>i. data ! i) = WIFI_IPCCMD_INITBUFS
       \<Longrightarrow> ring_msg_ok (getle32 (\<lambda>i. data ! (4 + i))) (getle32 (\<lambda>i. data ! (8 + i))) \<and> length data \<ge> 12"
  shows "ok (live h) (wifi_card_handleMsg h data s) (\<lambda>(waiting, t). iop_wf t)"
  by (rule ok_mono [OF handleMsg_wf [OF assms]]) auto

theorem messages_keep_invariant_witness:
  "\<exists>w t. wifi_card_handleMsg idle_hw ([3, 0, 0, 0] @ putle32 0x2100000 @ putle32 0x600) iop_selected = Some (w, t) \<and> iop_wf t"
proof -
  let ?d = "[3, 0, 0, 0] @ putle32 0x2100000 @ putle32 0x600"
  have g: "getle32 (\<lambda>i. ?d ! i) = 3" by (simp add: getle32_def)
  have "ok (live idle_hw) (wifi_card_handleMsg idle_hw ?d iop_selected) (\<lambda>(w, t). iop_wf t)"
    by (rule messages_keep_invariant) (simp_all only: g iop_selected_wf, simp_all add: ipc_cmd_defs)
  from ok_total [OF this live_idle_hw] show ?thesis by auto
qed

subsection \<open>The controller\<close>

text \<open>
  A command without data returns on live hardware, and it is quiet: memory, every variable of
  the driver and the configuration of the controller stay as they are; the only output is register traffic.
\<close>

theorem sdio_command_quiet:
  fixes s :: "'a machine_scheme"
  assumes "sdio_wf s" "\<not> cmd_data_length cmd" "ctx_buffer (tmio s) = 0"
  shows "ok (live h) (wifi_sdio_send_command h cmd args s) (quiet s)"
  using assms by (rule send_command_quiet)

theorem sdio_command_quiet_witness:
  "\<exists>t. wifi_sdio_send_command idle_hw cmd52 0 iop_selected = Some t \<and> mem t = mem iop_selected"
proof -
  have "sdio_wf iop_selected" "ctx_buffer (tmio iop_selected) = 0"
    using iop_selected_simps(1) by (simp_all add: card_wf_def iop_selected_def iop_static_def zero_ctx_def)
  from ok_total [OF sdio_command_quiet [OF this(1) _ this(2), of cmd52] live_idle_hw] show ?thesis
    by (auto simp: quiet_def)
qed

text \<open>
  A block write hands exactly the contents of its buffer, in whole words, to the DMA channel as
  one transfer, and changes nothing else; a block read stores exactly the words the channel delivers at the buffer's address and
  changes no other byte of memory.
\<close>

theorem sdio_block_transfer:
  fixes s :: "'a machine_scheme"
  assumes "sdio_wf s" "cmd_data_length cmd" "ctx_buffer (tmio s) \<noteq> 0" "ctx_buffer (tmio s) AND 3 = 0"
    and "b = ctx_buffer (tmio s)" "n = 4 * unat (ctx_size (tmio s) div 4)"
  shows "ok (live h) (wifi_sdio_send_command h cmd args s)
     (if cmd_data_direction cmd
      then (\<lambda>t. \<exists>u data. quiet s u \<and> length data = n \<and> t = emit (DmaIn b data) (u\<lparr>mem := mem_write (mem s) b data\<rparr>))
      else (\<lambda>t. \<exists>u. quiet s u \<and> t = emit (DmaOut b (mem_read (mem s) b n)) u))"
proof (cases "cmd_data_direction cmd")
  case True
  from send_command_block_read [OF assms(1,2) this assms(3,4), of h args] show ?thesis
  proof (rule ok_mono, elim exE conjE)
    fix t u es data assume "quiet s u" and d: "data = map (hw_dma h (es @ tr s)) [0..<4 * unat (ctx_size (tmio s) div 4)]"
      and "t = emit (DmaIn (ctx_buffer (tmio s)) data) (u\<lparr>mem := mem_write (mem s) (ctx_buffer (tmio s)) data\<rparr>)"
    moreover have "length data = n" using d assms(6) by simp
    ultimately have "\<exists>u data. quiet s u \<and> length data = n \<and> t = emit (DmaIn b data) (u\<lparr>mem := mem_write (mem s) b data\<rparr>)"
      unfolding assms(5) by blast
    then show "(if cmd_data_direction cmd
        then (\<lambda>t. \<exists>u data. quiet s u \<and> length data = n \<and> t = emit (DmaIn b data) (u\<lparr>mem := mem_write (mem s) b data\<rparr>))
        else (\<lambda>t. \<exists>u. quiet s u \<and> t = emit (DmaOut b (mem_read (mem s) b n)) u)) t" using True by simp
  qed
next
  case False
  from send_command_block_write [OF assms(1,2) this assms(3,4), of h args] show ?thesis
    by (rule ok_mono) (use False assms(5,6) in \<open>auto simp: block_start_def\<close>)
qed

theorem sdio_block_transfer_witness:
  "let s = iop_selected\<lparr>tmio := (tmio iop_selected)\<lparr>ctx_buffer := 0x2000000, ctx_size := 0x80\<rparr>\<rparr>
   in \<exists>t u. wifi_sdio_send_command idle_hw cmd53_write 0 s = Some t
        \<and> t = emit (DmaOut 0x2000000 (mem_read (mem s) 0x2000000 0x80)) u"
proof -
  let ?s = "iop_selected\<lparr>tmio := (tmio iop_selected)\<lparr>ctx_buffer := 0x2000000, ctx_size := 0x80\<rparr>\<rparr>"
  have "sdio_wf ?s" using iop_selected_simps(1) by (simp add: card_wf_def sdio_wf_def)
  from ok_total [OF sdio_block_transfer [OF this, of cmd53_write _ _ idle_hw 0, OF _ _ _ refl refl] live_idle_hw]
  show ?thesis by (auto simp: cmd53_write_def Let_def)
qed

text \<open>
  The log loses nothing: the text of the messages sent for a string, cut into pieces that fit the inter-processor messages and each
  ended by a zero, joined again, is the string.
\<close>

theorem log_lossless:
  assumes "wifi_printf_allowed s" "0 \<notin> set str"
  shows "log_text (tr (wifi_ipcSendStringAlt str s)) = log_text (tr s) @ str"
  using log_text_chunks [OF assms(2), of 0 s] assms(1) by (simp add: wifi_ipcSendStringAlt_def)

theorem log_lossless_witness:
  "log_text (tr (wifi_ipcSendStringAlt (replicate 100 65) (iop_selected\<lparr>wifi_printf_allowed := True\<rparr>))) = replicate 100 65"
  using log_lossless [of "iop_selected\<lparr>wifi_printf_allowed := True\<rparr>" "replicate 100 65"] by (simp add: log_text_def)

subsection \<open>The search comes to an end\<close>

text \<open>An access point has been found and the rounds that remain are being scanned.\<close>

definition searching :: "nat \<Rightarrow> u16 list \<Rightarrow> 'a iop_scheme \<Rightarrow> bool" where
  "searching n fs s \<longleftrightarrow> card_wf s \<and> ap_wf s \<and> wmi_bScanning s \<and> ap_found s \<and> \<not> sent_connect s \<and> \<not> scanning s
     \<and> unat (device_num_channels s) = n \<and> channel_freqs s = fs \<and> unat (device_cur_channel_idx s) \<le> n \<and> wmi_idk s = 0"

text \<open>Ticks until the connection is due.\<close>

definition ticks_left :: "nat \<Rightarrow> 'a iop_scheme \<Rightarrow> nat" where
  "ticks_left n s = (if num_rounds_scanned s \<ge> 4 then 0
     else (4 - unat (num_rounds_scanned s)) * Suc n - unat (device_cur_channel_idx s))"

lemma connect_seq_same: "same_ap s t \<Longrightarrow> connect_seq t = connect_seq s"
proof -
  assume a: "same_ap s t"
  have z: "same_ap (s\<lparr>wmi_idk := 0\<rparr>) (t\<lparr>wmi_idk := 0\<rparr>)" using a by (simp add: same_ap_def)
  have "connect_txs (t\<lparr>wmi_idk := 0\<rparr>) = connect_txs (s\<lparr>wmi_idk := 0\<rparr>)"
    using z same_ap_params [OF z] same_ap_key [OF z] unfolding connect_txs_def same_ap_def
    by (simp cong: ap_security.case_cong)
  with a show "connect_seq t = connect_seq s" by (simp add: same_ap_def connect_seq_def connect_setup_txs_def)
qed

lemma same_ap_wf: "same_ap s t \<Longrightarrow> ap_wf t = ap_wf s"
  by (simp add: same_ap_def ap_wf_def)

lemma ticks_left_step:
  fixes r :: u16
  assumes "i \<le> n" "\<not> r \<ge> 4"
  shows "Suc (if r + (if i = n then 1 else 0) \<ge> 4 then 0
      else (4 - unat (r + (if i = n then 1 else 0))) * Suc n - (if i = n then 0 else Suc i)) = (4 - unat r) * Suc n - i"
proof -
  have "r = 0 \<or> r = 1 \<or> r = 2 \<or> r = 3"
    using assms(2) by (auto simp: word_le_nat_alt word_unat_eq_iff)
  then show ?thesis using assms(1) by (auto simp: word_le_nat_alt)
qed

lemma searching_tick:
  fixes s :: "'a iop_scheme"
  assumes P: "searching n fs s" and r: "\<not> num_rounds_scanned s \<ge> 4" and n: "0 < n" "n < length fs" "n < 255"
  shows "ok (live h) (wmi_tick h s) (\<lambda>t. let t' = wmi_handle_scan_complete t in
     searching n fs t' \<and> same_ap s t' \<and> outputs (tr t') = outputs (tr s) @ probes [fs ! unat (device_cur_channel_idx s)]
     \<and> Suc (ticks_left n t') = ticks_left n s)"
proof -
  let ?u = "scan_advance s" and ?i = "unat (device_cur_channel_idx s)"
  let ?Q = "\<lambda>t. searching n fs (wmi_handle_scan_complete t) \<and> same_ap s (wmi_handle_scan_complete t)
     \<and> outputs (tr t) = outputs (tr s) @ probes [fs ! ?i]
     \<and> device_cur_channel_idx t = device_cur_channel_idx ?u \<and> num_rounds_scanned t = num_rounds_scanned ?u"
  have pr: "card_wf s" "ap_wf s" "wmi_bScanning s" "ap_found s" "\<not> sent_connect s" "\<not> scanning s" "unat (device_num_channels s) = n"
    "channel_freqs s = fs" "wmi_idk s = 0" "?i \<le> n" using P by (auto simp: searching_def)
  have "device_num_channels s \<noteq> 0" "\<not> ready_to_connect s" "?i < length (channel_freqs s)"
    using pr n r by (auto simp: ready_to_connect_def)
  note probe = scantick_probes [OF pr(1) this(1,2) pr(6) this(3), of h]
  note adv = scan_advance_index [OF refl pr(7,10) n(3)]
  have le: "unat (device_cur_channel_idx ?u) \<le> n" using adv(1) pr(10) by simp
  have sa: "same_ap s (wmi_handle_scan_complete ?u)" "ap_wf ?u" "sent_connect ?u = sent_connect s"
    using pr(2) by (simp_all add: same_ap_def ap_wf_def wmi_handle_scan_complete_def scan_advance_def Let_def)
  have "ok (live h) (wmi_scantick h s) ?Q"
  proof (rule ok_mono [OF probe])
    fix t :: "'a iop_scheme"
    assume *: "(let mhz = channel_freqs s ! ?i; u = scan_advance s
      in if mhz = 0 then (\<lambda>t. t = u)
         else xmit (probe_txs (wmi_idk s) mhz) (u\<lparr>scan_done := False, scanning := True\<rparr>)) t"
    show "?Q t"
    proof (cases "fs ! ?i = 0")
      case True
      with * pr le sa show ?thesis
        by (auto simp: Let_def searching_def wmi_handle_scan_complete_def probes_def ap_wf_def)
    next
      case False
      with * pr have x: "xmit (probe_txs 0 (fs ! ?i)) (?u\<lparr>scan_done := False, scanning := True\<rparr>) t"
        by (auto simp: Let_def)
      have st: "same_ap s (wmi_handle_scan_complete t)"
        using sa(1) more_iop [OF xmit_more [OF x]] by (simp add: same_ap_def wmi_handle_scan_complete_def)
      then have "ap_wf (wmi_handle_scan_complete t)" using pr(2) same_ap_wf by blast
      then show ?thesis
        using xmit_same_iop [OF x] xmit_same_scan [OF x] xmit_wf [OF x] pr False le sa st
        by (simp add: searching_def wmi_handle_scan_complete_def probes_def)
    qed
  qed
  moreover have "Suc (ticks_left n (wmi_handle_scan_complete t)) = ticks_left n s"
    if "device_cur_channel_idx t = device_cur_channel_idx ?u" "num_rounds_scanned t = num_rounds_scanned ?u" for t :: "'a iop_scheme"
    using ticks_left_step [OF pr(10), of "num_rounds_scanned s"] r that adv
    by (cases "?i = n") (simp_all add: ticks_left_def wmi_handle_scan_complete_def del: mult_Suc_right diff_diff_left split: if_splits)
  ultimately show ?thesis
    unfolding wmi_tick_def if_P [OF pr(3)] Let_def by (elim ok_mono) (auto simp: wmi_handle_scan_complete_def)
qed

text \<open>Once the connection has been requested the ticks are idle.\<close>

lemma scan_run_connected:
  assumes "ready_to_connect s" "sent_connect s"
  shows "\<exists>t. scan_run h k s = Some t \<and> sent_connect t \<and> tr t = tr s"
  using assms
proof (induction k arbitrary: s)
  case (Suc k)
  have "wmi_tick h s = Some s" using Suc.prems by (simp add: wmi_tick_def scantick_idle)
  then show ?case
    using Suc.IH [of "wmi_handle_scan_complete s"] Suc.prems
    by (simp add: wmi_handle_scan_complete_def ready_to_connect_def)
qed simp

lemma searching_connects:
  fixes s :: "'a iop_scheme"
  assumes "searching n fs s" "ticks_left n s < k" and n: "0 < n" "n < length fs" "n < 255"
  shows "ok (live h) (scan_run h k s) (\<lambda>t. sent_connect t \<and> (\<exists>gs. outputs (tr t) = outputs (tr s) @ probes gs @ connect_seq s))"
  using assms(1,2)
proof (induction k arbitrary: s)
  case (Suc k)
  note P = Suc.prems(1) [unfolded searching_def]
  show ?case
  proof (cases "num_rounds_scanned s \<ge> 4")
    case True
    have "ok (live h) (wmi_scantick h s) (xmit (connect_seq s) (s\<lparr>wmi_idk := 0, sent_connect := True\<rparr>))"
      by (rule scantick_connects) (use P n True in \<open>auto simp: ready_to_connect_def\<close>)
    then have tick: "ok (live h) (wmi_tick h s) (xmit (connect_seq s) (s\<lparr>wmi_idk := 0, sent_connect := True\<rparr>))"
      using P by (simp add: wmi_tick_def)
    show ?thesis unfolding scan_run.simps
    proof (rule ok_bind_rule [OF tick])
      fix t :: "'a iop_scheme"
      assume x: "xmit (connect_seq s) (s\<lparr>wmi_idk := 0, sent_connect := True\<rparr>) t"
      let ?t = "wmi_handle_scan_complete t"
      have t: "ready_to_connect ?t" "sent_connect ?t" "outputs (tr ?t) = outputs (tr s) @ probes [] @ connect_seq s"
        using xmit_same_iop [OF x] xmit_same_scan(2) [OF x] True P
        by (simp_all add: ready_to_connect_def wmi_handle_scan_complete_def probes_def)
      obtain u where u: "scan_run h k ?t = Some u" "sent_connect u" "tr u = tr ?t"
        using scan_run_connected [OF t(1,2)] by blast
      show "ok (live h) (scan_run h k ?t) (\<lambda>t. sent_connect t \<and> (\<exists>gs. outputs (tr t) = outputs (tr s) @ probes gs @ connect_seq s))"
        unfolding u(1) ok_Some u(3) using u(2) t(3) by (intro conjI exI [of _ "[]"])
    qed
  next
    case False
    show ?thesis unfolding scan_run.simps
    proof (rule ok_bind_rule [OF searching_tick [OF Suc.prems(1) False n]])
      fix t :: "'a iop_scheme"
      let ?t = "wmi_handle_scan_complete t" and ?f = "fs ! unat (device_cur_channel_idx s)"
      assume "let t' = ?t in searching n fs t' \<and> same_ap s t' \<and> outputs (tr t') = outputs (tr s) @ probes [?f]
        \<and> Suc (ticks_left n t') = ticks_left n s"
      then have t: "searching n fs ?t" "same_ap s ?t" "outputs (tr ?t) = outputs (tr s) @ probes [?f]"
        "Suc (ticks_left n ?t) = ticks_left n s" by (auto simp: Let_def)
      have "ticks_left n ?t < k" using t(4) Suc.prems(2) by simp
      then have "ok (live h) (scan_run h k ?t) (\<lambda>u. sent_connect u \<and> (\<exists>gs. outputs (tr u) = outputs (tr ?t) @ probes gs @ connect_seq ?t))"
        using Suc.IH [OF t(1)] by blast
      then show "ok (live h) (scan_run h k ?t) (\<lambda>u. sent_connect u \<and> (\<exists>gs. outputs (tr u) = outputs (tr s) @ probes gs @ connect_seq s))"
      proof (rule ok_mono, elim conjE exE)
        fix u :: "'a iop_scheme" and gs
        assume "sent_connect u" "outputs (tr u) = outputs (tr ?t) @ probes gs @ connect_seq ?t"
        then show "sent_connect u \<and> (\<exists>gs. outputs (tr u) = outputs (tr s) @ probes gs @ connect_seq s)"
          using t(3) connect_seq_same [OF t(2)] probes_Cons [of ?f gs] by (intro conjI exI [of _ "?f # gs"]) simp_all
      qed
    qed
  qed
qed simp

text \<open>
  C20. The search ends. Once an access point has been found, and as long as the firmware answers every probe, the connect command is sent after at most four more
  rounds over the channels, after any number of probes and exactly once, whatever further ticks follow.
\<close>

theorem search_ends_with_connect:
  fixes s :: "'a iop_scheme"
  assumes "searching n fs s" "0 < n" "n < length fs" "n < 255" "4 * Suc n < k"
  shows "ok (live h) (scan_run h k s) (\<lambda>t. sent_connect t \<and> (\<exists>gs. outputs (tr t) = outputs (tr s) @ probes gs @ connect_seq s))"
proof -
  have "(4 - unat (num_rounds_scanned s)) * Suc n \<le> 4 * Suc n" by (intro mult_right_mono) simp_all
  then have "(4 - unat (num_rounds_scanned s)) * Suc n - unat (device_cur_channel_idx s) < k" using assms(5) by linarith
  then have "ticks_left n s < k" by (simp add: ticks_left_def del: mult_Suc_right)
  with assms show ?thesis by (intro searching_connects)
qed

theorem search_ends_with_connect_witness:
  "let s = iop_selected\<lparr>device_num_channels := 2, wmi_bScanning := True, channel_freqs := [2412, 0, 2437], ap_found := True\<rparr>
   in \<exists>t gs. scan_run idle_hw 13 s = Some t \<and> sent_connect t \<and> outputs (tr t) = probes gs @ connect_seq s"
proof -
  let ?s = "iop_selected\<lparr>device_num_channels := 2, wmi_bScanning := True, channel_freqs := [2412, 0, 2437], ap_found := True\<rparr>"
  have "searching 2 [2412, 0, 2437] ?s" using iop_selected_fields by (simp add: searching_def ap_wf_def)
  from ok_total [OF search_ends_with_connect [OF this, of 13 idle_hw] live_idle_hw] show ?thesis by (auto simp: Let_def)
qed

subsection \<open>Bounds of the receive buffers\<close>

text \<open>The number of bytes transferred for a frame of \<open>len\<close> bytes: with its header, in whole blocks.\<close>

text \<open>
  C23. Bounds of the receive ring. The buffer taken for a data frame is a whole slot of the ring the host has given; the transfer of a frame fits a slot
  exactly when the announced length is at most 0x5FA, and then it changes no byte outside the slot. (Lengths up to 0x2000 are accepted.)
\<close>

theorem received_frame_bounds:
  fixes s :: "'a iop_scheme"
  assumes "iop_wf s" "ip_data_out_buf s \<noteq> 0" "len \<le> 0x2000"
  shows "\<exists>b t. data_next_buf s = Some (b, t) \<and> unat (ip_data_out_buf s) \<le> unat b
     \<and> unat b + 0x600 \<le> unat (ip_data_out_buf s) + 0x2400
     \<and> (unat (full_len len) \<le> 0x600 \<longleftrightarrow> len \<le> 0x5FA)
     \<and> (len \<le> 0x5FA \<longrightarrow> ok (live h) (wifi_card_read_func1_block h a b (ucast (full_len len)) t)
          (\<lambda>r. outside b 0x600 (mem s) (mem (snd r))))"
proof -
  let ?b = "ip_data_out_buf s" and ?i = "ip_data_out_buf_idx s"
  have rx: "?i < 6" "unat ?b + 0x2400 \<le> 2 ^ 32" "ip_data_out_buf_totlen s = 0x2400"
    using assms(1,2) by (auto simp: iop_wf_def rx_wf_def ring_msg_ok_def)
  let ?t = "s\<lparr>ip_data_out_buf_idx := (?i + 1) mod 6\<rparr>"
  have d: "data_next_buf s = Some (?b + 0x600 * ?i, ?t)" using rx(3) by (simp add: data_next_buf_def Let_def)
  have fit: "unat (full_len len) \<le> 0x600 \<longleftrightarrow> len \<le> 0x5FA"
    unfolding full_len_blocks [OF assms(3)] word_le_nat_alt by auto
  from ok_partial [OF data_next_buf_ok [OF assms(1,2)] d]
  have t: "iop_wf ?t" "?b + 0x600 * ?i \<noteq> 0" "(?b + 0x600 * ?i) AND 3 = 0" by auto
  have "ok (live h) (wifi_card_read_func1_block h a (?b + 0x600 * ?i) (ucast (full_len len)) ?t)
      (\<lambda>r. outside (?b + 0x600 * ?i) 0x600 (mem s) (mem (snd r)))" if "len \<le> 0x5FA"
  proof (rule ok_mono [OF read_func1_block_ok [OF iop_wf_card [OF t(1)] t(2,3)]])
    fix r assume "recv (?b + 0x600 * ?i) (unat (ucast (full_len len) :: u32)) ?t (snd r)"
    moreover have "unat (ucast v :: u32) = unat v" for v :: u16 by (simp add: unsigned_ucast_eq)
    then have "unat (ucast (full_len len) :: u32) \<le> 0x600" using fit that by metis
    ultimately show "outside (?b + 0x600 * ?i) 0x600 (mem s) (mem (snd r))" by (auto simp: recv_def outside_def)
  qed
  then show ?thesis using d fit ring_slot [OF rx(1,2)] by auto
qed

theorem received_frame_bounds_witness:
  "let s = iop_selected\<lparr>ip_data_out_buf := 0x2200000, ip_data_out_buf_totlen := 0x2400\<rparr>
   in \<exists>b t r. data_next_buf s = Some (b, t) \<and> 0x2200000 \<le> unat b \<and> unat b + 0x600 \<le> 0x2202400
     \<and> wifi_card_read_func1_block idle_hw 0x3A00 b (ucast (full_len 0x5FA)) t = Some r \<and> outside b 0x600 (mem s) (mem (snd r))"
proof -
  let ?s = "iop_selected\<lparr>ip_data_out_buf := 0x2200000, ip_data_out_buf_totlen := 0x2400\<rparr>"
  have wf: "iop_wf ?s" by (rule iop_wf_ring [OF iop_selected_wf]) (simp add: ring_msg_ok_def)
  obtain b t where b: "data_next_buf ?s = Some (b, t)" "0x2200000 \<le> unat b" "unat b + 0x600 \<le> 0x2202400"
    "ok (live idle_hw) (wifi_card_read_func1_block idle_hw 0x3A00 b (ucast (full_len 0x5FA)) t) (\<lambda>r. outside b 0x600 (mem ?s) (mem (snd r)))"
    using received_frame_bounds [OF wf, of "0x5FA" idle_hw "0x3A00"] by auto
  from ok_total [OF b(4) live_idle_hw] b(1-3) show ?thesis by (auto simp: Let_def)
qed

end
