(* ===== verification/Host.thy ===== *)
theory Host
  imports Machine
begin

text \<open>
  The ARM9 side: \<^verbatim>\<open>arm_host/source/wifi_host.c\<close>, \<^verbatim>\<open>wifi_debug.c\<close> and the entry points of
  \<^verbatim>\<open>dsiwifi_arm9.c\<close>. The network stack (lwIP), the console library and the callbacks of the
  application are the parameter \<open>net\<close>: their answers are functions of the history of calls,
  which the trace \<open>htr\<close> records, newest first. \<open>hmem\<close> is main memory, which both processors
  share; \<open>net_uncached\<close> is \<^verbatim>\<open>memUncached\<close> of the console library.
\<close>

datatype hevent =
    HSend bytes            \<comment> \<open>fifoSendDatamsg: the message\<close>
  | HLog bytes             \<comment> \<open>DSiWifi_pfnLogHandler\<close>
  | HConnect | HReconnect  \<comment> \<open>the application's callbacks\<close>
  | HLwipInit              \<comment> \<open>lwip_init\<close>
  | HNetifAdd              \<comment> \<open>netif_add with ath_init_fn\<close>
  | HNetifUp               \<comment> \<open>netif_set_default, netif_set_up, netif_set_link_up, netbiosns\<close>
  | HDhcpStart
  | HInput bytes           \<comment> \<open>ath_netif.input: the payload of the pbuf\<close>
  | HPbufFree
  | HNowInc | HTimeouts | HPollOne
  | HTimer nat | HHandler

record net =
  net_uncached :: "u32 \<Rightarrow> u32"
  net_pbuf :: "hevent list \<Rightarrow> nat \<Rightarrow> nat option"   \<comment> \<open>pbuf_alloc: NULL, or the length of the first buffer\<close>
  net_input :: "hevent list \<Rightarrow> bytes \<Rightarrow> bool"      \<comment> \<open>the result is ERR_OK\<close>
  net_add :: "hevent list \<Rightarrow> bool"               \<comment> \<open>netif_add succeeds\<close>
  net_ipaddr :: "hevent list \<Rightarrow> u32"             \<comment> \<open>ath_netif.ip_addr.addr\<close>
  net_stack :: "hevent list \<Rightarrow> nat \<Rightarrow> u8"

record host =
  hmem :: memory
  htr :: "hevent list"
  hdevice_mac :: bytes
  hap_mac :: bytes
  host_bInitted :: bool
  host_bLwipInitted :: bool
  host_bNeedsDHCPRenew :: bool
  ip_data_buf_idx :: nat
  ip_data_buf :: u32            \<comment> \<open>addresses of the two static arrays\<close>
  ip_data_in_buf :: u32
  netif_hwaddr :: bytes         \<comment> \<open>set by \<^verbatim>\<open>ath_init_fn\<close>\<close>
  inc_cnt :: nat
  sec_cnt :: nat
  display_counter :: nat
  log_handler :: bool           \<comment> \<open>the callbacks are not NULL\<close>
  connect_handler :: bool
  reconnect_handler :: bool

abbreviation (input) DATA_BUF_RINGS :: nat where "DATA_BUF_RINGS \<equiv> 6"
abbreviation (input) DATA_IN_BUF_RINGS :: nat where "DATA_IN_BUF_RINGS \<equiv> 6"
abbreviation (input) HOST_BUF_LEN :: nat where "HOST_BUF_LEN \<equiv> 0x600"

definition hemit :: "hevent \<Rightarrow> host \<Rightarrow> host" where
  "hemit e s = s\<lparr>htr := e # htr s\<rparr>"

definition hstore :: "u32 \<Rightarrow> bytes \<Rightarrow> host \<Rightarrow> host" where
  "hstore a bs s = s\<lparr>hmem := mem_write (hmem s) a bs\<rparr>"

definition fifo_send :: "u32 \<Rightarrow> bytes \<Rightarrow> host \<Rightarrow> host" where
  "fifo_send cmd rest s = hemit (HSend (putle32 cmd @ rest)) s"

definition host_printf :: "fmt list \<Rightarrow> host \<Rightarrow> host" where
  "host_printf fs s = (if \<not> log_handler s then s else hemit (HLog (vsnprintf (0x200 - 1) fs)) s)"

definition host_printlnf :: "fmt list \<Rightarrow> host \<Rightarrow> host" where
  "host_printlnf fs s = (if \<not> log_handler s then s else hemit (HLog (vsnprintf (0x200 - 2) fs @ [10])) s)"

subsection \<open>Packet buffers\<close>

text \<open>Marking the buffers of a ring as free, from slot \<open>i\<close> on.\<close>

primrec mark_ring :: "net \<Rightarrow> u32 \<Rightarrow> nat list \<Rightarrow> host \<Rightarrow> host" where
  "mark_ring w base [] s = s"
| "mark_ring w base (i # is) s =
     mark_ring w base is (hstore (net_uncached w (base + of_nat (HOST_BUF_LEN * i))) (putle32 0xF00FF00F) s)"

definition data_init_bufs :: "net \<Rightarrow> host \<Rightarrow> host" where
  "data_init_bufs w s =
     mark_ring w (ip_data_in_buf s) [0..<DATA_IN_BUF_RINGS] (mark_ring w (ip_data_buf s) [0..<DATA_BUF_RINGS] s)"

definition host_next_buf :: "net \<Rightarrow> host \<Rightarrow> u32 \<times> host" where
  "host_next_buf w s =
     (net_uncached w (ip_data_buf s + of_nat (HOST_BUF_LEN * ip_data_buf_idx s)),
      s\<lparr>ip_data_buf_idx := (ip_data_buf_idx s + 1) mod DATA_BUF_RINGS\<rparr>)"

abbreviation (input) ERR_OK :: int where "ERR_OK \<equiv> 0"
abbreviation (input) ERR_MEM :: int where "ERR_MEM \<equiv> -1"

definition host_send_link :: "net \<Rightarrow> bytes \<Rightarrow> host \<Rightarrow> int \<times> host" where
  "host_send_link w ip_data s =
     (if ip_data = [] then (ERR_OK, s)
      else let ip_data = take HOST_BUF_LEN ip_data;
               (dst, s) = host_next_buf w s
           in if dst = 0 then (ERR_MEM, s)
              else (ERR_OK, fifo_send WIFI_IPCCMD_SENDPKT (putle32 dst @ putle32 (of_nat (length ip_data)))
                              (hstore dst ip_data s)))"

text \<open>\<^verbatim>\<open>ath_link_output\<close>: the first buffer of the chain only.\<close>

definition ath_link_output :: "net \<Rightarrow> bytes \<Rightarrow> host \<Rightarrow> int \<times> host" where
  "ath_link_output w payload s = host_send_link w payload s"

definition ath_lwip_tick :: "host \<Rightarrow> host" where
  "ath_lwip_tick s = hemit HPollOne (hemit HTimeouts s)"

text \<open>
  A received packet: copied into a buffer of the stack, its slot marked as free, handed in.
  The pointer arithmetic \<^verbatim>\<open>data - 6\<close> leads back to the start of the slot.
\<close>

definition data_send_to_lwip :: "net \<Rightarrow> u32 \<Rightarrow> u32 \<Rightarrow> host \<Rightarrow> host" where
  "data_send_to_lwip w data len s =
     (let len = (if len > 0x600 - 6 then 0x600 - 6 else len) in
      case net_pbuf w (htr s) (unat len) of
        None \<Rightarrow> hstore (data - 6) (putle32 0xF00FF00F) s
      | Some plen \<Rightarrow>
          let n = (if unat len > plen then plen else unat len);
              payload = mem_read (hmem s) data n;
              s = hstore (data - 6) (putle32 0xF00FF00F) s;
              accepted = net_input w (htr s) payload;
              s = hemit (HInput payload) s
          in if accepted then s else hemit HPbufFree s)"

subsection \<open>Messages to and from the ARM7\<close>

definition wifi_host_get_mac :: "net \<Rightarrow> host \<Rightarrow> host" where
  "wifi_host_get_mac w s =
     fifo_send WIFI_IPCCMD_GET_DEVICE_MAC (map (net_stack w (htr s)) [4..<12]) s"

definition wifi_host_get_ap_mac :: "net \<Rightarrow> host \<Rightarrow> host" where
  "wifi_host_get_ap_mac w s =
     fifo_send WIFI_IPCCMD_GET_AP_MAC (map (net_stack w (htr s)) [4..<12]) s"

definition wifi_host_init_bufs :: "net \<Rightarrow> host \<Rightarrow> host" where
  "wifi_host_init_bufs w s =
     (let s = data_init_bufs w s
      in fifo_send WIFI_IPCCMD_INITBUFS
           (putle32 (net_uncached w (ip_data_in_buf s)) @ putle32 (of_nat (HOST_BUF_LEN * DATA_IN_BUF_RINGS))) s)"

definition wifi_host_init_iop :: "net \<Rightarrow> host \<Rightarrow> host" where
  "wifi_host_init_iop w s =
     fifo_send WIFI_IPCCMD_INIT_IOP (map (net_stack w (htr s)) [4..<12]) s"

definition dhcp_renew :: "host \<Rightarrow> host" where
  "dhcp_renew s =
     (let s = (if reconnect_handler s then hemit HReconnect s else s)
      in (hemit HDhcpStart s)\<lparr>host_bNeedsDHCPRenew := False\<rparr>)"

definition ath_init_fn :: "host \<Rightarrow> host" where
  "ath_init_fn s = s\<lparr>netif_hwaddr := hdevice_mac s\<rparr>"

definition wifi_host_lwip_init :: "net \<Rightarrow> host \<Rightarrow> host" where
  "wifi_host_lwip_init w s =
     (if host_bLwipInitted s
      then if host_bNeedsDHCPRenew s then dhcp_renew s else s
      else let s = hemit HLwipInit s;
               added = net_add w (htr s);
               s = ath_init_fn (hemit HNetifAdd s)
           in if \<not> added then host_printlnf [Lit ''wifi_host_lwip_init: netif_add failed''] s
              else let s = hemit HNetifUp s;
                       s = hemit HDhcpStart s;
                       s = (if connect_handler s then hemit HConnect s else s)
                   in s\<lparr>host_bLwipInitted := True, host_bNeedsDHCPRenew := False\<rparr>)"

definition host_print_mac :: "string \<Rightarrow> bytes \<Rightarrow> host \<Rightarrow> host" where
  "host_print_mac prefix mac s =
     host_printlnf [Lit prefix, Lit '' '', Hex 2 (ucast (mac ! 0)), Lit '':'', Hex 2 (ucast (mac ! 1)),
       Lit '':'', Hex 2 (ucast (mac ! 2)), Lit '':'', Hex 2 (ucast (mac ! 3)), Lit '':'',
       Hex 2 (ucast (mac ! 4)), Lit '':'', Hex 2 (ucast (mac ! 5))] s"

definition wifi_host_handleMsg :: "net \<Rightarrow> bytes \<Rightarrow> host \<Rightarrow> host" where
  "wifi_host_handleMsg w data s =
     (if length data < 4 then host_printf [Lit ''Bad msg len '', Hex 1 (of_nat (length data)), Lit [CHR 0x0A]] s
      else
      let msg = (\<lambda>i. if i < length data then data ! i else net_stack w (htr s) i);
          cmd = getle32 msg; mac = map (\<lambda>i. msg (4 + i)) [0..<6];
          pkt_data = getle32 (\<lambda>i. msg (4 + i)); pkt_len = getle32 (\<lambda>i. msg (8 + i))
      in if cmd = WIFI_IPCINT_READY then
           let s = wifi_host_get_mac w s; s = wifi_host_get_ap_mac w s; s = wifi_host_init_bufs w s
           in s\<lparr>host_bInitted := True\<rparr>
         else if cmd = WIFI_IPCINT_CONNECT then
           (host_printf [Lit ''Connecting to AP'', Lit [CHR 0x0A]] s)\<lparr>host_bNeedsDHCPRenew := True\<rparr>
         else if cmd = WIFI_IPCINT_DEVICE_MAC then
           host_print_mac ''Dev'' mac (s\<lparr>hdevice_mac := mac\<rparr>)
         else if cmd = WIFI_IPCINT_AP_MAC then
           wifi_host_lwip_init w (host_print_mac ''AP'' mac (s\<lparr>hap_mac := mac\<rparr>))
         else if cmd = WIFI_IPCINT_PKTDATA then data_send_to_lwip w (net_uncached w pkt_data) pkt_len s
         else if cmd = WIFI_IPCINT_PKTSENT then hstore pkt_data (putle32 0xF00FF00F) s
         else if cmd = WIFI_IPCINT_DBGLOG then host_printf [Str (map (\<lambda>i. msg (4 + i)) [0..<60])] s
         else host_printf [Lit ''val '', Hex 1 cmd, Lit [CHR 0x0A]] s)"

subsection \<open>Ticks and the interface to the application\<close>

definition wifi_host_get_ipaddr :: "net \<Rightarrow> host \<Rightarrow> u32" where
  "wifi_host_get_ipaddr w s = net_ipaddr w (htr s)"

datatype assoc_status = ASSOCSTATUS_DISCONNECTED | ASSOCSTATUS_SEARCHING | ASSOCSTATUS_AUTHENTICATING
  | ASSOCSTATUS_ASSOCIATING | ASSOCSTATUS_ACQUIRINGDHCP | ASSOCSTATUS_ASSOCIATED | ASSOCSTATUS_CANNOTCONNECT

definition wifi_host_get_status :: "net \<Rightarrow> host \<Rightarrow> assoc_status" where
  "wifi_host_get_status w s =
     (if host_bLwipInitted s
      then if wifi_host_get_ipaddr w s \<noteq> 0xFFFFFFFF then ASSOCSTATUS_ASSOCIATED else ASSOCSTATUS_ACQUIRINGDHCP
      else ASSOCSTATUS_SEARCHING)"

definition wifi_host_tick_display :: "host \<Rightarrow> host" where
  "wifi_host_tick_display s =
     (if display_counter s > 2 * 1000 then s\<lparr>display_counter := 0\<rparr>
      else s\<lparr>display_counter := display_counter s + 1\<rparr>)"

definition wifi_host_tick :: "net \<Rightarrow> host \<Rightarrow> host" where
  "wifi_host_tick w s =
     (let s = (if inc_cnt s = 1 then (hemit HNowInc s)\<lparr>inc_cnt := 0\<rparr> else s\<lparr>inc_cnt := inc_cnt s + 1\<rparr>);
          s = (if sec_cnt s = 1000
               then let s = s\<lparr>sec_cnt := 0\<rparr>
                    in if host_bLwipInitted s \<and> net_ipaddr w (htr s) = 0xFFFFFFFF \<or> net_ipaddr w (htr s) = 0
                       then dhcp_renew s else s
               else s\<lparr>sec_cnt := sec_cnt s + 1\<rparr>)
      in if host_bLwipInitted s then wifi_host_tick_display (ath_lwip_tick s) else s)"

definition wifi_host_init :: "net \<Rightarrow> host \<Rightarrow> host" where
  "wifi_host_init w s =
     (let s = host_printf [Lit ''wifi_host_init'', Lit [CHR 0x0A]] s;
          s = hemit (HTimer 1000) s;
          s = hemit HHandler s;
          s = wifi_host_init_iop w s
      in host_printf [Lit ''did init iop'', Lit [CHR 0x0A]] s)"

definition DSiWifi_InitDefault :: "net \<Rightarrow> bool \<Rightarrow> host \<Rightarrow> bool \<times> host" where
  "DSiWifi_InitDefault w useFirmwareSettings s = (True, wifi_host_init w s)"

definition DSiWifi_AssocStatus :: "net \<Rightarrow> host \<Rightarrow> assoc_status" where
  "DSiWifi_AssocStatus w s = wifi_host_get_status w s"

definition DSiWifi_GetIP :: "net \<Rightarrow> host \<Rightarrow> u32" where
  "DSiWifi_GetIP w s = wifi_host_get_ipaddr w s"

definition DSiWifi_SetLogHandler :: "bool \<Rightarrow> host \<Rightarrow> host" where
  "DSiWifi_SetLogHandler f s = s\<lparr>log_handler := f\<rparr>"

definition DSiWifi_SetConnectHandler :: "bool \<Rightarrow> host \<Rightarrow> host" where
  "DSiWifi_SetConnectHandler f s = s\<lparr>connect_handler := f\<rparr>"

definition DSiWifi_SetReconnectHandler :: "bool \<Rightarrow> host \<Rightarrow> host" where
  "DSiWifi_SetReconnectHandler f s = s\<lparr>reconnect_handler := f\<rparr>"

subsection \<open>The transmit ring\<close>

text \<open>The host's buffers are a ring of six.\<close>

interpretation host_ring: buffer_ring ip_data_buf_idx "\<lambda>x. snd (host_next_buf w x)" "\<lambda>x. ip_data_buf_idx x < 6" 6 for w
  by unfold_locales (simp_all add: host_next_buf_def)

end
