(* ===== verification/System.thy ===== *)
theory System
  imports Driver Host
begin

text \<open>
  The two processors together. The ARM7 runs the driver, the ARM9 the host side; they share
  main memory and exchange messages through two FIFOs, whose contents are read off the traces:
  everything sent and not yet consumed. A step is one interrupt, tick, message or call of the
  network stack, run to its end; the handler of the start message is the exception, it waits
  for the firmware while interrupts go on.
\<close>

record sys =
  sys_iop :: iop
  sys_host :: host
  consumed7 :: nat
  consumed9 :: nat
  waiting :: bool

primrec fifo7 :: "event list \<Rightarrow> bytes list" where
  "fifo7 [] = []"
| "fifo7 (e # es) = fifo7 es @ (case e of Fifo c bs \<Rightarrow> [putle32 c @ bs] | _ \<Rightarrow> [])"

primrec fifo9 :: "hevent list \<Rightarrow> bytes list" where
  "fifo9 [] = []"
| "fifo9 (e # es) = fifo9 es @ (case e of HSend m \<Rightarrow> [m] | _ \<Rightarrow> [])"

definition pending7 :: "sys \<Rightarrow> bytes list" where
  "pending7 s = drop (consumed7 s) (fifo9 (htr (sys_host s)))"

definition pending9 :: "sys \<Rightarrow> bytes list" where
  "pending9 s = drop (consumed9 s) (fifo7 (tr (sys_iop s)))"

definition on_host :: "(host \<Rightarrow> host) \<Rightarrow> sys \<Rightarrow> sys" where
  "on_host f s =
     (let x = f ((sys_host s)\<lparr>hmem := mem (sys_iop s)\<rparr>)
      in s\<lparr>sys_host := x, sys_iop := (sys_iop s)\<lparr>mem := hmem x\<rparr>\<rparr>)"

inductive sys_step :: "hw \<Rightarrow> net \<Rightarrow> sys \<Rightarrow> sys \<Rightarrow> bool" for h w where
  Irq: "wifi_card_bInitted (sys_iop s) \<Longrightarrow> wifi_card_irq h (sys_iop s) = Some i
    \<Longrightarrow> sys_step h w s (s\<lparr>sys_iop := i\<rparr>)"
| Tick7: "wifi_card_bInitted (sys_iop s) \<Longrightarrow> wifi_card_tick h (sys_iop s) = Some i
    \<Longrightarrow> sys_step h w s (s\<lparr>sys_iop := i\<rparr>)"
| Msg7: "\<not> waiting s \<Longrightarrow> pending7 s = m # ms \<Longrightarrow> wifi_card_handleMsg h m (sys_iop s) = Some (b, i)
    \<Longrightarrow> sys_step h w s (s\<lparr>sys_iop := i, waiting := b, consumed7 := consumed7 s + 1\<rparr>)"
| Ready: "waiting s \<Longrightarrow> wmi_is_ready (sys_iop s) \<Longrightarrow> wlan_init_finish h (sys_iop s) = Some i
    \<Longrightarrow> sys_step h w s (s\<lparr>sys_iop := i, waiting := False\<rparr>)"
| Msg9: "pending9 s = m # ms
    \<Longrightarrow> sys_step h w s (on_host (wifi_host_handleMsg w m) (s\<lparr>consumed9 := consumed9 s + 1\<rparr>))"
| Tick9: "HTimer 1000 \<in> set (htr (sys_host s)) \<Longrightarrow> sys_step h w s (on_host (wifi_host_tick w) s)"
| Output: "host_bLwipInitted (sys_host s)
    \<Longrightarrow> sys_step h w s (on_host (\<lambda>x. snd (ath_link_output w p x)) s)"
| App: "sys_step h w s (on_host (\<lambda>x. snd (DSiWifi_InitDefault w b x)) s)"

inductive_cases sys_stepE: "sys_step h w s t"

subsection \<open>The host's variables\<close>

definition host_msg_ok :: "bytes \<Rightarrow> bool" where
  "host_msg_ok m \<longleftrightarrow> length m = 12
     \<and> (getle32 (\<lambda>i. m ! i) = WIFI_IPCCMD_INITBUFS
          \<longrightarrow> ring_msg_ok (getle32 (\<lambda>i. m ! (4 + i))) (getle32 (\<lambda>i. m ! (8 + i))))"

text \<open>The receive ring as the linker places it: 16-byte aligned, and so in its uncached mirror.\<close>

definition layout_ok :: "net \<Rightarrow> host \<Rightarrow> bool" where
  "layout_ok w x \<longleftrightarrow> ring_msg_ok (net_uncached w (ip_data_in_buf x)) 0x2400"

definition host_wf :: "net \<Rightarrow> host \<Rightarrow> bool" where
  "host_wf w x \<longleftrightarrow> layout_ok w x \<and> ip_data_buf_idx x < 6 \<and> list_all host_msg_ok (fifo9 (htr x))"

text \<open>What an operation that sends nothing leaves alone.\<close>

definition calm :: "host \<Rightarrow> host \<Rightarrow> bool" where
  "calm x y \<longleftrightarrow> ip_data_in_buf y = ip_data_in_buf x \<and> ip_data_buf y = ip_data_buf x
     \<and> ip_data_buf_idx y = ip_data_buf_idx x \<and> fifo9 (htr y) = fifo9 (htr x)"

lemma calm_refl [simp]: "calm x x"
  by (simp add: calm_def)

lemma calm_trans [trans]: "calm x y \<Longrightarrow> calm y z \<Longrightarrow> calm x z"
  by (simp add: calm_def)

lemma host_wf_calm: "calm x y \<Longrightarrow> host_wf w y = host_wf w x"
  by (simp add: calm_def host_wf_def layout_ok_def)

lemma hemit_simps [simp]:
  "hmem (hemit e x) = hmem x" "htr (hemit e x) = e # htr x" "ip_data_in_buf (hemit e x) = ip_data_in_buf x"
  "ip_data_buf (hemit e x) = ip_data_buf x" "ip_data_buf_idx (hemit e x) = ip_data_buf_idx x"
  "host_bLwipInitted (hemit e x) = host_bLwipInitted x" "host_bNeedsDHCPRenew (hemit e x) = host_bNeedsDHCPRenew x"
  "hdevice_mac (hemit e x) = hdevice_mac x" "connect_handler (hemit e x) = connect_handler x"
  by (simp_all add: hemit_def)

lemma hstore_simps [simp]:
  "htr (hstore a bs x) = htr x" "ip_data_in_buf (hstore a bs x) = ip_data_in_buf x"
  "ip_data_buf (hstore a bs x) = ip_data_buf x" "ip_data_buf_idx (hstore a bs x) = ip_data_buf_idx x"
  "hmem (hstore a bs x) = mem_write (hmem x) a bs" "host_bLwipInitted (hstore a bs x) = host_bLwipInitted x"
  by (simp_all add: hstore_def)

lemma calm_simps [simp]:
  "(\<And>m. e \<noteq> HSend m) \<Longrightarrow> calm x (hemit e x)" "calm x (hstore a bs x)"
  "calm x (host_printf fs x)" "calm x (host_printlnf fs x)" "calm x (host_print_mac p m x)"
  by (auto simp: calm_def host_printf_def host_printlnf_def host_print_mac_def split: hevent.splits)

lemma calm_mark_ring [simp]: "calm x (mark_ring w b is x)"
proof (induction "is" arbitrary: x)
  case (Cons i "is")
  show ?case unfolding mark_ring.simps by (rule calm_trans [OF _ Cons.IH]) simp
qed simp

lemma calm_init_bufs [simp]: "calm x (data_init_bufs w x)"
  unfolding data_init_bufs_def by (rule calm_trans [OF calm_mark_ring calm_mark_ring])

lemma calm_to_lwip [simp]: "calm x (data_send_to_lwip w d n x)"
  by (auto simp: data_send_to_lwip_def Let_def calm_def split: option.splits)

lemma calm_dhcp_renew [simp]: "calm x (dhcp_renew x)"
  by (simp add: dhcp_renew_def Let_def calm_def)

lemma calm_lwip_init [simp]: "calm x (wifi_host_lwip_init w x)"
proof (cases "host_bLwipInitted x")
  case False
  let ?y = "ath_init_fn (hemit HNetifAdd (hemit HLwipInit x))"
  have "calm x ?y" by (simp add: calm_def ath_init_fn_def)
  also have "calm ?y (host_printlnf fs ?y)" for fs by simp
  finally have "calm x (host_printlnf fs ?y)" for fs .
  with False show ?thesis
    by (auto simp: wifi_host_lwip_init_def Let_def calm_def ath_init_fn_def)
qed (auto simp: wifi_host_lwip_init_def)

lemma host_wf_send:
  assumes "host_wf w x" "host_msg_ok (putle32 c @ r)"
  shows "host_wf w (fifo_send c r x)"
  using assms by (simp add: host_wf_def layout_ok_def fifo_send_def)

lemma host_wf_mem [simp]: "host_wf w (x\<lparr>hmem := m\<rparr>) = host_wf w x"
  by (rule host_wf_calm) (simp add: calm_def)

subsection \<open>The host keeps its variables well-formed\<close>

lemma host_wf_fields [simp]:
  "host_wf w (x\<lparr>hdevice_mac := m\<rparr>) = host_wf w x" "host_wf w (x\<lparr>hap_mac := m\<rparr>) = host_wf w x"
  "host_wf w (x\<lparr>host_bInitted := b\<rparr>) = host_wf w x" "host_wf w (x\<lparr>host_bLwipInitted := b\<rparr>) = host_wf w x"
  "host_wf w (x\<lparr>host_bNeedsDHCPRenew := b\<rparr>) = host_wf w x" "host_wf w (x\<lparr>inc_cnt := n\<rparr>) = host_wf w x"
  "host_wf w (x\<lparr>sec_cnt := n\<rparr>) = host_wf w x" "host_wf w (x\<lparr>display_counter := n\<rparr>) = host_wf w x"
  by (rule host_wf_calm, simp add: calm_def)+

lemma host_wf_calm_ops [simp]:
  "host_wf w (hstore a bs x) = host_wf w x" "host_wf w (host_printf fs x) = host_wf w x"
  "host_wf w (host_printlnf fs x) = host_wf w x" "host_wf w (host_print_mac p m x) = host_wf w x"
  "host_wf w (data_init_bufs v x) = host_wf w x" "host_wf w (data_send_to_lwip v d n x) = host_wf w x"
  "host_wf w (dhcp_renew x) = host_wf w x" "host_wf w (wifi_host_lwip_init v x) = host_wf w x"
  by (rule host_wf_calm, simp)+

lemma host_wf_emit: "(\<And>m. e \<noteq> HSend m) \<Longrightarrow> host_wf w (hemit e x) = host_wf w x"
  by (rule host_wf_calm) simp

lemma msg_cmd: "getle32 (\<lambda>i. (putle32 c @ r) ! i) = c"
  by (rule getle32_putle32) (simp_all add: nth_append)

lemma host_msg_plain: "length r = 8 \<Longrightarrow> c \<noteq> WIFI_IPCCMD_INITBUFS \<Longrightarrow> host_msg_ok (putle32 c @ r)"
  by (simp add: host_msg_ok_def msg_cmd)

lemma host_wf_requests [simp]:
  "host_wf w x \<Longrightarrow> host_wf w (wifi_host_get_mac w x)" "host_wf w x \<Longrightarrow> host_wf w (wifi_host_get_ap_mac w x)"
  "host_wf w x \<Longrightarrow> host_wf w (wifi_host_init_iop w x)"
  unfolding wifi_host_get_mac_def wifi_host_get_ap_mac_def wifi_host_init_iop_def
  by (erule host_wf_send, rule host_msg_plain, simp_all add: ipc_cmd_defs)+

lemma host_wf_init_bufs [simp]: "host_wf w x \<Longrightarrow> host_wf w (wifi_host_init_bufs w x)"
proof -
  assume wf: "host_wf w x"
  let ?y = "data_init_bufs w x" and ?a = "net_uncached w (ip_data_in_buf (data_init_bufs w x))"
  have y: "host_wf w ?y" using wf by simp
  have "getle32 (\<lambda>i. (putle32 WIFI_IPCCMD_INITBUFS @ putle32 ?a @ putle32 0x2400) ! (4 + i)) = ?a"
    "getle32 (\<lambda>i. (putle32 WIFI_IPCCMD_INITBUFS @ putle32 ?a @ putle32 0x2400) ! (8 + i)) = 0x2400"
    by (rule getle32_putle32, simp_all add: nth_append)+
  then have "host_msg_ok (putle32 WIFI_IPCCMD_INITBUFS @ putle32 ?a @ putle32 0x2400)"
    using y by (simp add: host_msg_ok_def host_wf_def layout_ok_def)
  then show ?thesis
    unfolding wifi_host_init_bufs_def Let_def using host_wf_send [OF y] by simp
qed

lemma host_wf_handleMsg: "host_wf w x \<Longrightarrow> host_wf w (wifi_host_handleMsg w m x)"
  by (simp add: wifi_host_handleMsg_def Let_def)

lemma host_wf_tick: "host_wf w x \<Longrightarrow> host_wf w (wifi_host_tick w x)"
  by (simp add: wifi_host_tick_def Let_def wifi_host_tick_display_def ath_lwip_tick_def host_wf_emit)

lemma host_wf_init: "host_wf w x \<Longrightarrow> host_wf w (snd (DSiWifi_InitDefault w b x))"
  by (simp add: DSiWifi_InitDefault_def wifi_host_init_def Let_def host_wf_emit)

lemma host_wf_output: "host_wf w x \<Longrightarrow> host_wf w (snd (ath_link_output w p x))"
proof -
  assume wf: "host_wf w x"
  have n: "host_wf w (snd (host_next_buf w x))" using wf by (simp add: host_next_buf_def host_wf_def layout_ok_def)
  show ?thesis
    using wf n
    by (auto simp: ath_link_output_def host_send_link_def Let_def split_beta ipc_cmd_defs
        intro!: host_wf_send host_msg_plain)
qed

subsection \<open>Power-on\<close>

text \<open>
  The state in which both processors start: the variables as loaded, the ARM7's message handler
  installed, nothing sent. The allocator of the ARM7 aligns what it returns (\<^verbatim>\<open>memalign\<close>), and the linker
  places the host's receive ring on an aligned address.
\<close>

definition sys_init :: "hw \<Rightarrow> net \<Rightarrow> sys \<Rightarrow> bool" where
  "sys_init h w s \<longleftrightarrow> (\<forall>u. hw_alloc h u AND 3 = 0) \<and> layout_ok w (sys_host s)
     \<and> (\<exists>m small. sys_iop s = installWifiFIFO h (iop_static m small))
     \<and> htr (sys_host s) = [] \<and> ip_data_buf_idx (sys_host s) = 0 \<and> \<not> host_bLwipInitted (sys_host s)
     \<and> consumed7 s = 0 \<and> consumed9 s = 0 \<and> \<not> waiting s"

lemma fifo7_registers [simp]:
  "fifo7 (tr (wifi_sdio_write16 c r v s)) = fifo7 (tr s)" "fifo7 (tr (wifi_sdio_write32 c r u s)) = fifo7 (tr s)"
  "fifo7 (tr (wifi_sdio_mask16 h c r v x s)) = fifo7 (tr s)" "fifo7 (tr (wifi_ndma_init s)) = fifo7 (tr s)"
  by (simp_all add: wifi_sdio_write16_def wifi_sdio_write32_def wifi_sdio_mask16_def wifi_sdio_read16_def wifi_ndma_init_def
      Let_def split_beta emit_def mmio_read16_def)

lemma fifo7_controller_init [simp]: "fifo7 (tr (wifi_sdio_controller_init h c s)) = fifo7 (tr s)"
  by (simp add: wifi_sdio_controller_init_def Let_def)

lemma iop_pre_quiet:
  fixes s t :: "'a iop_scheme"
  assumes "quiet s t"
  shows "iop_pre t = iop_pre s"
  using iop_of_more [OF quiet_more [OF assms]] more_card [OF quiet_more [OF assms]]
  by (simp add: iop_pre_def rx_wf_def ap_wf_def)

lemma installWifiFIFO_pre:
  assumes "\<forall>u. hw_alloc h u AND 3 = 0"
  shows "iop_pre (installWifiFIFO h (iop_static m small))" "\<not> wifi_card_bInitted (installWifiFIFO h (iop_static m small))"
    "fifo7 (tr (installWifiFIFO h (iop_static m small))) = []"
proof -
  have q: "quiet s (emit Handler (wifi_sdio_controller_init h c s))" for c and s :: iop
    by (intro quiet_intros quiet_controller_init) simp_all
  show "iop_pre (installWifiFIFO h (iop_static m small))"
    using assms unfolding installWifiFIFO_def wifi_card_init_def Let_def iop_pre_quiet [OF q]
    by (simp add: wifi_ndma_init_def emit_def iop_static_def iop_pre_def rx_wf_def ap_wf_def c_string_def ptk_of_bytes_def readFirmware_def)
  show "\<not> wifi_card_bInitted (installWifiFIFO h (iop_static m small))"
    unfolding installWifiFIFO_def wifi_card_init_def Let_def more_card [OF quiet_more [OF q]]
    by (simp add: wifi_ndma_init_def emit_def iop_static_def)
  show "fifo7 (tr (installWifiFIFO h (iop_static m small))) = []"
    by (simp add: installWifiFIFO_def wifi_card_init_def Let_def emit_def iop_static_def)
qed

subsection \<open>The invariant of the system\<close>

text \<open>
  Before the host has asked for it the ARM7 is idle: nothing but requests to start has been sent to it and nothing by it.
  From the first request on its state is well-formed.
\<close>

definition fresh :: "sys \<Rightarrow> bool" where
  "fresh s \<longleftrightarrow> iop_pre (sys_iop s) \<and> \<not> wifi_card_bInitted (sys_iop s) \<and> \<not> waiting s
     \<and> fifo7 (tr (sys_iop s)) = [] \<and> \<not> host_bLwipInitted (sys_host s)
     \<and> list_all (\<lambda>m. getle32 (\<lambda>i. m ! i) = WIFI_IPCCMD_INIT_IOP) (fifo9 (htr (sys_host s)))"

definition sys_inv :: "net \<Rightarrow> sys \<Rightarrow> bool" where
  "sys_inv w s \<longleftrightarrow> host_wf w (sys_host s) \<and> (iop_wf (sys_iop s) \<or> fresh s)"

lemma sys_init_inv: "sys_init h w s \<Longrightarrow> sys_inv w s"
  by (auto simp: sys_init_def sys_inv_def fresh_def host_wf_def installWifiFIFO_pre)

lemma iop_mem [simp]: "iop_wf (s\<lparr>mem := m\<rparr>) = iop_wf s" "iop_pre (s\<lparr>mem := m\<rparr>) = iop_pre s"
  by (simp_all add: iop_wf_def iop_pre_def card_wf_def sdio_wf_def rx_wf_def ap_wf_def)

lemma on_host_simps [simp]:
  "sys_host (on_host f s) = f ((sys_host s)\<lparr>hmem := mem (sys_iop s)\<rparr>)"
  "sys_iop (on_host f s) = (sys_iop s)\<lparr>mem := hmem (f ((sys_host s)\<lparr>hmem := mem (sys_iop s)\<rparr>))\<rparr>"
  "waiting (on_host f s) = waiting s" "consumed7 (on_host f s) = consumed7 s" "consumed9 (on_host f s) = consumed9 s"
  by (simp_all add: on_host_def Let_def)

text \<open>A step of the host keeps the invariant when it keeps its own and, before the start, sends only requests to start.\<close>

lemma on_host_inv:
  assumes "sys_inv w s" "\<And>x. host_wf w x \<Longrightarrow> host_wf w (f x)"
    and "fresh s \<Longrightarrow> fresh (on_host f s)"
  shows "sys_inv w (on_host f s)"
  using assms unfolding sys_inv_def by auto

lemma tick_fifo9 [simp]:
  "fifo9 (htr (wifi_host_tick w x)) = fifo9 (htr x)" "host_bLwipInitted (wifi_host_tick w x) = host_bLwipInitted x"
  by (simp_all add: wifi_host_tick_def Let_def wifi_host_tick_display_def ath_lwip_tick_def dhcp_renew_def)

lemma init_fifo9:
  "fifo9 (htr (snd (DSiWifi_InitDefault w b x))) = fifo9 (htr x) @ [putle32 WIFI_IPCCMD_INIT_IOP @ map (net_stack w (htr (hemit HHandler
      (hemit (HTimer 1000) (host_printf [Lit ''wifi_host_init'', Lit [CHR 0x0A]] x))))) [4..<12]]"
  "host_bLwipInitted (snd (DSiWifi_InitDefault w b x)) = host_bLwipInitted x"
  by (simp_all add: DSiWifi_InitDefault_def wifi_host_init_def Let_def wifi_host_init_iop_def fifo_send_def host_printf_def)

lemma fresh_tick: "fresh s \<Longrightarrow> fresh (on_host (wifi_host_tick w) s)"
  by (simp add: fresh_def)

lemma fresh_start: "fresh s \<Longrightarrow> fresh (on_host (\<lambda>x. snd (DSiWifi_InitDefault w b x)) s)"
  by (simp add: fresh_def init_fifo9 msg_cmd)

lemma fresh_pending:
  assumes "fresh s"
  shows "pending9 s = []" "pending7 s = m # ms \<Longrightarrow> getle32 (\<lambda>i. m ! i) = WIFI_IPCCMD_INIT_IOP"
proof -
  show "pending9 s = []" using assms by (simp add: fresh_def pending9_def)
  assume "pending7 s = m # ms"
  then have "m \<in> set (fifo9 (htr (sys_host s)))" unfolding pending7_def by (metis in_set_dropD list.set_intros(1))
  with assms show "getle32 (\<lambda>i. m ! i) = WIFI_IPCCMD_INIT_IOP" by (simp add: fresh_def list_all_iff)
qed

lemma pending7_ok: "host_wf w (sys_host s) \<Longrightarrow> pending7 s = m # ms \<Longrightarrow> host_msg_ok m"
  unfolding pending7_def host_wf_def list_all_iff by (metis in_set_dropD list.set_intros(1))

text \<open>The request to start establishes the invariant, every other message keeps it.\<close>

lemma start_message:
  assumes "iop_pre s" "length m \<ge> 4" "getle32 (\<lambda>i. m ! i) = WIFI_IPCCMD_INIT_IOP" "wifi_card_handleMsg h m s = Some (b, t)"
  shows "iop_wf t"
proof -
  have p: "iop_pre (s\<lparr>wifi_printf_allowed := True\<rparr>)" using assms(1) by (simp add: iop_pre_def rx_wf_def ap_wf_def)
  have c: "getle32 (\<lambda>i. if i < length m then m ! i else hw_stack h (tr s) i) = WIFI_IPCCMD_INIT_IOP"
    using msg_fields [OF assms(2)] assms(3) by simp
  show ?thesis
    using assms(2,4) unfolding wifi_card_handleMsg_def Let_def c
    by (auto split: Option.bind_splits dest: device_init_establishes [OF p])
qed

lemma message_wf:
  assumes "iop_wf s" "host_msg_ok m" "wifi_card_handleMsg h m s = Some (b, t)"
  shows "iop_wf t"
proof (cases "getle32 (\<lambda>i. m ! i) = WIFI_IPCCMD_INIT_IOP")
  case True
  show ?thesis by (rule start_message [OF iop_pre_wf [OF assms(1)] _ True assms(3)]) (use assms(2) in \<open>simp add: host_msg_ok_def\<close>)
next
  case False
  have "ok (live h) (wifi_card_handleMsg h m s) (\<lambda>r. iop_wf (snd r))"
    by (rule handleMsg_wf [OF assms(1)]) (use assms(2) False in \<open>simp_all add: host_msg_ok_def\<close>)
  from ok_partial [OF this assms(3)] show ?thesis by simp
qed

lemma sys_step_inv: "sys_step h w s t \<Longrightarrow> sys_inv w s \<Longrightarrow> sys_inv w t"
proof (induction rule: sys_step.induct)
  case (Irq s i)
  then show ?case using process_pkts_wf by (auto simp: sys_inv_def fresh_def wifi_card_irq_def)
next
  case (Tick7 s i)
  then show ?case using tick_wf ok_partial by (fastforce simp: sys_inv_def fresh_def)
next
  case (Msg7 s m ms b i)
  have "iop_wf i"
    using Msg7 message_wf [OF _ pending7_ok] start_message [of "sys_iop s" m] fresh_pending(2) pending7_ok
    by (auto simp: sys_inv_def fresh_def host_msg_ok_def)
  with Msg7 show ?case by (simp add: sys_inv_def)
next
  case (Ready s i)
  then show ?case using ok_partial [OF wf_init_finish] by (auto simp: sys_inv_def fresh_def)
next
  case (Msg9 s m ms)
  then have "\<not> fresh s" using fresh_pending by auto
  with Msg9 show ?case by (intro on_host_inv host_wf_handleMsg) (auto simp: sys_inv_def fresh_def)
next
  case (Tick9 s)
  then show ?case by (intro on_host_inv host_wf_tick fresh_tick)
next
  case (Output s p)
  then show ?case by (intro on_host_inv host_wf_output) (auto simp: fresh_def)
next
  case (App s b)
  then show ?case by (intro on_host_inv host_wf_init fresh_start)
qed

interpretation dsiwifi: invariant_system "sys_step h w" "sys_init h w" "sys_inv w" for h w
  by unfold_locales (rule sys_init_inv sys_step_inv; assumption)+

end
