(* ===== verification/Queue.thy ===== *)
theory Queue
  imports Prelude
begin

text \<open>
  Bounded queues: an abstract queue with what waits in it and what has left it, and the interface
  through which an implementation is shown to refine it.
\<close>

datatype 'p qop = Put 'p | Get

text \<open>The abstract queue: what waits, and what has been sent, each packet \<open>p\<close> as \<open>fr p\<close>.\<close>

fun queue_step :: "('p \<Rightarrow> 'f) \<Rightarrow> 'p qop \<Rightarrow> 'p list \<times> 'f list \<Rightarrow> 'p list \<times> 'f list" where
  "queue_step fr (Put p) (q, sent) = (q @ [p], sent)"
| "queue_step fr Get ([], sent) = ([], sent)"
| "queue_step fr Get (p # q, sent) = (q, sent @ [fr p])"

primrec queue_fits :: "nat \<Rightarrow> ('p \<Rightarrow> 'f) \<Rightarrow> ('p \<Rightarrow> bool) \<Rightarrow> 'p qop list \<Rightarrow> 'p list \<times> 'f list \<Rightarrow> bool" where
  "queue_fits cap fr good [] a = True"
| "queue_fits cap fr good (x # xs) a \<longleftrightarrow>
     (case x of Put p \<Rightarrow> length (fst a) < cap \<and> good p | Get \<Rightarrow> True) \<and> queue_fits cap fr good xs (queue_step fr x a)"

primrec run_ops :: "('p \<Rightarrow> 's \<Rightarrow> 's) \<Rightarrow> ('s \<Rightarrow> 's option) \<Rightarrow> 'p qop list \<Rightarrow> 's \<Rightarrow> 's option" where
  "run_ops enq deq [] s = Some s"
| "run_ops enq deq (x # xs) s =
     Option.bind (case x of Put p \<Rightarrow> Some (enq p s) | Get \<Rightarrow> deq s) (run_ops enq deq xs)"

locale bounded_queue =
  fixes enq :: "'p \<Rightarrow> 's \<Rightarrow> 's" and deq :: "'s \<Rightarrow> 's option" and abs :: "'s \<Rightarrow> 'p list \<times> 'f list" and inv :: "'s \<Rightarrow> bool"
    and fr :: "'p \<Rightarrow> 'f" and good :: "'p \<Rightarrow> bool" and cap :: nat and alive :: bool
  assumes enq_ok: "inv s \<Longrightarrow> length (fst (abs s)) < cap \<Longrightarrow> good p
      \<Longrightarrow> inv (enq p s) \<and> abs (enq p s) = queue_step fr (Put p) (abs s)"
    and deq_ok: "inv s \<Longrightarrow> ok alive (deq s) (\<lambda>t. inv t \<and> abs t = queue_step fr Get (abs s))"
begin

lemma simulates:
  "inv s \<Longrightarrow> queue_fits cap fr good xs (abs s)
   \<Longrightarrow> ok alive (run_ops enq deq xs s) (\<lambda>t. inv t \<and> abs t = fold (queue_step fr) xs (abs s))"
proof (induction xs arbitrary: s)
  case (Cons x xs)
  let ?m = "case x of Put p \<Rightarrow> Some (enq p s) | Get \<Rightarrow> deq s"
  have "ok alive ?m (\<lambda>t. inv t \<and> abs t = queue_step fr x (abs s))"
    using Cons.prems enq_ok [of s] deq_ok [of s] by (cases x) simp_all
  then have "ok alive ?m (\<lambda>t. ok alive (run_ops enq deq xs t) (\<lambda>u. inv u \<and> abs u = fold (queue_step fr) (x # xs) (abs s)))"
  proof (rule ok_mono)
    fix t assume t: "inv t \<and> abs t = queue_step fr x (abs s)"
    with Cons.IH [of t] Cons.prems(2)
    show "ok alive (run_ops enq deq xs t) (\<lambda>u. inv u \<and> abs u = fold (queue_step fr) (x # xs) (abs s))" by simp
  qed
  then show ?case by (simp add: ok_bind)
qed simp

end

end
