(* ===== verification/Channel.thy ===== *)
theory Channel
  imports System Queue
begin

text \<open>
  The transmit path from the network stack to the card: the host copies a packet into the next slot of its ring and sends the
  slot's address, the ARM7 takes the message, passes the packet to the card and marks the slot as free. Together the
  two processors implement a queue of at most six packets.
\<close>

subsection \<open>Slots\<close>

text \<open>Two buffers of 0x600 bytes that do not overlap, on addresses that wrap around.\<close>

definition apart :: "u32 \<Rightarrow> u32 \<Rightarrow> bool" where
  "apart a b \<longleftrightarrow> 0x600 \<le> unat (b - a) \<and> 0x600 \<le> unat (a - b)"

lemma apart_sym: "apart a b \<Longrightarrow> apart b a"
  by (simp add: apart_def)

lemma apart_neq:
  assumes "apart a b" "k < 0x600" "l < 0x600"
  shows "a + of_nat k \<noteq> b + of_nat l"
proof
  assume e: "a + of_nat k = b + of_nat l"
  show False
  proof (cases "l \<le> k")
    case True
    then have "b - a = of_nat (k - l)" using e by (simp add: of_nat_diff algebra_simps)
    with assms show False by (auto simp: apart_def unat_of_nat)
  next
    case False
    then have "a - b = of_nat (l - k)" using e by (simp add: of_nat_diff algebra_simps)
    with assms show False by (auto simp: apart_def unat_of_nat)
  qed
qed

lemma read_apart_write:
  assumes "apart a b" "n \<le> 0x600" "length bs \<le> 0x600"
  shows "mem_read (mem_write m b bs) a n = mem_read m a n"
  by (rule nth_equalityI) (use assms apart_neq [OF assms(1)] in \<open>simp_all add: nth_mem_read mem_write_other\<close>)

lemma read_apart_outside:
  assumes "apart a b" "n \<le> 0x600" "outside b 0x600 m m'"
  shows "mem_read m' a n = mem_read m a n"
proof (rule nth_equalityI)
  fix k assume k: "k < length (mem_read m' a n)"
  have "0x600 \<le> unat (a + of_nat k - b)"
  proof (rule ccontr)
    let ?l = "unat (a + of_nat k - b)"
    assume "\<not> 0x600 \<le> ?l"
    then have "a + of_nat k \<noteq> b + of_nat ?l" using apart_neq [OF assms(1), of k ?l] k assms(2) by simp
    then show False by simp
  qed
  with assms(3) k show "mem_read m' a n ! k = mem_read m a n ! k" by (simp add: nth_mem_read outside_def)
qed simp

definition tx_slot :: "net \<Rightarrow> host \<Rightarrow> nat \<Rightarrow> u32" where
  "tx_slot w x i = net_uncached w (ip_data_buf x + of_nat (0x600 * i))"

text \<open>The slots as the linker and the uncached mirror lay them out: apart from one another and from the mailbox buffer.\<close>

definition slots_ok :: "net \<Rightarrow> host \<Rightarrow> u32 \<Rightarrow> bool" where
  "slots_ok w x b \<longleftrightarrow> list_all (\<lambda>i. tx_slot w x i \<noteq> 0 \<and> apart (tx_slot w x i) b
     \<and> list_all (\<lambda>j. i = j \<or> apart (tx_slot w x i) (tx_slot w x j)) [0..<6]) [0..<6]"

lemma slots_okD:
  assumes "slots_ok w x b" "i < 6"
  shows "tx_slot w x i \<noteq> 0" "apart (tx_slot w x i) b" "j < 6 \<Longrightarrow> i \<noteq> j \<Longrightarrow> apart (tx_slot w x i) (tx_slot w x j)"
  using assms unfolding slots_ok_def list_all_iff set_upt by (simp_all add: Ball_def) blast

definition tx_msg :: "u32 \<Rightarrow> nat \<Rightarrow> bytes" where
  "tx_msg a n = putle32 WIFI_IPCCMD_SENDPKT @ putle32 a @ putle32 (of_nat n)"

definition msg_packet :: "memory \<Rightarrow> bytes \<Rightarrow> bytes" where
  "msg_packet m b = mem_read m (getle32 (\<lambda>i. b ! (4 + i))) (unat (getle32 (\<lambda>i. b ! (8 + i))))"

lemma tx_msg_fields [simp]:
  "length (tx_msg a n) = 12" "getle32 (\<lambda>i. tx_msg a n ! i) = WIFI_IPCCMD_SENDPKT"
  "getle32 (\<lambda>i. tx_msg a n ! (4 + i)) = a" "getle32 (\<lambda>i. tx_msg a n ! (8 + i)) = of_nat n"
proof -
  show "length (tx_msg a n) = 12" by (simp add: tx_msg_def)
  show "getle32 (\<lambda>i. tx_msg a n ! i) = WIFI_IPCCMD_SENDPKT" unfolding tx_msg_def by (rule msg_cmd)
  show "getle32 (\<lambda>i. tx_msg a n ! (4 + i)) = a" "getle32 (\<lambda>i. tx_msg a n ! (8 + i)) = of_nat n"
    unfolding tx_msg_def by (rule getle32_putle32, simp_all add: nth_append)+
qed

lemma msg_packet_tx: "n < 2 ^ 32 \<Longrightarrow> msg_packet m (tx_msg a n) = mem_read m a n"
  by (simp add: msg_packet_def unat_of_nat)

subsection \<open>The queue in the ring\<close>

text \<open>From slot \<open>b\<close> on the ring holds packets of the lengths \<open>ls\<close>, one pending message each; the next free slot is the one behind them.\<close>

definition tx_held :: "net \<Rightarrow> sys \<Rightarrow> nat \<Rightarrow> nat list \<Rightarrow> bool" where
  "tx_held w s b ls \<longleftrightarrow> b < 6 \<and> length ls \<le> 6 \<and> list_all (\<lambda>l. 1 \<le> l \<and> l \<le> 0x5FA) ls
     \<and> ip_data_buf_idx (sys_host s) = (b + length ls) mod 6
     \<and> pending7 s = map (\<lambda>k. tx_msg (tx_slot w (sys_host s) ((b + k) mod 6)) (ls ! k)) [0..<length ls]"

definition tx_inv :: "net \<Rightarrow> sys \<Rightarrow> bool" where
  "tx_inv w s \<longleftrightarrow> iop_wf (sys_iop s) \<and> \<not> waiting s \<and> consumed7 s \<le> length (fifo9 (htr (sys_host s)))
     \<and> slots_ok w (sys_host s) (mbox_out_buffer (sys_iop s)) \<and> (\<exists>b ls. tx_held w s b ls)"

definition tx_queue :: "sys \<Rightarrow> bytes list" where
  "tx_queue s = map (msg_packet (mem (sys_iop s))) (pending7 s)"

lemma tx_queue_held:
  assumes "tx_held w s b ls"
  shows "tx_queue s = map (\<lambda>k. mem_read (mem (sys_iop s)) (tx_slot w (sys_host s) ((b + k) mod 6)) (ls ! k)) [0..<length ls]"
proof -
  have "ls ! k < 2 ^ 32" if "k < length ls" for k using assms that by (force simp: tx_held_def list_all_length)
  then show ?thesis using assms by (simp add: tx_queue_def tx_held_def msg_packet_tx)
qed

lemma ring_index_neq: "k < n \<Longrightarrow> n < 6 \<Longrightarrow> (b + k) mod 6 \<noteq> (b + n) mod (6::nat)"
  using mod_eq_dvd_iff_nat [of "b + k" "b + n" 6] by (auto dest: dvd_imp_le)

definition enqueue :: "net \<Rightarrow> bytes \<Rightarrow> sys \<Rightarrow> sys" where
  "enqueue w p s = on_host (\<lambda>x. snd (ath_link_output w p x)) s"

definition dequeue :: "hw \<Rightarrow> sys \<Rightarrow> sys option" where
  "dequeue h s = (case pending7 s of [] \<Rightarrow> Some s
     | m # ms \<Rightarrow> map_option (\<lambda>(b, i). s\<lparr>sys_iop := i, waiting := b, consumed7 := consumed7 s + 1\<rparr>)
         (wifi_card_handleMsg h m (sys_iop s)))"

text \<open>Both are steps of the system.\<close>

lemma enqueue_step: "host_bLwipInitted (sys_host s) \<Longrightarrow> sys_step h w s (enqueue w p s)"
  unfolding enqueue_def by (rule Output)

lemma dequeue_step: "\<not> waiting s \<Longrightarrow> pending7 s \<noteq> [] \<Longrightarrow> dequeue h s = Some t \<Longrightarrow> sys_step h w s t"
  unfolding dequeue_def by (cases "pending7 s") (auto intro: Msg7 [unfolded Suc_eq_plus1 [symmetric]])

lemma enqueue_simps:
  assumes "1 \<le> length p" "length p \<le> 0x5FA" "ip_data_buf_idx (sys_host s) = i" "tx_slot w (sys_host s) i \<noteq> 0"
    and "consumed7 s \<le> length (fifo9 (htr (sys_host s)))"
  shows "sys_iop (enqueue w p s) = (sys_iop s)\<lparr>mem := mem_write (mem (sys_iop s)) (tx_slot w (sys_host s) i) p\<rparr>"
    "pending7 (enqueue w p s) = pending7 s @ [tx_msg (tx_slot w (sys_host s) i) (length p)]"
    "ip_data_buf_idx (sys_host (enqueue w p s)) = (i + 1) mod 6" "tx_slot w (sys_host (enqueue w p s)) = tx_slot w (sys_host s)"
    "waiting (enqueue w p s) = waiting s" "consumed7 (enqueue w p s) \<le> length (fifo9 (htr (sys_host (enqueue w p s))))"
    "slots_ok w (sys_host (enqueue w p s)) = slots_ok w (sys_host s)"
  using assms unfolding enqueue_def tx_slot_def slots_ok_def pending7_def
  by (auto simp: ath_link_output_def host_send_link_def host_next_buf_def Let_def fifo_send_def tx_msg_def fun_eq_iff tx_slot_def)

lemma enqueue_held:
  assumes held: "tx_held w s b ls" and n: "length ls < 6" and p: "1 \<le> length p" "length p \<le> 0x5FA"
    and s: "slots_ok w (sys_host s) a" and c: "consumed7 s \<le> length (fifo9 (htr (sys_host s)))"
  shows "tx_held w (enqueue w p s) b (ls @ [length p])" "tx_queue (enqueue w p s) = tx_queue s @ [p]"
proof -
  let ?x = "sys_host s" and ?n = "length ls" and ?t = "enqueue w p s"
  let ?i = "(b + ?n) mod 6"
  have i: "ip_data_buf_idx ?x = ?i" using held by (simp add: tx_held_def)
  have nz: "tx_slot w ?x ?i \<noteq> 0" using slots_okD(1) [OF s] by simp
  note e = enqueue_simps [OF p i nz c]
  show h: "tx_held w ?t b (ls @ [length p])"
    using held n p unfolding tx_held_def e
    by (auto simp: nth_append mod_simps intro!: map_cong)
  have r: "mem_read (mem (sys_iop ?t)) (tx_slot w ?x ((b + k) mod 6)) (ls ! k)
      = mem_read (mem (sys_iop s)) (tx_slot w ?x ((b + k) mod 6)) (ls ! k)" if k: "k < ?n" for k
  proof -
    have "apart (tx_slot w ?x ((b + k) mod 6)) (tx_slot w ?x ?i)"
      by (rule slots_okD(3) [OF s]) (use ring_index_neq [OF k n] in simp_all)
    moreover have "ls ! k \<le> 0x600" using held k by (force simp: tx_held_def list_all_length)
    ultimately show ?thesis unfolding e(1) using p by (simp add: read_apart_write)
  qed
  have "mem_read (mem (sys_iop ?t)) (tx_slot w ?x ?i) (length p) = p" unfolding e(1) using p by (simp add: mem_read_write_same)
  with r show "tx_queue ?t = tx_queue s @ [p]"
    unfolding tx_queue_held [OF h] tx_queue_held [OF held] e(4) by (simp add: nth_append)
qed

text \<open>Taking the first message passes its packet to the card and frees its slot, whatever the rest of the ring holds.\<close>

lemma send_message_ok:
  assumes "iop_wf s" "a \<noteq> 0" "apart a (mbox_out_buffer s)" "1 \<le> n" "n \<le> 0x5FA"
  shows "ok (live h) (wifi_card_handleMsg h (tx_msg a n) s)
    (\<lambda>r. \<not> fst r \<and> iop_wf (snd r) \<and> mbox_out_buffer (snd r) = mbox_out_buffer s
       \<and> outputs (tr (snd r)) = outputs (tr s) @ [Tx 2 MBOXPKT_NOACK (of_nat n) 0x2008 (mem_read (mem s) a n)]
       \<and> (\<forall>c k. apart c (mbox_out_buffer s) \<longrightarrow> apart c a \<longrightarrow> k \<le> 0x600 \<longrightarrow> mem_read (mem (snd r)) c k = mem_read (mem s) c k))"
proof -
  let ?p = "mem_read (mem s) a n"
  have f: "getle32 (\<lambda>i. if i < 12 then tx_msg a n ! i else st i) = WIFI_IPCCMD_SENDPKT"
    "getle32 (\<lambda>i. if 4 + i < 12 then tx_msg a n ! (4 + i) else st (4 + i)) = a"
    "getle32 (\<lambda>i. if 8 + i < 12 then tx_msg a n ! (8 + i) else st (8 + i)) = of_nat n" for st
    using tx_msg_fields(2-4) [of a n, unfolded getle32_def] unfolding getle32_def by (simp_all del: tx_msg_fields)
  have u: "unat (ucast (of_nat n :: u32) :: u16) = n" using assms(5) by (simp add: unsigned_ucast_eq unsigned_of_nat take_bit_nat_eq_self)
  have pay: "payload 6 s (Addr a) (ucast (of_nat n :: u32)) ?p"
    unfolding payload_def u
  proof (intro conjI allI impI)
    fix m assume "outside (mbox_out_buffer s) 6 (mem s) m"
    then have "outside (mbox_out_buffer s) 0x600 (mem s) m" by (auto simp: outside_def)
    from read_apart_outside [OF assms(3) _ this, of n] assms(5) show "deref m (Addr a) n = ?p" by simp
  qed (use assms in simp_all)
  have tx: "ok (live h) (data_send_pkt_idk h (Addr a) (of_nat n) s)
      (xmit [Tx 2 MBOXPKT_NOACK (ucast (of_nat n :: u32)) 0x2008 ?p] s)"
    unfolding data_send_pkt_idk_def by (rule send_packet_ok) (use assms pay u in \<open>simp_all add: iop_wf_def\<close>)
  have c: "(ucast (of_nat n :: u32) :: u16) = of_nat n" unfolding word_unat_eq_iff u using assms(5) by (simp add: unsigned_of_nat take_bit_nat_eq_self)
  have g: "wifi_card_handleMsg h (tx_msg a n) s
      = (do { t \<leftarrow> data_send_pkt_idk h (Addr a) (of_nat n) s; Some (False, store a (putle32 0xF00FF00F) t) })"
    unfolding wifi_card_handleMsg_def Let_def tx_msg_fields(1) f by (simp add: ipc_cmd_defs)
  show ?thesis
    unfolding g
  proof (rule ok_bind_rule [OF tx], rule ok_SomeI)
    fix t assume x: "xmit [Tx 2 MBOXPKT_NOACK (ucast (of_nat n :: u32)) 0x2008 ?p] s t"
    have wf: "iop_wf t" using iop_wf_xmit [OF x] assms(1) by simp
    have "mem_read (mem_write (mem t) a (putle32 0xF00FF00F)) d k = mem_read (mem s) d k"
      if "apart d (mbox_out_buffer s)" "apart d a" "k \<le> 0x600" for d k
      using that read_apart_outside [OF that(1,3)] x by (simp add: read_apart_write xmit_def)
    then show "\<not> fst (False, store a (putle32 0xF00FF00F) t) \<and> iop_wf (snd (False, store a (putle32 0xF00FF00F) t))
       \<and> mbox_out_buffer (snd (False, store a (putle32 0xF00FF00F) t)) = mbox_out_buffer s
       \<and> outputs (tr (snd (False, store a (putle32 0xF00FF00F) t)))
         = outputs (tr s) @ [Tx 2 MBOXPKT_NOACK (of_nat n) 0x2008 (mem_read (mem s) a n)]
       \<and> (\<forall>c k. apart c (mbox_out_buffer s) \<longrightarrow> apart c a \<longrightarrow> k \<le> 0x600
         \<longrightarrow> mem_read (mem (snd (False, store a (putle32 0xF00FF00F) t))) c k = mem_read (mem s) c k)"
      using wf x c xmit_more [OF x] more_card(1) [OF xmit_more [OF x]] by (simp add: store_def xmit_def)
  qed
qed

lemma ok_map_option: "ok L m P \<Longrightarrow> (\<And>r. P r \<Longrightarrow> Q (f r)) \<Longrightarrow> ok L (map_option f m) Q"
  by (auto simp: ok_def split: option.splits)

lemma dequeue_held:
  assumes held: "tx_held w s b (l # ls)" and wf: "iop_wf (sys_iop s)" "consumed7 s \<le> length (fifo9 (htr (sys_host s)))"
    and s: "slots_ok w (sys_host s) (mbox_out_buffer (sys_iop s))"
  shows "ok (live h) (dequeue h s) (\<lambda>t. tx_inv w t \<and> tx_queue t = tl (tx_queue s)
     \<and> outputs (tr (sys_iop t)) = outputs (tr (sys_iop s)) @ [Tx 2 MBOXPKT_NOACK (of_nat l) 0x2008 (hd (tx_queue s))])"
proof -
  let ?x = "sys_host s" and ?i = "sys_iop s" and ?n = "length ls"
  let ?a = "tx_slot w ?x b"
  define ms where "ms = map (\<lambda>k. tx_msg (tx_slot w ?x (((b + 1) mod 6 + k) mod 6)) (ls ! k)) [0..<?n]"
  have b: "b < 6" "1 \<le> l" "l \<le> 0x5FA" "length ls < 6" and ls: "list_all (\<lambda>l. 1 \<le> l \<and> l \<le> 0x5FA) ls"
    using held by (auto simp: tx_held_def)
  have p: "pending7 s = tx_msg ?a l # ms"
    using held b(1) unfolding tx_held_def ms_def
    by (simp add: map_upt_Suc mod_simps del: upt_Suc)
  have q: "tx_queue s = mem_read (mem ?i) ?a l # map (msg_packet (mem ?i)) ms"
    using b(3) by (simp add: tx_queue_def p msg_packet_tx)
  have d: "dequeue h s = map_option (\<lambda>(b, i). s\<lparr>sys_iop := i, waiting := b, consumed7 := consumed7 s + 1\<rparr>)
      (wifi_card_handleMsg h (tx_msg ?a l) ?i)" by (simp add: dequeue_def p)
  have send: "ok (live h) (wifi_card_handleMsg h (tx_msg ?a l) ?i)
    (\<lambda>r. \<not> fst r \<and> iop_wf (snd r) \<and> mbox_out_buffer (snd r) = mbox_out_buffer ?i
       \<and> outputs (tr (snd r)) = outputs (tr ?i) @ [Tx 2 MBOXPKT_NOACK (of_nat l) 0x2008 (mem_read (mem ?i) ?a l)]
       \<and> (\<forall>c k. apart c (mbox_out_buffer ?i) \<longrightarrow> apart c ?a \<longrightarrow> k \<le> 0x600 \<longrightarrow> mem_read (mem (snd r)) c k = mem_read (mem ?i) c k))"
    by (rule send_message_ok) (use wf b slots_okD [OF s b(1)] in simp_all)
  show ?thesis unfolding d
  proof (rule ok_map_option [OF send])
    fix r :: "bool \<times> iop" assume r: "\<not> fst r \<and> iop_wf (snd r) \<and> mbox_out_buffer (snd r) = mbox_out_buffer ?i
       \<and> outputs (tr (snd r)) = outputs (tr ?i) @ [Tx 2 MBOXPKT_NOACK (of_nat l) 0x2008 (mem_read (mem ?i) ?a l)]
       \<and> (\<forall>c k. apart c (mbox_out_buffer ?i) \<longrightarrow> apart c ?a \<longrightarrow> k \<le> 0x600 \<longrightarrow> mem_read (mem (snd r)) c k = mem_read (mem ?i) c k)"
    let ?t = "case r of (b, i) \<Rightarrow> s\<lparr>sys_iop := i, waiting := b, consumed7 := consumed7 s + 1\<rparr>"
    have t: "sys_iop ?t = snd r" "sys_host ?t = ?x" "waiting ?t = fst r" "consumed7 ?t = Suc (consumed7 s)"
      by (simp_all add: split_beta)
    have p7: "pending7 ?t = ms" using p unfolding pending7_def t by (simp add: drop_Suc tl_drop [symmetric])
    have held': "tx_held w ?t ((b + 1) mod 6) ls"
      unfolding tx_held_def p7 t(2) ms_def using held b ls by (simp add: tx_held_def mod_simps)
    have "consumed7 s < length (fifo9 (htr ?x))" using p by (metis drop_eq_Nil leI list.distinct(1) pending7_def)
    then have inv: "tx_inv w ?t" unfolding tx_inv_def t using r s held' by auto
    have "msg_packet (mem (snd r)) m = msg_packet (mem ?i) m" if m: "m \<in> set ms" for m
    proof -
      obtain k where k: "k < ?n" "m = tx_msg (tx_slot w ?x (((b + 1) mod 6 + k) mod 6)) (ls ! k)"
        using m by (auto simp: ms_def)
      let ?j = "((b + 1) mod 6 + k) mod 6"
      have "?j \<noteq> b" using ring_index_neq [of 0 "Suc k" b] k(1) b by (simp add: mod_simps)
      then have "apart (tx_slot w ?x ?j) ?a" by (intro slots_okD(3) [OF s]) (use b in simp_all)
      moreover have "ls ! k \<le> 0x5FA" using ls k(1) by (simp add: list_all_length)
      ultimately show ?thesis using r slots_okD(2) [OF s, of ?j] by (simp add: k(2) msg_packet_tx)
    qed
    then have "tx_queue ?t = tl (tx_queue s)" unfolding q unfolding tx_queue_def p7 t(1) by simp
    with inv r q show "tx_inv w ?t \<and> tx_queue ?t = tl (tx_queue s)
      \<and> outputs (tr (sys_iop ?t)) = outputs (tr ?i) @ [Tx 2 MBOXPKT_NOACK (of_nat l) 0x2008 (hd (tx_queue s))]"
      unfolding t by simp
  qed
qed

text \<open>The frame in which a packet reaches the card.\<close>

definition packet_tx :: "bytes \<Rightarrow> outp" where
  "packet_tx p = Tx 2 MBOXPKT_NOACK (of_nat (length p)) 0x2008 p"

abbreviation (input) packet_ok :: "bytes \<Rightarrow> bool" where
  "packet_ok p \<equiv> 1 \<le> length p \<and> length p \<le> 0x5FA"

definition channel :: "sys \<Rightarrow> bytes list \<times> outp list" where
  "channel s = (tx_queue s, outputs (tr (sys_iop s)))"

interpretation tx: bounded_queue "enqueue w" "dequeue h" channel "tx_inv w" packet_tx packet_ok 6 "live h" for h w
proof
  fix s p assume inv: "tx_inv w s" and n: "length (fst (channel s)) < 6" and p: "packet_ok p"
  obtain b ls where held: "tx_held w s b ls" using inv by (auto simp: tx_inv_def)
  have l: "length ls < 6" using n tx_queue_held [OF held] by (simp add: channel_def)
  have c: "consumed7 s \<le> length (fifo9 (htr (sys_host s)))" "slots_ok w (sys_host s) (mbox_out_buffer (sys_iop s))"
    using inv by (auto simp: tx_inv_def)
  have i: "ip_data_buf_idx (sys_host s) = (b + length ls) mod 6" using held by (simp add: tx_held_def)
  have nz: "tx_slot w (sys_host s) ((b + length ls) mod 6) \<noteq> 0" using slots_okD(1) [OF c(2)] by simp
  note e = enqueue_simps [OF conjunct1 [OF p] conjunct2 [OF p] i nz c(1)]
  note h = enqueue_held [OF held l conjunct1 [OF p] conjunct2 [OF p] c(2,1)]
  have "tx_inv w (enqueue w p s)" using inv h(1) e(6) unfolding tx_inv_def e(1,5,7) by auto
  then show "tx_inv w (enqueue w p s) \<and> channel (enqueue w p s) = queue_step packet_tx (Put p) (channel s)"
    using h(2) by (simp add: channel_def e(1))
next
  fix s assume inv: "tx_inv w s"
  obtain b ls where held: "tx_held w s b ls" using inv by (auto simp: tx_inv_def)
  show "ok (live h) (dequeue h s) (\<lambda>t. tx_inv w t \<and> channel t = queue_step packet_tx Get (channel s))"
  proof (cases ls)
    case Nil
    then have "pending7 s = []" "tx_queue s = []" using held tx_queue_held [OF held] by (simp_all add: tx_held_def)
    with inv show ?thesis by (simp add: dequeue_def channel_def)
  next
    case (Cons l ls')
    have "ok (live h) (dequeue h s) (\<lambda>t. tx_inv w t \<and> tx_queue t = tl (tx_queue s)
      \<and> outputs (tr (sys_iop t)) = outputs (tr (sys_iop s)) @ [Tx 2 MBOXPKT_NOACK (of_nat l) 0x2008 (hd (tx_queue s))])"
      by (rule dequeue_held) (use inv held Cons in \<open>auto simp: tx_inv_def\<close>)
    moreover have "tx_queue s = hd (tx_queue s) # tl (tx_queue s)" "length (hd (tx_queue s)) = l"
      using tx_queue_held [OF held] Cons by (simp_all add: upt_conv_Cons del: upt_Suc)
    ultimately show ?thesis by (elim ok_mono) (metis channel_def packet_tx_def queue_step.simps(3))
  qed
qed

subsection \<open>The received packet\<close>

definition rx_msg :: "u32 \<Rightarrow> u32 \<Rightarrow> bytes" where
  "rx_msg a n = putle32 WIFI_IPCINT_PKTDATA @ putle32 a @ putle32 n"

lemma rx_msg_fields:
  "length (rx_msg a n) = 12" "getle32 (\<lambda>i. if i < 12 then rx_msg a n ! i else st i) = WIFI_IPCINT_PKTDATA"
  "getle32 (\<lambda>i. if 4 + i < 12 then rx_msg a n ! (4 + i) else st (4 + i)) = a"
  "getle32 (\<lambda>i. if 8 + i < 12 then rx_msg a n ! (8 + i) else st (8 + i)) = n"
proof -
  show "length (rx_msg a n) = 12" by (simp add: rx_msg_def)
  show "getle32 (\<lambda>i. if i < 12 then rx_msg a n ! i else st i) = WIFI_IPCINT_PKTDATA"
    "getle32 (\<lambda>i. if 4 + i < 12 then rx_msg a n ! (4 + i) else st (4 + i)) = a"
    "getle32 (\<lambda>i. if 8 + i < 12 then rx_msg a n ! (8 + i) else st (8 + i)) = n"
    unfolding rx_msg_def by (rule getle32_putle32, simp_all add: nth_append)+
qed

lemma host_takes_packet:
  "wifi_host_handleMsg w (rx_msg a n) x = data_send_to_lwip w (net_uncached w a) n x"
  unfolding wifi_host_handleMsg_def Let_def rx_msg_fields by (simp add: ipc_cmd_defs rx_msg_fields)

text \<open>What the network stack is given of a packet of \<open>len\<close> bytes at \<open>a\<close>, when its buffer has \<open>plen\<close> bytes.\<close>

definition delivered :: "memory \<Rightarrow> u32 \<Rightarrow> u32 \<Rightarrow> nat \<Rightarrow> bytes" where
  "delivered m a len plen = mem_read m a (min (min (unat len) 0x5FA) plen)"

lemma data_send_to_lwip_cases:
  "data_send_to_lwip w a n x =
     (let y = hstore (a - 6) (putle32 0xF00FF00F) x in
      case net_pbuf w (htr x) (min (unat n) 0x5FA) of
        None \<Rightarrow> y
      | Some plen \<Rightarrow> let p = delivered (hmem x) a n plen in
          y\<lparr>htr := (if net_input w (htr x) p then [] else [HPbufFree]) @ HInput p # htr x\<rparr>)"
proof -
  have u: "unat (if n > 0x600 - 6 then 0x600 - 6 else n :: u32) = min (unat n) 0x5FA"
    by (auto simp: word_less_nat_alt min_def)
  have m: "(if k > l then l else k) = min k l" for k l :: nat by simp
  show ?thesis
    unfolding data_send_to_lwip_def Let_def u m delivered_def
    by (cases "net_pbuf w (htr x) (min (unat n) 0x5FA)") (simp_all add: hemit_def hstore_def)
qed

lemma mark_slot: "mem_read (mem_write m a (putle32 v)) a 4 = putle32 v"
  using mem_read_write_same [of "putle32 v" m a] by simp

subsection \<open>The theorems\<close>

text \<open>An example: both processors as they are when the driver has selected an access point, over a stack that accepts everything.\<close>

definition idle_net :: net where
  "idle_net = \<lparr>net_uncached = (\<lambda>a. a), net_pbuf = (\<lambda>_ n. Some n), net_input = (\<lambda>_ _. True), net_add = (\<lambda>_. True),
     net_ipaddr = (\<lambda>_. 0), net_stack = (\<lambda>_ _. 0)\<rparr>"

definition host_static :: host where
  "host_static = \<lparr>hmem = (\<lambda>_. 0), htr = [], hdevice_mac = replicate 6 0, hap_mac = replicate 6 0, host_bInitted = False,
     host_bLwipInitted = False, host_bNeedsDHCPRenew = False, ip_data_buf_idx = 0, ip_data_buf = 0x2100000, ip_data_in_buf = 0x2200000,
     netif_hwaddr = replicate 6 0, inc_cnt = 0, sec_cnt = 0, display_counter = 0, log_handler = False, connect_handler = False,
     reconnect_handler = False\<rparr>"

definition sys_with :: "iop \<Rightarrow> sys" where
  "sys_with i = \<lparr>sys_iop = i, sys_host = host_static, consumed7 = 0, consumed9 = 0, waiting = False\<rparr>"

text \<open>
  C4. From power-on, under every interleaving of interrupts, ticks and messages on both processors, calls of the network stack and of the application, the state
  stays well-formed: until the request to start the ARM7 is idle, and from then on the buffers, ring indices, names, keys and tables of the driver have their sizes and bounds (the channel index of the scan is not part of this), and the host sends only messages the driver accepts.
\<close>

theorem system_invariant:
  assumes "sys_init h w s" "(sys_step h w)\<^sup>*\<^sup>* s t"
  shows "sys_inv w t"
  using assms by (rule dsiwifi.reachable_inv)

theorem system_invariant_witness:
  "let s = sys_with (installWifiFIFO idle_hw (iop_static (\<lambda>_. 0) 0x3800000))
   in sys_inv idle_net (on_host (\<lambda>x. snd (DSiWifi_InitDefault idle_net True x)) s)"
proof -
  let ?s = "sys_with (installWifiFIFO idle_hw (iop_static (\<lambda>_. 0) 0x3800000))"
  have "sys_init idle_hw idle_net ?s"
    by (auto simp: sys_init_def sys_with_def host_static_def idle_hw_def layout_ok_def idle_net_def ring_msg_ok_def)
  then show ?thesis
    using system_invariant [of idle_hw idle_net ?s] App [of idle_hw idle_net ?s True] by (simp add: Let_def r_into_rtranclp)
qed

text \<open>
  C5. The transmit path is a queue. However the calls of the network stack and the handling of messages on the ARM7 interleave, as long as no more than six packets wait, the
  two processors behave like an abstract queue of packets: each packet of up to 0x5FA bytes reaches the card unchanged, once, in order, and what waits in the ring is
  exactly what has been put and not yet sent.
\<close>

theorem transmit_is_queue:
  assumes "tx_inv w s" "queue_fits 6 packet_tx packet_ok ops (channel s)"
  shows "ok (live h) (run_ops (enqueue w) (dequeue h) ops s)
     (\<lambda>t. tx_inv w t \<and> channel t = fold (queue_step packet_tx) ops (channel s))"
  using assms by (rule tx.simulates)

theorem transmit_is_queue_witness:
  "\<exists>t. run_ops (enqueue idle_net) (dequeue idle_hw) [Put [1, 2], Put [3], Get, Put [4], Get] (sys_with iop_selected) = Some t
     \<and> channel t = ([[4]], [packet_tx [1, 2], packet_tx [3]])"
proof -
  let ?s = "sys_with iop_selected"
  have p: "pending7 ?s = []" by (simp add: pending7_def sys_with_def host_static_def)
  have "slots_ok idle_net host_static (mbox_out_buffer iop_selected)"
    by (simp add: slots_ok_def tx_slot_def idle_net_def host_static_def iop_selected_def apart_def upt_rec)
  then have inv: "tx_inv idle_net ?s"
    using p iop_selected_wf unfolding tx_inv_def tx_held_def
    by (auto simp: sys_with_def host_static_def intro!: exI [of _ 0] exI [of _ "[]"])
  have c: "channel ?s = ([], [])" using p by (simp add: channel_def tx_queue_def sys_with_def)
  show ?thesis
    using ok_total [OF transmit_is_queue [OF inv, of "[Put [1, 2], Put [3], Get, Put [4], Get]" idle_hw] live_idle_hw] c by auto
qed

text \<open>
  C9. The receive path. A data packet that is not part of a handshake is announced to the host in one message, and the host hands its bytes, up to 0x5FA of them and to the size of the
  stack's buffer, to the network stack, releasing the buffer when the stack refuses it. Without a buffer the packet is dropped. In each case the slot it came in is marked as free.
\<close>

theorem packet_received:
  assumes "getbe16 (\<lambda>i. view (mem (sys_iop s)) a (22 + i)) \<noteq> 0x888E" "net_uncached w a = a"
    and "consumed9 s = length (fifo7 (tr (sys_iop s)))"
  shows "\<exists>i m. data_handle_pkt h a len (sys_iop s) = Some i \<and> pending9 (s\<lparr>sys_iop := i\<rparr>) = [m]
     \<and> (let t = on_host (wifi_host_handleMsg w m) (s\<lparr>sys_iop := i\<rparr>); es = htr (sys_host s) in
        mem_read (mem (sys_iop t)) (a - 6) 4 = putle32 0xF00FF00F
        \<and> htr (sys_host t) = (case net_pbuf w es (min (unat len) 0x5FA) of None \<Rightarrow> es
            | Some plen \<Rightarrow> let p = delivered (mem (sys_iop s)) a len plen in
                (if net_input w es p then [] else [HPbufFree]) @ HInput p # es))"
proof -
  define n :: u32 where "n = (if len > 0x600 - 6 then 0x600 - 6 else len)"
  let ?s = "sys_iop s"
  let ?i = "emit (Fifo WIFI_IPCINT_PKTDATA (putle32 a @ putle32 n)) ?s"
  have h: "data_handle_pkt h a len ?s = Some ?i" using assms(1) by (simp add: data_handle_pkt_def Let_def n_def)
  have p: "pending9 (s\<lparr>sys_iop := ?i\<rparr>) = [rx_msg a n]" using assms(3) by (simp add: pending9_def rx_msg_def)
  have n: "min (unat n) 0x5FA = min (unat len) 0x5FA" by (auto simp: n_def word_less_nat_alt min_def)
  then have d: "delivered m a n = delivered m a len" for m by (simp add: delivered_def fun_eq_iff)
  show ?thesis
    using h p
    by (intro exI [of _ ?i] exI [of _ "rx_msg a n"])
      (simp add: Let_def host_takes_packet assms(2) data_send_to_lwip_cases n d mark_slot split: option.splits)
qed

theorem packet_received_witness:
  "\<exists>i m. data_handle_pkt idle_hw 0x2200006 30 iop_selected = Some i
     \<and> htr (sys_host (on_host (wifi_host_handleMsg idle_net m) (sys_with i))) = [HInput (replicate 30 0)]"
proof -
  have r: "mem_read (\<lambda>_. 0) a n = replicate n 0" for a :: u32 and n by (induction n arbitrary: a) simp_all
  have m: "mem iop_selected = (\<lambda>_. 0)" by (simp add: iop_selected_def iop_static_def)
  let ?s = "sys_with iop_selected"
  have s: "sys_iop ?s = iop_selected" "sys_with iop_selected\<lparr>sys_iop := i\<rparr> = sys_with i" "htr (sys_host ?s) = []" for i
    by (simp_all add: sys_with_def host_static_def)
  have n: "net_pbuf idle_net es k = Some k" "net_input idle_net es p" for es k p by (simp_all add: idle_net_def)
  have "getbe16 (\<lambda>i. view (mem (sys_iop ?s)) 0x2200006 (22 + i)) \<noteq> 0x888E" by (simp add: s m view_def getbe16_def)
  moreover have "net_uncached idle_net 0x2200006 = 0x2200006" "consumed9 ?s = length (fifo7 (tr (sys_iop ?s)))"
    by (simp_all add: idle_net_def sys_with_def)
  ultimately show ?thesis
    using packet_received [of ?s "0x2200006" idle_net idle_hw 30] by (auto simp: s n m r Let_def delivered_def)
qed

end
