(* ===== verification/Startup.thy ===== *)
theory Startup
  imports Driver
begin

text \<open>
  What the driver does when no card answers: every command of \<^verbatim>\<open>wifi_card_wlan_init\<close> fails, and the start ends with an error before any firmware is talked to.
\<close>

subsection \<open>A missing card\<close>

text \<open>A controller that answers every command with an error, as it does when no card responds.\<close>

definition card_absent :: "hw \<Rightarrow> bool" where
  "card_absent h \<longleftrightarrow> (\<forall>t. hw_r16 h t (REG_SDIO_BASE + WIFI_SDIO_OFFS_IRQ_STAT1) AND WIFI_SDIO_MASK_ERR \<noteq> 0)"

lemma tmio_chunks [simp]: "tmio (ipc_send_chunks ptr i s) = tmio s"
proof (induction ptr i s rule: ipc_send_chunks.induct)
  case (1 ptr i s)
  then show ?case by (cases "i \<le> length ptr") (simp_all add: ipc_send_chunks.simps [of ptr i s] emit_def)
qed

lemma tmio_print [simp]: "tmio (wifi_printf fs s) = tmio s" "tmio (wifi_printlnf fs s) = tmio s"
  by (simp_all add: wifi_printf_def wifi_printlnf_def wifi_ipcSendStringAlt_def)

lemma status_kept:
  "ctx_status (tmio t) = v \<Longrightarrow> ctx_status (tmio (snd (wifi_sdio_read16 h c r t))) = v"
  "ctx_status (tmio t) = v \<Longrightarrow> ctx_status (tmio (wifi_sdio_write16 c r x t)) = v"
  "ctx_status (tmio t) = v \<Longrightarrow> ctx_status (tmio (snd (sdio_response h i t))) = v"
  "ctx_status (tmio t) = v \<Longrightarrow> ctx_status (tmio (wifi_printlnf fs t)) = v"
  "ctx_status (tmio t) = v \<Longrightarrow> ctx_status d = ctx_status (tmio t) \<Longrightarrow> ctx_status (tmio (t\<lparr>tmio := d\<rparr>)) = v"
  "(q \<Longrightarrow> ctx_status (tmio t) = v) \<Longrightarrow> (\<not> q \<Longrightarrow> ctx_status (tmio u) = v) \<Longrightarrow> ctx_status (tmio (if q then t else u)) = v"
  by (simp_all add: wifi_sdio_read16_def mmio_read16_def emit_def wifi_sdio_write16_def sdio_response_def Let_def split_beta)

lemma finish_status: "ctx_status (tmio t) = v \<Longrightarrow> ctx_status (tmio (sdio_finish h cmd t)) = v"
  unfolding sdio_finish_def Let_def split_beta by (intro status_kept | assumption | simp)+

lemma wait_fails:
  assumes "card_absent h" "ctx_controller (tmio s) = REG_SDIO_BASE"
  shows "\<exists>t. sdio_wait h cmd fl 0 sz s = Some t \<and> ctx_status (tmio t) AND 4 \<noteq> 0"
proof -
  have e: "fst (wifi_sdio_read16 h REG_SDIO_BASE WIFI_SDIO_OFFS_IRQ_STAT1 s) AND WIFI_SDIO_MASK_ERR \<noteq> 0"
    using assms(1) by (simp add: card_absent_def wifi_sdio_read16_def mmio_read16_def Let_def)
  have four: "(x OR 4) AND 4 \<noteq> (0 :: u32)" for x
    by (auto simp: bit_eq_iff bit_simps intro!: exI [of _ 2])
  show ?thesis
    unfolding sdio_wait.simps [of h cmd fl 0 sz s] assms(2) Let_def split_beta
    using e by (simp add: sdio_rx_def sdio_tx_def or_status_def four)
qed

lemma command_fails:
  fixes s :: "'a machine_scheme"
  assumes "card_absent h" "sdio_wf s" "\<not> cmd_data_length cmd" "ctx_buffer (tmio s) = 0"
  shows "ok (live h) (wifi_sdio_send_command h cmd args s) (\<lambda>t. quiet s t \<and> ctx_status (tmio t) AND 4 \<noteq> 0)"
proof (rule ok_conj [OF send_command_quiet [OF assms(2-4)]])
  let ?s0 = "s\<lparr>tmio := (tmio s)\<lparr>ctx_status := 0\<rparr>\<rparr>"
  let ?fl = "(if cmd_response_type cmd \<noteq> wifi_sdio_resp_none then WIFI_SDIO_STAT0_CMDRESPEND else 0)
      OR (if cmd_data_transfer cmd then WIFI_SDIO_STAT0_DATAEND else 0)"
  have c: "ctx_controller (tmio s) = REG_SDIO_BASE" "ctx_block_size (tmio s) = 128" "\<not> ctx_debug (tmio s)"
    using assms(2) by (auto simp: sdio_wf_def)
  have "ok (live h)
     (do { u \<leftarrow> poll16 h (REG_SDIO_BASE + WIFI_SDIO_OFFS_IRQ_STAT1) WIFI_SDIO_STAT1_CMD_BUSY ?s0;
           u \<leftarrow> sdio_wait h cmd ?fl 0 (ctx_size (tmio s)) (sdio_setup cmd args (ctx_size (tmio s)) u);
           Some (sdio_finish h cmd u) }) (\<lambda>t. ctx_status (tmio t) AND 4 \<noteq> 0)"
  proof (rule ok_bind_rule [OF poll_busy_ok])
    fix u assume "quiet ?s0 u"
    then have "quiet ?s0 (sdio_setup cmd args (ctx_size (tmio s)) u)" by (intro quiet_intros)
    then have "ctx_controller (tmio (sdio_setup cmd args (ctx_size (tmio s)) u)) = REG_SDIO_BASE"
      using c(1) quiet_controller by fastforce
    from wait_fails [OF assms(1) this, of cmd ?fl "ctx_size (tmio s)"]
    show "ok (live h) (do { u \<leftarrow> sdio_wait h cmd ?fl 0 (ctx_size (tmio s)) (sdio_setup cmd args (ctx_size (tmio s)) u);
           Some (sdio_finish h cmd u) }) (\<lambda>t. ctx_status (tmio t) AND 4 \<noteq> 0)" by (auto simp: finish_status [OF refl])
  qed
  then show "ok (live h) (wifi_sdio_send_command h cmd args s) (\<lambda>t. ctx_status (tmio t) AND 4 \<noteq> 0)"
    using c assms(3,4) by (simp add: wifi_sdio_send_command_def Let_def)
qed

text \<open>\<open>failed s t\<close>: a command sent in \<open>s\<close> has failed, and nothing but the controller's registers and the log has been touched.\<close>

definition failed :: "'a card_scheme \<Rightarrow> 'a card_scheme \<Rightarrow> bool" where
  "failed s t \<longleftrightarrow> card_wf t \<and> ctx_status (tmio t) AND 4 \<noteq> 0 \<and> mem t = mem s \<and> machine.more t = machine.more s
     \<and> outputs (tr t) = outputs (tr s)"

lemma failed_trans: "failed s t \<Longrightarrow> failed t u \<Longrightarrow> failed s u"
  by (simp add: failed_def)

lemma failed_quiet: "card_wf s \<Longrightarrow> quiet s t \<Longrightarrow> ctx_status (tmio t) AND 4 \<noteq> 0 \<Longrightarrow> failed s t"
  using card_wf_quiet [of s t] out_quiet [of s t] by (auto simp: failed_def quiet_def)

lemma card_command_fails:
  fixes s :: "'a card_scheme"
  assumes "card_absent h" "card_wf s" "\<not> cmd_data_length cmd"
  shows "ok (live h) (wifi_card_send_command h cmd args s) (failed s)"
proof -
  have q: "quiet s (set_buffer 0 s)" by (rule quiet_set_buffer) simp
  have "device_curctx s" "sdio_wf (set_buffer 0 s)" using assms(2) by (simp_all add: card_wf_def sdio_wf_def set_buffer_def)
  then show ?thesis
    unfolding wifi_card_send_command_def
    using ok_mono [OF command_fails [OF assms(1), of "set_buffer 0 s" cmd args]] assms(3) failed_quiet [OF assms(2) quiet_trans [OF q]]
    by (simp add: set_buffer_def)
qed

lemma failed_curctx: "failed s t \<Longrightarrow> device_curctx t"
  by (simp add: failed_def card_wf_def)

lemma card_byte_fails:
  assumes "card_absent h" "card_wf s"
  shows "ok (live h) (wifi_card_write_func0_u8 h a v s) (\<lambda>r. fst r = -1 \<and> failed s (snd r))"
    and "ok (live h) (wifi_card_read_func0_u8 h a s) (\<lambda>r. fst r = 0xFF \<and> failed s (snd r))"
proof -
  have c: "\<not> cmd_data_length cmd52" by (simp add: cmd52_def)
  show "ok (live h) (wifi_card_write_func0_u8 h a v s) (\<lambda>r. fst r = -1 \<and> failed s (snd r))"
    unfolding wifi_card_write_func0_u8_def wifi_card_write_func_byte_def
    by (rule ok_bind_rule [OF card_command_fails [OF assms c]]) (simp add: failed_curctx, simp add: failed_def)
  show "ok (live h) (wifi_card_read_func0_u8 h a s) (\<lambda>r. fst r = 0xFF \<and> failed s (snd r))"
    unfolding wifi_card_read_func0_u8_def wifi_card_read_func_byte_def
    by (rule ok_bind_rule [OF card_command_fails [OF assms c]]) (simp add: failed_curctx, simp add: failed_def)
qed

text \<open>One more step of a sequence whose commands all fail.\<close>

lemma failed_wf: "failed s t \<Longrightarrow> card_wf t"
  by (simp add: failed_def)

lemma fails_write:
  assumes "card_absent h" "failed s t" "\<And>u. failed s u \<Longrightarrow> ok (live h) (f u) Q"
  shows "ok (live h) (wifi_card_write_func0_u8 h a v t \<bind> (\<lambda>(r, u). f u)) Q"
  by (rule ok_bind_rule [OF card_byte_fails(1) [OF assms(1) failed_wf [OF assms(2)]]])
    (use assms(3) failed_trans [OF assms(2)] in \<open>auto simp: split_beta\<close>)

lemma fails_command:
  assumes "card_absent h" "failed s t" "\<not> cmd_data_length cmd"
  shows "ok (live h) (wifi_card_send_command h cmd a t \<bind> (\<lambda>u. unless_error u (f u))) (\<lambda>r. fst r = -1 \<and> failed s (snd r))"
  by (rule ok_bind_rule [OF card_command_fails [OF assms(1) failed_wf [OF assms(2)] assms(3)]])
    (use failed_trans [OF assms(2)] in \<open>auto simp: unless_error_def failed_def\<close>)

lemma bus_fails:
  assumes "card_absent h" "failed s t"
  shows "ok (live h) (wlan_bus h t) (\<lambda>r. fst r = -1 \<and> failed s (snd r))"
  unfolding wlan_bus_def
  by (rule fails_write [OF assms(1,2)], rule fails_write [OF assms(1)], assumption, rule fails_command [OF assms(1)], assumption)
    (simp add: cmd52_def)

lemma reset_fails:
  fixes s :: "'a card_scheme"
  assumes "card_absent h" "card_wf s"
  shows "ok (live h) (wlan_reset h s) (\<lambda>r. fst r = -1 \<and> failed s (snd r))"
proof -
  let ?s = "wifi_sdio_stop (ctx_controller (tmio (wifi_printlnf [Lit ''Resetting SDIO...''] s))) (wifi_printlnf [Lit ''Resetting SDIO...''] s)"
  have q: "quiet s ?s" by (intro quiet_intros) simp
  have wf: "card_wf ?s" using card_wf_quiet [OF q] assms(2) by simp
  have s: "failed s u" if "failed ?s u" for u
    using that out_quiet [OF q] q by (auto simp: failed_def quiet_def)
  have op: "ok (live h) (opcond h 0 ?s) (\<lambda>r. \<not> fst r \<and> failed s (snd r))"
  proof (subst opcond.simps, rule ok_bind_rule [OF card_command_fails [OF assms(1) wf]])
    fix u assume u: "failed ?s u"
    have "quiet u (wifi_printf [Lit ''Skip opcond...'', Lit [CHR 0x0A]] u)" by (rule quiet_wifi_printf)
    with s [OF u] have "failed s (wifi_printf [Lit ''Skip opcond...'', Lit [CHR 0x0A]] u)"
      using failed_trans failed_quiet [of u] by (fastforce simp: failed_def)
    with u show "ok (live h) (if ctx_status (tmio u) AND 4 \<noteq> 0 then Some (False, wifi_printf [Lit ''Skip opcond...'', Lit [CHR 0x0A]] u)
        else if ctx_status (tmio u) AND 1 = 0 then opcond h 0 u
        else if ctx_resp (tmio u) ! 0 AND 0x80000000 \<noteq> 0 then Some (True, u)
        else opcond h (ctx_resp (tmio u) ! 0 AND 0xFFFFFF) u) (\<lambda>r. \<not> fst r \<and> failed s (snd r))"
      by (simp add: failed_def)
  qed (simp add: cmd_simple_def)
  have bus: "ok (live h) (wlan_bus h u) (\<lambda>r. fst r = -1 \<and> failed s (snd r))" if u: "failed s u" for u
    using bus_fails [OF assms(1) u] .
  show ?thesis
    unfolding wlan_reset_def Let_def
    by (rule ok_bind_rule [OF op]) (auto simp: bus)
qed

subsection \<open>Starting without a card\<close>

definition untouched :: "'a card_scheme \<Rightarrow> 'a card_scheme \<Rightarrow> bool" where
  "untouched s t \<longleftrightarrow> card_wf t \<and> mem t = mem s \<and> machine.more t = machine.more s \<and> outputs (tr t) = outputs (tr s)"

lemma failed_untouched: "untouched s t \<Longrightarrow> failed t u \<Longrightarrow> untouched s u"
  by (simp add: untouched_def failed_def)

lemma untouched_quiet: "untouched s t \<Longrightarrow> quiet t u \<Longrightarrow> untouched s u"
  using card_wf_quiet [of t u] out_quiet [of t u] by (auto simp: untouched_def quiet_def)

lemma untouched_ctx:
  "untouched s t \<Longrightarrow> ctx_controller c = REG_SDIO_BASE \<Longrightarrow> ctx_block_size c = 128 \<Longrightarrow> \<not> ctx_debug c \<Longrightarrow> untouched s (t\<lparr>tmio := c\<rparr>)"
  by (simp add: untouched_def card_wf_def sdio_wf_def)

lemma untouched_switch: "untouched s t \<Longrightarrow> untouched s (wifi_card_switch_device h t)"
proof -
  assume t: "untouched s t"
  let ?u = "wifi_sdio_switch_device h t"
  have u: "untouched s ?u" using untouched_quiet [OF t quiet_switch_deviceI [OF quiet_refl]] .
  then have "device_curctx ?u" by (simp add: untouched_def card_wf_def)
  then have "?u\<lparr>device_curctx := True\<rparr> = ?u" by simp
  with u show ?thesis by (simp add: wifi_card_switch_device_def)
qed

lemma select_untouched:
  fixes s :: "'a card_scheme"
  assumes "card_absent h" "mbox_out_buffer s \<noteq> 0" "mbox_out_buffer s AND 3 = 0" "ctx_controller (tmio s) = REG_SDIO_BASE"
  shows "ok (live h) (wlan_select h s) (untouched (s\<lparr>device_curctx := True\<rparr>))"
proof -
  let ?r = "s\<lparr>device_curctx := True\<rparr>"
  let ?s = "?r\<lparr>tmio := (tmio s)\<lparr>ctx_port := 0, ctx_address := 0, ctx_debug := False, ctx_break_early := False, ctx_block_size := 128\<rparr>\<rparr>"
  define u where "u = emit (W16 0x4004020 1) (emit (I2c 0x4A 0x30 0x13) (emit (Rtc [0x74, 0x00]) (emit (Rtc [0x72, 0x80])
     (emit (W16 0x4004C04 (hw_r16 h (tr ?s) 0x4004C04 AND NOT 0x100)) (emit (R16 0x4004C04 (hw_r16 h (tr ?s) 0x4004C04)) ?s)))))"
  have "untouched ?r ?s" using assms by (simp add: untouched_def card_wf_def sdio_wf_def)
  moreover have "quiet ?s u" unfolding u_def by (intro quiet_emitI quiet_refl) simp_all
  ultimately have u: "untouched ?r u" by (rule untouched_quiet)
  then have c: "ctx_controller (tmio u) = REG_SDIO_BASE" "ctx_block_size (tmio u) = 128" "\<not> ctx_debug (tmio u)"
    by (auto simp: untouched_def card_wf_def sdio_wf_def)
  let ?v = "wifi_card_switch_device h (u\<lparr>tmio := (tmio u)\<lparr>ctx_bus_width := 4\<rparr>\<rparr>)"
  have v: "untouched ?r ?v" by (intro untouched_switch untouched_ctx u) (use c in simp_all)
  have sel: "wlan_select h s = (do { (x, t) \<leftarrow> wifi_card_read_func0_u8 h 0x00 ?v;
        Some (if ctx_status (tmio t) AND 4 \<noteq> 0
              then wifi_printlnf [Lit ''Failed to read revision, assuming 1bit'']
                     (wifi_card_switch_device h (t\<lparr>tmio := (tmio t)\<lparr>ctx_bus_width := 1\<rparr>\<rparr>)) else t) })"
    unfolding wlan_select_def Let_def mmio_read16_def prod.case u_def by simp
  show ?thesis
    unfolding sel
  proof (rule ok_bind_rule [OF card_byte_fails(2) [OF assms(1)]])
    show "card_wf ?v" using v by (simp add: untouched_def)
    fix r assume "fst r = 0xFF \<and> failed ?v (snd r)"
    then have f: "failed ?v (snd r)" by simp
    have "untouched ?r (wifi_card_switch_device h ((snd r)\<lparr>tmio := (tmio (snd r))\<lparr>ctx_bus_width := 1\<rparr>\<rparr>))"
      by (intro untouched_switch untouched_ctx failed_untouched [OF v f]) (use f in \<open>auto simp: failed_def card_wf_def sdio_wf_def\<close>)
    with f show "ok (live h) (case r of (x, t) \<Rightarrow> Some (if ctx_status (tmio t) AND 4 \<noteq> 0
          then wifi_printlnf [Lit ''Failed to read revision, assuming 1bit'']
                 (wifi_card_switch_device h (t\<lparr>tmio := (tmio t)\<lparr>ctx_bus_width := 1\<rparr>\<rparr>)) else t)) (untouched ?r)"
      using untouched_quiet [OF _ quiet_wifi_printlnf] by (auto simp: split_beta failed_def)
  qed
qed

lemma init_without_card:
  fixes s :: "'a card_scheme"
  assumes "card_absent h" "mbox_out_buffer s \<noteq> 0" "mbox_out_buffer s AND 3 = 0" "mbox_buffer s \<noteq> 0"
  shows "ok (live h) (wifi_card_device_init h s) (\<lambda>r. fst r = -1 \<and> untouched (s\<lparr>device_curctx := True\<rparr>) (snd r))"
proof -
  let ?s = "s\<lparr>tmio := zero_ctx\<lparr>ctx_controller := REG_SDIO_BASE, ctx_clk_cnt := 0, ctx_bus_width := 1\<rparr>\<rparr>"
  have b: "\<not> (mbox_out_buffer ?s = 0 \<or> mbox_buffer ?s = 0)" using assms by simp
  have sel: "ok (live h) (wlan_select h ?s) (untouched (?s\<lparr>device_curctx := True\<rparr>))"
    by (rule select_untouched) (use assms in simp_all)
  show ?thesis
    unfolding wifi_card_device_init_def wlan_init_start_def if_not_P [OF b]
  proof (rule ok_bind_rule [OF sel])
    fix t assume "untouched (?s\<lparr>device_curctx := True\<rparr>) t"
    moreover have "machine.more (?s\<lparr>device_curctx := True\<rparr>) = machine.more (s\<lparr>device_curctx := True\<rparr>)" by (cases s) simp
    ultimately have t: "untouched (s\<lparr>device_curctx := True\<rparr>) t" by (simp add: untouched_def)
    then have "card_wf t" by (simp add: untouched_def)
    from reset_fails [OF assms(1) this]
    show "ok (live h) (wlan_reset h t \<bind> (\<lambda>(r, s). if r \<noteq> 0 then Some (r, s) else wlan_identify h s \<bind>
        (\<lambda>(r, s). if r \<noteq> 0 then Some (r, s) else wlan_boot h s \<bind> (\<lambda>s. wlan_irq h s \<bind> (\<lambda>s. Some (0, s))))))
      (\<lambda>r. fst r = -1 \<and> untouched (s\<lparr>device_curctx := True\<rparr>) (snd r))"
      by (rule ok_bind_rule) (use failed_untouched [OF t] in \<open>auto simp: split_beta\<close>)
  qed
qed

text \<open>
  C35. Starting without a card. When every command is answered with an error, the request to start is handled to its end without waiting for the firmware: the driver stays
  uninitialised, memory is as before, and no frame goes to the card and no message but the log to the host, in particular not that the driver is ready.
\<close>

theorem start_without_card:
  assumes "card_absent h" "iop_pre s" "mbox_out_buffer s \<noteq> 0" "mbox_buffer s \<noteq> 0"
    and "length m \<ge> 4" "getle32 (\<lambda>i. m ! i) = WIFI_IPCCMD_INIT_IOP"
  shows "ok (live h) (wifi_card_handleMsg h m s) (\<lambda>(wait, t). \<not> wait \<and> wifi_card_bInitted t = wifi_card_bInitted s
     \<and> mem t = mem s \<and> outputs (tr t) = outputs (tr s))"
proof -
  let ?s = "s\<lparr>wifi_printf_allowed := True\<rparr>"
  have c: "getle32 (\<lambda>i. if i < length m then m ! i else hw_stack h (tr s) i) = WIFI_IPCCMD_INIT_IOP"
    using msg_fields [OF assms(5)] assms(6) by simp
  have init: "ok (live h) (wifi_card_device_init h ?s) (\<lambda>r. fst r = -1 \<and> untouched (?s\<lparr>device_curctx := True\<rparr>) (snd r))"
    by (rule init_without_card) (use assms in \<open>simp_all add: iop_pre_def\<close>)
  have k: "wifi_card_bInitted t = wifi_card_bInitted s \<and> mem t = mem s \<and> outputs (tr t) = outputs (tr s)"
    if "untouched (?s\<lparr>device_curctx := True\<rparr>) t" for t
    using that more_card(7) [of t "?s\<lparr>device_curctx := True\<rparr>"] by (simp add: untouched_def)
  have l: "\<not> length m < 4" using assms(5) by simp
  show ?thesis
    unfolding wifi_card_handleMsg_def if_not_P [OF l] Let_def c
    by simp (rule ok_bind_rule [OF init], use k in \<open>auto simp: split_beta\<close>)
qed

definition absent_hw :: hw where
  "absent_hw = idle_hw\<lparr>hw_r16 := (\<lambda>t a. if a = REG_SDIO_BASE + WIFI_SDIO_OFFS_IRQ_STAT0 then 5
     else if a = REG_SDIO_BASE + WIFI_SDIO_OFFS_IRQ_STAT1 then 0x40 else 0)\<rparr>"

theorem start_without_card_witness:
  "\<exists>wait t. wifi_card_handleMsg absent_hw (putle32 WIFI_IPCCMD_INIT_IOP) iop_selected = Some (wait, t) \<and> \<not> wait
     \<and> outputs (tr t) = []"
proof -
  have l: "live absent_hw"
    unfolding live_def by (rule exI [of _ "\<lambda>_. 0"]) (simp add: absent_hw_def idle_hw_def REG_NDMA_def)
  have a: "card_absent absent_hw" by (simp add: card_absent_def absent_hw_def)
  have g: "getle32 (\<lambda>i. putle32 WIFI_IPCCMD_INIT_IOP ! i) = WIFI_IPCCMD_INIT_IOP" by (rule getle32_putle32) simp
  have b: "mbox_out_buffer iop_selected \<noteq> 0" "mbox_buffer iop_selected \<noteq> 0" by (simp_all add: iop_selected_def)
  from ok_total [OF start_without_card [OF a iop_pre_wf [OF iop_selected_wf] b _ g] l] show ?thesis by (auto simp: split_beta)
qed

end
