(* ===== verification/SysArch.thy ===== *)
theory SysArch
  imports Utils Queue
begin

text \<open>
  The port of the network stack to the console, \<^verbatim>\<open>arm_host/source/lwip/sys_arch.c\<close>: the
  clock, mutexes, semaphores and mailboxes. Each object is one volatile 32-bit word; the address 0 is
  NULL. A waiting loop gives interrupts a chance between two looks at the word: what the handlers
  do then is the parameter \<open>irq\<close>. The processor mode is the parameter \<open>cpsr\<close>; in interrupt mode
  nothing waits.
\<close>

subsection \<open>The clock\<close>

record port =
  sys_val :: u32
  sys_cell :: "u32 \<Rightarrow> u32"

datatype err_t = ERR_OK | ERR_MEM | ERR_BUF | ERR_TIMEOUT | ERR_RTE | ERR_INPROGRESS | ERR_VAL | ERR_WOULDBLOCK | ERR_USE | ERR_ALREADY
  | ERR_ISCONN | ERR_CONN | ERR_IF | ERR_ABRT | ERR_RST | ERR_CLSD | ERR_ARG

definition sys_now_inc :: "u32 \<Rightarrow> 'a port_scheme \<Rightarrow> 'a port_scheme" where
  "sys_now_inc amt s = s\<lparr>sys_val := sys_val s + amt\<rparr>"

definition sys_now :: "'a port_scheme \<Rightarrow> u32" where
  "sys_now s = sys_val s"

definition put_cell :: "u32 \<Rightarrow> u32 \<Rightarrow> 'a port_scheme \<Rightarrow> 'a port_scheme" where
  "put_cell p v s = s\<lparr>sys_cell := (sys_cell s)(p := v)\<rparr>"

abbreviation "MBOX_VAL_EMPTY \<equiv> (0x12345678 :: u32)"
abbreviation "MBOX_VAL_INVALID \<equiv> (0x12345679 :: u32)"
abbreviation "SEM_SIGNAL \<equiv> (0x12345678 :: u32)"
abbreviation "MTX_LOCKED \<equiv> (0x12345678 :: u32)"
abbreviation "MTX_FREE \<equiv> (0xFFFFFFFF :: u32)"
abbreviation "SYS_ARCH_TIMEOUT \<equiv> (0xFFFFFFFF :: u32)"
abbreviation "SYS_MBOX_EMPTY \<equiv> SYS_ARCH_TIMEOUT"

text \<open>\<^verbatim>\<open>while (!P) ;\<close> over volatile words.\<close>

partial_function (option) wait_for ::
  "('a port_scheme \<Rightarrow> 'a port_scheme) \<Rightarrow> ('a port_scheme \<Rightarrow> bool) \<Rightarrow> 'a port_scheme \<Rightarrow> 'a port_scheme option" where
  "wait_for irq c s = (if c s then Some s else wait_for irq c (irq s))"

definition in_thread :: "u32 \<Rightarrow> bool" where
  "in_thread cpsr \<longleftrightarrow> cpsr AND 0x1F = 0x1F"

definition sys_msleep :: "('a port_scheme \<Rightarrow> 'a port_scheme) \<Rightarrow> u32 \<Rightarrow> u32 \<Rightarrow> 'a port_scheme \<Rightarrow> 'a port_scheme option" where
  "sys_msleep irq cpsr ms s =
    (let target = sys_val s + ms in
     if sys_val s > target then Some s
     else if in_thread cpsr then wait_for irq (\<lambda>s. \<not> sys_val s < target) s
     else Some s)"

subsection \<open>Mutexes\<close>

definition sys_mutex_new :: "u32 \<Rightarrow> 'a port_scheme \<Rightarrow> err_t \<times> 'a port_scheme" where
  "sys_mutex_new p s = (ERR_OK, put_cell p MTX_FREE s)"

definition sys_mutex_lock :: "('a port_scheme \<Rightarrow> 'a port_scheme) \<Rightarrow> u32 \<Rightarrow> u32 \<Rightarrow> 'a port_scheme \<Rightarrow> 'a port_scheme option" where
  "sys_mutex_lock irq cpsr p s =
    (if p = 0 then Some s
     else do {
       let s = (if sys_cell s p = 0 then put_cell p MTX_FREE s else s);
       s \<leftarrow> (if in_thread cpsr then wait_for irq (\<lambda>s. sys_cell s p = MTX_FREE) s else Some s);
       Some (put_cell p MTX_LOCKED s) })"

definition sys_mutex_unlock :: "u32 \<Rightarrow> 'a port_scheme \<Rightarrow> 'a port_scheme" where
  "sys_mutex_unlock p s = (if p = 0 then s else put_cell p MTX_FREE s)"

definition sys_mutex_free :: "u32 \<Rightarrow> 'a port_scheme \<Rightarrow> 'a port_scheme" where
  "sys_mutex_free p s = (if p = 0 then s else put_cell p 0 s)"

definition sys_mutex_valid :: "u32 \<Rightarrow> bool" where
  "sys_mutex_valid p \<longleftrightarrow> p \<noteq> 0"

definition sys_mutex_set_invalid :: "u32 \<Rightarrow> 'a port_scheme \<Rightarrow> 'a port_scheme" where
  "sys_mutex_set_invalid p s = (if p = 0 then s else put_cell p 0 s)"

subsection \<open>Semaphores\<close>

definition sys_sem_new :: "u32 \<Rightarrow> u8 \<Rightarrow> 'a port_scheme \<Rightarrow> err_t \<times> 'a port_scheme" where
  "sys_sem_new p count s = (ERR_OK, put_cell p MTX_FREE s)"

definition sys_sem_signal :: "u32 \<Rightarrow> 'a port_scheme \<Rightarrow> 'a port_scheme" where
  "sys_sem_signal p s = put_cell p SEM_SIGNAL s"

text \<open>The loop \<^verbatim>\<open>while (timeout != 0)\<close> of the two waits, which leaves when \<open>P\<close> holds.\<close>

fun sleep_until ::
  "('a port_scheme \<Rightarrow> 'a port_scheme) \<Rightarrow> u32 \<Rightarrow> ('a port_scheme \<Rightarrow> bool) \<Rightarrow> nat \<Rightarrow> 'a port_scheme \<Rightarrow> 'a port_scheme option" where
  "sleep_until irq cpsr P 0 s = Some s"
| "sleep_until irq cpsr P (Suc n) s =
    (if P s then Some s else do { s \<leftarrow> sys_msleep irq cpsr 1 s; sleep_until irq cpsr P n s })"

definition sys_arch_sem_wait ::
  "('a port_scheme \<Rightarrow> 'a port_scheme) \<Rightarrow> u32 \<Rightarrow> u32 \<Rightarrow> u32 \<Rightarrow> 'a port_scheme \<Rightarrow> (u32 \<times> 'a port_scheme) option" where
  "sys_arch_sem_wait irq cpsr p timeout s = do {
     let timeout = (if timeout = 0 then 1000 else timeout);
     s \<leftarrow> sleep_until irq cpsr (\<lambda>s. sys_cell s p = SEM_SIGNAL) (unat timeout) s;
     if sys_cell s p \<noteq> SEM_SIGNAL then Some (SYS_ARCH_TIMEOUT, s)
     else Some (1, put_cell p MTX_FREE s) }"

definition sys_sem_free :: "u32 \<Rightarrow> 'a port_scheme \<Rightarrow> 'a port_scheme" where
  "sys_sem_free p s = put_cell p 0 s"

definition sys_sem_valid :: "u32 \<Rightarrow> bool" where
  "sys_sem_valid p \<longleftrightarrow> p \<noteq> 0"

definition sys_sem_set_invalid :: "u32 \<Rightarrow> 'a port_scheme \<Rightarrow> 'a port_scheme" where
  "sys_sem_set_invalid p s = put_cell p 0 s"

subsection \<open>Mailboxes\<close>

definition sys_mbox_new :: "u32 \<Rightarrow> int \<Rightarrow> 'a port_scheme \<Rightarrow> err_t \<times> 'a port_scheme" where
  "sys_mbox_new p n s = (if p = 0 then (ERR_MEM, s) else (ERR_OK, put_cell p MBOX_VAL_EMPTY s))"

definition sys_mbox_post :: "('a port_scheme \<Rightarrow> 'a port_scheme) \<Rightarrow> u32 \<Rightarrow> u32 \<Rightarrow> 'a port_scheme \<Rightarrow> 'a port_scheme option" where
  "sys_mbox_post irq p msg s =
    (if p = 0 \<or> sys_cell s p = MBOX_VAL_INVALID then Some s
     else do { s \<leftarrow> wait_for irq (\<lambda>s. sys_cell s p = MBOX_VAL_EMPTY) s; Some (put_cell p msg s) })"

definition sys_mbox_trypost :: "u32 \<Rightarrow> u32 \<Rightarrow> 'a port_scheme \<Rightarrow> err_t \<times> 'a port_scheme" where
  "sys_mbox_trypost p msg s =
    (if p = 0 \<or> sys_cell s p = MBOX_VAL_INVALID then (ERR_MEM, s)
     else if sys_cell s p \<noteq> MBOX_VAL_EMPTY then (ERR_MEM, s)
     else (ERR_OK, put_cell p msg s))"

definition sys_mbox_trypost_fromisr :: "u32 \<Rightarrow> u32 \<Rightarrow> 'a port_scheme \<Rightarrow> err_t \<times> 'a port_scheme" where
  "sys_mbox_trypost_fromisr p msg s =
    (if p = 0 \<or> sys_cell s p = MBOX_VAL_INVALID then (ERR_MEM, s)
     else if sys_cell s p \<noteq> MBOX_VAL_EMPTY then (ERR_MEM, s)
     else (ERR_OK, put_cell p msg s))"

text \<open>The result is the return value with what \<^verbatim>\<open>*msg\<close> is set to, \<open>None\<close> when it is left alone.\<close>

definition sys_arch_mbox_fetch ::
  "('a port_scheme \<Rightarrow> 'a port_scheme) \<Rightarrow> u32 \<Rightarrow> u32 \<Rightarrow> u32 \<Rightarrow> 'a port_scheme \<Rightarrow> (u32 \<times> u32 option \<times> 'a port_scheme) option" where
  "sys_arch_mbox_fetch irq cpsr p timeout s =
    (if p = 0 \<or> sys_cell s p = MBOX_VAL_INVALID then Some (SYS_ARCH_TIMEOUT, None, s)
     else do {
       s \<leftarrow> (if timeout = 0 then wait_for irq (\<lambda>s. sys_cell s p \<noteq> MBOX_VAL_EMPTY) s
             else sleep_until irq cpsr (\<lambda>s. sys_cell s p \<noteq> MBOX_VAL_EMPTY) (unat timeout) s);
       if timeout \<noteq> 0 \<and> sys_cell s p = MBOX_VAL_EMPTY then Some (SYS_ARCH_TIMEOUT, Some 0, s)
       else Some (0, Some (sys_cell s p), put_cell p MBOX_VAL_EMPTY s) })"

definition sys_arch_mbox_tryfetch :: "u32 \<Rightarrow> 'a port_scheme \<Rightarrow> u32 \<times> u32 option \<times> 'a port_scheme" where
  "sys_arch_mbox_tryfetch p s =
    (if p = 0 \<or> sys_cell s p = MBOX_VAL_INVALID then (SYS_MBOX_EMPTY, None, s)
     else if sys_cell s p = MBOX_VAL_EMPTY then (SYS_MBOX_EMPTY, Some 0, s)
     else (0, Some (sys_cell s p), put_cell p MBOX_VAL_EMPTY s))"

definition sys_mbox_free :: "u32 \<Rightarrow> 'a port_scheme \<Rightarrow> 'a port_scheme" where
  "sys_mbox_free p s = (if p = 0 then s else put_cell p MBOX_VAL_INVALID s)"

definition sys_mbox_valid :: "u32 \<Rightarrow> 'a port_scheme \<Rightarrow> bool" where
  "sys_mbox_valid p s \<longleftrightarrow> p \<noteq> 0 \<and> sys_cell s p \<noteq> MBOX_VAL_INVALID"

definition sys_mbox_set_invalid :: "u32 \<Rightarrow> 'a port_scheme \<Rightarrow> 'a port_scheme" where
  "sys_mbox_set_invalid p s = put_cell p MBOX_VAL_INVALID s"

subsection \<open>Waiting\<close>

text \<open>Interrupts that advance the clock by a millisecond each, as the timer of the host does.\<close>

definition ticking :: "('a port_scheme \<Rightarrow> 'a port_scheme) \<Rightarrow> bool" where
  "ticking irq \<longleftrightarrow> (\<forall>s. sys_val (irq s) = sys_val s + 1)"

lemma put_cell_sel [simp]:
  "sys_val (put_cell p v s) = sys_val s" "sys_cell (put_cell p v s) = (sys_cell s)(p := v)"
  by (simp_all add: put_cell_def)

lemma ticking_funpow: "ticking irq \<Longrightarrow> sys_val ((irq ^^ n) s) = sys_val s + of_nat n"
  by (induction n) (simp_all add: ticking_def)

lemma wait_for_now: "P s \<Longrightarrow> wait_for irq P s = Some s"
  by (subst wait_for.simps) simp

lemma wait_for_later: "P ((irq ^^ n) s) \<Longrightarrow> \<exists>k\<le>n. wait_for irq P s = Some ((irq ^^ k) s) \<and> P ((irq ^^ k) s)"
proof (induction n arbitrary: s)
  case (Suc n)
  show ?case
  proof (cases "P s")
    case True
    then show ?thesis by (intro exI [of _ 0]) (simp add: wait_for_now)
  next
    case False
    have "P ((irq ^^ n) (irq s))" using Suc.prems by (simp only: funpow_Suc_right o_apply)
    from Suc.IH [OF this] obtain k where k: "k \<le> n" "wait_for irq P (irq s) = Some ((irq ^^ k) (irq s))" "P ((irq ^^ k) (irq s))"
      by blast
    have "wait_for irq P s = wait_for irq P (irq s)" using False by (subst wait_for.simps) simp
    with k show ?thesis by (intro exI [of _ "Suc k"]) (simp add: funpow_Suc_right del: funpow.simps)
  qed
qed (auto simp: wait_for_now)

lemma msleep_1:
  assumes "ticking irq" "in_thread cpsr"
  shows "sys_msleep irq cpsr 1 s = Some (if sys_val s = - 1 then s else irq s)"
proof (cases "sys_val s = - 1")
  case True
  then show ?thesis by (simp add: sys_msleep_def word_gt_0)
next
  case False
  have "sys_val s = - 1" if "unat (sys_val s) = 2 ^ 32 - 1"
    using arg_cong [OF that, of "of_nat :: nat \<Rightarrow> u32"] by simp
  with False have n: "unat (sys_val s) \<noteq> 2 ^ 32 - 1" by blast
  then have l: "sys_val s < sys_val s + 1"
    using unat_lt2p_aux [of "sys_val s"] by (simp add: word_less_nat_alt unat_word_ariths)
  have "wait_for irq (\<lambda>t. \<not> sys_val t < sys_val s + 1) s = Some (irq s)"
    using l assms(1) by (subst wait_for.simps) (simp add: ticking_def wait_for_now)
  then show ?thesis using l False assms(2) by (simp add: sys_msleep_def Let_def not_less_iff_gr_or_eq)
qed

lemma msleep_isr: "\<not> in_thread cpsr \<Longrightarrow> sys_msleep irq cpsr ms s = Some s"
  by (simp add: sys_msleep_def Let_def)

text \<open>A wait with a time limit returns, and it leaves early only when what it waits for is there.\<close>

lemma sleep_until_returns:
  assumes "ticking irq"
  shows "\<exists>k\<le>n. sleep_until irq cpsr P n s = Some ((irq ^^ k) s)"
proof (induction n arbitrary: s)
  case (Suc n)
  have "\<exists>j\<le>1. sys_msleep irq cpsr 1 s = Some ((irq ^^ j) s)"
  proof (cases "in_thread cpsr")
    case True
    then show ?thesis
      using msleep_1 [OF assms True, of s] by (cases "sys_val s = - 1") (force intro: exI [of _ 0] exI [of _ 1])+
  next
    case False
    then show ?thesis by (intro exI [of _ 0]) (simp add: msleep_isr)
  qed
  then obtain j where j: "j \<le> 1" "sys_msleep irq cpsr 1 s = Some ((irq ^^ j) s)" by blast
  from Suc.IH [of "(irq ^^ j) s"] obtain k where "k \<le> n" "sleep_until irq cpsr P n ((irq ^^ j) s) = Some ((irq ^^ k) ((irq ^^ j) s))"
    by blast
  with j show ?case by (cases "P s") (auto intro: exI [of _ 0] exI [of _ "k + j"] simp: funpow_add)
qed (auto intro: exI [of _ 0])

text \<open>Without a signal and without an overflow of the clock the wait takes its whole time.\<close>

lemma sleep_until_full:
  assumes "ticking irq" "in_thread cpsr" "\<And>k. k \<le> n \<Longrightarrow> \<not> P ((irq ^^ k) s)" "unat (sys_val s) + n < 2 ^ 32"
  shows "sleep_until irq cpsr P n s = Some ((irq ^^ n) s)"
  using assms(3,4)
proof (induction n arbitrary: s)
  case (Suc n)
  have "sys_val s \<noteq> - 1"
  proof
    assume "sys_val s = - 1"
    then have "unat (sys_val s) = 2 ^ 32 - 1" by (simp add: unsigned_minus_1_eq_mask mask_eq_exp_minus_1)
    with Suc.prems(2) show False by simp
  qed
  then have 1: "sys_msleep irq cpsr 1 s = Some (irq s)" by (simp add: msleep_1 [OF assms(1,2)])
  have "unat (sys_val (irq s)) = unat (sys_val s) + 1"
    using assms(1) Suc.prems(2) by (simp add: ticking_def unat_word_ariths)
  moreover have "\<not> P ((irq ^^ k) (irq s))" if "k \<le> n" for k
    using Suc.prems(1) [of "Suc k"] that by (simp add: funpow_Suc_right del: funpow.simps)
  ultimately have "sleep_until irq cpsr P n (irq s) = Some ((irq ^^ n) (irq s))" using Suc.prems(2) by (intro Suc.IH) auto
  with 1 Suc.prems(1) [of 0] show ?case by (simp add: funpow_Suc_right del: funpow.simps)
qed simp

text \<open>
  In thread mode a mutex is entered only when it is free; in interrupt mode it is taken whoever holds it.
\<close>

lemma wait_for_ends: "wait_for irq c s = Some t \<Longrightarrow> c t"
  by (induction rule: wait_for.raw_induct [rotated 1, consumes 1, case_names step]) (auto split: if_splits)

lemma mutex_lock_thread:
  assumes "in_thread cpsr" "p \<noteq> 0" "sys_mutex_lock irq cpsr p s = Some t"
  shows "\<exists>u. sys_cell u p = MTX_FREE \<and> t = put_cell p MTX_LOCKED u"
proof -
  show ?thesis
    using assms by (auto simp: sys_mutex_lock_def Let_def split: Option.bind_splits dest!: wait_for_ends [where c = "\<lambda>s. sys_cell s p = MTX_FREE"])
qed

lemma mutex_lock_isr: "\<not> in_thread cpsr \<Longrightarrow> p \<noteq> 0 \<Longrightarrow> \<exists>u. sys_mutex_lock irq cpsr p s = Some u \<and> sys_cell u p = MTX_LOCKED"
  by (simp add: sys_mutex_lock_def Let_def)

subsection \<open>A mailbox holds one message\<close>

text \<open>A mailbox with what has been fetched from it.\<close>

definition mbox_put :: "u32 \<Rightarrow> u32 \<Rightarrow> 'a port_scheme \<times> u32 list \<Rightarrow> 'a port_scheme \<times> u32 list" where
  "mbox_put p m = apfst (\<lambda>s. snd (sys_mbox_trypost p m s))"

definition mbox_get :: "u32 \<Rightarrow> 'a port_scheme \<times> u32 list \<Rightarrow> ('a port_scheme \<times> u32 list) option" where
  "mbox_get p x = (case sys_arch_mbox_tryfetch p (fst x) of (r, m, t) \<Rightarrow>
     Some (t, if r = SYS_MBOX_EMPTY then snd x else snd x @ [the m]))"

definition mbox_abs :: "u32 \<Rightarrow> 'a port_scheme \<times> u32 list \<Rightarrow> u32 list \<times> u32 list" where
  "mbox_abs p x = (if sys_cell (fst x) p = MBOX_VAL_EMPTY then [] else [sys_cell (fst x) p], snd x)"

definition mbox_inv :: "u32 \<Rightarrow> 'a port_scheme \<times> u32 list \<Rightarrow> bool" where
  "mbox_inv p x \<longleftrightarrow> p \<noteq> 0 \<and> sys_cell (fst x) p \<noteq> MBOX_VAL_INVALID"

definition is_message :: "u32 \<Rightarrow> bool" where
  "is_message m \<longleftrightarrow> m \<noteq> MBOX_VAL_EMPTY \<and> m \<noteq> MBOX_VAL_INVALID"

interpretation mbox: bounded_queue "mbox_put p" "mbox_get p" "mbox_abs p" "mbox_inv p" "\<lambda>m. m" is_message 1 True for p
proof (unfold_locales, goal_cases)
  case (1 s m)
  then show ?case
    by (auto simp: mbox_put_def mbox_abs_def mbox_inv_def is_message_def sys_mbox_trypost_def apfst_def map_prod_def split: prod.splits if_splits)
next
  case (2 s)
  then show ?case
    by (auto simp: mbox_get_def mbox_abs_def mbox_inv_def sys_arch_mbox_tryfetch_def)
qed

text \<open>
  C18. A mailbox is a queue of one message: any sequence of posts and fetches, with a post only when it is empty, delivers the
  messages in order, and a post to a full mailbox is refused and changes nothing. Two values are not messages, because the word
  itself marks an empty or a deleted mailbox.
\<close>

theorem mailbox_is_queue:
  assumes "p \<noteq> 0" "sys_cell s p = MBOX_VAL_EMPTY" "queue_fits 1 (\<lambda>m. m) is_message ops ([], [])"
  shows "\<exists>t. run_ops (mbox_put p) (mbox_get p) ops (s, []) = Some t
     \<and> mbox_abs p t = fold (queue_step (\<lambda>m. m)) ops ([], [])
     \<and> (fst (mbox_abs p t) \<noteq> [] \<longrightarrow> (\<forall>m. sys_mbox_trypost p m (fst t) = (ERR_MEM, fst t)))"
proof -
  have a: "mbox_abs p (s, []) = ([], [])" "mbox_inv p (s, [])" using assms(1,2) by (simp_all add: mbox_abs_def mbox_inv_def)
  from ok_total [OF mbox.simulates [OF a(2), of ops]] assms(3)
  obtain t where "run_ops (mbox_put p) (mbox_get p) ops (s, []) = Some t"
    "mbox_abs p t = fold (queue_step (\<lambda>m. m)) ops ([], [])" unfolding a(1) by auto
  then show ?thesis by (auto simp: mbox_abs_def sys_mbox_trypost_def)
qed

theorem mailbox_is_queue_witness:
  "\<exists>t. run_ops (mbox_put 4) (mbox_get 4) [Put 7, Get, Put 9] (\<lparr>sys_val = 0, sys_cell = (\<lambda>_. MBOX_VAL_EMPTY)\<rparr>, []) = Some t
     \<and> mbox_abs 4 t = ([9], [7])"
  using mailbox_is_queue [of 4 "\<lparr>sys_val = 0, sys_cell = (\<lambda>_. MBOX_VAL_EMPTY)\<rparr>" "[Put 7, Get, Put 9]"]
  by (auto simp: is_message_def)

text \<open>
  Waiting for a semaphore with timeout 0 gives up after a thousand milliseconds when nobody signals it, although
  \<^verbatim>\<open>sys.h\<close> asks for a wait without limit.
\<close>

theorem semaphore_wait_limited:
  assumes "ticking irq" "in_thread cpsr" "\<forall>k\<le>1000. sys_cell ((irq ^^ k) s) p \<noteq> SEM_SIGNAL"
    and "unat (sys_val s) + 1000 < 2 ^ 32"
  shows "sys_arch_sem_wait irq cpsr p 0 s = Some (SYS_ARCH_TIMEOUT, (irq ^^ 1000) s)"
  using assms(3) sleep_until_full [OF assms(1,2) _ assms(4), where P = "\<lambda>s. sys_cell s p = SEM_SIGNAL"]
  by (simp add: sys_arch_sem_wait_def Let_def del: sleep_until.simps)

theorem semaphore_wait_limited_witness:
  "\<exists>t. sys_arch_sem_wait (sys_now_inc 1) 0x1F 4 0 \<lparr>sys_val = 0, sys_cell = (\<lambda>_. 0)\<rparr> = Some (SYS_ARCH_TIMEOUT, t) \<and> sys_val t = 1000"
proof -
  let ?s = "\<lparr>sys_val = 0, sys_cell = (\<lambda>_. 0)\<rparr>"
  have t: "ticking (sys_now_inc 1)" by (simp add: ticking_def sys_now_inc_def)
  have "sys_cell ((sys_now_inc 1 ^^ k) ?s) 4 = 0" for k by (induction k) (simp_all add: sys_now_inc_def)
  then show ?thesis
    using semaphore_wait_limited [OF t, of "0x1F" ?s 4] ticking_funpow [OF t, of 1000 ?s] by (simp add: in_thread_def)
qed

end
