(* ===== verification/Memp.thy ===== *)
theory Memp
  imports SysArch
begin

text \<open>
  Memory of the network stack: the pools of fixed-size elements of \<^verbatim>\<open>lwip/memp.c\<close> and the
  heap functions of \<^verbatim>\<open>lwip/mem.c\<close>, which pass to the C library. The free list of a pool is the
  list of its elements, first one first. What is outside the sources, the addresses of
  static memory and the answers of \<^verbatim>\<open>malloc\<close>, is the parameter \<open>lw\<close>. An assertion of the stack prints its
  text and goes on; it is recorded in the trace \<open>ltr\<close>.
\<close>

datatype memp_t = MEMP_RAW_PCB | MEMP_UDP_PCB | MEMP_TCP_PCB | MEMP_TCP_PCB_LISTEN | MEMP_TCP_SEG
  | MEMP_REASSDATA | MEMP_NETBUF | MEMP_NETCONN | MEMP_TCPIP_MSG_API | MEMP_IGMP_GROUP
  | MEMP_SYS_TIMEOUT | MEMP_NETDB | MEMP_PBUF | MEMP_PBUF_POOL

datatype levent = LMalloc u32 u32 | LFree u32 | LAssert string

record memp_desc =
  desc_size :: u16
  desc_num :: u16
  desc_base :: u32

record lw =
  memp_pools :: "memp_t \<Rightarrow> memp_desc"
  mem_clib_malloc :: "levent list \<Rightarrow> u32 \<Rightarrow> u32"
  tcpip_mbox :: u32

record heap = port +
  lmem :: memory
  memp_tab :: "memp_t \<Rightarrow> u32 list"
  ltr :: "levent list"

definition LWIP_MEM_ALIGN_SIZE :: "u32 \<Rightarrow> u32" where
  "LWIP_MEM_ALIGN_SIZE n = (n + 4 - 1) AND NOT (4 - 1)"

definition LWIP_MEM_ALIGN :: "u32 \<Rightarrow> u32" where
  "LWIP_MEM_ALIGN a = (a + 4 - 1) AND NOT (4 - 1)"

definition LWIP_ASSERT :: "string \<Rightarrow> bool \<Rightarrow> 'a heap_scheme \<Rightarrow> 'a heap_scheme" where
  "LWIP_ASSERT message b s = (if b then s else s\<lparr>ltr := LAssert message # ltr s\<rparr>)"

subsection \<open>Pools\<close>

fun memp_carve :: "nat \<Rightarrow> u32 \<Rightarrow> u32 \<Rightarrow> u32 list \<Rightarrow> u32 list" where
  "memp_carve 0 memp sz tab = tab"
| "memp_carve (Suc n) memp sz tab = memp_carve n (memp + sz) sz (memp # tab)"

definition memp_init_pool :: "lw \<Rightarrow> memp_t \<Rightarrow> 'a heap_scheme \<Rightarrow> 'a heap_scheme" where
  "memp_init_pool L t s =
    (let d = memp_pools L t in
     s\<lparr>memp_tab := (memp_tab s)
         (t := memp_carve (unat (desc_num d)) (LWIP_MEM_ALIGN (desc_base d)) (ucast (desc_size d)) [])\<rparr>)"

definition memp_init :: "lw \<Rightarrow> 'a heap_scheme \<Rightarrow> 'a heap_scheme" where
  "memp_init L = fold (memp_init_pool L)
     [MEMP_RAW_PCB, MEMP_UDP_PCB, MEMP_TCP_PCB, MEMP_TCP_PCB_LISTEN, MEMP_TCP_SEG, MEMP_REASSDATA,
      MEMP_NETBUF, MEMP_NETCONN, MEMP_TCPIP_MSG_API, MEMP_IGMP_GROUP, MEMP_SYS_TIMEOUT, MEMP_NETDB,
      MEMP_PBUF, MEMP_PBUF_POOL]"

definition do_memp_malloc_pool :: "memp_t \<Rightarrow> 'a heap_scheme \<Rightarrow> u32 \<times> 'a heap_scheme" where
  "do_memp_malloc_pool t s = (case memp_tab s t of [] \<Rightarrow> (0, s)
     | memp # tab \<Rightarrow> (memp, LWIP_ASSERT ''memp_malloc: memp properly aligned'' (memp mod 4 = 0)
                              (s\<lparr>memp_tab := (memp_tab s)(t := tab)\<rparr>)))"

definition memp_malloc :: "memp_t \<Rightarrow> 'a heap_scheme \<Rightarrow> u32 \<times> 'a heap_scheme" where
  "memp_malloc t s = do_memp_malloc_pool t s"

definition do_memp_free_pool :: "memp_t \<Rightarrow> u32 \<Rightarrow> 'a heap_scheme \<Rightarrow> 'a heap_scheme" where
  "do_memp_free_pool t mem s =
    (let s = LWIP_ASSERT ''memp_free: mem properly aligned'' (mem mod 4 = 0) s
     in s\<lparr>memp_tab := (memp_tab s)(t := mem # memp_tab s t)\<rparr>)"

definition memp_free :: "memp_t \<Rightarrow> u32 \<Rightarrow> 'a heap_scheme \<Rightarrow> 'a heap_scheme" where
  "memp_free t mem s = (if mem = 0 then s else do_memp_free_pool t mem s)"

subsection \<open>The heap\<close>

definition mem_trim :: "u32 \<Rightarrow> u32 \<Rightarrow> 'a heap_scheme \<Rightarrow> u32 \<times> 'a heap_scheme" where
  "mem_trim mem n s = (mem, s)"

definition mem_malloc :: "lw \<Rightarrow> u32 \<Rightarrow> 'a heap_scheme \<Rightarrow> u32 \<times> 'a heap_scheme" where
  "mem_malloc L n s =
    (let ret = mem_clib_malloc L (ltr s) n; s = s\<lparr>ltr := LMalloc n ret # ltr s\<rparr> in
     if ret = 0 then (ret, s)
     else (ret, LWIP_ASSERT ''malloc() must return aligned memory'' (LWIP_MEM_ALIGN ret = ret) s))"

definition mem_free :: "u32 \<Rightarrow> 'a heap_scheme \<Rightarrow> 'a heap_scheme" where
  "mem_free rmem s =
    (let s = LWIP_ASSERT ''rmem != NULL'' (rmem \<noteq> 0) s;
         s = LWIP_ASSERT ''rmem == MEM_ALIGN(rmem)'' (rmem = LWIP_MEM_ALIGN rmem) s
     in s\<lparr>ltr := LFree rmem # ltr s\<rparr>)"

subsection \<open>What a pool holds\<close>

lemma memp_carve_append: "memp_carve n a sz tab = rev (map (\<lambda>i. a + of_nat i * sz) [0..<n]) @ tab"
proof (induction n arbitrary: a tab)
  case (Suc n)
  have "map (\<lambda>i. a + of_nat i * sz) [0..<Suc n] = a # map (\<lambda>i. a + sz + of_nat i * sz) [0..<n]"
    by (subst upt_conv_Cons) (simp_all add: map_Suc_upt [symmetric] comp_def algebra_simps del: upt_Suc)
  then show ?case using Suc.IH [of "a + sz" "a # tab"] by simp
qed simp

end
