(* ===== verification/Pbuf.thy ===== *)
theory Pbuf
  imports Memp
begin

text \<open>
  Packet buffers, \<^verbatim>\<open>arm_host/source/lwip/pbuf.c\<close>, with the part of \<^verbatim>\<open>lwip/api/tcpip.c\<close> they call. The
  structures are kept by address in \<open>pbufs\<close>, the bytes of their payloads in \<open>lmem\<close>; address 0 is
  NULL, and an operation that would follow it is \<open>None\<close>, as is a loop over a chain that never ends. Of
  \<^verbatim>\<open>LWIP_ERROR\<close> only the early return is modelled, not the message it logs.
\<close>

subsection \<open>Types\<close>

record pbuf =
  pb_next :: u32
  pb_payload :: u32
  pb_tot_len :: u16
  pb_len :: u16
  pb_type_internal :: u8
  pb_flags :: u8
  pb_ref :: u8
  pb_if_idx :: u8

datatype pbuf_layer = PBUF_TRANSPORT | PBUF_IP | PBUF_LINK | PBUF_RAW_TX | PBUF_RAW

datatype pbuf_type = PBUF_RAM | PBUF_ROM | PBUF_REF | PBUF_POOL

abbreviation "PBUF_TRANSPORT_HLEN \<equiv> 20 :: u16"
abbreviation "PBUF_IP_HLEN \<equiv> 20 :: u16"
abbreviation "PBUF_LINK_HLEN \<equiv> 14 + 2 :: u16"
abbreviation "PBUF_LINK_ENCAPSULATION_HLEN \<equiv> 0 :: u16"

primrec layer_offset :: "pbuf_layer \<Rightarrow> u16" where
  "layer_offset PBUF_TRANSPORT = PBUF_LINK_ENCAPSULATION_HLEN + PBUF_LINK_HLEN + PBUF_IP_HLEN + PBUF_TRANSPORT_HLEN + 0x30"
| "layer_offset PBUF_IP = PBUF_LINK_ENCAPSULATION_HLEN + PBUF_LINK_HLEN + PBUF_IP_HLEN + 0x30"
| "layer_offset PBUF_LINK = PBUF_LINK_ENCAPSULATION_HLEN + PBUF_LINK_HLEN + 0x30"
| "layer_offset PBUF_RAW_TX = PBUF_LINK_ENCAPSULATION_HLEN + 0x30"
| "layer_offset PBUF_RAW = 0x30"

primrec type_code :: "pbuf_type \<Rightarrow> u16" where
  "type_code PBUF_RAM = 0x0200 OR 0x80 OR 0x00"
| "type_code PBUF_ROM = 0x01"
| "type_code PBUF_REF = 0x40 OR 0x01"
| "type_code PBUF_POOL = 0x0100 OR 0x80 OR 0x02"

definition PBUF_POOL_BUFSIZE :: u32 where
  "PBUF_POOL_BUFSIZE = LWIP_MEM_ALIGN_SIZE (1460 + 20 + 20 + 0 + (14 + 2))"

definition SIZEOF_STRUCT_PBUF :: u32 where
  "SIZEOF_STRUCT_PBUF = LWIP_MEM_ALIGN_SIZE 16"

datatype tcpip_callback_fn = pbuf_free_ooseq_callback | pbuf_free_int | mem_free_int | Callback u32

datatype tcpip_msg_type = TCPIP_MSG_CALLBACK | TCPIP_MSG_CALLBACK_STATIC | TCPIP_MSG_CALLBACK_STATIC_WAIT

record tcpip_msg =
  msg_type :: tcpip_msg_type
  msg_function :: tcpip_callback_fn
  msg_ctx :: u32

record stack = heap +
  pbufs :: "u32 \<Rightarrow> pbuf"
  pbuf_free_ooseq_pending :: u8
  tcpip_msgs :: "u32 \<Rightarrow> tcpip_msg"

definition upd_pbuf :: "u32 \<Rightarrow> (pbuf \<Rightarrow> pbuf) \<Rightarrow> 'a stack_scheme \<Rightarrow> 'a stack_scheme" where
  "upd_pbuf p f s = s\<lparr>pbufs := (pbufs s)(p := f (pbufs s p))\<rparr>"

definition MEMCPY :: "u32 \<Rightarrow> u32 \<Rightarrow> nat \<Rightarrow> 'a stack_scheme \<Rightarrow> 'a stack_scheme" where
  "MEMCPY dst src n s = s\<lparr>lmem := mem_write (lmem s) dst (mem_read (lmem s) src n)\<rparr>"

definition pbuf_get_allocsrc :: "pbuf \<Rightarrow> u8" where
  "pbuf_get_allocsrc b = pb_type_internal b AND 0x0F"

subsection \<open>Asking for memory\<close>

definition tcpip_try_callback ::
  "lw \<Rightarrow> tcpip_callback_fn \<Rightarrow> u32 \<Rightarrow> 'a stack_scheme \<Rightarrow> err_t \<times> 'a stack_scheme" where
  "tcpip_try_callback L f ctx s =
    (let s = LWIP_ASSERT ''Invalid mbox'' (sys_mbox_valid (tcpip_mbox L) s) s;
         (msg, s) = memp_malloc MEMP_TCPIP_MSG_API s in
     if msg = 0 then (ERR_MEM, s)
     else
       let s = s\<lparr>tcpip_msgs := (tcpip_msgs s)(msg := \<lparr>msg_type = TCPIP_MSG_CALLBACK, msg_function = f, msg_ctx = ctx\<rparr>)\<rparr>;
           (e, s) = sys_mbox_trypost (tcpip_mbox L) msg s in
       if e \<noteq> ERR_OK then (ERR_MEM, memp_free MEMP_TCPIP_MSG_API msg s) else (ERR_OK, s))"

definition pbuf_pool_is_empty :: "lw \<Rightarrow> 'a stack_scheme \<Rightarrow> 'a stack_scheme" where
  "pbuf_pool_is_empty L s =
    (let queued = pbuf_free_ooseq_pending s; s = s\<lparr>pbuf_free_ooseq_pending := 1\<rparr> in
     if queued = 0
     then let (e, s) = tcpip_try_callback L pbuf_free_ooseq_callback 0 s
          in if e \<noteq> ERR_OK then s\<lparr>pbuf_free_ooseq_pending := 0\<rparr> else s
     else s)"

subsection \<open>Releasing\<close>

definition pbuf_release :: "u32 \<Rightarrow> 'a stack_scheme \<Rightarrow> 'a stack_scheme" where
  "pbuf_release p s =
    (let alloc_src = pbuf_get_allocsrc (pbufs s p) in
     if alloc_src = 0x02 then memp_free MEMP_PBUF_POOL p s
     else if alloc_src = 0x01 then memp_free MEMP_PBUF p s
     else if alloc_src = 0x00 then mem_free p s
     else LWIP_ASSERT ''invalid pbuf type'' False s)"

lemma pbufs_frames [simp]:
  "pbufs (memp_free t p s) = pbufs s" "pbufs (mem_free p s) = pbufs s" "pbufs (LWIP_ASSERT m b s) = pbufs s"
  by (simp_all add: memp_free_def do_memp_free_pool_def mem_free_def LWIP_ASSERT_def Let_def)

lemma pbufs_release [simp]: "pbufs (pbuf_release p s) = pbufs s"
  by (simp add: pbuf_release_def Let_def)

lemma pbufs_upd [simp]: "pbufs (upd_pbuf p f s) = (pbufs s)(p := f (pbufs s p))"
  by (simp add: upd_pbuf_def)

function pbuf_free_loop :: "u32 \<Rightarrow> u8 \<Rightarrow> 'a stack_scheme \<Rightarrow> u8 \<times> 'a stack_scheme" where
  "pbuf_free_loop p count s =
    (if p = 0 then (count, s)
     else
       let s = LWIP_ASSERT ''pbuf_free: p->ref > 0'' (pb_ref (pbufs s p) > 0) s;
           ref = pb_ref (pbufs s p) - 1;
           s = upd_pbuf p (\<lambda>b. b\<lparr>pb_ref := ref\<rparr>) s in
       if ref = 0 then let q = pb_next (pbufs s p) in pbuf_free_loop q (count + 1) (pbuf_release p s)
       else (count, s))"
  by pat_completeness auto

text \<open>Each turn takes the last reference of a buffer, so it ends even on a chain that is a cycle.\<close>

termination
proof (relation "measure (\<lambda>(p, count, s). card {a. pb_ref (pbufs s a) = 1})", goal_cases)
  case (2 p count s x xa xb xc)
  then have "pb_ref (pbufs s p) = 1" by simp
  then have "{a. pb_ref (pbufs xb a) = 1} \<subset> {a. pb_ref (pbufs s a) = 1}" using 2 by auto
  then show ?case by (simp add: psubset_card_mono)
qed simp

declare pbuf_free_loop.simps [simp del]

definition pbuf_free :: "u32 \<Rightarrow> 'a stack_scheme \<Rightarrow> u8 \<times> 'a stack_scheme" where
  "pbuf_free p s = (if p = 0 then (0, LWIP_ASSERT ''p != NULL'' False s) else pbuf_free_loop p 0 s)"

subsection \<open>Allocating\<close>

definition pbuf_init_alloced_pbuf ::
  "u32 \<Rightarrow> u32 \<Rightarrow> u16 \<Rightarrow> u16 \<Rightarrow> pbuf_type \<Rightarrow> u8 \<Rightarrow> 'a stack_scheme \<Rightarrow> 'a stack_scheme" where
  "pbuf_init_alloced_pbuf p payload tot_len len type flags =
    upd_pbuf p (\<lambda>_. \<lparr>pb_next = 0, pb_payload = payload, pb_tot_len = tot_len, pb_len = len,
      pb_type_internal = ucast (type_code type), pb_flags = flags, pb_ref = 1, pb_if_idx = 0\<rparr>)"

definition pbuf_alloc_reference :: "u32 \<Rightarrow> u16 \<Rightarrow> pbuf_type \<Rightarrow> 'a stack_scheme \<Rightarrow> u32 \<times> 'a stack_scheme" where
  "pbuf_alloc_reference payload len type s =
    (let s = LWIP_ASSERT ''invalid pbuf_type'' (type = PBUF_REF \<or> type = PBUF_ROM) s;
         (p, s) = memp_malloc MEMP_PBUF s in
     if p = 0 then (0, s) else (p, pbuf_init_alloced_pbuf p payload len len type 0 s))"

text \<open>The loop of the pool case: \<open>p\<close> the first buffer and \<open>prev\<close> the previous one, 0 at the start.\<close>

definition pool_piece :: "u16 \<Rightarrow> u16 \<Rightarrow> u16" where
  "pool_piece rem_len offset =
    min rem_len (ucast (LWIP_MEM_ALIGN_SIZE PBUF_POOL_BUFSIZE - LWIP_MEM_ALIGN_SIZE (ucast offset)))"

definition pool_link :: "u32 \<Rightarrow> u32 \<Rightarrow> u32 \<Rightarrow> u16 \<Rightarrow> u16 \<Rightarrow> 'a stack_scheme \<Rightarrow> 'a stack_scheme" where
  "pool_link p prev q rem_len offset s =
    (let s = pbuf_init_alloced_pbuf q (LWIP_MEM_ALIGN (q + SIZEOF_STRUCT_PBUF + ucast offset)) rem_len
           (pool_piece rem_len offset) PBUF_POOL 0 s;
         s = LWIP_ASSERT ''pbuf_alloc: pbuf q->payload properly aligned'' (pb_payload (pbufs s q) mod 4 = 0) s;
         s = LWIP_ASSERT ''PBUF_POOL_BUFSIZE must be bigger than MEM_ALIGNMENT''
           (LWIP_MEM_ALIGN_SIZE PBUF_POOL_BUFSIZE - LWIP_MEM_ALIGN_SIZE (ucast offset) > 0) s in
     if p = 0 then s else upd_pbuf prev (\<lambda>b. b\<lparr>pb_next := q\<rparr>) s)"

lemma memp_tab_frames [simp]:
  "memp_tab (LWIP_ASSERT m b s) = memp_tab s" "memp_tab (upd_pbuf p f s) = memp_tab s"
  "memp_tab (pbuf_init_alloced_pbuf p a t l ty fl s) = memp_tab s"
  by (simp_all add: LWIP_ASSERT_def upd_pbuf_def pbuf_init_alloced_pbuf_def)

lemma memp_tab_pool_link [simp]: "memp_tab (pool_link p prev q r off s) = memp_tab s"
  by (simp add: pool_link_def Let_def)

function pbuf_alloc_pool ::
  "lw \<Rightarrow> u32 \<Rightarrow> u32 \<Rightarrow> u16 \<Rightarrow> u16 \<Rightarrow> 'a stack_scheme \<Rightarrow> u32 \<times> 'a stack_scheme" where
  "pbuf_alloc_pool L p prev rem_len offset s =
    (case memp_malloc MEMP_PBUF_POOL s of (q, s1) \<Rightarrow>
     if q = 0
     then let s2 = pbuf_pool_is_empty L s1 in (0, if p \<noteq> 0 then snd (pbuf_free p s2) else s2)
     else
       let s2 = pool_link p prev q rem_len offset s1;
           p = (if p = 0 then q else p);
           rem_len = rem_len - pool_piece rem_len offset in
       if rem_len > 0 then pbuf_alloc_pool L p q rem_len 0 s2 else (p, s2))"
  by pat_completeness auto

text \<open>Each turn takes an element from the pool.\<close>

termination
proof (relation "measure (\<lambda>(L, p, prev, r, off, s). length (memp_tab s MEMP_PBUF_POOL))", goal_cases)
  case 2
  then show ?case by (auto simp: memp_malloc_def do_memp_malloc_pool_def split: list.splits)
qed simp

declare pbuf_alloc_pool.simps [simp del]

definition pbuf_alloc :: "lw \<Rightarrow> pbuf_layer \<Rightarrow> u16 \<Rightarrow> pbuf_type \<Rightarrow> 'a stack_scheme \<Rightarrow> u32 \<times> 'a stack_scheme" where
  "pbuf_alloc L layer len type s =
    (let offset = layer_offset layer in
     case type of
       PBUF_REF \<Rightarrow> pbuf_alloc_reference 0 len type s
     | PBUF_ROM \<Rightarrow> pbuf_alloc_reference 0 len type s
     | PBUF_POOL \<Rightarrow> pbuf_alloc_pool L 0 0 len offset s
     | PBUF_RAM \<Rightarrow>
        let payload_len = LWIP_MEM_ALIGN_SIZE (ucast offset) + LWIP_MEM_ALIGN_SIZE (ucast len);
            alloc_len = LWIP_MEM_ALIGN_SIZE SIZEOF_STRUCT_PBUF + payload_len in
        if payload_len < LWIP_MEM_ALIGN_SIZE (ucast len) \<or> alloc_len < LWIP_MEM_ALIGN_SIZE (ucast len) then (0, s)
        else
          let (p, s) = mem_malloc L alloc_len s in
          if p = 0 then (0, s)
          else
            let s = pbuf_init_alloced_pbuf p (LWIP_MEM_ALIGN (p + SIZEOF_STRUCT_PBUF + ucast offset)) len len type 0 s
            in (p, LWIP_ASSERT ''pbuf_alloc: pbuf->payload properly aligned'' (pb_payload (pbufs s p) mod 4 = 0) s))"

subsection \<open>Shrinking, headers, counting\<close>

partial_function (option) pbuf_realloc_loop ::
  "u32 \<Rightarrow> u16 \<Rightarrow> u16 \<Rightarrow> 'a stack_scheme \<Rightarrow> (u32 \<times> u16 \<times> 'a stack_scheme) option" where
  "pbuf_realloc_loop q rem_len shrink s =
    (if q = 0 then None
     else if rem_len > pb_len (pbufs s q)
     then let rem_len = rem_len - pb_len (pbufs s q);
              s = upd_pbuf q (\<lambda>b. b\<lparr>pb_tot_len := pb_tot_len b - shrink\<rparr>) s;
              q = pb_next (pbufs s q);
              s = LWIP_ASSERT ''pbuf_realloc: q != NULL'' (q \<noteq> 0) s
          in pbuf_realloc_loop q rem_len shrink s
     else Some (q, rem_len, s))"

definition pbuf_realloc :: "u32 \<Rightarrow> u16 \<Rightarrow> 'a stack_scheme \<Rightarrow> 'a stack_scheme option" where
  "pbuf_realloc p new_len s =
    (let s = LWIP_ASSERT ''pbuf_realloc: p != NULL'' (p \<noteq> 0) s in
     if p = 0 then None
     else if new_len \<ge> pb_tot_len (pbufs s p) then Some s
     else do {
       let shrink = pb_tot_len (pbufs s p) - new_len;
       (q, rem_len, s) \<leftarrow> pbuf_realloc_loop p new_len shrink s;
       let s = (if pbuf_get_allocsrc (pbufs s q) = 0 \<and> rem_len \<noteq> pb_len (pbufs s q)
                then let (r, s) = mem_trim q (pb_payload (pbufs s q) - q + ucast rem_len) s;
                         s = LWIP_ASSERT ''mem_trim returned r == NULL'' (r \<noteq> 0) s
                     in LWIP_ASSERT ''mem_trim returned r != q'' (r = q) s
                else s);
       let s = upd_pbuf q (\<lambda>b. b\<lparr>pb_len := rem_len, pb_tot_len := rem_len\<rparr>) s;
       let s = (if pb_next (pbufs s q) \<noteq> 0 then snd (pbuf_free (pb_next (pbufs s q)) s) else s);
       Some (upd_pbuf q (\<lambda>b. b\<lparr>pb_next := 0\<rparr>) s) })"

definition pbuf_add_header_impl :: "u32 \<Rightarrow> u32 \<Rightarrow> bool \<Rightarrow> 'a stack_scheme \<Rightarrow> u8 \<times> 'a stack_scheme" where
  "pbuf_add_header_impl p header_size_increment force s =
    (let s = LWIP_ASSERT ''p != NULL'' (p \<noteq> 0) s in
     if p = 0 \<or> header_size_increment > 0xFFFF then (1, s)
     else if header_size_increment = 0 then (0, s)
     else
       let increment_magnitude = ucast header_size_increment :: u16 in
       if increment_magnitude + pb_tot_len (pbufs s p) < increment_magnitude then (1, s)
       else
         let payload = pb_payload (pbufs s p) - header_size_increment;
             contiguous = pb_type_internal (pbufs s p) AND 0x80 \<noteq> 0 in
         if contiguous \<and> payload < p + SIZEOF_STRUCT_PBUF then (1, s)
         else if \<not> contiguous \<and> \<not> force then (1, s)
         else (0, upd_pbuf p (\<lambda>b. b\<lparr>pb_payload := payload, pb_len := pb_len b + increment_magnitude,
                 pb_tot_len := pb_tot_len b + increment_magnitude\<rparr>) s))"

definition pbuf_add_header :: "u32 \<Rightarrow> u32 \<Rightarrow> 'a stack_scheme \<Rightarrow> u8 \<times> 'a stack_scheme" where
  "pbuf_add_header p n s = pbuf_add_header_impl p n False s"

definition pbuf_add_header_force :: "u32 \<Rightarrow> u32 \<Rightarrow> 'a stack_scheme \<Rightarrow> u8 \<times> 'a stack_scheme" where
  "pbuf_add_header_force p n s = pbuf_add_header_impl p n True s"

definition pbuf_remove_header :: "u32 \<Rightarrow> u32 \<Rightarrow> 'a stack_scheme \<Rightarrow> u8 \<times> 'a stack_scheme" where
  "pbuf_remove_header p header_size_decrement s =
    (let s = LWIP_ASSERT ''p != NULL'' (p \<noteq> 0) s in
     if p = 0 \<or> header_size_decrement > 0xFFFF then (1, s)
     else if header_size_decrement = 0 then (0, s)
     else
       let increment_magnitude = ucast header_size_decrement :: u16 in
       if \<not> increment_magnitude \<le> pb_len (pbufs s p) then (1, s)
       else (0, upd_pbuf p (\<lambda>b. b\<lparr>pb_payload := pb_payload b + header_size_decrement,
              pb_len := pb_len b - increment_magnitude, pb_tot_len := pb_tot_len b - increment_magnitude\<rparr>) s))"

definition pbuf_header_impl :: "u32 \<Rightarrow> 16 word \<Rightarrow> bool \<Rightarrow> 'a stack_scheme \<Rightarrow> u8 \<times> 'a stack_scheme" where
  "pbuf_header_impl p header_size_increment force s =
    (if header_size_increment <s 0 then pbuf_remove_header p (- scast header_size_increment) s
     else pbuf_add_header_impl p (scast header_size_increment) force s)"

definition pbuf_header :: "u32 \<Rightarrow> 16 word \<Rightarrow> 'a stack_scheme \<Rightarrow> u8 \<times> 'a stack_scheme" where
  "pbuf_header p n s = pbuf_header_impl p n False s"

definition pbuf_header_force :: "u32 \<Rightarrow> 16 word \<Rightarrow> 'a stack_scheme \<Rightarrow> u8 \<times> 'a stack_scheme" where
  "pbuf_header_force p n s = pbuf_header_impl p n True s"

partial_function (option) pbuf_free_header :: "u32 \<Rightarrow> u16 \<Rightarrow> 'a stack_scheme \<Rightarrow> (u32 \<times> 'a stack_scheme) option" where
  "pbuf_free_header p free_left s =
    (if free_left = 0 \<or> p = 0 then Some (p, s)
     else if free_left \<ge> pb_len (pbufs s p)
     then let free_left = free_left - pb_len (pbufs s p); q = pb_next (pbufs s p);
              s = snd (pbuf_free p (upd_pbuf p (\<lambda>b. b\<lparr>pb_next := 0\<rparr>) s))
          in pbuf_free_header q free_left s
     else Some (p, snd (pbuf_remove_header p (ucast free_left) s)))"

partial_function (option) pbuf_clen_loop :: "u32 \<Rightarrow> u16 \<Rightarrow> 'a stack_scheme \<Rightarrow> u16 option" where
  "pbuf_clen_loop p len s = (if p = 0 then Some len else pbuf_clen_loop (pb_next (pbufs s p)) (len + 1) s)"

definition pbuf_clen :: "u32 \<Rightarrow> 'a stack_scheme \<Rightarrow> u16 option" where
  "pbuf_clen p s = pbuf_clen_loop p 0 s"

subsection \<open>References and chains\<close>

definition pbuf_ref :: "u32 \<Rightarrow> 'a stack_scheme \<Rightarrow> 'a stack_scheme" where
  "pbuf_ref p s =
    (if p \<noteq> 0
     then let s = upd_pbuf p (\<lambda>b. b\<lparr>pb_ref := pb_ref b + 1\<rparr>) s
          in LWIP_ASSERT ''pbuf ref overflow'' (pb_ref (pbufs s p) > 0) s
     else s)"

partial_function (option) pbuf_cat_loop :: "u32 \<Rightarrow> u32 \<Rightarrow> 'a stack_scheme \<Rightarrow> (u32 \<times> 'a stack_scheme) option" where
  "pbuf_cat_loop p t s =
    (if pb_next (pbufs s p) \<noteq> 0
     then let s = upd_pbuf p (\<lambda>b. b\<lparr>pb_tot_len := pb_tot_len b + pb_tot_len (pbufs s t)\<rparr>) s
          in pbuf_cat_loop (pb_next (pbufs s p)) t s
     else Some (p, s))"

definition pbuf_cat :: "u32 \<Rightarrow> u32 \<Rightarrow> 'a stack_scheme \<Rightarrow> 'a stack_scheme option" where
  "pbuf_cat h t s =
    (if \<not> (h \<noteq> 0 \<and> t \<noteq> 0) then Some s
     else do {
       (p, s) \<leftarrow> pbuf_cat_loop h t s;
       let s = LWIP_ASSERT ''p->tot_len == p->len (of last pbuf in chain)'' (pb_tot_len (pbufs s p) = pb_len (pbufs s p)) s;
       let s = LWIP_ASSERT ''p->next == NULL'' (pb_next (pbufs s p) = 0) s;
       let s = upd_pbuf p (\<lambda>b. b\<lparr>pb_tot_len := pb_tot_len b + pb_tot_len (pbufs s t)\<rparr>) s;
       Some (upd_pbuf p (\<lambda>b. b\<lparr>pb_next := t\<rparr>) s) })"

definition pbuf_chain :: "u32 \<Rightarrow> u32 \<Rightarrow> 'a stack_scheme \<Rightarrow> 'a stack_scheme option" where
  "pbuf_chain h t s = do { s \<leftarrow> pbuf_cat h t s; Some (pbuf_ref t s) }"

definition pbuf_dechain :: "u32 \<Rightarrow> 'a stack_scheme \<Rightarrow> (u32 \<times> 'a stack_scheme) option" where
  "pbuf_dechain p s =
    (if p = 0 then None
     else
       let q = pb_next (pbufs s p);
           (tail_gone, s) =
             (if q \<noteq> 0
              then let s = LWIP_ASSERT ''p->tot_len == p->len + q->tot_len''
                         (uint (pb_tot_len (pbufs s q)) = uint (pb_tot_len (pbufs s p)) - uint (pb_len (pbufs s p))) s;
                       s = upd_pbuf q (\<lambda>b. b\<lparr>pb_tot_len := pb_tot_len (pbufs s p) - pb_len (pbufs s p)\<rparr>) s;
                       s = upd_pbuf p (\<lambda>b. b\<lparr>pb_next := 0\<rparr>) s;
                       s = upd_pbuf p (\<lambda>b. b\<lparr>pb_tot_len := pb_len b\<rparr>) s
                   in pbuf_free q s
              else (1, s));
           s = LWIP_ASSERT ''p->tot_len == p->len'' (pb_tot_len (pbufs s p) = pb_len (pbufs s p)) s
       in Some (if tail_gone > 0 then 0 else q, s))"

subsection \<open>Copying\<close>

partial_function (option) copy_pbuf_loop ::
  "u32 \<Rightarrow> u32 \<Rightarrow> u16 \<Rightarrow> u32 \<Rightarrow> u32 \<Rightarrow> 'a stack_scheme \<Rightarrow> (err_t \<times> 'a stack_scheme) option" where
  "copy_pbuf_loop p_to p_from copy_len offset_to offset_from s =
    (if p_to = 0 \<or> p_from = 0 then None
     else
       let to = pbufs s p_to; frm = pbufs s p_from;
           len = (if ucast (pb_len to) - offset_to \<ge> ucast (pb_len frm) - offset_from
                  then ucast (pb_len frm) - offset_from else ucast (pb_len to) - offset_to);
           len = (if ucast copy_len < len then ucast copy_len else len);
           s = MEMCPY (pb_payload to + offset_to) (pb_payload frm + offset_from) (unat len) s;
           offset_to = offset_to + len; offset_from = offset_from + len;
           copy_len = ucast (ucast copy_len - len);
           s = LWIP_ASSERT ''offset_to <= p_to->len'' (offset_to \<le> ucast (pb_len to)) s;
           s = LWIP_ASSERT ''offset_from <= p_from->len'' (offset_from \<le> ucast (pb_len frm)) s;
           (p_from, offset_from) = (if offset_from \<ge> ucast (pb_len frm) then (pb_next frm, 0) else (p_from, offset_from)) in
       if p_from = 0 \<and> copy_len \<noteq> 0 then Some (ERR_ARG, s)
       else
         let (p_to, offset_to) = (if offset_to = ucast (pb_len to) then (pb_next to, 0) else (p_to, offset_to)) in
         if p_to = 0 \<and> copy_len \<noteq> 0 then Some (ERR_ARG, s)
         else if p_from \<noteq> 0 \<and> pb_len (pbufs s p_from) = pb_tot_len (pbufs s p_from) \<and> pb_next (pbufs s p_from) \<noteq> 0
         then Some (ERR_VAL, s)
         else if p_to \<noteq> 0 \<and> pb_len (pbufs s p_to) = pb_tot_len (pbufs s p_to) \<and> pb_next (pbufs s p_to) \<noteq> 0
         then Some (ERR_VAL, s)
         else if copy_len \<noteq> 0 then copy_pbuf_loop p_to p_from copy_len offset_to offset_from s
         else Some (ERR_OK, s))"

definition pbuf_copy_partial_pbuf ::
  "u32 \<Rightarrow> u32 \<Rightarrow> u16 \<Rightarrow> u16 \<Rightarrow> 'a stack_scheme \<Rightarrow> (err_t \<times> 'a stack_scheme) option" where
  "pbuf_copy_partial_pbuf p_to p_from copy_len offset s =
    (if \<not> (p_from \<noteq> 0 \<and> pb_tot_len (pbufs s p_from) \<ge> copy_len) then Some (ERR_ARG, s)
     else if \<not> (p_to \<noteq> 0 \<and> unat (pb_tot_len (pbufs s p_to)) \<ge> unat offset + unat copy_len) then Some (ERR_ARG, s)
     else copy_pbuf_loop p_to p_from copy_len (ucast offset) 0 s)"

definition pbuf_copy :: "u32 \<Rightarrow> u32 \<Rightarrow> 'a stack_scheme \<Rightarrow> (err_t \<times> 'a stack_scheme) option" where
  "pbuf_copy p_to p_from s =
    (if p_from = 0 then Some (ERR_ARG, s) else pbuf_copy_partial_pbuf p_to p_from (pb_tot_len (pbufs s p_from)) 0 s)"

partial_function (option) copy_partial_loop ::
  "u32 \<Rightarrow> u32 \<Rightarrow> u16 \<Rightarrow> u16 \<Rightarrow> u16 \<Rightarrow> u16 \<Rightarrow> 'a stack_scheme \<Rightarrow> (u16 \<times> 'a stack_scheme) option" where
  "copy_partial_loop p dataptr len offset left copied_total s =
    (if len = 0 \<or> p = 0 then Some (copied_total, s)
     else
       let b = pbufs s p in
       if offset \<noteq> 0 \<and> offset \<ge> pb_len b
       then copy_partial_loop (pb_next b) dataptr len (offset - pb_len b) left copied_total s
       else
         let buf_copy_len = pb_len b - offset;
             buf_copy_len = (if buf_copy_len > len then len else buf_copy_len);
             s = MEMCPY (dataptr + ucast left) (pb_payload b + ucast offset) (unat buf_copy_len) s
         in copy_partial_loop (pb_next (pbufs s p)) dataptr (len - buf_copy_len) 0 (left + buf_copy_len)
              (copied_total + buf_copy_len) s)"

definition pbuf_copy_partial ::
  "u32 \<Rightarrow> u32 \<Rightarrow> u16 \<Rightarrow> u16 \<Rightarrow> 'a stack_scheme \<Rightarrow> (u16 \<times> 'a stack_scheme) option" where
  "pbuf_copy_partial buf dataptr len offset s =
    (if buf = 0 then Some (0, s) else if dataptr = 0 then Some (0, s)
     else copy_partial_loop buf dataptr len offset 0 0 s)"

partial_function (option) pbuf_skip_const :: "u32 \<Rightarrow> u16 \<Rightarrow> 'a stack_scheme \<Rightarrow> (u32 \<times> u16) option" where
  "pbuf_skip_const q offset_left s =
    (if q \<noteq> 0 \<and> pb_len (pbufs s q) \<le> offset_left
     then pbuf_skip_const (pb_next (pbufs s q)) (offset_left - pb_len (pbufs s q)) s
     else Some (q, offset_left))"

definition pbuf_skip :: "u32 \<Rightarrow> u16 \<Rightarrow> 'a stack_scheme \<Rightarrow> (u32 \<times> u16) option" where
  "pbuf_skip q offset s = pbuf_skip_const q offset s"

definition pbuf_get_contiguous ::
  "u32 \<Rightarrow> u32 \<Rightarrow> u32 \<Rightarrow> u16 \<Rightarrow> u16 \<Rightarrow> 'a stack_scheme \<Rightarrow> (u32 \<times> 'a stack_scheme) option" where
  "pbuf_get_contiguous p buf bufsize len offset s =
    (if p = 0 then Some (0, s) else if buf = 0 then Some (0, s) else if \<not> bufsize \<ge> ucast len then Some (0, s)
     else do {
       (q, out_offset) \<leftarrow> pbuf_skip_const p offset s;
       if q \<noteq> 0
       then (if unat (pb_len (pbufs s q)) \<ge> unat out_offset + unat len then Some (pb_payload (pbufs s q) + ucast out_offset, s)
             else do {
               (n, s) \<leftarrow> pbuf_copy_partial q buf len out_offset s;
               Some (if n \<noteq> len then 0 else buf, s) })
       else Some (0, s) })"

partial_function (option) take_loop :: "u32 \<Rightarrow> u32 \<Rightarrow> u32 \<Rightarrow> u32 \<Rightarrow> 'a stack_scheme \<Rightarrow> (u32 \<times> 'a stack_scheme) option" where
  "take_loop p dataptr total_copy_len copied_total s =
    (if total_copy_len = 0 then Some (copied_total, s)
     else
       let s = LWIP_ASSERT ''pbuf_take: invalid pbuf'' (p \<noteq> 0) s in
       if p = 0 then None
       else
         let buf_copy_len = (if total_copy_len > ucast (pb_len (pbufs s p)) then ucast (pb_len (pbufs s p)) else total_copy_len);
             s = MEMCPY (pb_payload (pbufs s p)) (dataptr + copied_total) (unat buf_copy_len) s
         in take_loop (pb_next (pbufs s p)) dataptr (total_copy_len - buf_copy_len) (copied_total + buf_copy_len) s)"

definition pbuf_take :: "u32 \<Rightarrow> u32 \<Rightarrow> u16 \<Rightarrow> 'a stack_scheme \<Rightarrow> (err_t \<times> 'a stack_scheme) option" where
  "pbuf_take buf dataptr len s =
    (if buf = 0 then Some (ERR_ARG, s) else if dataptr = 0 then Some (ERR_ARG, s)
     else if pb_tot_len (pbufs s buf) < len then Some (ERR_MEM, s)
     else do {
       (copied_total, s) \<leftarrow> take_loop buf dataptr (ucast len) 0 s;
       Some (ERR_OK, LWIP_ASSERT ''did not copy all data'' (copied_total = ucast len) s) })"

definition pbuf_take_at :: "u32 \<Rightarrow> u32 \<Rightarrow> u16 \<Rightarrow> u16 \<Rightarrow> 'a stack_scheme \<Rightarrow> (err_t \<times> 'a stack_scheme) option" where
  "pbuf_take_at buf dataptr len offset s = do {
     (q, target_offset) \<leftarrow> pbuf_skip buf offset s;
     if q \<noteq> 0 \<and> unat (pb_tot_len (pbufs s q)) \<ge> unat target_offset + unat len
     then do {
       let s = LWIP_ASSERT ''check pbuf_skip result'' (target_offset < pb_len (pbufs s q)) s;
       let first_copy_len = (if uint (pb_len (pbufs s q)) - uint target_offset < uint len
                             then pb_len (pbufs s q) - target_offset else len);
       let s = MEMCPY (pb_payload (pbufs s q) + ucast target_offset) dataptr (unat first_copy_len) s;
       let remaining_len = len - first_copy_len;
       if remaining_len > 0 then pbuf_take (pb_next (pbufs s q)) (dataptr + ucast first_copy_len) remaining_len s
       else Some (ERR_OK, s) }
     else Some (ERR_MEM, s) }"

definition pbuf_clone :: "lw \<Rightarrow> pbuf_layer \<Rightarrow> pbuf_type \<Rightarrow> u32 \<Rightarrow> 'a stack_scheme \<Rightarrow> (u32 \<times> 'a stack_scheme) option" where
  "pbuf_clone L layer type p s =
    (if p = 0 then None
     else case pbuf_alloc L layer (pb_tot_len (pbufs s p)) type s of (q, s) \<Rightarrow>
       if q = 0 then Some (0, s)
       else do {
         (err, s) \<leftarrow> pbuf_copy q p s;
         Some (q, LWIP_ASSERT ''pbuf_copy failed'' (err = ERR_OK) s) })"

definition pbuf_coalesce :: "lw \<Rightarrow> u32 \<Rightarrow> pbuf_layer \<Rightarrow> 'a stack_scheme \<Rightarrow> (u32 \<times> 'a stack_scheme) option" where
  "pbuf_coalesce L p layer s =
    (if p = 0 then None
     else if pb_next (pbufs s p) = 0 then Some (p, s)
     else do {
       (q, s) \<leftarrow> pbuf_clone L layer PBUF_RAM p s;
       if q = 0 then Some (p, s) else Some (q, snd (pbuf_free p s)) })"

subsection \<open>Single bytes and searching\<close>

definition pbuf_try_get_at :: "u32 \<Rightarrow> u16 \<Rightarrow> 'a stack_scheme \<Rightarrow> int option" where
  "pbuf_try_get_at p offset s = do {
     (q, q_idx) \<leftarrow> pbuf_skip_const p offset s;
     if q \<noteq> 0 \<and> pb_len (pbufs s q) > q_idx then Some (uint (lmem s (pb_payload (pbufs s q) + ucast q_idx)))
     else Some (- 1) }"

definition pbuf_get_at :: "u32 \<Rightarrow> u16 \<Rightarrow> 'a stack_scheme \<Rightarrow> u8 option" where
  "pbuf_get_at p offset s = do {
     ret \<leftarrow> pbuf_try_get_at p offset s;
     if ret \<ge> 0 then Some (of_int ret) else Some 0 }"

definition pbuf_put_at :: "u32 \<Rightarrow> u16 \<Rightarrow> u8 \<Rightarrow> 'a stack_scheme \<Rightarrow> 'a stack_scheme option" where
  "pbuf_put_at p offset data s = do {
     (q, q_idx) \<leftarrow> pbuf_skip p offset s;
     if q \<noteq> 0 \<and> pb_len (pbufs s q) > q_idx
     then Some (s\<lparr>lmem := (lmem s)(pb_payload (pbufs s q) + ucast q_idx := data)\<rparr>)
     else Some s }"

text \<open>The comparison of the bytes from \<open>i\<close> on, \<open>k\<close> of them left.\<close>

fun memcmp_loop :: "u32 \<Rightarrow> u16 \<Rightarrow> u32 \<Rightarrow> nat \<Rightarrow> nat \<Rightarrow> 'a stack_scheme \<Rightarrow> u16 option" where
  "memcmp_loop q start s2 i 0 s = Some 0"
| "memcmp_loop q start s2 i (Suc k) s = do {
     a \<leftarrow> pbuf_get_at q (start + of_nat i) s;
     if a \<noteq> lmem s (s2 + of_nat i) then Some (of_nat (min (i + 1) 0xFFFF))
     else memcmp_loop q start s2 (i + 1) k s }"

definition pbuf_memcmp :: "u32 \<Rightarrow> u16 \<Rightarrow> u32 \<Rightarrow> u16 \<Rightarrow> 'a stack_scheme \<Rightarrow> u16 option" where
  "pbuf_memcmp p offset s2 n s =
    (if p = 0 then None
     else if unat (pb_tot_len (pbufs s p)) < unat offset + unat n then Some 0xFFFF
     else do {
       (q, start) \<leftarrow> pbuf_skip_const p offset s;
       memcmp_loop q start s2 0 (unat n) s })"

partial_function (option) memfind_loop ::
  "u32 \<Rightarrow> u32 \<Rightarrow> u16 \<Rightarrow> u16 \<Rightarrow> u16 \<Rightarrow> 'a stack_scheme \<Rightarrow> u16 option" where
  "memfind_loop p memory mem_len max_cmp_start i s =
    (if i \<le> max_cmp_start
     then do {
       plus \<leftarrow> pbuf_memcmp p i memory mem_len s;
       if plus = 0 then Some i else memfind_loop p memory mem_len max_cmp_start (i + 1) s }
     else Some 0xFFFF)"

definition pbuf_memfind :: "u32 \<Rightarrow> u32 \<Rightarrow> u16 \<Rightarrow> u16 \<Rightarrow> 'a stack_scheme \<Rightarrow> u16 option" where
  "pbuf_memfind p memory mem_len start_offset s =
    (if p = 0 then None
     else
       let max_cmp_start = pb_tot_len (pbufs s p) - mem_len in
       if unat (pb_tot_len (pbufs s p)) \<ge> unat mem_len + unat start_offset
       then memfind_loop p memory mem_len max_cmp_start start_offset s
       else Some 0xFFFF)"

partial_function (option) strlen_from :: "memory \<Rightarrow> u32 \<Rightarrow> nat \<Rightarrow> nat option" where
  "strlen_from m a n = (if m a = 0 then Some n else strlen_from m (a + 1) (n + 1))"

definition pbuf_strstr :: "u32 \<Rightarrow> u32 \<Rightarrow> 'a stack_scheme \<Rightarrow> u16 option" where
  "pbuf_strstr p substr s =
    (if substr = 0 \<or> lmem s substr = 0 then Some 0xFFFF
     else if p = 0 then None
     else if pb_tot_len (pbufs s p) = 0xFFFF then Some 0xFFFF
     else do {
       substr_len \<leftarrow> strlen_from (lmem s) substr 0;
       if substr_len \<ge> 0xFFFF then Some 0xFFFF else pbuf_memfind p substr (of_nat substr_len) 0 s })"

end
