(* ===== verification/PbufChain.thy ===== *)
theory PbufChain
  imports Pbuf
begin

text \<open>
  What the operations of \<open>Pbuf\<close> do to chains: \<open>chain h p qs\<close> says that the buffers at the addresses \<open>qs\<close> are linked
  from \<open>p\<close> on and end with NULL, \<open>packet\<close> adds the invariant of \<^verbatim>\<open>pbuf.h\<close> on the total lengths, and \<open>content\<close> is
  the data of a packet, whatever its division into buffers.
\<close>

subsection \<open>Chains\<close>

primrec chain :: "(u32 \<Rightarrow> pbuf) \<Rightarrow> u32 \<Rightarrow> u32 list \<Rightarrow> bool" where
  "chain h p [] \<longleftrightarrow> p = 0"
| "chain h p (q # qs) \<longleftrightarrow> p = q \<and> q \<noteq> 0 \<and> chain h (pb_next (h q)) qs"

definition size_of :: "(u32 \<Rightarrow> pbuf) \<Rightarrow> u32 list \<Rightarrow> nat" where
  "size_of h qs = sum_list (map (\<lambda>q. unat (pb_len (h q))) qs)"

primrec tot_ok :: "(u32 \<Rightarrow> pbuf) \<Rightarrow> u32 list \<Rightarrow> bool" where
  "tot_ok h [] = True"
| "tot_ok h (q # qs) \<longleftrightarrow> unat (pb_tot_len (h q)) = unat (pb_len (h q)) + size_of h qs \<and> tot_ok h qs"

definition packet :: "(u32 \<Rightarrow> pbuf) \<Rightarrow> u32 \<Rightarrow> u32 list \<Rightarrow> bool" where
  "packet h p qs \<longleftrightarrow> chain h p qs \<and> qs \<noteq> [] \<and> tot_ok h qs"

definition content :: "memory \<Rightarrow> (u32 \<Rightarrow> pbuf) \<Rightarrow> u32 list \<Rightarrow> bytes" where
  "content m h qs = concat (map (\<lambda>q. mem_read m (pb_payload (h q)) (unat (pb_len (h q)))) qs)"

lemma size_of_simps [simp]:
  "size_of h [] = 0" "size_of h (q # qs) = unat (pb_len (h q)) + size_of h qs" "size_of h (as @ bs) = size_of h as + size_of h bs"
  by (simp_all add: size_of_def)

lemma content_simps [simp]:
  "content m h [] = []" "content m h (q # qs) = mem_read m (pb_payload (h q)) (unat (pb_len (h q))) @ content m h qs"
  "content m h (as @ bs) = content m h as @ content m h bs"
  by (simp_all add: content_def)

lemma length_content [simp]: "length (content m h qs) = size_of h qs"
  by (induction qs) simp_all

lemma chain_0: "chain h 0 qs \<longleftrightarrow> qs = []"
  by (cases qs) auto

lemma chain_head: "chain h p qs \<Longrightarrow> p \<noteq> 0 \<Longrightarrow> \<exists>rs. qs = p # rs \<and> chain h (pb_next (h p)) rs"
  by (cases qs) auto

lemma chain_unique: "chain h p qs \<Longrightarrow> chain h p rs \<Longrightarrow> qs = rs"
proof (induction qs arbitrary: p rs)
  case (Cons q qs)
  then show ?case by (cases rs) auto
qed (auto simp: chain_0)

lemma chain_drop: "chain h p (as @ q # bs) \<Longrightarrow> chain h q (q # bs)"
  by (induction as arbitrary: p) auto

text \<open>A chain that ends is not a cycle.\<close>

lemma chain_distinct: "chain h p qs \<Longrightarrow> distinct qs"
proof (induction qs arbitrary: p)
  case (Cons q qs)
  have "q \<notin> set qs"
  proof
    assume "q \<in> set qs"
    then obtain as bs where s: "qs = as @ q # bs" by (auto dest: split_list)
    have "chain h (pb_next (h q)) (as @ q # bs)" using Cons.prems s by simp
    then have "chain h q (q # bs)" by (rule chain_drop)
    moreover have "chain h q (q # as @ q # bs)" using Cons.prems s by simp
    ultimately have "q # bs = q # as @ q # bs" by (rule chain_unique)
    then show False by simp
  qed
  then show ?case using Cons by auto
qed simp

lemma chain_cong: "(\<And>q. q \<in> set qs \<Longrightarrow> pb_next (g q) = pb_next (h q)) \<Longrightarrow> chain g p qs = chain h p qs"
  by (induction qs arbitrary: p) auto

lemma chain_notin_0: "chain h p qs \<Longrightarrow> 0 \<notin> set qs"
  by (induction qs arbitrary: p) auto

lemma size_of_cong: "(\<And>q. q \<in> set qs \<Longrightarrow> pb_len (g q) = pb_len (h q)) \<Longrightarrow> size_of g qs = size_of h qs"
  by (induction qs) auto

lemma tot_ok_cong:
  "(\<And>q. q \<in> set qs \<Longrightarrow> pb_len (g q) = pb_len (h q) \<and> pb_tot_len (g q) = pb_tot_len (h q)) \<Longrightarrow> tot_ok g qs = tot_ok h qs"
  by (induction qs) (auto simp: size_of_cong [of _ g h])

lemma content_cong:
  "(\<And>q. q \<in> set qs \<Longrightarrow> pb_len (g q) = pb_len (h q) \<and> pb_payload (g q) = pb_payload (h q)) \<Longrightarrow> content m g qs = content m h qs"
  by (induction qs) auto

subsection \<open>Walking\<close>

lemma clen_loop: "chain (pbufs s) p qs \<Longrightarrow> pbuf_clen_loop p n s = Some (n + of_nat (length qs))"
proof (induction qs arbitrary: p n)
  case (Cons q qs)
  then have "pbuf_clen_loop p n s = pbuf_clen_loop (pb_next (pbufs s q)) (n + 1) s" by (subst pbuf_clen_loop.simps) simp
  then show ?case using Cons by (simp add: ac_simps)
qed (subst pbuf_clen_loop.simps, simp)

lemma clen_chain: "chain (pbufs s) p qs \<Longrightarrow> pbuf_clen p s = Some (of_nat (length qs))"
  by (simp add: pbuf_clen_def clen_loop)

text \<open>Skipping finds the buffer an offset falls into, or the end.\<close>

lemma skip_chain:
  assumes "chain (pbufs s) p qs"
  shows "\<exists>q k. pbuf_skip_const p off s = Some (q, k) \<and>
    (if unat off < size_of (pbufs s) qs
     then \<exists>as bs. qs = as @ q # bs \<and> q \<noteq> 0 \<and> unat off = size_of (pbufs s) as + unat k \<and> k < pb_len (pbufs s q)
     else q = 0)"
  using assms
proof (induction qs arbitrary: p off)
  case Nil
  then show ?case by (subst pbuf_skip_const.simps) simp
next
  case (Cons q qs)
  let ?l = "pb_len (pbufs s q)"
  have p: "p = q" "q \<noteq> 0" "chain (pbufs s) (pb_next (pbufs s q)) qs" using Cons.prems by auto
  show ?case
  proof (cases "?l \<le> off")
    case True
    then have u: "unat (off - ?l) = unat off - unat ?l" "unat ?l \<le> unat off"
      by (simp_all add: unat_sub word_le_nat_alt)
    have "pbuf_skip_const p off s = pbuf_skip_const (pb_next (pbufs s q)) (off - ?l) s"
      using p True by (subst pbuf_skip_const.simps) simp
    moreover from Cons.IH [OF p(3), of "off - ?l"] obtain r k where
      r: "pbuf_skip_const (pb_next (pbufs s q)) (off - ?l) s = Some (r, k)"
        "if unat (off - ?l) < size_of (pbufs s) qs
         then \<exists>as bs. qs = as @ r # bs \<and> r \<noteq> 0 \<and> unat (off - ?l) = size_of (pbufs s) as + unat k \<and> k < pb_len (pbufs s r)
         else r = 0" by blast
    moreover have "unat (off - ?l) < size_of (pbufs s) qs \<longleftrightarrow> unat off < size_of (pbufs s) (q # qs)" using u by auto
    moreover have "\<exists>as bs. q # qs = as @ r # bs \<and> r \<noteq> 0 \<and> unat off = size_of (pbufs s) as + unat k \<and> k < pb_len (pbufs s r)"
      if "\<exists>as bs. qs = as @ r # bs \<and> r \<noteq> 0 \<and> unat (off - ?l) = size_of (pbufs s) as + unat k \<and> k < pb_len (pbufs s r)"
    proof -
      from that obtain as bs where "qs = as @ r # bs" "r \<noteq> 0" "unat (off - ?l) = size_of (pbufs s) as + unat k" "k < pb_len (pbufs s r)"
        by blast
      then show ?thesis using u by (intro exI [of _ "q # as"] exI [of _ bs]) simp
    qed
    ultimately show ?thesis by (auto split: if_splits)
  next
    case False
    then have "pbuf_skip_const p off s = Some (q, off)" using p by (subst pbuf_skip_const.simps) simp
    moreover have "unat off < unat ?l" using False by (simp add: not_le word_less_nat_alt)
    ultimately show ?thesis using p False by (auto simp: not_le intro: exI [of _ "[]"])
  qed
qed

lemma get_at_chain:
  assumes "chain (pbufs s) p qs"
  shows "pbuf_try_get_at p off s = Some (if unat off < size_of (pbufs s) qs then uint (content (lmem s) (pbufs s) qs ! unat off) else - 1)"
proof -
  from skip_chain [OF assms, of off] obtain q k where sk: "pbuf_skip_const p off s = Some (q, k)"
    "if unat off < size_of (pbufs s) qs
     then \<exists>as bs. qs = as @ q # bs \<and> q \<noteq> 0 \<and> unat off = size_of (pbufs s) as + unat k \<and> k < pb_len (pbufs s q)
     else q = 0" by blast
  show ?thesis
  proof (cases "unat off < size_of (pbufs s) qs")
    case True
    with sk obtain as bs where "qs = as @ q # bs" "q \<noteq> 0" "unat off = size_of (pbufs s) as + unat k" "k < pb_len (pbufs s q)"
      by auto
    then show ?thesis
      using True sk(1) by (simp add: pbuf_try_get_at_def nth_append word_less_nat_alt nth_mem_read)
  next
    case False
    then show ?thesis using sk by (simp add: pbuf_try_get_at_def)
  qed
qed

lemma pbuf_get_at_chain:
  "chain (pbufs s) p qs \<Longrightarrow>
   pbuf_get_at p off s = Some (if unat off < size_of (pbufs s) qs then content (lmem s) (pbufs s) qs ! unat off else 0)"
  by (simp add: pbuf_get_at_def get_at_chain)

subsection \<open>Comparing and searching\<close>

definition occurs :: "bytes \<Rightarrow> bytes \<Rightarrow> nat \<Rightarrow> bool" where
  "occurs pat c i \<longleftrightarrow> i + length pat \<le> length c \<and> take (length pat) (drop i c) = pat"

lemma occurs_nth: "i + n \<le> length c \<Longrightarrow> occurs (mem_read m a n) c i \<longleftrightarrow> (\<forall>j<n. c ! (i + j) = m (a + of_nat j))"
  by (auto simp: occurs_def list_eq_iff_nth_eq nth_mem_read)

lemma memcmp_loop_chain:
  assumes "chain (pbufs s) q rs" "size_of (pbufs s) rs < 2 ^ 16"
    and "unat start + i + k \<le> size_of (pbufs s) rs"
  shows "\<exists>r. memcmp_loop q start s2 i k s = Some r \<and>
    (r = 0 \<longleftrightarrow> (\<forall>j. i \<le> j \<and> j < i + k \<longrightarrow> content (lmem s) (pbufs s) rs ! (unat start + j) = lmem s (s2 + of_nat j)))"
  using assms(3)
proof (induction k arbitrary: i)
  case (Suc k)
  let ?c = "content (lmem s) (pbufs s) rs"
  have u: "unat (start + of_nat i) = unat start + i"
    using Suc.prems assms(2) by (simp add: unat_word_ariths unat_of_nat)
  then have g: "pbuf_get_at q (start + of_nat i) s = Some (?c ! (unat start + i))"
    using Suc.prems by (simp add: pbuf_get_at_chain [OF assms(1)])
  show ?case
  proof (cases "?c ! (unat start + i) = lmem s (s2 + of_nat i)")
    case True
    from Suc.IH [of "i + 1"] Suc.prems obtain r where "memcmp_loop q start s2 (i + 1) k s = Some r"
      "r = 0 \<longleftrightarrow> (\<forall>j. i + 1 \<le> j \<and> j < i + 1 + k \<longrightarrow> ?c ! (unat start + j) = lmem s (s2 + of_nat j))" by auto
    moreover have "(\<forall>j. i \<le> j \<and> j < i + Suc k \<longrightarrow> ?c ! (unat start + j) = lmem s (s2 + of_nat j))
        \<longleftrightarrow> (\<forall>j. i + 1 \<le> j \<and> j < i + 1 + k \<longrightarrow> ?c ! (unat start + j) = lmem s (s2 + of_nat j))"
    proof -
      have "i \<le> j \<and> j < i + Suc k \<longleftrightarrow> j = i \<or> (i + 1 \<le> j \<and> j < i + 1 + k)" for j by auto
      then show ?thesis using True by simp
    qed
    ultimately show ?thesis using g True by simp
  next
    case False
    have "min (i + 1) 0xFFFF = i + 1" "i + 1 < 2 ^ 16" using Suc.prems assms(2) by simp_all
    then have "unat (of_nat (min (i + 1) 0xFFFF) :: u16) = i + 1" by (simp add: unat_of_nat del: of_nat_add of_nat_Suc)
    then have "(of_nat (min (i + 1) 0xFFFF) :: u16) \<noteq> 0" by (metis Suc_eq_plus1 nat.distinct(1) unsigned_0)
    then show ?thesis using g False by (auto intro: exI [of _ i])
  qed
qed auto

lemma memcmp_chain:
  assumes "packet (pbufs s) p qs"
  shows "\<exists>r. pbuf_memcmp p off s2 n s = Some r \<and>
    (r = 0 \<longleftrightarrow> occurs (mem_read (lmem s) s2 (unat n)) (content (lmem s) (pbufs s) qs) (unat off))"
proof -
  let ?c = "content (lmem s) (pbufs s) qs" and ?l = "size_of (pbufs s) qs"
  have c: "chain (pbufs s) p qs" "p \<noteq> 0" "unat (pb_tot_len (pbufs s p)) = ?l"
    using assms by (cases qs; auto simp: packet_def)+
  have lt: "?l < 2 ^ 16" using unat_lt2p_aux [of "pb_tot_len (pbufs s p)"] c(3) by simp
  show ?thesis
  proof (cases "?l < unat off + unat n")
    case True
    then show ?thesis using c by (simp add: pbuf_memcmp_def occurs_def)
  next
    case False
    from skip_chain [OF c(1), of off] obtain q k where sk: "pbuf_skip_const p off s = Some (q, k)"
      "if unat off < ?l then \<exists>as bs. qs = as @ q # bs \<and> q \<noteq> 0 \<and> unat off = size_of (pbufs s) as + unat k \<and> k < pb_len (pbufs s q)
       else q = 0" by blast
    show ?thesis
    proof (cases "unat off < ?l")
      case True
      with sk obtain as bs where qs: "qs = as @ q # bs" "unat off = size_of (pbufs s) as + unat k" by auto
      let ?d = "content (lmem s) (pbufs s) (q # bs)"
      have d: "?c ! (unat off + j) = ?d ! (unat k + j)" for j
        unfolding qs(1,2) content_simps(3) by (simp add: nth_append add.assoc)
      have "unat k + 0 + unat n \<le> size_of (pbufs s) (q # bs)" "size_of (pbufs s) (q # bs) < 2 ^ 16"
        using False lt unfolding qs by simp_all
      from memcmp_loop_chain [OF chain_drop [OF c(1) [unfolded qs(1)]] this(2,1), of s2]
      obtain r where r: "memcmp_loop q k s2 0 (unat n) s = Some r"
        "r = 0 \<longleftrightarrow> (\<forall>j. 0 \<le> j \<and> j < 0 + unat n \<longrightarrow> ?d ! (unat k + j) = lmem s (s2 + of_nat j))"
        by (elim exE conjE) (rule that)
      have "occurs (mem_read (lmem s) s2 (unat n)) ?c (unat off) \<longleftrightarrow> (\<forall>j<unat n. ?c ! (unat off + j) = lmem s (s2 + of_nat j))"
        using False by (intro occurs_nth) simp
      then show ?thesis using r sk(1) c False unfolding d by (simp add: pbuf_memcmp_def)
    next
      case False2: False
      then have "unat n = 0" "unat off = ?l" using False by auto
      then show ?thesis using sk(1) c by (simp add: pbuf_memcmp_def occurs_def)
    qed
  qed
qed

lemma memfind_loop_chain:
  assumes "packet (pbufs s) p qs" "unat start \<le> unat i" "unat i + unat n \<le> size_of (pbufs s) qs + 1" "n \<noteq> 0"
    and "\<And>j. unat start \<le> j \<Longrightarrow> j < unat i \<Longrightarrow> \<not> occurs (mem_read (lmem s) a (unat n)) (content (lmem s) (pbufs s) qs) j"
    and "unat n \<le> size_of (pbufs s) qs"
  shows "\<exists>r. memfind_loop p a n (pb_tot_len (pbufs s p) - n) i s = Some r \<and>
    (if \<exists>j\<ge>unat start. occurs (mem_read (lmem s) a (unat n)) (content (lmem s) (pbufs s) qs) j
     then unat start \<le> unat r \<and> occurs (mem_read (lmem s) a (unat n)) (content (lmem s) (pbufs s) qs) (unat r)
       \<and> (\<forall>j. unat start \<le> j \<and> j < unat r \<longrightarrow> \<not> occurs (mem_read (lmem s) a (unat n)) (content (lmem s) (pbufs s) qs) j)
     else r = 0xFFFF)"
  using assms(2,3,5)
proof (induction "size_of (pbufs s) qs + 1 - unat i - unat n" arbitrary: i)
  case 0
  let ?o = "occurs (mem_read (lmem s) a (unat n)) (content (lmem s) (pbufs s) qs)" and ?m = "pb_tot_len (pbufs s p) - n"
  have t: "unat (pb_tot_len (pbufs s p)) = size_of (pbufs s) qs" using assms(1) by (cases qs) (auto simp: packet_def)
  have m: "unat ?m = size_of (pbufs s) qs - unat n" using t assms(6) by (simp add: unat_sub word_le_nat_alt)
  have g: "\<not> i \<le> ?m" using 0 m assms(6) by (simp add: word_le_nat_alt)
  have "\<not> ?o j" if "unat start \<le> j" for j
    using 0 that by (cases "j < unat i") (auto simp: occurs_def)
  then show ?case using g by (subst memfind_loop.simps) auto
next
  case (Suc x)
  let ?o = "occurs (mem_read (lmem s) a (unat n)) (content (lmem s) (pbufs s) qs)" and ?m = "pb_tot_len (pbufs s p) - n"
  have t: "unat (pb_tot_len (pbufs s p)) = size_of (pbufs s) qs" using assms(1) by (cases qs) (auto simp: packet_def)
  have m: "unat ?m = size_of (pbufs s) qs - unat n" using t assms(6) by (simp add: unat_sub word_le_nat_alt)
  have g: "i \<le> ?m" using Suc.hyps(2) m by (simp add: word_le_nat_alt)
  from memcmp_chain [OF assms(1), of i a n] obtain r where r: "pbuf_memcmp p i a n s = Some r" "r = 0 \<longleftrightarrow> ?o (unat i)" by blast
  show ?case
  proof (cases "?o (unat i)")
    case True
    then show ?thesis using r g Suc.prems by (subst memfind_loop.simps) auto
  next
    case False
    have "unat n \<noteq> 0" using assms(4) by (simp add: unat_eq_0)
    then have "unat i + 1 < 2 ^ 16" using Suc.hyps(2) unat_lt2p_aux [of "pb_tot_len (pbufs s p)"] t by simp
    then have u: "unat (i + 1) = unat i + 1" by (simp add: unat_word_ariths)
    have "memfind_loop p a n ?m i s = memfind_loop p a n ?m (i + 1) s"
      using r g False by (subst memfind_loop.simps) simp
    moreover have "x = size_of (pbufs s) qs + 1 - unat (i + 1) - unat n" "unat start \<le> unat (i + 1)"
      "unat (i + 1) + unat n \<le> size_of (pbufs s) qs + 1" using Suc.hyps(2) Suc.prems u by simp_all
    moreover have "\<not> ?o j" if "unat start \<le> j" "j < unat (i + 1)" for j
      using that Suc.prems(3) False u by (cases "j = unat i") auto
    ultimately show ?thesis using Suc.hyps(1) by presburger
  qed
qed

lemma memfind_chain:
  assumes "packet (pbufs s) p qs"
  shows "\<exists>r. pbuf_memfind p a n start s = Some r \<and>
    (if \<exists>j\<ge>unat start. occurs (mem_read (lmem s) a (unat n)) (content (lmem s) (pbufs s) qs) j
     then unat start \<le> unat r \<and> occurs (mem_read (lmem s) a (unat n)) (content (lmem s) (pbufs s) qs) (unat r)
       \<and> (\<forall>j. unat start \<le> j \<and> j < unat r \<longrightarrow> \<not> occurs (mem_read (lmem s) a (unat n)) (content (lmem s) (pbufs s) qs) j)
     else r = 0xFFFF)"
proof -
  let ?o = "occurs (mem_read (lmem s) a (unat n)) (content (lmem s) (pbufs s) qs)" and ?l = "size_of (pbufs s) qs"
  have t: "unat (pb_tot_len (pbufs s p)) = ?l" "p \<noteq> 0" using assms by (cases qs; auto simp: packet_def)+
  show ?thesis
  proof (cases "unat n + unat start \<le> ?l")
    case False
    then have "\<not> ?o j" if "unat start \<le> j" for j using that by (auto simp: occurs_def)
    then show ?thesis using False t by (auto simp: pbuf_memfind_def)
  next
    case True
    then have f: "pbuf_memfind p a n start s = memfind_loop p a n (pb_tot_len (pbufs s p) - n) start s"
      using t by (simp add: pbuf_memfind_def)
    show ?thesis
    proof (cases "n = 0")
      case n: True
      have "start \<le> pb_tot_len (pbufs s p)" using True t(1) n by (simp add: word_le_nat_alt)
      moreover have "?o (unat start)" using True n by (simp add: occurs_def)
      moreover from this memcmp_chain [OF assms, of start a n] have "pbuf_memcmp p start a n s = Some 0" by auto
      ultimately show ?thesis unfolding f using n by (subst memfind_loop.simps) auto
    next
      case n: False
      show ?thesis unfolding f using True by (intro memfind_loop_chain [OF assms _ _ n]) auto
    qed
  qed
qed

subsection \<open>Joining\<close>

lemma cat_loop_chain:
  assumes "chain (pbufs s) p (as @ [q])" "t \<notin> set (as @ [q])"
  shows "\<exists>s'. pbuf_cat_loop p t s = Some (q, s') \<and> lmem s' = lmem s \<and> memp_tab s' = memp_tab s \<and> ltr s' = ltr s
    \<and> pbufs s' = (\<lambda>x. if x \<in> set as then (pbufs s x)\<lparr>pb_tot_len := pb_tot_len (pbufs s x) + pb_tot_len (pbufs s t)\<rparr> else pbufs s x)"
  using assms
proof (induction as arbitrary: p s)
  case Nil
  then show ?case by (subst pbuf_cat_loop.simps) auto
next
  case (Cons x as)
  let ?f = "\<lambda>b. b\<lparr>pb_tot_len := pb_tot_len b + pb_tot_len (pbufs s t)\<rparr>"
  let ?s = "upd_pbuf x ?f s"
  have c: "p = x" "chain (pbufs s) (pb_next (pbufs s x)) (as @ [q])" "x \<notin> set (as @ [q])"
    using Cons.prems chain_distinct [OF Cons.prems(1)] by auto
  then have nz: "pb_next (pbufs s x) \<noteq> 0" by (cases as) auto
  have "pbuf_cat_loop p t s = pbuf_cat_loop (pb_next (pbufs s x)) t ?s"
    using c(1) nz by (subst pbuf_cat_loop.simps) (simp add: Let_def)
  moreover have "chain (pbufs ?s) (pb_next (pbufs s x)) (as @ [q])"
    using c(2) by (rule chain_cong [THEN iffD2, rotated]) simp
  from Cons.IH [OF this] Cons.prems(2) obtain s' where "pbuf_cat_loop (pb_next (pbufs s x)) t ?s = Some (q, s')"
    "lmem s' = lmem ?s" "memp_tab s' = memp_tab ?s" "ltr s' = ltr ?s"
    "pbufs s' = (\<lambda>y. if y \<in> set as then (pbufs ?s y)\<lparr>pb_tot_len := pb_tot_len (pbufs ?s y) + pb_tot_len (pbufs ?s t)\<rparr> else pbufs ?s y)"
    by auto
  ultimately show ?case using c(3) Cons.prems(2) by (auto simp: upd_pbuf_def fun_eq_iff)
qed

lemma tot_ok_add:
  assumes "tot_ok h as" "size_of h as + n < 2 ^ 16" "n = size_of h bs" "tot_ok h bs" "set as \<inter> set bs = {}"
    and "\<And>x. g x = (if x \<in> set as then (h x)\<lparr>pb_tot_len := pb_tot_len (h x) + of_nat n, pb_next := f x\<rparr> else h x)"
  shows "tot_ok g (as @ bs)"
proof -
  have b: "tot_ok g bs" "size_of g bs = size_of h bs"
  proof -
    have "g x = h x" if "x \<in> set bs" for x using that assms(5) assms(6) [of x] by auto
    then show "tot_ok g bs" "size_of g bs = size_of h bs"
      using assms(4) by (simp_all add: tot_ok_cong [of bs g h] size_of_cong [of bs g h])
  qed
  have s: "size_of g xs = size_of h xs" for xs using assms(6) by (intro size_of_cong) simp
  have "tot_ok g (xs @ bs)" if "set xs \<subseteq> set as" "tot_ok h xs" "size_of h xs + n < 2 ^ 16" for xs
    using that
  proof (induction xs)
    case (Cons x xs)
    have "unat (pb_tot_len (h x) + of_nat n) = unat (pb_tot_len (h x)) + n"
      using Cons.prems by (simp add: unat_word_ariths unat_of_nat)
    then show ?case using Cons assms(3) assms(6) [of x] by (simp add: s)
  qed (simp add: b)
  then show ?thesis using assms(1,2) by simp
qed

lemma tot_ok_append: "tot_ok h (as @ bs) \<Longrightarrow> tot_ok h bs"
  by (induction as) auto

lemma chain_link:
  assumes "chain h p (as @ [q])" "chain g t ts" "pb_next (g q) = t" "\<And>x. x \<in> set as \<Longrightarrow> pb_next (g x) = pb_next (h x)"
  shows "chain g p (as @ q # ts)"
  using assms by (induction as arbitrary: p) auto

lemma packet_tot: "packet h p qs \<Longrightarrow> unat (pb_tot_len (h p)) = size_of h qs"
  by (cases qs) (auto simp: packet_def)

lemma packet_size: "packet h p qs \<Longrightarrow> size_of h qs < 2 ^ 16"
  using unat_lt2p_aux [of "pb_tot_len (h p)"] by (simp add: packet_tot)

lemma packet_chain: "packet h p qs \<Longrightarrow> chain h p qs"
  by (simp add: packet_def)

lemma packet_nonnull: "packet h p qs \<Longrightarrow> p \<noteq> 0"
  by (cases qs) (auto simp: packet_def)

text \<open>
  Joining two packets gives a packet with the data of both, no assertion of the code fails, and no other buffer changes.
\<close>

lemma cat_packet:
  assumes "packet (pbufs s) p qs" "packet (pbufs s) t ts" "set qs \<inter> set ts = {}"
    and "size_of (pbufs s) qs + size_of (pbufs s) ts < 2 ^ 16"
  shows "\<exists>s'. pbuf_cat p t s = Some s' \<and> packet (pbufs s') p (qs @ ts)
    \<and> content (lmem s') (pbufs s') (qs @ ts) = content (lmem s) (pbufs s) qs @ content (lmem s) (pbufs s) ts
    \<and> (\<forall>x. x \<notin> set qs \<longrightarrow> pbufs s' x = pbufs s x) \<and> lmem s' = lmem s \<and> memp_tab s' = memp_tab s \<and> ltr s' = ltr s"
proof -
  let ?h = "pbufs s"
  let ?n = "pb_tot_len (?h t)"
  obtain as q where qs: "qs = as @ [q]" using assms(1) by (cases qs rule: rev_cases) (auto simp: packet_def)
  have c: "chain ?h p (as @ [q])" "tot_ok ?h (as @ [q])" "q \<notin> set as"
    using assms(1) chain_distinct [OF packet_chain [OF assms(1)]] by (auto simp: packet_def qs)
  have t: "t \<notin> set (as @ [q])" using assms(2,3) by (cases ts) (auto simp: packet_def qs)
  have q: "pb_tot_len (?h q) = pb_len (?h q)" "pb_next (?h q) = 0"
    using tot_ok_append [OF c(2)] chain_drop [of ?h p as q "[]"] c(1) by (simp_all add: word_unat_eq_iff)
  from cat_loop_chain [OF c(1) t] obtain s1 where s1: "pbuf_cat_loop p t s = Some (q, s1)" "lmem s1 = lmem s"
    "memp_tab s1 = memp_tab s" "ltr s1 = ltr s"
    "pbufs s1 = (\<lambda>x. if x \<in> set as then (?h x)\<lparr>pb_tot_len := pb_tot_len (?h x) + ?n\<rparr> else ?h x)" by blast
  let ?f = "\<lambda>x. if x = q then t else pb_next (?h x)"
  define s' where "s' = upd_pbuf q (\<lambda>b. b\<lparr>pb_next := t\<rparr>) (upd_pbuf q (\<lambda>b. b\<lparr>pb_tot_len := pb_tot_len b + ?n\<rparr>) s1)"
  have r: "pbuf_cat p t s = Some s'"
    using packet_nonnull [OF assms(1)] packet_nonnull [OF assms(2)] q c(3) t
    by (simp add: pbuf_cat_def s1 s'_def LWIP_ASSERT_def Let_def)
  have h': "pbufs s' x = (if x \<in> set qs then (?h x)\<lparr>pb_tot_len := pb_tot_len (?h x) + of_nat (size_of ?h ts), pb_next := ?f x\<rparr> else ?h x)" for x
    using c(3) by (auto simp: s'_def s1 qs packet_tot [OF assms(2), symmetric])
  have "chain (pbufs s') t ts"
    using packet_chain [OF assms(2)] assms(3) by (rule_tac chain_cong [THEN iffD2]) (auto simp: h')
  then have "chain (pbufs s') p (qs @ ts)"
    unfolding qs append_assoc append_Cons append_Nil using c(3) by (intro chain_link [OF c(1)]) (auto simp: h' qs)
  moreover have "tot_ok (pbufs s') (qs @ ts)"
    using assms h' by (intro tot_ok_add [where h = ?h and n = "size_of ?h ts" and f = ?f]) (auto simp: packet_def)
  moreover have "content m (pbufs s') (qs @ ts) = content m ?h qs @ content m ?h ts" for m
    by (subst content_cong [of _ _ ?h]) (simp_all add: h')
  moreover have "lmem s' = lmem s" "memp_tab s' = memp_tab s" "ltr s' = ltr s" by (simp_all add: s'_def s1 upd_pbuf_def)
  ultimately show ?thesis using r assms(1) by (intro exI [of _ s']) (auto simp: packet_def h')
qed

subsection \<open>Releasing\<close>

lemma align_aligned:
  assumes "x mod 4 = (0 :: u32)"
  shows "LWIP_MEM_ALIGN x = x"
proof -
  have t: "take_bit 2 x = 0" using assms by (simp add: take_bit_eq_mod)
  have b: "\<not> bit x n" if "n < 2" for n using t that by (metis bit_0_eq bit_take_bit_iff bot_apply bot_bool_def)
  have 3: "(3 :: u32) = mask 2" by (simp add: mask_eq_exp_minus_1)
  have "x AND 3 = 0" unfolding 3 using t by (simp add: take_bit_eq_mask and.commute)
  then have "x + 3 = x OR 3" by (rule plus_eq_or)
  moreover have "(x OR mask 2) AND NOT (mask 2) = x"
    by (rule bit_word_eqI) (use b in \<open>auto simp: bit_simps\<close>)
  ultimately show ?thesis by (simp add: LWIP_MEM_ALIGN_def 3 add.commute)
qed

definition pool_of :: "pbuf \<Rightarrow> memp_t option" where
  "pool_of b = (if pbuf_get_allocsrc b = 2 then Some MEMP_PBUF_POOL else if pbuf_get_allocsrc b = 1 then Some MEMP_PBUF else None)"

definition releasable :: "pbuf \<Rightarrow> u32 \<Rightarrow> bool" where
  "releasable b p \<longleftrightarrow> p \<noteq> 0 \<and> p mod 4 = 0 \<and> pbuf_get_allocsrc b \<le> 2"

lemma release_cases:
  assumes "releasable (pbufs s p) p"
  shows "pbuf_release p s = (case pool_of (pbufs s p) of Some t \<Rightarrow> s\<lparr>memp_tab := (memp_tab s)(t := p # memp_tab s t)\<rparr>
    | None \<Rightarrow> s\<lparr>ltr := LFree p # ltr s\<rparr>)"
proof -
  have "pbuf_get_allocsrc (pbufs s p) \<in> {0, 1, 2}"
  proof -
    have "unat (pbuf_get_allocsrc (pbufs s p)) \<le> 2" using assms by (simp add: releasable_def word_le_nat_alt)
    then have "unat (pbuf_get_allocsrc (pbufs s p)) \<in> {0, 1, 2}" by auto
    then show ?thesis by (auto simp: word_unat_eq_iff)
  qed
  then show ?thesis
    using assms by (auto simp: pbuf_release_def pool_of_def releasable_def memp_free_def do_memp_free_pool_def mem_free_def
        LWIP_ASSERT_def Let_def align_aligned)
qed

text \<open>
  Freeing a chain gives back the buffers of its head whose only reference this was and takes one reference from the first
  other one; each buffer returns to where it came from, and no assertion fails.
\<close>

lemma free_loop_chain:
  assumes "chain (pbufs s) p (as @ bs)" "\<And>x. x \<in> set as \<Longrightarrow> pb_ref (pbufs s x) = 1 \<and> releasable (pbufs s x) x"
    and "bs \<noteq> [] \<Longrightarrow> 1 < pb_ref (pbufs s (hd bs))"
  shows "\<exists>s'. pbuf_free_loop p n s = (n + of_nat (length as), s') \<and> lmem s' = lmem s
    \<and> memp_tab s' = (\<lambda>t. rev [x\<leftarrow>as. pool_of (pbufs s x) = Some t] @ memp_tab s t)
    \<and> ltr s' = rev (map LFree [x\<leftarrow>as. pool_of (pbufs s x) = None]) @ ltr s
    \<and> pbufs s' = (\<lambda>x. if x \<in> set as then (pbufs s x)\<lparr>pb_ref := 0\<rparr>
         else if bs \<noteq> [] \<and> x = hd bs then (pbufs s x)\<lparr>pb_ref := pb_ref (pbufs s x) - 1\<rparr> else pbufs s x)"
  using assms
proof (induction as arbitrary: p n s)
  case Nil
  show ?case
  proof (cases bs)
    case Nil2: Nil
    then show ?thesis using Nil.prems by (subst pbuf_free_loop.simps) auto
  next
    case (Cons b cs)
    then have p: "p = b" "p \<noteq> 0" "1 < pb_ref (pbufs s b)" using Nil.prems by auto
    then have "pb_ref (pbufs s b) - 1 \<noteq> 0" "0 < pb_ref (pbufs s b)" by (auto simp: word_gt_0)
    then show ?thesis using p Cons
      by (subst pbuf_free_loop.simps) (auto simp: LWIP_ASSERT_def Let_def upd_pbuf_def fun_eq_iff)
  qed
next
  case (Cons a as)
  have p: "p = a" "p \<noteq> 0" "pb_ref (pbufs s a) = 1" "releasable (pbufs s a) a" "chain (pbufs s) (pb_next (pbufs s a)) (as @ bs)"
    using Cons.prems by auto
  have d: "a \<notin> set (as @ bs)" using chain_distinct [OF Cons.prems(1)] by auto
  let ?s0 = "upd_pbuf a (\<lambda>b. b\<lparr>pb_ref := 0\<rparr>) s"
  let ?s1 = "pbuf_release a ?s0"
  have h1: "pbufs ?s1 = (pbufs s)(a := (pbufs s a)\<lparr>pb_ref := 0\<rparr>)" by simp
  have po: "pool_of (b\<lparr>pb_ref := r\<rparr>) = pool_of b" "releasable (b\<lparr>pb_ref := r\<rparr>) x = releasable b x" for b r x
    by (simp_all add: pool_of_def releasable_def pbuf_get_allocsrc_def)
  have s1: "lmem ?s1 = lmem s" "memp_tab ?s1 = (\<lambda>t. (if pool_of (pbufs s a) = Some t then [a] else []) @ memp_tab s t)"
    "ltr ?s1 = (if pool_of (pbufs s a) = None then [LFree a] else []) @ ltr s"
    using p(4) by (auto simp: release_cases po upd_pbuf_def fun_eq_iff split: option.splits)
  have e: "pbuf_free_loop p n s = pbuf_free_loop (pb_next (pbufs s a)) (n + 1) ?s1"
    using p(1-3) by (subst pbuf_free_loop.simps) (simp add: LWIP_ASSERT_def Let_def word_gt_0)
  have c1: "chain (pbufs ?s1) (pb_next (pbufs s a)) (as @ bs)"
    using p(5) d by (rule_tac chain_cong [THEN iffD2]) auto
  have c2: "pb_ref (pbufs ?s1 x) = 1 \<and> releasable (pbufs ?s1 x) x" if "x \<in> set as" for x
    using Cons.prems(2) [of x] that d unfolding h1 by auto
  have c3: "1 < pb_ref (pbufs ?s1 (hd bs))" if "bs \<noteq> []"
    using Cons.prems(3) that d unfolding h1 by (cases bs) auto
  obtain s' where s': "pbuf_free_loop p n s = (n + 1 + of_nat (length as), s')" "lmem s' = lmem ?s1"
    "memp_tab s' = (\<lambda>t. rev [x\<leftarrow>as. pool_of (pbufs ?s1 x) = Some t] @ memp_tab ?s1 t)"
    "ltr s' = rev (map LFree [x\<leftarrow>as. pool_of (pbufs ?s1 x) = None]) @ ltr ?s1"
    "pbufs s' = (\<lambda>x. if x \<in> set as then (pbufs ?s1 x)\<lparr>pb_ref := 0\<rparr>
         else if bs \<noteq> [] \<and> x = hd bs then (pbufs ?s1 x)\<lparr>pb_ref := pb_ref (pbufs ?s1 x) - 1\<rparr> else pbufs ?s1 x)"
    by (rule exE [OF Cons.IH [of ?s1 "pb_next (pbufs s a)" "n + 1", folded e]], rule c1, erule c2, erule c3, elim conjE, rule that)
  have f: "[x\<leftarrow>as. pool_of (pbufs ?s1 x) = y] = [x\<leftarrow>as. pool_of (pbufs s x) = y]" for y
    using d unfolding h1 by (intro filter_cong) auto
  have hb: "bs \<noteq> [] \<Longrightarrow> hd bs \<noteq> a" using d by (cases bs) auto
  show ?case
    using s'(1-2) s'(3,4) [unfolded f] s'(5) [unfolded h1] s1 d hb
    by (intro exI [of _ s']) (auto simp: fun_eq_iff)
qed

subsection \<open>Allocating\<close>

lemma pool_values [simp]:
  "LWIP_MEM_ALIGN_SIZE PBUF_POOL_BUFSIZE = 1516" "SIZEOF_STRUCT_PBUF = 16"
  by (simp_all add: PBUF_POOL_BUFSIZE_def SIZEOF_STRUCT_PBUF_def LWIP_MEM_ALIGN_SIZE_def)

lemma mod4_add: "a mod 4 = 0 \<Longrightarrow> b mod 4 = 0 \<Longrightarrow> (a + b) mod 4 = (0 :: u32)"
  by (simp add: word_unat_eq_iff unat_mod_distrib unat_word_ariths mod_eq_0_iff_dvd dvd_mod_iff)

lemma align_size_aligned: "x mod 4 = 0 \<Longrightarrow> LWIP_MEM_ALIGN_SIZE x = x"
  using align_aligned [of x] by (simp add: LWIP_MEM_ALIGN_def LWIP_MEM_ALIGN_SIZE_def)

text \<open>The lengths of the buffers of a packet of \<open>n\<close> bytes, the first one holding \<open>cap\<close> bytes.\<close>

fun pieces :: "nat \<Rightarrow> nat \<Rightarrow> nat list" where
  "pieces cap n = (if n \<le> cap \<or> cap = 0 then [n] else cap # pieces 1516 (n - cap))"

declare pieces.simps [simp del]

lemma sum_pieces: "sum_list (pieces cap n) = n"
  by (induction cap n rule: pieces.induct) (subst pieces.simps, simp)

lemma pieces_nonempty [simp]: "pieces cap n \<noteq> []"
  by (subst pieces.simps) simp

primrec built :: "(u32 \<Rightarrow> pbuf) \<Rightarrow> u32 \<Rightarrow> u32 list \<Rightarrow> nat list \<Rightarrow> bool" where
  "built h off [] ls \<longleftrightarrow> ls = []"
| "built h off (q # qs) ls \<longleftrightarrow> ls \<noteq> []
     \<and> h q = \<lparr>pb_next = (case qs of [] \<Rightarrow> 0 | r # _ \<Rightarrow> r), pb_payload = q + 16 + off, pb_tot_len = of_nat (sum_list ls),
          pb_len = of_nat (hd ls), pb_type_internal = 0x82, pb_flags = 0, pb_ref = 1, pb_if_idx = 0\<rparr>
     \<and> built h 0 qs (tl ls)"

lemma built_cong: "(\<And>x. x \<in> set qs \<Longrightarrow> g x = h x) \<Longrightarrow> built g off qs ls = built h off qs ls"
  by (induction qs arbitrary: off ls) auto

definition pool_ok :: "u32 list \<Rightarrow> bool" where
  "pool_ok fl \<longleftrightarrow> distinct fl \<and> (\<forall>x\<in>set fl. x \<noteq> 0 \<and> x mod 4 = 0)"

definition pool_buf :: "u32 \<Rightarrow> u16 \<Rightarrow> u16 \<Rightarrow> pbuf" where
  "pool_buf q rem_len off = \<lparr>pb_next = 0, pb_payload = q + 16 + ucast off, pb_tot_len = rem_len, pb_len = pool_piece rem_len off,
     pb_type_internal = 0x82, pb_flags = 0, pb_ref = 1, pb_if_idx = 0\<rparr>"

lemma malloc_pool:
  assumes "memp_tab s t = q # fl" "q mod 4 = 0"
  shows "memp_malloc t s = (q, s\<lparr>memp_tab := (memp_tab s)(t := fl)\<rparr>)"
  using assms by (simp add: memp_malloc_def do_memp_malloc_pool_def LWIP_ASSERT_def)

lemma pool_type: "(386 :: u8) = 0x82"
  by simp

lemma pool_link_eq:
  assumes "q mod 4 = 0" "ucast off mod 4 = (0 :: u32)" "off < 1516"
  shows "pool_link p prev q r off s =
    s\<lparr>pbufs := (if p = 0 then (pbufs s)(q := pool_buf q r off)
       else ((pbufs s)(q := pool_buf q r off))(prev := (((pbufs s)(q := pool_buf q r off)) prev)\<lparr>pb_next := q\<rparr>))\<rparr>"
proof -
  have m: "(q + 16 + ucast off) mod 4 = (0 :: u32)" using assms by (intro mod4_add) simp_all
  have "unat (ucast off :: u32) < 1516" using assms(3) by (simp add: word_less_nat_alt)
  then have "unat (1516 - (ucast off :: u32)) = 1516 - unat off" by (simp add: unat_sub word_le_nat_alt)
  then have g: "0 < 1516 - (ucast off :: u32)" using assms(3) by (simp add: word_less_nat_alt)
  show ?thesis
    using m g by (simp add: pool_link_def pbuf_init_alloced_pbuf_def LWIP_ASSERT_def Let_def align_aligned upd_pbuf_def pool_buf_def pool_type
        align_size_aligned [OF assms(2)])
qed

lemma piece_nat:
  assumes "ucast off mod 4 = (0 :: u32)" "off < 1516"
  shows "unat (pool_piece r off) = min (unat r) (1516 - unat off)"
proof -
  have u: "unat (ucast off :: u32) < 1516" using assms(2) by (simp add: word_less_nat_alt)
  then have "unat (1516 - ucast off :: u32) = 1516 - unat off" by (simp add: unat_sub word_le_nat_alt)
  then have "unat (ucast (1516 - ucast off :: u32) :: u16) = 1516 - unat off" by (simp add: unat_u32_u16)
  then show ?thesis
    by (simp add: pool_piece_def align_size_aligned [OF assms(1)] min_def word_le_nat_alt)
qed

lemma alloc_pool_step:
  assumes "memp_tab s MEMP_PBUF_POOL = q # fl" "q \<noteq> 0" "q mod 4 = 0" "ucast off mod 4 = (0 :: u32)" "off < 1516"
    and "t = (s\<lparr>memp_tab := (memp_tab s)(MEMP_PBUF_POOL := fl)\<rparr>)
       \<lparr>pbufs := (if p = 0 then (pbufs s)(q := pool_buf q r off)
         else ((pbufs s)(q := pool_buf q r off))(prev := (((pbufs s)(q := pool_buf q r off)) prev)\<lparr>pb_next := q\<rparr>))\<rparr>"
  shows "pbuf_alloc_pool L p prev r off s =
    (if 1516 - unat off < unat r
     then pbuf_alloc_pool L (if p = 0 then q else p) q (r - pool_piece r off) 0 t
     else (if p = 0 then q else p, t))"
proof -
  have "pool_piece r off \<le> r" using piece_nat [OF assms(4,5), of r] by (simp add: word_le_nat_alt)
  then have "unat (r - pool_piece r off) = unat r - min (unat r) (1516 - unat off)" by (simp add: unat_sub piece_nat [OF assms(4,5)])
  then have g: "r - pool_piece r off > 0 \<longleftrightarrow> 1516 - unat off < unat r" by (auto simp: word_less_nat_alt)
  show ?thesis
    unfolding pbuf_alloc_pool.simps [of L p] malloc_pool [OF assms(1,3)] using assms(2) g
    by (simp add: pool_link_eq [OF assms(3-5)] assms(6) Let_def)
qed

text \<open>With enough free buffers the packet is built from the front of the free list.\<close>

lemma alloc_pool_built:
  assumes "memp_tab s MEMP_PBUF_POOL = fl" "pool_ok fl" "ucast off mod 4 = (0 :: u32)" "off < 1516"
    and "length (pieces (1516 - unat off) (unat r)) \<le> length fl" "p \<noteq> 0 \<Longrightarrow> prev \<notin> set fl"
  shows "\<exists>s'. pbuf_alloc_pool L p prev r off s = (if p = 0 then hd fl else p, s')
    \<and> (let n = length (pieces (1516 - unat off) (unat r)) in
       built (pbufs s') (ucast off) (take n fl) (pieces (1516 - unat off) (unat r))
       \<and> memp_tab s' = (memp_tab s)(MEMP_PBUF_POOL := drop n fl) \<and> lmem s' = lmem s \<and> ltr s' = ltr s
       \<and> (\<forall>x. x \<notin> set (take n fl) \<longrightarrow>
            pbufs s' x = (if p \<noteq> 0 \<and> x = prev then (pbufs s x)\<lparr>pb_next := hd fl\<rparr> else pbufs s x)))"
  using assms
proof (induction fl arbitrary: s off r p prev)
  case Nil
  then show ?case by simp
next
  case (Cons q fl)
  let ?cap = "1516 - unat off"
  have q: "q \<noteq> 0" "q mod 4 = 0" "q \<notin> set fl" "pool_ok fl" using Cons.prems(2) by (auto simp: pool_ok_def)
  define t where "t = (s\<lparr>memp_tab := (memp_tab s)(MEMP_PBUF_POOL := fl)\<rparr>)
       \<lparr>pbufs := (if p = 0 then (pbufs s)(q := pool_buf q r off)
         else ((pbufs s)(q := pool_buf q r off))(prev := (((pbufs s)(q := pool_buf q r off)) prev)\<lparr>pb_next := q\<rparr>))\<rparr>"
  note step = alloc_pool_step [OF Cons.prems(1) q(1,2) Cons.prems(3,4) t_def, of L]
  have pq: "p \<noteq> 0 \<Longrightarrow> prev \<noteq> q \<and> prev \<notin> set fl" using Cons.prems(6) by auto
  have ht: "pbufs t q = pool_buf q r off" "x \<noteq> q \<Longrightarrow> pbufs t x = (if p \<noteq> 0 \<and> x = prev then (pbufs s x)\<lparr>pb_next := q\<rparr> else pbufs s x)" for x
    using pq by (auto simp: t_def)
  have ts: "memp_tab t MEMP_PBUF_POOL = fl" "lmem t = lmem s" "ltr t = ltr s" "memp_tab t = (memp_tab s)(MEMP_PBUF_POOL := fl)"
    by (simp_all add: t_def)
  have cap: "?cap \<noteq> 0" using Cons.prems(4) by (simp add: word_less_nat_alt)
  note len = piece_nat [OF Cons.prems(3,4), of r]
  show ?case
  proof (cases "?cap < unat r")
    case False
    then have p1: "pieces ?cap (unat r) = [unat r]" by (subst pieces.simps) simp
    have "pool_piece r off = r" using len False by (simp add: word_unat_eq_iff)
    then show ?thesis
      using False ht ts q(3) unfolding step p1 by (intro exI [of _ t]) (auto simp: pool_buf_def)
  next
    case True
    let ?r = "r - pool_piece r off"
    have l: "unat (pool_piece r off) = ?cap" using len True by simp
    have r: "unat ?r = unat r - ?cap" using l True by (simp add: unat_sub word_le_nat_alt)
    have ps: "pieces ?cap (unat r) = ?cap # pieces 1516 (unat r - ?cap)" using True cap by (subst pieces.simps) simp
    let ?ls = "pieces 1516 (unat r - ?cap)"
    let ?n = "length ?ls"
    let ?p = "if p = 0 then q else p"
    have pn: "?p \<noteq> 0" using q(1) by simp
    have z: "ucast (0 :: u16) mod 4 = (0 :: u32)" "(0 :: u16) < 1516"
      "length (pieces (1516 - unat (0 :: u16)) (unat ?r)) \<le> length fl" using Cons.prems(5) ps by (simp_all add: r)
    obtain s' where s': "pbuf_alloc_pool L ?p q ?r 0 t = (?p, s')" "built (pbufs s') 0 (take ?n fl) ?ls"
      "memp_tab s' = (memp_tab t)(MEMP_PBUF_POOL := drop ?n fl)" "lmem s' = lmem t" "ltr s' = ltr t"
      "\<forall>x. x \<notin> set (take ?n fl) \<longrightarrow> pbufs s' x = (if ?p \<noteq> 0 \<and> x = q then (pbufs t x)\<lparr>pb_next := hd fl\<rparr> else pbufs t x)"
      using Cons.IH [OF ts(1) q(4) z q(3), of ?p]
      unfolding Let_def r unsigned_0 diff_zero if_not_P [OF pn] by (elim exE conjE) (rule that)
    obtain x fl' where fl: "fl = x # fl'" using Cons.prems(5) ps by (cases fl) auto
    have nx: "(case take ?n fl of [] \<Rightarrow> 0 | y # _ \<Rightarrow> y) = x" using pieces_nonempty [of 1516 "unat r - ?cap"] by (cases ?ls) (simp_all add: fl)
    have qt: "q \<notin> set (take ?n fl)" using q(3) by (meson in_set_takeD)
    have hq: "pbufs s' q = (pool_buf q r off)\<lparr>pb_next := x\<rparr>" using s'(6) qt ht(1) fl pn by simp
    have sum: "of_nat (sum_list (?cap # ?ls)) = r" using True by (simp add: sum_pieces)
    have b: "built (pbufs s') (ucast off) (take (Suc ?n) (q # fl)) (?cap # ?ls)"
      using s'(2) hq nx l sum by (simp add: pool_buf_def word_unat_eq_iff unat_of_nat)
    have o: "pbufs s' y = (if p \<noteq> 0 \<and> y = prev then (pbufs s y)\<lparr>pb_next := q\<rparr> else pbufs s y)" if "y \<notin> set (take (Suc ?n) (q # fl))" for y
      using that s'(6) ht(2) [of y] by auto
    show ?thesis
      unfolding step ps using True s'(1,3-5) ts b o by (intro exI [of _ s']) (auto simp: Let_def)
  qed
qed

lemma built_chain: "built h off qs ls \<Longrightarrow> 0 \<notin> set qs \<Longrightarrow> chain h (case qs of [] \<Rightarrow> 0 | q # _ \<Rightarrow> q) qs"
proof (induction qs arbitrary: off ls)
  case (Cons q qs)
  have "built h 0 qs (tl ls)" "pb_next (h q) = (case qs of [] \<Rightarrow> 0 | r # _ \<Rightarrow> r)" using Cons.prems(1) by simp_all
  with Cons.IH [of 0 "tl ls"] Cons.prems(2) show ?case by simp
qed simp

lemma built_size: "built h off qs ls \<Longrightarrow> sum_list ls < 2 ^ 16 \<Longrightarrow> size_of h qs = sum_list ls"
proof (induction qs arbitrary: off ls)
  case (Cons q qs)
  then obtain l ls' where ls: "ls = l # ls'" by (cases ls) auto
  then have "size_of h qs = sum_list ls'" using Cons.IH [of 0 ls'] Cons.prems by auto
  moreover have "unat (pb_len (h q)) = l" using Cons.prems ls by (auto simp: unat_of_nat)
  ultimately show ?case using ls by simp
qed simp

lemma built_tot: "built h off qs ls \<Longrightarrow> sum_list ls < 2 ^ 16 \<Longrightarrow> tot_ok h qs"
proof (induction qs arbitrary: off ls)
  case (Cons q qs)
  then obtain l ls' where ls: "ls = l # ls'" by (cases ls) auto
  then have b: "built h 0 qs ls'" "sum_list ls' < 2 ^ 16" using Cons.prems by auto
  have "unat (pb_len (h q)) = l" "unat (pb_tot_len (h q)) = l + sum_list ls'" using Cons.prems ls by (auto simp: unat_of_nat simp del: of_nat_add)
  then show ?case using built_size [OF b] Cons.IH [OF b] by simp
qed simp

lemma built_packet:
  assumes "built h off (q # qs) ls" "0 \<notin> set (q # qs)" "sum_list ls < 2 ^ 16"
  shows "packet h q (q # qs)"
  using built_chain [OF assms(1,2)] built_tot [OF assms(1,3)] by (simp add: packet_def)

lemma built_refs: "built h off qs ls \<Longrightarrow> x \<in> set qs \<Longrightarrow> pb_ref (h x) = 1 \<and> pb_type_internal (h x) = 0x82"
  by (induction qs arbitrary: off ls) auto

lemma pool_of_pool: "pb_type_internal b = 0x82 \<Longrightarrow> pool_of b = Some MEMP_PBUF_POOL \<and> pbuf_get_allocsrc b = 2"
  by (simp add: pool_of_def pbuf_get_allocsrc_def)

lemma layer_offset_ok: "ucast (layer_offset l) mod 4 = (0 :: u32)" "layer_offset l < 1516" "layer_offset l \<le> 104"
  by (cases l; simp)+

lemma alloc_pool_packet:
  fixes s :: "'a stack_scheme"
  assumes "pool_ok (memp_tab s MEMP_PBUF_POOL)" "ls = pieces (1516 - unat (layer_offset l)) (unat n)"
    and "length ls \<le> length (memp_tab s MEMP_PBUF_POOL)" "qs = take (length ls) (memp_tab s MEMP_PBUF_POOL)"
  shows "\<exists>s'. pbuf_alloc L l n PBUF_POOL s = (hd qs, s') \<and> packet (pbufs s') (hd qs) qs \<and> size_of (pbufs s') qs = unat n
    \<and> built (pbufs s') (ucast (layer_offset l)) qs ls \<and> lmem s' = lmem s \<and> ltr s' = ltr s
    \<and> memp_tab s' = (memp_tab s)(MEMP_PBUF_POOL := drop (length ls) (memp_tab s MEMP_PBUF_POOL))
    \<and> (\<forall>x. x \<notin> set qs \<longrightarrow> pbufs s' x = pbufs s x)"
proof -
  let ?fl = "memp_tab s MEMP_PBUF_POOL"
  have ne: "length ls \<noteq> 0" "?fl \<noteq> []" using assms(2,3) by auto
  then obtain q rs where qs: "qs = q # rs" using assms(4) by (cases ?fl; cases ls) auto
  have hd: "hd qs = hd ?fl" using assms(4) ne by (cases ?fl; cases ls) auto
  have sum: "sum_list ls = unat n" by (simp add: assms(2) sum_pieces)
  then have lt: "sum_list ls < 2 ^ 16" using unat_lt2p_aux [of n] by simp
  have nz: "0 \<notin> set qs" using assms(1,4) by (auto simp: pool_ok_def dest: in_set_takeD)
  from alloc_pool_built [OF refl assms(1) layer_offset_ok(1,2) [of l], of n 0 0 L, folded assms(2), OF assms(3)]
  obtain s' where "pbuf_alloc_pool L 0 0 n (layer_offset l) s = (hd ?fl, s')" "built (pbufs s') (ucast (layer_offset l)) qs ls"
    "memp_tab s' = (memp_tab s)(MEMP_PBUF_POOL := drop (length ls) ?fl)" "lmem s' = lmem s" "ltr s' = ltr s"
    "\<forall>x. x \<notin> set qs \<longrightarrow> pbufs s' x = pbufs s x"
    by (auto simp: Let_def assms(4))
  then show ?thesis
    using built_packet [of "pbufs s'" _ q rs ls] built_size [of "pbufs s'" _ qs ls] lt nz sum hd
    by (intro exI [of _ s']) (auto simp: pbuf_alloc_def qs)
qed

lemma pool_empty_frames:
  "pbufs (pbuf_pool_is_empty L s) = pbufs s" "lmem (pbuf_pool_is_empty L s) = lmem s"
  "t \<noteq> MEMP_TCPIP_MSG_API \<Longrightarrow> memp_tab (pbuf_pool_is_empty L s) t = memp_tab s t"
  by (auto simp: pbuf_pool_is_empty_def tcpip_try_callback_def memp_malloc_def do_memp_malloc_pool_def memp_free_def do_memp_free_pool_def
      sys_mbox_trypost_def put_cell_def LWIP_ASSERT_def Let_def split_beta split: list.splits prod.splits)

definition taken :: "(u32 \<Rightarrow> pbuf) \<Rightarrow> u32 \<Rightarrow> bool" where
  "taken h x \<longleftrightarrow> pb_ref (h x) = 1 \<and> pb_type_internal (h x) = 0x82 \<and> x \<noteq> 0 \<and> x mod 4 = 0"

lemma taken_releasable: "taken h x \<Longrightarrow> pb_ref (h x) = 1 \<and> releasable (h x) x \<and> pool_of (h x) = Some MEMP_PBUF_POOL"
  by (simp add: taken_def releasable_def pool_of_pool)

lemma free_whole:
  assumes "chain (pbufs s) p as" "\<And>x. x \<in> set as \<Longrightarrow> pb_ref (pbufs s x) = 1 \<and> releasable (pbufs s x) x"
  shows "\<exists>s'. pbuf_free_loop p n s = (n + of_nat (length as), s') \<and> lmem s' = lmem s
    \<and> memp_tab s' = (\<lambda>t. rev [x\<leftarrow>as. pool_of (pbufs s x) = Some t] @ memp_tab s t)
    \<and> ltr s' = rev (map LFree [x\<leftarrow>as. pool_of (pbufs s x) = None]) @ ltr s
    \<and> pbufs s' = (\<lambda>x. if x \<in> set as then (pbufs s x)\<lparr>pb_ref := 0\<rparr> else pbufs s x)"
  using free_loop_chain [of s p as "[]" n] assms by (simp cong: if_cong)

text \<open>When the free list is too short, everything that was taken goes back, in the opposite order.\<close>

lemma alloc_pool_fails:
  assumes "memp_tab s MEMP_PBUF_POOL = fl" "pool_ok fl" "ucast off mod 4 = (0 :: u32)" "off < 1516"
    and "length fl < length (pieces (1516 - unat off) (unat r))"
    and "chain (pbufs s) p ds" "\<forall>x\<in>set ds. taken (pbufs s) x" "ds \<noteq> [] \<Longrightarrow> prev = List.last ds" "set ds \<inter> set fl = {}"
  shows "\<exists>s'. pbuf_alloc_pool L p prev r off s = (0, s') \<and> memp_tab s' MEMP_PBUF_POOL = rev (ds @ fl) \<and> lmem s' = lmem s
    \<and> (\<forall>x. x \<notin> set (ds @ fl) \<longrightarrow> pbufs s' x = pbufs s x)"
  using assms
proof (induction fl arbitrary: s off r p prev ds)
  case Nil
  let ?s = "pbuf_pool_is_empty L s"
  have 0: "pbuf_alloc_pool L p prev r off s = (0, if p \<noteq> 0 then snd (pbuf_free p ?s) else ?s)"
    using Nil.prems(1) by (subst pbuf_alloc_pool.simps) (simp add: memp_malloc_def do_memp_malloc_pool_def Let_def)
  show ?case
  proof (cases "ds = []")
    case True
    then show ?thesis using 0 Nil.prems(1,6) by (auto simp: pool_empty_frames)
  next
    case False
    then have p: "p \<noteq> 0" using Nil.prems(6) by (cases ds) auto
    have t: "pb_ref (pbufs s x) = 1 \<and> releasable (pbufs s x) x \<and> pool_of (pbufs s x) = Some MEMP_PBUF_POOL" if "x \<in> set ds" for x
      using that Nil.prems(7) taken_releasable by blast
    then have f: "[x\<leftarrow>ds. pool_of (pbufs s x) = Some MEMP_PBUF_POOL] = ds" by (simp add: filter_id_conv)
    have "chain (pbufs ?s) p ds" using Nil.prems(6) by (simp add: pool_empty_frames)
    from free_whole [OF this, of 0] t obtain s' where "pbuf_free_loop p 0 ?s = (of_nat (length ds), s')" "lmem s' = lmem ?s"
      "memp_tab s' = (\<lambda>t. rev [x\<leftarrow>ds. pool_of (pbufs s x) = Some t] @ memp_tab ?s t)"
      "pbufs s' = (\<lambda>x. if x \<in> set ds then (pbufs s x)\<lparr>pb_ref := 0\<rparr> else pbufs s x)"
      unfolding pool_empty_frames(1) by auto
    then show ?thesis using 0 p f Nil.prems(1) by (auto simp: pbuf_free_def pool_empty_frames)
  qed
next
  case (Cons q fl)
  let ?cap = "1516 - unat off"
  have q: "q \<noteq> 0" "q mod 4 = 0" "q \<notin> set fl" "pool_ok fl" "q \<notin> set ds" using Cons.prems(2,9) by (auto simp: pool_ok_def)
  define t where "t = (s\<lparr>memp_tab := (memp_tab s)(MEMP_PBUF_POOL := fl)\<rparr>)
       \<lparr>pbufs := (if p = 0 then (pbufs s)(q := pool_buf q r off)
         else ((pbufs s)(q := pool_buf q r off))(prev := (((pbufs s)(q := pool_buf q r off)) prev)\<lparr>pb_next := q\<rparr>))\<rparr>"
  note step = alloc_pool_step [OF Cons.prems(1) q(1,2) Cons.prems(3,4) t_def, of L]
  have big: "?cap < unat r"
  proof (rule ccontr)
    assume "\<not> ?cap < unat r"
    then have "pieces ?cap (unat r) = [unat r]" by (subst pieces.simps) simp
    then show False using Cons.prems(5) by simp
  qed
  have cap: "?cap \<noteq> 0" using Cons.prems(4) by (simp add: word_less_nat_alt)
  have l: "unat (pool_piece r off) = ?cap" using piece_nat [OF Cons.prems(3,4), of r] big by simp
  have ur: "unat (r - pool_piece r off) = unat r - ?cap" using l big by (simp add: unat_sub word_le_nat_alt)
  have ps: "pieces ?cap (unat r) = ?cap # pieces 1516 (unat r - ?cap)" using big cap by (subst pieces.simps) simp
  have p0: "p = 0 \<longleftrightarrow> ds = []" using Cons.prems(6) by (cases ds) auto
  have ht: "pbufs t q = pool_buf q r off"
    "x \<noteq> q \<Longrightarrow> pbufs t x = (if ds \<noteq> [] \<and> x = List.last ds then (pbufs s x)\<lparr>pb_next := q\<rparr> else pbufs s x)" for x
    using q(5) Cons.prems(8) p0 by (auto simp: t_def)
  have "chain (pbufs t) (if p = 0 then q else p) (ds @ [q])"
  proof (cases "ds = []")
    case True
    then show ?thesis using p0 q(1) ht(1) by (simp add: pool_buf_def)
  next
    case False
    then obtain cs d where d: "ds = cs @ [d]" by (cases ds rule: rev_cases) auto
    then have dc: "d \<notin> set cs" "chain (pbufs s) p (cs @ [d])" using chain_distinct [OF Cons.prems(6)] Cons.prems(6) by auto
    have "pb_next (pbufs t x) = pb_next (pbufs s x)" if "x \<in> set cs" for x
      using that q(5) ht(2) [of x] dc(1) d by (cases "x = q") auto
    moreover have "pb_next (pbufs t d) = q" "pb_next (pbufs t q) = 0" using q(5) ht(1) ht(2) [of d] d by (auto simp: pool_buf_def)
    ultimately have "chain (pbufs t) p (cs @ d # [q])" using q(1) by (intro chain_link [OF dc(2)]) auto
    then show ?thesis using False p0 d by simp
  qed
  moreover have "\<forall>x\<in>set (ds @ [q]). taken (pbufs t) x"
  proof
    fix x assume "x \<in> set (ds @ [q])"
    then show "taken (pbufs t) x"
      using Cons.prems(7) ht(1) ht(2) [of x] q(1,2) by (cases "x = q") (auto simp: taken_def pool_buf_def)
  qed
  moreover have "memp_tab t MEMP_PBUF_POOL = fl" by (simp add: t_def)
  ultimately obtain s' where s': "pbuf_alloc_pool L (if p = 0 then q else p) q (r - pool_piece r off) 0 t = (0, s')"
    "memp_tab s' MEMP_PBUF_POOL = rev ((ds @ [q]) @ fl)" "lmem s' = lmem t"
    "\<forall>x. x \<notin> set ((ds @ [q]) @ fl) \<longrightarrow> pbufs s' x = pbufs t x"
    using Cons.IH [of t 0 "r - pool_piece r off" "if p = 0 then q else p" "ds @ [q]" q] q(3,4) Cons.prems(5,9) ps ur by auto
  have "pbufs t x = pbufs s x" if "x \<notin> set (ds @ q # fl)" for x using that ht(2) [of x] by auto
  then show ?case unfolding step using big s' by (intro exI [of _ s']) (auto simp: t_def)
qed

end
