(* ===== verification/Timeouts.thy ===== *)
theory Timeouts
  imports PbufChain "HOL-Library.Multiset"
begin

text \<open>
  The timers of the network stack, \<^verbatim>\<open>arm_host/source/lwip/timeouts.c\<close>: a linked list of structures taken from a pool, in the order of
  their deadlines on a clock of 32 bits that wraps around. The functions the timers call are outside this part and are the
  parameter \<open>K\<close>: \<open>cyclic_call\<close> for the timer functions of the protocols, \<open>tcp_pcbs\<close> for the test whether TCP has connections, and
  \<open>other_call\<close> for any other function that was registered.
\<close>

subsection \<open>Types\<close>

datatype cyclic_fn = tcp_tmr | ip_reass_tmr | etharp_tmr | dhcp_coarse_tmr | dhcp_fine_tmr | acd_tmr | igmp_tmr | dns_tmr

datatype sys_timeout_handler = No_handler | Lwip_cyclic_timer | Tcpip_tcp_timer | Other_handler u32

text \<open>The argument of a handler: NULL, the address of an entry of \<open>lwip_cyclic_timers\<close>, or some other address.\<close>

datatype timer_arg = Arg_null | Arg_cyclic nat | Arg_ptr u32

record sys_timeo =
  to_next :: u32
  to_time :: u32
  to_h :: sys_timeout_handler
  to_arg :: timer_arg

record timers = stack +
  next_timeout :: u32
  current_timeout_due_time :: u32
  tcpip_tcp_timer_active :: bool
  timeos :: "u32 \<Rightarrow> sys_timeo"

record 'a timer_fns =
  cyclic_call :: "cyclic_fn \<Rightarrow> 'a timers_scheme \<Rightarrow> 'a timers_scheme"
  tcp_pcbs :: "'a timers_scheme \<Rightarrow> bool"
  other_call :: "u32 \<Rightarrow> timer_arg \<Rightarrow> 'a timers_scheme \<Rightarrow> 'a timers_scheme"

definition lwip_cyclic_timers :: "(u32 \<times> cyclic_fn) list" where
  "lwip_cyclic_timers = [(250, tcp_tmr), (1000, ip_reass_tmr), (1000, etharp_tmr), (60 * 1000, dhcp_coarse_tmr), (500, dhcp_fine_tmr),
     (100, acd_tmr), (100, igmp_tmr), (1000, dns_tmr)]"

definition TIME_LESS_THAN :: "u32 \<Rightarrow> u32 \<Rightarrow> bool" where
  "TIME_LESS_THAN t compare_to \<longleftrightarrow> t - compare_to > 0x7FFFFFFF"

definition upd_timeo :: "u32 \<Rightarrow> (sys_timeo \<Rightarrow> sys_timeo) \<Rightarrow> 'a timers_scheme \<Rightarrow> 'a timers_scheme" where
  "upd_timeo p f s = s\<lparr>timeos := (timeos s)(p := f (timeos s p))\<rparr>"

subsection \<open>Starting and stopping\<close>

partial_function (option) timeout_place :: "u32 \<Rightarrow> u32 \<Rightarrow> 'a timers_scheme \<Rightarrow> 'a timers_scheme option" where
  "timeout_place timeout t s =
    (if t = 0 then Some s
     else let nx = to_next (timeos s t) in
       if nx = 0 \<or> TIME_LESS_THAN (to_time (timeos s timeout)) (to_time (timeos s nx))
       then Some (upd_timeo t (\<lambda>e. e\<lparr>to_next := timeout\<rparr>) (upd_timeo timeout (\<lambda>e. e\<lparr>to_next := nx\<rparr>) s))
       else timeout_place timeout nx s)"

definition sys_timeout_abs ::
  "u32 \<Rightarrow> sys_timeout_handler \<Rightarrow> timer_arg \<Rightarrow> 'a timers_scheme \<Rightarrow> 'a timers_scheme option" where
  "sys_timeout_abs abs_time handler arg s =
    (let (timeout, s) = memp_malloc MEMP_SYS_TIMEOUT s in
     if timeout = 0
     then Some (LWIP_ASSERT ''sys_timeout: timeout != NULL, pool MEMP_SYS_TIMEOUT is empty'' (timeout \<noteq> 0) s)
     else
       let s = s\<lparr>timeos := (timeos s)(timeout := \<lparr>to_next = 0, to_time = abs_time, to_h = handler, to_arg = arg\<rparr>)\<rparr> in
       if next_timeout s = 0 then Some (s\<lparr>next_timeout := timeout\<rparr>)
       else if TIME_LESS_THAN (to_time (timeos s timeout)) (to_time (timeos s (next_timeout s)))
       then Some ((upd_timeo timeout (\<lambda>e. e\<lparr>to_next := next_timeout s\<rparr>) s)\<lparr>next_timeout := timeout\<rparr>)
       else timeout_place timeout (next_timeout s) s)"

definition sys_timeout ::
  "u32 \<Rightarrow> sys_timeout_handler \<Rightarrow> timer_arg \<Rightarrow> 'a timers_scheme \<Rightarrow> 'a timers_scheme option" where
  "sys_timeout msecs handler arg s =
    (let s = LWIP_ASSERT ''Timeout time too long, max is LWIP_UINT32_MAX/4 msecs'' (msecs \<le> 0xFFFFFFFF div 4) s
     in sys_timeout_abs (sys_now s + msecs) handler arg s)"

partial_function (option) untimeout_loop ::
  "sys_timeout_handler \<Rightarrow> timer_arg \<Rightarrow> u32 \<Rightarrow> u32 \<Rightarrow> 'a timers_scheme \<Rightarrow> 'a timers_scheme option" where
  "untimeout_loop handler arg prev_t t s =
    (if t = 0 then Some s
     else if to_h (timeos s t) = handler \<and> to_arg (timeos s t) = arg
     then
       let s = (if prev_t = 0 then s\<lparr>next_timeout := to_next (timeos s t)\<rparr>
                else upd_timeo prev_t (\<lambda>e. e\<lparr>to_next := to_next (timeos s t)\<rparr>) s)
       in Some (memp_free MEMP_SYS_TIMEOUT t s)
     else untimeout_loop handler arg t (to_next (timeos s t)) s)"

definition sys_untimeout :: "sys_timeout_handler \<Rightarrow> timer_arg \<Rightarrow> 'a timers_scheme \<Rightarrow> 'a timers_scheme option" where
  "sys_untimeout handler arg s = (if next_timeout s = 0 then Some s else untimeout_loop handler arg 0 (next_timeout s) s)"

subsection \<open>Handlers\<close>

definition lwip_cyclic_timer :: "'a timer_fns \<Rightarrow> timer_arg \<Rightarrow> 'a timers_scheme \<Rightarrow> 'a timers_scheme option" where
  "lwip_cyclic_timer K arg s = (case arg of
     Arg_cyclic i \<Rightarrow>
       if i < length lwip_cyclic_timers then
         let (interval_ms, handler) = lwip_cyclic_timers ! i;
             s = cyclic_call K handler s;
             now = sys_now s;
             next_timeout_time = current_timeout_due_time s + interval_ms in
         if TIME_LESS_THAN next_timeout_time now
         then sys_timeout_abs (now + interval_ms) Lwip_cyclic_timer arg s
         else sys_timeout_abs next_timeout_time Lwip_cyclic_timer arg s
       else None
   | _ \<Rightarrow> None)"

definition tcpip_tcp_timer :: "'a timer_fns \<Rightarrow> timer_arg \<Rightarrow> 'a timers_scheme \<Rightarrow> 'a timers_scheme option" where
  "tcpip_tcp_timer K arg s =
    (let s = cyclic_call K tcp_tmr s in
     if tcp_pcbs K s then sys_timeout 250 Tcpip_tcp_timer Arg_null s
     else Some (s\<lparr>tcpip_tcp_timer_active := False\<rparr>))"

definition tcp_timer_needed :: "'a timer_fns \<Rightarrow> 'a timers_scheme \<Rightarrow> 'a timers_scheme option" where
  "tcp_timer_needed K s =
    (if \<not> tcpip_tcp_timer_active s \<and> tcp_pcbs K s
     then sys_timeout 250 Tcpip_tcp_timer Arg_null (s\<lparr>tcpip_tcp_timer_active := True\<rparr>)
     else Some s)"

definition sys_timeouts_init :: "'a timers_scheme \<Rightarrow> 'a timers_scheme option" where
  "sys_timeouts_init s =
     fold (\<lambda>i r. Option.bind r (sys_timeout (fst (lwip_cyclic_timers ! i)) Lwip_cyclic_timer (Arg_cyclic i)))
       [1..<length lwip_cyclic_timers] (Some s)"

definition call_handler ::
  "'a timer_fns \<Rightarrow> sys_timeout_handler \<Rightarrow> timer_arg \<Rightarrow> 'a timers_scheme \<Rightarrow> 'a timers_scheme option" where
  "call_handler K handler arg s = (case handler of
     No_handler \<Rightarrow> Some s
   | Lwip_cyclic_timer \<Rightarrow> lwip_cyclic_timer K arg s
   | Tcpip_tcp_timer \<Rightarrow> tcpip_tcp_timer K arg s
   | Other_handler h \<Rightarrow> Some (other_call K h arg s))"

subsection \<open>Running\<close>

partial_function (option) check_timeouts_loop :: "'a timer_fns \<Rightarrow> u32 \<Rightarrow> 'a timers_scheme \<Rightarrow> 'a timers_scheme option" where
  "check_timeouts_loop K now s =
    (let tmptimeout = next_timeout s; e = timeos s tmptimeout in
     if tmptimeout = 0 then Some s
     else if TIME_LESS_THAN now (to_time e) then Some s
     else do {
       let s = s\<lparr>next_timeout := to_next e, current_timeout_due_time := to_time e\<rparr>;
       let s = memp_free MEMP_SYS_TIMEOUT tmptimeout s;
       s \<leftarrow> call_handler K (to_h e) (to_arg e) s;
       check_timeouts_loop K now s })"

definition sys_check_timeouts :: "'a timer_fns \<Rightarrow> 'a timers_scheme \<Rightarrow> 'a timers_scheme option" where
  "sys_check_timeouts K s = check_timeouts_loop K (sys_now s) s"

partial_function (option) restart_loop :: "u32 \<Rightarrow> u32 \<Rightarrow> u32 \<Rightarrow> 'a timers_scheme \<Rightarrow> 'a timers_scheme option" where
  "restart_loop now base t s =
    (if t = 0 then Some s
     else let s = upd_timeo t (\<lambda>e. e\<lparr>to_time := (to_time e - base) + now\<rparr>) s
       in restart_loop now base (to_next (timeos s t)) s)"

definition sys_restart_timeouts :: "'a timers_scheme \<Rightarrow> 'a timers_scheme option" where
  "sys_restart_timeouts s =
    (if next_timeout s = 0 then Some s
     else restart_loop (sys_now s) (to_time (timeos s (next_timeout s))) (next_timeout s) s)"

definition sys_timeouts_sleeptime :: "'a timers_scheme \<Rightarrow> u32 \<times> 'a timers_scheme" where
  "sys_timeouts_sleeptime s =
    (if next_timeout s = 0 then (0xFFFFFFFF, s)
     else let now = sys_now s; t = to_time (timeos s (next_timeout s)) in
       if TIME_LESS_THAN t now then (0, s)
       else let ret = t - now in (ret, LWIP_ASSERT ''invalid sleeptime'' (ret \<le> 0x7FFFFFFF) s))"

subsection \<open>The list\<close>

type_synonym timer = "u32 \<times> sys_timeout_handler \<times> timer_arg"

definition entry :: "sys_timeo \<Rightarrow> timer" where
  "entry e = (to_time e, to_h e, to_arg e)"

primrec tlist :: "(u32 \<Rightarrow> sys_timeo) \<Rightarrow> u32 \<Rightarrow> u32 list \<Rightarrow> bool" where
  "tlist h p [] \<longleftrightarrow> p = 0"
| "tlist h p (q # qs) \<longleftrightarrow> p = q \<and> q \<noteq> 0 \<and> tlist h (to_next (h q)) qs"

text \<open>The timers \<open>es\<close> are armed in this order, in structures that are not in the pool.\<close>

definition armed :: "'a timers_scheme \<Rightarrow> timer list \<Rightarrow> bool" where
  "armed s es \<longleftrightarrow> (\<exists>qs. tlist (timeos s) (next_timeout s) qs \<and> es = map (\<lambda>q. entry (timeos s q)) qs
     \<and> pool_ok (qs @ memp_tab s MEMP_SYS_TIMEOUT))"

definition ins_by :: "('b \<Rightarrow> bool) \<Rightarrow> 'b \<Rightarrow> 'b list \<Rightarrow> 'b list" where
  "ins_by P x xs = takeWhile P xs @ x # dropWhile P xs"

text \<open>A new timer goes behind those with the same deadline.\<close>

definition ins_timer :: "timer \<Rightarrow> timer list \<Rightarrow> timer list" where
  "ins_timer e = ins_by (\<lambda>x. \<not> TIME_LESS_THAN (fst e) (fst x)) e"

lemma tlist_cong: "(\<And>q. q \<in> set qs \<Longrightarrow> to_next (h q) = to_next (h' q)) \<Longrightarrow> tlist h p qs \<longleftrightarrow> tlist h' p qs"
  by (induction qs arbitrary: p) auto

lemma ins_by_map: "map f (ins_by (P \<circ> f) x xs) = ins_by P (f x) (map f xs)"
  by (simp add: ins_by_def takeWhile_map dropWhile_map)

lemma set_ins_by [simp]: "set (ins_by P x xs) = insert x (set xs)"
  by (auto simp: ins_by_def dest: set_takeWhileD set_dropWhileD) (metis Un_iff set_append takeWhile_dropWhile_id)

lemma mset_ins_by: "mset (ins_by P x xs) = add_mset x (mset xs)"
proof -
  have "mset xs = mset (takeWhile P xs) + mset (dropWhile P xs)" by (metis mset_append takeWhile_dropWhile_id)
  then show ?thesis by (simp add: ins_by_def)
qed

lemma distinct_ins_by: "distinct (ins_by P x xs) \<longleftrightarrow> distinct (x # xs)"
  by (rule mset_eq_imp_distinct_iff) (simp add: mset_ins_by)

lemma upd_timeo_sel [simp]: "timeos (upd_timeo p f s) = (timeos s)(p := f (timeos s p))" "next_timeout (upd_timeo p f s) = next_timeout s"
  "memp_tab (upd_timeo p f s) = memp_tab s" "sys_val (upd_timeo p f s) = sys_val s"
  by (simp_all add: upd_timeo_def)

lemma place_list:
  assumes "tlist (timeos s) t (t # qs)" "a \<notin> set (t # qs)" "a \<noteq> 0" "distinct (t # qs)"
    and "\<not> TIME_LESS_THAN (to_time (timeos s a)) (to_time (timeos s t))"
  shows "\<exists>h. timeout_place a t s = Some (s\<lparr>timeos := h\<rparr>)
    \<and> tlist h t (ins_by (\<lambda>x. \<not> TIME_LESS_THAN (to_time (timeos s a)) (to_time (timeos s x))) a (t # qs))
    \<and> (\<forall>y. entry (h y) = entry (timeos s y)) \<and> (\<forall>y. y \<notin> set (t # qs) \<union> {a} \<longrightarrow> h y = timeos s y)"
  using assms
proof (induction qs arbitrary: t)
  case Nil
  define h where "h = (timeos s)(a := (timeos s a)\<lparr>to_next := 0\<rparr>, t := (timeos s t)\<lparr>to_next := a\<rparr>)"
  have "timeout_place a t s = Some (s\<lparr>timeos := h\<rparr>)" using Nil by (subst timeout_place.simps) (simp add: upd_timeo_def h_def)
  moreover have "tlist h t [t, a]" "\<forall>y. entry (h y) = entry (timeos s y)" "\<forall>y. y \<noteq> t \<and> y \<noteq> a \<longrightarrow> h y = timeos s y"
    using Nil by (simp_all add: h_def entry_def)
  ultimately show ?case using Nil by (intro exI [of _ h]) (simp add: ins_by_def)
next
  case (Cons x qs)
  let ?L = "\<lambda>x. TIME_LESS_THAN (to_time (timeos s a)) (to_time (timeos s x))"
  have x: "to_next (timeos s t) = x" "x \<noteq> 0" "tlist (timeos s) x (x # qs)" "t \<noteq> 0" using Cons.prems(1) by simp_all
  show ?case
  proof (cases "?L x")
    case True
    define h where "h = (timeos s)(a := (timeos s a)\<lparr>to_next := x\<rparr>, t := (timeos s t)\<lparr>to_next := a\<rparr>)"
    have r: "timeout_place a t s = Some (s\<lparr>timeos := h\<rparr>)"
      using Cons.prems(2) True x by (subst timeout_place.simps) (simp add: upd_timeo_def h_def)
    have "tlist h x (x # qs) \<longleftrightarrow> tlist (timeos s) x (x # qs)" by (rule tlist_cong) (use Cons.prems(2,4) in \<open>auto simp: h_def\<close>)
    then have "tlist h t (t # a # x # qs)" using x Cons.prems by (simp add: h_def)
    moreover have "ins_by (\<lambda>x. \<not> ?L x) a (t # x # qs) = t # a # x # qs" using True Cons.prems(5) by (simp add: ins_by_def)
    moreover have "\<forall>y. entry (h y) = entry (timeos s y)" "\<forall>y. y \<noteq> t \<and> y \<noteq> a \<longrightarrow> h y = timeos s y" by (simp_all add: h_def entry_def)
    ultimately show ?thesis using r by (intro exI [of _ h]) simp
  next
    case False
    have n: "timeout_place a t s = timeout_place a x s" using False x by (subst timeout_place.simps) simp
    have "a \<notin> set (x # qs)" "distinct (x # qs)" using Cons.prems by simp_all
    from Cons.IH [OF x(3) this(1) Cons.prems(3) this(2) False] obtain h where
      h: "timeout_place a x s = Some (s\<lparr>timeos := h\<rparr>)" "tlist h x (ins_by (\<lambda>x. \<not> ?L x) a (x # qs))"
        "\<forall>y. entry (h y) = entry (timeos s y)" "\<forall>y. y \<notin> set (x # qs) \<union> {a} \<longrightarrow> h y = timeos s y" by blast
    have "h t = timeos s t" using h(4) Cons.prems(2,4) by auto
    then have "tlist h t (t # ins_by (\<lambda>x. \<not> ?L x) a (x # qs))" using h(2) x by simp
    moreover have "ins_by (\<lambda>x. \<not> ?L x) a (t # x # qs) = t # ins_by (\<lambda>x. \<not> ?L x) a (x # qs)"
      using Cons.prems(5) by (simp add: ins_by_def)
    ultimately show ?thesis using n h by (intro exI [of _ h]) auto
  qed
qed

lemma ins_timer_simps: "ins_timer e [] = [e]"
  "ins_timer e (x # es) = (if TIME_LESS_THAN (fst e) (fst x) then e # x # es else x # ins_timer e es)"
  by (simp_all add: ins_timer_def ins_by_def)

lemma timeout_abs_armed:
  assumes "armed s es" "memp_tab s MEMP_SYS_TIMEOUT = a # fl"
  shows "\<exists>s'. sys_timeout_abs t hh arg s = Some s' \<and> armed s' (ins_timer (t, hh, arg) es)
    \<and> s' = s\<lparr>memp_tab := (memp_tab s)(MEMP_SYS_TIMEOUT := fl), timeos := timeos s', next_timeout := next_timeout s'\<rparr>"
proof -
  obtain qs where q: "tlist (timeos s) (next_timeout s) qs" "es = map (\<lambda>q. entry (timeos s q)) qs" "pool_ok (qs @ a # fl)"
    using assms unfolding armed_def by auto
  define e where "e = \<lparr>to_next = 0, to_time = t, to_h = hh, to_arg = arg\<rparr>"
  have a: "a \<noteq> 0" "a mod 4 = 0" "a \<notin> set qs" using q(3) by (auto simp: pool_ok_def)
  define h0 where "h0 = (timeos s)(a := e)"
  define s0 where "s0 = s\<lparr>memp_tab := (memp_tab s)(MEMP_SYS_TIMEOUT := fl), timeos := h0\<rparr>"
  have r0: "sys_timeout_abs t hh arg s =
    (if next_timeout s = 0 then Some (s0\<lparr>next_timeout := a\<rparr>)
     else if TIME_LESS_THAN t (to_time (timeos s0 (next_timeout s)))
     then Some ((upd_timeo a (\<lambda>e. e\<lparr>to_next := next_timeout s\<rparr>) s0)\<lparr>next_timeout := a\<rparr>)
     else timeout_place a (next_timeout s) s0)"
    using a malloc_pool [OF assms(2) a(2)] by (simp add: sys_timeout_abs_def s0_def h0_def e_def)
  have l0: "tlist h0 (next_timeout s) qs" using q(1) by (subst tlist_cong [where h' = "timeos s"]) (use a in \<open>auto simp: h0_def\<close>)
  have v: "map (\<lambda>q. entry (h0 q)) qs = es" "entry (h0 a) = (t, hh, arg)" using a by (auto simp: h0_def q(2) e_def entry_def)
  let ?L = "\<lambda>x. \<not> TIME_LESS_THAN t (to_time (h0 x))"
  have d: "distinct qs" using q(3) by (simp add: pool_ok_def)
  have "\<exists>n h. sys_timeout_abs t hh arg s = Some (s0\<lparr>timeos := h, next_timeout := n\<rparr>) \<and> tlist h n (ins_by ?L a qs)
    \<and> (\<forall>y. entry (h y) = entry (h0 y))"
  proof (cases qs)
    case Nil
    then have "sys_timeout_abs t hh arg s = Some (s0\<lparr>timeos := h0, next_timeout := a\<rparr>)" using q(1) r0 by (simp add: s0_def)
    then show ?thesis using Nil a by (intro exI [of _ a] exI [of _ h0]) (simp add: ins_by_def, simp add: h0_def e_def)
  next
    case (Cons x xs)
    have x: "next_timeout s = x" "x \<noteq> 0" using l0 Cons by simp_all
    show ?thesis
    proof (cases "?L x")
      case True
      have "tlist (timeos s0) x (x # xs)" "a \<notin> set (x # xs)" "distinct (x # xs)" "to_time (timeos s0 a) = t"
        using l0 a d Cons x by (simp_all add: s0_def) (simp add: h0_def e_def)
      from place_list [OF this(1,2) a(1) this(3)] True this(4) obtain h where
        "timeout_place a x s0 = Some (s0\<lparr>timeos := h\<rparr>)" "tlist h x (ins_by ?L a (x # xs))" "\<forall>y. entry (h y) = entry (h0 y)"
        by (auto simp: s0_def)
      then show ?thesis using r0 x True Cons by (intro exI [of _ x] exI [of _ h]) (simp add: s0_def)
    next
      case False
      define h where "h = h0(a := (h0 a)\<lparr>to_next := x\<rparr>)"
      have "tlist h x (x # xs)" by (subst tlist_cong [where h' = h0]) (use l0 a Cons x in \<open>auto simp: h_def\<close>)
      then have "tlist h a (ins_by ?L a qs)" using a False Cons by (simp add: ins_by_def, simp add: h_def)
      moreover have "\<forall>y. entry (h y) = entry (h0 y)" by (simp add: h_def entry_def)
      moreover have "sys_timeout_abs t hh arg s = Some (s0\<lparr>timeos := h, next_timeout := a\<rparr>)"
        using r0 x False by (simp add: s0_def h_def upd_timeo_def)
      ultimately show ?thesis by (intro exI [of _ a] exI [of _ h]) simp
    qed
  qed
  then obtain n h where r: "sys_timeout_abs t hh arg s = Some (s0\<lparr>timeos := h, next_timeout := n\<rparr>)" "tlist h n (ins_by ?L a qs)"
    "\<forall>y. entry (h y) = entry (h0 y)" by blast
  have "map (\<lambda>q. entry (h q)) (ins_by ?L a qs) = ins_timer (t, hh, arg) es"
    using ins_by_map [of "\<lambda>q. entry (h0 q)" "\<lambda>x. \<not> TIME_LESS_THAN t (fst x)" a qs] r(3) v
    by (simp add: ins_timer_def comp_def entry_def)
  moreover have "pool_ok (ins_by ?L a qs @ fl)" using q(3) by (auto simp: pool_ok_def distinct_ins_by)
  ultimately have "armed (s0\<lparr>timeos := h, next_timeout := n\<rparr>) (ins_timer (t, hh, arg) es)"
    using r(2) unfolding armed_def by (intro exI [of _ "ins_by ?L a qs"]) (simp add: s0_def)
  then show ?thesis using r(1) by (simp add: s0_def)
qed

definition rm_by :: "('b \<Rightarrow> bool) \<Rightarrow> 'b list \<Rightarrow> 'b list" where
  "rm_by N xs = takeWhile N xs @ tl (dropWhile N xs)"

definition rm_timer :: "sys_timeout_handler \<Rightarrow> timer_arg \<Rightarrow> timer list \<Rightarrow> timer list" where
  "rm_timer h arg = rm_by (\<lambda>x. snd x \<noteq> (h, arg))"

lemma rm_by_split:
  assumes "\<forall>x\<in>set as. N x" "\<not> N q"
  shows "rm_by N (as @ q # bs) = as @ bs"
proof -
  have "takeWhile N (as @ q # bs) = as" using assms by (induction as) simp_all
  moreover have "dropWhile N (as @ q # bs) = q # bs" using assms by (induction as) simp_all
  ultimately show ?thesis by (simp add: rm_by_def)
qed

lemma rm_by_none: "\<forall>x\<in>set as. N x \<Longrightarrow> rm_by N as = as"
  by (simp add: rm_by_def takeWhile_eq_all_conv [THEN iffD2] dropWhile_eq_Nil_conv [THEN iffD2])

lemma unlink:
  assumes "tlist h p (as @ q # bs)" "distinct (as @ q # bs)" "as \<noteq> []"
  shows "tlist (h(last as := (h (last as))\<lparr>to_next := to_next (h q)\<rparr>)) p (as @ bs)"
  using assms
proof (induction as arbitrary: p)
  case (Cons x as)
  show ?case
  proof (cases "as = []")
    case True
    define g where "g = h(x := (h x)\<lparr>to_next := to_next (h q)\<rparr>)"
    have "tlist g (to_next (h q)) bs" by (subst tlist_cong [where h' = h]) (use Cons.prems True in \<open>auto simp: g_def\<close>)
    moreover have "to_next (g x) = to_next (h q)" by (simp add: g_def)
    ultimately show ?thesis using Cons.prems True by (simp add: g_def [symmetric])
  next
    case False
    then have "last as \<in> set as" by simp
    then have n: "last as \<noteq> x" using Cons.prems(2) by auto
    define g where "g = h(last as := (h (last as))\<lparr>to_next := to_next (h q)\<rparr>)"
    have "tlist g (to_next (h x)) (as @ bs)" unfolding g_def using Cons.prems False by (intro Cons.IH) simp_all
    moreover have "g x = h x" using n by (simp add: g_def)
    ultimately show ?thesis using Cons.prems(1) False by (simp add: g_def [symmetric])
  qed
qed simp

lemma untimeout_none:
  assumes "tlist (timeos s) t qs" "\<forall>q\<in>set qs. (to_h (timeos s q), to_arg (timeos s q)) \<noteq> (h, arg)"
  shows "untimeout_loop h arg prev t s = Some s"
  using assms
proof (induction qs arbitrary: prev t)
  case Nil
  then show ?case by (subst untimeout_loop.simps) simp
next
  case (Cons q qs)
  then show ?case by (subst untimeout_loop.simps) auto
qed

lemma untimeout_match:
  assumes "tlist (timeos s) t (as @ q # bs)" "\<forall>q\<in>set as. (to_h (timeos s q), to_arg (timeos s q)) \<noteq> (h, arg)"
    and "(to_h (timeos s q), to_arg (timeos s q)) = (h, arg)"
  shows "untimeout_loop h arg prev t s = Some (memp_free MEMP_SYS_TIMEOUT q
    (let l = last (prev # as) in if l = 0 then s\<lparr>next_timeout := to_next (timeos s q)\<rparr>
     else upd_timeo l (\<lambda>e. e\<lparr>to_next := to_next (timeos s q)\<rparr>) s))"
  using assms
proof (induction as arbitrary: prev t)
  case Nil
  then show ?case by (subst untimeout_loop.simps) (simp add: Let_def)
next
  case (Cons x as)
  have "untimeout_loop h arg prev t s = untimeout_loop h arg x (to_next (timeos s x)) s"
    using Cons.prems by (subst untimeout_loop.simps) auto
  then show ?case using Cons.IH [of "to_next (timeos s x)" x] Cons.prems by simp
qed

lemma memp_free_sel [simp]: "timeos (memp_free t p s) = timeos s" "next_timeout (memp_free t p s) = next_timeout s"
  "tcpip_tcp_timer_active (memp_free t p s) = tcpip_tcp_timer_active s"
  "current_timeout_due_time (memp_free t p s) = current_timeout_due_time s" "sys_val (memp_free t p s) = sys_val s"
  "timers.more (memp_free t p s) = timers.more s"
  by (simp_all add: memp_free_def do_memp_free_pool_def LWIP_ASSERT_def Let_def)

lemma memp_free_tab: "p \<noteq> 0 \<Longrightarrow> memp_tab (memp_free t p s) = (memp_tab s)(t := p # memp_tab s t)"
  by (simp add: memp_free_def do_memp_free_pool_def LWIP_ASSERT_def Let_def)

lemma tlist_nonzero: "tlist h p qs \<Longrightarrow> 0 \<notin> set qs"
  by (induction qs arbitrary: p) auto

definition timer_space :: "'a timers_scheme \<Rightarrow> nat" where
  "timer_space s = length (memp_tab s MEMP_SYS_TIMEOUT)"

lemma untimeout_armed:
  assumes "armed s es"
  shows "\<exists>s'. sys_untimeout h arg s = Some s' \<and> armed s' (rm_timer h arg es) \<and>
    timer_space s' + length (rm_timer h arg es) = timer_space s + length es"
proof -
  obtain qs where q: "tlist (timeos s) (next_timeout s) qs" "es = map (\<lambda>q. entry (timeos s q)) qs"
    "pool_ok (qs @ memp_tab s MEMP_SYS_TIMEOUT)" using assms unfolding armed_def by auto
  let ?N = "\<lambda>q. (to_h (timeos s q), to_arg (timeos s q)) \<noteq> (h, arg)"
  have n: "snd (entry (timeos s x)) \<noteq> (h, arg) \<longleftrightarrow> ?N x" for x by (simp add: entry_def)
  have e: "sys_untimeout h arg s = untimeout_loop h arg 0 (next_timeout s) s"
    by (cases "next_timeout s = 0") (auto simp: sys_untimeout_def untimeout_loop.simps [of h arg 0 0])
  show ?thesis
  proof (cases "\<forall>x\<in>set qs. ?N x")
    case True
    have "rm_timer h arg es = es" unfolding rm_timer_def q(2) using True n by (intro rm_by_none) auto
    then show ?thesis using untimeout_none [OF q(1) True, of 0] e assms by simp
  next
    case False
    then obtain as x bs where x: "qs = as @ x # bs" "\<not> ?N x" "\<forall>y\<in>set as. ?N y"
      using split_list_first_prop [of qs "\<lambda>x. \<not> ?N x"] by blast
    have nz: "x \<noteq> 0" "0 \<notin> set as" using tlist_nonzero [OF q(1)] x(1) by auto
    define s1 where "s1 = (if as = [] then s\<lparr>next_timeout := to_next (timeos s x)\<rparr>
      else upd_timeo (last as) (\<lambda>e. e\<lparr>to_next := to_next (timeos s x)\<rparr>) s)"
    have "as \<noteq> [] \<Longrightarrow> last as \<noteq> 0" using nz(2) by (metis last_in_set)
    then have r: "sys_untimeout h arg s = Some (memp_free MEMP_SYS_TIMEOUT x s1)"
      using untimeout_match [OF q(1) [unfolded x(1)] x(3), of 0] x(2) e by (simp add: s1_def Let_def split: if_splits)
    have v: "entry (timeos s1 y) = entry (timeos s y)" for y by (simp add: s1_def entry_def)
    have d: "distinct (as @ x # bs)" using q(3) x(1) by (auto simp: pool_ok_def)
    have "tlist (timeos s1) (next_timeout s1) (as @ bs)"
      using unlink [OF q(1) [unfolded x(1)] d] q(1) x(1) by (cases "as = []") (simp_all add: s1_def)
    moreover have t: "memp_tab s1 = memp_tab s" by (simp add: s1_def)
    moreover have "rm_timer h arg es = map (\<lambda>q. entry (timeos s1 q)) (as @ bs)"
      unfolding rm_timer_def q(2) x(1) using x(2,3) n by (simp add: rm_by_split v)
    ultimately have "armed (memp_free MEMP_SYS_TIMEOUT x s1) (rm_timer h arg es)"
      unfolding armed_def using q(3) x(1) nz(1) by (intro exI [of _ "as @ bs"]) (auto simp: memp_free_tab pool_ok_def)
    moreover have "length (rm_timer h arg es) + 1 = length es"
      unfolding rm_timer_def q(2) x(1) using x(2,3) n by (simp add: rm_by_split)
    ultimately show ?thesis using r nz(1) t by (simp add: timer_space_def memp_free_tab)
  qed
qed

subsection \<open>Deadlines around the current time\<close>

text \<open>The deadlines within 0x40000000 milliseconds of the current time, as natural numbers; the current time itself is 0x40000000.\<close>

definition key :: "u32 \<Rightarrow> u32 \<Rightarrow> nat" where
  "key now t = unat (t - (now - 0x40000000))"

definition ordered :: "u32 \<Rightarrow> timer list \<Rightarrow> bool" where
  "ordered now es \<longleftrightarrow> sorted (map (key now \<circ> fst) es) \<and> (\<forall>e\<in>set es. key now (fst e) < 0x80000000)"

lemma key_now [simp]: "key now now = 0x40000000"
  by (simp add: key_def)

lemma key_add: "key now t + unat d < 2 ^ 32 \<Longrightarrow> key now (t + d) = key now t + unat d"
proof -
  assume "key now t + unat d < 2 ^ 32"
  moreover have "t + d - (now - 0x40000000) = (t - (now - 0x40000000)) + d" by simp
  ultimately show ?thesis unfolding key_def by (simp only: unat_word_ariths(1)) simp
qed

lemma less_than_key:
  assumes "key now a < 0x80000000" "key now b < 0x80000000"
  shows "TIME_LESS_THAN a b \<longleftrightarrow> key now a < key now b"
proof -
  define x y where "x = a - (now - 0x40000000)" and "y = b - (now - 0x40000000)"
  have "a - b = x - y" by (simp add: x_def y_def)
  then show ?thesis
    using assms unfolding key_def x_def [symmetric] y_def [symmetric] TIME_LESS_THAN_def
    by (simp add: word_less_nat_alt unat_sub_if') linarith
qed

lemma set_ins_timer [simp]: "set (ins_timer e es) = insert e (set es)"
  by (simp add: ins_timer_def)

lemma sorted_ins_timer:
  assumes "ordered now es" "key now (fst e) < 0x80000000"
  shows "ordered now (ins_timer e es)"
  using assms(1)
proof (induction es)
  case Nil
  then show ?case using assms(2) by (simp add: ins_timer_simps ordered_def)
next
  case (Cons x es)
  have x: "key now (fst x) < 0x80000000" "ordered now es" "\<forall>y\<in>set es. key now (fst x) \<le> key now (fst y)"
    using Cons.prems by (auto simp: ordered_def)
  have l: "TIME_LESS_THAN (fst e) (fst x) \<longleftrightarrow> key now (fst e) < key now (fst x)" using assms(2) x(1) by (rule less_than_key)
  show ?case
  proof (cases "TIME_LESS_THAN (fst e) (fst x)")
    case True
    then show ?thesis using l Cons.prems assms(2) x(3) by (auto simp: ins_timer_simps ordered_def dest: order.trans [OF less_imp_le])
  next
    case False
    then show ?thesis
      using l Cons.IH [OF x(2)] x(1,3) by (auto simp: ins_timer_simps ordered_def)
  qed
qed

subsection \<open>Running the timers\<close>

text \<open>The timers the stack itself arms, and the function each of them calls.\<close>

fun own_timer :: "timer \<Rightarrow> bool" where
  "own_timer (t, Lwip_cyclic_timer, Arg_cyclic i) \<longleftrightarrow> i < length lwip_cyclic_timers"
| "own_timer (t, h, a) \<longleftrightarrow> h = Tcpip_tcp_timer"

fun timer_call :: "timer \<Rightarrow> cyclic_fn" where
  "timer_call (t, Lwip_cyclic_timer, Arg_cyclic i) = snd (lwip_cyclic_timers ! i)"
| "timer_call (t, h, a) = tcp_tmr"

definition is_cyclic :: "timer \<Rightarrow> bool" where
  "is_cyclic e \<longleftrightarrow> fst (snd e) = Lwip_cyclic_timer"

text \<open>
  The functions of the protocols leave the timers and the clock alone; what they do to the rest of the state is open, but for a record \<open>obs\<close> of
  the calls. This is a hypothesis: a protocol that opens a TCP connection from its timer would arm the TCP timer there.
\<close>

definition own_state :: "'a timer_fns \<Rightarrow> ('a \<Rightarrow> cyclic_fn list) \<Rightarrow> bool" where
  "own_state K obs \<longleftrightarrow> (\<forall>f s. let s' = cyclic_call K f s in next_timeout s' = next_timeout s \<and> timeos s' = timeos s
     \<and> memp_tab s' MEMP_SYS_TIMEOUT = memp_tab s MEMP_SYS_TIMEOUT \<and> current_timeout_due_time s' = current_timeout_due_time s
     \<and> sys_val s' = sys_val s \<and> obs (timers.more s') = obs (timers.more s) @ [f])"

lemma own_timer_cases:
  assumes "own_timer e"
  obtains t i where "e = (t, Lwip_cyclic_timer, Arg_cyclic i)" "i < length lwip_cyclic_timers"
  | t a where "e = (t, Tcpip_tcp_timer, a)"
  using assms by (cases e rule: own_timer.cases) auto

lemma own_stateD:
  assumes "own_state K obs"
  shows "armed (cyclic_call K f s) es = armed s es" "memp_tab (cyclic_call K f s) MEMP_SYS_TIMEOUT = memp_tab s MEMP_SYS_TIMEOUT"
    "current_timeout_due_time (cyclic_call K f s) = current_timeout_due_time s" "sys_val (cyclic_call K f s) = sys_val s"
    "obs (timers.more (cyclic_call K f s)) = obs (timers.more s) @ [f]"
  using assms by (simp_all add: own_state_def Let_def armed_def)

text \<open>What a handler leaves: the list, the clock, and one call on record.\<close>

definition ran :: "('a \<Rightarrow> cyclic_fn list) \<Rightarrow> cyclic_fn \<Rightarrow> 'a timers_scheme \<Rightarrow> timer list \<Rightarrow> 'a timers_scheme \<Rightarrow> bool" where
  "ran obs f s es s' \<longleftrightarrow> armed s' es \<and> sys_val s' = sys_val s \<and> obs (timers.more s') = obs (timers.more s) @ [f]"

lemma rearm:
  assumes "own_state K obs" "armed s es" "memp_tab s MEMP_SYS_TIMEOUT = a # fl"
  shows "\<exists>s'. sys_timeout_abs t h arg (cyclic_call K f s) = Some s' \<and> ran obs f s (ins_timer (t, h, arg) es) s'"
proof -
  note k = own_stateD [OF assms(1)]
  have "armed (cyclic_call K f s) es" "memp_tab (cyclic_call K f s) MEMP_SYS_TIMEOUT = a # fl"
    using assms(2,3) by (simp_all add: k)
  from timeout_abs_armed [OF this, of t h arg] obtain s' where
    s': "sys_timeout_abs t h arg (cyclic_call K f s) = Some s'" "armed s' (ins_timer (t, h, arg) es)"
    and e: "s' = (cyclic_call K f s)\<lparr>memp_tab := (memp_tab (cyclic_call K f s))(MEMP_SYS_TIMEOUT := fl), timeos := timeos s',
      next_timeout := next_timeout s'\<rparr>"
    by auto
  have "sys_val s' = sys_val s" "timers.more s' = timers.more (cyclic_call K f s)" by (subst e, simp add: k)+
  then show ?thesis using s' by (simp add: ran_def k)
qed

lemma cyclic_runs:
  assumes "own_state K obs" "armed s es" "memp_tab s MEMP_SYS_TIMEOUT = a # fl" "i < length lwip_cyclic_timers"
    and "lwip_cyclic_timers ! i = (v, f)" "due = current_timeout_due_time s"
  shows "\<exists>s'. call_handler K Lwip_cyclic_timer (Arg_cyclic i) s = Some s' \<and>
    ran obs f s (ins_timer (if TIME_LESS_THAN (due + v) (sys_val s) then sys_val s + v else due + v, Lwip_cyclic_timer, Arg_cyclic i) es) s'"
proof -
  note k = own_stateD [OF assms(1)]
  show ?thesis
    using rearm [OF assms(1-3), of "due + v" Lwip_cyclic_timer "Arg_cyclic i" f]
      rearm [OF assms(1-3), of "sys_val s + v" Lwip_cyclic_timer "Arg_cyclic i" f] assms(4-6)
    by (auto simp: call_handler_def lwip_cyclic_timer_def Let_def sys_now_def k)
qed

lemma tcp_runs:
  assumes "own_state K obs" "armed s es" "memp_tab s MEMP_SYS_TIMEOUT = a # fl"
  shows "\<exists>s' es'. call_handler K Tcpip_tcp_timer arg s = Some s' \<and> ran obs tcp_tmr s es' s'
    \<and> (es' = es \<or> es' = ins_timer (sys_val s + 250, Tcpip_tcp_timer, Arg_null) es)"
proof (cases "tcp_pcbs K (cyclic_call K tcp_tmr s)")
  case True
  note k = own_stateD [OF assms(1)]
  show ?thesis
    using rearm [OF assms, of "sys_val s + 250" Tcpip_tcp_timer Arg_null tcp_tmr] True
    by (auto simp: call_handler_def tcpip_tcp_timer_def sys_timeout_def LWIP_ASSERT_def sys_now_def k)
next
  case False
  then show ?thesis
    using assms by (intro exI [of _ "(cyclic_call K tcp_tmr s)\<lparr>tcpip_tcp_timer_active := False\<rparr>"] exI [of _ es])
      (simp add: call_handler_def tcpip_tcp_timer_def own_state_def Let_def ran_def armed_def)
qed

lemma check_empty: "armed s [] \<Longrightarrow> check_timeouts_loop K now s = Some s"
  by (subst check_timeouts_loop.simps) (auto simp: armed_def)

lemma check_future: "armed s (e # es) \<Longrightarrow> TIME_LESS_THAN now (fst e) \<Longrightarrow> check_timeouts_loop K now s = Some s"
  by (subst check_timeouts_loop.simps) (auto simp: armed_def Cons_eq_map_conv entry_def)

lemma check_step:
  assumes "armed s ((t, h, arg) # es)" "\<not> TIME_LESS_THAN now t"
  shows "\<exists>s1 a fl. check_timeouts_loop K now s = Option.bind (call_handler K h arg s1) (check_timeouts_loop K now)
    \<and> armed s1 es \<and> memp_tab s1 MEMP_SYS_TIMEOUT = a # fl \<and> current_timeout_due_time s1 = t \<and> sys_val s1 = sys_val s
    \<and> timers.more s1 = timers.more s"
proof -
  obtain q qs where q: "tlist (timeos s) (next_timeout s) (q # qs)" "entry (timeos s q) = (t, h, arg)"
    "es = map (\<lambda>q. entry (timeos s q)) qs" "pool_ok ((q # qs) @ memp_tab s MEMP_SYS_TIMEOUT)"
    using assms(1) unfolding armed_def by (auto simp: Cons_eq_map_conv)
  have n: "next_timeout s = q" "q \<noteq> 0" using q(1) by simp_all
  define s1 where "s1 = memp_free MEMP_SYS_TIMEOUT q (s\<lparr>next_timeout := to_next (timeos s q), current_timeout_due_time := t\<rparr>)"
  have "check_timeouts_loop K now s = Option.bind (call_handler K h arg s1) (check_timeouts_loop K now)"
    using n q(2) assms(2) by (subst check_timeouts_loop.simps) (simp add: Let_def s1_def entry_def)
  moreover have t: "memp_tab s1 MEMP_SYS_TIMEOUT = q # memp_tab s MEMP_SYS_TIMEOUT" using n by (simp add: s1_def memp_free_tab)
  moreover have "armed s1 es"
    unfolding armed_def t using q n by (intro exI [of _ qs]) (auto simp: s1_def pool_ok_def)
  ultimately show ?thesis by (auto simp: s1_def)
qed

text \<open>How often a timer can still run: one that is due again exactly now runs twice.\<close>

definition runs_left :: "u32 \<Rightarrow> timer \<Rightarrow> nat" where
  "runs_left now e = (if key now (fst e) > 0x40000000 then 0 else if key now (fst e) = 0x40000000 then 1 else 2)"

abbreviation total_runs :: "u32 \<Rightarrow> timer list \<Rightarrow> nat" where
  "total_runs now es \<equiv> sum_list (map (runs_left now) es)"

abbreviation runs_of :: "cyclic_fn \<Rightarrow> u32 \<Rightarrow> timer list \<Rightarrow> nat" where
  "runs_of c now es \<equiv> sum_list (map (\<lambda>x. if timer_call x = c then runs_left now x else 0) es)"

lemma sum_ins: "sum_list (map g (ins_timer e es)) = g e + sum_list (map g es)" for g :: "timer \<Rightarrow> nat"
proof -
  have "sum_mset (image_mset g (mset (ins_timer e es))) = sum_mset (image_mset g (add_mset e (mset es)))"
    by (simp add: ins_timer_def mset_ins_by)
  then show ?thesis by (simp flip: mset_map sum_mset_sum_list)
qed

lemma interval_range: "(v, f) \<in> set lwip_cyclic_timers \<Longrightarrow> 100 \<le> unat v \<and> unat v \<le> 60000"
  by (auto simp: lwip_cyclic_timers_def)

lemma next_deadline:
  assumes "key now t \<le> 0x40000000" "100 \<le> unat v" "unat v \<le> 60000"
    and "t' = (if TIME_LESS_THAN (t + v) now then now + v else t + v)"
  shows "key now t' \<le> 0x4000EA60" "runs_left now (t', e) < runs_left now (t, e')"
proof -
  have k: "key now (t + v) = key now t + unat v" "key now (now + v) = 0x40000000 + unat v" using assms(1,3) by (simp_all add: key_add)
  have l: "TIME_LESS_THAN (t + v) now \<longleftrightarrow> key now t + unat v < 0x40000000"
    using less_than_key [of now "t + v" now] assms(1,3) k(1) by simp
  show "key now t' \<le> 0x4000EA60" "runs_left now (t', e) < runs_left now (t, e')"
    using assms(1-3) k l unfolding assms(4) by (auto simp: runs_left_def)
qed

definition due_calls :: "u32 \<Rightarrow> timer list \<Rightarrow> cyclic_fn set" where
  "due_calls now es = timer_call ` {e \<in> set es. \<not> TIME_LESS_THAN now (fst e)}"

definition cyclic_part :: "timer list \<Rightarrow> (sys_timeout_handler \<times> timer_arg) multiset" where
  "cyclic_part es = image_mset snd (filter_mset is_cyclic (mset es))"

text \<open>No deadline is more than a minute ahead, the longest interval.\<close>

definition soon :: "u32 \<Rightarrow> timer list \<Rightarrow> bool" where
  "soon now es \<longleftrightarrow> (\<forall>e\<in>set es. key now (fst e) \<le> 0x40000000 + 60000)"

lemma ordered_tl: "ordered now (e # es) \<Longrightarrow> ordered now es"
  by (simp add: ordered_def)

lemma due_calls_Cons: "\<not> TIME_LESS_THAN now (fst e) \<Longrightarrow> due_calls now (e # es) = insert (timer_call e) (due_calls now es)"
  by (auto simp: due_calls_def)

lemma due_calls_ins: "timer_call e' = c \<Longrightarrow> insert c (due_calls now (ins_timer e' es)) = insert c (due_calls now es)"
  by (auto simp: due_calls_def)

lemma cyclic_part_ins: "cyclic_part (ins_timer e es) = cyclic_part (e # es)"
  by (simp add: cyclic_part_def ins_timer_def mset_ins_by)

lemma runs_next:
  assumes "own_state K obs" "armed s (e # es)" "ordered now (e # es)" "\<forall>x\<in>set (e # es). own_timer x"
    and "\<not> TIME_LESS_THAN now (fst e)" "sys_val s = now" "soon now (e # es)"
  shows "\<exists>s2 es2. check_timeouts_loop K now s = check_timeouts_loop K now s2 \<and> armed s2 es2 \<and> ordered now es2
    \<and> (\<forall>x\<in>set es2. own_timer x) \<and> sys_val s2 = now \<and> soon now es2 \<and> total_runs now es2 < total_runs now (e # es)
    \<and> obs (timers.more s2) = obs (timers.more s) @ [timer_call e] \<and> cyclic_part es2 = cyclic_part (e # es)
    \<and> insert (timer_call e) (due_calls now es2) = due_calls now (e # es)
    \<and> (\<forall>c. of_bool (timer_call e = c) + runs_of c now es2 \<le> runs_of c now (e # es))"
proof -
  obtain t h arg where e: "e = (t, h, arg)" by (cases e)
  have k: "key now t < 0x80000000" using assms(3) by (simp add: ordered_def e)
  have kt: "key now t \<le> 0x40000000" using less_than_key [OF _ k, of now] assms(5) by (simp add: e)
  have o: "ordered now es" using assms(3) by (rule ordered_tl)
  have dc: "due_calls now (e # es) = insert (timer_call e) (due_calls now es)" using assms(5) by (rule due_calls_Cons)
  from check_step [OF assms(2) [unfolded e], of now K] assms(5) obtain s1 a fl where
    c: "check_timeouts_loop K now s = Option.bind (call_handler K h arg s1) (check_timeouts_loop K now)"
    and s1: "armed s1 es" "memp_tab s1 MEMP_SYS_TIMEOUT = a # fl" "t = current_timeout_due_time s1" "sys_val s1 = now"
      "timers.more s1 = timers.more s" by (auto simp: e assms(6))
  have "own_timer e" using assms(4) by simp
  then show ?thesis
  proof (cases rule: own_timer_cases)
    case (1 t' i)
    then have h: "h = Lwip_cyclic_timer" "arg = Arg_cyclic i" by (simp_all add: e)
    obtain v f where v: "lwip_cyclic_timers ! i = (v, f)" by (cases "lwip_cyclic_timers ! i")
    then have iv: "100 \<le> unat v" "unat v \<le> 60000" using 1(2) interval_range by (metis nth_mem)+
    define n where "n = (if TIME_LESS_THAN (t + v) now then now + v else t + v, Lwip_cyclic_timer, Arg_cyclic i)"
    from cyclic_runs [OF assms(1) s1(1,2) 1(2) v s1(3), unfolded s1(4), folded n_def] obtain s2 where
      s2: "call_handler K h arg s1 = Some s2" "armed s2 (ins_timer n es)" "sys_val s2 = now" "obs (timers.more s2) = obs (timers.more s) @ [f]"
      by (auto simp: h ran_def s1(4,5))
    have nd: "key now (fst n) \<le> 0x4000EA60" "runs_left now n < runs_left now e"
      using next_deadline [OF kt iv refl] by (simp_all add: n_def e)
    then have o2: "ordered now (ins_timer n es)" using o by (intro sorted_ins_timer) simp_all
    have "timer_call n = timer_call e" "timer_call e = f" "own_timer n" "cyclic_part (n # es) = cyclic_part (e # es)"
      using v 1(2) by (simp_all add: n_def e h cyclic_part_def is_cyclic_def)
    then show ?thesis
      using c s2 nd assms(4,7) o2 due_calls_ins [of n f now es] dc
      by (intro exI [of _ s2] exI [of _ "ins_timer n es"]) (auto simp: sum_ins cyclic_part_ins soon_def)
  next
    case (2 t' b)
    then have h: "h = Tcpip_tcp_timer" by (simp add: e)
    define n where "n = (now + 250, Tcpip_tcp_timer, Arg_null)"
    from tcp_runs [OF assms(1) s1(1,2), of arg, unfolded s1(4), folded n_def] obtain s2 es2 where
      s2: "call_handler K h arg s1 = Some s2" "armed s2 es2" "sys_val s2 = now" "obs (timers.more s2) = obs (timers.more s) @ [tcp_tmr]"
      and es2: "es2 = es \<or> es2 = ins_timer n es"
      by (auto simp: h ran_def s1(4,5))
    have "key now (fst n) = 0x40000000 + 250" using key_add [of now now 250] by (simp add: n_def)
    then have nd: "key now (fst n) < 0x80000000" "key now (fst n) \<le> 0x4000EA60" "runs_left now n = 0" by (simp_all add: runs_left_def)
    have r: "runs_left now e > 0" using kt by (simp add: runs_left_def e)
    have "timer_call n = tcp_tmr" "timer_call e = tcp_tmr" "own_timer n" "cyclic_part (n # es) = cyclic_part es" "cyclic_part (e # es) = cyclic_part es"
      by (simp_all add: n_def e h cyclic_part_def is_cyclic_def)
    then show ?thesis
      using c s2 nd r assms(4,7) o sorted_ins_timer [OF o nd(1)] due_calls_ins [of n tcp_tmr now es] dc es2
      by (intro exI [of _ s2] exI [of _ es2]) (auto simp: sum_ins cyclic_part_ins soon_def)
  qed
qed

lemma check_loop_runs:
  assumes "own_state K obs" "armed s es" "ordered now es" "\<forall>x\<in>set es. own_timer x" "sys_val s = now" "soon now es"
  shows "\<exists>s' es' fs. check_timeouts_loop K now s = Some s' \<and> armed s' es' \<and> ordered now es' \<and> soon now es' \<and> sys_val s' = now
    \<and> (\<forall>e\<in>set es'. TIME_LESS_THAN now (fst e) \<and> own_timer e) \<and> cyclic_part es' = cyclic_part es
    \<and> obs (timers.more s') = obs (timers.more s) @ fs \<and> set fs = due_calls now es \<and> length fs \<le> total_runs now es
    \<and> (\<forall>c. count_list fs c \<le> runs_of c now es)"
  using assms(2-6)
proof (induction "total_runs now es" arbitrary: s es rule: less_induct)
  case less
  show ?case
  proof (cases "\<forall>e\<in>set es. TIME_LESS_THAN now (fst e)")
    case True
    then have "check_timeouts_loop K now s = Some s" using less.prems(1) check_empty check_future by (cases es) auto
    then show ?thesis
      using less.prems True by (intro exI [of _ s] exI [of _ es] exI [of _ "[]"]) (auto simp: due_calls_def)
  next
    case False
    then obtain e rs where es: "es = e # rs" by (cases es) auto
    have "\<not> TIME_LESS_THAN now (fst e)"
    proof
      assume t: "TIME_LESS_THAN now (fst e)"
      have "TIME_LESS_THAN now (fst x)" if "x \<in> set es" for x
      proof -
        have "key now (fst x) < 0x80000000" "key now (fst e) < 0x80000000" "key now (fst e) \<le> key now (fst x)"
          using less.prems(2) that by (auto simp: ordered_def es)
        then show ?thesis using t less_than_key [of now now "fst x"] less_than_key [of now now "fst e"] by simp
      qed
      with False show False by blast
    qed
    from runs_next [OF assms(1) less.prems(1,2,3) [unfolded es] this less.prems(4,5) [unfolded es]] obtain s2 es2 where
      n: "check_timeouts_loop K now s = check_timeouts_loop K now s2" "armed s2 es2" "ordered now es2" "\<forall>x\<in>set es2. own_timer x"
        "sys_val s2 = now" "soon now es2" "total_runs now es2 < total_runs now es" "obs (timers.more s2) = obs (timers.more s) @ [timer_call e]"
        "cyclic_part es2 = cyclic_part es" "insert (timer_call e) (due_calls now es2) = due_calls now es"
        "\<forall>c. of_bool (timer_call e = c) + runs_of c now es2 \<le> runs_of c now es"
      unfolding es by blast
    from less.hyps [OF n(7,2-6)] obtain s' es' fs where *:
      "check_timeouts_loop K now s2 = Some s'" "armed s' es'" "ordered now es'" "soon now es'" "sys_val s' = now" "\<forall>e\<in>set es'. TIME_LESS_THAN now (fst e) \<and> own_timer e"
      "cyclic_part es' = cyclic_part es2" "obs (timers.more s') = obs (timers.more s2) @ fs" "set fs = due_calls now es2" "length fs \<le> total_runs now es2"
      "\<forall>c. count_list fs c \<le> runs_of c now es2" by blast
    have "count_list (timer_call e # fs) c \<le> runs_of c now es" for c
      using *(11) [rule_format, of c] n(11) [rule_format, of c] by (cases "timer_call e = c") simp_all
    then show ?thesis using n *(1-10) by (intro exI [of _ s'] exI [of _ es'] exI [of _ "timer_call e # fs"]) simp
  qed
qed

lemma timeout_armed:
  assumes "armed s es" "memp_tab s MEMP_SYS_TIMEOUT = a # fl" "msecs \<le> 0x3FFFFFFF"
  shows "\<exists>s'. sys_timeout msecs h arg s = Some s' \<and> armed s' (ins_timer (sys_val s + msecs, h, arg) es)
    \<and> memp_tab s' MEMP_SYS_TIMEOUT = fl \<and> sys_val s' = sys_val s \<and> timers.more s' = timers.more s"
proof -
  from timeout_abs_armed [OF assms(1,2), of "sys_val s + msecs" h arg] obtain s' where
    s': "sys_timeout_abs (sys_val s + msecs) h arg s = Some s'" "armed s' (ins_timer (sys_val s + msecs, h, arg) es)"
    and e: "s' = s\<lparr>memp_tab := (memp_tab s)(MEMP_SYS_TIMEOUT := fl), timeos := timeos s', next_timeout := next_timeout s'\<rparr>" by blast
  have "memp_tab s' MEMP_SYS_TIMEOUT = fl" "sys_val s' = sys_val s" "timers.more s' = timers.more s" by (subst e, simp)+
  then show ?thesis using s' assms(3) by (simp add: sys_timeout_def LWIP_ASSERT_def sys_now_def)
qed

text \<open>The state of the timers between two calls: in order, none more than a minute ahead, all of the stack's own kind.\<close>

definition timers_ok :: "'a timers_scheme \<Rightarrow> timer list \<Rightarrow> bool" where
  "timers_ok s es \<longleftrightarrow> armed s es \<and> ordered (sys_val s) es \<and> soon (sys_val s) es \<and> (\<forall>e\<in>set es. own_timer e)"

definition all_ahead :: "'a timers_scheme \<Rightarrow> timer list \<Rightarrow> bool" where
  "all_ahead s es \<longleftrightarrow> (\<forall>e\<in>set es. TIME_LESS_THAN (sys_val s) (fst e))"

lemma arm_one:
  assumes "timers_ok s es" "all_ahead s es" "memp_tab s MEMP_SYS_TIMEOUT = a # fl" "i < length lwip_cyclic_timers"
  shows "\<exists>s' es'. sys_timeout (fst (lwip_cyclic_timers ! i)) Lwip_cyclic_timer (Arg_cyclic i) s = Some s' \<and> timers_ok s' es'
    \<and> all_ahead s' es' \<and> memp_tab s' MEMP_SYS_TIMEOUT = fl \<and> cyclic_part es' = add_mset (Lwip_cyclic_timer, Arg_cyclic i) (cyclic_part es)"
proof -
  define v where "v = fst (lwip_cyclic_timers ! i)"
  have v: "100 \<le> unat v" "unat v \<le> 60000" using interval_range nth_mem [OF assms(4)] by (metis v_def prod.collapse)+
  then have "v \<le> 0x3FFFFFFF" by (simp add: word_le_nat_alt)
  define n where "n = (sys_val s + v, Lwip_cyclic_timer, Arg_cyclic i)"
  have "armed s es" using assms(1) by (simp add: timers_ok_def)
  from timeout_armed [OF this assms(3) \<open>v \<le> 0x3FFFFFFF\<close>, of Lwip_cyclic_timer "Arg_cyclic i", folded n_def] obtain s' where
    s': "sys_timeout v Lwip_cyclic_timer (Arg_cyclic i) s = Some s'" "armed s' (ins_timer n es)" "memp_tab s' MEMP_SYS_TIMEOUT = fl"
      "sys_val s' = sys_val s" by blast
  have k: "key (sys_val s) (fst n) = 0x40000000 + unat v" using v by (simp add: n_def key_add)
  then have "ordered (sys_val s) (ins_timer n es)" using assms(1) v by (intro sorted_ins_timer) (simp_all add: timers_ok_def)
  moreover have "TIME_LESS_THAN (sys_val s) (fst n)" using k v less_than_key [of "sys_val s" "sys_val s" "fst n"] by simp
  moreover have "cyclic_part (ins_timer n es) = add_mset (Lwip_cyclic_timer, Arg_cyclic i) (cyclic_part es)"
    unfolding cyclic_part_ins by (simp add: n_def cyclic_part_def is_cyclic_def)
  moreover have "own_timer n" using assms(4) by (simp add: n_def)
  ultimately show ?thesis
    using s' k v assms(1,2) unfolding v_def [symmetric]
    by (intro exI [of _ s'] exI [of _ "ins_timer n es"])
      (auto simp: timers_ok_def all_ahead_def soon_def)
qed

lemma arm_all:
  assumes "timers_ok s es" "all_ahead s es" "length is \<le> timer_space s" "\<forall>i\<in>set is. i < length lwip_cyclic_timers"
  shows "\<exists>s' es'. fold (\<lambda>i r. Option.bind r (sys_timeout (fst (lwip_cyclic_timers ! i)) Lwip_cyclic_timer (Arg_cyclic i))) is (Some s) = Some s'
    \<and> timers_ok s' es' \<and> all_ahead s' es' \<and> cyclic_part es' = mset (map (\<lambda>i. (Lwip_cyclic_timer, Arg_cyclic i)) is) + cyclic_part es"
  using assms
proof (induction "is" arbitrary: s es)
  case (Cons i "is")
  then obtain a fl where p: "memp_tab s MEMP_SYS_TIMEOUT = a # fl" by (cases "memp_tab s MEMP_SYS_TIMEOUT") (auto simp: timer_space_def)
  have "i < length lwip_cyclic_timers" using Cons.prems(4) by simp
  from arm_one [OF Cons.prems(1,2) p this] obtain s1 es1 where
    s1: "sys_timeout (fst (lwip_cyclic_timers ! i)) Lwip_cyclic_timer (Arg_cyclic i) s = Some s1" "timers_ok s1 es1" "all_ahead s1 es1"
      "memp_tab s1 MEMP_SYS_TIMEOUT = fl" "cyclic_part es1 = add_mset (Lwip_cyclic_timer, Arg_cyclic i) (cyclic_part es)" by blast
  have "length is \<le> timer_space s1" "\<forall>i\<in>set is. i < length lwip_cyclic_timers"
    using Cons.prems(3,4) by (simp_all add: timer_space_def p s1(4))
  from Cons.IH [OF s1(2,3) this] show ?case by (simp add: s1(1,5))
qed auto

text \<open>The seven timers that run all the time.\<close>

definition stack_timers :: "(sys_timeout_handler \<times> timer_arg) multiset" where
  "stack_timers = mset (map (\<lambda>i. (Lwip_cyclic_timer, Arg_cyclic i)) [1..<8])"

lemma init_arms:
  assumes "armed s []" "7 \<le> timer_space s"
  shows "\<exists>s' es'. sys_timeouts_init s = Some s' \<and> timers_ok s' es' \<and> all_ahead s' es' \<and> cyclic_part es' = stack_timers"
proof -
  have "timers_ok s []" "all_ahead s []" using assms(1) by (simp_all add: timers_ok_def all_ahead_def ordered_def soon_def)
  moreover have "length [1..<length lwip_cyclic_timers] \<le> timer_space s" using assms(2) by (simp add: lwip_cyclic_timers_def)
  moreover have "cyclic_part [] = {#}" by (simp add: cyclic_part_def)
  moreover have "length lwip_cyclic_timers = 8" by (simp add: lwip_cyclic_timers_def)
  ultimately show ?thesis
    using arm_all [of s "[]" "[1..<length lwip_cyclic_timers]"] unfolding sys_timeouts_init_def stack_timers_def by simp
qed

text \<open>Time passes.\<close>

lemma key_later:
  assumes "unat d \<le> key now t"
  shows "key (now + d) t = key now t - unat d"
proof -
  have "t - (now + d - 0x40000000) = (t - (now - 0x40000000)) - d" by simp
  moreover have "d \<le> t - (now - 0x40000000)" using assms by (simp add: key_def word_le_nat_alt)
  ultimately show ?thesis unfolding key_def by (simp only: unat_sub)
qed

lemma later_ok:
  assumes "timers_ok s es" "all_ahead s es" "amt \<le> 0x40000000"
  shows "timers_ok (sys_now_inc amt s) es"
proof -
  let ?n = "sys_val s"
  have k: "key (?n + amt) (fst e) = key ?n (fst e) - unat amt" if "e \<in> set es" for e
  proof -
    have "TIME_LESS_THAN ?n (fst e)" "key ?n (fst e) < 0x80000000" using that assms by (auto simp: all_ahead_def timers_ok_def ordered_def)
    then have "0x40000000 < key ?n (fst e)" using less_than_key [of ?n ?n "fst e"] by simp
    then show ?thesis using assms(3) by (intro key_later) (simp add: word_le_nat_alt)
  qed
  have "sorted (map (\<lambda>e. key ?n (fst e) - unat amt) es)"
    using assms(1) by (auto simp: timers_ok_def ordered_def sorted_iff_nth_mono intro: diff_le_mono)
  then have "sorted (map (key (?n + amt) \<circ> fst) es)" using k by (simp add: comp_def cong: map_cong)
  moreover have "\<forall>e\<in>set es. key (?n + amt) (fst e) < 0x80000000 \<and> key (?n + amt) (fst e) \<le> 0x40000000 + 60000"
    using assms(1) k by (auto simp: timers_ok_def ordered_def soon_def less_imp_diff_less diff_le_self le_trans)
  moreover have "armed (sys_now_inc amt s) es" using assms(1) by (simp add: timers_ok_def armed_def sys_now_inc_def)
  ultimately show ?thesis using assms(1) by (simp add: timers_ok_def ordered_def soon_def sys_now_inc_def)
qed

subsection \<open>Properties\<close>

lemma total_runs_le: "ordered now es \<Longrightarrow> total_runs now es \<le> 2 * length [e\<leftarrow>es. \<not> TIME_LESS_THAN now (fst e)]"
proof (induction es)
  case (Cons e es)
  have "key now (fst e) < 0x80000000" using Cons.prems by (simp add: ordered_def)
  then have "TIME_LESS_THAN now (fst e) \<longleftrightarrow> 0x40000000 < key now (fst e)" using less_than_key [of now now "fst e"] by simp
  then show ?case using Cons.IH [OF ordered_tl [OF Cons.prems]] by (simp add: runs_left_def)
qed simp

lemma runs_of_le: "ordered now es \<Longrightarrow> runs_of c now es \<le> 2 * length [e\<leftarrow>es. \<not> TIME_LESS_THAN now (fst e) \<and> timer_call e = c]"
proof (induction es)
  case (Cons e es)
  have "key now (fst e) < 0x80000000" using Cons.prems by (simp add: ordered_def)
  then have "TIME_LESS_THAN now (fst e) \<longleftrightarrow> 0x40000000 < key now (fst e)" using less_than_key [of now now "fst e"] by simp
  then show ?case using Cons.IH [OF ordered_tl [OF Cons.prems]] by (simp add: runs_left_def)
qed simp

lemma ordered_rm:
  assumes "ordered now es"
  shows "ordered now (rm_timer h arg es)"
proof -
  have s: "set (rm_by N es) \<subseteq> set es" for N
    by (auto simp: rm_by_def dest: set_takeWhileD set_dropWhileD list.set_sel(2) [rotated]) (metis list.set_sel(2) set_dropWhileD tl_Nil)
  have "sorted (map f (rm_by N es))" if "sorted (map f es)" for f :: "timer \<Rightarrow> nat" and N
  proof -
    have "sorted (map f (takeWhile N es) @ map f (dropWhile N es))" using that by (simp flip: map_append)
    moreover have "sorted (map f (as @ tl bs))" if "sorted (map f as @ map f bs)" for as bs
      using that by (cases bs) (simp_all add: sorted_append)
    ultimately show ?thesis unfolding rm_by_def by blast
  qed
  then show ?thesis using assms s unfolding ordered_def rm_timer_def by blast
qed

text \<open>
  Starting and stopping a timer, on a list in the order of the deadlines as seen from the current time, when the pool has a structure left. The new
  timer goes behind all with the same or an earlier deadline, even where the clock wraps around in between; stopping
  removes the first entry with that handler and argument. The list stays in order and no structure is lost.
\<close>

theorem timer_list_in_order:
  assumes "armed s es" "ordered (sys_now s) es" "msecs \<le> 0x3FFFFFFF" "0 < timer_space s"
  shows "(\<exists>s'. sys_timeout msecs h arg s = Some s' \<and> armed s' (ins_timer (sys_now s + msecs, h, arg) es)
      \<and> ordered (sys_now s) (ins_timer (sys_now s + msecs, h, arg) es) \<and> timer_space s' + 1 = timer_space s)
    \<and> (\<exists>s'. sys_untimeout h arg s = Some s' \<and> armed s' (rm_timer h arg es) \<and> ordered (sys_now s) (rm_timer h arg es)
      \<and> timer_space s' + length (rm_timer h arg es) = timer_space s + length es)"
proof
  obtain a fl where p: "memp_tab s MEMP_SYS_TIMEOUT = a # fl"
    using assms(4) by (cases "memp_tab s MEMP_SYS_TIMEOUT") (auto simp: timer_space_def)
  have m: "unat msecs \<le> 0x3FFFFFFF" using assms(3) by (simp add: word_le_nat_alt)
  then have "key (sys_now s) (sys_now s + msecs) < 0x80000000" by (simp add: key_add)
  then have "ordered (sys_now s) (ins_timer (sys_now s + msecs, h, arg) es)" using assms(2) by (intro sorted_ins_timer) simp_all
  then show "\<exists>s'. sys_timeout msecs h arg s = Some s' \<and> armed s' (ins_timer (sys_now s + msecs, h, arg) es)
      \<and> ordered (sys_now s) (ins_timer (sys_now s + msecs, h, arg) es) \<and> timer_space s' + 1 = timer_space s"
    using timeout_armed [OF assms(1) p assms(3), of h arg] by (auto simp: sys_now_def timer_space_def p)
  show "\<exists>s'. sys_untimeout h arg s = Some s' \<and> armed s' (rm_timer h arg es) \<and> ordered (sys_now s) (rm_timer h arg es)
      \<and> timer_space s' + length (rm_timer h arg es) = timer_space s + length es"
    using untimeout_armed [OF assms(1), of h arg] ordered_rm [OF assms(2), of h arg] by blast
qed

text \<open>A stack with room for eight timers and a clock about to wrap around, with the functions of the protocols only recorded.\<close>

definition example_timers :: "cyclic_fn list timers_scheme" where
  "example_timers = \<lparr>sys_val = 0xFFFFFFFF, sys_cell = (\<lambda>_. 0), lmem = (\<lambda>_. 0), memp_tab = (\<lambda>_. [4, 8, 12, 16, 20, 24, 28, 32]), ltr = [],
     pbufs = (\<lambda>_. \<lparr>pb_next = 0, pb_payload = 0, pb_tot_len = 0, pb_len = 0, pb_type_internal = 0, pb_flags = 0, pb_ref = 0, pb_if_idx = 0\<rparr>),
     pbuf_free_ooseq_pending = 0, tcpip_msgs = (\<lambda>_. \<lparr>msg_type = TCPIP_MSG_CALLBACK, msg_function = pbuf_free_ooseq_callback, msg_ctx = 0\<rparr>),
     next_timeout = 0, current_timeout_due_time = 0, tcpip_tcp_timer_active = False,
     timeos = (\<lambda>_. \<lparr>to_next = 0, to_time = 0, to_h = No_handler, to_arg = Arg_null\<rparr>), \<dots> = []\<rparr>"

definition example_fns :: "cyclic_fn list timer_fns" where
  "example_fns = \<lparr>cyclic_call = (\<lambda>f s. timers.more_update (\<lambda>l. l @ [f]) s), tcp_pcbs = (\<lambda>_. False), other_call = (\<lambda>_ _ s. s)\<rparr>"

lemma example_timers_ok: "armed example_timers []" "timer_space example_timers = 8" "own_state example_fns id"
  by (simp_all add: armed_def example_timers_def timer_space_def pool_ok_def own_state_def example_fns_def)

theorem timer_list_in_order_witness:
  "\<exists>s'. sys_timeout 100 Tcpip_tcp_timer Arg_null example_timers = Some s' \<and> armed s' [(99, Tcpip_tcp_timer, Arg_null)]"
proof -
  have "ordered (sys_now example_timers) []" by (simp add: ordered_def)
  moreover have "sys_now example_timers + 100 = 99" by (simp add: sys_now_def example_timers_def)
  ultimately show ?thesis
    using timer_list_in_order [OF example_timers_ok(1), of 100 Tcpip_tcp_timer Arg_null] example_timers_ok(2)
    by (simp only: ins_timer_simps) auto
qed

text \<open>
  C26. Checking the timers always returns. Exactly the functions of the timers that were due at the start have been called, and each
  function at most twice for every due timer that carries it, however late that timer was; the periodic ones are armed again; all deadlines left are in the future and in order.
\<close>

theorem check_timeouts_serves:
  assumes "own_state K obs" "timers_ok s es"
  shows "\<exists>s' es' fs. sys_check_timeouts K s = Some s' \<and> timers_ok s' es' \<and> all_ahead s' es' \<and> cyclic_part es' = cyclic_part es
    \<and> obs (timers.more s') = obs (timers.more s) @ fs \<and> set fs = due_calls (sys_now s) es
    \<and> length fs \<le> 2 * length [e\<leftarrow>es. \<not> TIME_LESS_THAN (sys_now s) (fst e)]
    \<and> (\<forall>c. count_list fs c \<le> 2 * length [e\<leftarrow>es. \<not> TIME_LESS_THAN (sys_now s) (fst e) \<and> timer_call e = c])"
proof -
  let ?now = "sys_val s"
  have o: "armed s es" "ordered ?now es" "\<forall>x\<in>set es. own_timer x" "soon ?now es" using assms(2) by (simp_all add: timers_ok_def)
  from check_loop_runs [OF assms(1) o(1-3) refl o(4)] obtain s' es' fs where
    r: "check_timeouts_loop K ?now s = Some s'" "armed s' es'" "ordered ?now es'" "soon ?now es'" "sys_val s' = ?now"
      "\<forall>e\<in>set es'. TIME_LESS_THAN ?now (fst e) \<and> own_timer e" "cyclic_part es' = cyclic_part es"
      "obs (timers.more s') = obs (timers.more s) @ fs" "set fs = due_calls ?now es"
    and c: "length fs \<le> total_runs ?now es" "\<forall>c. count_list fs c \<le> runs_of c ?now es" by blast
  have "length fs \<le> 2 * length [e\<leftarrow>es. \<not> TIME_LESS_THAN ?now (fst e)]"
    using c(1) total_runs_le [OF o(2)] by (rule order.trans)
  moreover have "count_list fs c \<le> 2 * length [e\<leftarrow>es. \<not> TIME_LESS_THAN ?now (fst e) \<and> timer_call e = c]" for c
    using c(2) runs_of_le [OF o(2)] by (blast intro: order.trans)
  ultimately show ?thesis
    using r unfolding sys_check_timeouts_def sys_now_def timers_ok_def all_ahead_def
    by (intro exI [of _ s'] exI [of _ es'] exI [of _ fs]) simp
qed

lemma example_armed:
  "\<exists>s' es'. sys_timeouts_init example_timers = Some s' \<and> timers_ok s' es' \<and> all_ahead s' es' \<and> cyclic_part es' = stack_timers"
  using init_arms [OF example_timers_ok(1)] example_timers_ok(2) by simp

theorem check_timeouts_serves_witness:
  "\<exists>s s' es. sys_timeouts_init example_timers = Some s \<and> sys_check_timeouts example_fns (sys_now_inc 60000 s) = Some s'
     \<and> timers_ok s' es \<and> cyclic_part es = stack_timers"
proof -
  from example_armed obtain s es where
    s: "sys_timeouts_init example_timers = Some s" "timers_ok s es" "all_ahead s es" "cyclic_part es = stack_timers" by blast
  have "timers_ok (sys_now_inc 60000 s) es" using s(2,3) by (rule later_ok) simp
  from check_timeouts_serves [OF example_timers_ok(3) this] s(1,4) show ?thesis by metis
qed

text \<open>The clock advances and the timers are checked, again and again.\<close>

primrec run_clock :: "'a timer_fns \<Rightarrow> u32 list \<Rightarrow> 'a timers_scheme \<Rightarrow> 'a timers_scheme option" where
  "run_clock K [] s = Some s"
| "run_clock K (amt # amts) s = Option.bind (sys_check_timeouts K (sys_now_inc amt s)) (run_clock K amts)"

lemma check_later:
  assumes "own_state K obs" "timers_ok s es" "all_ahead s es" "amt \<le> 0x40000000"
  shows "\<exists>s' es'. sys_check_timeouts K (sys_now_inc amt s) = Some s' \<and> timers_ok s' es' \<and> all_ahead s' es' \<and> cyclic_part es' = cyclic_part es"
proof -
  have "timers_ok (sys_now_inc amt s) es" using assms(2-4) by (rule later_ok)
  then have "armed (sys_now_inc amt s) es" "ordered (sys_val (sys_now_inc amt s)) es" "\<forall>x\<in>set es. own_timer x"
    "soon (sys_val (sys_now_inc amt s)) es" by (simp_all add: timers_ok_def)
  from check_loop_runs [OF assms(1) this(1-3) refl this(4)] show ?thesis
    unfolding sys_check_timeouts_def sys_now_def timers_ok_def all_ahead_def by fastforce
qed

text \<open>
  C14. From the initialisation on, when the clock advances between two checks by at most 0x40000000 milliseconds, also
  across its wrap-around, and the functions of the protocols leave the timers to themselves (\<open>own_state\<close>), every check returns and afterwards the seven periodic timers of the
  stack are armed, each exactly once and due in the future, within a minute.
\<close>

theorem timers_survive:
  assumes "own_state K obs" "armed s []" "7 \<le> timer_space s" "\<forall>amt\<in>set amts. amt \<le> 0x40000000"
  shows "\<exists>s' es. Option.bind (sys_timeouts_init s) (run_clock K amts) = Some s' \<and> timers_ok s' es \<and> all_ahead s' es
    \<and> cyclic_part es = stack_timers"
proof -
  have r: "\<exists>s' es'. run_clock K amts s = Some s' \<and> timers_ok s' es' \<and> all_ahead s' es' \<and> cyclic_part es' = cyclic_part es"
    if "timers_ok s es" "all_ahead s es" for s es
    using that assms(4)
  proof (induction amts arbitrary: s es)
    case (Cons amt amts)
    then have "amt \<le> 0x40000000" "\<forall>amt\<in>set amts. amt \<le> 0x40000000" by simp_all
    from check_later [OF assms(1) Cons.prems(1,2) this(1)] obtain s1 es1 where
      "sys_check_timeouts K (sys_now_inc amt s) = Some s1" "timers_ok s1 es1" "all_ahead s1 es1" "cyclic_part es1 = cyclic_part es" by blast
    then show ?case using Cons.IH [of s1 es1] \<open>\<forall>amt\<in>set amts. amt \<le> 0x40000000\<close> by simp
  qed auto
  from init_arms [OF assms(2,3)] r show ?thesis by fastforce
qed

theorem timers_survive_witness:
  "\<exists>s' es. Option.bind (sys_timeouts_init example_timers) (run_clock example_fns [50, 0x40000000, 7]) = Some s'
     \<and> cyclic_part es = stack_timers \<and> armed s' es"
  using timers_survive [OF example_timers_ok(3,1), of "[50, 0x40000000, 7]"] example_timers_ok(2) by (auto simp: timers_ok_def)

end
