(* ===== verification/Tcpip.thy ===== *)
theory Tcpip
  imports Timeouts
begin

text \<open>
  The messages of the network stack, \<^verbatim>\<open>arm_host/source/lwip/api/tcpip.c\<close>. The library starts no thread for the stack: the host polls the mailbox in
  its tick. What is outside this part is the parameter \<open>E\<close>: the timer functions, the addresses of the
  static variables, the processor mode, the interrupts that may come while the lock is awaited, the release of out-of-order segments in
  TCP, and the functions of callers that the mailbox can carry.
\<close>

subsection \<open>The code\<close>

record 'a tcpip_env =
  timer_env :: "'a timer_fns"
  lw_env :: lw
  lock_tcpip_core :: u32
  env_cpsr :: u32
  env_irq :: "'a timers_scheme \<Rightarrow> 'a timers_scheme"
  free_ooseq_segments :: "'a timers_scheme \<Rightarrow> 'a timers_scheme"
  user_callback :: "u32 \<Rightarrow> u32 \<Rightarrow> 'a timers_scheme \<Rightarrow> 'a timers_scheme"

definition LOCK_TCPIP_CORE :: "'a tcpip_env \<Rightarrow> 'a timers_scheme \<Rightarrow> 'a timers_scheme option" where
  "LOCK_TCPIP_CORE E s = sys_mutex_lock (env_irq E) (env_cpsr E) (lock_tcpip_core E) s"

definition UNLOCK_TCPIP_CORE :: "'a tcpip_env \<Rightarrow> 'a timers_scheme \<Rightarrow> 'a timers_scheme" where
  "UNLOCK_TCPIP_CORE E s = sys_mutex_unlock (lock_tcpip_core E) s"

definition pbuf_free_ooseq :: "'a tcpip_env \<Rightarrow> 'a timers_scheme \<Rightarrow> 'a timers_scheme" where
  "pbuf_free_ooseq E s = free_ooseq_segments E (s\<lparr>pbuf_free_ooseq_pending := 0\<rparr>)"

primrec call_function :: "'a tcpip_env \<Rightarrow> tcpip_callback_fn \<Rightarrow> u32 \<Rightarrow> 'a timers_scheme \<Rightarrow> 'a timers_scheme" where
  "call_function E pbuf_free_ooseq_callback ctx s = pbuf_free_ooseq E s"
| "call_function E pbuf_free_int ctx s = snd (pbuf_free ctx s)"
| "call_function E mem_free_int ctx s = mem_free ctx s"
| "call_function E (Callback f) ctx s = user_callback E f ctx s"

definition tcpip_thread_handle_msg :: "'a tcpip_env \<Rightarrow> u32 \<Rightarrow> 'a timers_scheme \<Rightarrow> 'a timers_scheme" where
  "tcpip_thread_handle_msg E msg s =
    (let m = tcpip_msgs s msg in
     case msg_type m of
       TCPIP_MSG_CALLBACK \<Rightarrow> memp_free MEMP_TCPIP_MSG_API msg (call_function E (msg_function m) (msg_ctx m) s)
     | TCPIP_MSG_CALLBACK_STATIC \<Rightarrow> call_function E (msg_function m) (msg_ctx m) s
     | _ \<Rightarrow> LWIP_ASSERT ''tcpip_thread: invalid message'' False s)"

definition tcpip_thread_poll_one :: "'a tcpip_env \<Rightarrow> 'a timers_scheme \<Rightarrow> (int \<times> 'a timers_scheme) option" where
  "tcpip_thread_poll_one E s =
    (let (r, m, s) = sys_arch_mbox_tryfetch (tcpip_mbox (lw_env E)) s in
     if r \<noteq> SYS_MBOX_EMPTY then do {
       s \<leftarrow> LOCK_TCPIP_CORE E s;
       let (ret, s) = (case m of Some msg \<Rightarrow> if msg \<noteq> 0 then (1, tcpip_thread_handle_msg E msg s) else (0, s) | None \<Rightarrow> (0, s));
       Some (ret, UNLOCK_TCPIP_CORE E s) }
     else Some (0, s))"

definition tcpip_inpkt ::
  "'a tcpip_env \<Rightarrow> u32 \<Rightarrow> (u32 \<Rightarrow> 'a timers_scheme \<Rightarrow> err_t \<times> 'a timers_scheme) \<Rightarrow> 'a timers_scheme \<Rightarrow> (err_t \<times> 'a timers_scheme) option" where
  "tcpip_inpkt E p input_fn s = do {
     s \<leftarrow> LOCK_TCPIP_CORE E s;
     let (ret, s) = input_fn p s;
     Some (ret, UNLOCK_TCPIP_CORE E s) }"

text \<open>\<^verbatim>\<open>flags\<close> are those of the interface, with the ARP bit 0x08 and the Ethernet bit 0x10.\<close>

definition tcpip_input ::
  "'a tcpip_env \<Rightarrow> u32 \<Rightarrow> u8 \<Rightarrow> (u32 \<Rightarrow> 'a timers_scheme \<Rightarrow> err_t \<times> 'a timers_scheme) \<Rightarrow> (u32 \<Rightarrow> 'a timers_scheme \<Rightarrow> err_t \<times> 'a timers_scheme)
     \<Rightarrow> 'a timers_scheme \<Rightarrow> (err_t \<times> 'a timers_scheme) option" where
  "tcpip_input E p flags ethernet_input ip_input s =
    (if flags AND (0x08 OR 0x10) \<noteq> 0 then tcpip_inpkt E p ethernet_input s else tcpip_inpkt E p ip_input s)"

definition new_message :: "tcpip_msg_type \<Rightarrow> tcpip_callback_fn \<Rightarrow> u32 \<Rightarrow> u32 \<Rightarrow> 'a stack_scheme \<Rightarrow> 'a stack_scheme" where
  "new_message ty f ctx msg s = s\<lparr>tcpip_msgs := (tcpip_msgs s)(msg := \<lparr>msg_type = ty, msg_function = f, msg_ctx = ctx\<rparr>)\<rparr>"

definition tcpip_callback :: "'a tcpip_env \<Rightarrow> tcpip_callback_fn \<Rightarrow> u32 \<Rightarrow> 'a timers_scheme \<Rightarrow> (err_t \<times> 'a timers_scheme) option" where
  "tcpip_callback E f ctx s =
    (let s = LWIP_ASSERT ''Invalid mbox'' (sys_mbox_valid (tcpip_mbox (lw_env E)) s) s;
         (msg, s) = memp_malloc MEMP_TCPIP_MSG_API s in
     if msg = 0 then Some (ERR_MEM, s)
     else do {
       s \<leftarrow> sys_mbox_post (env_irq E) (tcpip_mbox (lw_env E)) msg (new_message TCPIP_MSG_CALLBACK f ctx msg s);
       Some (ERR_OK, s) })"

definition tcpip_send_msg_wait_sem ::
  "'a tcpip_env \<Rightarrow> tcpip_callback_fn \<Rightarrow> u32 \<Rightarrow> 'a timers_scheme \<Rightarrow> (err_t \<times> 'a timers_scheme) option" where
  "tcpip_send_msg_wait_sem E f apimsg s = do {
     s \<leftarrow> LOCK_TCPIP_CORE E s;
     Some (ERR_OK, UNLOCK_TCPIP_CORE E (call_function E f apimsg s)) }"

definition tcpip_api_call ::
  "'a tcpip_env \<Rightarrow> (u32 \<Rightarrow> 'a timers_scheme \<Rightarrow> err_t \<times> 'a timers_scheme) \<Rightarrow> u32 \<Rightarrow> 'a timers_scheme \<Rightarrow> (err_t \<times> 'a timers_scheme) option" where
  "tcpip_api_call E f call s = do {
     s \<leftarrow> LOCK_TCPIP_CORE E s;
     let (err, s) = f call s;
     Some (err, UNLOCK_TCPIP_CORE E s) }"

definition tcpip_callbackmsg_new :: "tcpip_callback_fn \<Rightarrow> u32 \<Rightarrow> 'a timers_scheme \<Rightarrow> u32 \<times> 'a timers_scheme" where
  "tcpip_callbackmsg_new f ctx s =
    (let (msg, s) = memp_malloc MEMP_TCPIP_MSG_API s in
     if msg = 0 then (0, s) else (msg, new_message TCPIP_MSG_CALLBACK_STATIC f ctx msg s))"

definition tcpip_callbackmsg_delete :: "u32 \<Rightarrow> 'a timers_scheme \<Rightarrow> 'a timers_scheme" where
  "tcpip_callbackmsg_delete msg s = memp_free MEMP_TCPIP_MSG_API msg s"

definition tcpip_callbackmsg_trycallback :: "'a tcpip_env \<Rightarrow> u32 \<Rightarrow> 'a timers_scheme \<Rightarrow> err_t \<times> 'a timers_scheme" where
  "tcpip_callbackmsg_trycallback E msg s =
    (let s = LWIP_ASSERT ''Invalid mbox'' (sys_mbox_valid (tcpip_mbox (lw_env E)) s) s
     in sys_mbox_trypost (tcpip_mbox (lw_env E)) msg s)"

definition tcpip_callbackmsg_trycallback_fromisr :: "'a tcpip_env \<Rightarrow> u32 \<Rightarrow> 'a timers_scheme \<Rightarrow> err_t \<times> 'a timers_scheme" where
  "tcpip_callbackmsg_trycallback_fromisr E msg s =
    (let s = LWIP_ASSERT ''Invalid mbox'' (sys_mbox_valid (tcpip_mbox (lw_env E)) s) s
     in sys_mbox_trypost_fromisr (tcpip_mbox (lw_env E)) msg s)"

definition tcpip_callback_wait :: "'a tcpip_env \<Rightarrow> tcpip_callback_fn \<Rightarrow> u32 \<Rightarrow> 'a timers_scheme \<Rightarrow> (err_t \<times> 'a timers_scheme) option" where
  "tcpip_callback_wait E f ctx s = do {
     s \<leftarrow> LOCK_TCPIP_CORE E s;
     Some (ERR_OK, UNLOCK_TCPIP_CORE E (call_function E f ctx s)) }"

text \<open>The initialisation of the rest of the stack and the function of the caller are arguments.\<close>

definition tcpip_init ::
  "'a tcpip_env \<Rightarrow> ('a timers_scheme \<Rightarrow> 'a timers_scheme) \<Rightarrow> ('a timers_scheme \<Rightarrow> 'a timers_scheme) option \<Rightarrow> 'a timers_scheme
     \<Rightarrow> 'a timers_scheme option" where
  "tcpip_init E lwip_init initfunc s =
    (let s = lwip_init s;
         (e, s) = sys_mbox_new (tcpip_mbox (lw_env E)) 0 s;
         s = LWIP_ASSERT ''failed to create tcpip_thread mbox'' (e = ERR_OK) s;
         (e, s) = sys_mutex_new (lock_tcpip_core E) s;
         s = LWIP_ASSERT ''failed to create lock_tcpip_core'' (e = ERR_OK) s
     in do {
       s \<leftarrow> LOCK_TCPIP_CORE E s;
       Some (case initfunc of None \<Rightarrow> s | Some f \<Rightarrow> f s) })"

definition pbuf_free_callback :: "'a tcpip_env \<Rightarrow> u32 \<Rightarrow> 'a timers_scheme \<Rightarrow> err_t \<times> 'a timers_scheme" where
  "pbuf_free_callback E p s = tcpip_try_callback (lw_env E) pbuf_free_int p s"

definition mem_free_callback :: "'a tcpip_env \<Rightarrow> u32 \<Rightarrow> 'a timers_scheme \<Rightarrow> err_t \<times> 'a timers_scheme" where
  "mem_free_callback E m s = tcpip_try_callback (lw_env E) mem_free_int m s"

text \<open>What the host does in each tick once the stack is initialised.\<close>

definition lwip_tick :: "'a tcpip_env \<Rightarrow> 'a timers_scheme \<Rightarrow> 'a timers_scheme option" where
  "lwip_tick E s = do {
     s \<leftarrow> sys_check_timeouts (timer_env E) s;
     (ret, s) \<leftarrow> tcpip_thread_poll_one E s;
     Some s }"

subsection \<open>Callbacks\<close>

lemma lock_free:
  assumes "lock_tcpip_core E \<noteq> 0" "sys_cell s (lock_tcpip_core E) = MTX_FREE \<or> sys_cell s (lock_tcpip_core E) = 0"
  shows "LOCK_TCPIP_CORE E s = Some (put_cell (lock_tcpip_core E) MTX_LOCKED s)"
  using assms by (auto simp: LOCK_TCPIP_CORE_def sys_mutex_lock_def Let_def wait_for_now put_cell_def)

text \<open>A lock that no interrupt releases is awaited forever.\<close>

lemma wait_for_reaches: "wait_for irq c s = Some t \<Longrightarrow> \<exists>n. t = (irq ^^ n) s \<and> c t"
proof (induction rule: wait_for.raw_induct [rotated 1, consumes 1, case_names step])
  case (step f irq c s t)
  show ?case
  proof (cases "c s")
    case True
    then show ?thesis using step by (intro exI [of _ 0]) simp
  next
    case False
    then obtain n where "t = (irq ^^ n) (irq s)" "c t" using step by fastforce
    then show ?thesis by (intro exI [of _ "Suc n"]) (simp add: funpow_Suc_right del: funpow.simps)
  qed
qed

lemma wait_for_never: "(\<And>n. \<not> c ((irq ^^ n) s)) \<Longrightarrow> wait_for irq c s = None"
  using wait_for_reaches [of irq c s] by (cases "wait_for irq c s") auto

lemma lock_held:
  assumes "in_thread (env_cpsr E)" "lock_tcpip_core E \<noteq> 0" "\<And>n. sys_cell ((env_irq E ^^ n) s) (lock_tcpip_core E) = MTX_LOCKED"
  shows "LOCK_TCPIP_CORE E s = None"
proof -
  have "sys_cell s (lock_tcpip_core E) \<noteq> 0" using assms(3) [of 0] by simp
  moreover have "wait_for (env_irq E) (\<lambda>s. sys_cell s (lock_tcpip_core E) = MTX_FREE) s = None"
    using assms(3) by (intro wait_for_never) simp
  ultimately show ?thesis using assms(1,2) by (simp add: LOCK_TCPIP_CORE_def sys_mutex_lock_def Let_def)
qed

text \<open>The state in which the function of a message runs.\<close>

definition during_call :: "'a tcpip_env \<Rightarrow> tcpip_callback_fn \<Rightarrow> u32 \<Rightarrow> 'a timers_scheme \<Rightarrow> 'a timers_scheme" where
  "during_call E f ctx s = put_cell (lock_tcpip_core E) MTX_LOCKED
     (new_message TCPIP_MSG_CALLBACK f ctx (hd (memp_tab s MEMP_TCPIP_MSG_API))
       (s\<lparr>memp_tab := (memp_tab s)(MEMP_TCPIP_MSG_API := tl (memp_tab s MEMP_TCPIP_MSG_API))\<rparr>))"

text \<open>The mailbox of the stack is empty, its lock is free, and the pool of messages is in order.\<close>

definition idle :: "'a tcpip_env \<Rightarrow> 'a timers_scheme \<Rightarrow> bool" where
  "idle E s \<longleftrightarrow> tcpip_mbox (lw_env E) \<noteq> 0 \<and> lock_tcpip_core E \<noteq> 0 \<and> lock_tcpip_core E \<noteq> tcpip_mbox (lw_env E)
     \<and> sys_cell s (tcpip_mbox (lw_env E)) = MBOX_VAL_EMPTY \<and> sys_cell s (lock_tcpip_core E) = MTX_FREE
     \<and> pool_ok (memp_tab s MEMP_TCPIP_MSG_API) \<and> (\<forall>m\<in>set (memp_tab s MEMP_TCPIP_MSG_API). is_message m)"

lemma post_callback:
  assumes "idle E s" "memp_tab s MEMP_TCPIP_MSG_API = m # fl"
  shows "tcpip_try_callback (lw_env E) f ctx s = (ERR_OK, put_cell (tcpip_mbox (lw_env E)) m
    (new_message TCPIP_MSG_CALLBACK f ctx m (s\<lparr>memp_tab := (memp_tab s)(MEMP_TCPIP_MSG_API := fl)\<rparr>)))"
  using assms malloc_pool [OF assms(2)]
  by (simp add: idle_def pool_ok_def tcpip_try_callback_def LWIP_ASSERT_def sys_mbox_valid_def sys_mbox_trypost_def new_message_def)

lemma poll_message:
  assumes "lock_tcpip_core E \<noteq> 0" "sys_cell s (lock_tcpip_core E) = MTX_FREE" "lock_tcpip_core E \<noteq> tcpip_mbox (lw_env E)"
    and "tcpip_mbox (lw_env E) \<noteq> 0" "sys_cell s (tcpip_mbox (lw_env E)) = m" "is_message m" "m \<noteq> 0"
  shows "tcpip_thread_poll_one E s = Some (1, UNLOCK_TCPIP_CORE E (tcpip_thread_handle_msg E m
    (put_cell (lock_tcpip_core E) MTX_LOCKED (put_cell (tcpip_mbox (lw_env E)) MBOX_VAL_EMPTY s))))"
  using assms by (simp add: tcpip_thread_poll_one_def sys_arch_mbox_tryfetch_def is_message_def lock_free)

text \<open>
  C27. A function handed to the stack while it is idle and has a message structure left: the request is accepted, and the next
  poll of the host calls the function once, with its argument and under the lock, gives the structure back and releases the lock. A second
  request before that poll is refused and leaves the mailbox and the pool as they are.
\<close>

theorem callback_runs_once:
  assumes "idle E s" "memp_tab s MEMP_TCPIP_MSG_API \<noteq> []"
  shows "\<exists>s1. tcpip_try_callback (lw_env E) f ctx s = (ERR_OK, s1)
    \<and> tcpip_thread_poll_one E s1 = Some (1, UNLOCK_TCPIP_CORE E (memp_free MEMP_TCPIP_MSG_API (hd (memp_tab s MEMP_TCPIP_MSG_API))
         (call_function E f ctx (during_call E f ctx s))))
    \<and> (\<exists>s2. tcpip_try_callback (lw_env E) f' ctx' s1 = (ERR_MEM, s2) \<and> sys_cell s2 = sys_cell s1 \<and> memp_tab s2 = memp_tab s1)"
proof -
  obtain m fl where p: "memp_tab s MEMP_TCPIP_MSG_API = m # fl" using assms(2) by (cases "memp_tab s MEMP_TCPIP_MSG_API") auto
  let ?b = "tcpip_mbox (lw_env E)" and ?l = "lock_tcpip_core E"
  define s1 where "s1 = put_cell ?b m (new_message TCPIP_MSG_CALLBACK f ctx m (s\<lparr>memp_tab := (memp_tab s)(MEMP_TCPIP_MSG_API := fl)\<rparr>))"
  have i: "?b \<noteq> 0" "?l \<noteq> 0" "?l \<noteq> ?b" "sys_cell s ?b = MBOX_VAL_EMPTY" "sys_cell s ?l = MTX_FREE" "m \<noteq> 0" "is_message m"
    using assms(1) p by (auto simp: idle_def pool_ok_def)
  have c: "sys_cell s1 = (sys_cell s)(?b := m)" by (simp add: s1_def put_cell_def new_message_def)
  have "put_cell ?l MTX_LOCKED (put_cell ?b MBOX_VAL_EMPTY s1) = during_call E f ctx s"
    using i by (simp add: s1_def put_cell_def new_message_def during_call_def p fun_upd_twist fun_upd_idem)
  moreover have "tcpip_msgs (during_call E f ctx s) m = \<lparr>msg_type = TCPIP_MSG_CALLBACK, msg_function = f, msg_ctx = ctx\<rparr>"
    by (simp add: during_call_def p put_cell_def new_message_def)
  ultimately have "tcpip_thread_poll_one E s1 = Some (1, UNLOCK_TCPIP_CORE E (memp_free MEMP_TCPIP_MSG_API m
         (call_function E f ctx (during_call E f ctx s))))"
    using poll_message [of E s1 m] i c by (simp add: tcpip_thread_handle_msg_def)
  moreover have "\<exists>s2. tcpip_try_callback (lw_env E) f' ctx' s1 = (ERR_MEM, s2) \<and> sys_cell s2 = sys_cell s1 \<and> memp_tab s2 = memp_tab s1"
  proof (cases fl)
    case Nil
    then have "memp_tab s1 MEMP_TCPIP_MSG_API = []" by (simp add: s1_def put_cell_def new_message_def)
    then show ?thesis using c i by (simp add: tcpip_try_callback_def memp_malloc_def do_memp_malloc_pool_def LWIP_ASSERT_def)
  next
    case (Cons x xs)
    then have x: "memp_tab s1 MEMP_TCPIP_MSG_API = x # xs" by (simp add: s1_def put_cell_def new_message_def)
    have "x \<noteq> 0" "x mod 4 = 0" using assms(1) p Cons by (auto simp: idle_def pool_ok_def)
    then show ?thesis
      using c i malloc_pool [OF x] unfolding tcpip_try_callback_def
      by (simp add: LWIP_ASSERT_def sys_mbox_valid_def is_message_def sys_mbox_trypost_def memp_free_def do_memp_free_pool_def fun_upd_idem x)
  qed
  ultimately show ?thesis using post_callback [OF assms(1) p, of f ctx] by (simp add: s1_def p)
qed

text \<open>A mailbox at 0x100, a lock at 0x104, and functions of callers that leave their argument in a variable.\<close>

definition example_env :: "cyclic_fn list tcpip_env" where
  "example_env = \<lparr>timer_env = example_fns,
     lw_env = \<lparr>memp_pools = (\<lambda>t. \<lparr>desc_size = 20, desc_num = 8, desc_base = 0x1000\<rparr>), mem_clib_malloc = (\<lambda>_ _. 0), tcpip_mbox = 0x100\<rparr>,
     lock_tcpip_core = 0x104, env_cpsr = 0x1F, env_irq = (\<lambda>s. s), free_ooseq_segments = (\<lambda>s. s),
     user_callback = (\<lambda>f ctx s. s\<lparr>current_timeout_due_time := ctx\<rparr>)\<rparr>"

definition example_idle :: "cyclic_fn list timers_scheme" where
  "example_idle = example_timers\<lparr>sys_cell := (\<lambda>_. 0)(0x100 := MBOX_VAL_EMPTY, 0x104 := MTX_FREE)\<rparr>"

theorem callback_runs_once_witness:
  "\<exists>s1 s2. tcpip_try_callback (lw_env example_env) (Callback 5) 77 example_idle = (ERR_OK, s1)
     \<and> tcpip_thread_poll_one example_env s1 = Some (1, s2) \<and> current_timeout_due_time s2 = 77"
proof -
  have "idle example_env example_idle" "memp_tab example_idle MEMP_TCPIP_MSG_API \<noteq> []"
    by (simp_all add: idle_def example_env_def example_idle_def example_timers_def pool_ok_def is_message_def)
  from callback_runs_once [OF this, of "Callback 5" 77 pbuf_free_int 0] obtain s1 s2 where
    "tcpip_try_callback (lw_env example_env) (Callback 5) 77 example_idle = (ERR_OK, s1)"
    "tcpip_thread_poll_one example_env s1 = Some (1, s2)"
    "s2 = UNLOCK_TCPIP_CORE example_env (memp_free MEMP_TCPIP_MSG_API (hd (memp_tab example_idle MEMP_TCPIP_MSG_API))
      (call_function example_env (Callback 5) 77 (during_call example_env (Callback 5) 77 example_idle)))" by blast
  moreover from this(3) have "current_timeout_due_time s2 = 77"
    by (simp add: UNLOCK_TCPIP_CORE_def sys_mutex_unlock_def put_cell_def example_env_def)
  ultimately show ?thesis by blast
qed

subsection \<open>Initialisation\<close>

lemma try_callback_refused:
  assumes "sys_cell s (tcpip_mbox L) \<noteq> MBOX_VAL_EMPTY"
  shows "fst (tcpip_try_callback L f ctx s) = ERR_MEM"
proof -
  have "sys_cell (snd (memp_malloc t (LWIP_ASSERT m c s))) = sys_cell s" for t m c
    by (auto simp: memp_malloc_def do_memp_malloc_pool_def LWIP_ASSERT_def split: list.splits)
  then show ?thesis using assms by (simp add: tcpip_try_callback_def Let_def split_beta sys_mbox_trypost_def)
qed

lemma post_stuck:
  assumes "p \<noteq> 0" "sys_cell s p \<noteq> MBOX_VAL_INVALID" "sys_cell s p \<noteq> MBOX_VAL_EMPTY" "\<And>t. sys_cell (irq t) p = sys_cell t p"
  shows "sys_mbox_post irq p msg s = None"
proof -
  have "sys_cell ((irq ^^ n) s) p = sys_cell s p" for n by (induction n) (simp_all add: assms(4))
  then have "wait_for irq (\<lambda>s. sys_cell s p = MBOX_VAL_EMPTY) s = None" using assms(3) by (intro wait_for_never) simp
  then show ?thesis using assms(1,2) by (simp add: sys_mbox_post_def)
qed

lemma callback_stuck:
  assumes "tcpip_mbox (lw_env E) \<noteq> 0" "sys_cell s (tcpip_mbox (lw_env E)) = 0" "fst (memp_malloc MEMP_TCPIP_MSG_API s) \<noteq> 0"
    and "\<And>t. sys_cell (env_irq E t) (tcpip_mbox (lw_env E)) = sys_cell t (tcpip_mbox (lw_env E))"
  shows "tcpip_callback E f ctx s = None"
proof -
  let ?r = "\<lambda>b. memp_malloc MEMP_TCPIP_MSG_API (LWIP_ASSERT ''Invalid mbox'' b s)"
  have r: "fst (?r b) = fst (memp_malloc MEMP_TCPIP_MSG_API s)" "sys_cell (snd (?r b)) = sys_cell s" for b
    by (auto simp: memp_malloc_def do_memp_malloc_pool_def LWIP_ASSERT_def split: list.splits)
  have "sys_mbox_post (env_irq E) (tcpip_mbox (lw_env E)) m (new_message TCPIP_MSG_CALLBACK f ctx m (snd (?r b))) = None" for m b
    using assms(1,2) by (intro post_stuck assms(4)) (simp_all add: new_message_def r)
  then show ?thesis using assms(3) by (simp add: tcpip_callback_def Let_def split_beta r)
qed

text \<open>
  C39. The stack while its mailbox and its lock are still the words 0 they were loaded as, which is so when nobody has called
  \<^verbatim>\<open>tcpip_init\<close>. The three calls that only try to post a message are refused with a memory error. \<^verbatim>\<open>tcpip_callback\<close>, when it gets
  a message and no interrupt writes to the mailbox, waits forever. The two calls that run a function under the lock run it at once. The
  first poll takes the 0 for a message that is NULL, calls nothing, and leaves the mailbox empty and the lock free, as
  \<^verbatim>\<open>tcpip_init\<close> should have made them.
\<close>

theorem first_poll_initialises:
  assumes "tcpip_mbox (lw_env E) \<noteq> 0" "lock_tcpip_core E \<noteq> 0" "lock_tcpip_core E \<noteq> tcpip_mbox (lw_env E)"
    and "sys_cell s (tcpip_mbox (lw_env E)) = 0" "sys_cell s (lock_tcpip_core E) = 0"
  shows "(fst (tcpip_try_callback (lw_env E) f ctx s) = ERR_MEM
      \<and> fst (tcpip_callbackmsg_trycallback E msg s) = ERR_MEM \<and> fst (tcpip_callbackmsg_trycallback_fromisr E msg s) = ERR_MEM)
    \<and> (fst (memp_malloc MEMP_TCPIP_MSG_API s) \<noteq> 0 \<and> (\<forall>t. sys_cell (env_irq E t) (tcpip_mbox (lw_env E)) = sys_cell t (tcpip_mbox (lw_env E)))
        \<longrightarrow> tcpip_callback E f ctx s = None)
    \<and> (let t = put_cell (lock_tcpip_core E) MTX_LOCKED s
       in tcpip_api_call E g c s = Some (fst (g c t), UNLOCK_TCPIP_CORE E (snd (g c t)))
        \<and> tcpip_callback_wait E f ctx s = Some (ERR_OK, UNLOCK_TCPIP_CORE E (call_function E f ctx t)))
    \<and> tcpip_thread_poll_one E s = Some (0, s\<lparr>sys_cell := (sys_cell s)(tcpip_mbox (lw_env E) := MBOX_VAL_EMPTY, lock_tcpip_core E := MTX_FREE)\<rparr>)"
proof (intro conjI impI)
  have l: "LOCK_TCPIP_CORE E s = Some (put_cell (lock_tcpip_core E) MTX_LOCKED s)" using assms by (simp add: lock_free)
  show "fst (tcpip_try_callback (lw_env E) f ctx s) = ERR_MEM" using assms by (simp add: try_callback_refused)
  show "fst (tcpip_callbackmsg_trycallback E msg s) = ERR_MEM" "fst (tcpip_callbackmsg_trycallback_fromisr E msg s) = ERR_MEM"
    using assms by (simp_all add: tcpip_callbackmsg_trycallback_def tcpip_callbackmsg_trycallback_fromisr_def
        sys_mbox_trypost_def sys_mbox_trypost_fromisr_def LWIP_ASSERT_def)
  show "let t = put_cell (lock_tcpip_core E) MTX_LOCKED s
     in tcpip_api_call E g c s = Some (fst (g c t), UNLOCK_TCPIP_CORE E (snd (g c t)))
      \<and> tcpip_callback_wait E f ctx s = Some (ERR_OK, UNLOCK_TCPIP_CORE E (call_function E f ctx t))"
    by (simp add: tcpip_api_call_def tcpip_callback_wait_def l Let_def split_beta)
  show "tcpip_thread_poll_one E s = Some (0, s\<lparr>sys_cell := (sys_cell s)(tcpip_mbox (lw_env E) := MBOX_VAL_EMPTY, lock_tcpip_core E := MTX_FREE)\<rparr>)"
    using assms by (simp add: tcpip_thread_poll_one_def sys_arch_mbox_tryfetch_def lock_free UNLOCK_TCPIP_CORE_def sys_mutex_unlock_def put_cell_def)
  assume "fst (memp_malloc MEMP_TCPIP_MSG_API s) \<noteq> 0 \<and> (\<forall>t. sys_cell (env_irq E t) (tcpip_mbox (lw_env E)) = sys_cell t (tcpip_mbox (lw_env E)))"
  then show "tcpip_callback E f ctx s = None" using assms by (intro callback_stuck) simp_all
qed

theorem first_poll_initialises_witness:
  "fst (tcpip_try_callback (lw_env example_env) pbuf_free_int 8 example_timers) = ERR_MEM
     \<and> tcpip_callback example_env pbuf_free_int 8 example_timers = None
     \<and> (\<exists>t. tcpip_callback_wait example_env (Callback 5) 77 example_timers = Some (ERR_OK, t) \<and> current_timeout_due_time t = 77)
     \<and> tcpip_thread_poll_one example_env example_timers = Some (0, example_idle)"
proof -
  have "fst (memp_malloc MEMP_TCPIP_MSG_API example_timers) \<noteq> 0"
    by (simp add: memp_malloc_def do_memp_malloc_pool_def example_timers_def)
  moreover have "env_irq example_env t = t" for t by (simp add: example_env_def)
  moreover have "sys_cell example_timers a = 0" for a by (simp add: example_timers_def)
  moreover have "current_timeout_due_time (UNLOCK_TCPIP_CORE example_env (call_function example_env (Callback 5) 77 t)) = 77" for t
    by (simp add: UNLOCK_TCPIP_CORE_def sys_mutex_unlock_def put_cell_def example_env_def)
  moreover have "tcpip_mbox (lw_env example_env) = 0x100" "lock_tcpip_core example_env = 0x104" by (simp_all add: example_env_def)
  ultimately show ?thesis
    using first_poll_initialises [of example_env example_timers pbuf_free_int 8] first_poll_initialises [of example_env example_timers "Callback 5" 77]
    by (simp add: Let_def example_idle_def) (simp add: example_timers_def)
qed

text \<open>
  The function that should be used leaves the lock taken: after it, a poll that finds a message waits for
  the lock forever unless an interrupt releases it.
\<close>

lemma init_keeps_lock:
  assumes "lock_tcpip_core E \<noteq> 0" "lock_tcpip_core E \<noteq> tcpip_mbox (lw_env E)" "tcpip_mbox (lw_env E) \<noteq> 0"
  shows "\<exists>s'. tcpip_init E ini None s = Some s' \<and> sys_cell s' (lock_tcpip_core E) = MTX_LOCKED \<and> sys_cell s' (tcpip_mbox (lw_env E)) = MBOX_VAL_EMPTY"
  using assms by (simp add: tcpip_init_def sys_mbox_new_def sys_mutex_new_def LWIP_ASSERT_def lock_free)

lemma poll_stuck:
  assumes "in_thread (env_cpsr E)" "lock_tcpip_core E \<noteq> 0" "lock_tcpip_core E \<noteq> tcpip_mbox (lw_env E)" "tcpip_mbox (lw_env E) \<noteq> 0"
    and "is_message (sys_cell s (tcpip_mbox (lw_env E)))" "\<And>t n. sys_cell t (lock_tcpip_core E) = MTX_LOCKED \<Longrightarrow> sys_cell (env_irq E t) (lock_tcpip_core E) = MTX_LOCKED"
    and "sys_cell s (lock_tcpip_core E) = MTX_LOCKED"
  shows "tcpip_thread_poll_one E s = None"
proof -
  let ?s = "put_cell (tcpip_mbox (lw_env E)) MBOX_VAL_EMPTY s"
  have "sys_cell ((env_irq E ^^ n) ?s) (lock_tcpip_core E) = MTX_LOCKED" for n
    using assms(3,6,7) by (induction n) simp_all
  then have "LOCK_TCPIP_CORE E ?s = None" using assms(1,2) by (intro lock_held) simp_all
  then show ?thesis using assms(4,5) by (simp add: tcpip_thread_poll_one_def sys_arch_mbox_tryfetch_def is_message_def)
qed

end
