(* ===== verification/Stack.thy ===== *)
theory Stack
  imports PbufChain
begin

text \<open>
  The packet buffers in use: the pool after initialisation, the allocation of packets, their release, and what the host makes of a
  received frame.
\<close>

subsection \<open>The pool after initialisation\<close>

text \<open>Elements of 1532 bytes, a structure and its payload, that do not overlap.\<close>

definition pool_spaced :: "u32 list \<Rightarrow> bool" where
  "pool_spaced fl \<longleftrightarrow> (\<forall>a\<in>set fl. \<forall>b\<in>set fl. a \<noteq> b \<longrightarrow> 1532 \<le> unat (b - a))"

lemma memp_init_tab:
  "memp_tab (memp_init L s) t =
     memp_carve (unat (desc_num (memp_pools L t))) (LWIP_MEM_ALIGN (desc_base (memp_pools L t))) (ucast (desc_size (memp_pools L t))) []"
  by (cases t) (simp_all add: memp_init_def memp_init_pool_def Let_def)

lemma carve_inj:
  fixes a :: u32
  assumes "unat a + n * sz \<le> 2 ^ 32" "i < n" "sz \<noteq> 0"
  shows "unat (a + of_nat (i * sz)) = unat a + i * sz"
proof -
  have "i * sz + sz \<le> n * sz" using assms(2) by (metis Suc_leI add.commute mult_Suc mult_le_mono1)
  then have "unat a + i * sz < 2 ^ 32" using assms(1,3) by simp
  then show ?thesis by (simp add: unat_word_ariths unat_of_nat del: of_nat_mult)
qed

text \<open>Numbers with a distance of at least 1532 stay apart as words when the range they lie in does not wrap around.\<close>

lemma spaced_words:
  fixes x y :: u32
  assumes "1532 \<le> l" "unat x = k \<and> unat y = k + l \<or> unat y = k \<and> unat x = k + l" "k + l + 1532 \<le> 2 ^ 32"
  shows "1532 \<le> unat (y - x)"
  using assms(2)
proof
  assume a: "unat x = k \<and> unat y = k + l"
  then have "x \<le> y" by (simp add: word_le_nat_alt)
  then show ?thesis using a assms(1) by (simp add: unat_sub)
next
  assume a: "unat y = k \<and> unat x = k + l"
  then have "\<not> x \<le> y" using assms(1) by (simp add: word_le_nat_alt)
  then have "unat (y - x) = unat y + 2 ^ 32 - unat x" by (simp add: unat_sub_if' word_le_nat_alt)
  then show ?thesis using a assms(3) by simp
qed

lemma carve_pool:
  assumes "unat a + n * 1532 \<le> 2 ^ 32" "a \<noteq> 0" "a mod 4 = 0"
  shows "pool_ok (memp_carve n a 1532 []) \<and> pool_spaced (memp_carve n a 1532 []) \<and> length (memp_carve n a 1532 []) = n"
proof -
  define f :: "nat \<Rightarrow> u32" where "f i = a + of_nat (i * 1532)" for i
  have u: "unat (f i) = unat a + i * 1532" if "i < n" for i using carve_inj [of a n 1532 i] assms(1) that by (simp add: f_def)
  have d: "inj_on f {0..<n}"
  proof (rule inj_onI)
    fix i j assume "i \<in> {0..<n}" "j \<in> {0..<n}" "f i = f j"
    then have "unat (f i) = unat (f j)" "i < n" "j < n" by simp_all
    then have "unat a + i * 1532 = unat a + j * 1532" by (simp only: u)
    then show "i = j" by simp
  qed
  have s: "memp_carve n a 1532 [] = rev (map f [0..<n])" by (simp add: memp_carve_append f_def)
  have a4: "unat a mod 4 = 0" using assms(3) by (simp add: word_unat_eq_iff unat_mod_distrib)
  have "f i \<noteq> 0 \<and> f i mod 4 = 0" if "i < n" for i
  proof -
    have "unat (f i) \<noteq> 0" "unat (f i) mod 4 = 0" using u [OF that] assms(2) a4 by (simp_all add: unat_eq_0 mod_eq_0_iff_dvd)
    then show ?thesis by (auto simp: word_unat_eq_iff unat_mod_distrib)
  qed
  then have "pool_ok (memp_carve n a 1532 [])" unfolding pool_ok_def s using d by (auto simp: distinct_map)
  moreover have "1532 \<le> unat (f j - f i)" if "i < n" "j < n" "i \<noteq> j" for i j
  proof (rule spaced_words [where k = "unat a + min i j * 1532" and l = "(max i j - min i j) * 1532"])
    show "1532 \<le> (max i j - min i j) * 1532" using that(3) by (auto simp: max_def min_def)
    show "unat (f i) = unat a + min i j * 1532 \<and> unat (f j) = unat a + min i j * 1532 + (max i j - min i j) * 1532 \<or>
      unat (f j) = unat a + min i j * 1532 \<and> unat (f i) = unat a + min i j * 1532 + (max i j - min i j) * 1532"
      using u [OF that(1)] u [OF that(2)] by (auto simp: max_def min_def algebra_simps)
    have "max i j * 1532 + 1532 \<le> n * 1532" using that by (auto simp: max_def)
    then show "unat a + min i j * 1532 + (max i j - min i j) * 1532 + 1532 \<le> 2 ^ 32"
      using assms(1) by (auto simp: max_def min_def algebra_simps)
  qed
  then have "pool_spaced (memp_carve n a 1532 [])" unfolding pool_spaced_def s by (auto, metis)
  ultimately show ?thesis by (simp add: s)
qed

subsection \<open>A received frame\<close>

text \<open>The part of \<^verbatim>\<open>data_send_to_lwip\<close> that works on packet buffers.\<close>

definition frame_to_pbuf :: "lw \<Rightarrow> u32 \<Rightarrow> u32 \<Rightarrow> 'a stack_scheme \<Rightarrow> u32 \<times> 'a stack_scheme" where
  "frame_to_pbuf L data len s =
    (let len = (if len > 0x600 - 6 then 0x600 - 6 else len);
         (p, s) = pbuf_alloc L PBUF_IP (ucast len) PBUF_POOL s in
     if p = 0 then (0, s)
     else let len = (if len > ucast (pb_len (pbufs s p)) then ucast (pb_len (pbufs s p)) else len)
          in (p, MEMCPY (pb_payload (pbufs s p)) data (unat len) s))"

lemma mem_read_apart:
  assumes "length bs \<le> 2 ^ 32" "\<And>i. i < n \<Longrightarrow> length bs \<le> unat (a + of_nat i - b)"
  shows "mem_read (mem_write m b bs) a n = mem_read m a n"
proof (rule nth_equalityI)
  fix i assume "i < length (mem_read (mem_write m b bs) a n)"
  then have "i < n" by simp
  moreover from this have "\<not> unat (a + of_nat i - b) < length bs" using assms(2) by (simp add: not_less)
  ultimately show "mem_read (mem_write m b bs) a n ! i = mem_read m a n ! i"
    using assms(1) by (simp only: nth_mem_read mem_write_cases if_False)
qed simp

lemma apart_bytes:
  fixes a b :: u32
  assumes "1532 \<le> unat (b - a)" "1532 \<le> unat (a - b)" "i < 1516" "j + k \<le> 1532"
  shows "k \<le> unat (b + 16 + of_nat i - (a + of_nat j))"
proof -
  define d where "d = b - a"
  have "a - b = 0 - d" by (simp add: d_def)
  then have "unat (a - b) = (if unat d = 0 then 0 else 2 ^ 32 - unat d)" by (simp add: unat_sub_if' del: diff_0)
  then have D: "unat d + 1532 \<le> 2 ^ 32" "1532 \<le> unat d" using assms(1,2) by (auto simp: d_def split: if_splits)
  have i: "unat (16 + of_nat i :: u32) = 16 + i" using assms(3) by (simp add: unat_word_ariths unat_of_nat)
  have 1: "unat (d + (16 + of_nat i)) = unat d + 16 + i" using D assms(3) i by (subst unat_word_ariths(1)) simp
  have j: "unat (of_nat j :: u32) = j" using assms(4) by (simp add: unat_of_nat)
  have "unat (d + (16 + of_nat i) - of_nat j) = unat d + 16 + i - j"
    using D assms(4) 1 j by (subst unat_sub) (simp_all add: word_le_nat_alt)
  moreover have "b + 16 + of_nat i - (a + of_nat j) = d + (16 + of_nat i) - of_nat j" by (simp add: d_def)
  ultimately show ?thesis using D assms(4) by (simp only:)
qed

text \<open>What the first two buffers hold after the copy into the first one.\<close>

lemma copied_head:
  "mem_read (mem_write m (a + 100) (mem_read m d (min n 1432))) (a + 100) (min n 1432) = mem_read m d (min n 1432)"
  using mem_read_write_same [of "mem_read m d (min n 1432)" m "a + 100"] by simp

lemma copied_tail:
  assumes "1532 \<le> unat (b - a)" "1532 \<le> unat (a - b)" "n \<le> 1530"
  shows "mem_read (mem_write m (a + 100) (mem_read m d (min n 1432))) (b + 16) (n - 1432) = mem_read m (b + 16) (n - 1432)"
  using assms(3) apart_bytes [OF assms(1,2), of _ 100 "min n 1432"] by (intro mem_read_apart) simp_all

lemma frame_pieces:
  "n \<le> 1530 \<Longrightarrow> pieces (1516 - unat (layer_offset PBUF_IP)) n = (if n \<le> 1432 then [n] else [1432, n - 1432])"
  by (cases "n \<le> 1432") (auto simp add: pieces.simps [of 1432] pieces.simps [of 1516])

text \<open>
  C38. What the host hands to the network stack for a received frame of up to 0x5FA bytes, when the pool has two buffers left: a packet of the
  right length whose first 1432 bytes are the frame. The code copies into the first buffer of the chain only, so
  the bytes of a longer frame from there on are those the second buffer held before.
\<close>

theorem received_frame_tail:
  fixes s :: "'a stack_scheme"
  assumes "memp_tab s MEMP_PBUF_POOL = a # b # fl" "pool_ok (a # b # fl)" "pool_spaced (a # b # fl)" "len \<le> 0x5FA"
  shows "\<exists>s' qs. frame_to_pbuf L data len s = (a, s') \<and> packet (pbufs s') a qs \<and> size_of (pbufs s') qs = unat len
    \<and> content (lmem s') (pbufs s') qs
      = mem_read (lmem s) data (min (unat len) 1432) @ mem_read (lmem s) (b + 16) (unat len - 1432)"
proof -
  have n: "unat len \<le> 1530" using assms(4) by (simp add: word_le_nat_alt)
  then have un: "unat (ucast len :: u16) = unat len" by (simp add: unat_u32_u16)
  define ls where "ls = pieces (1516 - unat (layer_offset PBUF_IP)) (unat (ucast len :: u16))"
  have ls: "ls = (if unat len \<le> 1432 then [unat len] else [1432, unat len - 1432])" using n by (simp only: ls_def un frame_pieces)
  define qs where "qs = take (length ls) (a # b # fl)"
  have qs: "qs = (if unat len \<le> 1432 then [a] else [a, b])" by (simp add: qs_def ls)
  have hq: "hd qs = a" by (simp add: qs)
  have "length ls \<le> length (memp_tab s MEMP_PBUF_POOL)" by (simp add: ls assms(1))
  from alloc_pool_packet [OF assms(2) [folded assms(1)] ls_def this, of qs L] obtain s1 where
    s1: "pbuf_alloc L PBUF_IP (ucast len) PBUF_POOL s = (a, s1)" "packet (pbufs s1) a qs" "size_of (pbufs s1) qs = unat len"
      "built (pbufs s1) (ucast (layer_offset PBUF_IP)) qs ls" "lmem s1 = lmem s"
    unfolding assms(1) qs_def [symmetric] un hq by auto
  have a: "a \<noteq> 0" using assms(2) by (simp add: pool_ok_def)
  have h: "unat (pb_len (pbufs s1 a)) = min (unat len) 1432" "pb_payload (pbufs s1 a) = a + 100"
    using s1(4) n by (auto simp: qs ls unat_of_nat un split: if_splits)
  have m: "unat (if len > ucast (pb_len (pbufs s1 a)) then ucast (pb_len (pbufs s1 a)) else len) = min (unat len) 1432"
    using h(1) by (auto simp: word_less_nat_alt)
  define s' where "s' = MEMCPY (a + 100) data (min (unat len) 1432) s1"
  have "\<not> 0x600 - 6 < len" using assms(4) by (simp add: not_less)
  then have r: "frame_to_pbuf L data len s = (a, s')"
    using s1(1) a h(2) m by (simp add: frame_to_pbuf_def Let_def s'_def)
  have p: "pbufs s' = pbufs s1" "lmem s' = mem_write (lmem s) (a + 100) (mem_read (lmem s) data (min (unat len) 1432))"
    by (simp_all add: s'_def MEMCPY_def s1(5))
  have "content (lmem s') (pbufs s1) qs = mem_read (lmem s) data (min (unat len) 1432) @ mem_read (lmem s) (b + 16) (unat len - 1432)"
  proof (cases "unat len \<le> 1432")
    case False
    have d: "1532 \<le> unat (b - a)" "1532 \<le> unat (a - b)" using assms(2,3) by (auto simp: pool_spaced_def pool_ok_def)
    have "(1432 :: u16) \<le> ucast len" using False un by (simp add: word_le_nat_alt)
    then have "unat (ucast len - 1432 :: u16) = unat len - 1432" by (simp add: unat_sub un)
    then have "unat (pb_len (pbufs s1 b)) = unat len - 1432" "pb_payload (pbufs s1 b) = b + 16"
      using s1(4) n False by (auto simp: qs ls)
    then show ?thesis
      using False h n copied_head [of "lmem s" a data "unat len"] copied_tail [OF d, of "unat len" "lmem s" data] by (simp add: qs p(2) min_def)
  qed (use h n copied_head [of "lmem s" a data "unat len"] in \<open>simp add: qs p(2) min_def\<close>)
  then show ?thesis using r s1(2,3) p(1) by (intro exI [of _ s'] exI [of _ qs]) simp
qed

text \<open>A stack with the pool of the configuration, 512 buffers, and empty memory, for the examples.\<close>

definition example_lw :: lw where
  "example_lw = \<lparr>memp_pools = (\<lambda>t. \<lparr>desc_size = 1532, desc_num = 512, desc_base = 0x2200000\<rparr>), mem_clib_malloc = (\<lambda>_ _. 0),
     tcpip_mbox = 0x2300000\<rparr>"

definition example_stack :: stack where
  "example_stack = memp_init example_lw \<lparr>sys_val = 0, sys_cell = (\<lambda>_. MBOX_VAL_EMPTY), lmem = (\<lambda>_. 0), memp_tab = (\<lambda>_. []), ltr = [],
     pbufs = (\<lambda>_. \<lparr>pb_next = 0, pb_payload = 0, pb_tot_len = 0, pb_len = 0, pb_type_internal = 0, pb_flags = 0, pb_ref = 0, pb_if_idx = 0\<rparr>),
     pbuf_free_ooseq_pending = 0, tcpip_msgs = (\<lambda>_. \<lparr>msg_type = TCPIP_MSG_CALLBACK, msg_function = pbuf_free_ooseq_callback, msg_ctx = 0\<rparr>)\<rparr>"

definition example_pool :: "u32 list" where
  "example_pool = rev (map (\<lambda>i. 0x2200000 + of_nat i * 1532) [0..<510])"

lemma example_tab: "memp_tab example_stack MEMP_PBUF_POOL = 0x22BF204 # 0x22BEC08 # example_pool"
proof -
  have "memp_tab example_stack MEMP_PBUF_POOL = memp_carve 512 0x2200000 1532 []"
    by (simp add: example_stack_def memp_init_tab example_lw_def align_aligned)
  moreover have "(512 :: nat) = Suc (Suc 510)" by simp
  ultimately show ?thesis by (simp only: memp_carve_append upt_Suc) (simp add: example_pool_def)
qed

lemma example_pool_ok: "pool_ok (memp_tab example_stack MEMP_PBUF_POOL)" "pool_spaced (memp_tab example_stack MEMP_PBUF_POOL)"
  "length (memp_tab example_stack MEMP_PBUF_POOL) = 512"
proof -
  have "memp_tab example_stack MEMP_PBUF_POOL = memp_carve 512 0x2200000 1532 []"
    by (simp add: example_stack_def memp_init_tab example_lw_def align_aligned)
  with carve_pool [of "0x2200000" 512]
  show "pool_ok (memp_tab example_stack MEMP_PBUF_POOL)" "pool_spaced (memp_tab example_stack MEMP_PBUF_POOL)"
    "length (memp_tab example_stack MEMP_PBUF_POOL) = 512" by simp_all
qed

theorem received_frame_tail_witness:
  "\<exists>s' qs. frame_to_pbuf example_lw 0x2000000 1530 example_stack = (0x22BF204, s') \<and> packet (pbufs s') 0x22BF204 qs
     \<and> length (content (lmem s') (pbufs s') qs) = 1530"
  using received_frame_tail [OF example_tab, of 1530 example_lw "0x2000000"] example_pool_ok unfolding example_tab by auto

subsection \<open>Allocation and release\<close>

text \<open>
  C15. Allocating a packet from the pool. With enough free buffers the result is a packet of the requested length, built from the first
  buffers of the free list with one reference each, and no assertion fails. Otherwise the result is NULL and every buffer taken on the
  way is back in the pool. In both cases no other buffer changes.
\<close>

theorem pool_allocation:
  fixes s :: "'a stack_scheme"
  assumes "pool_ok (memp_tab s MEMP_PBUF_POOL)"
  shows "let ls = pieces (1516 - unat (layer_offset l)) (unat n); fl = memp_tab s MEMP_PBUF_POOL;
      qs = take (length ls) fl; (p, s') = pbuf_alloc L l n PBUF_POOL s in
    (if length ls \<le> length fl
     then packet (pbufs s') p qs \<and> size_of (pbufs s') qs = unat n \<and> (\<forall>x\<in>set qs. pb_ref (pbufs s' x) = 1)
       \<and> memp_tab s' MEMP_PBUF_POOL = drop (length ls) fl \<and> ltr s' = ltr s
     else p = 0 \<and> memp_tab s' MEMP_PBUF_POOL = rev fl)
    \<and> lmem s' = lmem s \<and> (\<forall>x. x \<notin> set qs \<longrightarrow> pbufs s' x = pbufs s x)"
proof -
  define ls where "ls = pieces (1516 - unat (layer_offset l)) (unat n)"
  define fl where "fl = memp_tab s MEMP_PBUF_POOL"
  show ?thesis
  proof (cases "length ls \<le> length fl")
    case True
    from alloc_pool_packet [OF assms ls_def True [unfolded fl_def] refl, of L, folded fl_def]
    obtain s' where "pbuf_alloc L l n PBUF_POOL s = (hd (take (length ls) fl), s')" "packet (pbufs s') (hd (take (length ls) fl)) (take (length ls) fl)"
      "size_of (pbufs s') (take (length ls) fl) = unat n" "built (pbufs s') (ucast (layer_offset l)) (take (length ls) fl) ls"
      "lmem s' = lmem s" "ltr s' = ltr s" "memp_tab s' = (memp_tab s)(MEMP_PBUF_POOL := drop (length ls) fl)"
      "\<forall>x. x \<notin> set (take (length ls) fl) \<longrightarrow> pbufs s' x = pbufs s x" by (elim exE conjE) (rule that)
    moreover from this have "\<forall>x\<in>set (take (length ls) fl). pb_ref (pbufs s' x) = 1" using built_refs by blast
    ultimately show ?thesis using True by (simp add: Let_def ls_def [symmetric] fl_def [symmetric])
  next
    case False
    then have sh: "length fl < length (pieces (1516 - unat (layer_offset l)) (unat n))" by (simp add: ls_def)
    have t: "take (length ls) fl = fl" using False by simp
    from alloc_pool_fails [OF refl assms layer_offset_ok(1,2) [of l] sh [unfolded fl_def], of 0 "[]" 0 L]
    obtain s' where "pbuf_alloc_pool L 0 0 n (layer_offset l) s = (0, s')" "memp_tab s' MEMP_PBUF_POOL = rev fl" "lmem s' = lmem s"
      "\<forall>x. x \<notin> set fl \<longrightarrow> pbufs s' x = pbufs s x" unfolding fl_def by auto
    then show ?thesis using False t by (simp add: pbuf_alloc_def ls_def [symmetric] fl_def [symmetric])
  qed
qed

theorem pool_allocation_witness:
  "case pbuf_alloc example_lw PBUF_RAW 3000 PBUF_POOL example_stack of (p, s') \<Rightarrow>
     packet (pbufs s') p [0x22BF204, 0x22BEC08, hd example_pool] \<and> size_of (pbufs s') [0x22BF204, 0x22BEC08, hd example_pool] = 3000"
proof -
  have "pieces 1468 3000 = [1468, 1516, 16]" by (simp add: pieces.simps)
  moreover have "example_pool = hd example_pool # tl example_pool" by (simp add: example_pool_def)
  then have "take (Suc (Suc (Suc 0))) (memp_tab example_stack MEMP_PBUF_POOL) = [0x22BF204, 0x22BEC08, hd example_pool]"
    unfolding example_tab by (metis take0 take_Suc_Cons)
  ultimately show ?thesis
    using pool_allocation [OF example_pool_ok(1), of PBUF_RAW 3000 example_lw] by (simp add: Let_def split_beta example_pool_ok(3))
qed

text \<open>
  Releasing a chain: the buffers at its head that have no other reference go back to where each came from, the first buffer that has one
  loses one, and the rest is untouched. The result is the number of buffers given back, modulo 256.
\<close>

theorem release_of_chain:
  assumes "chain (pbufs s) p (as @ bs)" "as @ bs \<noteq> []" "\<forall>x\<in>set as. pb_ref (pbufs s x) = 1 \<and> releasable (pbufs s x) x"
    and "bs \<noteq> [] \<longrightarrow> 1 < pb_ref (pbufs s (hd bs))"
  shows "\<exists>s'. pbuf_free p s = (of_nat (length as), s') \<and> lmem s' = lmem s
    \<and> memp_tab s' = (\<lambda>t. rev [x\<leftarrow>as. pool_of (pbufs s x) = Some t] @ memp_tab s t)
    \<and> ltr s' = rev (map LFree [x\<leftarrow>as. pool_of (pbufs s x) = None]) @ ltr s
    \<and> pbufs s' = (\<lambda>x. if x \<in> set as then (pbufs s x)\<lparr>pb_ref := 0\<rparr>
         else if bs \<noteq> [] \<and> x = hd bs then (pbufs s x)\<lparr>pb_ref := pb_ref (pbufs s x) - 1\<rparr> else pbufs s x)"
proof -
  have "p \<noteq> 0" using assms(1,2) chain_0 by metis
  then show ?thesis using free_loop_chain [OF assms(1), of 0] assms(3,4) by (simp add: pbuf_free_def)
qed

theorem release_of_chain_witness:
  "\<exists>s'. pbuf_free 8 (example_stack\<lparr>pbufs := (\<lambda>x. \<lparr>pb_next = (if x = 8 then 12 else 0), pb_payload = 0, pb_tot_len = 0, pb_len = 0,
       pb_type_internal = 0x82, pb_flags = 0, pb_ref = (if x = 8 then 1 else 3), pb_if_idx = 0\<rparr>)\<rparr>) = (1, s')
     \<and> pb_ref (pbufs s' 12) = 2 \<and> memp_tab s' MEMP_PBUF_POOL = 8 # memp_tab example_stack MEMP_PBUF_POOL"
  using release_of_chain [of "example_stack\<lparr>pbufs := (\<lambda>x. \<lparr>pb_next = (if x = 8 then 12 else 0), pb_payload = 0, pb_tot_len = 0, pb_len = 0,
       pb_type_internal = 0x82, pb_flags = 0, pb_ref = (if x = 8 then 1 else 3), pb_if_idx = 0\<rparr>)\<rparr>" 8 "[8]" "[12]"]
  by (auto simp: releasable_def pool_of_def pbuf_get_allocsrc_def)

text \<open>
  Searching a packet finds the first place at or after the start where the bytes occur, also where they are divided between buffers, and
  returns 0xFFFF when they do not occur.
\<close>

theorem search_finds_first:
  assumes "packet (pbufs s) p qs" "pat = mem_read (lmem s) a (unat n)" "c = content (lmem s) (pbufs s) qs"
  shows "\<exists>r. pbuf_memfind p a n start s = Some r \<and>
    (if \<exists>j\<ge>unat start. occurs pat c j
     then unat start \<le> unat r \<and> occurs pat c (unat r) \<and> (\<forall>j. unat start \<le> j \<and> j < unat r \<longrightarrow> \<not> occurs pat c j)
     else r = 0xFFFF)"
  unfolding assms(2,3) using assms(1) by (rule memfind_chain)

definition two_buffers :: stack where
  "two_buffers = example_stack\<lparr>lmem := (\<lambda>_. 0)(0x101 := 7, 0x200 := 9, 0x300 := 7, 0x301 := 9),
     pbufs := (\<lambda>x. if x = 8
       then \<lparr>pb_next = 12, pb_payload = 0x100, pb_tot_len = 4, pb_len = 2, pb_type_internal = 0x82, pb_flags = 0, pb_ref = 1, pb_if_idx = 0\<rparr>
       else \<lparr>pb_next = 0, pb_payload = 0x200, pb_tot_len = 2, pb_len = 2, pb_type_internal = 0x82, pb_flags = 0, pb_ref = 1, pb_if_idx = 0\<rparr>)\<rparr>"

lemma mem_read_2: "mem_read m a 2 = [m a, m (a + 1)]"
  by (simp add: numeral_2_eq_2)

lemma two_buffers_packet:
  "packet (pbufs two_buffers) 8 [8, 12]" "content (lmem two_buffers) (pbufs two_buffers) [8, 12] = [0, 7, 9, 0]"
  "mem_read (lmem two_buffers) 0x300 (unat (2 :: u16)) = [7, 9]"
  by (simp_all add: two_buffers_def packet_def mem_read_2)

theorem search_finds_first_witness:
  "\<exists>r. pbuf_memfind 8 0x300 2 0 two_buffers = Some r \<and> occurs [7, 9] [0, 7, 9, 0] (unat r)"
proof -
  have "occurs [7, 9] [0, 7, 9, 0 :: u8] 1" by (simp add: occurs_def)
  then have "\<exists>j\<ge>unat (0 :: u16). occurs [7, 9] [0, 7, 9, 0 :: u8] j" by auto
  then show ?thesis
    using search_finds_first [OF two_buffers_packet(1) two_buffers_packet(3) [symmetric] two_buffers_packet(2) [symmetric], of 0]
    by auto
qed

end
