(* ===== verification/Chksum.thy ===== *)
theory Chksum
  imports Stack
begin

text \<open>
  The Internet checksum, \<^verbatim>\<open>arm_host/source/lwip/inet_chksum.c\<close> in the variant the configuration selects, and the byte order functions of
  \<^verbatim>\<open>lwip/def.c\<close>. The sums are compared with the one's complement sum of RFC 1071, on the bytes of a packet whatever its division
  into buffers and their alignment.
\<close>

subsection \<open>The code\<close>

definition lwip_htons :: "u16 \<Rightarrow> u16" where
  "lwip_htons x = push_bit 8 (x AND 0x00FF) OR drop_bit 8 (x AND 0xFF00)"

definition lwip_htonl :: "u32 \<Rightarrow> u32" where
  "lwip_htonl x = push_bit 24 (x AND 0x000000FF) OR push_bit 8 (x AND 0x0000FF00)
     OR drop_bit 8 (x AND 0x00FF0000) OR drop_bit 24 (x AND 0xFF000000)"

definition FOLD_U32T :: "u32 \<Rightarrow> u32" where
  "FOLD_U32T u = drop_bit 16 u + (u AND 0xFFFF)"

definition SWAP_BYTES_IN_WORD :: "u32 \<Rightarrow> u32" where
  "SWAP_BYTES_IN_WORD w = push_bit 8 (w AND 0xFF) OR drop_bit 8 (w AND 0xFF00)"

text \<open>A half word in memory, little endian.\<close>

definition half :: "u8 \<Rightarrow> u8 \<Rightarrow> u16" where
  "half lo hi = ucast lo OR push_bit 8 (ucast hi)"

fun chk_bulk :: "memory \<Rightarrow> u32 \<Rightarrow> nat \<Rightarrow> u32 \<Rightarrow> u32 \<times> u32 \<times> nat" where
  "chk_bulk m ps len acc =
    (if len > 1 then chk_bulk m (ps + 2) (len - 2) (acc + ucast (half (m ps) (m (ps + 1)))) else (acc, ps, len))"

declare chk_bulk.simps [simp del]

definition lwip_standard_chksum :: "memory \<Rightarrow> u32 \<Rightarrow> nat \<Rightarrow> u16" where
  "lwip_standard_chksum m dataptr len =
    (let odd = dataptr AND 1 \<noteq> 0;
         (t1, pb, len) = (if odd \<and> len > 0 then (m dataptr, dataptr + 1, len - 1) else (0, dataptr, len));
         (acc, ps, len) = chk_bulk m pb len 0;
         t0 = (if len > 0 then m ps else 0);
         acc = acc + ucast (half t0 t1);
         acc = FOLD_U32T acc;
         acc = FOLD_U32T acc;
         acc = (if odd then SWAP_BYTES_IN_WORD acc else acc)
     in ucast acc)"

definition inet_chksum :: "memory \<Rightarrow> u32 \<Rightarrow> u16 \<Rightarrow> u16" where
  "inet_chksum m dataptr len = NOT (lwip_standard_chksum m dataptr (unat len))"

text \<open>The loop over the chain that the checksums of packets share.\<close>

partial_function (option) chk_chain :: "u32 \<Rightarrow> u32 \<Rightarrow> bool \<Rightarrow> 'a stack_scheme \<Rightarrow> (u32 \<times> bool) option" where
  "chk_chain q acc swapped s =
    (if q = 0 then Some (acc, swapped)
     else
       let b = pbufs s q;
           acc = FOLD_U32T (acc + ucast (lwip_standard_chksum (lmem s) (pb_payload b) (unat (pb_len b)))) in
       if pb_len b mod 2 \<noteq> 0 then chk_chain (pb_next b) (SWAP_BYTES_IN_WORD acc) (\<not> swapped) s
       else chk_chain (pb_next b) acc swapped s)"

definition inet_chksum_pbuf :: "u32 \<Rightarrow> 'a stack_scheme \<Rightarrow> u16 option" where
  "inet_chksum_pbuf p s = do {
     (acc, swapped) \<leftarrow> chk_chain p 0 False s;
     let acc = (if swapped then SWAP_BYTES_IN_WORD acc else acc);
     Some (ucast (NOT (acc AND 0xFFFF))) }"

definition inet_cksum_pseudo_base :: "u32 \<Rightarrow> u8 \<Rightarrow> u16 \<Rightarrow> u32 \<Rightarrow> 'a stack_scheme \<Rightarrow> u16 option" where
  "inet_cksum_pseudo_base p proto proto_len acc s = do {
     (acc, swapped) \<leftarrow> chk_chain p acc False s;
     let acc = (if swapped then SWAP_BYTES_IN_WORD acc else acc);
     let acc = acc + ucast (lwip_htons (ucast proto));
     let acc = acc + ucast (lwip_htons proto_len);
     let acc = FOLD_U32T acc;
     let acc = FOLD_U32T acc;
     Some (ucast (NOT (acc AND 0xFFFF))) }"

definition pseudo_addrs :: "u32 \<Rightarrow> u32 \<Rightarrow> u32" where
  "pseudo_addrs src dest =
    (let acc = src AND 0xFFFF;
         acc = acc + (drop_bit 16 src AND 0xFFFF);
         acc = acc + (dest AND 0xFFFF);
         acc = acc + (drop_bit 16 dest AND 0xFFFF)
     in FOLD_U32T (FOLD_U32T acc))"

definition inet_chksum_pseudo :: "u32 \<Rightarrow> u8 \<Rightarrow> u16 \<Rightarrow> u32 \<Rightarrow> u32 \<Rightarrow> 'a stack_scheme \<Rightarrow> u16 option" where
  "inet_chksum_pseudo p proto proto_len src dest s =
    inet_cksum_pseudo_base p proto proto_len (pseudo_addrs src dest) s"

definition ip_chksum_pseudo :: "u32 \<Rightarrow> u8 \<Rightarrow> u16 \<Rightarrow> u32 \<Rightarrow> u32 \<Rightarrow> 'a stack_scheme \<Rightarrow> u16 option" where
  "ip_chksum_pseudo p proto proto_len src dest s = inet_chksum_pseudo p proto proto_len src dest s"

partial_function (option) chk_chain_partial ::
  "u32 \<Rightarrow> u16 \<Rightarrow> u32 \<Rightarrow> bool \<Rightarrow> 'a stack_scheme \<Rightarrow> (u32 \<times> bool \<times> 'a stack_scheme) option" where
  "chk_chain_partial q chksum_len acc swapped s =
    (if q = 0 \<or> \<not> chksum_len > 0 then Some (acc, swapped, s)
     else
       let b = pbufs s q;
           chklen = (if pb_len b > chksum_len then chksum_len else pb_len b);
           acc = acc + ucast (lwip_standard_chksum (lmem s) (pb_payload b) (unat chklen));
           chksum_len = chksum_len - chklen;
           s = LWIP_ASSERT ''delete me'' (chksum_len < 0x7FFF) s;
           acc = FOLD_U32T acc in
       if pb_len b mod 2 \<noteq> 0 then chk_chain_partial (pb_next b) chksum_len (SWAP_BYTES_IN_WORD acc) (\<not> swapped) s
       else chk_chain_partial (pb_next b) chksum_len acc swapped s)"

definition inet_cksum_pseudo_partial_base ::
  "u32 \<Rightarrow> u8 \<Rightarrow> u16 \<Rightarrow> u16 \<Rightarrow> u32 \<Rightarrow> 'a stack_scheme \<Rightarrow> (u16 \<times> 'a stack_scheme) option" where
  "inet_cksum_pseudo_partial_base p proto proto_len chksum_len acc s = do {
     (acc, swapped, s) \<leftarrow> chk_chain_partial p chksum_len acc False s;
     let acc = (if swapped then SWAP_BYTES_IN_WORD acc else acc);
     let acc = acc + ucast (lwip_htons (ucast proto));
     let acc = acc + ucast (lwip_htons proto_len);
     let acc = FOLD_U32T acc;
     let acc = FOLD_U32T acc;
     Some (ucast (NOT (acc AND 0xFFFF)), s) }"

definition inet_chksum_pseudo_partial ::
  "u32 \<Rightarrow> u8 \<Rightarrow> u16 \<Rightarrow> u16 \<Rightarrow> u32 \<Rightarrow> u32 \<Rightarrow> 'a stack_scheme \<Rightarrow> (u16 \<times> 'a stack_scheme) option" where
  "inet_chksum_pseudo_partial p proto proto_len chksum_len src dest s =
    inet_cksum_pseudo_partial_base p proto proto_len chksum_len (pseudo_addrs src dest) s"

definition ip_chksum_pseudo_partial ::
  "u32 \<Rightarrow> u8 \<Rightarrow> u16 \<Rightarrow> u16 \<Rightarrow> u32 \<Rightarrow> u32 \<Rightarrow> 'a stack_scheme \<Rightarrow> (u16 \<times> 'a stack_scheme) option" where
  "ip_chksum_pseudo_partial p proto proto_len chksum_len src dest s =
    inet_chksum_pseudo_partial p proto proto_len chksum_len src dest s"

subsection \<open>The one's complement sum\<close>

text \<open>The sum with end-around carry is the representative of the sum modulo 65535 that is 0 only for 0.\<close>

definition ones :: "nat \<Rightarrow> nat" where
  "ones n = (if n = 0 then 0 else (n - 1) mod 65535 + 1)"

lemma Suc_mod_cancel:
  fixes N :: nat
  assumes "Suc b mod N = Suc k mod N"
  shows "b mod N = k mod N"
proof -
  have le: "x mod N = y mod N" if "y \<le> x" "Suc x mod N = Suc y mod N" for x y
  proof -
    have "N dvd Suc x - Suc y" using that by (intro iffD1 [OF mod_eq_dvd_iff_nat]) simp_all
    then show ?thesis using that(1) by (intro iffD2 [OF mod_eq_dvd_iff_nat]) simp_all
  qed
  show ?thesis
  proof (cases "k \<le> b")
    case True
    then show ?thesis using assms by (rule le)
  next
    case False
    then have "b \<le> k" by simp
    then show ?thesis by (rule le [OF _ assms [symmetric], symmetric])
  qed
qed

lemma ones_unique:
  assumes "a < 65536" "a mod 65535 = n mod 65535" "a = 0 \<longleftrightarrow> n = 0"
  shows "a = ones n"
proof (cases "n = 0")
  case False
  obtain b where b: "a = Suc b" using assms(3) False by (cases a) auto
  obtain k where k: "n = Suc k" using False by (cases n) auto
  have "b mod 65535 = k mod 65535" using assms(2) unfolding b k by (rule Suc_mod_cancel)
  moreover have "b mod 65535 = b" using assms(1) b by simp
  ultimately show ?thesis by (simp add: ones_def b k)
qed (use assms in \<open>simp add: ones_def\<close>)

lemma ones_less: "ones n < 65536"
  by (simp add: ones_def less_Suc_eq_le [symmetric] mod_less_divisor)

lemma ones_mod: "ones n mod 65535 = n mod 65535"
proof (cases n)
  case (Suc k)
  have "(k mod 65535 + 1) mod 65535 = (k + 1) mod 65535" by (rule mod_add_left_eq)
  then show ?thesis by (simp add: ones_def Suc)
qed (simp add: ones_def)

lemma ones_0 [simp]: "ones n = 0 \<longleftrightarrow> n = 0" "ones 0 = 0"
  by (simp_all add: ones_def)

lemma ones_add: "ones (ones a + b) = ones (a + b)"
proof (rule ones_unique)
  show "ones (ones a + b) mod 65535 = (a + b) mod 65535"
    unfolding ones_mod by (metis mod_add_left_eq ones_mod)
qed (simp_all add: ones_less)

lemma ones_small: "n < 65536 \<Longrightarrow> ones n = n"
  by (rule ones_unique [symmetric]) simp_all

lemma ones_mult: "ones (c * ones a) = ones (c * a)"
proof (rule ones_unique)
  show "ones (c * ones a) mod 65535 = (c * a) mod 65535"
    unfolding ones_mod by (metis mod_mult_right_eq ones_mod)
qed (simp_all add: ones_less)

lemma ones_65536: "ones (65536 * a) = ones a"
proof (rule ones_unique)
  have "65536 * a = a + 65535 * a" by simp
  then show "ones (65536 * a) mod 65535 = a mod 65535" unfolding ones_mod by (metis mod_mult_self2)
qed (simp_all add: ones_less)

subsection \<open>Folding and swapping\<close>

lemma mask16: "(0xFFFF :: 'a::len word) = mask 16"
  by (simp add: mask_eq_exp_minus_1)

lemma fold_nat: "unat (FOLD_U32T u) = unat u div 65536 + unat u mod 65536"
proof -
  have d: "unat (drop_bit 16 u) = unat u div 65536" by (simp add: drop_bit_eq_div unat_div_distrib)
  have m: "unat (u AND 0xFFFF) = unat u mod 65536"
    unfolding mask16 by (simp add: take_bit_eq_mask [symmetric] take_bit_eq_mod unat_mod_distrib)
  have "unat u div 65536 < 65536" using unat_lt2p_aux [of u] by (simp add: div_less_iff_less_mult)
  moreover have "unat u mod 65536 < 65536" by simp
  ultimately show ?thesis unfolding FOLD_U32T_def by (subst unat_word_ariths(1)) (simp add: d m)
qed

lemma fold_mod: "unat (FOLD_U32T u) mod 65535 = unat u mod 65535"
proof -
  define q r where "q = unat u div 65536" and "r = unat u mod 65536"
  have "unat u = 65536 * q + r" by (simp add: q_def r_def)
  then have "unat u = (q + r) + 65535 * q" by simp
  then have "unat u mod 65535 = (q + r) mod 65535" by (simp only: mod_mult_self2)
  then show ?thesis by (simp add: fold_nat q_def r_def)
qed

lemma fold_0: "unat (FOLD_U32T u) = 0 \<longleftrightarrow> unat u = 0"
  unfolding fold_nat by (metis add_is_0 div_mult_mod_eq mult_0 plus_nat.add_0 div_0 mod_0)

lemma fold_first: "unat (FOLD_U32T u) \<le> 131070"
proof -
  have "unat u div 65536 < 65536" using unat_lt2p_aux [of u] by (simp add: div_less_iff_less_mult)
  moreover have "unat u mod 65536 < 65536" by simp
  ultimately show ?thesis unfolding fold_nat by linarith
qed

lemma fold_second: "unat u \<le> 131070 \<Longrightarrow> unat (FOLD_U32T u) < 65536"
proof -
  define q r where "q = unat u div 65536" and "r = unat u mod 65536"
  have e: "unat u = 65536 * q + r" "r < 65536" by (simp_all add: q_def r_def)
  assume u: "unat u \<le> 131070"
  have "q + r < 65536" using e u by (cases "q = 0") linarith+
  then show ?thesis by (simp add: fold_nat q_def r_def)
qed

lemma ones_cong: "a mod 65535 = b mod 65535 \<Longrightarrow> (a = 0 \<longleftrightarrow> b = 0) \<Longrightarrow> ones a = ones b"
  by (rule ones_unique) (simp_all add: ones_less ones_mod)

lemma fold_ones: "unat u \<le> 131070 \<Longrightarrow> unat (FOLD_U32T u) = ones (unat u)"
  by (rule ones_unique) (simp_all add: fold_second fold_mod fold_0)

lemma fold_twice: "unat (FOLD_U32T (FOLD_U32T u)) = ones (unat u)"
proof -
  have "unat (FOLD_U32T (FOLD_U32T u)) = ones (unat (FOLD_U32T u))" by (rule fold_ones [OF fold_first])
  also have "\<dots> = ones (unat u)" by (rule ones_cong [OF fold_mod fold_0])
  finally show ?thesis .
qed

lemma swap_nat:
  assumes "unat w < 65536"
  shows "unat (SWAP_BYTES_IN_WORD w) = 256 * (unat w mod 256) + unat w div 256"
proof -
  have f: "(0xFF :: u32) = mask 8" by (simp add: mask_eq_exp_minus_1)
  have g: "(0xFF00 :: u32) = push_bit 8 (mask 8)" by (simp add: mask_eq_exp_minus_1 push_bit_eq_mult)
  have b: "n < 16" if "bit w n" for n
  proof -
    have "take_bit 16 w = w" using assms by (simp add: word_unat_eq_iff unsigned_take_bit_eq take_bit_nat_eq_self)
    then show ?thesis using that by (metis bit_take_bit_iff)
  qed
  have d: "drop_bit 8 (w AND 0xFF00) = drop_bit 8 w"
    unfolding g by (rule bit_word_eqI) (auto simp: bit_simps dest: b)
  have l: "push_bit 8 (w AND 0xFF) AND drop_bit 8 w = 0"
    unfolding f by (rule bit_word_eqI) (auto simp: bit_simps dest: b)
  have a: "unat (w AND 0xFF) = unat w mod 256"
    unfolding f by (simp add: take_bit_eq_mask [symmetric] take_bit_eq_mod unat_mod_distrib)
  have p: "unat (push_bit 8 (w AND 0xFF)) = 256 * (unat w mod 256)"
  proof -
    have "256 * (unat w mod 256) < 2 ^ 32" using mod_less_divisor [of 256 "unat w"] by simp
    then show ?thesis by (simp add: push_bit_eq_mult unat_word_ariths a)
  qed
  have q: "unat (drop_bit 8 w) = unat w div 256" by (simp add: drop_bit_eq_div unat_div_distrib)
  have "unat w div 256 < 256" using assms by (simp add: div_less_iff_less_mult)
  moreover have "unat w mod 256 < 256" by simp
  ultimately have "256 * (unat w mod 256) + unat w div 256 < 2 ^ 32" by simp
  then show ?thesis
    unfolding SWAP_BYTES_IN_WORD_def d plus_eq_or [OF l, symmetric] by (subst unat_word_ariths(1), unfold p q) simp
qed

lemma swap_ones:
  assumes "unat w = ones n"
  shows "unat (SWAP_BYTES_IN_WORD w) = ones (256 * n)"
proof -
  have w: "unat w < 65536" using assms ones_less by simp
  define h l where "h = unat w div 256" and "l = unat w mod 256"
  have e: "unat w = 256 * h + l" "h < 256" "l < 256" using w by (simp_all add: h_def l_def div_less_iff_less_mult)
  have s: "unat (SWAP_BYTES_IN_WORD w) = 256 * l + h" using swap_nat [OF w] by (simp add: h_def l_def)
  have "unat (SWAP_BYTES_IN_WORD w) = ones (256 * unat w)"
  proof (rule ones_unique)
    show "unat (SWAP_BYTES_IN_WORD w) < 65536" using s e by simp
    have "256 * unat w = (256 * l + h) + 65535 * h" using e(1) by simp
    then show "unat (SWAP_BYTES_IN_WORD w) mod 65535 = (256 * unat w) mod 65535" unfolding s by (simp only: mod_mult_self2)
    show "unat (SWAP_BYTES_IN_WORD w) = 0 \<longleftrightarrow> 256 * unat w = 0" unfolding s using e(1) by auto
  qed
  also have "\<dots> = ones (256 * n)" unfolding assms by (rule ones_mult)
  finally show ?thesis .
qed

subsection \<open>Sums of bytes\<close>

text \<open>The sum of the half words of a byte string, the first byte being the high one when \<open>k\<close> holds.\<close>

primrec weigh :: "bool \<Rightarrow> bytes \<Rightarrow> nat" where
  "weigh k [] = 0"
| "weigh k (b # bs) = (if k then 256 else 1) * unat b + weigh (\<not> k) bs"

lemma weigh_append: "weigh k (xs @ ys) = weigh k xs + weigh (k \<noteq> odd (length xs)) ys"
proof (induction xs arbitrary: k)
  case (Cons x xs)
  have "((\<not> k) \<noteq> odd (length xs)) = (k \<noteq> odd (length (x # xs)))" by auto
  then show ?case using Cons.IH [of "\<not> k"] by (simp only: append_Cons weigh.simps add.assoc)
qed simp

lemma weigh_0: "weigh k bs = 0 \<longleftrightarrow> (\<forall>b\<in>set bs. b = 0)"
  by (induction bs arbitrary: k) (auto simp: unat_eq_0)

lemma weigh_swap: "ones (256 * weigh k bs) = ones (weigh (\<not> k) bs)"
proof (induction bs arbitrary: k)
  case (Cons b bs)
  have "ones (256 * weigh k (b # bs)) = ones (256 * (if k then 256 else 1) * unat b + ones (256 * weigh (\<not> k) bs))"
    by (simp only: weigh.simps distrib_left mult.assoc add.commute [of _ "ones _"] ones_add) (simp only: add.commute)
  also have "\<dots> = ones (ones (256 * (if k then 256 else 1) * unat b) + weigh k bs)"
    unfolding Cons.IH not_not by (simp only: add.commute [of _ "ones _"] ones_add) (simp only: add.commute ones_add)
  also have "ones (256 * (if k then 256 else 1) * unat b) = ones ((if \<not> k then 256 else 1) * unat b)"
    using ones_65536 [of "unat b"] by (cases k) simp_all
  also have "ones (ones ((if \<not> k then 256 else 1) * unat b) + weigh k bs) = ones (weigh (\<not> k) (b # bs))"
    by (simp only: ones_add weigh.simps not_not)
  finally show ?case .
qed simp

lemma weigh_le: "weigh k bs \<le> 65280 * length bs"
proof (induction bs arbitrary: k)
  case (Cons b bs)
  have "unat b \<le> 255" using unat_lt2p_aux [of b] by simp
  then have "(if k then 256 else 1) * unat b \<le> 65280" by (cases k) simp_all
  then show ?case using Cons.IH [of "\<not> k"] by simp
qed simp

lemma half_nat: "unat (half lo hi) = unat lo + 256 * unat hi"
proof -
  have d: "(ucast lo :: u16) AND push_bit 8 (ucast hi) = 0"
    by (rule bit_word_eqI) (auto simp: bit_simps dest: bit_u8_less)
  have a: "unat (push_bit 8 (ucast hi) :: u16) = 256 * unat hi"
    using unat_lt2p_aux [of hi] by (simp add: push_bit_eq_mult unat_word_ariths)
  have "unat lo + 256 * unat hi < 2 ^ 16" using unat_lt2p_aux [of lo] unat_lt2p_aux [of hi] by simp
  moreover have "half lo hi = ucast lo + push_bit 8 (ucast hi)" using d by (simp add: half_def disjunctive_add_eq_or)
  ultimately show ?thesis by (simp only: unat_word_ariths(1) a) simp
qed

lemma chk_bulk_nat:
  assumes "unat acc + 65280 * len < 2 ^ 32"
  shows "\<exists>acc'. chk_bulk m a len acc = (acc', a + of_nat (2 * (len div 2)), len mod 2)
    \<and> unat acc' = unat acc + weigh False (mem_read m a (2 * (len div 2)))"
  using assms
proof (induction m a len acc rule: chk_bulk.induct)
  case (1 m a len acc)
  show ?case
  proof (cases "len > 1")
    case True
    define k where "k = (len - 2) div 2"
    have k: "len div 2 = Suc k" "len mod 2 = (len - 2) mod 2" "2 * Suc k = 2 + 2 * k"
      using True by (simp_all add: k_def div_if [of len] le_mod_geq)
    have h: "unat (half (m a) (m (a + 1))) \<le> 65535" using unat_lt2p_aux [of "half (m a) (m (a + 1))"] by simp
    have u: "unat (acc + ucast (half (m a) (m (a + 1)))) = unat acc + unat (half (m a) (m (a + 1)))"
      using "1.prems" True h by (subst unat_word_ariths(1)) (simp add: unat_u16_u32)
    have "unat (acc + ucast (half (m a) (m (a + 1)))) + 65280 * (len - 2) < 2 ^ 32" using "1.prems" True h unfolding u by simp
    from "1.IH" [OF True this, folded k_def] obtain acc' where
      "chk_bulk m (a + 2) (len - 2) (acc + ucast (half (m a) (m (a + 1)))) = (acc', a + 2 + of_nat (2 * k), (len - 2) mod 2)"
      "unat acc' = unat acc + unat (half (m a) (m (a + 1))) + weigh False (mem_read m (a + 2) (2 * k))"
      unfolding u by blast
    moreover have "a + 2 + of_nat (2 * k) = a + of_nat (2 + 2 * k)" by simp
    ultimately show ?thesis
      unfolding k using True by (simp add: chk_bulk.simps [of m a len] mem_read_add [of m a 2] mem_read_2 half_nat add.commute [of 2 a] del: of_nat_add of_nat_mult)
  qed (simp add: chk_bulk.simps [of m a len])
qed

lemma chksum_total:
  assumes "chk_bulk m a len 0 = (acc, ps, l)" "t0 = (if l > 0 then m ps else 0)" "len \<le> 65535" "t1 = 0 \<or> len \<le> 65534"
  shows "unat (acc + ucast (half t0 t1)) = weigh False (mem_read m a len) + 256 * unat t1"
proof -
  from chk_bulk_nat [of 0 len m a] assms(1,3) have
    b: "ps = a + of_nat (2 * (len div 2))" "l = len mod 2" "unat acc = weigh False (mem_read m a (2 * (len div 2)))" by auto
  have "2 * (len div 2) + l = len" by (simp add: b(2))
  then have "mem_read m a len = mem_read m a (2 * (len div 2)) @ mem_read m ps l"
    using mem_read_add [of m a "2 * (len div 2)" l, folded b(1)] by (simp only:)
  then have e: "weigh False (mem_read m a len) = unat acc + weigh False (mem_read m ps l)"
    using weigh_append [of False "mem_read m a (2 * (len div 2))" "mem_read m ps l"]
    by (simp add: b(3))
  have t: "weigh False (mem_read m ps l) = unat t0" 
  proof (cases "l = 0")
    case False
    then have "l = 1" by (simp add: b(2))
    then show ?thesis by (simp add: assms(2))
  qed (simp add: assms(2))
  have "weigh False (mem_read m a len) \<le> 65280 * len" using weigh_le by (metis length_mem_read)
  moreover have "256 * unat t1 \<le> 65280" using unat_lt2p_aux [of t1] by simp
  ultimately have "unat acc + (unat t0 + 256 * unat t1) < 2 ^ 32" using assms(3,4) e t by auto
  then show ?thesis by (subst unat_word_ariths(1)) (simp add: unat_u16_u32 half_nat e t)
qed

lemma standard_chksum:
  assumes "len \<le> 65535"
  shows "unat (lwip_standard_chksum m a len) = ones (weigh False (mem_read m a len))"
proof -
  define k where "k \<longleftrightarrow> a AND 1 \<noteq> 0"
  define t1 pb n where "t1 = (if k \<and> len > 0 then m a else 0)" and "pb = (if k \<and> len > 0 then a + 1 else a)"
    and "n = (if k \<and> len > 0 then len - 1 else len)"
  obtain acc ps l where c: "chk_bulk m pb n 0 = (acc, ps, l)" by (metis prod_cases3)
  define r where "r = FOLD_U32T (FOLD_U32T (acc + ucast (half (if l > 0 then m ps else 0) t1)))"
  have w: "lwip_standard_chksum m a len = ucast (if k then SWAP_BYTES_IN_WORD r else r)"
  proof (cases "k \<and> len > 0")
    case True
    then have "t1 = m a" "pb = a + 1" "n = len - 1" by (simp_all add: t1_def pb_def n_def)
    then show ?thesis using c True unfolding lwip_standard_chksum_def k_def [symmetric] by (simp add: Let_def r_def)
  next
    case False
    then have "t1 = 0" "pb = a" "n = len" by (auto simp: t1_def pb_def n_def)
    then show ?thesis
      using c False unfolding lwip_standard_chksum_def k_def [symmetric] Let_def if_not_P [OF False] by (simp only: prod.case r_def)
  qed
  have "n \<le> 65535" "t1 = 0 \<or> n \<le> 65534" using assms by (auto simp: n_def t1_def)
  from chksum_total [OF c refl this] have r: "unat r = ones (weigh False (mem_read m pb n) + 256 * unat t1)"
    by (simp add: r_def fold_twice)
  show ?thesis
  proof (cases k)
    case True
    have "weigh False (mem_read m pb n) + 256 * unat t1 = weigh True (mem_read m a len)"
      using True by (cases len) (simp_all add: pb_def n_def t1_def)
    with r have "unat (SWAP_BYTES_IN_WORD r) = ones (weigh False (mem_read m a len))"
      using swap_ones [of r] weigh_swap [of True] by simp
    then show ?thesis using True ones_less unfolding w by (simp add: unat_u32_u16)
  next
    case False
    then show ?thesis using r ones_less unfolding w by (simp add: unat_u32_u16 pb_def n_def t1_def)
  qed
qed

subsection \<open>Chains of buffers\<close>

lemma ones_plus: "ones a = ones a' \<Longrightarrow> ones b = ones b' \<Longrightarrow> ones (a + b) = ones (a' + b')"
  by (metis add.commute ones_add)

definition shifted :: "bool \<Rightarrow> nat \<Rightarrow> nat" where
  "shifted k n = (if k then 256 * n else n)"

lemma shifted_twice: "ones (shifted k (shifted j n)) = ones (shifted (k \<noteq> j) n)"
  using ones_65536 [of n] by (simp add: shifted_def)

lemma shifted_weigh: "ones (shifted k (weigh j bs)) = ones (weigh (j \<noteq> k) bs)"
  using weigh_swap [of j bs] by (simp add: shifted_def)

lemma shifted_plus: "shifted k (a + b) = shifted k a + shifted k b"
  by (simp add: shifted_def)

lemma shifted_append:
  "ones (shifted (odd (length ys)) (shifted (odd (length xs)) (n + weigh False xs) + weigh False ys))
     = ones (shifted (odd (length (xs @ ys))) (n + weigh False (xs @ ys)))"
proof -
  let ?i = "odd (length xs)" and ?j = "odd (length ys)"
  have e: "odd (length (xs @ ys)) = (?j \<noteq> ?i)" by auto
  have "ones (shifted ?j (weigh False ys)) = ones (shifted (?j \<noteq> ?i) (weigh ?i ys))"
    unfolding shifted_weigh by (rule arg_cong [of _ _ "\<lambda>k. ones (weigh k ys)"]) auto
  from ones_plus [OF shifted_twice [of ?j ?i "n + weigh False xs"] this]
  have "ones (shifted ?j (shifted ?i (n + weigh False xs) + weigh False ys))
      = ones (shifted (?j \<noteq> ?i) (n + weigh False xs) + shifted (?j \<noteq> ?i) (weigh ?i ys))"
    by (simp only: shifted_plus)
  then show ?thesis by (simp only: shifted_plus e weigh_append add.assoc) simp
qed

lemma chk_chain_ones:
  assumes "chain (pbufs s) q qs" "unat acc = ones n"
  shows "\<exists>acc'. chk_chain q acc sw s = Some (acc', sw \<noteq> odd (size_of (pbufs s) qs)) \<and>
    unat acc' = ones (shifted (odd (size_of (pbufs s) qs)) (n + weigh False (content (lmem s) (pbufs s) qs)))"
  using assms
proof (induction qs arbitrary: q acc sw n)
  case Nil
  then show ?case by (subst chk_chain.simps) (simp add: shifted_def)
next
  case (Cons x qs)
  let ?b = "pbufs s x" let ?bs = "mem_read (lmem s) (pb_payload ?b) (unat (pb_len ?b))" let ?k = "odd (unat (pb_len ?b))"
  define a1 where "a1 = FOLD_U32T (acc + ucast (lwip_standard_chksum (lmem s) (pb_payload ?b) (unat (pb_len ?b))))"
  have q: "q = x" "x \<noteq> 0" "chain (pbufs s) (pb_next ?b) qs" using Cons.prems(1) by simp_all
  have l: "unat (pb_len ?b) \<le> 65535" using unat_lt2p_aux [of "pb_len ?b"] by simp
  have "unat (acc + ucast (lwip_standard_chksum (lmem s) (pb_payload ?b) (unat (pb_len ?b)))) = ones n + ones (weigh False ?bs)"
    using ones_less [of n] ones_less [of "weigh False ?bs"]
    by (subst unat_word_ariths(1)) (simp add: Cons.prems(2) standard_chksum [OF l])
  then have "unat a1 = ones (ones n + ones (weigh False ?bs))"
    using ones_less [of n] ones_less [of "weigh False ?bs"] by (simp add: a1_def fold_ones)
  then have a1: "unat a1 = ones (n + weigh False ?bs)" by (metis add.commute ones_add)
  define a2 where "a2 = (if ?k then SWAP_BYTES_IN_WORD a1 else a1)"
  have a2: "unat a2 = ones (shifted ?k (n + weigh False ?bs))" using a1 swap_ones [OF a1] by (simp add: a2_def shifted_def)
  have o: "pb_len ?b mod 2 \<noteq> 0 \<longleftrightarrow> ?k" by (simp add: word_unat_eq_iff unat_mod_distrib odd_iff_mod_2_eq_one)
  have "chk_chain q acc sw s = chk_chain (pb_next ?b) a2 (sw \<noteq> ?k) s"
    by (subst chk_chain.simps) (use q o in \<open>auto simp: Let_def a1_def a2_def\<close>)
  moreover have "(sw \<noteq> ?k) \<noteq> odd (size_of (pbufs s) qs) \<longleftrightarrow> sw \<noteq> odd (size_of (pbufs s) (x # qs))" by auto
  moreover note Cons.IH [OF q(3) a2, of "sw \<noteq> ?k"]
    shifted_append [of "content (lmem s) (pbufs s) qs" ?bs n]
  ultimately show ?case by simp
qed

subsection \<open>The checksum of RFC 1071\<close>

text \<open>
  The half words of a byte string, high byte first, padded with a zero byte; addition with end-around carry; the complement of the sum.
\<close>

fun words16 :: "bytes \<Rightarrow> nat list" where
  "words16 [] = []"
| "words16 [b] = [256 * unat b]"
| "words16 (b # c # bs) = (256 * unat b + unat c) # words16 bs"

definition carry_add :: "nat \<Rightarrow> nat \<Rightarrow> nat" where
  "carry_add a b = (if a + b > 0xFFFF then a + b - 0xFFFF else a + b)"

definition rfc1071 :: "bytes \<Rightarrow> nat" where
  "rfc1071 bs = 0xFFFF - foldl carry_add 0 (words16 bs)"

lemma words16_less: "w \<in> set (words16 bs) \<Longrightarrow> w < 65536"
proof (induction bs rule: words16.induct)
  case (2 b)
  then show ?case using unat_lt2p_aux [of b] by simp
next
  case (3 b c bs)
  then show ?case using unat_lt2p_aux [of b] unat_lt2p_aux [of c] by auto
qed simp

lemma words16_weigh: "sum_list (words16 bs) = weigh True bs"
  by (induction bs rule: words16.induct) simp_all

lemma carry_add_ones: "a < 65536 \<Longrightarrow> b < 65536 \<Longrightarrow> carry_add a b = ones (a + b)"
proof (rule ones_unique)
  assume a: "a < 65536" "b < 65536"
  show "carry_add a b < 65536" "carry_add a b = 0 \<longleftrightarrow> a + b = 0" using a by (auto simp: carry_add_def)
  show "carry_add a b mod 65535 = (a + b) mod 65535"
    by (simp add: carry_add_def le_mod_geq)
qed

lemma carry_sum: "(\<And>w. w \<in> set ws \<Longrightarrow> w < 65536) \<Longrightarrow> foldl carry_add (ones n) ws = ones (n + sum_list ws)"
proof (induction ws arbitrary: n)
  case (Cons w ws)
  have "carry_add (ones n) w = ones (n + w)" using Cons.prems carry_add_ones [OF ones_less] by (simp add: ones_add)
  then show ?case using Cons.IH [of "n + w"] Cons.prems by (simp add: add.assoc)
qed simp

lemma rfc1071_ones: "rfc1071 bs = 65535 - ones (weigh True bs)"
  using carry_sum [of "words16 bs" 0] words16_less [of _ bs] by (simp add: rfc1071_def words16_weigh)

subsection \<open>Results of the code\<close>

lemma unat_not16: "unat (NOT x :: u16) = 65535 - unat x"
proof -
  have "NOT x = - 1 - x" by (simp add: not_eq_complement)
  moreover have "unat (- 1 - x) = unat (- 1 :: u16) - unat x" by (rule unat_sub) simp
  moreover have "unat (- 1 :: u16) = 65535" by (simp add: unsigned_minus_1_eq_mask mask_eq_exp_minus_1)
  ultimately show ?thesis by simp
qed

lemma htons_swap: "lwip_htons x = ucast (SWAP_BYTES_IN_WORD (ucast x))"
  by (rule bit_word_eqI) (auto simp: lwip_htons_def SWAP_BYTES_IN_WORD_def bit_simps)

lemma htons_not: "lwip_htons (NOT x) = NOT (lwip_htons x)"
proof -
  have f: "(0xFF :: u16) = mask 8" by (simp add: mask_eq_exp_minus_1)
  have g: "(0xFF00 :: u16) = push_bit 8 (mask 8)" by (simp add: mask_eq_exp_minus_1 push_bit_eq_mult)
  show ?thesis unfolding lwip_htons_def f g by (rule bit_word_eqI) (auto simp: bit_simps)
qed

lemma htons_ones: "unat x = ones n \<Longrightarrow> unat (lwip_htons x) = ones (256 * n)"
proof -
  assume "unat x = ones n"
  then have "unat (ucast x :: u32) = ones n" by simp
  from swap_ones [OF this] show ?thesis using ones_less by (simp add: htons_swap unat_u32_u16)
qed

text \<open>A sum of little endian half words, complemented, is the checksum in network order.\<close>

lemma complement_rfc1071:
  assumes "unat x = ones (weigh False bs)"
  shows "unat (lwip_htons (NOT x)) = rfc1071 bs"
  using htons_ones [OF assms] weigh_swap [of False bs] by (simp add: htons_not unat_not16 rfc1071_ones)

lemma not_low: "ucast (NOT (acc AND 0xFFFF) :: u32) = (NOT (ucast acc) :: u16)"
  unfolding mask16 by (rule bit_word_eqI) (auto simp: bit_simps)

lemma chain_sum:
  assumes "chain (pbufs s) p qs" "unat acc = ones n"
  shows "\<exists>a k. chk_chain p acc False s = Some (a, k) \<and>
    unat (if k then SWAP_BYTES_IN_WORD a else a) = ones (n + weigh False (content (lmem s) (pbufs s) qs))"
proof -
  let ?k = "odd (size_of (pbufs s) qs)" and ?n = "n + weigh False (content (lmem s) (pbufs s) qs)"
  from chk_chain_ones [OF assms, of False] obtain a where
    a: "chk_chain p acc False s = Some (a, ?k)" "unat a = ones (shifted ?k ?n)" by auto
  have "unat (if ?k then SWAP_BYTES_IN_WORD a else a) = ones (shifted ?k (shifted ?k ?n))"
    using swap_ones [OF a(2)] a(2) by (simp add: shifted_def [of True] shifted_def [of False])
  then show ?thesis using a(1) shifted_twice [of ?k ?k ?n] by (auto simp: shifted_def [of False])
qed

lemma weigh_putle32: "weigh False (putle32 a) = unat (a AND 0xFFFF) + unat (drop_bit 16 a AND 0xFFFF)"
proof -
  have m: "unat (a AND 0xFFFF) = unat a mod 65536" for a :: u32
    unfolding mask16 by (simp add: take_bit_eq_mask [symmetric] take_bit_eq_mod unat_mod_distrib)
  have b: "unat (ucast a :: u8) = unat a mod 256" for a :: u32
    by (simp add: unsigned_ucast_eq take_bit_eq_mod)
  have d: "unat (drop_bit k a) = unat a div 2 ^ k" for k and a :: u32
    unfolding unat_drop_bit_eq by (rule drop_bit_eq_div)
  define n where "n = unat a"
  have "n mod 65536 = n mod 256 + 256 * (n div 256 mod 256)" "n div 65536 mod 65536 = n div 65536 mod 256 + 256 * (n div 16777216 mod 256)"
    using mod_mult2_eq [of n 256 256] mod_mult2_eq [of "n div 65536" 256 256] by (simp_all add: div_mult2_eq [symmetric])
  then show ?thesis by (simp add: putle32_def m b d n_def)
qed

lemma pseudo_addrs_ones: "unat (pseudo_addrs src dest) = ones (weigh False (putle32 src @ putle32 dest))"
proof -
  have m: "unat (a AND 0xFFFF) < 65536" for a :: u32
    unfolding mask16 by (simp add: take_bit_eq_mask [symmetric] take_bit_eq_mod unat_mod_distrib)
  have "unat ((src AND 0xFFFF) + (drop_bit 16 src AND 0xFFFF) + (dest AND 0xFFFF) + (drop_bit 16 dest AND 0xFFFF))
      = weigh False (putle32 src) + weigh False (putle32 dest)"
    using m [of src] m [of "drop_bit 16 src"] m [of dest] m [of "drop_bit 16 dest"]
    by (simp add: unat_word_ariths weigh_putle32)
  then show ?thesis by (simp add: pseudo_addrs_def Let_def fold_twice weigh_append)
qed

lemma unat_htons: "unat (lwip_htons x) = 256 * (unat x mod 256) + unat x div 256"
  using swap_nat [of "ucast x"] unat_lt2p_aux [of x] by (simp add: htons_swap unat_u32_u16)

text \<open>The 12 bytes of the pseudo header, of which the code adds the last four after the data.\<close>

definition pseudo_header :: "u32 \<Rightarrow> u32 \<Rightarrow> u8 \<Rightarrow> u16 \<Rightarrow> bytes" where
  "pseudo_header src dest proto len = putle32 src @ putle32 dest @ [0, proto] @ putbe16 len"

lemma weigh_trailer: "weigh False ([0, proto] @ putbe16 len) = unat (lwip_htons (ucast proto)) + unat (lwip_htons len)"
proof -
  have b: "unat (ucast a :: u8) = unat a mod 256" for a :: u16
    by (simp add: unsigned_ucast_eq take_bit_eq_mod)
  have "unat proto < 256" "unat len < 65536" using unat_lt2p_aux [of proto] unat_lt2p_aux [of len] by simp_all
  then show ?thesis by (simp add: putbe16_def unat_htons b drop_bit_eq_div unat_div_distrib div_less_iff_less_mult)
qed

lemma pseudo_sum:
  assumes "unat a = ones n"
  shows "unat (FOLD_U32T (FOLD_U32T (a + ucast (lwip_htons (ucast proto)) + ucast (lwip_htons len))))
    = ones (n + weigh False ([0, proto] @ putbe16 len))"
proof -
  have "unat (a + ucast (lwip_htons (ucast proto)) + ucast (lwip_htons len)) = ones n + weigh False ([0, proto] @ putbe16 len)"
    using ones_less [of n] unat_lt2p_aux [of "lwip_htons (ucast proto)"] unat_lt2p_aux [of "lwip_htons len"]
    unfolding weigh_trailer by (simp add: unat_word_ariths assms)
  then show ?thesis by (simp add: fold_twice ones_add)
qed

lemma block_checksum: "unat (lwip_htons (inet_chksum m a len)) = rfc1071 (mem_read m a (unat len))"
proof -
  have "unat len \<le> 65535" using unat_lt2p_aux [of len] by simp
  from standard_chksum [OF this] show ?thesis unfolding inet_chksum_def by (rule complement_rfc1071)
qed

lemma complement_low:
  assumes "unat r = ones (weigh False bs)"
  shows "unat (lwip_htons (ucast (NOT (r AND 0xFFFF) :: u32))) = rfc1071 bs"
proof -
  have "unat (ucast r :: u16) = ones (weigh False bs)" using assms ones_less by (simp add: unat_u32_u16)
  from complement_rfc1071 [OF this] show ?thesis unfolding not_low .
qed

lemma packet_checksum:
  assumes "chain (pbufs s) p qs"
  shows "\<exists>r. inet_chksum_pbuf p s = Some r \<and> unat (lwip_htons r) = rfc1071 (content (lmem s) (pbufs s) qs)"
proof -
  from chain_sum [OF assms, of 0 0] obtain a k where
    c: "chk_chain p 0 False s = Some (a, k)"
    and u: "unat (if k then SWAP_BYTES_IN_WORD a else a) = ones (weigh False (content (lmem s) (pbufs s) qs))" by auto
  show ?thesis unfolding inet_chksum_pbuf_def c Let_def using complement_low [OF u] by (simp only: bind.simps prod.case) blast
qed

lemma pseudo_checksum:
  assumes "chain (pbufs s) p qs"
  shows "\<exists>r. ip_chksum_pseudo p proto plen src dest s = Some r
    \<and> unat (lwip_htons r) = rfc1071 (pseudo_header src dest proto plen @ content (lmem s) (pbufs s) qs)"
proof -
  let ?c = "content (lmem s) (pbufs s) qs"
  from chain_sum [OF assms pseudo_addrs_ones, of src dest] obtain a k where
    c: "chk_chain p (pseudo_addrs src dest) False s = Some (a, k)"
    and u: "unat (if k then SWAP_BYTES_IN_WORD a else a) = ones (weigh False (putle32 src @ putle32 dest) + weigh False ?c)" by auto
  define r where "r = FOLD_U32T (FOLD_U32T ((if k then SWAP_BYTES_IN_WORD a else a) + ucast (lwip_htons (ucast proto)) + ucast (lwip_htons plen)))"
  have "unat r = ones (weigh False (pseudo_header src dest proto plen @ ?c))"
    using pseudo_sum [OF u, of proto plen, folded r_def] by (simp add: pseudo_header_def weigh_append add_ac)
  from complement_low [OF this] show ?thesis
    unfolding ip_chksum_pseudo_def inet_chksum_pseudo_def inet_cksum_pseudo_base_def c Let_def r_def
    by (simp only: bind.simps prod.case) blast
qed

text \<open>
  C13. The checksums of a memory block, of a packet, and of a packet with its pseudo header are the one's complement checksums of RFC 1071,
  of the bytes in network order, whatever the alignment of the data and the division of the packet into buffers of even or
  odd length.
\<close>

theorem checksum_is_rfc1071:
  assumes "chain (pbufs s) p qs"
  shows "unat (lwip_htons (inet_chksum m a len)) = rfc1071 (mem_read m a (unat len))
    \<and> (\<exists>r. inet_chksum_pbuf p s = Some r \<and> unat (lwip_htons r) = rfc1071 (content (lmem s) (pbufs s) qs))
    \<and> (\<exists>r. ip_chksum_pseudo p proto plen src dest s = Some r
      \<and> unat (lwip_htons r) = rfc1071 (pseudo_header src dest proto plen @ content (lmem s) (pbufs s) qs))"
  using block_checksum packet_checksum [OF assms] pseudo_checksum [OF assms] by blast

definition odd_buffers :: stack where
  "odd_buffers = two_buffers\<lparr>pbufs := (pbufs two_buffers)(8 := (pbufs two_buffers 8)\<lparr>pb_payload := 0x101, pb_tot_len := 3, pb_len := 1\<rparr>)\<rparr>"

theorem checksum_is_rfc1071_witness:
  "unat (lwip_htons (inet_chksum (lmem odd_buffers) 0x101 1)) = 0xF8FF
    \<and> (\<exists>r. inet_chksum_pbuf 8 odd_buffers = Some r \<and> unat (lwip_htons r) = 0xF8F6)
    \<and> (\<exists>r. ip_chksum_pseudo 8 17 3 0x0100A8C0 0x0200A8C0 odd_buffers = Some r \<and> unat (lwip_htons r) = 0x778E)"
proof -
  have c: "chain (pbufs odd_buffers) 8 [8, 12]" "content (lmem odd_buffers) (pbufs odd_buffers) [8, 12] = [7, 9, 0]"
    "mem_read (lmem odd_buffers) 0x101 (unat (1 :: u16)) = [7]"
    by (simp_all add: odd_buffers_def two_buffers_def mem_read_2)
  have "rfc1071 [7] = 0xF8FF" "rfc1071 [7, 9, 0] = 0xF8F6"
    "rfc1071 (pseudo_header 0x0100A8C0 0x0200A8C0 17 3 @ [7, 9, 0]) = 0x778E"
    by (simp_all add: rfc1071_def carry_add_def pseudo_header_def putle32_def putbe16_def)
  with checksum_is_rfc1071 [OF c(1), of "lmem odd_buffers" "0x101" 1 17 3 "0x0100A8C0" "0x0200A8C0"] c(2,3)
  show ?thesis by simp
qed

end
