(* ===== verification/Ip4Addr.thy ===== *)
theory Ip4Addr
  imports Chksum
begin

text \<open>
  IPv4 addresses, \<^verbatim>\<open>arm_host/source/lwip/ipv4/ip4_addr.c\<close>: masks, broadcast addresses, and the conversions from and to text. A C string is the
  list of its bytes up to the terminating zero, which is what reading past its end gives.
\<close>

subsection \<open>The code\<close>

record netif4 =
  nif_flags :: u8
  nif_ip4 :: u32
  nif_netmask :: u32

definition ip4_addr_isbroadcast_u32 :: "u32 \<Rightarrow> 'a netif4_scheme \<Rightarrow> bool" where
  "ip4_addr_isbroadcast_u32 addr netif =
    (if NOT addr = 0 \<or> addr = 0 then True
     else if nif_flags netif AND 0x02 = 0 then False
     else if addr = nif_ip4 netif then False
     else if addr AND nif_netmask netif = nif_ip4 netif AND nif_netmask netif
       \<and> addr AND NOT (nif_netmask netif) = 0xFFFFFFFF AND NOT (nif_netmask netif) then True
     else False)"

text \<open>The two loops over the bits of a mask, with the bit they have reached.\<close>

function mask_ones :: "u32 \<Rightarrow> u32 \<Rightarrow> u32" where
  "mask_ones nm m = (if m \<noteq> 0 then if nm AND m = 0 then m else mask_ones nm (drop_bit 1 m) else m)"
  by pat_completeness auto

termination
  by (relation "measure (\<lambda>(nm, m). unat m)") (auto simp: drop_bit_eq_div unat_div_distrib unat_gt_0)

function mask_zeros :: "u32 \<Rightarrow> u32 \<Rightarrow> bool" where
  "mask_zeros nm m = (if m \<noteq> 0 then if nm AND m \<noteq> 0 then False else mask_zeros nm (drop_bit 1 m) else True)"
  by pat_completeness auto

termination
  by (relation "measure (\<lambda>(nm, m). unat m)") (auto simp: drop_bit_eq_div unat_div_distrib unat_gt_0)

declare mask_ones.simps [simp del] mask_zeros.simps [simp del]

definition ip4_addr_netmask_valid :: "u32 \<Rightarrow> bool" where
  "ip4_addr_netmask_valid netmask =
    (let nm_hostorder = lwip_htonl netmask in mask_zeros nm_hostorder (mask_ones nm_hostorder (push_bit 31 1)))"

definition cur :: "bytes \<Rightarrow> u8" where
  "cur cp = (case cp of [] \<Rightarrow> 0 | c # cs \<Rightarrow> c)"

definition lwip_isdigit :: "u8 \<Rightarrow> bool" where
  "lwip_isdigit c \<longleftrightarrow> c \<ge> 0x30 \<and> c \<le> 0x39"

definition lwip_islower :: "u8 \<Rightarrow> bool" where
  "lwip_islower c \<longleftrightarrow> c \<ge> 0x61 \<and> c \<le> 0x7A"

definition lwip_isxdigit :: "u8 \<Rightarrow> bool" where
  "lwip_isxdigit c \<longleftrightarrow> lwip_isdigit c \<or> c \<ge> 0x61 \<and> c \<le> 0x66 \<or> c \<ge> 0x41 \<and> c \<le> 0x46"

definition lwip_isspace :: "u8 \<Rightarrow> bool" where
  "lwip_isspace c \<longleftrightarrow> c \<in> {0x20, 0x0C, 0x0A, 0x0D, 0x09, 0x0B}"

primrec aton_digits :: "u32 \<Rightarrow> u32 \<Rightarrow> bytes \<Rightarrow> u32 \<times> bytes" where
  "aton_digits base val [] = (val, [])"
| "aton_digits base val (c # cs) =
    (if lwip_isdigit c then
       if base = 8 \<and> ucast (c - 0x30) \<ge> (8 :: u32) then (val, c # cs)
       else aton_digits base (val * base + ucast (c - 0x30)) cs
     else if base = 16 \<and> lwip_isxdigit c then
       aton_digits base (push_bit 4 val OR ucast (c + 10 - (if lwip_islower c then 0x61 else 0x41))) cs
     else (val, c # cs))"

definition aton_number :: "bytes \<Rightarrow> u32 \<times> bytes" where
  "aton_number cp =
    (if cur cp = 0x30 then
       let cp = tl cp in
       if cur cp = 0x78 \<or> cur cp = 0x58 then aton_digits 16 0 (tl cp) else aton_digits 8 0 cp
     else aton_digits 10 0 cp)"

lemma digits_length: "length (snd (aton_digits base val cp)) \<le> length cp"
  by (induction cp arbitrary: val) (auto intro: le_SucI)

lemma number_length: "length (snd (aton_number cp)) \<le> length cp"
proof -
  have "length (snd (aton_digits b v (tl (tl cp)))) \<le> length cp" "length (snd (aton_digits b v (tl cp))) \<le> length cp" for b v
    using digits_length [of b v "tl (tl cp)"] digits_length [of b v "tl cp"] by simp_all
  then show ?thesis using digits_length by (simp add: aton_number_def Let_def)
qed

text \<open>The loop over the parts; the result is the parts before the last one, the last one, and what follows it.\<close>

function aton_parts :: "u32 list \<Rightarrow> bytes \<Rightarrow> (u32 list \<times> u32 \<times> bytes) option" where
  "aton_parts parts cp =
    (if \<not> lwip_isdigit (cur cp) then None
     else let (val, cp) = aton_number cp in
       if cp \<noteq> [] \<and> cur cp = 0x2E then if length parts \<ge> 3 then None else aton_parts (parts @ [val]) (tl cp)
       else Some (parts, val, cp))"
  by pat_completeness auto

termination
proof (relation "measure (\<lambda>(parts, cp). length cp)", goal_cases)
  case (2 parts cp x val rest)
  then have "length rest \<le> length cp" using number_length [of cp] by (metis snd_conv)
  then show ?case using 2 by (cases rest) auto
qed simp

declare aton_parts.simps [simp del]

definition ip4addr_aton :: "bytes \<Rightarrow> u32 option" where
  "ip4addr_aton cp = (case aton_parts [] cp of None \<Rightarrow> None
   | Some (parts, val, cp) \<Rightarrow>
     if cur cp \<noteq> 0 \<and> \<not> lwip_isspace (cur cp) then None
     else map_option lwip_htonl (case parts of
       [] \<Rightarrow> Some val
     | [a] \<Rightarrow> if val > 0xFFFFFF then None else if a > 0xFF then None else Some (val OR push_bit 24 a)
     | [a, b] \<Rightarrow> if val > 0xFFFF then None else if a > 0xFF \<or> b > 0xFF then None else Some (val OR (push_bit 24 a OR push_bit 16 b))
     | [a, b, c] \<Rightarrow> if val > 0xFF then None else if a > 0xFF \<or> b > 0xFF \<or> c > 0xFF then None
         else Some (val OR (push_bit 24 a OR push_bit 16 b OR push_bit 8 c))
     | _ \<Rightarrow> Some val))"

definition ipaddr_addr :: "bytes \<Rightarrow> u32" where
  "ipaddr_addr cp = (case ip4addr_aton cp of Some val \<Rightarrow> val | None \<Rightarrow> 0xFFFFFFFF)"

function inv_digits :: "u8 \<Rightarrow> bytes" where
  "inv_digits ap = (let rem = ap mod 10; ap = ap div 10 in (0x30 + rem) # (if ap \<noteq> 0 then inv_digits ap else []))"
  by pat_completeness auto

termination
proof (relation "measure unat", goal_cases)
  case (2 ap rem x)
  then have "unat ap \<noteq> 0" by (auto simp: unat_eq_0)
  then show ?case using 2 by (simp add: unat_div_distrib)
qed simp

declare inv_digits.simps [simp del]

definition ntoa_put :: "int \<Rightarrow> u8 \<Rightarrow> bytes \<Rightarrow> bytes option" where
  "ntoa_put buflen c out = (if int (length out) \<ge> buflen then None else Some (out @ [c]))"

text \<open>One turn of the loop over the bytes of the address.\<close>

definition ntoa_byte :: "int \<Rightarrow> u8 \<Rightarrow> bytes \<Rightarrow> bytes option" where
  "ntoa_byte buflen ap out = do {
     out \<leftarrow> fold (\<lambda>c r. Option.bind r (ntoa_put buflen c)) (rev (inv_digits ap)) (Some out);
     ntoa_put buflen 0x2E out }"

definition ip4addr_ntoa_r :: "u32 \<Rightarrow> int \<Rightarrow> bytes option" where
  "ip4addr_ntoa_r addr buflen = do {
     out \<leftarrow> fold (\<lambda>b r. Option.bind r (ntoa_byte buflen b)) (putle32 addr) (Some []);
     Some (butlast out) }"

definition ip4addr_ntoa :: "u32 \<Rightarrow> bytes option" where
  "ip4addr_ntoa addr = ip4addr_ntoa_r addr 16"

subsection \<open>Text\<close>

definition decimal :: "u8 \<Rightarrow> bytes" where
  "decimal b = rev (inv_digits b)"

lemma decimal_step: "decimal b = (if b div 10 = 0 then [0x30 + b mod 10] else decimal (b div 10) @ [0x30 + b mod 10])"
  by (simp add: decimal_def inv_digits.simps [of b] Let_def)

lemma mod_10: "unat (b mod 10 :: u8) < 10" "unat (0x30 + b mod 10 :: u8) = 48 + unat (b mod 10)"
proof -
  show "unat (b mod 10) < 10" by (simp add: unat_mod_distrib)
  then show "unat (0x30 + b mod 10) = 48 + unat (b mod 10)" by (simp add: unat_word_ariths)
qed

lemma digit_char: "lwip_isdigit (0x30 + b mod 10)" "(0x30 + b mod 10 :: u8) - 0x30 = b mod 10"
  using mod_10 [of b] by (simp_all add: lwip_isdigit_def word_le_nat_alt)

lemma div_mod_10: "ucast (b div 10) * 10 + ucast (b mod 10) = (ucast (b :: u8) :: u32)"
proof -
  have "unat (b div 10) = unat b div 10" "unat (b mod 10) = unat b mod 10" by (simp_all add: unat_div_distrib unat_mod_distrib)
  then have "unat (b div 10) * 10 + unat (b mod 10) = unat b" by simp
  moreover have "unat b < 256" using unat_lt2p_aux [of b] by simp
  ultimately have "unat (ucast (b div 10) * 10 + ucast (b mod 10) :: u32) = unat b" by (simp add: unat_word_ariths)
  then show ?thesis by (simp add: word_unat_eq_iff)
qed

lemma digits_decimal: "aton_digits 10 0 (decimal b @ rest) = aton_digits 10 (ucast b) rest"
proof (induction b arbitrary: rest rule: inv_digits.induct)
  case (1 b)
  show ?case
  proof (cases "b div 10 = 0")
    case True
    then have "b mod 10 = b" using div_mult_mod_eq [of b 10] by simp
    with True show ?thesis using digit_char [of b] by (simp add: decimal_step [of b])
  next
    case False
    then have "aton_digits 10 0 (decimal b @ rest) = aton_digits 10 (ucast (b div 10)) ((0x30 + b mod 10) # rest)"
      using 1 [OF refl refl False] by (simp add: decimal_step [of b])
    also have "\<dots> = aton_digits 10 (ucast (b div 10) * 10 + ucast (b mod 10)) rest" using digit_char [of b] by simp
    finally show ?thesis by (simp only: div_mod_10)
  qed
qed

lemma decimal_head: "b \<noteq> 0 \<Longrightarrow> \<exists>c cs. decimal b = c # cs \<and> lwip_isdigit c \<and> c \<noteq> 0x30"
proof (induction b rule: inv_digits.induct)
  case (1 b)
  show ?case
  proof (cases "b div 10 = 0")
    case True
    then have e: "b mod 10 = b" using div_mult_mod_eq [of b 10] by simp
    then have "0x30 + b mod 10 \<noteq> 0x30" using "1.prems" by simp
    then show ?thesis using True digit_char(1) [of b] by (simp add: decimal_step [of b])
  next
    case False
    then show ?thesis using "1.IH" [OF refl refl False False] by (auto simp: decimal_step [of b])
  qed
qed

lemma decimal_0: "decimal 0 = [0x30]"
  by (subst decimal_step) simp

lemma number_decimal:
  assumes "rest = [] \<or> cur rest = 0x2E"
  shows "lwip_isdigit (cur (decimal b @ rest)) \<and> aton_number (decimal b @ rest) = (ucast b, rest)"
proof -
  have stop: "aton_digits base v rest = (v, rest)" for base v
    using assms by (cases rest) (auto simp: cur_def lwip_isdigit_def lwip_isxdigit_def)
  show ?thesis
  proof (cases "b = 0")
    case True
    have "\<not> (cur rest = 0x78 \<or> cur rest = 0x58)" using assms by (auto simp: cur_def)
    then show ?thesis using stop True by (simp add: decimal_0 aton_number_def cur_def [of "_ # _"] lwip_isdigit_def)
  next
    case False
    from decimal_head [OF this] obtain c cs where c: "decimal b = c # cs" "lwip_isdigit c" "c \<noteq> 0x30" by blast
    have "aton_digits 10 0 (decimal b @ rest) = (ucast b, rest)" using digits_decimal stop by simp
    then show ?thesis using c by (simp add: aton_number_def cur_def [of "_ # _"])
  qed
qed

text \<open>The text of an address.\<close>

definition dotted :: "u8 \<Rightarrow> u8 \<Rightarrow> u8 \<Rightarrow> u8 \<Rightarrow> bytes" where
  "dotted a b c d = decimal a @ 0x2E # decimal b @ 0x2E # decimal c @ 0x2E # decimal d"

lemma parts_step:
  "length ps < 3 \<Longrightarrow> aton_parts ps (decimal b @ 0x2E # rest) = aton_parts (ps @ [ucast b]) rest"
  using number_decimal [of "0x2E # rest" b] by (subst aton_parts.simps) (simp add: cur_def [of "_ # _"])

lemma parts_end: "aton_parts ps (decimal b) = Some (ps, ucast b, [])"
  using number_decimal [of "[]" b] by (subst aton_parts.simps) simp

lemma aton_dotted: "ip4addr_aton (dotted a b c d) = Some (lwip_htonl (ucast d OR (push_bit 24 (ucast a) OR push_bit 16 (ucast b) OR push_bit 8 (ucast c))))"
proof -
  have "aton_parts [] (dotted a b c d) = Some ([ucast a, ucast b, ucast c], ucast d, [])"
    by (simp add: dotted_def parts_step parts_end)
  moreover have "\<not> 0xFF < (ucast x :: u32)" for x :: u8 using unat_lt2p_aux [of x] by (simp add: word_less_nat_alt)
  ultimately show ?thesis by (simp add: ip4addr_aton_def cur_def)
qed

lemma puts_fold:
  "fold (\<lambda>c r. Option.bind r (ntoa_put n c)) cs (Some out) = (if int (length out + length cs) \<le> n then Some (out @ cs) else if cs = [] then Some out else None)"
proof (induction cs arbitrary: out)
  case (Cons c cs)
  have none: "fold (\<lambda>c r. Option.bind r (ntoa_put n c)) cs None = None" by (induction cs) simp_all
  have "ntoa_put n c out = (if n \<le> int (length out) then None else Some (out @ [c]))" by (simp add: ntoa_put_def)
  then show ?case using Cons.IH [of "out @ [c]"] none by auto
qed simp

lemma byte_put:
  "ntoa_byte n b out = (if int (length out + length (decimal b) + 1) \<le> n then Some (out @ decimal b @ [0x2E]) else None)"
proof -
  have "decimal b \<noteq> []" using decimal_step [of b] by simp
  then show ?thesis by (auto simp: ntoa_byte_def decimal_def [symmetric] puts_fold ntoa_put_def)
qed

lemma ntoa_dotted:
  "ip4addr_ntoa_r addr n =
    (let t = dotted (ucast addr) (ucast (drop_bit 8 addr)) (ucast (drop_bit 16 addr)) (ucast (drop_bit 24 addr))
     in if int (length t) < n then Some t else None)"
proof -
  define a b c d where "a = decimal (ucast addr)" and "b = decimal (ucast (drop_bit 8 addr))" and "c = decimal (ucast (drop_bit 16 addr))"
    and "d = decimal (ucast (drop_bit 24 addr))"
  have "fold (\<lambda>b r. Option.bind r (ntoa_byte n b)) (putle32 addr) (Some [])
    = (if int (length a + length b + length c + length d + 4) \<le> n then Some (a @ 0x2E # b @ 0x2E # c @ 0x2E # d @ [0x2E]) else None)"
    by (auto simp: putle32_def byte_put a_def b_def c_def d_def)
  moreover have "butlast (a @ 0x2E # b @ 0x2E # c @ 0x2E # d @ [0x2E]) = dotted (ucast addr) (ucast (drop_bit 8 addr)) (ucast (drop_bit 16 addr)) (ucast (drop_bit 24 addr))"
    by (simp add: dotted_def a_def b_def c_def d_def butlast_append)
  moreover have "length (dotted (ucast addr) (ucast (drop_bit 8 addr)) (ucast (drop_bit 16 addr)) (ucast (drop_bit 24 addr))) = length a + length b + length c + length d + 3"
    by (simp add: dotted_def a_def b_def c_def d_def)
  ultimately show ?thesis by (simp add: ip4addr_ntoa_r_def Let_def)
qed

lemma decimal_length: "length (decimal b) \<le> 3"
proof -
  have u: "unat (x div 10) = unat x div 10" for x :: u8 by (simp add: unat_div_distrib)
  have "unat (b div 10 div 10) < 10" using unat_lt2p_aux [of b] by (simp add: u)
  then have "b div 10 div 10 div 10 = 0" using u [of "b div 10 div 10"] by (simp add: unat_eq_0 [symmetric] del: unat_eq_0)
  then show ?thesis by (simp add: decimal_step [of b] decimal_step [of "b div 10"] decimal_step [of "b div 10 div 10"])
qed

lemma htonl_join:
  fixes a b c d :: u8
  shows "lwip_htonl (ucast d OR (push_bit 24 (ucast a) OR push_bit 16 (ucast b) OR push_bit 8 (ucast c)))
    = ucast a OR push_bit 8 (ucast b) OR push_bit 16 (ucast c) OR push_bit 24 (ucast d)"
proof -
  let ?x = "ucast d OR (push_bit 24 (ucast a) OR push_bit 16 (ucast b) OR push_bit 8 (ucast c)) :: u32"
  have m: "(0xFF :: u32) = mask 8" "(0xFF00 :: u32) = push_bit 8 (mask 8)" "(0xFF0000 :: u32) = push_bit 16 (mask 8)" "(0xFF000000 :: u32) = push_bit 24 (mask 8)"
    by (simp_all add: mask_eq_exp_minus_1 push_bit_eq_mult)
  have "?x AND 0xFF = ucast d" unfolding m by (rule bit_word_eqI) (auto simp: bit_simps dest: bit_u8_less)
  moreover have "?x AND 0xFF00 = push_bit 8 (ucast c)" unfolding m by (rule bit_word_eqI) (auto simp: bit_simps dest: bit_u8_less)
  moreover have "?x AND 0xFF0000 = push_bit 16 (ucast b)" unfolding m by (rule bit_word_eqI) (auto simp: bit_simps dest: bit_u8_less)
  moreover have "?x AND 0xFF000000 = push_bit 24 (ucast a)" unfolding m by (rule bit_word_eqI) (auto simp: bit_simps dest: bit_u8_less)
  moreover have "drop_bit 24 (push_bit 24 (ucast a :: u32)) = ucast a" "drop_bit 8 (push_bit 16 (ucast b :: u32)) = push_bit 8 (ucast b)"
    by (rule bit_word_eqI, auto simp: bit_simps dest: bit_u8_less)+
  ultimately show ?thesis unfolding lwip_htonl_def by (simp only: push_bit_push_bit) (simp add: or.commute or.left_commute)
qed

text \<open>
  C31. Every address has a text of at most 15 characters, which reads back as the same address; with a buffer of any length exactly that
  text is returned when the text and its terminating zero fit, and NULL otherwise. (What part of the text the buffer holds then is not stated.)
\<close>

theorem address_text_roundtrip:
  "\<exists>t. ip4addr_ntoa addr = Some t \<and> length t \<le> 15 \<and> ip4addr_aton t = Some addr
    \<and> (\<forall>n. ip4addr_ntoa_r addr n = (if int (length t) < n then Some t else None))"
proof -
  define t where "t = dotted (ucast addr) (ucast (drop_bit 8 addr)) (ucast (drop_bit 16 addr)) (ucast (drop_bit 24 addr))"
  have "length t \<le> 15"
    using decimal_length [of "ucast addr"] decimal_length [of "ucast (drop_bit 8 addr)"]
      decimal_length [of "ucast (drop_bit 16 addr)"] decimal_length [of "ucast (drop_bit 24 addr)"] by (simp add: t_def dotted_def)
  moreover have "ip4addr_aton t = Some addr" unfolding t_def aton_dotted htonl_join join32 ..
  moreover have "\<forall>n. ip4addr_ntoa_r addr n = (if int (length t) < n then Some t else None)" by (simp add: ntoa_dotted t_def Let_def)
  ultimately show ?thesis by (simp add: ip4addr_ntoa_def)
qed

text \<open>A part of more than 32 bits is taken modulo 2 to the 32, so \<^verbatim>\<open>1.2.3.4294967300\<close> is read as \<^verbatim>\<open>1.2.3.4\<close>.\<close>

lemma overlong_part_accepted:
  "ip4addr_aton [0x31, 0x2E, 0x32, 0x2E, 0x33, 0x2E, 0x34, 0x32, 0x39, 0x34, 0x39, 0x36, 0x37, 0x33, 0x30, 0x30] = Some 0x04030201"
  by code_simp

subsection \<open>Masks\<close>

lemma mask_zeros_pow: "k < 32 \<Longrightarrow> mask_zeros nm (2 ^ k) \<longleftrightarrow> (\<forall>i\<le>k. \<not> bit nm i)"
proof (induction k)
  case 0
  have "nm AND 1 = 0 \<longleftrightarrow> \<not> bit nm 0" using and_exp_eq_0_iff_not_bit [of nm 0] by simp
  then show ?case by (simp add: mask_zeros.simps [of nm 1] mask_zeros.simps [of nm 0])
next
  case (Suc k)
  have "drop_bit 1 (2 ^ Suc k :: u32) = 2 ^ k" by (rule bit_word_eqI) (use Suc.prems in \<open>auto simp: bit_simps\<close>)
  moreover have "(2 :: u32) ^ Suc k \<noteq> 0" using Suc.prems by (simp add: exp_eq_zero_iff del: power_Suc)
  moreover have "nm AND 2 ^ Suc k = 0 \<longleftrightarrow> \<not> bit nm (Suc k)" by (rule and_exp_eq_0_iff_not_bit)
  ultimately have "mask_zeros nm (2 ^ Suc k) \<longleftrightarrow> \<not> bit nm (Suc k) \<and> mask_zeros nm (2 ^ k)"
    by (subst mask_zeros.simps) (simp del: power_Suc)
  then show ?case using Suc by (auto simp: le_Suc_eq simp del: power_Suc)
qed

lemma mask_loops: "k < 32 \<Longrightarrow> mask_zeros nm (mask_ones nm (2 ^ k)) \<longleftrightarrow> (\<exists>n\<le>Suc k. \<forall>i\<le>k. bit nm i \<longleftrightarrow> n \<le> i)"
proof (induction k)
  case 0
  have "nm AND 1 = 0 \<longleftrightarrow> \<not> bit nm 0" using and_exp_eq_0_iff_not_bit [of nm 0] by simp
  moreover have "\<exists>n\<le>Suc 0. \<forall>i\<le>0. bit nm i \<longleftrightarrow> n \<le> i" by (cases "bit nm 0") (auto intro: exI [of _ 0] exI [of _ "Suc 0"])
  ultimately show ?case
    by (simp add: mask_ones.simps [of nm 1] mask_ones.simps [of nm 0] mask_zeros.simps [of nm 1] mask_zeros.simps [of nm 0])
next
  case (Suc k)
  have d: "drop_bit 1 (2 ^ Suc k :: u32) = 2 ^ k" by (rule bit_word_eqI) (use Suc.prems in \<open>auto simp: bit_simps\<close>)
  have z: "(2 :: u32) ^ Suc k \<noteq> 0" using Suc.prems by (simp add: exp_eq_zero_iff del: power_Suc)
  have a: "nm AND 2 ^ Suc k = 0 \<longleftrightarrow> \<not> bit nm (Suc k)" by (rule and_exp_eq_0_iff_not_bit)
  have m: "mask_ones nm (2 ^ Suc k) = (if bit nm (Suc k) then mask_ones nm (2 ^ k) else 2 ^ Suc k)"
    using a d z by (subst mask_ones.simps) (simp del: power_Suc)
  show ?case
  proof (cases "bit nm (Suc k)")
    case True
    then have "(\<exists>n\<le>Suc (Suc k). \<forall>i\<le>Suc k. bit nm i \<longleftrightarrow> n \<le> i) \<longleftrightarrow> (\<exists>n\<le>Suc k. \<forall>i\<le>k. bit nm i \<longleftrightarrow> n \<le> i)"
      by (metis le_Suc_eq order_refl)
    then show ?thesis using Suc True m by (simp del: power_Suc)
  next
    case False
    have "(\<exists>n\<le>Suc (Suc k). \<forall>i\<le>Suc k. bit nm i \<longleftrightarrow> n \<le> i) \<longleftrightarrow> (\<forall>i\<le>Suc k. \<not> bit nm i)"
    proof
      assume "\<exists>n\<le>Suc (Suc k). \<forall>i\<le>Suc k. bit nm i \<longleftrightarrow> n \<le> i"
      then obtain n where n: "\<forall>i\<le>Suc k. bit nm i \<longleftrightarrow> n \<le> i" by blast
      then have "\<not> n \<le> Suc k" using False by blast
      then show "\<forall>i\<le>Suc k. \<not> bit nm i" using n by auto
    next
      assume "\<forall>i\<le>Suc k. \<not> bit nm i"
      then show "\<exists>n\<le>Suc (Suc k). \<forall>i\<le>Suc k. bit nm i \<longleftrightarrow> n \<le> i" by (intro exI [of _ "Suc (Suc k)"]) auto
    qed
    then show ?thesis using False m mask_zeros_pow [OF Suc.prems, of nm] by (simp del: power_Suc)
  qed
qed

text \<open>
  The check of a netmask accepts exactly the words that in host order are ones followed by zeros, the empty mask and the full one included.
\<close>

theorem netmask_is_prefix:
  "ip4_addr_netmask_valid netmask \<longleftrightarrow> (\<exists>n\<le>32. \<forall>i<32. bit (lwip_htonl netmask) i \<longleftrightarrow> n \<le> i)"
proof -
  have "(push_bit 31 1 :: u32) = 2 ^ 31" by (simp add: push_bit_eq_mult)
  then show ?thesis using mask_loops [of 31 "lwip_htonl netmask"] by (simp add: ip4_addr_netmask_valid_def Let_def less_Suc_eq_le [of _ 31, simplified])
qed

end
