(* ===== verification/Etharp.thy ===== *)
theory Etharp
  imports Timeouts Ip4Addr Utils
begin

text \<open>
  The Ethernet layer and the address resolution protocol, \<^verbatim>\<open>arm_host/source/lwip/netif/ethernet.c\<close> and \<^verbatim>\<open>lwip/ipv4/etharp.c\<close>, in the
  configuration of the port: ten entries, one queued packet per entry, no static entries, one interface. What is outside is the
  parameter \<open>E\<close>: the memory of \<open>lw\<close>, the function the interface sends with, the address conflict detection and the input of the IP
  layer. A hardware address is passed as its bytes, an IPv4 address as the word in memory, whose bytes are in network order.
\<close>

subsection \<open>Types\<close>

datatype etharp_state = ETHARP_STATE_EMPTY | ETHARP_STATE_PENDING | ETHARP_STATE_STABLE | ETHARP_STATE_STABLE_REREQUESTING_1
  | ETHARP_STATE_STABLE_REREQUESTING_2

primrec state_code :: "etharp_state \<Rightarrow> u8" where
  "state_code ETHARP_STATE_EMPTY = 0"
| "state_code ETHARP_STATE_PENDING = 1"
| "state_code ETHARP_STATE_STABLE = 2"
| "state_code ETHARP_STATE_STABLE_REREQUESTING_1 = 3"
| "state_code ETHARP_STATE_STABLE_REREQUESTING_2 = 4"

record etharp_entry =
  arp_q :: u32
  arp_ipaddr :: u32
  arp_netif :: u32
  arp_ethaddr :: bytes
  arp_ctime :: u16
  arp_state :: etharp_state

abbreviation (input) "ARP_TABLE_SIZE \<equiv> 10 :: nat"
abbreviation (input) "ARP_MAXAGE \<equiv> 300 :: u16"
abbreviation (input) "ARP_MAXPENDING \<equiv> 5 :: u16"
abbreviation (input) "ARP_AGE_REREQUEST_USED_UNICAST \<equiv> 300 - 30 :: u16"
abbreviation (input) "ARP_AGE_REREQUEST_USED_BROADCAST \<equiv> 300 - 15 :: u16"
abbreviation (input) "ETHARP_FLAG_TRY_HARD \<equiv> 1 :: u8"
abbreviation (input) "ETHARP_FLAG_FIND_ONLY \<equiv> 2 :: u8"
abbreviation (input) "ETHTYPE_IP \<equiv> 0x0800 :: u16"
abbreviation (input) "ETHTYPE_ARP \<equiv> 0x0806 :: u16"
abbreviation (input) "ARP_REQUEST \<equiv> 1 :: u16"
abbreviation (input) "ARP_REPLY \<equiv> 2 :: u16"
abbreviation (input) "SIZEOF_ETH_HDR \<equiv> 22 + 2 :: u16"
abbreviation (input) "SIZEOF_ETHARP_HDR \<equiv> 28 :: u16"

record netif = netif4 +
  nif_gw :: u32
  nif_hwaddr :: bytes
  nif_hwaddr_len :: u8
  nif_num :: u8
  nif_hints :: u32

datatype stat_proto = Stat_xmit | Stat_recv | Stat_drop | Stat_lenerr | Stat_memerr | Stat_proterr | Stat_err | Stat_cachehit

record link = timers +
  netifs :: "u32 \<Rightarrow> netif"
  addr_hint :: "u32 \<Rightarrow> u8"
  etharp_stats :: "stat_proto \<Rightarrow> u16"
  arp_table :: "etharp_entry list"

record 'a link_env =
  link_lw :: lw
  linkoutput :: "u32 \<Rightarrow> u32 \<Rightarrow> 'a link_scheme \<Rightarrow> err_t \<times> 'a link_scheme"
  acd_arp_reply :: "u32 \<Rightarrow> u32 \<Rightarrow> 'a link_scheme \<Rightarrow> 'a link_scheme"
  ip4_input :: "u32 \<Rightarrow> u32 \<Rightarrow> 'a link_scheme \<Rightarrow> 'a link_scheme"

definition ethbroadcast :: bytes where
  "ethbroadcast = [0xff, 0xff, 0xff, 0xff, 0xff, 0xff]"

definition ethzero :: bytes where
  "ethzero = [0, 0, 0, 0, 0, 0]"

definition ETHARP_STATS_INC :: "stat_proto \<Rightarrow> 'a link_scheme \<Rightarrow> 'a link_scheme" where
  "ETHARP_STATS_INC x s = s\<lparr>etharp_stats := (etharp_stats s)(x := etharp_stats s x + 1)\<rparr>"

definition upd_entry :: "nat \<Rightarrow> (etharp_entry \<Rightarrow> etharp_entry) \<Rightarrow> 'a link_scheme \<Rightarrow> 'a link_scheme" where
  "upd_entry i f s = s\<lparr>arp_table := (arp_table s)[i := f (arp_table s ! i)]\<rparr>"

definition poke :: "u32 \<Rightarrow> bytes \<Rightarrow> 'a link_scheme \<Rightarrow> 'a link_scheme" where
  "poke a bs s = s\<lparr>lmem := mem_write (lmem s) a bs\<rparr>"

definition peek16 :: "u32 \<Rightarrow> 'a link_scheme \<Rightarrow> u16" where
  "peek16 a s = ucast (getle16 (view (lmem s) a))"

definition peek32 :: "u32 \<Rightarrow> 'a link_scheme \<Rightarrow> u32" where
  "peek32 a s = getle32 (view (lmem s) a)"

definition ip4_addr_ismulticast :: "u32 \<Rightarrow> bool" where
  "ip4_addr_ismulticast addr \<longleftrightarrow> addr AND lwip_htonl 0xf0000000 = lwip_htonl 0xe0000000"

definition ip4_addr_islinklocal :: "u32 \<Rightarrow> bool" where
  "ip4_addr_islinklocal addr \<longleftrightarrow> addr AND lwip_htonl 0xffff0000 = lwip_htonl 0xa9fe0000"

definition ETHARP_SET_ADDRHINT :: "u32 \<Rightarrow> u8 \<Rightarrow> 'a link_scheme \<Rightarrow> 'a link_scheme" where
  "ETHARP_SET_ADDRHINT netif addrhint s =
    (if netif \<noteq> 0 \<and> nif_hints (netifs s netif) \<noteq> 0
     then s\<lparr>addr_hint := (addr_hint s)(nif_hints (netifs s netif) := addrhint)\<rparr> else s)"

subsection \<open>Sending\<close>

definition ethernet_output ::
  "'a link_env \<Rightarrow> u32 \<Rightarrow> u32 \<Rightarrow> bytes \<Rightarrow> bytes \<Rightarrow> u16 \<Rightarrow> 'a link_scheme \<Rightarrow> err_t \<times> 'a link_scheme" where
  "ethernet_output E netif p src dst eth_type s =
    (let eth_type_be = lwip_htons eth_type;
         (r, s) = pbuf_add_header p (ucast SIZEOF_ETH_HDR) s in
     if r \<noteq> 0 then (ERR_BUF, s)
     else
       let ethhdr = pb_payload (pbufs s p);
           s = poke (ethhdr + 22) (putle16 eth_type_be) s;
           s = poke (ethhdr + 2) dst s;
           s = poke (ethhdr + 8) src s;
           s = poke (ethhdr + 16) [0xAA, 0xAA, 0x03, 0x00, 0x00, 0x00] s;
           s = poke ethhdr [0x00, 0x1C] s;
           eth_len = lwip_htons (pb_len (pbufs s p) - 14);
           s = poke (ethhdr + 14) (putle16 eth_len) s;
           s = LWIP_ASSERT ''netif->hwaddr_len must be 6 for ethernet_output!'' (nif_hwaddr_len (netifs s netif) = 6) s
       in linkoutput E netif p s)"

text \<open>
  The hardware addresses are pointers in the code, some of them into the received packet; here they are values. The two agree
  because \<^verbatim>\<open>malloc\<close> gives the new packet a block that does not overlap a packet in use.
\<close>

definition etharp_raw ::
  "'a link_env \<Rightarrow> u32 \<Rightarrow> bytes \<Rightarrow> bytes \<Rightarrow> bytes \<Rightarrow> u32 \<Rightarrow> bytes \<Rightarrow> u32 \<Rightarrow> u16 \<Rightarrow> 'a link_scheme \<Rightarrow> err_t \<times> 'a link_scheme" where
  "etharp_raw E netif ethsrc_addr ethdst_addr hwsrc_addr ipsrc_addr hwdst_addr ipdst_addr opcode s =
    (let s = LWIP_ASSERT ''netif != NULL'' (netif \<noteq> 0) s;
         (p, s) = pbuf_alloc (link_lw E) PBUF_LINK SIZEOF_ETHARP_HDR PBUF_RAM s in
     if p = 0 then (ERR_MEM, ETHARP_STATS_INC Stat_memerr s)
     else
       let s = LWIP_ASSERT ''check that first pbuf can hold struct etharp_hdr'' (pb_len (pbufs s p) \<ge> SIZEOF_ETHARP_HDR) s;
           hdr = pb_payload (pbufs s p);
           s = poke (hdr + 6) (putle16 (lwip_htons opcode)) s;
           s = LWIP_ASSERT ''netif->hwaddr_len must be the same as ETH_HWADDR_LEN for etharp!'' (nif_hwaddr_len (netifs s netif) = 6) s;
           s = poke (hdr + 8) hwsrc_addr s;
           s = poke (hdr + 18) hwdst_addr s;
           s = poke (hdr + 14) (putle32 ipsrc_addr) s;
           s = poke (hdr + 24) (putle32 ipdst_addr) s;
           s = poke hdr (putle16 (lwip_htons 1)) s;
           s = poke (hdr + 2) (putle16 (lwip_htons ETHTYPE_IP)) s;
           s = poke (hdr + 4) [6] s;
           s = poke (hdr + 5) [4] s;
           s = snd (ethernet_output E netif p ethsrc_addr ethdst_addr ETHTYPE_ARP s);
           s = ETHARP_STATS_INC Stat_xmit s
       in (ERR_OK, snd (pbuf_free p s)))"

definition etharp_request_dst :: "'a link_env \<Rightarrow> u32 \<Rightarrow> u32 \<Rightarrow> bytes \<Rightarrow> 'a link_scheme \<Rightarrow> err_t \<times> 'a link_scheme" where
  "etharp_request_dst E netif ipaddr hw_dst_addr s =
    (let n = netifs s netif in etharp_raw E netif (nif_hwaddr n) hw_dst_addr (nif_hwaddr n) (nif_ip4 n) ethzero ipaddr ARP_REQUEST s)"

definition etharp_request :: "'a link_env \<Rightarrow> u32 \<Rightarrow> u32 \<Rightarrow> 'a link_scheme \<Rightarrow> err_t \<times> 'a link_scheme" where
  "etharp_request E netif ipaddr s = etharp_request_dst E netif ipaddr ethbroadcast s"

definition etharp_acd_probe :: "'a link_env \<Rightarrow> u32 \<Rightarrow> u32 \<Rightarrow> 'a link_scheme \<Rightarrow> err_t \<times> 'a link_scheme" where
  "etharp_acd_probe E netif ipaddr s =
    (let n = netifs s netif in etharp_raw E netif (nif_hwaddr n) ethbroadcast (nif_hwaddr n) 0 ethzero ipaddr ARP_REQUEST s)"

definition etharp_acd_announce :: "'a link_env \<Rightarrow> u32 \<Rightarrow> u32 \<Rightarrow> 'a link_scheme \<Rightarrow> err_t \<times> 'a link_scheme" where
  "etharp_acd_announce E netif ipaddr s =
    (let n = netifs s netif in etharp_raw E netif (nif_hwaddr n) ethbroadcast (nif_hwaddr n) ipaddr ethzero ipaddr ARP_REQUEST s)"

subsection \<open>The table\<close>

definition etharp_free_entry :: "nat \<Rightarrow> 'a link_scheme \<Rightarrow> 'a link_scheme" where
  "etharp_free_entry i s =
    (let s = (if arp_q (arp_table s ! i) \<noteq> 0
              then let s = snd (pbuf_free (arp_q (arp_table s ! i)) s) in upd_entry i (\<lambda>e. e\<lparr>arp_q := 0\<rparr>) s
              else s)
     in upd_entry i (\<lambda>e. e\<lparr>arp_state := ETHARP_STATE_EMPTY, arp_ctime := 0, arp_netif := 0, arp_ipaddr := 0, arp_ethaddr := ethzero\<rparr>) s)"

text \<open>One turn of the loop of \<^verbatim>\<open>etharp_tmr\<close>, and the loop.\<close>

definition tmr_entry :: "'a link_env \<Rightarrow> nat \<Rightarrow> 'a link_scheme \<Rightarrow> 'a link_scheme" where
  "tmr_entry E i s =
    (if arp_state (arp_table s ! i) \<noteq> ETHARP_STATE_EMPTY
     then
       let s = upd_entry i (\<lambda>e. e\<lparr>arp_ctime := arp_ctime e + 1\<rparr>) s; e = arp_table s ! i in
       if arp_ctime e \<ge> ARP_MAXAGE \<or> arp_state e = ETHARP_STATE_PENDING \<and> arp_ctime e \<ge> ARP_MAXPENDING then etharp_free_entry i s
       else if arp_state e = ETHARP_STATE_STABLE_REREQUESTING_1
       then upd_entry i (\<lambda>e. e\<lparr>arp_state := ETHARP_STATE_STABLE_REREQUESTING_2\<rparr>) s
       else if arp_state e = ETHARP_STATE_STABLE_REREQUESTING_2
       then upd_entry i (\<lambda>e. e\<lparr>arp_state := ETHARP_STATE_STABLE\<rparr>) s
       else if arp_state e = ETHARP_STATE_PENDING then snd (etharp_request E (arp_netif e) (arp_ipaddr e) s)
       else s
     else s)"

definition etharp_tmr_all :: "'a link_env \<Rightarrow> 'a link_scheme \<Rightarrow> 'a link_scheme" where
  "etharp_tmr_all E s = fold (tmr_entry E) [0..<ARP_TABLE_SIZE] s"

text \<open>The candidates the search of \<^verbatim>\<open>etharp_find_entry\<close> remembers.\<close>

record candidates =
  c_empty :: nat
  old_pending :: nat
  old_stable :: nat
  old_queue :: nat
  age_pending :: u16
  age_stable :: u16
  age_queue :: u16

definition no_candidates :: candidates where
  "no_candidates = \<lparr>c_empty = ARP_TABLE_SIZE, old_pending = ARP_TABLE_SIZE, old_stable = ARP_TABLE_SIZE, old_queue = ARP_TABLE_SIZE,
     age_pending = 0, age_stable = 0, age_queue = 0\<rparr>"

definition remember :: "nat \<Rightarrow> etharp_entry \<Rightarrow> candidates \<Rightarrow> candidates" where
  "remember i e c =
    (if arp_state e = ETHARP_STATE_PENDING
     then if arp_q e \<noteq> 0
          then if arp_ctime e \<ge> age_queue c then c\<lparr>old_queue := i, age_queue := arp_ctime e\<rparr> else c
          else if arp_ctime e \<ge> age_pending c then c\<lparr>old_pending := i, age_pending := arp_ctime e\<rparr> else c
     else if state_code (arp_state e) \<ge> 2
     then if arp_ctime e \<ge> age_stable c then c\<lparr>old_stable := i, age_stable := arp_ctime e\<rparr> else c
     else c)"

text \<open>The search: the index of a match, or the candidates at its end.\<close>

primrec search_table :: "u32 option \<Rightarrow> etharp_entry list \<Rightarrow> nat list \<Rightarrow> candidates \<Rightarrow> nat + candidates" where
  "search_table ipaddr tbl [] c = Inr c"
| "search_table ipaddr tbl (i # is) c =
    (let e = tbl ! i in
     if c_empty c = ARP_TABLE_SIZE \<and> arp_state e = ETHARP_STATE_EMPTY then search_table ipaddr tbl is (c\<lparr>c_empty := i\<rparr>)
     else if arp_state e \<noteq> ETHARP_STATE_EMPTY
     then if ipaddr = Some (arp_ipaddr e) then Inl i else search_table ipaddr tbl is (remember i e c)
     else search_table ipaddr tbl is c)"

text \<open>The entry to take, and whether it has to be freed first.\<close>

definition choose_entry :: "candidates \<Rightarrow> nat option" where
  "choose_entry c =
    (if old_stable c < ARP_TABLE_SIZE then Some (old_stable c)
     else if old_pending c < ARP_TABLE_SIZE then Some (old_pending c)
     else if old_queue c < ARP_TABLE_SIZE then Some (old_queue c) else None)"

definition new_entry :: "u32 option \<Rightarrow> nat \<Rightarrow> 'a link_scheme \<Rightarrow> (err_t + nat) \<times> 'a link_scheme" where
  "new_entry ipaddr i s =
    (let s = LWIP_ASSERT ''arp_table[i].state == ETHARP_STATE_EMPTY'' (arp_state (arp_table s ! i) = ETHARP_STATE_EMPTY) s;
         s = (case ipaddr of None \<Rightarrow> s | Some a \<Rightarrow> upd_entry i (\<lambda>e. e\<lparr>arp_ipaddr := a\<rparr>) s)
     in (Inr i, upd_entry i (\<lambda>e. e\<lparr>arp_ctime := 0\<rparr>) s))"

definition etharp_find_entry :: "u32 option \<Rightarrow> u8 \<Rightarrow> 'a link_scheme \<Rightarrow> (err_t + nat) \<times> 'a link_scheme" where
  "etharp_find_entry ipaddr flags s =
    (case search_table ipaddr (arp_table s) [0..<ARP_TABLE_SIZE] no_candidates of
       Inl i \<Rightarrow> (Inr i, s)
     | Inr c \<Rightarrow>
        if flags AND ETHARP_FLAG_FIND_ONLY \<noteq> 0 \<or> c_empty c = ARP_TABLE_SIZE \<and> flags AND ETHARP_FLAG_TRY_HARD = 0 then (Inl ERR_MEM, s)
        else if c_empty c < ARP_TABLE_SIZE then new_entry ipaddr (c_empty c) s
        else case choose_entry c of
               None \<Rightarrow> (Inl ERR_MEM, s)
             | Some i \<Rightarrow>
                let s = (if old_stable c < ARP_TABLE_SIZE then LWIP_ASSERT ''arp_table[i].q == NULL'' (arp_q (arp_table s ! i) = 0) s else s)
                in new_entry ipaddr i (etharp_free_entry i s))"

definition etharp_update_arp_entry ::
  "'a link_env \<Rightarrow> u32 \<Rightarrow> u32 \<Rightarrow> bytes \<Rightarrow> u8 \<Rightarrow> 'a link_scheme \<Rightarrow> err_t \<times> 'a link_scheme" where
  "etharp_update_arp_entry E netif ipaddr ethaddr flags s =
    (let s = LWIP_ASSERT ''netif->hwaddr_len == ETH_HWADDR_LEN'' (nif_hwaddr_len (netifs s netif) = 6) s in
     if ipaddr = 0 \<or> ip4_addr_isbroadcast_u32 ipaddr (netifs s netif) \<or> ip4_addr_ismulticast ipaddr then (ERR_ARG, s)
     else case etharp_find_entry (Some ipaddr) flags s of
            (Inl e, s) \<Rightarrow> (e, s)
          | (Inr i, s) \<Rightarrow>
              let s = upd_entry i (\<lambda>e. e\<lparr>arp_state := ETHARP_STATE_STABLE\<rparr>) s;
                  s = upd_entry i (\<lambda>e. e\<lparr>arp_netif := netif, arp_ethaddr := ethaddr, arp_ctime := 0\<rparr>) s;
                  s = (if arp_q (arp_table s ! i) \<noteq> 0
                       then let p = arp_q (arp_table s ! i);
                                s = upd_entry i (\<lambda>e. e\<lparr>arp_q := 0\<rparr>) s;
                                s = snd (ethernet_output E netif p (nif_hwaddr (netifs s netif)) ethaddr ETHTYPE_IP s)
                            in snd (pbuf_free p s)
                       else s)
              in (ERR_OK, s))"

primrec cleanup_loop :: "u32 \<Rightarrow> nat list \<Rightarrow> 'a link_scheme \<Rightarrow> 'a link_scheme" where
  "cleanup_loop netif [] s = s"
| "cleanup_loop netif (i # is) s =
    cleanup_loop netif is
      (if arp_state (arp_table s ! i) \<noteq> ETHARP_STATE_EMPTY \<and> arp_netif (arp_table s ! i) = netif then etharp_free_entry i s else s)"

definition etharp_cleanup_netif :: "u32 \<Rightarrow> 'a link_scheme \<Rightarrow> 'a link_scheme" where
  "etharp_cleanup_netif netif s = cleanup_loop netif [0..<ARP_TABLE_SIZE] s"

text \<open>The index with the two addresses it returns through pointers; \<open>None\<close> is \<open>-1\<close>.\<close>

definition etharp_find_addr :: "u32 option \<Rightarrow> 'a link_scheme \<Rightarrow> (nat \<times> bytes \<times> u32) option \<times> 'a link_scheme" where
  "etharp_find_addr ipaddr s =
    (case etharp_find_entry ipaddr ETHARP_FLAG_FIND_ONLY s of
       (Inl e, s) \<Rightarrow> (None, s)
     | (Inr i, s) \<Rightarrow> let e = arp_table s ! i in
         (if state_code (arp_state e) \<ge> 2 then Some (i, arp_ethaddr e, arp_ipaddr e) else None, s))"

definition etharp_get_entry :: "nat \<Rightarrow> 'a link_scheme \<Rightarrow> (u32 \<times> u32 \<times> bytes) option" where
  "etharp_get_entry i s =
    (let e = arp_table s ! i in
     if i < ARP_TABLE_SIZE \<and> state_code (arp_state e) \<ge> 2 then Some (arp_ipaddr e, arp_netif e, arp_ethaddr e) else None)"

subsection \<open>Receiving\<close>

definition etharp_input :: "'a link_env \<Rightarrow> u32 \<Rightarrow> u32 \<Rightarrow> 'a link_scheme \<Rightarrow> 'a link_scheme" where
  "etharp_input E p netif s =
    (if netif = 0 then s
     else
       let hdr = pb_payload (pbufs s p) in
       if peek16 hdr s \<noteq> lwip_htons 1 \<or> lmem s (hdr + 4) \<noteq> 6 \<or> lmem s (hdr + 5) \<noteq> 4 \<or> peek16 (hdr + 2) s \<noteq> lwip_htons ETHTYPE_IP
       then snd (pbuf_free p (ETHARP_STATS_INC Stat_drop (ETHARP_STATS_INC Stat_proterr s)))
       else
         let s = ETHARP_STATS_INC Stat_recv s;
             s = acd_arp_reply E netif hdr s;
             sipaddr = peek32 (hdr + 14) s;
             dipaddr = peek32 (hdr + 24) s;
             ip = nif_ip4 (netifs s netif);
             for_us = (if ip = 0 then False else dipaddr = ip);
             from_us = (if ip = 0 then False else sipaddr = ip);
             s = snd (etharp_update_arp_entry E netif sipaddr (mem_read (lmem s) (hdr + 8) 6)
                   (if for_us then ETHARP_FLAG_TRY_HARD else ETHARP_FLAG_FIND_ONLY) s);
             opcode = peek16 (hdr + 6) s;
             s = (if opcode = lwip_htons ARP_REQUEST
                  then if for_us \<and> \<not> from_us
                       then let n = netifs s netif; shwaddr = mem_read (lmem s) (hdr + 8) 6 in
                         snd (etharp_raw E netif (nif_hwaddr n) shwaddr (nif_hwaddr n) (nif_ip4 n) shwaddr sipaddr ARP_REPLY s)
                       else s
                  else if opcode = lwip_htons ARP_REPLY then s
                  else ETHARP_STATS_INC Stat_err s)
         in snd (pbuf_free p s))"

definition ethernet_input :: "'a link_env \<Rightarrow> u32 \<Rightarrow> u32 \<Rightarrow> 'a link_scheme \<Rightarrow> err_t \<times> 'a link_scheme" where
  "ethernet_input E p netif s =
    (if pb_len (pbufs s p) \<le> SIZEOF_ETH_HDR
     then (ERR_OK, snd (pbuf_free p (ETHARP_STATS_INC Stat_drop (ETHARP_STATS_INC Stat_proterr s))))
     else
       let s = (if pb_if_idx (pbufs s p) = 0 then upd_pbuf p (\<lambda>b. b\<lparr>pb_if_idx := nif_num (netifs s netif) + 1\<rparr>) s else s);
           ethhdr = pb_payload (pbufs s p);
           type = peek16 (ethhdr + 22) s;
           dest = mem_read (lmem s) (ethhdr + 2) 6;
           s = (if dest ! 0 AND 1 \<noteq> 0
                then if dest ! 0 = 0x01
                     then if dest ! 1 = 0x00 \<and> dest ! 2 = 0x5e then upd_pbuf p (\<lambda>b. b\<lparr>pb_flags := pb_flags b OR 0x10\<rparr>) s else s
                     else if dest = ethbroadcast then upd_pbuf p (\<lambda>b. b\<lparr>pb_flags := pb_flags b OR 0x08\<rparr>) s else s
                else s) in
       if type = lwip_htons ETHTYPE_IP
       then if nif_flags (netifs s netif) AND 0x08 = 0 then (ERR_OK, snd (pbuf_free p s))
            else let (r, s) = pbuf_remove_header p (ucast SIZEOF_ETH_HDR) s in
              if r \<noteq> 0 then (ERR_OK, snd (pbuf_free p s)) else (ERR_OK, ip4_input E p netif s)
       else if type = lwip_htons ETHTYPE_ARP
       then if nif_flags (netifs s netif) AND 0x08 = 0 then (ERR_OK, snd (pbuf_free p s))
            else let (r, s) = pbuf_remove_header p (ucast SIZEOF_ETH_HDR) s in
              if r \<noteq> 0 then (ERR_OK, snd (pbuf_free p (ETHARP_STATS_INC Stat_drop (ETHARP_STATS_INC Stat_lenerr s))))
              else (ERR_OK, etharp_input E p netif s)
       else (ERR_OK, snd (pbuf_free p (ETHARP_STATS_INC Stat_drop (ETHARP_STATS_INC Stat_proterr s)))))"

subsection \<open>Sending to an IPv4 address\<close>

definition etharp_output_to_arp_index :: "'a link_env \<Rightarrow> u32 \<Rightarrow> u32 \<Rightarrow> nat \<Rightarrow> 'a link_scheme \<Rightarrow> err_t \<times> 'a link_scheme" where
  "etharp_output_to_arp_index E netif q arp_idx s =
    (let s = LWIP_ASSERT ''arp_table[arp_idx].state >= ETHARP_STATE_STABLE'' (state_code (arp_state (arp_table s ! arp_idx)) \<ge> 2) s;
         e = arp_table s ! arp_idx;
         s = (if arp_state e = ETHARP_STATE_STABLE
              then if arp_ctime e \<ge> ARP_AGE_REREQUEST_USED_BROADCAST
                   then let (r, s) = etharp_request E netif (arp_ipaddr e) s in
                     if r = ERR_OK then upd_entry arp_idx (\<lambda>e. e\<lparr>arp_state := ETHARP_STATE_STABLE_REREQUESTING_1\<rparr>) s else s
                   else if arp_ctime e \<ge> ARP_AGE_REREQUEST_USED_UNICAST
                   then let (r, s) = etharp_request_dst E netif (arp_ipaddr e) (arp_ethaddr e) s in
                     if r = ERR_OK then upd_entry arp_idx (\<lambda>e. e\<lparr>arp_state := ETHARP_STATE_STABLE_REREQUESTING_1\<rparr>) s else s
                   else s
              else s)
     in ethernet_output E netif q (nif_hwaddr (netifs s netif)) (arp_ethaddr (arp_table s ! arp_idx)) ETHTYPE_IP s)"

text \<open>Whether a buffer of the chain must be copied; with the assertion on packet queues.\<close>

partial_function (option) copy_needed :: "u32 \<Rightarrow> 'a link_scheme \<Rightarrow> (bool \<times> 'a link_scheme) option" where
  "copy_needed p s =
    (if p = 0 then Some (False, s)
     else
       let b = pbufs s p;
           s = LWIP_ASSERT ''no packet queues allowed!'' (pb_len b \<noteq> pb_tot_len b \<or> pb_next b = 0) s in
       if pb_type_internal b AND 0x40 \<noteq> 0 then Some (True, s) else copy_needed (pb_next b) s)"

text \<open>Keeping a packet for a pending entry: the copy or the reference, in place of the one before.\<close>

definition queue_packet :: "'a link_env \<Rightarrow> nat \<Rightarrow> u32 \<Rightarrow> 'a link_scheme \<Rightarrow> (err_t \<times> 'a link_scheme) option" where
  "queue_packet E i q s = do {
     (c, s) \<leftarrow> copy_needed q s;
     (p, s) \<leftarrow> (if c then pbuf_clone (link_lw E) PBUF_LINK PBUF_RAM q s else Some (q, pbuf_ref q s));
     if p \<noteq> 0
     then let s = (if arp_q (arp_table s ! i) \<noteq> 0 then snd (pbuf_free (arp_q (arp_table s ! i)) s) else s)
          in Some (ERR_OK, upd_entry i (\<lambda>e. e\<lparr>arp_q := p\<rparr>) s)
     else Some (ERR_MEM, ETHARP_STATS_INC Stat_memerr s) }"

text \<open>\<^verbatim>\<open>etharp_query\<close>, whose packet \<open>q\<close> may be NULL: the part that works on the entry that was found, and the whole.\<close>

definition query_entry ::
  "'a link_env \<Rightarrow> u32 \<Rightarrow> u32 \<Rightarrow> u32 \<Rightarrow> bytes \<Rightarrow> nat \<Rightarrow> bool \<Rightarrow> 'a link_scheme \<Rightarrow> (err_t \<times> 'a link_scheme) option" where
  "query_entry E netif ipaddr q srcaddr i is_new_entry s =
    (let (result, s) =
           (if is_new_entry \<or> q = 0
            then let (result, s) = etharp_request E netif ipaddr s in
              (result, if result = ERR_OK \<and> arp_state (arp_table s ! i) = ETHARP_STATE_PENDING \<and> \<not> is_new_entry
                       then upd_entry i (\<lambda>e. e\<lparr>arp_ctime := 0\<rparr>) s else s)
            else (ERR_MEM, s)) in
     if q = 0 then Some (result, s)
     else if state_code (arp_state (arp_table s ! i)) \<ge> 2
     then Some (ethernet_output E netif q srcaddr (arp_ethaddr (arp_table s ! i)) ETHTYPE_IP (ETHARP_SET_ADDRHINT netif (of_nat i) s))
     else if arp_state (arp_table s ! i) = ETHARP_STATE_PENDING then queue_packet E i q s
     else Some (result, s))"

definition etharp_query :: "'a link_env \<Rightarrow> u32 \<Rightarrow> u32 \<Rightarrow> u32 \<Rightarrow> 'a link_scheme \<Rightarrow> (err_t \<times> 'a link_scheme) option" where
  "etharp_query E netif ipaddr q s =
    (let srcaddr = nif_hwaddr (netifs s netif) in
     if ip4_addr_isbroadcast_u32 ipaddr (netifs s netif) \<or> ip4_addr_ismulticast ipaddr \<or> ipaddr = 0 then Some (ERR_ARG, s)
     else case etharp_find_entry (Some ipaddr) ETHARP_FLAG_TRY_HARD s of
       (Inl e, s) \<Rightarrow> Some (e, if q \<noteq> 0 then ETHARP_STATS_INC Stat_memerr s else s)
     | (Inr i, s) \<Rightarrow>
         let is_new_entry = (arp_state (arp_table s ! i) = ETHARP_STATE_EMPTY);
             s = (if is_new_entry then upd_entry i (\<lambda>e. e\<lparr>arp_state := ETHARP_STATE_PENDING, arp_netif := netif\<rparr>) s else s)
         in query_entry E netif ipaddr q srcaddr i is_new_entry s)"

text \<open>The first stable entry for an address.\<close>

definition stable_for :: "u32 \<Rightarrow> etharp_entry \<Rightarrow> bool" where
  "stable_for dst_addr e \<longleftrightarrow> state_code (arp_state e) \<ge> 2 \<and> dst_addr = arp_ipaddr e"

definition etharp_output :: "'a link_env \<Rightarrow> u32 \<Rightarrow> u32 \<Rightarrow> u32 \<Rightarrow> 'a link_scheme \<Rightarrow> (err_t \<times> 'a link_scheme) option" where
  "etharp_output E netif q ipaddr s =
    (let s = LWIP_ASSERT ''netif != NULL'' (netif \<noteq> 0) s;
         s = LWIP_ASSERT ''q != NULL'' (q \<noteq> 0) s;
         n = netifs s netif in
     if ip4_addr_isbroadcast_u32 ipaddr n then Some (ethernet_output E netif q (nif_hwaddr n) ethbroadcast ETHTYPE_IP s)
     else if ip4_addr_ismulticast ipaddr
     then let b = putle32 ipaddr in
       Some (ethernet_output E netif q (nif_hwaddr n) [0x01, 0x00, 0x5e, b ! 1 AND 0x7f, b ! 2, b ! 3] ETHTYPE_IP s)
     else
       let outside = (ipaddr AND nif_netmask n \<noteq> nif_ip4 n AND nif_netmask n \<and> \<not> ip4_addr_islinklocal ipaddr) in
       if outside \<and> nif_gw n = 0 then Some (ERR_RTE, s)
       else
         let dst_addr = (if outside then nif_gw n else ipaddr);
             cached = unat (addr_hint s (nif_hints n)) in
         if nif_hints n \<noteq> 0 \<and> cached < ARP_TABLE_SIZE \<and> stable_for dst_addr (arp_table s ! cached)
         then Some (etharp_output_to_arp_index E netif q cached (ETHARP_STATS_INC Stat_cachehit s))
         else case find (\<lambda>i. stable_for dst_addr (arp_table s ! i)) [0..<ARP_TABLE_SIZE] of
                Some i \<Rightarrow> Some (etharp_output_to_arp_index E netif q i (ETHARP_SET_ADDRHINT netif (of_nat i) s))
              | None \<Rightarrow> etharp_query E netif dst_addr q s)"

end
