(* ===== verification/ArpCache.thy ===== *)
theory ArpCache
  imports Etharp
begin

text \<open>
  The table of the address resolution protocol as a cache. Its invariant, the map from addresses to hardware addresses it stands for, what
  each operation of \<open>Etharp\<close> does to that map, how long an entry lives, and which entry a new one replaces. The interface \<open>quiet_link\<close> is
  what the table relies on, \<open>learning_cache\<close> what it provides.
\<close>

subsection \<open>What leaves the table alone\<close>

lemma link_frame: "stack.more s = stack.more t \<Longrightarrow> arp_table s = arp_table t \<and> netifs s = netifs t"
  by (cases s; cases t) simp

lemma more_pbuf_release [simp]: "stack.more (pbuf_release p s) = stack.more s"
  by (simp add: pbuf_release_def memp_free_def do_memp_free_pool_def mem_free_def LWIP_ASSERT_def Let_def)

lemma more_pbuf_free_loop: "stack.more (snd (pbuf_free_loop p c s)) = stack.more s"
proof (induction p c s rule: pbuf_free_loop.induct)
  case (1 p c s)
  then show ?case by (subst pbuf_free_loop.simps) (simp add: Let_def upd_pbuf_def LWIP_ASSERT_def)
qed

lemma more_pbuf_free: "stack.more (snd (pbuf_free p s)) = stack.more s"
  by (simp add: pbuf_free_def more_pbuf_free_loop LWIP_ASSERT_def)

lemma more_pbuf_alloc: "stack.more (snd (pbuf_alloc L l n PBUF_RAM s)) = stack.more s"
  by (simp add: pbuf_alloc_def mem_malloc_def LWIP_ASSERT_def pbuf_init_alloced_pbuf_def upd_pbuf_def Let_def split_beta)

lemma more_add_header: "stack.more (snd (pbuf_add_header p n s)) = stack.more s"
  by (simp add: pbuf_add_header_def pbuf_add_header_impl_def LWIP_ASSERT_def upd_pbuf_def Let_def split_beta)

lemma more_memcpy [simp]: "stack.more (MEMCPY a b n s) = stack.more s" "stack.more (LWIP_ASSERT m c s) = stack.more s"
  by (simp_all add: MEMCPY_def LWIP_ASSERT_def)

lemma more_copy_loop: "copy_pbuf_loop a b n i j s = Some r \<Longrightarrow> stack.more (snd r) = stack.more s"
  by (erule copy_pbuf_loop.raw_induct [rotated, where P = "\<lambda>a b n i j s r. stack.more (snd r) = stack.more s"])
    (auto simp: Let_def split: if_splits)

lemma more_pbuf_clone: "pbuf_clone L l PBUF_RAM p s = Some r \<Longrightarrow> stack.more (snd r) = stack.more s"
  using more_pbuf_alloc [of L l "pb_tot_len (pbufs s p)" s]
  by (auto simp: eq_commute [of "(_, _)" "pbuf_alloc _ _ _ _ _"] pbuf_clone_def pbuf_copy_def pbuf_copy_partial_pbuf_def split: if_splits prod.splits Option.bind_splits dest!: more_copy_loop)

lemma more_copy_needed: "copy_needed p s = Some r \<Longrightarrow> stack.more (snd r) = stack.more s"
  by (erule copy_needed.raw_induct [rotated, where P = "\<lambda>p s r. stack.more (snd r) = stack.more s"])
    (auto simp: Let_def split: if_splits)

lemma table_frames [simp]:
  "arp_table (LWIP_ASSERT m b s) = arp_table s" "netifs (LWIP_ASSERT m b s) = netifs s"
  "arp_table (ETHARP_STATS_INC x s) = arp_table s" "netifs (ETHARP_STATS_INC x s) = netifs s"
  "arp_table (poke a bs s) = arp_table s" "netifs (poke a bs s) = netifs s"
  "arp_table (ETHARP_SET_ADDRHINT n i s) = arp_table s" "netifs (ETHARP_SET_ADDRHINT n i s) = netifs s"
  "arp_table (upd_pbuf p f s) = arp_table s" "netifs (upd_pbuf p f s) = netifs s"
  "netifs (upd_entry j g s) = netifs s"
  by (simp_all add: LWIP_ASSERT_def ETHARP_STATS_INC_def poke_def ETHARP_SET_ADDRHINT_def upd_pbuf_def upd_entry_def)

lemma table_frames_free [simp]:
  "arp_table (snd (pbuf_free p s)) = arp_table s" "netifs (snd (pbuf_free p s)) = netifs s"
  "arp_table (snd (pbuf_add_header p n s)) = arp_table s" "netifs (snd (pbuf_add_header p n s)) = netifs s"
  "arp_table (snd (pbuf_alloc L l k PBUF_RAM s)) = arp_table s" "netifs (snd (pbuf_alloc L l k PBUF_RAM s)) = netifs s"
  "arp_table (pbuf_ref p s) = arp_table s" "netifs (pbuf_ref p s) = netifs s"
  using link_frame [OF more_pbuf_free, of p s] link_frame [OF more_add_header, of p n s] link_frame [OF more_pbuf_alloc, of L l k s]
  by (simp_all add: pbuf_ref_def Let_def)

lemma table_upd_entry [simp]: "arp_table (upd_entry i g s) = (arp_table s)[i := g (arp_table s ! i)]"
  by (simp add: upd_entry_def)

subsection \<open>The table\<close>

definition arp_live :: "etharp_entry \<Rightarrow> bool" where
  "arp_live e \<longleftrightarrow> arp_state e \<noteq> ETHARP_STATE_EMPTY"

definition entry_ok :: "etharp_entry \<Rightarrow> bool" where
  "entry_ok e \<longleftrightarrow> (arp_q e \<noteq> 0 \<longrightarrow> arp_state e = ETHARP_STATE_PENDING) \<and> arp_ctime e < ARP_MAXAGE
     \<and> (arp_state e = ETHARP_STATE_PENDING \<longrightarrow> arp_ctime e < ARP_MAXPENDING)
     \<and> (arp_live e \<longrightarrow> arp_ipaddr e \<noteq> 0 \<and> \<not> ip4_addr_ismulticast (arp_ipaddr e) \<and> arp_netif e \<noteq> 0)"

definition table_ok :: "etharp_entry list \<Rightarrow> bool" where
  "table_ok t \<longleftrightarrow> length t = ARP_TABLE_SIZE \<and> list_all entry_ok t
     \<and> (\<forall>i < length t. \<forall>j < length t. arp_live (t ! i) \<and> arp_live (t ! j) \<and> arp_ipaddr (t ! i) = arp_ipaddr (t ! j) \<longrightarrow> i = j)"

lemma stable_iff: "state_code (arp_state e) \<ge> 2 \<longleftrightarrow> arp_live e \<and> arp_state e \<noteq> ETHARP_STATE_PENDING"
  by (cases "arp_state e") (simp_all add: arp_live_def word_le_nat_alt)

lemma table_ok_update:
  assumes "table_ok t" "entry_ok e" "\<And>j. arp_live e \<Longrightarrow> j < 10 \<Longrightarrow> j \<noteq> i \<Longrightarrow> arp_live (t ! j) \<Longrightarrow> arp_ipaddr (t ! j) \<noteq> arp_ipaddr e"
  shows "table_ok (t[i := e])"
proof (cases "i < 10")
  case True
  then show ?thesis using assms unfolding table_ok_def list_all_length by (simp add: nth_list_update) metis
next
  case False
  then have "t[i := e] = t" using assms(1) by (simp add: table_ok_def list_update_beyond)
  then show ?thesis using assms(1) by simp
qed

lemma search_found:
  "search_table ip t is c = Inl i \<Longrightarrow> i \<in> set is \<and> arp_live (t ! i) \<and> ip = Some (arp_ipaddr (t ! i))"
  by (induction "is" arbitrary: c) (auto simp: Let_def arp_live_def split: if_splits)

lemma search_none:
  "search_table ip t is c = Inr c' \<Longrightarrow> i \<in> set is \<Longrightarrow> arp_live (t ! i) \<Longrightarrow> ip \<noteq> Some (arp_ipaddr (t ! i))"
  by (induction "is" arbitrary: c) (auto simp: Let_def arp_live_def split: if_splits)


lemma search_empty:
  "search_table ip t is c = Inr c' \<Longrightarrow> c_empty c' = c_empty c \<or> c_empty c' \<in> set is \<and> arp_state (t ! c_empty c') = ETHARP_STATE_EMPTY"
proof (induction "is" arbitrary: c)
  case (Cons i "is")
  have "c_empty (remember i e c) = c_empty c" for e by (simp add: remember_def)
  then show ?case
    using Cons.prems Cons.IH [of "c\<lparr>c_empty := i\<rparr>"] Cons.IH [of "remember i (t ! i) c"] Cons.IH [of c] by (auto simp: Let_def split: if_splits)
qed simp

definition blank :: etharp_entry where
  "blank = \<lparr>arp_q = 0, arp_ipaddr = 0, arp_netif = 0, arp_ethaddr = ethzero, arp_ctime = 0, arp_state = ETHARP_STATE_EMPTY\<rparr>"

lemma table_free_entry [simp]:
  "i < length (arp_table s) \<Longrightarrow> arp_table (etharp_free_entry i s) = (arp_table s)[i := blank]"
  "netifs (etharp_free_entry i s) = netifs s"
  by (cases "arp_table s ! i", simp add: etharp_free_entry_def Let_def blank_def, simp add: etharp_free_entry_def Let_def)

lemma choose_less: "choose_entry c = Some i \<Longrightarrow> i < 10"
  by (auto simp: choose_entry_def split: if_splits)

lemma table_new_entry:
  "i < length (arp_table s) \<Longrightarrow> arp_table (snd (new_entry (Some a) i s)) = (arp_table s)[i := (arp_table s ! i)\<lparr>arp_ipaddr := a, arp_ctime := 0\<rparr>]"
  "netifs (snd (new_entry (Some a) i s)) = netifs s" "fst (new_entry (Some a) i s) = Inr i"
  by (simp_all add: new_entry_def Let_def)

lemma find_entry_cases:
  assumes "table_ok (arp_table s)" "etharp_find_entry (Some a) flags s = (r, s')"
  obtains (failed) "r = Inl ERR_MEM" "s' = s"
  | (hit) i where "r = Inr i" "s' = s" "i < 10" "arp_live (arp_table s ! i)" "arp_ipaddr (arp_table s ! i) = a"
  | (fresh) i e where "r = Inr i" "i < 10" "arp_table s' = (arp_table s)[i := e]" "netifs s' = netifs s" "arp_state e = ETHARP_STATE_EMPTY"
      "arp_q e = 0" "arp_ctime e = 0" "arp_ipaddr e = a" "\<forall>j < 10. arp_live (arp_table s ! j) \<longrightarrow> arp_ipaddr (arp_table s ! j) \<noteq> a"
proof (cases "search_table (Some a) (arp_table s) [0..<10] no_candidates")
  case (Inl i)
  then show ?thesis using search_found [OF Inl] assms(2) by (intro hit) (auto simp: etharp_find_entry_def)
next
  case (Inr c)
  have l: "length (arp_table s) = 10" using assms(1) by (simp add: table_ok_def)
  have n: "\<forall>j < 10. arp_live (arp_table s ! j) \<longrightarrow> arp_ipaddr (arp_table s ! j) \<noteq> a" using search_none [OF Inr] by auto
  define u where "u i = (if old_stable c < 10 then LWIP_ASSERT ''arp_table[i].q == NULL'' (arp_q (arp_table s ! i) = 0) s else s)" for i
  have u: "arp_table (u i) = arp_table s" "netifs (u i) = netifs s" for i by (simp_all add: u_def)
  define A where "A \<longleftrightarrow> flags AND 2 \<noteq> 0 \<or> c_empty c = 10 \<and> flags AND 1 = 0"
  have "etharp_find_entry (Some a) flags s = (if A then (Inl ERR_MEM, s) else if c_empty c < 10 then new_entry (Some a) (c_empty c) s
      else case choose_entry c of None \<Rightarrow> (Inl ERR_MEM, s) | Some i \<Rightarrow> new_entry (Some a) i (etharp_free_entry i (u i)))"
    unfolding etharp_find_entry_def Inr sum.case A_def u_def Let_def by (rule refl)
  note f = this [unfolded assms(2)]
  consider "r = Inl ERR_MEM" "s' = s" | "c_empty c < 10" "new_entry (Some a) (c_empty c) s = (r, s')"
    | i where "choose_entry c = Some i" "new_entry (Some a) i (etharp_free_entry i (u i)) = (r, s')"
    using f by (cases A; cases "c_empty c < 10"; cases "choose_entry c") simp_all
  then show ?thesis
  proof cases
    case 2
    have e: "arp_state (arp_table s ! c_empty c) = ETHARP_STATE_EMPTY" using search_empty [OF Inr] 2(1) by (simp add: no_candidates_def)
    moreover have "entry_ok (arp_table s ! c_empty c)" using assms(1) 2(1) by (simp add: table_ok_def list_all_length)
    ultimately show ?thesis
      using table_new_entry [where i = "c_empty c" and s = s and a = a] 2 n l
      by (intro fresh [of "c_empty c" "(arp_table s ! c_empty c)\<lparr>arp_ipaddr := a, arp_ctime := 0\<rparr>"]) (auto simp: entry_ok_def)
  next
    case 3
    then show ?thesis
      using table_new_entry [where i = i and s = "etharp_free_entry i (u i)" and a = a] n l u choose_less [OF 3(1)]
      by (intro fresh [of i "blank\<lparr>arp_ipaddr := a\<rparr>"]) (auto simp: blank_def)
  qed (use failed in simp)
qed

subsection \<open>The cache the table stands for\<close>

definition cache :: "etharp_entry list \<Rightarrow> u32 \<rightharpoonup> bytes" where
  "cache t a = map_option (\<lambda>i. arp_ethaddr (t ! i)) (find (\<lambda>i. stable_for a (t ! i)) [0..<ARP_TABLE_SIZE])"

text \<open>What an operation that learns nothing may do: keep the table in order and drop addresses.\<close>

definition forgets :: "etharp_entry list \<Rightarrow> etharp_entry list \<Rightarrow> bool" where
  "forgets t t' \<longleftrightarrow> table_ok t' \<and> cache t' \<subseteq>\<^sub>m cache t"

lemma stable_for_iff: "stable_for a e \<longleftrightarrow> arp_live e \<and> arp_state e \<noteq> ETHARP_STATE_PENDING \<and> arp_ipaddr e = a"
  by (auto simp: stable_for_def stable_iff)

lemma cache_iff:
  assumes "table_ok t"
  shows "cache t a = Some m \<longleftrightarrow> (\<exists>i < 10. stable_for a (t ! i) \<and> arp_ethaddr (t ! i) = m)"
proof -
  have "i = j" if "i < 10" "j < 10" "stable_for a (t ! i)" "stable_for a (t ! j)" for i j
    using that assms by (simp add: table_ok_def stable_for_iff)
  note u = this
  show ?thesis
  proof (cases "find (\<lambda>i. stable_for a (t ! i)) [0..<10]")
    case None
    then have "\<forall>i < 10. \<not> stable_for a (t ! i)" by (auto simp: find_None_iff)
    with None show ?thesis by (auto simp: cache_def)
  next
    case (Some k)
    then have "k < 10" "stable_for a (t ! k)" by (auto simp: find_Some_iff)
    with Some u show ?thesis by (auto simp: cache_def)
  qed
qed

lemma map_leI: "(\<And>a m. f a = Some m \<Longrightarrow> g a = Some m) \<Longrightarrow> f \<subseteq>\<^sub>m g"
  by (metis domD map_le_def)

lemma forgets_refl: "table_ok t \<Longrightarrow> forgets t t"
  by (simp add: forgets_def)

lemma forgets_trans: "forgets t u \<Longrightarrow> forgets u v \<Longrightarrow> forgets t v"
  by (auto simp: forgets_def intro: map_le_trans)

lemma nth_entry: "j < length t \<Longrightarrow> t[i := e] ! j = (if j = i then e else t ! j)"
  by (cases "i < length t") (simp_all add: nth_list_update list_update_beyond)

lemma forgets_update:
  assumes "table_ok t" "entry_ok e" "\<And>j. arp_live e \<Longrightarrow> j < 10 \<Longrightarrow> j \<noteq> i \<Longrightarrow> arp_live (t ! j) \<Longrightarrow> arp_ipaddr (t ! j) \<noteq> arp_ipaddr e"
    "\<And>a. i < 10 \<Longrightarrow> stable_for a e \<Longrightarrow> stable_for a (t ! i) \<and> arp_ethaddr e = arp_ethaddr (t ! i)"
  shows "forgets t (t[i := e])"
proof -
  have ok: "table_ok (t[i := e])" using assms(1-3) by (rule table_ok_update)
  have l: "length t = 10" using assms(1) by (simp add: table_ok_def)
  have "cache t a = Some m" if "cache (t[i := e]) a = Some m" for a m
    using that assms(4) l unfolding cache_iff [OF ok] cache_iff [OF assms(1)] by (auto simp: nth_entry split: if_splits)
  then show ?thesis using ok by (auto simp: forgets_def intro: map_leI)
qed

text \<open>The entry keeps its address, or gives it up.\<close>

lemma forgets_entry:
  assumes "table_ok t" "entry_ok e" "arp_live e \<Longrightarrow> i < 10 \<Longrightarrow> arp_live (t ! i) \<and> arp_ipaddr e = arp_ipaddr (t ! i)"
    "\<And>a. i < 10 \<Longrightarrow> stable_for a e \<Longrightarrow> stable_for a (t ! i) \<and> arp_ethaddr e = arp_ethaddr (t ! i)"
  shows "forgets t (t[i := e])"
proof (cases "i < 10")
  case True
  show ?thesis
  proof (rule forgets_update [OF assms(1,2)])
    fix j assume "arp_live e" "j < 10" "j \<noteq> i" "arp_live (t ! j)"
    then show "arp_ipaddr (t ! j) \<noteq> arp_ipaddr e" using assms(1) assms(3) True by (auto simp: table_ok_def)
  qed (use assms(4) in blast)
next
  case False
  then have "t[i := e] = t" using assms(1) by (simp add: table_ok_def list_update_beyond)
  then show ?thesis using forgets_refl [OF assms(1)] by simp
qed

lemma learn_update:
  assumes "table_ok t" "entry_ok e" "arp_state e = ETHARP_STATE_STABLE" "i < 10"
    "\<And>j. j < 10 \<Longrightarrow> j \<noteq> i \<Longrightarrow> arp_live (t ! j) \<Longrightarrow> arp_ipaddr (t ! j) \<noteq> arp_ipaddr e"
  shows "table_ok (t[i := e])" "cache (t[i := e]) \<subseteq>\<^sub>m (cache t)(arp_ipaddr e \<mapsto> arp_ethaddr e)"
    "cache (t[i := e]) (arp_ipaddr e) = Some (arp_ethaddr e)"
proof -
  show ok: "table_ok (t[i := e])" by (rule table_ok_update) (use assms in auto)
  have l: "length t = 10" using assms(1) by (simp add: table_ok_def)
  have e: "stable_for (arp_ipaddr e) e" using assms(3) by (simp add: stable_for_iff arp_live_def)
  then show "cache (t[i := e]) (arp_ipaddr e) = Some (arp_ethaddr e)" using assms(4) l by (auto simp: cache_iff [OF ok] intro!: exI [of _ i])
  moreover have "cache t a = Some m" if "cache (t[i := e]) a = Some m" "a \<noteq> arp_ipaddr e" for a m
    using that l unfolding cache_iff [OF ok] by (auto simp: cache_iff [OF assms(1)] nth_entry stable_for_iff split: if_splits)
  ultimately have "((cache t)(arp_ipaddr e \<mapsto> arp_ethaddr e)) a = Some m" if "cache (t[i := e]) a = Some m" for a m
    using that by (cases "a = arp_ipaddr e") simp_all
  then show "cache (t[i := e]) \<subseteq>\<^sub>m (cache t)(arp_ipaddr e \<mapsto> arp_ethaddr e)" by (rule map_leI)
qed

subsection \<open>The operations on the table\<close>

definition learned :: "u32 \<Rightarrow> u32 \<Rightarrow> bytes \<Rightarrow> etharp_entry" where
  "learned n a m = \<lparr>arp_q = 0, arp_ipaddr = a, arp_netif = n, arp_ethaddr = m, arp_ctime = 0, arp_state = ETHARP_STATE_STABLE\<rparr>"

text \<open>What the interface and the conflict detection promise: they do not touch the table or the interfaces.\<close>

locale quiet_link =
  fixes E :: "'a link_env"
  assumes output_quiet: "arp_table (snd (linkoutput E n p s)) = arp_table s" "netifs (snd (linkoutput E n p s)) = netifs s"
    and acd_quiet: "arp_table (acd_arp_reply E n h s) = arp_table s" "netifs (acd_arp_reply E n h s) = netifs s"
begin

lemma ethernet_output_quiet [simp]:
  "arp_table (snd (ethernet_output E n p src dst ty s)) = arp_table s" "netifs (snd (ethernet_output E n p src dst ty s)) = netifs s"
  by (simp_all add: ethernet_output_def Let_def split_beta output_quiet)

lemma raw_quiet [simp]:
  "arp_table (snd (etharp_raw E n es ed hs sip hw dip op s)) = arp_table s" "netifs (snd (etharp_raw E n es ed hs sip hw dip op s)) = netifs s"
  by (simp_all add: etharp_raw_def Let_def split_beta)

lemma request_quiet [simp]:
  "arp_table (snd (etharp_request_dst E n ip d s)) = arp_table s" "netifs (snd (etharp_request_dst E n ip d s)) = netifs s"
  "arp_table (snd (etharp_request E n ip s)) = arp_table s" "netifs (snd (etharp_request E n ip s)) = netifs s"
  by (simp_all add: etharp_request_def etharp_request_dst_def Let_def)

lemma update_cases:
  assumes "table_ok (arp_table s)" "etharp_update_arp_entry E n a m flags s = (r, s')"
  obtains (refused) "r = ERR_ARG \<or> r = ERR_MEM" "arp_table s' = arp_table s"
  | (stored) i where "r = ERR_OK" "i < 10" "arp_table s' = (arp_table s)[i := learned n a m]" "a \<noteq> 0" "\<not> ip4_addr_ismulticast a"
      "\<And>j. j < 10 \<Longrightarrow> j \<noteq> i \<Longrightarrow> arp_live (arp_table s ! j) \<Longrightarrow> arp_ipaddr (arp_table s ! j) \<noteq> a"
proof -
  define s0 where "s0 = LWIP_ASSERT ''netif->hwaddr_len == ETH_HWADDR_LEN'' (nif_hwaddr_len (netifs s n) = 6) s"
  have s0: "arp_table s0 = arp_table s" "netifs s0 = netifs s" by (simp_all add: s0_def)
  obtain q s1 where f: "etharp_find_entry (Some a) flags s0 = (q, s1)" by fastforce
  define bad where "bad \<longleftrightarrow> a = 0 \<or> ip4_addr_isbroadcast_u32 a (netifs s0 n) \<or> ip4_addr_ismulticast a"
  have l: "length (arp_table s) = 10" using assms(1) by (simp add: table_ok_def)
  have up: "r = ERR_OK \<and> arp_table s' = (arp_table s1)[i := learned n a m]"
    if "\<not> bad" "q = Inr i" "i < length (arp_table s1)" "arp_ipaddr (arp_table s1 ! i) = a" for i
    using assms(2) f that unfolding etharp_update_arp_entry_def s0_def [symmetric] Let_def bad_def
    by (cases "arp_table s1 ! i") (auto simp: learned_def)
  have ok0: "table_ok (arp_table s0)" using assms(1) by (simp add: s0)
  show ?thesis
  proof (cases bad)
    case True
    then have "etharp_update_arp_entry E n a m flags s = (ERR_ARG, s0)"
      unfolding etharp_update_arp_entry_def s0_def [symmetric] Let_def bad_def by simp
    then show ?thesis using assms(2) s0 by (intro refused) simp_all
  next
    case False
    from ok0 f show ?thesis
    proof (cases rule: find_entry_cases)
      case failed
      then have "etharp_update_arp_entry E n a m flags s = (ERR_MEM, s0)"
        using False f unfolding etharp_update_arp_entry_def s0_def [symmetric] Let_def bad_def by simp
      then show ?thesis using assms(2) s0 by (intro refused) simp_all
    next
      case (hit i)
      have o: "arp_ipaddr (arp_table s ! j) \<noteq> a" if "j < 10" "j \<noteq> i" "arp_live (arp_table s ! j)" for j
        using that assms(1) hit(3-5) by (auto simp: table_ok_def s0)
      have "r = ERR_OK \<and> arp_table s' = (arp_table s1)[i := learned n a m]" using hit(3,5) l by (intro up [OF False hit(1)]) (simp_all add: hit(2) s0)
      then show ?thesis using hit(3) False o by (intro stored [of i]) (simp_all add: hit(2) s0 bad_def)
    next
      case (fresh i e)
      have "r = ERR_OK \<and> arp_table s' = (arp_table s1)[i := learned n a m]" using fresh(2,8) l by (intro up [OF False fresh(1)]) (simp_all add: fresh(3) s0)
      then show ?thesis using fresh(2,9) False by (intro stored [of i]) (simp_all add: fresh(3) s0 bad_def)
    qed
  qed
qed

lemma update_learns:
  assumes "table_ok (arp_table s)" "n \<noteq> 0" "etharp_update_arp_entry E n a m flags s = (ERR_OK, s')"
  shows "table_ok (arp_table s')" "cache (arp_table s') \<subseteq>\<^sub>m (cache (arp_table s))(a \<mapsto> m)" "cache (arp_table s') a = Some m"
  using assms(1,3)
proof (atomize(full), cases rule: update_cases)
  case (stored i)
  have "entry_ok (learned n a m)" using assms(2) stored by (simp add: entry_ok_def learned_def)
  moreover have "arp_ipaddr (learned n a m) = a" "arp_ethaddr (learned n a m) = m" "arp_state (learned n a m) = ETHARP_STATE_STABLE"
    by (simp_all add: learned_def)
  ultimately show "table_ok (arp_table s') \<and> cache (arp_table s') \<subseteq>\<^sub>m (cache (arp_table s))(a \<mapsto> m) \<and> cache (arp_table s') a = Some m"
    using learn_update [OF assms(1), of "learned n a m" i] stored(2,3,6) by auto
qed simp

lemma update_refused:
  "table_ok (arp_table s) \<Longrightarrow> fst (etharp_update_arp_entry E n a m flags s) \<noteq> ERR_OK
     \<Longrightarrow> arp_table (snd (etharp_update_arp_entry E n a m flags s)) = arp_table s"
  using prod.collapse by (metis update_cases)

end

text \<open>What a tick makes of an entry.\<close>

definition tick_entry :: "etharp_entry \<Rightarrow> etharp_entry" where
  "tick_entry e =
    (if \<not> arp_live e then e
     else if arp_ctime e + 1 \<ge> ARP_MAXAGE \<or> arp_state e = ETHARP_STATE_PENDING \<and> arp_ctime e + 1 \<ge> ARP_MAXPENDING then blank
     else e\<lparr>arp_ctime := arp_ctime e + 1,
       arp_state := (case arp_state e of ETHARP_STATE_STABLE_REREQUESTING_1 \<Rightarrow> ETHARP_STATE_STABLE_REREQUESTING_2
                     | ETHARP_STATE_STABLE_REREQUESTING_2 \<Rightarrow> ETHARP_STATE_STABLE | st \<Rightarrow> st)\<rparr>)"

lemma forgets_map:
  assumes "table_ok t" "\<And>e. entry_ok e \<Longrightarrow> entry_ok (f e)" "\<And>e. arp_live (f e) \<Longrightarrow> arp_live e \<and> arp_ipaddr (f e) = arp_ipaddr e"
    "\<And>a e. stable_for a (f e) \<Longrightarrow> stable_for a e \<and> arp_ethaddr (f e) = arp_ethaddr e"
  shows "forgets t (map f t)"
proof -
  have l: "length t = 10" using assms(1) by (simp add: table_ok_def)
  have ok: "table_ok (map f t)" using assms(1-3) by (auto simp: table_ok_def list_all_length)
  have "cache t a = Some m" if "cache (map f t) a = Some m" for a m
    using that assms(4) l unfolding cache_iff [OF ok] cache_iff [OF assms(1)] by auto
  then show ?thesis using ok by (auto simp: forgets_def intro: map_leI)
qed

lemma ctime_grows:
  assumes "(c :: u16) < 300"
  shows "unat (c + 1) = unat c + 1"
proof -
  have "unat c < 300" using assms by (simp add: word_less_nat_alt)
  then show ?thesis by (simp add: unat_word_ariths)
qed

lemma entry_ok_tick: "entry_ok e \<Longrightarrow> entry_ok (tick_entry e)"
  by (cases "arp_state e") (auto simp: tick_entry_def entry_ok_def arp_live_def blank_def not_le split: if_splits)

lemma forgets_tick: "table_ok t \<Longrightarrow> forgets t (map tick_entry t)"
  by (erule forgets_map, erule entry_ok_tick)
    (auto simp: tick_entry_def stable_for_iff arp_live_def blank_def split: if_splits etharp_state.splits)

lemma cleanup_table:
  "n \<le> length (arp_table s) \<Longrightarrow> arp_table (cleanup_loop k [0..<n] s)
     = map (\<lambda>e. if arp_live e \<and> arp_netif e = k then blank else e) (take n (arp_table s)) @ drop n (arp_table s)"
proof (induction n)
  case (Suc n)
  have a: "cleanup_loop k (xs @ ys) s = cleanup_loop k ys (cleanup_loop k xs s)" for xs ys and s :: "'a link_scheme"
    by (induction xs arbitrary: s) simp_all
  show ?case using Suc
    by (auto simp: a arp_live_def take_Suc_conv_app_nth nth_append list_update_append Cons_nth_drop_Suc [symmetric])
qed simp

context quiet_link
begin

lemma tmr_entry_table: "i < length (arp_table s) \<Longrightarrow> arp_table (tmr_entry E i s) = (arp_table s)[i := tick_entry (arp_table s ! i)]"
proof (cases "arp_live (arp_table s ! i)")
  case True
  assume "i < length (arp_table s)"
  with True show ?thesis
    by (cases "arp_table s ! i"; cases "arp_state (arp_table s ! i)") (simp_all add: tmr_entry_def tick_entry_def Let_def arp_live_def)
qed (simp add: tmr_entry_def tick_entry_def arp_live_def)

lemma tmr_table:
  "n \<le> length (arp_table s) \<Longrightarrow> arp_table (fold (tmr_entry E) [0..<n] s) = map tick_entry (take n (arp_table s)) @ drop n (arp_table s)"
proof (induction n)
  case (Suc n)
  then show ?case
    by (simp add: tmr_entry_table take_Suc_conv_app_nth nth_append list_update_append Cons_nth_drop_Suc [symmetric])
qed simp

lemma tmr_all_table: "table_ok (arp_table s) \<Longrightarrow> arp_table (etharp_tmr_all E s) = map tick_entry (arp_table s)"
  unfolding etharp_tmr_all_def by (subst tmr_table) (simp_all add: table_ok_def)

lemma queue_table:
  assumes "queue_packet E i q s = Some (r, s')"
  shows "arp_table s' = arp_table s \<or> (\<exists>p. arp_table s' = (arp_table s)[i := (arp_table s ! i)\<lparr>arp_q := p\<rparr>])"
proof -
  obtain c s1 where c: "copy_needed q s = Some (c, s1)" using assms by (auto simp: queue_packet_def split: Option.bind_splits)
  then have 1: "arp_table s1 = arp_table s" using link_frame [OF more_copy_needed [OF c]] by simp
  obtain p s2 where p: "(if c then pbuf_clone (link_lw E) PBUF_LINK PBUF_RAM q s1 else Some (q, pbuf_ref q s1)) = Some (p, s2)"
    using assms c by (auto simp: queue_packet_def split: Option.bind_splits)
  then have 2: "arp_table s2 = arp_table s"
    using link_frame [OF more_pbuf_clone, of "link_lw E" PBUF_LINK q s1 "(p, s2)"] 1 by (auto split: if_splits)
  show ?thesis using assms c p 2 by (auto simp: queue_packet_def Let_def split: if_splits)
qed

end

text \<open>A pending entry, new or old, answers nothing.\<close>

lemma forgets_pending:
  assumes "table_ok t" "i < 10" "arp_state (t ! i) = ETHARP_STATE_PENDING" "entry_ok e" "arp_state e = ETHARP_STATE_PENDING"
    "arp_ipaddr e = arp_ipaddr (t ! i)"
  shows "forgets t (t[i := e])"
  by (rule forgets_entry [OF assms(1,4)]) (use assms in \<open>auto simp: arp_live_def stable_for_iff\<close>)

lemma entry_at: "table_ok t \<Longrightarrow> i < 10 \<Longrightarrow> entry_ok (t ! i)"
  by (simp add: table_ok_def list_all_length)

context quiet_link
begin

lemma queue_forgets:
  assumes "queue_packet E i q s = Some (r, s')" "table_ok (arp_table s)" "i < 10" "arp_state (arp_table s ! i) = ETHARP_STATE_PENDING"
  shows "forgets (arp_table s) (arp_table s')"
proof -
  have "entry_ok ((arp_table s ! i)\<lparr>arp_q := p\<rparr>)" for p
    using entry_at [OF assms(2,3)] assms(4) by (simp add: entry_ok_def arp_live_def)
  then show ?thesis
    using queue_table [OF assms(1)] assms(2-4) by (auto intro!: forgets_refl forgets_pending)
qed

text \<open>The end of \<^verbatim>\<open>etharp_query\<close>, on an entry that is not empty.\<close>

lemma send_or_queue_forgets:
  assumes "table_ok (arp_table s)" "i < 10"
    "(if state_code (arp_state (arp_table s ! i)) \<ge> 2 then Some (ethernet_output E n q src (arp_ethaddr (arp_table s ! i)) ETHTYPE_IP (ETHARP_SET_ADDRHINT n (of_nat i) s))
      else if arp_state (arp_table s ! i) = ETHARP_STATE_PENDING then queue_packet E i q s else Some (x, s)) = Some (r, s')"
  shows "forgets (arp_table s) (arp_table s')"
proof (cases "state_code (arp_state (arp_table s ! i)) \<ge> 2")
  case True
  then have "s' = snd (ethernet_output E n q src (arp_ethaddr (arp_table s ! i)) ETHTYPE_IP (ETHARP_SET_ADDRHINT n (of_nat i) s))"
    using assms(3) by (auto simp: prod_eq_iff)
  then show ?thesis using forgets_refl [OF assms(1)] by simp
next
  case False
  then show ?thesis
    using assms queue_forgets [of i q s r s'] forgets_refl [OF assms(1)] by (cases "arp_state (arp_table s ! i) = ETHARP_STATE_PENDING") simp_all
qed

end

context quiet_link
begin

lemma query_entry_forgets:
  assumes "table_ok (arp_table s)" "i < 10" "query_entry E n a q src i new s = Some (r, s')"
  shows "forgets (arp_table s) (arp_table s')"
proof -
  define x where "x = (if new \<or> q = 0
            then let (result, s) = etharp_request E n a s in
              (result, if result = ERR_OK \<and> arp_state (arp_table s ! i) = ETHARP_STATE_PENDING \<and> \<not> new
                       then upd_entry i (\<lambda>e. e\<lparr>arp_ctime := 0\<rparr>) s else s)
            else (ERR_MEM, s))"
  have "entry_ok ((arp_table s ! i)\<lparr>arp_ctime := 0\<rparr>)" using entry_at [OF assms(1,2)] by (simp add: entry_ok_def arp_live_def)
  then have "arp_state (arp_table s ! i) = ETHARP_STATE_PENDING \<Longrightarrow> forgets (arp_table s) ((arp_table s)[i := (arp_table s ! i)\<lparr>arp_ctime := 0\<rparr>])"
    using assms(1,2) by (intro forgets_pending) simp_all
  then have 1: "forgets (arp_table s) (arp_table (snd x))"
    using forgets_refl [OF assms(1)] by (simp add: x_def split_beta Let_def)
  have ok: "table_ok (arp_table (snd x))" using 1 by (simp add: forgets_def)
  have t: "(if q = 0 then Some (fst x, snd x) else if state_code (arp_state (arp_table (snd x) ! i)) \<ge> 2
      then Some (ethernet_output E n q src (arp_ethaddr (arp_table (snd x) ! i)) ETHTYPE_IP (ETHARP_SET_ADDRHINT n (of_nat i) (snd x)))
      else if arp_state (arp_table (snd x) ! i) = ETHARP_STATE_PENDING then queue_packet E i q (snd x) else Some (fst x, snd x)) = Some (r, s')"
    using assms(3) unfolding query_entry_def x_def [symmetric] by (simp only: split_beta Let_def)
  show ?thesis
  proof (cases "q = 0")
    case True
    then show ?thesis using t 1 by auto
  next
    case False
    then have "forgets (arp_table (snd x)) (arp_table s')"
      using t by (intro send_or_queue_forgets [OF ok assms(2)]) (simp only: if_False)
    then show ?thesis using 1 forgets_trans by blast
  qed
qed

lemma query_forgets:
  assumes "table_ok (arp_table s)" "n \<noteq> 0" "etharp_query E n a q s = Some (r, s')"
  shows "forgets (arp_table s) (arp_table s')"
proof (cases "ip4_addr_isbroadcast_u32 a (netifs s n) \<or> ip4_addr_ismulticast a \<or> a = 0")
  case True
  then have "etharp_query E n a q s = Some (ERR_ARG, s)" unfolding etharp_query_def Let_def by (simp only: if_True)
  then show ?thesis using assms(3) forgets_refl [OF assms(1)] by simp
next
  case False
  obtain f s1 where f: "etharp_find_entry (Some a) 1 s = (f, s1)" by fastforce
  note q = assms(3) [unfolded etharp_query_def Let_def f prod.case if_not_P [OF False]]
  from assms(1) f show ?thesis
  proof (cases rule: find_entry_cases)
    case failed
    then have "arp_table s' = arp_table s" using q by auto
    then show ?thesis using forgets_refl [OF assms(1)] by simp
  next
    case (hit i)
    then show ?thesis using q query_entry_forgets [OF assms(1) hit(3)] by (simp add: arp_live_def)
  next
    case (fresh i e)
    let ?e = "e\<lparr>arp_state := ETHARP_STATE_PENDING, arp_netif := n\<rparr>"
    let ?s = "upd_entry i (\<lambda>e. e\<lparr>arp_state := ETHARP_STATE_PENDING, arp_netif := n\<rparr>) s1"
    have l: "length (arp_table s) = 10" using assms(1) by (simp add: table_ok_def)
    have t: "arp_table ?s = (arp_table s)[i := ?e]" using fresh(2,3) l by simp
    have "entry_ok ?e" using fresh(6-8) False assms(2) by (simp add: entry_ok_def)
    then have 1: "forgets (arp_table s) (arp_table ?s)"
      unfolding t using fresh(8,9) by (intro forgets_update [OF assms(1)]) (auto simp: stable_for_iff)
    then have "table_ok (arp_table ?s)" by (simp add: forgets_def)
    moreover have "query_entry E n a q (nif_hwaddr (netifs s n)) i True ?s = Some (r, s')" using q fresh(1,2,3,5) l by simp
    ultimately have "forgets (arp_table ?s) (arp_table s')" using fresh(2) by (intro query_entry_forgets)
    then show ?thesis using 1 forgets_trans by blast
  qed
qed

lemma index_forgets:
  assumes "table_ok (arp_table s)" "i < 10"
  shows "forgets (arp_table s) (arp_table (snd (etharp_output_to_arp_index E n q i s)))"
proof -
  let ?e = "(arp_table s ! i)\<lparr>arp_state := ETHARP_STATE_STABLE_REREQUESTING_1\<rparr>"
  have "arp_table (snd (etharp_output_to_arp_index E n q i s)) = arp_table s
      \<or> arp_state (arp_table s ! i) = ETHARP_STATE_STABLE \<and> arp_table (snd (etharp_output_to_arp_index E n q i s)) = (arp_table s)[i := ?e]"
    by (auto simp: etharp_output_to_arp_index_def Let_def split_beta)
  moreover have "forgets (arp_table s) ((arp_table s)[i := ?e])" if "arp_state (arp_table s ! i) = ETHARP_STATE_STABLE"
    using that entry_at [OF assms] by (intro forgets_entry [OF assms(1)]) (auto simp: entry_ok_def arp_live_def stable_for_iff)
  ultimately show ?thesis using forgets_refl [OF assms(1)] by auto
qed

lemma output_forgets:
  assumes "table_ok (arp_table s)" "n \<noteq> 0" "etharp_output E n q a s = Some (r, s')"
  shows "forgets (arp_table s) (arp_table s')"
proof -
  define s1 where "s1 = LWIP_ASSERT ''q != NULL'' (q \<noteq> 0) (LWIP_ASSERT ''netif != NULL'' (n \<noteq> 0) s)"
  have t: "arp_table s1 = arp_table s" "netifs s1 = netifs s" by (simp_all add: s1_def)
  have ok: "table_ok (arp_table s1)" using assms(1) t by simp
  consider src dst where "ethernet_output E n q src dst ETHTYPE_IP s1 = (r, s')" | "s' = s1"
    | i u where "i < 10" "etharp_output_to_arp_index E n q i u = (r, s')" "arp_table u = arp_table s1"
    | d where "etharp_query E n d q s1 = Some (r, s')"
    using assms(3) unfolding etharp_output_def s1_def [symmetric] Let_def
    by (auto simp: find_Some_iff split: if_splits option.splits)
  then show ?thesis
  proof cases
    case 1
    then show ?thesis using ethernet_output_quiet(1) [of n q src dst ETHTYPE_IP s1] forgets_refl [OF assms(1)] t by simp
  next
    case (3 i u)
    then show ?thesis using index_forgets [of u i n q] ok t by simp
  qed (use query_forgets [OF ok assms(2)] forgets_refl [OF assms(1)] t in auto)
qed

lemma cleanup_forgets: "table_ok (arp_table s) \<Longrightarrow> forgets (arp_table s) (arp_table (etharp_cleanup_netif k s))"
  unfolding etharp_cleanup_netif_def
  by (subst cleanup_table, simp add: table_ok_def, simp add: table_ok_def [THEN iffD1, THEN conjunct1])
    (rule forgets_map, auto simp: blank_def entry_ok_def arp_live_def stable_for_iff)

end

subsection \<open>Caches that learn\<close>

text \<open>
  Steps carry what they learn; \<open>trace_of\<close> collects it, newest first. A cache keeps of what it has learned what it likes, but what it
  answers for a key is what it learned last for that key.
\<close>

inductive trace_of :: "('s \<Rightarrow> 'l \<Rightarrow> 's \<Rightarrow> bool) \<Rightarrow> 's \<Rightarrow> 'l list \<Rightarrow> 's \<Rightarrow> bool" for step where
  no_step: "trace_of step s [] s"
| one_more: "trace_of step s ls t \<Longrightarrow> step t l u \<Longrightarrow> trace_of step s (l # ls) u"

primrec latest :: "('k \<times> 'v) option list \<Rightarrow> 'k \<rightharpoonup> 'v" where
  "latest [] = Map.empty"
| "latest (l # ls) = (case l of None \<Rightarrow> latest ls | Some (k, v) \<Rightarrow> (latest ls)(k \<mapsto> v))"

locale learning_cache =
  fixes lookup :: "'s \<Rightarrow> 'k \<rightharpoonup> 'v" and step :: "'s \<Rightarrow> ('k \<times> 'v) option \<Rightarrow> 's \<Rightarrow> bool" and good :: "'s \<Rightarrow> bool"
  assumes good_step: "step s l t \<Longrightarrow> good s \<Longrightarrow> good t"
    and learn: "step s (Some (k, v)) t \<Longrightarrow> good s \<Longrightarrow> lookup t \<subseteq>\<^sub>m (lookup s)(k \<mapsto> v)"
    and forget: "step s None t \<Longrightarrow> good s \<Longrightarrow> lookup t \<subseteq>\<^sub>m lookup s"
begin

lemma keeps_good: "trace_of step s ls t \<Longrightarrow> good s \<Longrightarrow> good t"
  by (induction rule: trace_of.induct) (auto intro: good_step)

lemma answers_latest: "trace_of step s ls t \<Longrightarrow> good s \<Longrightarrow> lookup s = Map.empty \<Longrightarrow> lookup t \<subseteq>\<^sub>m latest ls"
proof (induction rule: trace_of.induct)
  case (one_more s ls t l u)
  then have t: "good t" "lookup t \<subseteq>\<^sub>m latest ls" using keeps_good by blast+
  show ?case
  proof (cases l)
    case None
    then show ?thesis using forget one_more.hyps(2) t map_le_trans by fastforce
  next
    case (Some kv)
    obtain k v where "kv = (k, v)" by fastforce
    then have "lookup u \<subseteq>\<^sub>m (lookup t)(k \<mapsto> v)" using learn one_more.hyps(2) t(1) Some by blast
    moreover have "(lookup t)(k \<mapsto> v) \<subseteq>\<^sub>m (latest ls)(k \<mapsto> v)" using t(2) by (simp add: map_le_upd)
    ultimately have "lookup u \<subseteq>\<^sub>m (latest ls)(k \<mapsto> v)" by (rule map_le_trans)
    then show ?thesis using Some \<open>kv = (k, v)\<close> by (simp only: latest.simps option.case prod.case)
  qed
qed simp

end

text \<open>The pair of addresses the table learns from an ARP packet.\<close>

definition learns :: "'a link_env \<Rightarrow> u32 \<Rightarrow> u32 \<Rightarrow> 'a link_scheme \<Rightarrow> (u32 \<times> bytes) option" where
  "learns E p netif s =
    (let hdr = pb_payload (pbufs s p) in
     if netif = 0 \<or> peek16 hdr s \<noteq> lwip_htons 1 \<or> lmem s (hdr + 4) \<noteq> 6 \<or> lmem s (hdr + 5) \<noteq> 4 \<or> peek16 (hdr + 2) s \<noteq> lwip_htons ETHTYPE_IP then None
     else
       let s = acd_arp_reply E netif hdr (ETHARP_STATS_INC Stat_recv s);
           sipaddr = peek32 (hdr + 14) s;
           shwaddr = mem_read (lmem s) (hdr + 8) 6;
           ip = nif_ip4 (netifs s netif);
           flags = (if ip \<noteq> 0 \<and> peek32 (hdr + 24) s = ip then ETHARP_FLAG_TRY_HARD else ETHARP_FLAG_FIND_ONLY)
       in if fst (etharp_update_arp_entry E netif sipaddr shwaddr flags s) = ERR_OK then Some (sipaddr, shwaddr) else None)"

text \<open>The steps of the program, as the table sees them; the rest of it leaves the table alone.\<close>

inductive arp_step :: "'a link_env \<Rightarrow> 'a link_scheme \<Rightarrow> (u32 \<times> bytes) option \<Rightarrow> 'a link_scheme \<Rightarrow> bool" for E where
  arp_tick: "arp_step E s None (etharp_tmr_all E s)"
| arp_input: "arp_step E s (learns E p n s) (etharp_input E p n s)"
| arp_output: "n \<noteq> 0 \<Longrightarrow> etharp_output E n q a s = Some (r, t) \<Longrightarrow> arp_step E s None t"
| arp_query: "n \<noteq> 0 \<Longrightarrow> etharp_query E n a q s = Some (r, t) \<Longrightarrow> arp_step E s None t"
| arp_cleanup: "arp_step E s None (etharp_cleanup_netif n s)"
| arp_other: "arp_table t = arp_table s \<Longrightarrow> arp_step E s None t"

context quiet_link
begin

lemma input_table:
  assumes "table_ok (arp_table s)"
  shows "case learns E p n s of None \<Rightarrow> arp_table (etharp_input E p n s) = arp_table s
     | Some (a, m) \<Rightarrow> \<exists>s1 flags s2. n \<noteq> 0 \<and> arp_table s1 = arp_table s \<and> etharp_update_arp_entry E n a m flags s1 = (ERR_OK, s2)
         \<and> arp_table (etharp_input E p n s) = arp_table s2"
proof (cases "n = 0 \<or> peek16 (pb_payload (pbufs s p)) s \<noteq> lwip_htons 1 \<or> lmem s (pb_payload (pbufs s p) + 4) \<noteq> 6
    \<or> lmem s (pb_payload (pbufs s p) + 5) \<noteq> 4 \<or> peek16 (pb_payload (pbufs s p) + 2) s \<noteq> lwip_htons ETHTYPE_IP")
  case True
  then have "learns E p n s = None" by (simp add: learns_def Let_def)
  moreover have "arp_table (etharp_input E p n s) = arp_table s" using True by (auto simp: etharp_input_def Let_def)
  ultimately show ?thesis by simp
next
  case False
  define hdr where "hdr = pb_payload (pbufs s p)"
  define s1 where "s1 = acd_arp_reply E n hdr (ETHARP_STATS_INC Stat_recv s)"
  define a where "a = peek32 (hdr + 14) s1"
  define m where "m = mem_read (lmem s1) (hdr + 8) 6"
  define ip where "ip = nif_ip4 (netifs s1 n)"
  define flags where "flags = (if ip \<noteq> 0 \<and> peek32 (hdr + 24) s1 = ip then ETHARP_FLAG_TRY_HARD else ETHARP_FLAG_FIND_ONLY)"
  define u where "u = etharp_update_arp_entry E n a m flags s1"
  have s1: "arp_table s1 = arp_table s" by (simp add: s1_def acd_quiet)
  have l: "learns E p n s = (if fst u = ERR_OK then Some (a, m) else None)"
    using False by (simp add: learns_def Let_def hdr_def [symmetric] s1_def [symmetric] a_def [symmetric] m_def [symmetric] ip_def [symmetric] flags_def [symmetric] u_def [symmetric])
  have i: "arp_table (etharp_input E p n s) = arp_table (snd u)"
    using False by (simp add: etharp_input_def Let_def hdr_def [symmetric] s1_def [symmetric] a_def [symmetric] m_def [symmetric] ip_def [symmetric] flags_def u_def)
  show ?thesis
  proof (cases "fst u = ERR_OK")
    case True
    then have "etharp_update_arp_entry E n a m flags s1 = (ERR_OK, snd u)" by (simp add: u_def prod_eq_iff)
    then show ?thesis using False True l i s1 by auto
  next
    case refused: False
    then show ?thesis using l i s1 update_refused [of s1 n a m flags] assms by (simp add: u_def)
  qed
qed

lemma step_forgets:
  assumes "arp_step E s None t" "table_ok (arp_table s)"
  shows "forgets (arp_table s) (arp_table t)"
  using assms(1)
proof cases
  case (arp_input p n)
  then show ?thesis using input_table [OF assms(2), of p n] forgets_refl [OF assms(2)] by (simp split: option.splits)
qed (use assms(2) in \<open>simp_all add: tmr_all_table forgets_tick output_forgets query_forgets cleanup_forgets forgets_refl\<close>)

lemma step_learns:
  assumes "arp_step E s (Some (a, m)) t" "table_ok (arp_table s)"
  shows "table_ok (arp_table t) \<and> cache (arp_table t) \<subseteq>\<^sub>m (cache (arp_table s))(a \<mapsto> m) \<and> cache (arp_table t) a = Some m"
  using assms(1)
proof cases
  case (arp_input p n)
  obtain s1 flags s2 where "n \<noteq> 0" "arp_table s1 = arp_table s" "etharp_update_arp_entry E n a m flags s1 = (ERR_OK, s2)" "arp_table t = arp_table s2"
    using input_table [OF assms(2), of p n] arp_input by (auto split: option.splits)
  then show ?thesis using update_learns [of s1 n a m flags s2] assms(2) by simp
qed

end

sublocale quiet_link \<subseteq> learning_cache "\<lambda>s. cache (arp_table s)" "arp_step E" "\<lambda>s. table_ok (arp_table s)"
proof
  fix s t and l :: "(u32 \<times> bytes) option"
  assume "arp_step E s l t" "table_ok (arp_table s)"
  then show "table_ok (arp_table t)" using step_forgets step_learns by (cases l) (auto simp: forgets_def)
qed (use step_forgets step_learns in \<open>auto simp: forgets_def\<close>)

subsection \<open>Lookup\<close>

lemma find_addr_cache:
  assumes "table_ok (arp_table s)"
  shows "snd (etharp_find_addr (Some a) s) = s"
    "(\<exists>i. fst (etharp_find_addr (Some a) s) = Some (i, m, a')) \<longleftrightarrow> cache (arp_table s) a = Some m \<and> a' = a"
proof (atomize(full), cases "search_table (Some a) (arp_table s) [0..<10] no_candidates")
  case (Inl i)
  have i: "i < 10" "arp_live (arp_table s ! i)" "arp_ipaddr (arp_table s ! i) = a" using search_found [OF Inl] by auto
  have "stable_for a (arp_table s ! j) \<and> j < 10 \<longleftrightarrow> j = i \<and> arp_state (arp_table s ! i) \<noteq> ETHARP_STATE_PENDING" for j
    using assms i by (auto simp: table_ok_def stable_for_iff)
  moreover have "cache (arp_table s) a = Some m \<longleftrightarrow> (\<exists>j. (stable_for a (arp_table s ! j) \<and> j < 10) \<and> arp_ethaddr (arp_table s ! j) = m)"
    unfolding cache_iff [OF assms] by auto
  ultimately have "cache (arp_table s) a = Some m \<longleftrightarrow> arp_state (arp_table s ! i) \<noteq> ETHARP_STATE_PENDING \<and> arp_ethaddr (arp_table s ! i) = m"
    by simp
  moreover have "etharp_find_entry (Some a) 2 s = (Inr i, s)" using Inl by (simp add: etharp_find_entry_def)
  ultimately show "snd (etharp_find_addr (Some a) s) = s \<and>
      ((\<exists>i. fst (etharp_find_addr (Some a) s) = Some (i, m, a')) = (cache (arp_table s) a = Some m \<and> a' = a))"
    using i(2,3) by (auto simp: etharp_find_addr_def Let_def stable_iff)
next
  case (Inr c)
  then have "cache (arp_table s) a \<noteq> Some m"
    using search_none [OF Inr] unfolding cache_iff [OF assms] by (auto simp: stable_for_iff)
  moreover have "etharp_find_entry (Some a) 2 s = (Inl ERR_MEM, s)" using Inr by (simp add: etharp_find_entry_def)
  ultimately show "snd (etharp_find_addr (Some a) s) = s \<and>
      ((\<exists>i. fst (etharp_find_addr (Some a) s) = Some (i, m, a')) = (cache (arp_table s) a = Some m \<and> a' = a))"
    by (auto simp: etharp_find_addr_def)
qed

lemma empty_cache: "table_ok t \<Longrightarrow> \<forall>e \<in> set t. \<not> arp_live e \<Longrightarrow> cache t = Map.empty"
  unfolding fun_eq_iff not_Some_eq [symmetric] by (auto simp: cache_iff stable_for_iff table_ok_def)

subsection \<open>Lifetime\<close>

lemma arp_live_tick: "arp_live (tick_entry e) \<longleftrightarrow> arp_live e \<and> (if arp_state e = ETHARP_STATE_PENDING then arp_ctime e + 1 < 5 \<and> arp_ctime e + 1 < 300 else arp_ctime e + 1 < 300)"
  by (cases "arp_state e") (auto simp: tick_entry_def arp_live_def blank_def not_le split: if_splits)

lemma ticks:
  assumes "entry_ok e"
  shows "entry_ok ((tick_entry ^^ n) e) \<and> (arp_live ((tick_entry ^^ n) e) \<longleftrightarrow>
      arp_live e \<and> unat (arp_ctime e) + n < (if arp_state e = ETHARP_STATE_PENDING then 5 else 300))
    \<and> (arp_live ((tick_entry ^^ n) e) \<longrightarrow> unat (arp_ctime ((tick_entry ^^ n) e)) = unat (arp_ctime e) + n
        \<and> (arp_state ((tick_entry ^^ n) e) = ETHARP_STATE_PENDING \<longleftrightarrow> arp_state e = ETHARP_STATE_PENDING))"
proof (induction n)
  case 0
  then show ?case using assms by (auto simp: entry_ok_def word_less_nat_alt)
next
  case (Suc n)
  let ?e = "(tick_entry ^^ n) e"
  have c: "unat (arp_ctime ?e + 1) = unat (arp_ctime ?e) + 1" using Suc by (intro ctime_grows) (simp add: entry_ok_def)
  have "arp_live (tick_entry ?e) \<Longrightarrow> unat (arp_ctime (tick_entry ?e)) = unat (arp_ctime ?e) + 1
      \<and> (arp_state (tick_entry ?e) = ETHARP_STATE_PENDING \<longleftrightarrow> arp_state ?e = ETHARP_STATE_PENDING)"
    using c by (cases "arp_state ?e") (auto simp: tick_entry_def arp_live_def blank_def split: if_splits)
  then show ?case using Suc c entry_ok_tick [of ?e] by (auto simp: arp_live_tick word_less_nat_alt split: if_splits)
qed

context quiet_link
begin

lemma ticks_table: "table_ok (arp_table s) \<Longrightarrow>
  table_ok (arp_table ((etharp_tmr_all E ^^ n) s)) \<and> arp_table ((etharp_tmr_all E ^^ n) s) = map (tick_entry ^^ n) (arp_table s)"
proof (induction n)
  case (Suc n)
  then have 1: "table_ok (arp_table ((etharp_tmr_all E ^^ n) s))" and 2: "arp_table ((etharp_tmr_all E ^^ n) s) = map (tick_entry ^^ n) (arp_table s)"
    by blast+
  show ?case using tmr_all_table [OF 1] forgets_tick [OF 1] by (simp add: forgets_def 2)
qed simp

end

subsection \<open>Recycling\<close>

text \<open>How much an entry is worth: empty, with a known address, asked for, asked for with a packet waiting.\<close>

definition worth :: "etharp_entry \<Rightarrow> nat" where
  "worth e = (case arp_state e of ETHARP_STATE_EMPTY \<Rightarrow> 0 | ETHARP_STATE_PENDING \<Rightarrow> if arp_q e = 0 then 2 else 3 | _ \<Rightarrow> 1)"

text \<open>An entry of the kind seen so far that is oldest, the last of them, or none.\<close>

definition oldest :: "etharp_entry list \<Rightarrow> nat set \<Rightarrow> nat \<Rightarrow> nat \<Rightarrow> u16 \<Rightarrow> bool" where
  "oldest t js k i age \<longleftrightarrow> i = 10 \<and> age = 0 \<and> (\<forall>j \<in> js. worth (t ! j) \<noteq> k)
     \<or> i < 10 \<and> i \<in> js \<and> worth (t ! i) = k \<and> age = arp_ctime (t ! i) \<and> (\<forall>j \<in> js. worth (t ! j) = k \<longrightarrow> arp_ctime (t ! j) \<le> age)"

definition seen :: "etharp_entry list \<Rightarrow> nat set \<Rightarrow> candidates \<Rightarrow> bool" where
  "seen t js c \<longleftrightarrow> (c_empty c = 10 \<and> (\<forall>j \<in> js. worth (t ! j) \<noteq> 0) \<or> c_empty c < 10 \<and> c_empty c \<in> js \<and> worth (t ! c_empty c) = 0)
     \<and> oldest t js 1 (old_stable c) (age_stable c) \<and> oldest t js 2 (old_pending c) (age_pending c) \<and> oldest t js 3 (old_queue c) (age_queue c)"

lemma oldest_other: "oldest t js k i age \<Longrightarrow> worth (t ! j) \<noteq> k \<Longrightarrow> oldest t (insert j js) k i age"
  by (auto simp: oldest_def)

lemma oldest_new: "oldest t js k i age \<Longrightarrow> worth (t ! j) = k \<Longrightarrow> j < 10 \<Longrightarrow>
    (age \<le> arp_ctime (t ! j) \<longrightarrow> oldest t (insert j js) k j (arp_ctime (t ! j))) \<and> (\<not> age \<le> arp_ctime (t ! j) \<longrightarrow> oldest t (insert j js) k i age)"
  by (auto simp: oldest_def)

lemma worth_empty: "worth e = 0 \<longleftrightarrow> arp_state e = ETHARP_STATE_EMPTY"
  by (cases "arp_state e") (simp_all add: worth_def)

lemma seen_empty: "seen t js c \<Longrightarrow> worth (t ! j) = 0 \<Longrightarrow> j < 10 \<Longrightarrow> seen t (insert j js) (if c_empty c = 10 then c\<lparr>c_empty := j\<rparr> else c)"
  by (auto simp: seen_def intro!: oldest_other)

lemma remember_worth: "arp_state e \<noteq> ETHARP_STATE_EMPTY \<Longrightarrow> remember i e c =
    (if worth e = 3 then if arp_ctime e \<ge> age_queue c then c\<lparr>old_queue := i, age_queue := arp_ctime e\<rparr> else c
     else if worth e = 2 then if arp_ctime e \<ge> age_pending c then c\<lparr>old_pending := i, age_pending := arp_ctime e\<rparr> else c
     else if arp_ctime e \<ge> age_stable c then c\<lparr>old_stable := i, age_stable := arp_ctime e\<rparr> else c)"
  by (cases "arp_state e") (simp_all add: remember_def worth_def word_le_nat_alt [of 2])

lemma worth_range: "worth e = 0 \<or> worth e = 1 \<or> worth e = 2 \<or> worth e = 3"
  by (cases "arp_state e") (simp_all add: worth_def)

lemma seen_remember:
  assumes "seen t js c" "worth (t ! j) \<noteq> 0" "j < 10"
  shows "seen t (insert j js) (remember j (t ! j) c)"
proof -
  note s = assms(1) [unfolded seen_def]
  note n = oldest_new [where j = j and js = js, OF _ _ assms(3)]
  consider "worth (t ! j) = 1" | "worth (t ! j) = 2" | "worth (t ! j) = 3" using worth_range [of "t ! j"] assms(2) by auto
  then show ?thesis
  proof cases
    case 1
    then show ?thesis using s n [of t 1] remember_worth [of "t ! j" j c] by (auto simp: seen_def worth_empty [symmetric] oldest_other)
  next
    case 2
    then show ?thesis using s n [of t 2] remember_worth [of "t ! j" j c] by (auto simp: seen_def worth_empty [symmetric] oldest_other)
  next
    case 3
    then show ?thesis using s n [of t 3] remember_worth [of "t ! j" j c] by (auto simp: seen_def worth_empty [symmetric] oldest_other)
  qed
qed

lemma search_seen:
  "search_table ip t is c = Inr c' \<Longrightarrow> seen t js c \<Longrightarrow> \<forall>i \<in> set is. i < 10 \<Longrightarrow> seen t (js \<union> set is) c'"
proof (induction "is" arbitrary: c js)
  case (Cons i "is")
  then show ?case
    using seen_empty [of t js c i] seen_remember [of t js c i] Cons.IH [of _ "insert i js"]
    by (auto simp: Let_def worth_empty split: if_splits)
qed simp

lemma least_worth:
  assumes "search_table (Some a) t [0..<10] no_candidates = Inr c"
  shows "c_empty c < 10 \<Longrightarrow> worth (t ! c_empty c) = 0"
    "c_empty c \<ge> 10 \<Longrightarrow> \<exists>i < 10. choose_entry c = Some i \<and> (\<forall>j < 10. worth (t ! i) < worth (t ! j)
        \<or> worth (t ! i) = worth (t ! j) \<and> arp_ctime (t ! j) \<le> arp_ctime (t ! i))"
proof -
  have "seen t {} no_candidates" by (simp add: seen_def no_candidates_def oldest_def)
  then have s: "seen t {0..<10} c" using search_seen [OF assms] by fastforce
  then show "c_empty c < 10 \<Longrightarrow> worth (t ! c_empty c) = 0" by (simp add: seen_def)
  assume "c_empty c \<ge> 10"
  then have "\<forall>j \<in> {0..<10}. worth (t ! j) \<noteq> 0" using s unfolding seen_def by linarith
  then have w: "worth (t ! j) = 1 \<or> worth (t ! j) = 2 \<or> worth (t ! j) = 3" if "j < 10" for j
    using that worth_range [of "t ! j"] by (metis atLeastLessThan_iff le0)
  have o: "old_stable c = 10 \<Longrightarrow> j < 10 \<Longrightarrow> worth (t ! j) \<noteq> 1" "old_pending c = 10 \<Longrightarrow> j < 10 \<Longrightarrow> worth (t ! j) \<noteq> 2"
    "old_queue c = 10 \<Longrightarrow> j < 10 \<Longrightarrow> worth (t ! j) \<noteq> 3" for j using s by (auto simp: seen_def oldest_def)
  have m: "i < 10 \<and> worth (t ! i) = k \<and> (\<forall>j < 10. worth (t ! j) = k \<longrightarrow> arp_ctime (t ! j) \<le> arp_ctime (t ! i))"
    if "oldest t {0..<10} k i age" "i \<noteq> 10" for k i age using that by (auto simp: oldest_def)
  consider "old_stable c \<noteq> 10" | "old_stable c = 10" "old_pending c \<noteq> 10" | "old_stable c = 10" "old_pending c = 10" "old_queue c \<noteq> 10"
    using w [of 0] o [of 0] by fastforce
  then show "\<exists>i < 10. choose_entry c = Some i \<and> (\<forall>j < 10. worth (t ! i) < worth (t ! j)
        \<or> worth (t ! i) = worth (t ! j) \<and> arp_ctime (t ! j) \<le> arp_ctime (t ! i))"
  proof cases
    case 1
    have "oldest t {0..<10} 1 (old_stable c) (age_stable c)" using s by (simp add: seen_def)
    from m [OF this 1] show ?thesis using w by (intro exI [of _ "old_stable c"]) (fastforce simp: choose_entry_def)
  next
    case 2
    have "oldest t {0..<10} 2 (old_pending c) (age_pending c)" using s by (simp add: seen_def)
    from m [OF this 2(2)] show ?thesis using w o(1) 2(1) by (intro exI [of _ "old_pending c"]) (fastforce simp: choose_entry_def)
  next
    case 3
    have "oldest t {0..<10} 3 (old_queue c) (age_queue c)" using s by (simp add: seen_def)
    from m [OF this 3(3)] show ?thesis using w o(1,2) 3(1,2) by (intro exI [of _ "old_queue c"]) (fastforce simp: choose_entry_def)
  qed
qed

end
