(* ===== verification/ArpLink.thy ===== *)
theory ArpLink
  imports ArpCache Host
begin

text \<open>
  Address resolution on the wireless interface: the network stack with \<^verbatim>\<open>ath_link_output\<close> of \<^verbatim>\<open>wifi_host.c\<close> as the function the
  interface sends with, so that the state of the host is the last part of the state. In this configuration no client of the
  conflict detection registers, its list is empty and \<^verbatim>\<open>acd_arp_reply\<close> returns at once.
\<close>

definition ath_linkoutput :: "net \<Rightarrow> u32 \<Rightarrow> u32 \<Rightarrow> host link_scheme \<Rightarrow> err_t \<times> host link_scheme" where
  "ath_linkoutput w netif p s =
    (let (e, h) = ath_link_output w (mem_read (lmem s) (pb_payload (pbufs s p)) (unat (pb_len (pbufs s p)))) (link.more s)
     in (if e = 0 then err_t.ERR_OK else err_t.ERR_MEM, link.more_update (\<lambda>_. h) s))"

definition ath_env :: "lw \<Rightarrow> net \<Rightarrow> (u32 \<Rightarrow> u32 \<Rightarrow> host link_scheme \<Rightarrow> host link_scheme) \<Rightarrow> host link_env" where
  "ath_env L w ip = \<lparr>link_lw = L, linkoutput = ath_linkoutput w, acd_arp_reply = (\<lambda>_ _ s. s), ip4_input = ip\<rparr>"

interpretation ath: quiet_link "ath_env L w ip" for L w ip
  by unfold_locales (simp_all add: ath_env_def ath_linkoutput_def split_beta Let_def)

subsection \<open>The table\<close>

definition empty_table :: "etharp_entry list" where
  "empty_table = replicate ARP_TABLE_SIZE blank"

lemma empty_table_ok: "table_ok empty_table" "cache empty_table = Map.empty"
proof -
  have "table_ok empty_table" by (auto simp: empty_table_def table_ok_def entry_ok_def arp_live_def blank_def list_all_length)
  then show "table_ok empty_table" "cache empty_table = Map.empty"
    by (auto intro!: empty_cache simp: empty_table_def arp_live_def blank_def)
qed

lemma recycles_least:
  assumes "table_ok (arp_table s)" "\<And>j. j < ARP_TABLE_SIZE \<Longrightarrow> arp_live (arp_table s ! j) \<Longrightarrow> arp_ipaddr (arp_table s ! j) \<noteq> a"
  shows "\<exists>i s'. etharp_find_entry (Some a) ETHARP_FLAG_TRY_HARD s = (Inr i, s') \<and> i < ARP_TABLE_SIZE
     \<and> (\<forall>j < ARP_TABLE_SIZE. worth (arp_table s ! i) < worth (arp_table s ! j)
          \<or> worth (arp_table s ! i) = worth (arp_table s ! j)
            \<and> (arp_live (arp_table s ! i) \<longrightarrow> arp_ctime (arp_table s ! j) \<le> arp_ctime (arp_table s ! i)))
     \<and> (\<exists>e. arp_table s' = (arp_table s)[i := e] \<and> arp_ipaddr e = a \<and> \<not> arp_live e \<and> arp_q e = 0 \<and> arp_ctime e = 0)"
proof (cases "search_table (Some a) (arp_table s) [0..<10] no_candidates")
  case (Inl i)
  then show ?thesis using search_found [OF Inl] assms(2) by auto
next
  case (Inr c)
  have l: "length (arp_table s) = 10" using assms(1) by (simp add: table_ok_def)
  note least = least_worth [OF Inr]
  show ?thesis
  proof (cases "c_empty c < 10")
    case True
    let ?s = "snd (new_entry (Some a) (c_empty c) s)"
    have "etharp_find_entry (Some a) 1 s = (Inr (c_empty c), ?s)"
      using Inr True table_new_entry(3) [of a "c_empty c" s] by (simp add: etharp_find_entry_def prod_eq_iff)
    moreover have "\<not> arp_live (arp_table s ! c_empty c)" "arp_q (arp_table s ! c_empty c) = 0"
      using least(1) [OF True] entry_at [OF assms(1) True] by (auto simp: worth_empty arp_live_def entry_ok_def)
    moreover have "arp_table ?s = (arp_table s)[c_empty c := (arp_table s ! c_empty c)\<lparr>arp_ipaddr := a, arp_ctime := 0\<rparr>]"
      using True l by (intro table_new_entry) simp
    ultimately show ?thesis
      using True least(1) [OF True] by (intro exI [of _ "c_empty c"] exI [of _ ?s]) (auto simp: arp_live_def)
  next
    case False
    then obtain i where i: "i < 10" "choose_entry c = Some i" "\<forall>j < 10. worth (arp_table s ! i) < worth (arp_table s ! j)
        \<or> worth (arp_table s ! i) = worth (arp_table s ! j) \<and> arp_ctime (arp_table s ! j) \<le> arp_ctime (arp_table s ! i)"
      using least(2) by auto
    define u where "u = (if old_stable c < 10 then LWIP_ASSERT ''arp_table[i].q == NULL'' (arp_q (arp_table s ! i) = 0) s else s)"
    let ?s = "snd (new_entry (Some a) i (etharp_free_entry i u))"
    have "etharp_find_entry (Some a) 1 s = new_entry (Some a) i (etharp_free_entry i u)"
      using Inr False i(2) by (simp add: etharp_find_entry_def Let_def u_def)
    then have "etharp_find_entry (Some a) 1 s = (Inr i, ?s)" using table_new_entry(3) [of a i "etharp_free_entry i u"] by (simp add: prod_eq_iff)
    moreover have "arp_table ?s = (arp_table s)[i := blank\<lparr>arp_ipaddr := a\<rparr>]"
      using i(1) l table_new_entry(1) [of i "etharp_free_entry i u" a] by (simp add: u_def blank_def)
    ultimately show ?thesis using i(1,3) by (intro exI [of _ i] exI [of _ ?s]) (auto simp: blank_def arp_live_def)
  qed
qed

subsection \<open>Frames\<close>

text \<open>The header of a frame: the two bytes of padding, the 802.3 header with the length, the SNAP header with the type.\<close>

definition eth_header :: "bytes \<Rightarrow> bytes \<Rightarrow> u16 \<Rightarrow> u16 \<Rightarrow> bytes" where
  "eth_header dst src len ty = [0x00, 0x1C] @ dst @ src @ putle16 (lwip_htons len) @ [0xAA, 0xAA, 0x03, 0x00, 0x00, 0x00] @ putle16 (lwip_htons ty)"

text \<open>An ARP packet for Ethernet and IPv4, as RFC 826 lays it out.\<close>

definition arp_packet :: "u16 \<Rightarrow> bytes \<Rightarrow> u32 \<Rightarrow> bytes \<Rightarrow> u32 \<Rightarrow> bytes" where
  "arp_packet op sha spa tha tpa = [0, 1, 8, 0, 6, 4] @ putle16 (lwip_htons op) @ sha @ putle32 spa @ tha @ putle32 tpa"

lemma six: "length xs = 6 \<longleftrightarrow> (\<exists>a b c d e f. xs = [a, b, c, d, e, f])"
  by (auto simp: eval_nat_numeral length_Suc_conv)

lemma header_written:
  assumes "length dst = 6" "length src = 6"
  shows "mem_write (mem_write (mem_write (mem_write (mem_write (mem_write m (h + 22) (putle16 (lwip_htons ty))) (h + 2) dst) (h + 8) src) (h + 16)
      [0xAA, 0xAA, 0x03, 0x00, 0x00, 0x00]) h [0x00, 0x1C]) (h + 14) (putle16 (lwip_htons len)) = mem_write m h (eth_header dst src len ty)"
proof -
  obtain d0 d1 d2 d3 d4 d5 where d: "dst = [d0, d1, d2, d3, d4, d5]" using assms(1) by (auto simp: six)
  obtain e0 e1 e2 e3 e4 e5 where e: "src = [e0, e1, e2, e3, e4, e5]" using assms(2) by (auto simp: six)
  show ?thesis unfolding d e eth_header_def putle16_def by (rule ext) (simp add: fun_upd_def)
qed

lemma packet_written:
  assumes "length sha = 6" "length tha = 6"
  shows "mem_write (mem_write (mem_write (mem_write (mem_write (mem_write (mem_write (mem_write (mem_write m
      (h + 6) (putle16 (lwip_htons op))) (h + 8) sha) (h + 18) tha) (h + 14) (putle32 spa)) (h + 24) (putle32 tpa)) h (putle16 (lwip_htons 1)))
      (h + 2) (putle16 (lwip_htons 0x0800))) (h + 4) [6]) (h + 5) [4] = mem_write m h (arp_packet op sha spa tha tpa)"
proof -
  obtain d0 d1 d2 d3 d4 d5 where d: "sha = [d0, d1, d2, d3, d4, d5]" using assms(1) by (auto simp: six)
  obtain e0 e1 e2 e3 e4 e5 where e: "tha = [e0, e1, e2, e3, e4, e5]" using assms(2) by (auto simp: six)
  have "putle16 (lwip_htons 1) = [0, 1]" "putle16 (lwip_htons 0x0800) = [8, 0]" by (simp_all add: putle16_def lwip_htons_def)
  then show ?thesis unfolding d e arp_packet_def putle32_def by (auto simp: putle16_def fun_upd_def fun_eq_iff)
qed

lemma length_header: "length dst = 6 \<Longrightarrow> length src = 6 \<Longrightarrow> length (eth_header dst src len ty) = 24"
  by (simp add: eth_header_def putle16_def)

lemma length_packet: "length sha = 6 \<Longrightarrow> length tha = 6 \<Longrightarrow> length (arp_packet op sha spa tha tpa) = 28"
  by (simp add: arp_packet_def putle16_def putle32_def)

lemma read_behind:
  assumes "length bs = 24" "k < 0x10000"
  shows "mem_read (mem_write m h bs) h (24 + k) = bs @ mem_read m (h + 24) k"
proof -
  have "mem_read (mem_write m h bs) (h + 24) k = mem_read m (h + 24) k"
  proof (rule mem_read_apart)
    fix i assume "i < k"
    then have "unat (24 + of_nat i :: u32) = 24 + i" using assms(2) by (simp add: unat_word_ariths unat_of_nat)
    then show "length bs \<le> unat (h + 24 + of_nat i - h)" using assms(1) by simp
  qed (simp add: assms(1))
  moreover have "mem_read (mem_write m h bs) h 24 = bs" using mem_read_write_same [of bs m h] assms(1) by simp
  ultimately show ?thesis by (simp add: mem_read_add)
qed

text \<open>A buffer with room in front of its payload.\<close>

definition roomy :: "u32 \<Rightarrow> pbuf \<Rightarrow> bool" where
  "roomy p b \<longleftrightarrow> p \<noteq> 0 \<and> pb_type_internal b AND 0x80 \<noteq> 0 \<and> p + 16 \<le> pb_payload b - 24 \<and> unat (pb_tot_len b) + 24 < 0x10000
     \<and> pb_len b \<le> pb_tot_len b"

lemma add_eth_header:
  assumes "roomy p (pbufs s p)"
  shows "pbuf_add_header p 24 s = (0, upd_pbuf p (\<lambda>b. b\<lparr>pb_payload := pb_payload b - 24, pb_len := pb_len b + 24, pb_tot_len := pb_tot_len b + 24\<rparr>) s)"
proof -
  have "\<not> 24 + pb_tot_len (pbufs s p) < 24" using assms by (simp add: roomy_def word_less_nat_alt unat_word_ariths)
  then show ?thesis
    using assms by (simp add: roomy_def pbuf_add_header_def pbuf_add_header_impl_def Let_def SIZEOF_STRUCT_PBUF_def LWIP_MEM_ALIGN_SIZE_def not_less LWIP_ASSERT_def upd_pbuf_def)
qed

lemma ethernet_sent:
  assumes "roomy p (pbufs s p)" "length dst = 6" "length src = 6" "nif_hwaddr_len (netifs s n) = 6"
  shows "ethernet_output (ath_env L w ip) n p src dst ty s =
    (let b = pbufs s p;
         (e, h) = ath_link_output w (eth_header dst src (pb_len b + 10) ty @ mem_read (lmem s) (pb_payload b) (unat (pb_len b))) (link.more s)
     in (if e = 0 then err_t.ERR_OK else err_t.ERR_MEM,
         s\<lparr>pbufs := (pbufs s)(p := b\<lparr>pb_payload := pb_payload b - 24, pb_len := pb_len b + 24, pb_tot_len := pb_tot_len b + 24\<rparr>),
           lmem := mem_write (lmem s) (pb_payload b - 24) (eth_header dst src (pb_len b + 10) ty), link.more := h\<rparr>))"
proof -
  let ?b = "pbufs s p"
  define h where "h = pb_payload ?b - 24"
  have h: "pb_payload ?b = h + 24" by (simp add: h_def)
  have u: "unat (pb_len ?b + 24) = 24 + unat (pb_len ?b)" "unat (pb_len ?b) < 0x10000"
    using assms(1) by (simp_all add: roomy_def word_le_nat_alt unat_word_ariths)
  note w = header_written [OF assms(2,3), of "lmem s" h ty "pb_len ?b + 10"]
  note r = read_behind [OF length_header [OF assms(2,3)] u(2), of "lmem s" h]
  show ?thesis
    using assms(4)
    by (simp add: ethernet_output_def add_eth_header [OF assms(1)] Let_def poke_def LWIP_ASSERT_def upd_pbuf_def ath_env_def ath_linkoutput_def split_beta
        h w u r add.commute [of 10 "pb_len ?b"] del: mem_write.simps)
qed


text \<open>The buffer of an ARP packet, from \<^verbatim>\<open>malloc\<close>.\<close>

definition arp_buffer :: "u32 \<Rightarrow> pbuf" where
  "arp_buffer p = \<lparr>pb_next = 0, pb_payload = p + 80, pb_tot_len = 28, pb_len = 28, pb_type_internal = 0x80, pb_flags = 0, pb_ref = 1, pb_if_idx = 0\<rparr>"

lemma arp_alloc:
  assumes "mem_clib_malloc L (ltr s) 108 = p" "p \<noteq> 0" "p mod 4 = 0" "unat p + 108 \<le> 2 ^ 32"
  shows "pbuf_alloc L PBUF_LINK 28 PBUF_RAM s = (p, s\<lparr>ltr := LMalloc 108 p # ltr s, pbufs := (pbufs s)(p := arp_buffer p)\<rparr>)"
proof -
  have "unat (p + 80) = unat p + 80" using assms(4) by (simp add: unat_word_ariths)
  moreover have "unat p mod 4 = 0" using assms(3) by (simp add: word_unat_eq_iff unat_mod_distrib)
  ultimately have "unat (p + 80) mod 4 = 0" by presburger
  then have "(p + 80) mod 4 = 0" by (simp add: word_unat_eq_iff unat_mod_distrib)
  then have "LWIP_MEM_ALIGN (p + 80) = p + 80" "LWIP_MEM_ALIGN p = p" using assms(3) by (simp_all add: align_aligned)
  moreover have ty: "(640 :: u8) = 128" by (simp add: word_unat_eq_iff)
  ultimately show ?thesis
    using assms \<open>(p + 80) mod 4 = 0\<close>
    by (simp add: pbuf_alloc_def LWIP_MEM_ALIGN_SIZE_def SIZEOF_STRUCT_PBUF_def mem_malloc_def Let_def LWIP_ASSERT_def pbuf_init_alloced_pbuf_def upd_pbuf_def arp_buffer_def
        add.commute [of 80 p] ty)
qed

lemma arp_roomy: "p \<noteq> 0 \<Longrightarrow> unat p + 108 \<le> 2 ^ 32 \<Longrightarrow> roomy p (arp_buffer p)"
  by (simp add: roomy_def arp_buffer_def word_le_nat_alt unat_word_ariths)

lemma free_single:
  assumes "p \<noteq> 0" "pb_ref (pbufs s p) = 1" "pb_next (pbufs s p) = 0" "pb_type_internal (pbufs s p) = 0x80" "p mod 4 = 0"
  shows "pbuf_free p s = (1, s\<lparr>pbufs := (pbufs s)(p := (pbufs s p)\<lparr>pb_ref := 0\<rparr>), ltr := LFree p # ltr s\<rparr>)"
  using assms align_aligned [OF assms(5)]
  by (simp add: pbuf_free_def pbuf_free_loop.simps [of p] pbuf_free_loop.simps [of 0] pbuf_release_def pbuf_get_allocsrc_def mem_free_def
      LWIP_ASSERT_def upd_pbuf_def Let_def)

lemma arp_packet_sent:
  assumes "mem_clib_malloc L (ltr s) 108 = p" "p \<noteq> 0" "p mod 4 = 0" "unat p + 108 \<le> 2 ^ 32" "n \<noteq> 0" "nif_hwaddr_len (netifs s n) = 6"
    "length ethsrc = 6" "length ethdst = 6" "length sha = 6" "length tha = 6"
  shows "\<exists>s'. etharp_raw (ath_env L w ip) n ethsrc ethdst sha spa tha tpa op s = (err_t.ERR_OK, s')
    \<and> link.more s' = snd (ath_link_output w (eth_header ethdst ethsrc 38 0x0806 @ arp_packet op sha spa tha tpa) (link.more s))
    \<and> ltr s' = LFree p # LMalloc 108 p # ltr s"
proof -
  define s1 where "s1 = s\<lparr>ltr := LMalloc 108 p # ltr s, pbufs := (pbufs s)(p := arp_buffer p)\<rparr>"
  define s2 where "s2 = s1\<lparr>lmem := mem_write (lmem s) (p + 80) (arp_packet op sha spa tha tpa)\<rparr>"
  have 2: "pbufs s2 p = arp_buffer p" "netifs s2 = netifs s" "ltr s2 = LMalloc 108 p # ltr s" "link.more s2 = link.more s"
    by (simp_all add: s2_def s1_def)
  have c: "mem_read (lmem s2) (p + 80) 28 = arp_packet op sha spa tha tpa"
    using mem_read_write_same [of "arp_packet op sha spa tha tpa" "lmem s" "p + 80"] length_packet [OF assms(9,10)] by (simp add: s2_def)
  define x where "x = ath_link_output w (eth_header ethdst ethsrc 38 0x0806 @ arp_packet op sha spa tha tpa) (link.more s)"
  define s3 where "s3 = s2\<lparr>pbufs := (pbufs s2)(p := (arp_buffer p)\<lparr>pb_payload := 56 + p, pb_len := 52, pb_tot_len := 52\<rparr>),
     lmem := mem_write (lmem s2) (56 + p) (eth_header ethdst ethsrc 38 0x0806), link.more := snd x\<rparr>"
  have "snd (ethernet_output (ath_env L w ip) n p ethsrc ethdst 0x0806 s2) = s3"
    using ethernet_sent [where p = p and s = s2 and dst = ethdst and src = ethsrc and n = n and L = L and w = w and ty = "0x0806" and ip = ip] arp_roomy [OF assms(2,4)] assms(6-8) c
    by (simp add: 2 s3_def x_def arp_buffer_def split_beta Let_def)
  moreover have "etharp_raw (ath_env L w ip) n ethsrc ethdst sha spa tha tpa op s
     = (err_t.ERR_OK, snd (pbuf_free p (ETHARP_STATS_INC Stat_xmit (snd (ethernet_output (ath_env L w ip) n p ethsrc ethdst 0x0806 s2)))))"
    using arp_alloc [OF assms(1-4)] assms(2,5,6) packet_written [OF assms(9,10), where m = "lmem s" and h = "p + 80"]
    by (simp add: etharp_raw_def Let_def LWIP_ASSERT_def poke_def ath_env_def s2_def s1_def arp_buffer_def del: mem_write.simps)
  ultimately show ?thesis
    using free_single [of p "ETHARP_STATS_INC Stat_xmit s3"] assms(2,3) by (simp add: ETHARP_STATS_INC_def s3_def 2 arp_buffer_def x_def)
qed

subsection \<open>A request for our address\<close>

text \<open>Taking an entry leaves memory, the interfaces and the host alone.\<close>

lemma more_link: "stack.more s = stack.more t \<Longrightarrow> link.more s = link.more t"
  by (cases s; cases t) simp

lemma lmem_pbuf_free_loop: "lmem (snd (pbuf_free_loop p c s)) = lmem s"
proof (induction p c s rule: pbuf_free_loop.induct)
  case (1 p c s)
  have "lmem (pbuf_release q t) = lmem t" for q and t :: "'a stack_scheme"
    by (simp add: pbuf_release_def memp_free_def do_memp_free_pool_def mem_free_def LWIP_ASSERT_def Let_def)
  with 1 show ?case by (subst pbuf_free_loop.simps) (simp add: Let_def upd_pbuf_def LWIP_ASSERT_def)
qed

definition unmoved :: "'a link_scheme \<Rightarrow> 'a link_scheme \<Rightarrow> bool" where
  "unmoved s t \<longleftrightarrow> lmem t = lmem s \<and> netifs t = netifs s \<and> link.more t = link.more s"

lemma unmoved_simps [simp]:
  "unmoved s s" "unmoved s (LWIP_ASSERT m b t) \<longleftrightarrow> unmoved s t" "unmoved s (upd_entry i f t) \<longleftrightarrow> unmoved s t" "unmoved s (ETHARP_STATS_INC x t) \<longleftrightarrow> unmoved s t"
  by (simp_all add: unmoved_def LWIP_ASSERT_def upd_entry_def ETHARP_STATS_INC_def)

lemma unmoved_pbuf_free [simp]: "unmoved s (snd (pbuf_free p t)) \<longleftrightarrow> unmoved s t"
proof -
  have "lmem (snd (pbuf_free p t)) = lmem t" by (simp add: pbuf_free_def lmem_pbuf_free_loop LWIP_ASSERT_def)
  then show ?thesis using more_link [OF more_pbuf_free, of p t] by (simp add: unmoved_def)
qed

lemma unmoved_free_entry [simp]: "unmoved s (etharp_free_entry i t) \<longleftrightarrow> unmoved s t"
  by (simp add: etharp_free_entry_def Let_def)

lemma unmoved_new_entry [simp]: "unmoved s (snd (new_entry a i t)) \<longleftrightarrow> unmoved s t"
  by (cases a) (simp_all add: new_entry_def Let_def)

lemma unmoved_find: "unmoved s (snd (etharp_find_entry a f t)) \<longleftrightarrow> unmoved s t"
  by (simp add: etharp_find_entry_def Let_def split: sum.splits option.splits)

text \<open>
  Nothing on the way to the reply takes memory from \<^verbatim>\<open>malloc\<close>; packets may be freed. \<open>usable\<close>: what a successful allocation
  of \<open>k\<close> bytes returns.
\<close>

definition no_alloc :: "levent list \<Rightarrow> bool" where
  "no_alloc es \<longleftrightarrow> (\<forall>k b. LMalloc k b \<notin> set es)"

definition usable :: "u32 \<Rightarrow> nat \<Rightarrow> bool" where
  "usable b k \<longleftrightarrow> b \<noteq> 0 \<and> b mod 4 = 0 \<and> unat b + k \<le> 2 ^ 32"

definition frees :: "'a heap_scheme \<Rightarrow> 'a heap_scheme \<Rightarrow> bool" where
  "frees s t \<longleftrightarrow> (\<exists>es. ltr t = es @ ltr s \<and> no_alloc es)"

lemma frees_refl: "frees s s"
  by (simp add: frees_def no_alloc_def)

lemma frees_same: "frees s t \<Longrightarrow> ltr u = ltr t \<Longrightarrow> frees s u"
  by (simp add: frees_def)

lemma frees_event: "frees s t \<Longrightarrow> ltr u = e # ltr t \<Longrightarrow> (\<And>k b. e \<noteq> LMalloc k b) \<Longrightarrow> frees s u"
  unfolding frees_def no_alloc_def by (metis append_Cons set_ConsD)

lemma frees_assert: "frees s t \<Longrightarrow> frees s (LWIP_ASSERT m b t)"
  by (auto simp: LWIP_ASSERT_def elim: frees_event)

lemma frees_pools:
  "frees s t \<Longrightarrow> frees s (memp_free ty a t)" "frees s t \<Longrightarrow> frees s (mem_free a t)"
  unfolding memp_free_def do_memp_free_pool_def mem_free_def Let_def
  by (simp, rule impI, erule frees_same [OF frees_assert], simp)
    (erule frees_event [OF frees_assert [OF frees_assert]], simp, simp)

lemma frees_release: "frees s t \<Longrightarrow> frees s (pbuf_release q t)"
  by (simp add: pbuf_release_def Let_def frees_pools frees_assert)

lemma frees_free_loop: "frees s t \<Longrightarrow> frees s (snd (pbuf_free_loop p c t))"
proof (induction p c t rule: pbuf_free_loop.induct)
  case (1 p c t)
  have u: "frees s (upd_pbuf p f (LWIP_ASSERT m b t))" for f m b
    using frees_assert [OF "1.prems"] by (rule frees_same) (simp add: upd_pbuf_def)
  let ?t = "LWIP_ASSERT ''pbuf_free: p->ref > 0'' (pb_ref (pbufs t p) > 0) t"
  let ?u = "upd_pbuf p (\<lambda>b. b\<lparr>pb_ref := pb_ref (pbufs ?t p) - 1\<rparr>) ?t"
  have "frees s (snd (pbuf_free_loop (pb_next (pbufs ?u p)) (c + 1) (pbuf_release p ?u)))"
    if "p \<noteq> 0" "pb_ref (pbufs ?t p) - 1 = 0"
    using that(1) by (rule "1.IH" [OF _ refl refl refl that(2) refl]) (intro frees_release u)
  then show ?case using u "1.prems" by (subst pbuf_free_loop.simps) (simp only: Let_def split: if_splits, simp)
qed

lemma frees_upd_entry: "frees s t \<Longrightarrow> frees s (upd_entry i f t)"
  by (erule frees_same) (simp add: upd_entry_def)

lemma frees_free_entry: "frees s t \<Longrightarrow> frees s (etharp_free_entry i t)"
  unfolding etharp_free_entry_def Let_def
  by (auto simp: pbuf_free_def intro!: frees_upd_entry frees_free_loop frees_assert)

lemma frees_new_entry: "frees s t \<Longrightarrow> frees s (snd (new_entry a i t))"
  unfolding new_entry_def Let_def by (auto split: option.splits intro!: frees_upd_entry frees_assert)

lemma frees_find: "frees s t \<Longrightarrow> frees s (snd (etharp_find_entry a f t))"
  unfolding etharp_find_entry_def Let_def
  by (auto split: sum.splits option.splits intro!: frees_new_entry frees_free_entry frees_assert)

lemma find_hard:
  assumes "table_ok (arp_table s)"
  shows "\<exists>i s'. etharp_find_entry (Some a) 1 s = (Inr i, s')"
proof (cases "search_table (Some a) (arp_table s) [0..<10] no_candidates")
  case (Inr c)
  have "\<exists>i s'. etharp_find_entry (Some a) 1 s = (Inr i, s') \<and> i < 10" using recycles_least [OF assms, of a] search_none [OF Inr] by fastforce
  then show ?thesis by blast
qed (simp add: etharp_find_entry_def)

lemma learns_quietly:
  assumes "table_ok (arp_table s)" "n \<noteq> 0" "a \<noteq> 0" "\<not> ip4_addr_isbroadcast_u32 a (netifs s n)" "\<not> ip4_addr_ismulticast a"
    "\<forall>e \<in> set (arp_table s). arp_ipaddr e = a \<longrightarrow> arp_q e = 0"
  shows "\<exists>s'. etharp_update_arp_entry (ath_env L w ip) n a m 1 s = (err_t.ERR_OK, s') \<and> unmoved s s' \<and> frees s s'"
proof -
  define s0 where "s0 = LWIP_ASSERT ''netif->hwaddr_len == ETH_HWADDR_LEN'' (nif_hwaddr_len (netifs s n) = 6) s"
  have s0: "arp_table s0 = arp_table s" "netifs s0 = netifs s" "unmoved s s0" "frees s s0"
    by (simp_all add: s0_def frees_assert frees_refl)
  have ok: "table_ok (arp_table s0)" using assms(1) s0 by simp
  have l: "length (arp_table s) = 10" using assms(1) by (simp add: table_ok_def)
  obtain i s1 where f: "etharp_find_entry (Some a) 1 s0 = (Inr i, s1)" using find_hard [OF ok] by blast
  have q: "arp_q (arp_table s1 ! i) = 0 \<and> i < length (arp_table s1)"
    using ok f by (cases rule: find_entry_cases) (use assms(6) l s0 in auto)
  have "unmoved s s1" "frees s s1" using unmoved_find [of s "Some a" 1 s0] frees_find [OF s0(4), of "Some a" 1] f s0(3) by simp_all
  moreover have "etharp_update_arp_entry (ath_env L w ip) n a m 1 s = (err_t.ERR_OK,
      upd_entry i (\<lambda>e. e\<lparr>arp_netif := n, arp_ethaddr := m, arp_ctime := 0\<rparr>) (upd_entry i (\<lambda>e. e\<lparr>arp_state := ETHARP_STATE_STABLE\<rparr>) s1))"
    unfolding etharp_update_arp_entry_def s0_def [symmetric] Let_def using assms(3-5) f q by (simp add: s0)
  ultimately show ?thesis by (simp add: frees_upd_entry)
qed

lemma peek16_put:
  assumes "lmem s a = putle16 v ! 0" "lmem s (a + 1) = putle16 v ! 1"
  shows "peek16 a s = v"
proof -
  have "view (lmem s) a i = putle16 v ! i" if "i < 2" for i using assms less_2_cases [OF that] by (auto simp: view_def)
  then have "getle16 (view (lmem s) a) = ucast v" by (rule getle16_putle16)
  moreover have "ucast (ucast v :: u32) = v" by (rule bit_word_eqI) (auto simp: bit_simps)
  ultimately show ?thesis by (simp add: peek16_def)
qed

lemma peek32_put:
  assumes "mem_read (lmem s) a 4 = putle32 v"
  shows "peek32 a s = v"
proof -
  have "view (lmem s) a i = putle32 v ! i" if "i < 4" for i using that by (simp add: view_def nth_mem_read flip: assms)
  then show ?thesis unfolding peek32_def by (rule getle32_putle32)
qed

lemma packet_fields:
  assumes "mem_read (lmem s) h 28 = arp_packet op sha spa tha tpa" "length sha = 6" "length tha = 6"
  shows "peek16 h s = lwip_htons 1" "lmem s (h + 4) = 6" "lmem s (h + 5) = 4" "peek16 (h + 2) s = lwip_htons 0x0800"
    "peek16 (h + 6) s = lwip_htons op" "mem_read (lmem s) (h + 8) 6 = sha" "peek32 (h + 14) s = spa" "peek32 (h + 24) s = tpa"
proof -
  have "mem_read (lmem s) h 28 = mem_read (lmem s) h 6 @ mem_read (lmem s) (h + 6) 2 @ mem_read (lmem s) (h + 8) 6 @ mem_read (lmem s) (h + 14) 4
      @ mem_read (lmem s) (h + 18) 6 @ mem_read (lmem s) (h + 24) 4"
    using mem_read_add [of "lmem s" h 6 22] mem_read_add [of "lmem s" "h + 6" 2 20] mem_read_add [of "lmem s" "h + 8" 6 14]
      mem_read_add [of "lmem s" "h + 14" 4 10] mem_read_add [of "lmem s" "h + 18" 6 4] by (simp add: add.assoc)
  then have e: "mem_read (lmem s) h 6 = [0, 1, 8, 0, 6, 4]" "mem_read (lmem s) (h + 6) 2 = putle16 (lwip_htons op)" "mem_read (lmem s) (h + 8) 6 = sha"
    "mem_read (lmem s) (h + 14) 4 = putle32 spa" "mem_read (lmem s) (h + 24) 4 = putle32 tpa"
    using assms by (simp_all add: arp_packet_def del: append_Cons)
  have b: "lmem s h = 0" "lmem s (h + 1) = 1" "lmem s (h + 2) = 8" "lmem s (h + 2 + 1) = 0" "lmem s (h + 4) = 6" "lmem s (h + 5) = 4"
    using e(1) by (simp_all add: eval_nat_numeral add.commute)
  have c: "lmem s (h + 6) = putle16 (lwip_htons op) ! 0" "lmem s (h + 6 + 1) = putle16 (lwip_htons op) ! 1"
    by (simp_all add: numeral_2_eq_2 flip: e(2))
  have "putle16 (lwip_htons 1) = [0, 1]" "putle16 (lwip_htons 0x0800) = [8, 0]" by (simp_all add: putle16_def lwip_htons_def)
  then show "peek16 h s = lwip_htons 1" "lmem s (h + 4) = 6" "lmem s (h + 5) = 4" "peek16 (h + 2) s = lwip_htons 0x0800"
    "peek16 (h + 6) s = lwip_htons op" "mem_read (lmem s) (h + 8) 6 = sha" "peek32 (h + 14) s = spa" "peek32 (h + 24) s = tpa"
    using b c e by (auto intro!: peek16_put peek32_put)
qed

lemma request_answered:
  assumes "table_ok (arp_table s)" "n \<noteq> 0" "nif_hwaddr_len (netifs s n) = 6" "nif_hwaddr (netifs s n) = hw" "length hw = 6"
    "nif_ip4 (netifs s n) = me" "me \<noteq> 0"
    and packet: "mem_read (lmem s) (pb_payload (pbufs s p)) 28 = arp_packet ARP_REQUEST sha spa tha me" "length sha = 6" "length tha = 6"
    and sender: "spa \<noteq> 0" "spa \<noteq> me" "\<not> ip4_addr_isbroadcast_u32 spa (netifs s n)" "\<not> ip4_addr_ismulticast spa"
      "\<forall>e \<in> set (arp_table s). arp_ipaddr e = spa \<longrightarrow> arp_q e = 0"
    and malloc: "\<And>es. no_alloc es \<Longrightarrow> usable (mem_clib_malloc L (es @ ltr s) 108) 108"
  shows "cache (arp_table (etharp_input (ath_env L w ip) p n s)) spa = Some sha
    \<and> link.more (etharp_input (ath_env L w ip) p n s)
      = snd (ath_link_output w (eth_header sha hw 38 ETHTYPE_ARP @ arp_packet ARP_REPLY hw me sha spa) (link.more s))"
proof -
  let ?E = "ath_env L w ip"
  define h where "h = pb_payload (pbufs s p)"
  define s1 where "s1 = ETHARP_STATS_INC Stat_recv s"
  have 1: "arp_table s1 = arp_table s" "netifs s1 = netifs s" "lmem s1 = lmem s" "link.more s1 = link.more s"
    by (simp_all add: s1_def ETHARP_STATS_INC_def)
  have f: "mem_read (lmem s) h 28 = arp_packet 1 sha spa tha me" using packet(1) by (simp add: h_def)
  note F = packet_fields [OF f packet(2,3)]
  have f1: "mem_read (lmem s1) h 28 = arp_packet 1 sha spa tha me" using f 1 by simp
  note F1 = packet_fields [OF f1 packet(2,3)]
  obtain s2 where u: "etharp_update_arp_entry ?E n spa sha 1 s1 = (err_t.ERR_OK, s2)" "unmoved s1 s2" "frees s1 s2"
    using learns_quietly [of s1 n spa L w ip sha] assms(1,2) sender 1 by auto
  have 2: "lmem s2 = lmem s" "netifs s2 = netifs s" "link.more s2 = link.more s" using u(2) 1 by (simp_all add: unmoved_def)
  obtain es where "ltr s2 = es @ ltr s" "no_alloc es" using u(3) by (auto simp: frees_def s1_def ETHARP_STATS_INC_def)
  with malloc [of es] have b: "usable (mem_clib_malloc L (ltr s2) 108) 108" by simp
  have f2: "mem_read (lmem s2) h 28 = arp_packet 1 sha spa tha me" using f 2 by simp
  note F2 = packet_fields [OF f2 packet(2,3)]
  have c: "cache (arp_table s2) spa = Some sha" using ath.update_learns(3) [OF _ assms(2) u(1)] assms(1) 1 by simp
  obtain s3 where r: "etharp_raw ?E n hw sha hw me sha spa 2 s2 = (err_t.ERR_OK, s3)"
    "link.more s3 = snd (ath_link_output w (eth_header sha hw 38 0x0806 @ arp_packet 2 hw me sha spa) (link.more s))"
    using arp_packet_sent [OF refl b [unfolded usable_def, THEN conjunct1] b [unfolded usable_def, THEN conjunct2, THEN conjunct1]
      b [unfolded usable_def, THEN conjunct2, THEN conjunct2] assms(2), where w = w and ip = ip and ethsrc = hw and ethdst = sha and sha = hw and tha = sha
      and spa = me and tpa = spa and op = "2"]
      assms(3,5) packet(2) 2 by auto
  have t: "arp_table s3 = arp_table s2" using ath.raw_quiet(1) [where L = L and w = w and ip = ip and s = s2] r(1) by (metis snd_conv)
  have ne: "lwip_htons 2 \<noteq> lwip_htons 1" by (simp add: lwip_htons_def)
  have "etharp_input ?E p n s = snd (pbuf_free p s3)"
    using F F1 F2 u(1) r(1) assms(2,4,6,7) sender(2) 1 2
    by (simp add: etharp_input_def h_def [symmetric] Let_def ath_env_def s1_def [symmetric])
  then show ?thesis using c t r(2) more_link [OF more_pbuf_free, of p s3] by simp
qed

subsection \<open>The theorems\<close>

text \<open>
  An example: an interface with the address 10.0.0.1 that has received a request of 10.0.0.2 for it, and an allocator that hands out a new block of
  128 bytes each time, 256 times.
\<close>

definition arp_lw :: lw where
  "arp_lw = \<lparr>memp_pools = (\<lambda>t. \<lparr>desc_size = 1532, desc_num = 512, desc_base = 0x2500000\<rparr>), 
     mem_clib_malloc = (\<lambda>tr _. let k = length [e\<leftarrow>tr. case e of LMalloc _ _ \<Rightarrow> True | _ \<Rightarrow> False] in if k < 0x100 then 0x2400000 + 0x80 * of_nat k else 0),
     tcpip_mbox = 0\<rparr>"

definition arp_net :: net where
  "arp_net = \<lparr>net_uncached = (\<lambda>a. a), net_pbuf = (\<lambda>_ n. Some n), net_input = (\<lambda>_ _. True), net_add = (\<lambda>_. True),
     net_ipaddr = (\<lambda>_. 0), net_stack = (\<lambda>_ _. 0)\<rparr>"

definition arp_host :: host where
  "arp_host = \<lparr>hmem = (\<lambda>_. 0), htr = [], hdevice_mac = [2, 0, 0, 0, 0, 1], hap_mac = replicate 6 0, host_bInitted = True,
     host_bLwipInitted = True, host_bNeedsDHCPRenew = False, ip_data_buf_idx = 0, ip_data_buf = 0x2100000, ip_data_in_buf = 0x2200000,
     netif_hwaddr = [2, 0, 0, 0, 0, 1], inc_cnt = 0, sec_cnt = 0, display_counter = 0, log_handler = False, connect_handler = False,
     reconnect_handler = False\<rparr>"

definition asked :: "host link_scheme" where
  "asked = \<lparr>sys_val = 0, sys_cell = (\<lambda>_. 0), lmem = mem_write (\<lambda>_. 0) 0x2300000 (arp_packet ARP_REQUEST [2, 0, 0, 0, 0, 2] 0x0200000A ethzero 0x0100000A),
     memp_tab = (\<lambda>_. []), ltr = [],
     pbufs = (\<lambda>_. \<lparr>pb_next = 0, pb_payload = 0x2300000, pb_tot_len = 28, pb_len = 28, pb_type_internal = 0x82, pb_flags = 0, pb_ref = 1, pb_if_idx = 1\<rparr>),
     pbuf_free_ooseq_pending = 0, tcpip_msgs = (\<lambda>_. \<lparr>msg_type = TCPIP_MSG_CALLBACK, msg_function = pbuf_free_ooseq_callback, msg_ctx = 0\<rparr>),
     next_timeout = 0, current_timeout_due_time = 0, tcpip_tcp_timer_active = False,
     timeos = (\<lambda>_. \<lparr>to_next = 0, to_time = 0, to_h = No_handler, to_arg = Arg_null\<rparr>),
     netifs = (\<lambda>_. \<lparr>nif_flags = 0x7E, nif_ip4 = 0x0100000A, nif_netmask = 0x00FFFFFF, nif_gw = 0x0200000A, nif_hwaddr = [2, 0, 0, 0, 0, 1],
       nif_hwaddr_len = 6, nif_num = 0, nif_hints = 0\<rparr>),
     addr_hint = (\<lambda>_. 0), etharp_stats = (\<lambda>_. 0), arp_table = empty_table, \<dots> = arp_host\<rparr>"

abbreviation "arp_env \<equiv> ath_env arp_lw arp_net (\<lambda>_ _ s. s)"

lemma arp_lw_malloc: "no_alloc es \<Longrightarrow> usable (mem_clib_malloc arp_lw (es @ ltr asked) 108) 108"
proof -
  assume "no_alloc es"
  then have "[e\<leftarrow>es. case e of LMalloc _ _ \<Rightarrow> True | _ \<Rightarrow> False] = []" by (auto simp: no_alloc_def filter_empty_conv split: levent.splits)
  then show ?thesis by (simp add: arp_lw_def asked_def usable_def)
qed

lemma asked_packet:
  "mem_read (lmem asked) (pb_payload (pbufs asked p)) 28 = arp_packet ARP_REQUEST [2, 0, 0, 0, 0, 2] 0x0200000A ethzero (nif_ip4 (netifs asked n))"
proof -
  have "length (arp_packet 1 [2, 0, 0, 0, 0, 2] 0x0200000A ethzero 0x0100000A) = 28" by (rule length_packet) (simp_all add: ethzero_def)
  then show ?thesis
    using mem_read_write_same [of "arp_packet 1 [2, 0, 0, 0, 0, 2] 0x0200000A ethzero 0x0100000A" "\<lambda>_. 0" "0x2300000"] by (simp add: asked_def)
qed

lemma asked_sender:
  "table_ok (arp_table asked)" "\<not> ip4_addr_isbroadcast_u32 0x0200000A (netifs asked n)" "\<not> ip4_addr_ismulticast 0x0200000A"
  "\<forall>e \<in> set (arp_table asked). arp_ipaddr e = 0x0200000A \<longrightarrow> arp_q e = 0"
proof -
  show "table_ok (arp_table asked)" using empty_table_ok by (simp add: asked_def)
  show "\<not> ip4_addr_isbroadcast_u32 0x0200000A (netifs asked n)" by (simp add: asked_def ip4_addr_isbroadcast_u32_def)
  show "\<not> ip4_addr_ismulticast 0x0200000A" by (simp add: ip4_addr_ismulticast_def lwip_htonl_def)
  show "\<forall>e \<in> set (arp_table asked). arp_ipaddr e = 0x0200000A \<longrightarrow> arp_q e = 0" by (simp add: asked_def empty_table_def blank_def)
qed

text \<open>
  C16. Whatever the stack does from an empty table on, timer ticks, ARP packets from anyone, packets sent and queries, in any order: an address the table answers with is the one
  that was learned last for that IPv4 address, from a packet that was accepted.
\<close>

theorem arp_answers_latest:
  assumes "arp_table s = empty_table" "trace_of (arp_step (ath_env L w ip)) s ls t"
    "etharp_find_addr (Some a) t = (Some (i, m, a'), t')"
  shows "latest ls a = Some m \<and> a' = a \<and> t' = t"
proof -
  have ok: "table_ok (arp_table s)" "cache (arp_table s) = Map.empty" using assms(1) empty_table_ok by simp_all
  have t: "table_ok (arp_table t)" "cache (arp_table t) \<subseteq>\<^sub>m latest ls"
    using ath.keeps_good [OF assms(2) ok(1)] ath.answers_latest [OF assms(2) ok] by simp_all
  have "fst (etharp_find_addr (Some a) t) = Some (i, m, a')" "snd (etharp_find_addr (Some a) t) = t'" using assms(3) by simp_all
  then have "cache (arp_table t) a = Some m" "a' = a" "t' = t"
    using find_addr_cache(1) [OF t(1), of a] find_addr_cache(2) [OF t(1), of a m a'] by auto
  then show ?thesis using t(2) by (auto simp: map_le_def dom_def)
qed

theorem arp_answers_latest_witness:
  "\<exists>m. latest [learns arp_env 0x2200000 1 asked] 0x0200000A = Some m"
proof -
  let ?t = "etharp_input arp_env 0x2200000 1 asked"
  have "trace_of (arp_step arp_env) asked [learns arp_env 0x2200000 1 asked] ?t"
    by (rule trace_of.one_more, rule trace_of.no_step, rule arp_input)
  moreover have ok: "table_ok (arp_table ?t)" using ath.good_step [OF arp_input asked_sender(1)] by simp
  have "cache (arp_table ?t) 0x0200000A = Some [2, 0, 0, 0, 0, 2]"
    using request_answered [OF asked_sender(1), where n = 1 and hw = "[2, 0, 0, 0, 0, 1]" and me = "nif_ip4 (netifs asked 1)" and p = "0x2200000" and L = arp_lw and w = arp_net
      and spa = "0x0200000A" and sha = "[2, 0, 0, 0, 0, 2]" and tha = ethzero and ip = "\<lambda>_ _ s. s"] asked_packet asked_sender
    by (simp add: arp_lw_malloc) (simp add: asked_def ethzero_def)
  then obtain i where "fst (etharp_find_addr (Some 0x0200000A) ?t) = Some (i, [2, 0, 0, 0, 0, 2], 0x0200000A)"
    using find_addr_cache(2) [OF ok] by blast
  then have "etharp_find_addr (Some 0x0200000A) ?t = (Some (i, [2, 0, 0, 0, 0, 2], 0x0200000A), snd (etharp_find_addr (Some 0x0200000A) ?t))"
    by (metis prod.collapse)
  moreover have "arp_table asked = empty_table" by (simp add: asked_def)
  ultimately show ?thesis using arp_answers_latest by blast
qed

text \<open>
  C28. From an empty table on the table stays in order: ten entries, no two of them for the same address, a packet queued only on an entry that is
  pending, ages below the limits, and in every entry in use an address that is neither 0 nor a multicast address.
\<close>

theorem arp_table_invariant:
  assumes "arp_table s = empty_table" "trace_of (arp_step (ath_env L w ip)) s ls t"
  shows "table_ok (arp_table t)"
  using ath.keeps_good [OF assms(2)] assms(1) empty_table_ok(1) by simp

theorem arp_table_invariant_witness: "table_ok (arp_table (etharp_tmr_all arp_env asked))"
proof -
  have "arp_table asked = empty_table" by (simp add: asked_def)
  then show ?thesis by (rule arp_table_invariant) (rule trace_of.one_more, rule trace_of.no_step, rule arp_tick)
qed

text \<open>
  C30. Without packets an entry lives exactly until its age reaches 300 ticks, or 5 ticks as long as it is pending; ticks empty no other entry and revive none. A tick is one
  second, so a pending entry is given 5 seconds; the comment on \<^verbatim>\<open>ARP_MAXPENDING\<close> in \<^verbatim>\<open>etharp.c\<close> says 10.
\<close>

theorem arp_entry_lifetime:
  assumes "table_ok (arp_table s)" "i < ARP_TABLE_SIZE"
  shows "arp_live (arp_table ((etharp_tmr_all (ath_env L w ip) ^^ n) s) ! i) \<longleftrightarrow> arp_live (arp_table s ! i)
     \<and> unat (arp_ctime (arp_table s ! i)) + n < (if arp_state (arp_table s ! i) = ETHARP_STATE_PENDING then 5 else 300)"
proof -
  have "length (arp_table s) = 10" using assms(1) by (simp add: table_ok_def)
  then show ?thesis using ath.ticks_table [OF assms(1)] ticks [OF entry_at [OF assms]] assms(2) by simp
qed

definition one_known :: "host link_scheme" where
  "one_known = asked\<lparr>arp_table := empty_table[3 := learned 1 0x0200000A [2, 0, 0, 0, 0, 2]]\<rparr>"

theorem arp_entry_lifetime_witness:
  "arp_live (arp_table ((etharp_tmr_all arp_env ^^ 299) one_known) ! 3) \<and> \<not> arp_live (arp_table ((etharp_tmr_all arp_env ^^ 300) one_known) ! 3)"
proof -
  have e: "arp_table one_known ! 3 = learned 1 0x0200000A [2, 0, 0, 0, 0, 2]" by (simp add: one_known_def empty_table_def)
  have "entry_ok (learned 1 0x0200000A [2, 0, 0, 0, 0, 2])" using asked_sender(3) by (simp add: entry_ok_def learned_def)
  moreover have "\<not> arp_live (empty_table ! j)" if "j < 10" for j using that by (simp add: empty_table_def blank_def arp_live_def)
  ultimately have "table_ok (arp_table one_known)"
    unfolding one_known_def by (simp, intro table_ok_update [OF empty_table_ok(1)]) auto
  then show ?thesis using arp_entry_lifetime [of one_known 3] by (simp add: e learned_def arp_live_def)
qed

text \<open>
  C29. A search that may create an entry always succeeds. If the address is not in the table it takes the entry that is worth least: an empty one, else one with a known address,
  else a pending one without, last with a queued packet, and among those of a kind an oldest one; the other nine entries stay as they are.
\<close>

theorem arp_recycles_least:
  assumes "table_ok (arp_table s)" "\<And>j. j < ARP_TABLE_SIZE \<Longrightarrow> arp_live (arp_table s ! j) \<Longrightarrow> arp_ipaddr (arp_table s ! j) \<noteq> a"
  shows "\<exists>i s'. etharp_find_entry (Some a) ETHARP_FLAG_TRY_HARD s = (Inr i, s') \<and> i < ARP_TABLE_SIZE
     \<and> (\<forall>j < ARP_TABLE_SIZE. worth (arp_table s ! i) < worth (arp_table s ! j)
          \<or> worth (arp_table s ! i) = worth (arp_table s ! j)
            \<and> (arp_live (arp_table s ! i) \<longrightarrow> arp_ctime (arp_table s ! j) \<le> arp_ctime (arp_table s ! i)))
     \<and> (\<exists>e. arp_table s' = (arp_table s)[i := e] \<and> arp_ipaddr e = a \<and> \<not> arp_live e \<and> arp_q e = 0 \<and> arp_ctime e = 0)"
  using assms by (rule recycles_least)

theorem arp_recycles_least_witness: "\<exists>i s'. etharp_find_entry (Some 0x0300000A) ETHARP_FLAG_TRY_HARD asked = (Inr i, s') \<and> i < ARP_TABLE_SIZE"
proof -
  have "\<not> arp_live (arp_table asked ! j)" if "j < 10" for j using that by (simp add: asked_def empty_table_def blank_def arp_live_def)
  then show ?thesis using arp_recycles_least [OF asked_sender(1), of "0x0300000A"] by blast
qed

text \<open>
  C17. A request for the address of the interface, from an address no packet waits for, is answered when the next allocation succeeds: the sender is in the table afterwards, and
  the host is given one frame, the reply with the hardware address of the interface. (A packet that waits for the sender would be sent first.) The hypothesis on
  \<^verbatim>\<open>malloc\<close> is about the next block of 108 bytes only, whatever has been freed in between.
\<close>

theorem arp_request_answered:
  assumes "table_ok (arp_table s)" "n \<noteq> 0" "nif_hwaddr_len (netifs s n) = 6" "nif_hwaddr (netifs s n) = hw" "length hw = 6"
    "nif_ip4 (netifs s n) = me" "me \<noteq> 0"
    and packet: "mem_read (lmem s) (pb_payload (pbufs s p)) 28 = arp_packet ARP_REQUEST sha spa tha me" "length sha = 6" "length tha = 6"
    and sender: "spa \<noteq> 0" "spa \<noteq> me" "\<not> ip4_addr_isbroadcast_u32 spa (netifs s n)" "\<not> ip4_addr_ismulticast spa"
      "\<forall>e \<in> set (arp_table s). arp_ipaddr e = spa \<longrightarrow> arp_q e = 0"
    and malloc: "\<And>es. no_alloc es \<Longrightarrow> usable (mem_clib_malloc L (es @ ltr s) 108) 108"
  shows "cache (arp_table (etharp_input (ath_env L w ip) p n s)) spa = Some sha
    \<and> link.more (etharp_input (ath_env L w ip) p n s)
      = snd (ath_link_output w (eth_header sha hw 38 ETHTYPE_ARP @ arp_packet ARP_REPLY hw me sha spa) (link.more s))"
  by (rule request_answered [OF assms])

theorem arp_request_answered_witness:
  "cache (arp_table (etharp_input arp_env 0x2200000 1 asked)) 0x0200000A = Some [2, 0, 0, 0, 0, 2]"
  using arp_request_answered [OF asked_sender(1), where n = 1 and hw = "[2, 0, 0, 0, 0, 1]" and me = "nif_ip4 (netifs asked 1)" and p = "0x2200000" and L = arp_lw and w = arp_net
    and spa = "0x0200000A" and sha = "[2, 0, 0, 0, 0, 2]" and tha = ethzero and ip = "\<lambda>_ _ s. s"] asked_packet asked_sender
  by (simp add: arp_lw_malloc) (simp add: asked_def ethzero_def)

end
