(* ===== verification/Spec2Isabelle.thy ===== *)
theory Spec2Isabelle
  imports Crypto Channel Startup Tcpip ArpLink
begin

text \<open>
  DSiWifi is a wireless driver for the Nintendo DSi. This development models its two halves, the
  cryptography they use and their cooperation, and proves what makes them correct.

  \<^bold>\<open>The program.\<close> The ARM7 half (\<^verbatim>\<open>src/arm_iop\<close>) owns the wireless card. It brings the card up
  through an SDIO controller, downloads and starts the firmware, scans for the access points that
  the console's settings name, connects, runs the WPA2 handshakes, and carries frames between the
  card and main memory. The ARM9 half (\<^verbatim>\<open>src/arm_host\<close>) is the network interface of the lwIP stack.
  The two exchange short messages through a hardware FIFO and packets through rings of buffers in
  shared memory. On the ARM7, work happens in three handlers: the card interrupt, a millisecond
  timer, and the messages of the ARM9.

  \<^bold>\<open>Theories and sources\<close> (paths under \<^verbatim>\<open>src/\<close>; \<^verbatim>\<open>iop\<close> stands for \<^verbatim>\<open>arm_iop/source\<close>).

  \<^item> \<open>Prelude\<close>: C integers as words, memory as a function from 32-bit addresses to bytes, the form
    \<open>ok\<close> of specifications, lists and words, and the interfaces \<open>invariant_system\<close>, \<open>buffer_ring\<close>
    and \<open>streaming\<close>. \<open>Utils\<close>: \<^verbatim>\<open>common/source/utils.h\<close>.
  \<^item> \<open>Machine\<close>: the hardware as a parameter, the trace of events, the log channel
    (\<^verbatim>\<open>iop/wifi_debug.twl.c\<close>). \<open>Sdio\<close>: \<^verbatim>\<open>iop/wifi_sdio.twl.c\<close> and \<^verbatim>\<open>iop/wifi_ndma.twl.c\<close>.
  \<^item> \<open>Card\<close>, \<open>Boot\<close>: \<^verbatim>\<open>iop/wifi_card.twl.c\<close>; registers, mailbox and receive ring in the first, the
    boot loader interface and initialisation in the second. \<open>Mailbox\<close> holds the contract of the
    transmit side: which frames a call puts out.
  \<^item> \<open>Wmi\<close>, \<open>Bss\<close>, \<open>Auth\<close>, \<open>Iop\<close>: \<^verbatim>\<open>iop/ath/wmi.twl.c\<close>, \<^verbatim>\<open>iop/ath/htc.twl.c\<close>, the reception side of
    \<^verbatim>\<open>wifi_card.twl.c\<close> and \<^verbatim>\<open>iop/wifi_arm7.c\<close>: commands and scanning, choice of the access point,
    handshakes, events and the three handlers.
  \<^item> \<open>IopInv\<close>: the invariant of the ARM7 driver. \<open>Driver\<close>, \<open>Startup\<close>: its theorems.
  \<^item> \<open>Host\<close>: \<^verbatim>\<open>arm_host/source/wifi_host.c\<close>, \<^verbatim>\<open>wifi_debug.c\<close>, \<^verbatim>\<open>dsiwifi_arm9.c\<close>. \<open>System\<close>: both
    processors as a step relation. \<open>Channel\<close>: packets in both directions.
  \<^item> \<open>Sha1\<close>, \<open>Md\<close>, \<open>Pkcs5\<close>, \<open>NistKw\<close>, \<open>AesTables\<close>, \<open>Aes\<close>, \<open>Cipher\<close>: the files of the same names in
    \<^verbatim>\<open>iop/crypto\<close>. \<open>Wpa\<close>: \<^verbatim>\<open>iop/ieee/wpa.twl.c\<close>. \<open>Fips197\<close>: the standard for AES and the proof that
    the tables implement it. \<open>Crypto\<close>: the theorems on all of these.
  \<^item> \<open>SysArch\<close>, \<open>Memp\<close>, \<open>Pbuf\<close>, \<open>Chksum\<close>, \<open>Timeouts\<close>, \<open>Tcpip\<close>, \<open>Ip4Addr\<close>: the parts of the lwIP stack under the host, in
    \<^verbatim>\<open>arm_host/source/lwip\<close>: the port to the console (\<^verbatim>\<open>sys_arch.c\<close>), memory pools and heap (\<^verbatim>\<open>memp.c\<close>, \<^verbatim>\<open>mem.c\<close>),
    packet buffers (\<^verbatim>\<open>pbuf.c\<close>), the Internet checksum (\<^verbatim>\<open>inet_chksum.c\<close>), timers (\<^verbatim>\<open>timeouts.c\<close>), messages and the lock (\<^verbatim>\<open>api/tcpip.c\<close>), and
    IPv4 addresses (\<^verbatim>\<open>ipv4/ip4_addr.c\<close>), each in the configuration of \<^verbatim>\<open>lwipopts.h\<close>. \<open>PbufChain\<close> and \<open>Stack\<close>: what the buffer
    operations do to chains and packets, and what the host makes of a received frame (\<open>frame_to_pbuf\<close>, the part of \<^verbatim>\<open>data_send_to_lwip\<close> that
    \<open>Host\<close> leaves to its parameter). \<open>Queue\<close>: the interface \<open>bounded_queue\<close>.
  \<^item> \<open>Etharp\<close>: the Ethernet layer (\<^verbatim>\<open>netif/ethernet.c\<close>) and address resolution (\<^verbatim>\<open>ipv4/etharp.c\<close>) of the stack. \<open>ArpCache\<close>: its table as a cache
    of learned addresses. \<open>ArpLink\<close>: the same over the wireless interface of \<^verbatim>\<open>wifi_host.c\<close>, down to the frames the host is given.

  \<^bold>\<open>State.\<close> The static variables of the ARM7 sources are fields of one record, built in layers:
  \<open>machine\<close> (memory, trace, SDIO context), \<open>card = machine + ...\<close> (\<^verbatim>\<open>wifi_card.twl.c\<close>) and
  \<open>iop = card + ...\<close> (\<^verbatim>\<open>wmi.twl.c\<close>); each function keeps its C name and takes the state last. The
  ARM9 has the record \<open>host\<close>, and \<open>sys\<close> joins both with the contents of the FIFOs. A call that may
  not return has type \<open>option\<close>, \<open>None\<close> being divergence; a failing call returns the error value of the code. The
  stack has its own layers: \<open>port\<close> (clock and words of the synchronisation objects), \<open>heap\<close> (memory, free lists, trace), \<open>stack\<close>
  (buffers and messages by address), \<open>timers\<close> and \<open>link\<close> (interfaces and the table of addresses), which over the wireless interface ends with the record \<open>host\<close>.

  \<^bold>\<open>Parameters.\<close> Card, controller and firmware are the record \<open>hw\<close>: it answers each volatile read, DMA
  transfer, allocation and random number as a function of the whole trace, so that every behaviour
  of the card is covered. For \<open>Host\<close> and \<open>System\<close> the lwIP stack is the record \<open>net\<close> in the same way; the theories on the stack
  itself have as parameters what they do not contain: static addresses and \<^verbatim>\<open>malloc\<close> (\<open>lw\<close>), interrupts during a wait and the processor mode, the functions that
  timers call (\<open>timer_fns\<close>) and that messages carry (\<open>tcpip_env\<close>), the sending function of an interface, conflict detection and the IP layer (\<open>link_env\<close>, with the instance \<open>ath_env\<close>). The hypothesis on
  \<open>hw\<close> that all of \<open>Driver\<close> uses is \<open>live\<close> (\<open>Startup\<close> adds \<open>card_absent\<close>, every command fails): a rank on traces, which reading registers never raises, decreases whenever the
  busy bit, the data bits or the DMA bit are read as not settled. \<open>ok (live h) m Q\<close> states that the result of \<open>m\<close>
  satisfies \<open>Q\<close> on every hardware, and that \<open>m\<close> returns on a live one. The instances \<open>idle_hw\<close>,
  \<open>absent_hw\<close> and \<open>idle_net\<close> show that the hypotheses can be met.

  \<^bold>\<open>Loops.\<close> Loops that wait for the hardware are \<open>partial_function (option)\<close>: \<open>poll16\<close>, \<open>poll32\<close>,
  \<open>sdio_wait\<close>, \<open>sdio_fifo_in\<close>, \<open>sdio_fifo_out\<close>, \<open>poll_func\<close>, \<open>mbox_drain\<close>, \<open>opcond\<close>, \<open>firmware_ready\<close> and
  \<open>wifi_card_mbox0_readpkt\<close>. The waits of commands and of block transfers return on live
  hardware, and so does the reading of every packet except the message READY of the service connection, whose
  handler reads further packets; \<open>opcond\<close> is shown to
  return when no card answers, and \<open>firmware_ready\<close>, which the code leaves without a time limit, is
  not claimed to return. \<open>pbkdf2_loop\<close> is partial because an unsigned subtraction drives it; the
  equivalence with RFC 8018 includes that it returns. In the stack, the waits on volatile words and the loops over linked lists, which may be
  cyclic, are partial, and what is shown of a well-formed list includes that the loop returns. All other loops are total functions, with a
  measure where the recursion is not structural. There is no fuel.

  \<^bold>\<open>Interfaces.\<close>
  \<^item> \<open>invariant_system\<close>, interpreted as \<open>dsiwifi\<close>: every reachable state of the two processors is
    well-formed.
  \<^item> \<open>buffer_ring\<close>, interpreted as \<open>card_ring\<close> and \<open>host_ring\<close>: six slots, handed out in turn.
  \<^item> \<open>bounded_queue\<close>, interpreted as \<open>tx\<close>: the transmit path refines a queue of six packets; and as \<open>mbox\<close>: a mailbox of the port is
    a queue of one message.
  \<^item> \<open>quiet_link\<close>, what the table of addresses relies on, interpreted as \<open>ath\<close>; it gives \<open>learning_cache\<close> as a sublocale: what the cache
    answers for a key is what it learned last.
  \<^item> \<open>streaming\<close>, interpreted as \<open>sha1_stream\<close>; \<open>keyed_digest\<close>, interpreted as \<open>md_hmac\<close> and used by
    PBKDF2.
  \<^item> \<open>table_cipher\<close>, interpreted as \<open>fwd\<close> and \<open>bwd\<close>: a cipher over four words whose rounds refine
    rounds over sixteen bytes.

  \<^bold>\<open>What is shown.\<close>
  \<^item> Cryptography: the SHA-1, HMAC, PBKDF2 and AES of the code are those of the standards for all
    inputs in range; key wrapping is inverted by unwrapping in both modes, and
    unwrapping accepts nothing without the integrity value; the pairwise key is
    PRF-512 of 802.11i; the group key is the one the authenticator wrapped.
  \<^item> Handshakes: the answers to messages 1 and 3 and to the group key message carry a code that an
    authenticator with the same master key verifies; keys are installed in order; frames of other kinds are dropped.
  \<^item> Scanning and connecting: a round of the scan probes each channel once, an access point that was found is connected to
    within a bounded number of ticks, a lost one is searched for again.
  \<^item> Transport: what reaches the card for each packet, byte by byte with its padding and the command that carries it, what a block transfer
    moves, which lookahead is kept, where received frames are put.
  \<^item> Invariants: every handler keeps the driver's state well-formed, and so does every
    interleaving of the two processors from the initial state. The channel index of the scan is not in that invariant: the tick keeps it
    inside its table when the domain has at most 31 channels, and only then.
  \<^item> Network stack: allocation of packets and their release, search across buffers, checksums equal to RFC 1071 for any alignment and
    division of the data, a list of timers that stays in order and is never lost across the wrap-around of the clock, callbacks that run
    exactly once, addresses whose text reads back.
  \<^item> Address resolution: the table never answers with anything but the address learned last, keeps one entry per address, replaces the entry worth
    least and drops entries exactly when they are too old; a request for the own address is answered with the right frame.
  \<^item> Errors: start without a card, forged key data, access points that are rejected after
    their credentials were copied, the inverted timeout test of reception, the lost tail of long received
    frames, the calls of the stack while its mailbox has not been created, the wait for a semaphore that gives up, the length field of sent frames. All but the first state
    behaviour the code has and does not mean to have.

  \<^bold>\<open>Abstractions.\<close> A handler runs to its end as one step; only the wait for the firmware is
  interleaved, as the code relies on interrupts there. Static variables are kept apart from
  \<open>mem\<close>, so an overflow of a buffer in memory changes memory but not a variable; the
  bounds that keep buffers separate are stated where they matter. \<open>mbedtls_platform_zeroize\<close> is empty in the sources
  and therefore absent here. Freeing heap memory is not modelled.

  \<^bold>\<open>Not modelled.\<close> The protocols of the lwIP stack above Ethernet and ARP (IP, UDP, TCP, DHCP, DNS, the socket layer and the rest of
  \<^verbatim>\<open>arm_host/source/lwip\<close>), a vendored library; of the modelled files, custom buffers, the splitting of overlong chains, the copying checksum, IPv6, the
  stack's thread, which this library does not start, and the string functions of \<^verbatim>\<open>def.c\<close>. The cipher modes, cipher table rows and self tests which the configuration of the crypto library leaves out or
  the driver never reaches; the delay and hexdump helpers; the compatibility functions for
  the older DS library, whose bodies are empty or only assert; the spin lock, which is assembly and
  has no callers in the modelled code; the test application.
\<close>

end
